(* ===== verification/Prelude.thy ===== *)
theory Prelude imports Main "HOL-Library.Word" begin

text \<open>
  Shared vocabulary of the development: the outcomes a C function can have (a value, or a
  fault where the C standard leaves the behaviour undefined), C integer arithmetic written
  out on mathematical integers, bounded busy-waiting loops, and the generic lemmas and
  theorem collections the component theories use.
\<close>

named_theorems c_int \<open>facts that evaluate or bound C integer conversions\<close>

named_theorems board_simps \<open>how the primitive effects act on the board state\<close>

section \<open>Faults\<close>

text \<open>
  A step of the program for which the C standard gives no meaning ends in a fault: a
  division by zero, an array access outside its bounds, a null pointer handed to a
  function that dereferences it, the use of a variable that was never assigned, the
  conversion of a floating value that does not fit the target type.
\<close>

datatype fault =
    DivByZero
  | OutOfBounds
  | NullPointer
  | Uninitialised
  | FloatRange

type_synonym 'a res = "fault + 'a"

definition res_bind :: "'a res \<Rightarrow> ('a \<Rightarrow> 'b res) \<Rightarrow> 'b res" where
  "res_bind r f = (case r of Inl e \<Rightarrow> Inl e | Inr x \<Rightarrow> f x)"

lemma res_bind_simps [simp]:
  "res_bind (Inl e) f = Inl e"
  "res_bind (Inr x) f = f x"
  by (simp_all add: res_bind_def)

lemma res_bind_eq_Inr:
  "res_bind r f = Inr y \<longleftrightarrow> (\<exists>x. r = Inr x \<and> f x = Inr y)"
  by (simp add: res_bind_def split: sum.splits)

lemma res_bind_eq_Inl:
  "res_bind r f = Inl e \<longleftrightarrow> r = Inl e \<or> (\<exists>x. r = Inr x \<and> f x = Inl e)"
  by (auto simp add: res_bind_def split: sum.splits)

text \<open>Reading an array of fixed size: an index past its end is a fault.\<close>

definition array_get :: "'a list \<Rightarrow> nat \<Rightarrow> 'a res" where
  "array_get xs i = (if i < length xs then Inr (xs ! i) else Inl OutOfBounds)"

section \<open>C integers\<close>

text \<open>
  Values of the types \<open>int\<close> and \<open>int32_t\<close> are integers in \<open>[-2^31, 2^31)\<close>, values of
  \<open>uint32_t\<close>, \<open>size_t\<close> and \<open>TickType_t\<close> integers in \<open>[0, 2^32)\<close>. \<open>i32\<close> and \<open>u32\<close> bring the
  exact result of an operation back into range the way the Cortex-M4 does.
\<close>

definition i32 :: "int \<Rightarrow> int" where
  "i32 x = (x + 2147483648) mod 4294967296 - 2147483648"

definition u32 :: "int \<Rightarrow> int" where
  "u32 x = x mod 4294967296"

definition u16 :: "int \<Rightarrow> int" where
  "u16 x = x mod 65536"

definition is_i32 :: "int \<Rightarrow> bool" where
  "is_i32 x \<longleftrightarrow> - 2147483648 \<le> x \<and> x < 2147483648"

definition is_u32 :: "int \<Rightarrow> bool" where
  "is_u32 x \<longleftrightarrow> 0 \<le> x \<and> x < 4294967296"

lemma i32_id [c_int]: "- 2147483648 \<le> x \<Longrightarrow> x < 2147483648 \<Longrightarrow> i32 x = x"
  by (simp add: i32_def)

lemma u32_id [c_int]: "0 \<le> x \<Longrightarrow> x < 4294967296 \<Longrightarrow> u32 x = x"
  by (simp add: u32_def)

lemma u16_id [c_int]: "0 \<le> x \<Longrightarrow> x < 65536 \<Longrightarrow> u16 x = x"
  by (simp add: u16_def)

lemma is_i32_i32 [simp, intro]: "is_i32 (i32 x)"
  by (simp add: is_i32_def i32_def)

lemma is_u32_u32 [simp, intro]: "is_u32 (u32 x)"
  by (simp add: is_u32_def u32_def)

lemma u16_range [c_int]: "0 \<le> u16 x" "u16 x < 65536"
  by (simp_all add: u16_def)

lemma c_int_0 [simp]: "i32 0 = 0" "u32 0 = 0" "u16 0 = 0"
  by (simp_all add: i32_def u32_def u16_def)

lemma i32_i32 [simp]: "i32 (i32 x) = i32 x"
  using is_i32_i32 [of x] by (simp add: is_i32_def i32_id)

text \<open>Unsigned division traps the divisor zero.\<close>

definition udiv :: "int \<Rightarrow> int \<Rightarrow> int res" where
  "udiv a b = (if b = 0 then Inl DivByZero else Inr (a div b))"

text \<open>\<open>abs\<close> on \<open>int\<close>; the magnitude of the least value does not fit and wraps.\<close>

definition c_abs :: "int \<Rightarrow> int" where
  "c_abs x = i32 (abs x)"

section \<open>Decimal numerals\<close>

text \<open>What \<open>printf\<close> writes for \<open>%u\<close>, \<open>%d\<close> and \<open>%i\<close>.\<close>

definition digit_char :: "int \<Rightarrow> char" where
  "digit_char d = char_of (48 + d)"

function show_digits :: "int \<Rightarrow> string" where
  "show_digits x = (if x < 10 then [digit_char x] else show_digits (x div 10) @ [digit_char (x mod 10)])"
  by pat_completeness auto

termination show_digits by (relation "measure nat") auto

declare show_digits.simps [simp del]

definition show_int :: "int \<Rightarrow> string" where
  "show_int x = (if x < 0 then CHR ''-'' # show_digits (- x) else show_digits x)"

section \<open>Busy waiting\<close>

text \<open>
  The source waits for hardware with loops \<open>while (status()) { }\<close>. The successive answers
  of the hardware are an input: \<open>busy k\<close> is the answer to the \<open>k\<close>-th poll. The loop yields
  the number of polls, and does not return (\<open>None\<close>) when the hardware stays busy for ever.
\<close>

partial_function (option) wait_while :: "(nat \<Rightarrow> bool) \<Rightarrow> nat \<Rightarrow> nat option" where
  "wait_while busy k = (if busy k then wait_while busy (Suc k) else Some (Suc k))"

declare wait_while.simps [code]

lemma wait_while_done: "\<not> busy k \<Longrightarrow> wait_while busy k = Some (Suc k)"
  by (simp add: wait_while.simps)

lemma wait_while_returns:
  "\<not> busy (k + d) \<Longrightarrow> \<exists>n. wait_while busy k = Some n \<and> k < n \<and> n \<le> Suc (k + d)"
proof (induction d arbitrary: k)
  case 0
  then show ?case by (simp add: wait_while.simps)
next
  case (Suc d)
  show ?case
  proof (cases "busy k")
    case True
    from Suc.prems have "\<not> busy (Suc k + d)" by simp
    from Suc.IH [OF this] True show ?thesis by (auto simp: wait_while.simps [of busy k])
  next
    case False
    then show ?thesis by (simp add: wait_while.simps)
  qed
qed

lemma wait_while_busy_prefix:
  assumes "wait_while busy k = Some n"
  shows "\<not> busy (n - 1) \<and> k < n"
proof (rule wait_while.raw_induct [where P = "\<lambda>busy k n. \<not> busy (n - 1) \<and> k < n", OF _ assms])
  fix f busy k n
  assume IH: "\<And>busy k n. f busy k = Some n \<Longrightarrow> \<not> busy (n - 1) \<and> k < n"
    and eq: "(if busy k then f busy (Suc k) else Some (Suc k)) = Some n"
  show "\<not> busy (n - 1) \<and> k < n"
  proof (cases "busy k")
    case True
    with eq IH [of busy "Suc k" n] show ?thesis by simp
  next
    case False
    with eq show ?thesis by auto
  qed
qed

lemma wait_while_terminates_iff:
  "(\<exists>n. wait_while busy k = Some n) \<longleftrightarrow> (\<exists>d. \<not> busy (k + d))"
proof
  assume "\<exists>n. wait_while busy k = Some n"
  then obtain n where n: "wait_while busy k = Some n" ..
  with wait_while_busy_prefix have "\<not> busy (n - 1)" "k < n" by blast+
  then have "\<not> busy (k + (n - 1 - k))" by simp
  then show "\<exists>d. \<not> busy (k + d)" by blast
next
  assume "\<exists>d. \<not> busy (k + d)"
  then show "\<exists>n. wait_while busy k = Some n" using wait_while_returns by blast
qed

section \<open>Lists\<close>

text \<open>Bounded first-in first-out insertion: a full queue refuses the message.\<close>

definition push_bounded :: "nat \<Rightarrow> 'a \<Rightarrow> 'a list \<Rightarrow> 'a list" where
  "push_bounded cap x q = (if length q < cap then q @ [x] else q)"

lemma length_push_bounded: "length q \<le> cap \<Longrightarrow> length (push_bounded cap x q) \<le> cap"
  by (simp add: push_bounded_def)

lemma set_push_bounded: "set (push_bounded cap x q) \<subseteq> insert x (set q)"
  by (auto simp: push_bounded_def)

section \<open>Configuration of the kernel\<close>

definition configMAX_PRIORITIES :: nat where "configMAX_PRIORITIES = 5"

end
