(* ===== verification/Heap.thy ===== *)
theory Heap imports Prelude begin

text \<open>
  The allocator as its clients see it. \<open>pvPortMalloc\<close> (freertos/src/heap_4.c), which parson
  calls through the pointer \<open>parson_malloc\<close>, may refuse any request; which requests it refuses
  is the input \<open>grants\<close>, a function of the number of the call and the size asked for. The
  state counts the requests made and the blocks that are allocated and not yet freed.
\<close>

record mem =
  live :: int
  calls :: nat
  grants :: "nat \<Rightarrow> nat \<Rightarrow> bool"

definition configTOTAL_HEAP_SIZE :: nat where
  "configTOTAL_HEAP_SIZE = 40 * 1024"

definition pvPortMalloc :: "nat \<Rightarrow> mem \<Rightarrow> bool \<times> mem" where
  "pvPortMalloc n m =
     (if grants m (calls m) n then (True, m\<lparr>live := live m + 1, calls := Suc (calls m)\<rparr>)
      else (False, m\<lparr>calls := Suc (calls m)\<rparr>))"

definition vPortFree :: "mem \<Rightarrow> mem" where
  "vPortFree m = m\<lparr>live := live m - 1\<rparr>"

text \<open>What the heap's size says of every successful request.\<close>

definition heap_bounded :: "mem \<Rightarrow> bool" where
  "heap_bounded m \<longleftrightarrow> (\<forall>k n. grants m k n \<longrightarrow> n \<le> configTOTAL_HEAP_SIZE)"

lemma pvPortMalloc_True:
  "pvPortMalloc n m = (True, m') \<Longrightarrow>
     live m' = live m + 1 \<and> grants m' = grants m \<and> grants m (calls m) n"
  by (auto simp: pvPortMalloc_def split: if_splits)

lemma pvPortMalloc_False:
  "pvPortMalloc n m = (False, m') \<Longrightarrow> live m' = live m \<and> grants m' = grants m"
  by (auto simp: pvPortMalloc_def split: if_splits)

lemma grants_pvPortMalloc [simp]: "grants (snd (pvPortMalloc n m)) = grants m"
  by (simp add: pvPortMalloc_def)

lemma grants_vPortFree [simp]: "grants (vPortFree m) = grants m"
  by (simp add: vPortFree_def)

lemma live_vPortFree [simp]: "live (vPortFree m) = live m - 1"
  by (simp add: vPortFree_def)

lemma pvPortMalloc_bounded:
  "heap_bounded m \<Longrightarrow> pvPortMalloc n m = (True, m') \<Longrightarrow> n \<le> configTOTAL_HEAP_SIZE"
  by (auto simp: heap_bounded_def dest: pvPortMalloc_True)

text \<open>An allocator that refuses nothing that fits the heap, for closed examples.\<close>

definition mem_ample :: mem where
  "mem_ample = \<lparr>live = 0, calls = 0, grants = (\<lambda>_ n. int n \<le> 40960)\<rparr>"

lemma heap_bounded_mem_ample: "heap_bounded mem_ample"
  by (simp add: heap_bounded_def mem_ample_def configTOTAL_HEAP_SIZE_def)

end
