(* ===== verification/Board.thy ===== *)
theory Board imports Heap begin

text \<open>
  The board the firmware runs on (nfc/src/gpio.c, relay.c, debug.c and the macro \<open>lDebug\<close> of
  nfc/inc/debug.h). The vendor's chip library is not part of the repository: a call to it is
  recorded, with its arguments and in program order, in the list \<open>trace\<close>, and what it
  answers is an input of the operation that asks. \<open>vTaskDelay\<close> of the kernel is recorded the
  same way. Log messages go to the serial line and to the queue \<open>debug_queue\<close> of at most ten
  messages that the command LOGS empties.
\<close>

section \<open>Peripherals and the calls made to them\<close>

datatype scu_flag =
    SCU_MODE_FUNC0 | SCU_MODE_FUNC4 | SCU_MODE_PULLUP | SCU_MODE_INBUFF_EN

datatype lpc_timer = LPC_TIMER1 | LPC_TIMER2 | LPC_TIMER3

datatype rgu_rst = RGU_TIMER1_RST | RGU_TIMER2_RST | RGU_TIMER3_RST | RGU_CORE_RST

datatype clk_mx = CLK_MX_TIMER1 | CLK_MX_TIMER2 | CLK_MX_TIMER3

datatype irqn =
    TIMER1_IRQn | TIMER2_IRQn | TIMER3_IRQn | PIN_INT0_IRQn | PIN_INT1_IRQn | PIN_INT2_IRQn

datatype hw_call =
    Chip_SCU_PinMuxSet int int "scu_flag list"
  | Chip_GPIO_SetPinDIROutput int int
  | Chip_GPIO_SetPinDIRInput int int
  | Chip_GPIO_SetPinState int int bool
  | Chip_GPIO_SetPinToggle int int
  | Chip_TIMER_Init lpc_timer
  | Chip_TIMER_Reset lpc_timer
  | Chip_TIMER_MatchEnableInt lpc_timer nat
  | Chip_TIMER_ResetOnMatchEnable lpc_timer nat
  | Chip_TIMER_SetMatch lpc_timer nat int
  | Chip_TIMER_ClearMatch lpc_timer nat
  | Chip_TIMER_Enable lpc_timer
  | Chip_TIMER_Disable lpc_timer
  | Chip_RGU_TriggerReset rgu_rst
  | Chip_RGU_InReset rgu_rst
  | NVIC_ClearPendingIRQ irqn
  | NVIC_SetPriority irqn int
  | NVIC_EnableIRQ irqn
  | NVIC_DisableIRQ irqn
  | Chip_SCU_GPIOIntPinSel nat int int
  | Chip_PININT_ClearIntStatus nat
  | Chip_PININT_SetPinModeEdge nat
  | Chip_PININT_EnableIntLow nat
  | Chip_UART_SendBlocking string
  | Chip_EEPROM_Init
  | Chip_EEPROM_SetAutoProg_OFF
  | Chip_EEPROM_EraseProgramPage
  | VTaskDelay int

section \<open>Log levels\<close>

datatype debugLevels = Debug | Info | InfoLocal | Warn | Error

fun debug_rank :: "debugLevels \<Rightarrow> nat" where
  "debug_rank Debug = 0"
| "debug_rank Info = 1"
| "debug_rank InfoLocal = 2"
| "debug_rank Warn = 3"
| "debug_rank Error = 4"

lemma debug_rank_inject: "debug_rank a = debug_rank b \<longleftrightarrow> a = b"
  by (cases a; cases b) simp_all

instantiation debugLevels :: linorder
begin

definition less_eq_debugLevels :: "debugLevels \<Rightarrow> debugLevels \<Rightarrow> bool" where
  "less_eq_debugLevels a b \<longleftrightarrow> debug_rank a \<le> debug_rank b"

definition less_debugLevels :: "debugLevels \<Rightarrow> debugLevels \<Rightarrow> bool" where
  "less_debugLevels a b \<longleftrightarrow> debug_rank a < debug_rank b"

instance
  by standard
     (auto simp: less_eq_debugLevels_def less_debugLevels_def debug_rank_inject)

end

section \<open>The board state\<close>

text \<open>
  A pointer to one of the three global motor structures is the name of its axis. The queue of
  the motor supervisor holds such pointers; its handle is null until \<open>mot_pap_init\<close> creates it.
\<close>

datatype axis = X_AXIS | Y_AXIS | Z_AXIS

record board =
  trace :: "hw_call list"
  xTickCount :: int
  supervisor_queue :: "axis list option"
  heap :: mem
  uart_mutex :: bool
  uart :: "string list"
  debug_queue :: "string option list"
  debug_to_network :: bool
  debugLocalLevel :: debugLevels
  debugNetLevel :: debugLevels
  dbg_prefix :: "int \<Rightarrow> debugLevels \<Rightarrow> string \<Rightarrow> string"

definition emit :: "hw_call \<Rightarrow> board \<Rightarrow> board" where
  "emit c b = b\<lparr>trace := trace b @ [c]\<rparr>"

definition emits :: "hw_call list \<Rightarrow> board \<Rightarrow> board" where
  "emits cs b = b\<lparr>trace := trace b @ cs\<rparr>"

lemma emit_simps [board_simps, simp]:
  "trace (emit c b) = trace b @ [c]"
  "xTickCount (emit c b) = xTickCount b"
  "heap (emit c b) = heap b"
  "supervisor_queue (emit c b) = supervisor_queue b"
  "debug_queue (emit c b) = debug_queue b"
  by (simp_all add: emit_def)

lemma emits_simps [board_simps, simp]:
  "trace (emits cs b) = trace b @ cs"
  "xTickCount (emits cs b) = xTickCount b"
  "heap (emits cs b) = heap b"
  "supervisor_queue (emits cs b) = supervisor_queue b"
  "debug_queue (emits cs b) = debug_queue b"
  by (simp_all add: emits_def)

definition board_init :: board where
  "board_init =
     \<lparr>trace = [], xTickCount = 0, supervisor_queue = None, heap = mem_ample, uart_mutex = False, uart = [],
      debug_queue = [], debug_to_network = True, debugLocalLevel = Info, debugNetLevel = Info,
      dbg_prefix = (\<lambda>_ _ _. [])\<rparr>"

section \<open>Logging\<close>

text \<open>
  \<open>levelText\<close>, the two level setters and \<open>debugInit\<close> of debug.h and debug.c. The queue
  handle is created by \<open>debugInit\<close>; the mutex of the serial line is a flag that says it exists.
\<close>

fun levelText :: "debugLevels \<Rightarrow> string" where
  "levelText Debug = ''Debug''"
| "levelText Info = ''Info''"
| "levelText InfoLocal = ''Info''"
| "levelText Warn = ''Warn''"
| "levelText Error = ''Error''"

definition debugInit :: "board \<Rightarrow> board" where
  "debugInit b = b\<lparr>uart_mutex := True, debug_queue := []\<rparr>"

definition debugLocalSetLevel :: "debugLevels \<Rightarrow> board \<Rightarrow> board" where
  "debugLocalSetLevel lvl b = b\<lparr>debugLocalLevel := lvl\<rparr>"

definition debugNetSetLevel :: "debugLevels \<Rightarrow> board \<Rightarrow> board" where
  "debugNetSetLevel lvl b = b\<lparr>debugNetLevel := lvl\<rparr>"

definition debug_queue_length :: nat where
  "debug_queue_length = 10"

text \<open>
  \<open>make_message\<close> allocates one block for the formatted text and its terminating zero, or
  yields a null pointer. The prefix of a message (tick count, level, file, line and function)
  is rendered by \<open>dbg_prefix\<close>, an input; \<open>text\<close> is the formatted rest.
\<close>

definition make_message :: "string \<Rightarrow> mem \<Rightarrow> string option \<times> mem" where
  "make_message text m =
     (case pvPortMalloc (length text + 1) m of
        (True, m') \<Rightarrow> (Some text, m')
      | (False, m') \<Rightarrow> (None, m'))"

definition lDebug_uart :: "debugLevels \<Rightarrow> string \<Rightarrow> board \<Rightarrow> board" where
  "lDebug_uart level line b =
     (if debugLocalLevel b \<le> level \<and> uart_mutex b then b\<lparr>uart := uart b @ [line]\<rparr> else b)"

definition lDebug_net :: "debugLevels \<Rightarrow> string \<Rightarrow> board \<Rightarrow> board" where
  "lDebug_net level line b =
     (if debug_to_network b \<and> debugNetLevel b \<le> level \<and> level \<noteq> InfoLocal then
        (case make_message line (heap b) of
           (dbg_msg, m) \<Rightarrow>
             if length (debug_queue b) < debug_queue_length
             then b\<lparr>heap := m, debug_queue := debug_queue b @ [dbg_msg]\<rparr>
             else (case dbg_msg of
                     None \<Rightarrow> b\<lparr>heap := m\<rparr>
                   | Some _ \<Rightarrow> b\<lparr>heap := vPortFree m\<rparr>))
      else b)"

definition lDebug :: "debugLevels \<Rightarrow> string \<Rightarrow> string \<Rightarrow> board \<Rightarrow> board" where
  "lDebug level func text b =
     (let line = dbg_prefix b (xTickCount b) level func @ text
      in lDebug_net level line (lDebug_uart level line b))"

lemma lDebug_frame [simp, board_simps]:
  "trace (lDebug level func text b) = trace b"
  "xTickCount (lDebug level func text b) = xTickCount b"
  "supervisor_queue (lDebug level func text b) = supervisor_queue b"
  by (simp_all add: lDebug_def lDebug_net_def lDebug_uart_def Let_def split: prod.splits option.splits)

text \<open>
  The queue never holds more than ten messages, and every message in it owns exactly one
  allocated block: blocks outside the log neither appear nor disappear when a line is logged.
\<close>

definition msgs :: "string option list \<Rightarrow> string list" where
  "msgs q = List.map_filter id q"

lemma msgs_simps [simp]:
  "msgs [] = []"
  "msgs (Some x # q) = x # msgs q"
  "msgs (None # q) = msgs q"
  "msgs (p @ q) = msgs p @ msgs q"
  by (simp_all add: msgs_def map_filter_def)

definition queued_blocks :: "board \<Rightarrow> int" where
  "queued_blocks b = int (length (msgs (debug_queue b)))"

definition debug_ok :: "board \<Rightarrow> bool" where
  "debug_ok b \<longleftrightarrow> length (debug_queue b) \<le> debug_queue_length"

lemma lDebug_debug_ok: "debug_ok b \<Longrightarrow> debug_ok (lDebug level func text b)"
  by (simp add: debug_ok_def lDebug_def lDebug_net_def lDebug_uart_def Let_def
      split: prod.splits option.splits)

lemma lDebug_queue_length:
  "length (debug_queue (lDebug level func text b)) \<le> max 10 (length (debug_queue b))"
  by (simp add: debug_queue_length_def lDebug_def lDebug_net_def lDebug_uart_def Let_def
      split: prod.splits option.splits)

lemma lDebug_net_blocks:
  "live (heap (lDebug_net level line b)) - queued_blocks (lDebug_net level line b) =
   live (heap b) - queued_blocks b"
  by (auto simp: queued_blocks_def lDebug_net_def make_message_def pvPortMalloc_def)

lemma lDebug_uart_blocks:
  "live (heap (lDebug_uart level line b)) = live (heap b)"
  "queued_blocks (lDebug_uart level line b) = queued_blocks b"
  by (simp_all add: queued_blocks_def lDebug_uart_def)

lemma lDebug_blocks:
  "live (heap (lDebug level func text b)) - queued_blocks (lDebug level func text b) =
   live (heap b) - queued_blocks b"
  by (simp add: lDebug_def Let_def lDebug_net_blocks lDebug_uart_blocks)

section \<open>General purpose pins\<close>

record gpio_entry =
  scu_port :: int
  scu_pin :: int
  scu_mode :: "scu_flag list"
  gpio_port :: int
  gpio_bit :: int

definition mk_gpio :: "int \<Rightarrow> int \<Rightarrow> scu_flag list \<Rightarrow> int \<Rightarrow> int \<Rightarrow> gpio_entry" where
  "mk_gpio p n md gp gb =
     \<lparr>scu_port = p, scu_pin = n, scu_mode = md, gpio_port = gp, gpio_bit = gb\<rparr>"

definition pin_of :: "gpio_entry \<Rightarrow> int \<times> int" where
  "pin_of g = (gpio_port g, gpio_bit g)"

definition gpio_init_output :: "gpio_entry \<Rightarrow> board \<Rightarrow> board" where
  "gpio_init_output gpio b =
     emits [Chip_SCU_PinMuxSet (scu_port gpio) (scu_pin gpio) (scu_mode gpio),
            Chip_GPIO_SetPinDIROutput (gpio_port gpio) (gpio_bit gpio)] b"

definition gpio_init_input :: "gpio_entry \<Rightarrow> board \<Rightarrow> board" where
  "gpio_init_input gpio b =
     emits [Chip_SCU_PinMuxSet (scu_port gpio) (scu_pin gpio) (scu_mode gpio),
            Chip_GPIO_SetPinDIRInput (gpio_port gpio) (gpio_bit gpio)] b"

definition gpio_set_pin_state :: "gpio_entry \<Rightarrow> bool \<Rightarrow> board \<Rightarrow> board" where
  "gpio_set_pin_state gpio state b =
     emit (Chip_GPIO_SetPinState (gpio_port gpio) (gpio_bit gpio) state) b"

definition gpio_toggle :: "gpio_entry \<Rightarrow> board \<Rightarrow> board" where
  "gpio_toggle gpio b = emit (Chip_GPIO_SetPinToggle (gpio_port gpio) (gpio_bit gpio)) b"

lemma gpio_trace [simp, board_simps]:
  "trace (gpio_init_output g b) =
     trace b @ [Chip_SCU_PinMuxSet (scu_port g) (scu_pin g) (scu_mode g),
                Chip_GPIO_SetPinDIROutput (gpio_port g) (gpio_bit g)]"
  "trace (gpio_init_input g b) =
     trace b @ [Chip_SCU_PinMuxSet (scu_port g) (scu_pin g) (scu_mode g),
                Chip_GPIO_SetPinDIRInput (gpio_port g) (gpio_bit g)]"
  "trace (gpio_set_pin_state g s b) =
     trace b @ [Chip_GPIO_SetPinState (gpio_port g) (gpio_bit g) s]"
  "trace (gpio_toggle g b) = trace b @ [Chip_GPIO_SetPinToggle (gpio_port g) (gpio_bit g)]"
  by (simp_all add: gpio_init_output_def gpio_init_input_def gpio_set_pin_state_def gpio_toggle_def)

lemma gpio_frame [simp, board_simps]:
  "xTickCount (gpio_set_pin_state g s b) = xTickCount b"
  "xTickCount (gpio_toggle g b) = xTickCount b"
  "supervisor_queue (gpio_set_pin_state g s b) = supervisor_queue b"
  "supervisor_queue (gpio_toggle g b) = supervisor_queue b"
  by (simp_all add: gpio_set_pin_state_def gpio_toggle_def)

text \<open>The level of an output pin after a list of calls, from a starting level.\<close>

fun pin_level :: "int \<times> int \<Rightarrow> bool \<Rightarrow> hw_call list \<Rightarrow> bool" where
  "pin_level p v [] = v"
| "pin_level p v (c # cs) =
     pin_level p
       (case c of
          Chip_GPIO_SetPinState gp gb s \<Rightarrow> if (gp, gb) = p then s else v
        | Chip_GPIO_SetPinToggle gp gb \<Rightarrow> if (gp, gb) = p then \<not> v else v
        | _ \<Rightarrow> v) cs"

lemma pin_level_append [simp]: "pin_level p v (xs @ ys) = pin_level p (pin_level p v xs) ys"
  by (induction xs arbitrary: v) simp_all

text \<open>The pins a list of calls writes.\<close>

fun pins_written :: "hw_call list \<Rightarrow> (int \<times> int) set" where
  "pins_written [] = {}"
| "pins_written (c # cs) =
     (case c of
        Chip_GPIO_SetPinState gp gb s \<Rightarrow> {(gp, gb)}
      | Chip_GPIO_SetPinToggle gp gb \<Rightarrow> {(gp, gb)}
      | _ \<Rightarrow> {}) \<union> pins_written cs"

lemma pins_written_append [simp]: "pins_written (xs @ ys) = pins_written xs \<union> pins_written ys"
  by (induction xs) (simp_all add: Un_assoc)

lemma pin_level_untouched: "p \<notin> pins_written cs \<Longrightarrow> pin_level p v cs = v"
  by (induction cs arbitrary: v) (auto split: hw_call.splits)

text \<open>An operation that appends calls to the trace and writes no pin outside a set.\<close>

definition touches :: "(int \<times> int) set \<Rightarrow> board \<Rightarrow> board \<Rightarrow> bool" where
  "touches P b b' \<longleftrightarrow> (\<exists>cs. trace b' = trace b @ cs \<and> pins_written cs \<subseteq> P)"

lemma touches_refl [simp, intro]: "touches P b b"
  by (auto simp: touches_def)

lemma touches_same_trace: "trace b' = trace b \<Longrightarrow> touches P b b'"
  by (auto simp: touches_def)

lemma touches_trans [trans]: "touches P b c \<Longrightarrow> touches P c d \<Longrightarrow> touches P b d"
  unfolding touches_def by (metis append.assoc pins_written_append Un_least)

lemma touches_mono: "touches P b c \<Longrightarrow> P \<subseteq> Q \<Longrightarrow> touches Q b c"
  by (auto simp: touches_def)

lemma touches_cong:
  "trace c = trace b \<Longrightarrow> trace c' = trace b' \<Longrightarrow> touches P c c' = touches P b b'"
  by (simp add: touches_def)

lemma touches_emits: "pins_written cs \<subseteq> P \<Longrightarrow> touches P b (emits cs b)"
  by (auto simp: touches_def)

lemma touches_emit: "pins_written [c] \<subseteq> P \<Longrightarrow> touches P b (emit c b)"
  by (auto simp: touches_def)

lemma touches_pin_level:
  assumes "touches P b b'" "p \<notin> P"
  shows "pin_level p v (trace b') = pin_level p v (trace b)"
proof -
  from assms(1) obtain cs where "trace b' = trace b @ cs" "pins_written cs \<subseteq> P"
    by (auto simp: touches_def)
  moreover from this(2) assms(2) have "p \<notin> pins_written cs" by blast
  ultimately show ?thesis by (simp add: pin_level_untouched)
qed

lemma touches_lDebug [simp, intro]: "touches P b (lDebug level func text b)"
  by (rule touches_same_trace) simp

section \<open>Relays\<close>

definition relay_1 :: gpio_entry where "relay_1 = mk_gpio 2 1 [SCU_MODE_FUNC4] 5 1"

definition relay_2 :: gpio_entry where "relay_2 = mk_gpio 4 5 [SCU_MODE_FUNC0] 2 6"

definition relay_3 :: gpio_entry where "relay_3 = mk_gpio 4 6 [SCU_MODE_FUNC0] 2 5"

definition relay_4 :: gpio_entry where "relay_4 = mk_gpio 4 4 [SCU_MODE_FUNC0] 2 4"

definition relay_init :: "board \<Rightarrow> board" where
  "relay_init b =
     (let b = gpio_set_pin_state relay_1 False (gpio_init_output relay_1 b);
          b = gpio_set_pin_state relay_2 False (gpio_init_output relay_2 b);
          b = gpio_set_pin_state relay_3 False (gpio_init_output relay_3 b)
      in gpio_set_pin_state relay_4 False (gpio_init_output relay_4 b))"

definition relay_main_pwr :: "bool \<Rightarrow> board \<Rightarrow> board" where
  "relay_main_pwr state b = gpio_set_pin_state relay_1 state b"

definition relay_spare_led :: "bool \<Rightarrow> board \<Rightarrow> board" where
  "relay_spare_led state b = gpio_set_pin_state relay_4 state b"

lemmas relay_pins = relay_1_def relay_2_def relay_3_def relay_4_def mk_gpio_def pin_of_def

definition main_pwr_pin :: "int \<times> int" where "main_pwr_pin = pin_of relay_1"

lemma main_pwr_pin_eq [simp]: "main_pwr_pin = (5, 1)"
  by (simp add: main_pwr_pin_def relay_pins)

lemma relay_main_pwr_trace [simp]:
  "trace (relay_main_pwr s b) = trace b @ [Chip_GPIO_SetPinState 5 1 s]"
  by (simp add: relay_main_pwr_def relay_pins)

lemma relay_spare_led_trace [simp]:
  "trace (relay_spare_led s b) = trace b @ [Chip_GPIO_SetPinState 2 4 s]"
  by (simp add: relay_spare_led_def relay_pins)

lemma relay_frame [simp]:
  "xTickCount (relay_main_pwr s b) = xTickCount b"
  "xTickCount (relay_spare_led s b) = xTickCount b"
  "supervisor_queue (relay_main_pwr s b) = supervisor_queue b"
  "supervisor_queue (relay_spare_led s b) = supervisor_queue b"
  by (simp_all add: relay_main_pwr_def relay_spare_led_def)

lemma touches_gpio:
  "pin_of g \<in> P \<Longrightarrow> touches P b (gpio_set_pin_state g s b)"
  "pin_of g \<in> P \<Longrightarrow> touches P b (gpio_toggle g b)"
  "touches P b (gpio_init_output g b)"
  "touches P b (gpio_init_input g b)"
  by (simp_all add: gpio_set_pin_state_def gpio_toggle_def gpio_init_output_def
      gpio_init_input_def pin_of_def touches_emit touches_emits)

lemma touches_relay_main_pwr: "touches {main_pwr_pin} b (relay_main_pwr s b)"
  by (simp add: relay_main_pwr_def touches_gpio main_pwr_pin_def del: main_pwr_pin_eq)

end
