(* ===== verification/Tmr.thy ===== *)
theory Tmr imports Board begin

text \<open>
  The step timers (nfc/src/tmr.c, nfc/inc/tmr.h): the record \<open>tmr\<close> and the operations that
  program, start and stop the timer that paces the pulses of one axis. The clock rate of the
  timer's branch and the answers of the status registers are inputs.
\<close>

record tmr =
  started :: bool
  lpc_timer :: lpc_timer
  rgu_timer_rst :: rgu_rst
  clk_mx_timer :: clk_mx
  timer_IRQn :: irqn

definition MOT_PAP_COMPUMOTOR_MAX_FREQ :: int where
  "MOT_PAP_COMPUMOTOR_MAX_FREQ = 300000"

definition TMR_INTERRUPT_PRIORITY :: int where
  "TMR_INTERRUPT_PRIORITY = 5 + 2"

text \<open>
  \<open>tmr_init\<close> waits until the reset line is released. \<open>in_reset k\<close> is the answer to the
  \<open>k\<close>-th poll; the result is \<open>None\<close> when the line is never released.
\<close>

definition tmr_init :: "(nat \<Rightarrow> bool) \<Rightarrow> tmr \<Rightarrow> board \<Rightarrow> board option" where
  "tmr_init in_reset me b =
     (case wait_while in_reset 0 of
        None \<Rightarrow> None
      | Some polls \<Rightarrow>
          Some (emits
            ([Chip_TIMER_Init (lpc_timer me), Chip_RGU_TriggerReset (rgu_timer_rst me)]
             @ replicate polls (Chip_RGU_InReset (rgu_timer_rst me))
             @ [Chip_TIMER_Reset (lpc_timer me),
                Chip_TIMER_MatchEnableInt (lpc_timer me) 1,
                Chip_TIMER_ResetOnMatchEnable (lpc_timer me) 1]) b))"

definition tmr_set_freq :: "(clk_mx \<Rightarrow> int) \<Rightarrow> tmr \<Rightarrow> int \<Rightarrow> board \<Rightarrow> (int \<times> board) res" where
  "tmr_set_freq rate me tick_rate_hz b =
     (let b = emit (Chip_TIMER_Reset (lpc_timer me)) b
      in if tick_rate_hz < 0 \<or> tick_rate_hz > MOT_PAP_COMPUMOTOR_MAX_FREQ then Inr (- 1, b)
         else
           (let timerFreq = rate (clk_mx_timer me);
                tick_rate_hz = u32 (tick_rate_hz * 2)
            in res_bind (udiv timerFreq tick_rate_hz)
                 (\<lambda>m. Inr (0, emit (Chip_TIMER_SetMatch (lpc_timer me) 1 m) b))))"

definition tmr_start :: "tmr \<Rightarrow> board \<Rightarrow> tmr \<times> board" where
  "tmr_start me b =
     (me\<lparr>started := True\<rparr>,
      emits [NVIC_ClearPendingIRQ (timer_IRQn me),
             Chip_TIMER_Enable (lpc_timer me),
             NVIC_SetPriority (timer_IRQn me) TMR_INTERRUPT_PRIORITY,
             NVIC_EnableIRQ (timer_IRQn me)] b)"

definition tmr_stop :: "tmr \<Rightarrow> board \<Rightarrow> tmr \<times> board" where
  "tmr_stop me b =
     (me\<lparr>started := False\<rparr>,
      emits [Chip_TIMER_Disable (lpc_timer me),
             NVIC_DisableIRQ (timer_IRQn me),
             NVIC_ClearPendingIRQ (timer_IRQn me),
             Chip_TIMER_Reset (lpc_timer me)] b)"

definition tmr_started :: "tmr \<Rightarrow> int" where
  "tmr_started me = (if started me then 1 else 0)"

text \<open>\<open>pending\<close> is the answer of the match register, an input.\<close>

definition tmr_match_pending :: "bool \<Rightarrow> tmr \<Rightarrow> board \<Rightarrow> bool \<times> board" where
  "tmr_match_pending pending me b =
     (if pending then (True, emit (Chip_TIMER_ClearMatch (lpc_timer me) 1) b) else (False, b))"

section \<open>Lemmas\<close>

lemma tmr_start_simps [simp]:
  "started (fst (tmr_start t b))"
  "supervisor_queue (snd (tmr_start t b)) = supervisor_queue b"
  "xTickCount (snd (tmr_start t b)) = xTickCount b"
  "lpc_timer (fst (tmr_start t b)) = lpc_timer t"
  "clk_mx_timer (fst (tmr_start t b)) = clk_mx_timer t"
  "timer_IRQn (fst (tmr_start t b)) = timer_IRQn t"
  by (simp_all add: tmr_start_def)

lemma tmr_stop_simps [simp]:
  "\<not> started (fst (tmr_stop t b))"
  "supervisor_queue (snd (tmr_stop t b)) = supervisor_queue b"
  "xTickCount (snd (tmr_stop t b)) = xTickCount b"
  "lpc_timer (fst (tmr_stop t b)) = lpc_timer t"
  "clk_mx_timer (fst (tmr_stop t b)) = clk_mx_timer t"
  "timer_IRQn (fst (tmr_stop t b)) = timer_IRQn t"
  by (simp_all add: tmr_stop_def)

lemma tmr_touches [simp, intro]:
  "touches P b (snd (tmr_start t b))"
  "touches P b (snd (tmr_stop t b))"
  by (simp_all add: tmr_start_def tmr_stop_def touches_emits)

lemma tmr_set_freq_in_range:
  assumes "0 < hz" "hz \<le> MOT_PAP_COMPUMOTOR_MAX_FREQ"
  shows "tmr_set_freq rate t hz b =
    Inr (0, emits [Chip_TIMER_Reset (lpc_timer t),
                   Chip_TIMER_SetMatch (lpc_timer t) 1 (rate (clk_mx_timer t) div (2 * hz))] b)"
proof -
  have "u32 (hz * 2) = 2 * hz"
    using assms by (simp add: u32_id MOT_PAP_COMPUMOTOR_MAX_FREQ_def)
  with assms show ?thesis
    by (simp add: tmr_set_freq_def Let_def udiv_def emit_def emits_def)
qed

lemma tmr_set_freq_too_fast:
  "hz > MOT_PAP_COMPUMOTOR_MAX_FREQ \<Longrightarrow>
   tmr_set_freq rate t hz b = Inr (- 1, emit (Chip_TIMER_Reset (lpc_timer t)) b)"
  by (simp add: tmr_set_freq_def Let_def)

lemma tmr_set_freq_zero: "tmr_set_freq rate t 0 b = Inl DivByZero"
  by (simp add: tmr_set_freq_def Let_def udiv_def u32_def MOT_PAP_COMPUMOTOR_MAX_FREQ_def)

lemma tmr_set_freq_frame:
  "tmr_set_freq rate t hz b = Inr (r, b') \<Longrightarrow>
     supervisor_queue b' = supervisor_queue b \<and> xTickCount b' = xTickCount b \<and>
     touches P b b'"
  by (auto simp: tmr_set_freq_def Let_def udiv_def touches_def split: if_splits)

end
