(* ===== verification/MotPap.thy ===== *)
theory MotPap imports Tmr begin

text \<open>
  The stepper motor driver (nfc/src/mot_pap.c, nfc/inc/mot_pap.h): the structure of one axis,
  the movement commands, the supervisor that ramps the speed and detects a stalled motor, and
  the interrupt routine that makes the pulses. An operation maps the structure its pointer
  argument refers to and the board to their new values, or to a fault.
\<close>

section \<open>Data\<close>

datatype mot_pap_direction = MOT_PAP_DIRECTION_CW | MOT_PAP_DIRECTION_CCW

datatype mot_pap_type =
    MOT_PAP_TYPE_FREE_RUNNING
  | MOT_PAP_TYPE_CLOSED_LOOP
  | MOT_PAP_TYPE_STOP
  | MOT_PAP_TYPE_STEPS

record mot_pap_gpios =
  direction :: gpio_entry
  step :: gpio_entry

record mot_pap =
  name :: string
  mtype :: mot_pap_type
  dir :: mot_pap_direction
  posAct :: int
  posCmd :: int
  posCmdMiddle :: int
  requested_freq :: int
  freq_increment :: int
  freq_decrement :: int
  step_time :: int
  half_steps_to_quarter :: int
  freq_slope_relation_incr_to_decr :: int
  freq_delta :: int
  freq_delta_divider :: int
  time_delta :: int
  current_freq :: int
  already_there :: bool
  stalled :: bool
  last_pos :: int
  stalled_counter :: int
  gpios :: mot_pap_gpios
  tmr :: tmr
  last_dir :: mot_pap_direction
  half_pulses :: int
  offset :: int
  half_steps_requested :: int
  half_steps_curr :: int
  half_steps_to_middle :: int
  max_speed_reached_distance :: int
  ticks_last_time :: int
  max_speed_reached :: bool

definition MOT_PAP_MAX_FREQ :: int where "MOT_PAP_MAX_FREQ = 125000"
definition MOT_PAP_MAX_SPEED_FREE_RUN :: int where "MOT_PAP_MAX_SPEED_FREE_RUN = 8"
definition MOT_PAP_DIRECTION_CHANGE_DELAY_MS :: int where "MOT_PAP_DIRECTION_CHANGE_DELAY_MS = 500"
definition MOT_PAP_SUPERVISOR_RATE :: int where "MOT_PAP_SUPERVISOR_RATE = 625"
definition MOT_PAP_POS_THRESHOLD :: int where "MOT_PAP_POS_THRESHOLD = 6"
definition MOT_PAP_STALL_THRESHOLD :: int where "MOT_PAP_STALL_THRESHOLD = 3"
definition MOT_PAP_STALL_MAX_COUNT :: int where "MOT_PAP_STALL_MAX_COUNT = 40"

lemmas mot_pap_constants =
  MOT_PAP_MAX_FREQ_def MOT_PAP_MAX_SPEED_FREE_RUN_def MOT_PAP_DIRECTION_CHANGE_DELAY_MS_def
  MOT_PAP_SUPERVISOR_RATE_def MOT_PAP_POS_THRESHOLD_def MOT_PAP_STALL_THRESHOLD_def
  MOT_PAP_STALL_MAX_COUNT_def

definition mot_pap_free_run_freqs :: "int list" where
  "mot_pap_free_run_freqs = [0, 5, 15, 25, 50, 75, 100, 125]"

text \<open>The kernel's conversion of milliseconds to ticks, at 1000 ticks a second.\<close>

definition configTICK_RATE_HZ :: int where "configTICK_RATE_HZ = 1000"

definition pdMS_TO_TICKS :: "int \<Rightarrow> int" where
  "pdMS_TO_TICKS ms = u32 (u32 ms * configTICK_RATE_HZ) div 1000"

section \<open>Kernel services the driver uses\<close>

definition vTaskDelay :: "int \<Rightarrow> board \<Rightarrow> board" where
  "vTaskDelay ticks b = emit (VTaskDelay ticks) b"

text \<open>
  Sending to the supervisor queue from the interrupt routine: the queue holds one pointer, a
  send to a full queue is refused and the result is not looked at; sending to a handle that
  was never created runs into the kernel's assertion.
\<close>

definition xQueueSendFromISR :: "axis \<Rightarrow> board \<Rightarrow> board res" where
  "xQueueSendFromISR me b =
     (case supervisor_queue b of
        None \<Rightarrow> Inl NullPointer
      | Some q \<Rightarrow> Inr (b\<lparr>supervisor_queue := Some (push_bounded 1 me q)\<rparr>))"

text \<open>\<open>created\<close> tells whether the kernel could allocate the queue.\<close>

definition mot_pap_init :: "bool \<Rightarrow> board \<Rightarrow> board" where
  "mot_pap_init created b =
     (let b = b\<lparr>supervisor_queue := (if created then Some [] else None)\<rparr>
      in if created then lDebug Info ''mot_pap_init'' ''supervisor task created'' b else b)"

section \<open>Movement commands\<close>

definition mot_pap_direction_calculate :: "int \<Rightarrow> mot_pap_direction" where
  "mot_pap_direction_calculate error =
     (if error < 0 then MOT_PAP_DIRECTION_CW else MOT_PAP_DIRECTION_CCW)"

definition mot_pap_free_run_speed_ok :: "int \<Rightarrow> bool" where
  "mot_pap_free_run_speed_ok speed \<longleftrightarrow> speed > 0 \<and> speed \<le> MOT_PAP_MAX_SPEED_FREE_RUN"

definition dir_bit :: "mot_pap_direction \<Rightarrow> bool" where
  "dir_bit d = (case d of MOT_PAP_DIRECTION_CW \<Rightarrow> False | MOT_PAP_DIRECTION_CCW \<Rightarrow> True)"

definition dir_text :: "mot_pap_direction \<Rightarrow> string" where
  "dir_text d = (if d = MOT_PAP_DIRECTION_CW then ''CW'' else ''CCW'')"

text \<open>The three timer calls that end every command, on the timer of the axis.\<close>

definition mot_tmr_stop :: "mot_pap \<Rightarrow> board \<Rightarrow> mot_pap \<times> board" where
  "mot_tmr_stop me b = (case tmr_stop (tmr me) b of (t, b) \<Rightarrow> (me\<lparr>tmr := t\<rparr>, b))"

definition mot_tmr_restart ::
    "(clk_mx \<Rightarrow> int) \<Rightarrow> int \<Rightarrow> mot_pap \<Rightarrow> board \<Rightarrow> (mot_pap \<times> board) res" where
  "mot_tmr_restart rate freq me b =
     (case mot_tmr_stop me b of (me, b) \<Rightarrow>
        res_bind (tmr_set_freq rate (tmr me) (u32 freq) b)
          (\<lambda>(_, b). case tmr_start (tmr me) b of (t, b) \<Rightarrow> Inr (me\<lparr>tmr := t\<rparr>, b)))"

text \<open>
  A command that reverses a moving motor stops the timer and sleeps. The part of a command
  before the end of the sleep and the part after it are separate definitions, because other
  tasks run in between; the command itself is their composition.
\<close>

definition mot_pap_reverses :: "mot_pap \<Rightarrow> mot_pap_direction \<Rightarrow> bool" where
  "mot_pap_reverses me d \<longleftrightarrow> dir me \<noteq> d \<and> mtype me \<noteq> MOT_PAP_TYPE_STOP"

definition mot_pap_change_delay :: "mot_pap_direction \<Rightarrow> mot_pap \<Rightarrow> board \<Rightarrow> mot_pap \<times> board" where
  "mot_pap_change_delay d me b =
     (if mot_pap_reverses me d then
        (case mot_tmr_stop me b of (me, b) \<Rightarrow>
           (me, vTaskDelay (pdMS_TO_TICKS MOT_PAP_DIRECTION_CHANGE_DELAY_MS) b))
      else (me, b))"

definition mot_pap_clear_flags :: "mot_pap \<Rightarrow> mot_pap" where
  "mot_pap_clear_flags me = me\<lparr>stalled := False, stalled_counter := 0, already_there := False\<rparr>"

definition mot_pap_move_free_run_begin ::
    "mot_pap_direction \<Rightarrow> mot_pap \<Rightarrow> board \<Rightarrow> mot_pap \<times> board" where
  "mot_pap_move_free_run_begin d me b = mot_pap_change_delay d (mot_pap_clear_flags me) b"

definition mot_pap_move_free_run_end ::
    "(clk_mx \<Rightarrow> int) \<Rightarrow> mot_pap_direction \<Rightarrow> int \<Rightarrow> mot_pap \<Rightarrow> board \<Rightarrow> (mot_pap \<times> board) res" where
  "mot_pap_move_free_run_end rate d speed me b =
     (let me = me\<lparr>mtype := MOT_PAP_TYPE_FREE_RUNNING, dir := d\<rparr>;
          b = gpio_set_pin_state (direction (gpios me)) (dir_bit (dir me)) b
      in res_bind (array_get mot_pap_free_run_freqs (nat speed)) (\<lambda>f.
           let me = me\<lparr>requested_freq := i32 (u32 (f * 1000))\<rparr>
           in res_bind (mot_tmr_restart rate (requested_freq me) me b) (\<lambda>(me, b).
                Inr (me, lDebug Info ''mot_pap_move_free_run''
                  (name me @ '': FREE RUN, speed: '' @ show_int (requested_freq me)
                   @ '', direction: '' @ dir_text (dir me)) b))))"

definition mot_pap_move_free_run ::
    "(clk_mx \<Rightarrow> int) \<Rightarrow> mot_pap \<Rightarrow> mot_pap_direction \<Rightarrow> int \<Rightarrow> board \<Rightarrow> (mot_pap \<times> board) res" where
  "mot_pap_move_free_run rate me d speed b =
     (if mot_pap_free_run_speed_ok speed then
        (case mot_pap_move_free_run_begin d me b of (me, b) \<Rightarrow>
           mot_pap_move_free_run_end rate d speed me b)
      else
        Inr (me, lDebug Warn ''mot_pap_move_free_run''
          (name me @ '': chosen speed out of bounds '' @ show_int (i32 speed)) b))"

definition mot_pap_move_steps_begin ::
    "mot_pap_direction \<Rightarrow> mot_pap \<Rightarrow> board \<Rightarrow> mot_pap \<times> board" where
  "mot_pap_move_steps_begin d me b = mot_pap_change_delay d (mot_pap_clear_flags me) b"

definition mot_pap_move_steps_end ::
    "(clk_mx \<Rightarrow> int) \<Rightarrow> mot_pap_direction \<Rightarrow> int \<Rightarrow> int \<Rightarrow> int \<Rightarrow> int \<Rightarrow> mot_pap \<Rightarrow> board
     \<Rightarrow> (mot_pap \<times> board) res" where
  "mot_pap_move_steps_end rate d speed steps st step_amplitude_divider me b =
     (let me = me\<lparr>mtype := MOT_PAP_TYPE_STEPS, dir := d, half_steps_curr := 0,
                  step_time := i32 st, half_steps_requested := i32 (u32 (steps * 2))\<rparr>;
          b = gpio_set_pin_state (direction (gpios me)) (dir_bit (dir me)) b
      in res_bind (array_get mot_pap_free_run_freqs (nat speed)) (\<lambda>f.
           let me = me\<lparr>requested_freq := i32 (u32 (f * 1000))\<rparr>
           in res_bind (udiv (u32 (requested_freq me)) step_amplitude_divider) (\<lambda>q.
                let me = me\<lparr>freq_delta := i32 q\<rparr>;
                    me = me\<lparr>freq_slope_relation_incr_to_decr := 3\<rparr>;
                    me = me\<lparr>freq_increment := i32 (freq_slope_relation_incr_to_decr me * freq_delta me),
                            freq_decrement := freq_delta me,
                            current_freq := freq_delta me,
                            half_steps_to_quarter := half_steps_requested me div 4,
                            half_steps_to_middle := half_steps_requested me div 2,
                            max_speed_reached := False,
                            ticks_last_time := i32 (xTickCount b)\<rparr>
                in res_bind (mot_tmr_restart rate (current_freq me) me b) (\<lambda>(me, b).
                     Inr (me, lDebug Info ''mot_pap_move_steps''
                       (name me @ '': STEPS RUN, speed: '' @ show_int (u32 (requested_freq me))
                        @ '', direction: '' @ dir_text (dir me)) b)))))"

definition mot_pap_move_steps ::
    "(clk_mx \<Rightarrow> int) \<Rightarrow> mot_pap \<Rightarrow> mot_pap_direction \<Rightarrow> int \<Rightarrow> int \<Rightarrow> int \<Rightarrow> int \<Rightarrow> board
     \<Rightarrow> (mot_pap \<times> board) res" where
  "mot_pap_move_steps rate me d speed steps st step_amplitude_divider b =
     (if mot_pap_free_run_speed_ok speed then
        (case mot_pap_move_steps_begin d me b of (me, b) \<Rightarrow>
           mot_pap_move_steps_end rate d speed steps st step_amplitude_divider me b)
      else
        Inr (me, lDebug Warn ''mot_pap_move_steps''
          (name me @ '': chosen speed out of bounds '' @ show_int (i32 speed)) b))"

definition mot_pap_move_closed_loop_begin ::
    "int \<Rightarrow> mot_pap \<Rightarrow> board \<Rightarrow> mot_pap \<times> board" where
  "mot_pap_move_closed_loop_begin setpoint me b =
     (let me = me\<lparr>stalled := False, stalled_counter := 0, posCmd := setpoint\<rparr>;
          b = lDebug Info ''mot_pap_move_closed_loop''
                (name me @ '': CLOSED_LOOP posCmd: '' @ show_int (posCmd me)
                 @ '' posAct: '' @ show_int (posAct me)) b;
          error = i32 (posCmd me - posAct me);
          me = me\<lparr>already_there := c_abs error < MOT_PAP_POS_THRESHOLD\<rparr>
      in if already_there me then
           (case mot_tmr_stop me b of (me, b) \<Rightarrow>
              (me, lDebug Info ''mot_pap_move_closed_loop'' (name me @ '': already there'') b))
         else mot_pap_change_delay (mot_pap_direction_calculate error) me b)"

definition mot_pap_move_closed_loop_end ::
    "(clk_mx \<Rightarrow> int) \<Rightarrow> mot_pap_direction \<Rightarrow> mot_pap \<Rightarrow> board \<Rightarrow> (mot_pap \<times> board) res" where
  "mot_pap_move_closed_loop_end rate d me b =
     (let me = me\<lparr>mtype := MOT_PAP_TYPE_CLOSED_LOOP, dir := d\<rparr>;
          b = gpio_set_pin_state (direction (gpios me)) (dir_bit (dir me)) b;
          me = me\<lparr>requested_freq := MOT_PAP_MAX_FREQ\<rparr>
      in mot_tmr_restart rate (requested_freq me) me b)"

definition mot_pap_move_closed_loop ::
    "(clk_mx \<Rightarrow> int) \<Rightarrow> mot_pap \<Rightarrow> int \<Rightarrow> board \<Rightarrow> (mot_pap \<times> board) res" where
  "mot_pap_move_closed_loop rate me setpoint b =
     (let d = mot_pap_direction_calculate (i32 (setpoint - posAct me))
      in case mot_pap_move_closed_loop_begin setpoint me b of (me, b) \<Rightarrow>
           if already_there me then Inr (me, b)
           else mot_pap_move_closed_loop_end rate d me b)"

definition mot_pap_stop :: "mot_pap \<Rightarrow> board \<Rightarrow> mot_pap \<times> board" where
  "mot_pap_stop me b =
     (case mot_tmr_stop (me\<lparr>mtype := MOT_PAP_TYPE_STOP\<rparr>) b of (me, b) \<Rightarrow>
        (me, lDebug Info ''mot_pap_stop'' (name me @ '': STOP'') b))"

definition mot_pap_set_offset :: "mot_pap \<Rightarrow> int \<Rightarrow> mot_pap" where
  "mot_pap_set_offset me off = me\<lparr>offset := off\<rparr>"

definition mot_pap_update_position :: "mot_pap \<Rightarrow> mot_pap" where
  "mot_pap_update_position me = me"

end
