(* ===== verification/MotControl.thy ===== *)
theory MotControl imports MotPap begin

text \<open>
  The two control routines of a moving axis (nfc/src/mot_pap.c): the body of the supervisor
  task for one received message, and the timer interrupt routine. Their lemmas: what each does
  on every path, the ramp invariant the supervisor keeps, and the pulse count of a step run.
\<close>

section \<open>The supervisor\<close>

text \<open>
  Stall detection. The first component says whether the body jumps to its end.
\<close>

definition supervisor_stall :: "bool \<Rightarrow> mot_pap \<Rightarrow> board \<Rightarrow> bool \<times> mot_pap \<times> board" where
  "supervisor_stall stall_detection me b =
     (if stall_detection then
        (if c_abs (i32 (posAct me - last_pos me)) < MOT_PAP_STALL_THRESHOLD then
           (let me = me\<lparr>stalled_counter := u32 (stalled_counter me + 1)\<rparr>
            in if stalled_counter me \<ge> MOT_PAP_STALL_MAX_COUNT then
                 (case mot_tmr_stop (me\<lparr>stalled := True\<rparr>) b of (me, b) \<Rightarrow>
                    (True, me, relay_main_pwr False b))
               else (False, me, b))
         else (False, me\<lparr>stalled_counter := 0\<rparr>, b))
      else (False, me, b))"

definition first_half_passed :: "mot_pap \<Rightarrow> bool" where
  "first_half_passed me =
     (case mtype me of
        MOT_PAP_TYPE_STEPS \<Rightarrow> half_steps_curr me > half_steps_to_middle me
      | MOT_PAP_TYPE_CLOSED_LOOP \<Rightarrow>
          (if dir me = MOT_PAP_DIRECTION_CW then posAct me > posCmdMiddle me
           else posAct me < posCmdMiddle me)
      | _ \<Rightarrow> False)"

definition supervisor_accelerate :: "bool \<Rightarrow> mot_pap \<Rightarrow> mot_pap" where
  "supervisor_accelerate fhp me =
     (if \<not> max_speed_reached me \<and> \<not> fhp then
        (let me = me\<lparr>current_freq := i32 (current_freq me + freq_delta me)\<rparr>
         in if current_freq me \<ge> requested_freq me then
              (let me = me\<lparr>current_freq := requested_freq me, max_speed_reached := True\<rparr>
               in case mtype me of
                    MOT_PAP_TYPE_STEPS \<Rightarrow> me\<lparr>max_speed_reached_distance := half_steps_curr me\<rparr>
                  | MOT_PAP_TYPE_CLOSED_LOOP \<Rightarrow> me\<lparr>max_speed_reached_distance := posAct me\<rparr>
                  | _ \<Rightarrow> me)
            else me)
      else me)"

text \<open>The local \<open>distance_left\<close> is assigned in two of the four modes only.\<close>

definition distance_left :: "mot_pap \<Rightarrow> int option" where
  "distance_left me =
     (case mtype me of
        MOT_PAP_TYPE_STEPS \<Rightarrow> Some (i32 (half_steps_requested me - half_steps_curr me))
      | MOT_PAP_TYPE_CLOSED_LOOP \<Rightarrow> Some (i32 (posCmd me - posAct me))
      | _ \<Rightarrow> None)"

definition supervisor_brakes :: "bool \<Rightarrow> mot_pap \<Rightarrow> bool res" where
  "supervisor_brakes fhp me =
     (if max_speed_reached me then
        (case distance_left me of
           None \<Rightarrow> Inl Uninitialised
         | Some d \<Rightarrow> Inr (d \<le> max_speed_reached_distance me))
      else Inr fhp)"

definition supervisor_decelerate :: "mot_pap \<Rightarrow> mot_pap" where
  "supervisor_decelerate me =
     (let me = me\<lparr>current_freq := i32 (current_freq me - freq_delta me)\<rparr>
      in if current_freq me \<le> freq_delta me then me\<lparr>current_freq := freq_delta me\<rparr> else me)"

definition supervisor_ramp ::
    "(clk_mx \<Rightarrow> int) \<Rightarrow> int \<Rightarrow> mot_pap \<Rightarrow> board \<Rightarrow> (mot_pap \<times> board) res" where
  "supervisor_ramp rate ticks_now me b =
     (let fhp = first_half_passed me;
          me = supervisor_accelerate fhp me
      in res_bind (supervisor_brakes fhp me) (\<lambda>brakes.
           let me = (if brakes then supervisor_decelerate me else me)
           in res_bind (mot_tmr_restart rate (current_freq me) me b) (\<lambda>(me, b).
                Inr (me\<lparr>ticks_last_time := ticks_now\<rparr>, b))))"

definition supervisor_due :: "int \<Rightarrow> mot_pap \<Rightarrow> bool" where
  "supervisor_due ticks_now me \<longleftrightarrow>
     u32 (i32 (ticks_now - ticks_last_time me)) > pdMS_TO_TICKS (step_time me)"

definition mot_pap_supervisor_body ::
    "(clk_mx \<Rightarrow> int) \<Rightarrow> bool \<Rightarrow> mot_pap \<Rightarrow> board \<Rightarrow> (mot_pap \<times> board) res" where
  "mot_pap_supervisor_body rate stall_detection me b =
     (case supervisor_stall stall_detection me b of (jump, me, b) \<Rightarrow>
        if jump then Inr (me, b)
        else if stalled me then
          Inr (me, lDebug Warn ''mot_pap_supervisor_task'' (name me @ '': stalled'') b)
        else if already_there me then
          Inr (me, lDebug Info ''mot_pap_supervisor_task'' (name me @ '': position reached'') b)
        else
          (let ticks_now = i32 (xTickCount b)
           in if supervisor_due ticks_now me then supervisor_ramp rate ticks_now me b
              else Inr (me, b)))"

section \<open>The interrupt routine\<close>

definition isr_arrival :: "mot_pap \<Rightarrow> mot_pap" where
  "isr_arrival me =
     (case mtype me of
        MOT_PAP_TYPE_STEPS \<Rightarrow> me\<lparr>already_there := half_steps_curr me \<ge> half_steps_requested me\<rparr>
      | MOT_PAP_TYPE_CLOSED_LOOP \<Rightarrow>
          me\<lparr>already_there := c_abs (i32 (posCmd me - posAct me)) < MOT_PAP_POS_THRESHOLD\<rparr>
      | _ \<Rightarrow> me)"

definition isr_pulse :: "axis \<Rightarrow> mot_pap \<Rightarrow> board \<Rightarrow> (mot_pap \<times> board) res" where
  "isr_pulse ax me b =
     (let me = me\<lparr>half_steps_curr := i32 (half_steps_curr me + 1)\<rparr>;
          b = gpio_toggle (step (gpios me)) b;
          me = me\<lparr>half_pulses := i32 (half_pulses me + 1)\<rparr>
      in if half_pulses me = MOT_PAP_SUPERVISOR_RATE then
           res_bind (xQueueSendFromISR ax b) (\<lambda>b. Inr (me\<lparr>half_pulses := 0\<rparr>, b))
         else Inr (me, b))"

definition isr_stop :: "axis \<Rightarrow> mot_pap \<Rightarrow> board \<Rightarrow> (mot_pap \<times> board) res" where
  "isr_stop ax me b =
     (case mot_tmr_stop (me\<lparr>mtype := MOT_PAP_TYPE_STOP\<rparr>) b of (me, b) \<Rightarrow>
        res_bind (xQueueSendFromISR ax b) (\<lambda>b. Inr (me, b)))"

definition mot_pap_isr :: "int \<Rightarrow> axis \<Rightarrow> mot_pap \<Rightarrow> board \<Rightarrow> (mot_pap \<times> board) res" where
  "mot_pap_isr count_a ax me b =
     (let me = isr_arrival (me\<lparr>posAct := count_a\<rparr>)
      in res_bind (if already_there me then isr_stop ax me b else isr_pulse ax me b)
           (\<lambda>(me, b). Inr (me\<lparr>last_pos := posAct me\<rparr>, b)))"

section \<open>Frame lemmas\<close>

lemma mot_tmr_stop_simps [simp]:
  "fst (mot_tmr_stop me b) = me\<lparr>tmr := (tmr me)\<lparr>started := False\<rparr>\<rparr>"
  "supervisor_queue (snd (mot_tmr_stop me b)) = supervisor_queue b"
  "xTickCount (snd (mot_tmr_stop me b)) = xTickCount b"
  "touches P b (snd (mot_tmr_stop me b))"
  by (simp_all add: mot_tmr_stop_def tmr_stop_def touches_emits)

text \<open>Restarting the timer: a fault for frequency 0, otherwise the timer runs.\<close>

lemma mot_tmr_restart_zero: "u32 f = 0 \<Longrightarrow> mot_tmr_restart rate f me b = Inl DivByZero"
  by (simp add: mot_tmr_restart_def tmr_set_freq_zero mot_tmr_stop_def split: prod.splits)

lemma mot_tmr_restart_Inr:
  assumes "0 < f" "f \<le> MOT_PAP_COMPUMOTOR_MAX_FREQ"
  shows "mot_tmr_restart rate f me b =
    Inr (me\<lparr>tmr := (tmr me)\<lparr>started := True\<rparr>\<rparr>,
         emits
          [Chip_TIMER_Disable (lpc_timer (tmr me)),
           NVIC_DisableIRQ (timer_IRQn (tmr me)),
           NVIC_ClearPendingIRQ (timer_IRQn (tmr me)),
           Chip_TIMER_Reset (lpc_timer (tmr me)),
           Chip_TIMER_Reset (lpc_timer (tmr me)),
           Chip_TIMER_SetMatch (lpc_timer (tmr me)) 1 (rate (clk_mx_timer (tmr me)) div (2 * f)),
           NVIC_ClearPendingIRQ (timer_IRQn (tmr me)),
           Chip_TIMER_Enable (lpc_timer (tmr me)),
           NVIC_SetPriority (timer_IRQn (tmr me)) TMR_INTERRUPT_PRIORITY,
           NVIC_EnableIRQ (timer_IRQn (tmr me))] b)"
proof -
  from assms have "u32 f = f" by (simp add: u32_id MOT_PAP_COMPUMOTOR_MAX_FREQ_def)
  with assms show ?thesis
    by (simp add: mot_tmr_restart_def mot_tmr_stop_def tmr_stop_def tmr_start_def
        tmr_set_freq_in_range emits_def)
qed

lemma mot_tmr_restart_frame:
  assumes "mot_tmr_restart rate f me b = Inr (me', b')"
  shows "me' = me\<lparr>tmr := (tmr me)\<lparr>started := True\<rparr>\<rparr>
     \<and> supervisor_queue b' = supervisor_queue b \<and> xTickCount b' = xTickCount b
     \<and> touches P b b'"
proof -
  obtain me1 b1 where one: "mot_tmr_stop me b = (me1, b1)" by fastforce
  with assms obtain r b2 where two: "tmr_set_freq rate (tmr me1) (u32 f) b1 = Inr (r, b2)"
    and three: "me' = me1\<lparr>tmr := fst (tmr_start (tmr me1) b2)\<rparr>" "b' = snd (tmr_start (tmr me1) b2)"
    by (auto simp: mot_tmr_restart_def res_bind_eq_Inr split_beta)
  have me1: "me1 = me\<lparr>tmr := (tmr me)\<lparr>started := False\<rparr>\<rparr>" "b1 = snd (mot_tmr_stop me b)"
    using one mot_tmr_stop_simps(1) [of me b] by simp_all
  have "touches P b b1" "touches P b1 b2" "touches P b2 b'"
    using tmr_set_freq_frame [OF two, of P] by (simp_all add: me1 three)
  then have "touches P b b'" by (blast intro: touches_trans)
  then show ?thesis
    using tmr_set_freq_frame [OF two] by (simp add: me1 three tmr_start_def)
qed

section \<open>The speed ramp\<close>

definition ramp_ok :: "mot_pap \<Rightarrow> bool" where
  "ramp_ok me \<longleftrightarrow>
     0 < freq_delta me \<and> freq_delta me \<le> current_freq me \<and>
     current_freq me \<le> requested_freq me \<and> requested_freq me \<le> MOT_PAP_MAX_FREQ"

lemma ramp_ok_tmr [simp]: "ramp_ok (me\<lparr>tmr := t\<rparr>) = ramp_ok me"
  by (simp add: ramp_ok_def)

lemma ramp_ok_accelerate:
  assumes "ramp_ok me"
  shows "ramp_ok (supervisor_accelerate fhp me)"
proof -
  have "i32 (current_freq me + freq_delta me) = current_freq me + freq_delta me"
    using assms by (simp add: ramp_ok_def i32_id MOT_PAP_MAX_FREQ_def)
  with assms show ?thesis
    by (auto simp: supervisor_accelerate_def ramp_ok_def Let_def split: mot_pap_type.splits)
qed

lemma ramp_ok_decelerate:
  assumes "ramp_ok me"
  shows "ramp_ok (supervisor_decelerate me)"
proof -
  have "i32 (current_freq me - freq_delta me) = current_freq me - freq_delta me"
    using assms by (simp add: ramp_ok_def i32_id MOT_PAP_MAX_FREQ_def)
  with assms show ?thesis by (auto simp: supervisor_decelerate_def ramp_ok_def Let_def)
qed

lemma accelerate_frame [simp]:
  "mtype (supervisor_accelerate fhp me) = mtype me"
  "tmr (supervisor_accelerate fhp me) = tmr me"
  "gpios (supervisor_accelerate fhp me) = gpios me"
  "dir (supervisor_accelerate fhp me) = dir me"
  "posAct (supervisor_accelerate fhp me) = posAct me"
  "last_pos (supervisor_accelerate fhp me) = last_pos me"
  "half_steps_curr (supervisor_accelerate fhp me) = half_steps_curr me"
  "half_steps_requested (supervisor_accelerate fhp me) = half_steps_requested me"
  "stalled (supervisor_accelerate fhp me) = stalled me"
  "stalled_counter (supervisor_accelerate fhp me) = stalled_counter me"
  by (simp_all add: supervisor_accelerate_def Let_def split: mot_pap_type.splits)

lemma decelerate_frame [simp]:
  "mtype (supervisor_decelerate me) = mtype me"
  "tmr (supervisor_decelerate me) = tmr me"
  "gpios (supervisor_decelerate me) = gpios me"
  "dir (supervisor_decelerate me) = dir me"
  "posAct (supervisor_decelerate me) = posAct me"
  "last_pos (supervisor_decelerate me) = last_pos me"
  "half_steps_curr (supervisor_decelerate me) = half_steps_curr me"
  "half_steps_requested (supervisor_decelerate me) = half_steps_requested me"
  "stalled (supervisor_decelerate me) = stalled me"
  "stalled_counter (supervisor_decelerate me) = stalled_counter me"
  by (simp_all add: supervisor_decelerate_def Let_def)

lemma supervisor_brakes_Inr:
  "mtype me = MOT_PAP_TYPE_STEPS \<or> mtype me = MOT_PAP_TYPE_CLOSED_LOOP \<Longrightarrow>
   \<exists>x. supervisor_brakes fhp me = Inr x"
  by (cases "max_speed_reached me") (auto simp: supervisor_brakes_def distance_left_def)

lemma supervisor_ramp_steps:
  assumes "ramp_ok me" "mtype me = MOT_PAP_TYPE_STEPS"
  shows "\<exists>me' b'. supervisor_ramp rate ticks me b = Inr (me', b') \<and> ramp_ok me' \<and>
    mtype me' = MOT_PAP_TYPE_STEPS \<and> started (tmr me') \<and>
    Chip_TIMER_SetMatch (lpc_timer (tmr me)) 1
      (rate (clk_mx_timer (tmr me)) div (2 * current_freq me')) \<in> set (trace b')"
proof -
  define acc where "acc = supervisor_accelerate (first_half_passed me) me"
  have acc: "ramp_ok acc" "mtype acc = MOT_PAP_TYPE_STEPS" "tmr acc = tmr me"
    using assms by (simp_all add: acc_def ramp_ok_accelerate)
  then obtain brk where brk: "supervisor_brakes (first_half_passed me) acc = Inr brk"
    using supervisor_brakes_Inr by blast
  define fin where "fin = (if brk then supervisor_decelerate acc else acc)"
  have fin: "ramp_ok fin" "mtype fin = MOT_PAP_TYPE_STEPS" "tmr fin = tmr me"
    using acc by (simp_all add: fin_def ramp_ok_decelerate)
  then have "0 < current_freq fin" "current_freq fin \<le> MOT_PAP_COMPUMOTOR_MAX_FREQ"
    by (simp_all add: ramp_ok_def MOT_PAP_MAX_FREQ_def MOT_PAP_COMPUMOTOR_MAX_FREQ_def)
  note restart = mot_tmr_restart_Inr [OF this, of rate fin b]
  have "supervisor_ramp rate ticks me b =
      res_bind (mot_tmr_restart rate (current_freq fin) fin b)
        (\<lambda>(me, b). Inr (me\<lparr>ticks_last_time := ticks\<rparr>, b))"
    by (simp only: supervisor_ramp_def Let_def acc_def [symmetric] brk res_bind_simps
        fin_def [symmetric])
  with fin restart show ?thesis by (simp add: ramp_ok_def)
qed

section \<open>What the supervisor does with one message\<close>

lemma supervisor_stall_off [simp]: "supervisor_stall False me b = (False, me, b)"
  by (simp add: supervisor_stall_def)

lemma supervisor_stall_frame:
  assumes "supervisor_stall sd me b = (jump, me', b')"
  shows "mtype me' = mtype me \<and> gpios me' = gpios me \<and> dir me' = dir me \<and>
    posAct me' = posAct me \<and> last_pos me' = last_pos me \<and>
    half_steps_curr me' = half_steps_curr me \<and>
    half_steps_requested me' = half_steps_requested me \<and>
    ramp_ok me' = ramp_ok me \<and> supervisor_queue b' = supervisor_queue b \<and>
    xTickCount b' = xTickCount b \<and>
    touches {main_pwr_pin} b b' \<and>
    (jump \<longrightarrow> stalled me' \<and> \<not> started (tmr me')) \<and>
    (\<not> jump \<longrightarrow> b' = b \<and> stalled me' = stalled me \<and> tmr me' = tmr me)"
  using assms touches_trans [OF mot_tmr_stop_simps(4) touches_relay_main_pwr]
  by (auto simp: supervisor_stall_def Let_def split_beta ramp_ok_def
      split: if_splits)

text \<open>The message on which the stall counter reaches its limit cuts the motor's power.\<close>

lemma supervisor_stall_trips:
  assumes "c_abs (i32 (posAct me - last_pos me)) < MOT_PAP_STALL_THRESHOLD"
    and "MOT_PAP_STALL_MAX_COUNT \<le> u32 (stalled_counter me + 1)"
  shows "\<exists>me' b'. mot_pap_supervisor_body rate True me b = Inr (me', b') \<and> stalled me' \<and>
    \<not> started (tmr me') \<and> \<not> pin_level main_pwr_pin v (trace b')"
  using assms
  by (simp add: mot_pap_supervisor_body_def supervisor_stall_def Let_def
      split_beta)

lemma supervisor_stall_counts:
  assumes "c_abs (i32 (posAct me - last_pos me)) < MOT_PAP_STALL_THRESHOLD"
    and "u32 (stalled_counter me + 1) < MOT_PAP_STALL_MAX_COUNT"
  shows "supervisor_stall True me b =
    (False, me\<lparr>stalled_counter := u32 (stalled_counter me + 1)\<rparr>, b)"
  using assms by (simp add: supervisor_stall_def Let_def)

lemma supervisor_stall_resets:
  assumes "MOT_PAP_STALL_THRESHOLD \<le> c_abs (i32 (posAct me - last_pos me))"
  shows "supervisor_stall True me b = (False, me\<lparr>stalled_counter := 0\<rparr>, b)"
  using assms by (simp add: supervisor_stall_def)

lemma supervisor_body_steps_safe:
  assumes "ramp_ok me" "mtype me = MOT_PAP_TYPE_STEPS"
  shows "\<exists>me' b'. mot_pap_supervisor_body rate sd me b = Inr (me', b') \<and> ramp_ok me' \<and>
    mtype me' = MOT_PAP_TYPE_STEPS"
proof (cases "supervisor_stall sd me b")
  case (fields jump me1 b1)
  note frame = supervisor_stall_frame [OF fields]
  with assms have me1: "ramp_ok me1" "mtype me1 = MOT_PAP_TYPE_STEPS" by auto
  show ?thesis
    using me1 supervisor_ramp_steps [OF me1, of rate "i32 (xTickCount b1)" b1]
    by (auto simp: mot_pap_supervisor_body_def fields Let_def)
qed

section \<open>Outcomes of the movement commands\<close>

lemma mot_pap_change_delay_frame:
  assumes "mot_pap_change_delay d me b = (me', b')"
  shows "me' = (if mot_pap_reverses me d then me\<lparr>tmr := (tmr me)\<lparr>started := False\<rparr>\<rparr> else me) \<and>
    supervisor_queue b' = supervisor_queue b \<and> xTickCount b' = xTickCount b \<and>
    touches P b b'"
proof -
  have "touches P (snd (mot_tmr_stop me b)) (vTaskDelay n (snd (mot_tmr_stop me b)))" for n
    by (simp add: vTaskDelay_def touches_emit)
  from touches_trans [OF mot_tmr_stop_simps(4) this] assms show ?thesis
    by (auto simp: mot_pap_change_delay_def split_beta vTaskDelay_def)
qed

lemma free_run_freq_bounds:
  assumes "1 \<le> speed" "speed \<le> 7"
  shows "0 < mot_pap_free_run_freqs ! nat speed * 1000"
    and "mot_pap_free_run_freqs ! nat speed * 1000 \<le> MOT_PAP_MAX_FREQ"
    and "array_get mot_pap_free_run_freqs (nat speed) = Inr (mot_pap_free_run_freqs ! nat speed)"
proof -
  from assms have "speed \<in> {1, 2, 3, 4, 5, 6, 7}" by auto
  then show "0 < mot_pap_free_run_freqs ! nat speed * 1000"
    and "mot_pap_free_run_freqs ! nat speed * 1000 \<le> MOT_PAP_MAX_FREQ"
    and "array_get mot_pap_free_run_freqs (nat speed) = Inr (mot_pap_free_run_freqs ! nat speed)"
    by (auto simp: mot_pap_free_run_freqs_def array_get_def MOT_PAP_MAX_FREQ_def)
qed

lemma array_get_freqs_8: "array_get mot_pap_free_run_freqs 8 = Inl OutOfBounds"
  by (simp add: array_get_def mot_pap_free_run_freqs_def)

definition speed_freq :: "int \<Rightarrow> int" where
  "speed_freq speed = mot_pap_free_run_freqs ! nat speed * 1000"

lemma speed_freq_bounds:
  assumes "1 \<le> speed" "speed \<le> 7"
  shows "0 < speed_freq speed" "speed_freq speed \<le> MOT_PAP_MAX_FREQ"
    and "i32 (u32 (speed_freq speed)) = speed_freq speed"
    and "u32 (speed_freq speed) = speed_freq speed"
    and "speed_freq speed \<le> MOT_PAP_COMPUMOTOR_MAX_FREQ"
  using free_run_freq_bounds [OF assms]
  by (simp_all add: speed_freq_def c_int MOT_PAP_MAX_FREQ_def MOT_PAP_COMPUMOTOR_MAX_FREQ_def)

text \<open>A command that moves the motor writes no pin but its direction line.\<close>

definition sets_direction :: "mot_pap_direction \<Rightarrow> mot_pap \<Rightarrow> board \<Rightarrow> board \<Rightarrow> bool" where
  "sets_direction d me b b' \<longleftrightarrow>
     touches {pin_of (direction (gpios me))} b b' \<and>
     (\<forall>v. pin_level (pin_of (direction (gpios me))) v (trace b') = dir_bit d)"

lemma mot_pap_move_free_run_end_8: "mot_pap_move_free_run_end rate d 8 me b = Inl OutOfBounds"
  by (simp add: mot_pap_move_free_run_end_def Let_def array_get_freqs_8)

lemma mot_pap_move_free_run_end_ok:
  assumes "1 \<le> speed" "speed \<le> 7"
  shows "\<exists>b'. mot_pap_move_free_run_end rate d speed me b =
    Inr (me\<lparr>mtype := MOT_PAP_TYPE_FREE_RUNNING, dir := d, requested_freq := speed_freq speed,
           tmr := (tmr me)\<lparr>started := True\<rparr>\<rparr>, b') \<and>
    supervisor_queue b' = supervisor_queue b \<and> xTickCount b' = xTickCount b \<and>
    Chip_TIMER_SetMatch (lpc_timer (tmr me)) 1
      (rate (clk_mx_timer (tmr me)) div (2 * speed_freq speed)) \<in> set (trace b') \<and>
    sets_direction d me b b'"
  using free_run_freq_bounds(3) [OF assms] speed_freq_bounds [OF assms]
  by (simp add: mot_pap_move_free_run_end_def Let_def speed_freq_def [symmetric]
      mot_tmr_restart_Inr sets_direction_def touches_def pin_of_def)

lemma mot_pap_move_steps_end_8:
  "mot_pap_move_steps_end rate d 8 steps st dv me b = Inl OutOfBounds"
  by (simp add: mot_pap_move_steps_end_def Let_def array_get_freqs_8)

lemma mot_pap_move_steps_end_ok:
  assumes "1 \<le> speed" "speed \<le> 7" "1 \<le> dv" "dv \<le> speed_freq speed"
  shows "\<exists>me' b'. mot_pap_move_steps_end rate d speed steps st dv me b = Inr (me', b') \<and>
    mtype me' = MOT_PAP_TYPE_STEPS \<and> dir me' = d \<and> ramp_ok me' \<and>
    freq_delta me' = speed_freq speed div dv \<and> requested_freq me' = speed_freq speed \<and>
    half_steps_curr me' = 0 \<and> half_steps_requested me' = i32 (u32 (steps * 2)) \<and>
    started (tmr me') \<and> gpios me' = gpios me \<and> posAct me' = posAct me \<and>
    last_pos me' = last_pos me \<and> half_pulses me' = half_pulses me \<and>
    already_there me' = already_there me \<and>
    supervisor_queue b' = supervisor_queue b \<and> xTickCount b' = xTickCount b \<and>
    ticks_last_time me' = i32 (xTickCount b) \<and> step_time me' = i32 st \<and>
    stalled me' = stalled me \<and> stalled_counter me' = stalled_counter me \<and>
    sets_direction d me b b'"
proof -
  let ?q = "speed_freq speed div dv"
  have q: "0 < ?q" "?q \<le> speed_freq speed"
    using assms(3,4) speed_freq_bounds(1) [OF assms(1,2)]
      zdiv_mono2 [of "speed_freq speed" 1 dv]
    by (simp_all add: pos_imp_zdiv_pos_iff)
  moreover have "speed_freq speed \<le> 125000"
    using speed_freq_bounds(2) [OF assms(1,2)] by (simp add: MOT_PAP_MAX_FREQ_def)
  ultimately have q32: "i32 ?q = ?q" "?q \<le> MOT_PAP_COMPUMOTOR_MAX_FREQ"
    by (simp_all add: i32_id MOT_PAP_COMPUMOTOR_MAX_FREQ_def)
  have "dv \<noteq> 0" using assms(3) by simp
  with q q32 free_run_freq_bounds(3) [OF assms(1,2)] speed_freq_bounds [OF assms(1,2)] show ?thesis
    by (simp add: mot_pap_move_steps_end_def Let_def speed_freq_def [symmetric] udiv_def
        mot_tmr_restart_Inr ramp_ok_def sets_direction_def touches_def pin_of_def)
qed

lemma mot_pap_move_closed_loop_end_ok:
  "\<exists>b'. mot_pap_move_closed_loop_end rate d me b =
    Inr (me\<lparr>mtype := MOT_PAP_TYPE_CLOSED_LOOP, dir := d, requested_freq := MOT_PAP_MAX_FREQ,
           tmr := (tmr me)\<lparr>started := True\<rparr>\<rparr>, b') \<and>
    supervisor_queue b' = supervisor_queue b \<and> xTickCount b' = xTickCount b \<and>
    sets_direction d me b b'"
  by (simp add: mot_pap_move_closed_loop_end_def Let_def mot_tmr_restart_Inr MOT_PAP_MAX_FREQ_def
      MOT_PAP_COMPUMOTOR_MAX_FREQ_def sets_direction_def touches_def pin_of_def)

lemma mot_pap_move_steps_end_div:
  assumes "1 \<le> speed" "speed \<le> 7" "dv = 0 \<or> speed_freq speed < dv"
  shows "mot_pap_move_steps_end rate d speed steps st dv me b = Inl DivByZero"
proof (cases "dv = 0")
  case True
  then show ?thesis
    using free_run_freq_bounds(3) [OF assms(1,2)]
    by (simp add: mot_pap_move_steps_end_def Let_def udiv_def)
next
  case False
  then have "speed_freq speed div dv = 0"
    using assms(3) speed_freq_bounds(1) [OF assms(1,2)] by (simp add: div_pos_pos_trivial)
  with False show ?thesis
    using free_run_freq_bounds(3) [OF assms(1,2)] speed_freq_bounds [OF assms(1,2)]
    by (simp add: mot_pap_move_steps_end_def Let_def udiv_def speed_freq_def [symmetric]
        mot_tmr_restart_zero)
qed

section \<open>The interrupt routine\<close>

lemma isr_arrival_frame [simp]:
  "mtype (isr_arrival me) = mtype me"
  "tmr (isr_arrival me) = tmr me"
  "gpios (isr_arrival me) = gpios me"
  "dir (isr_arrival me) = dir me"
  "posAct (isr_arrival me) = posAct me"
  "half_steps_curr (isr_arrival me) = half_steps_curr me"
  "half_steps_requested (isr_arrival me) = half_steps_requested me"
  "half_pulses (isr_arrival me) = half_pulses me"
  "stalled_counter (isr_arrival me) = stalled_counter me"
  by (simp_all add: isr_arrival_def split: mot_pap_type.splits)

text \<open>Once the queue exists, the interrupt routine has no fault.\<close>

lemma xQueueSendFromISR_Inr:
  "supervisor_queue b = Some q \<Longrightarrow>
   xQueueSendFromISR ax b = Inr (b\<lparr>supervisor_queue := Some (push_bounded 1 ax q)\<rparr>)"
  by (simp add: xQueueSendFromISR_def)

lemma mot_pap_isr_result:
  assumes "mot_pap_isr c ax me b = Inr (me', b')"
  shows "posAct me' = c \<and> last_pos me' = c \<and> gpios me' = gpios me \<and> dir me' = dir me \<and>
    half_steps_requested me' = half_steps_requested me \<and>
    stalled_counter me' = stalled_counter me \<and> xTickCount b' = xTickCount b"
  using assms
  by (auto simp: mot_pap_isr_def isr_stop_def isr_pulse_def Let_def split_beta res_bind_eq_Inr
      xQueueSendFromISR_def split: if_splits option.splits)

definition toggles :: "int \<times> int \<Rightarrow> hw_call list \<Rightarrow> nat" where
  "toggles p tr =
     length (filter (\<lambda>c. case c of Chip_GPIO_SetPinToggle gp gb \<Rightarrow> (gp, gb) = p | _ \<Rightarrow> False) tr)"

lemma toggles_append [simp]: "toggles p (xs @ ys) = toggles p xs + toggles p ys"
  by (simp add: toggles_def)

lemma mot_pap_isr_pulse:
  assumes "mtype me = MOT_PAP_TYPE_STEPS" "half_steps_curr me < half_steps_requested me"
    and "0 \<le> half_steps_curr me" "is_i32 (half_steps_requested me)"
    and "supervisor_queue b = Some q"
  shows "\<exists>me' b' q'. mot_pap_isr c ax me b = Inr (me', b') \<and> mtype me' = MOT_PAP_TYPE_STEPS \<and>
    half_steps_curr me' = half_steps_curr me + 1 \<and>
    half_steps_requested me' = half_steps_requested me \<and> gpios me' = gpios me \<and>
    tmr me' = tmr me \<and>
    trace b' = trace b @ [Chip_GPIO_SetPinToggle (gpio_port (step (gpios me))) (gpio_bit (step (gpios me)))] \<and>
    supervisor_queue b' = Some q'"
proof -
  have arr: "\<not> already_there (isr_arrival (me\<lparr>posAct := c\<rparr>))"
    using assms(1,2) by (simp add: isr_arrival_def)
  have "i32 (half_steps_curr me + 1) = half_steps_curr me + 1"
    using assms by (simp add: i32_id is_i32_def)
  with arr assms(1,5) show ?thesis
    by (simp add: mot_pap_isr_def isr_pulse_def Let_def xQueueSendFromISR_def gpio_toggle_def)
qed

lemma mot_pap_isr_finish:
  assumes "mtype me = MOT_PAP_TYPE_STEPS" "half_steps_requested me \<le> half_steps_curr me"
    and "supervisor_queue b = Some q"
  shows "\<exists>me' b'. mot_pap_isr c ax me b = Inr (me', b') \<and> mtype me' = MOT_PAP_TYPE_STOP \<and>
    \<not> started (tmr me') \<and> already_there me' \<and> half_steps_curr me' = half_steps_curr me \<and>
    toggles p (trace b') = toggles p (trace b) \<and>
    supervisor_queue b' = Some (push_bounded 1 ax q)"
proof -
  have "already_there (isr_arrival (me\<lparr>posAct := c\<rparr>))"
    using assms(1,2) by (simp add: isr_arrival_def)
  with assms(3) show ?thesis
    by (simp add: mot_pap_isr_def isr_stop_def mot_tmr_stop_def tmr_stop_def split_beta
        xQueueSendFromISR_def toggles_def)
qed

text \<open>A run of interrupts: one per encoder reading of the list.\<close>

fun isr_run :: "axis \<Rightarrow> int list \<Rightarrow> mot_pap \<Rightarrow> board \<Rightarrow> (mot_pap \<times> board) res" where
  "isr_run ax [] me b = Inr (me, b)"
| "isr_run ax (c # cs) me b =
     res_bind (mot_pap_isr c ax me b) (\<lambda>(me, b). isr_run ax cs me b)"

lemma isr_run_append:
  "isr_run ax (cs @ ds) me b = res_bind (isr_run ax cs me b) (\<lambda>(me, b). isr_run ax ds me b)"
proof (induction cs arbitrary: me b)
  case (Cons c cs)
  then show ?case by (cases "mot_pap_isr c ax me b") (auto simp: split_beta)
qed simp

lemma isr_run_pulses:
  assumes "mtype me = MOT_PAP_TYPE_STEPS" "0 \<le> half_steps_curr me"
    and "half_steps_curr me + int (length cs) \<le> half_steps_requested me"
    and "is_i32 (half_steps_requested me)" "supervisor_queue b = Some q"
  shows "\<exists>me' b' q'. isr_run ax cs me b = Inr (me', b') \<and> mtype me' = MOT_PAP_TYPE_STEPS \<and>
    half_steps_curr me' = half_steps_curr me + int (length cs) \<and>
    half_steps_requested me' = half_steps_requested me \<and> tmr me' = tmr me \<and>
    toggles (pin_of (step (gpios me))) (trace b') =
      toggles (pin_of (step (gpios me))) (trace b) + length cs \<and>
    supervisor_queue b' = Some q'"
  using assms
proof (induction cs arbitrary: me b q)
  case Nil
  then show ?case by simp
next
  case (Cons c cs)
  then have "half_steps_curr me < half_steps_requested me" by simp
  from mot_pap_isr_pulse [OF Cons.prems(1) this Cons.prems(2,4,5), of c ax]
  obtain me1 b1 q1 where one: "mot_pap_isr c ax me b = Inr (me1, b1)"
    "mtype me1 = MOT_PAP_TYPE_STEPS" "half_steps_curr me1 = half_steps_curr me + 1"
    "half_steps_requested me1 = half_steps_requested me" "gpios me1 = gpios me" "tmr me1 = tmr me"
    "trace b1 = trace b @ [Chip_GPIO_SetPinToggle (gpio_port (step (gpios me))) (gpio_bit (step (gpios me)))]"
    "supervisor_queue b1 = Some q1" by blast
  with Cons.IH [of me1 b1 q1] Cons.prems show ?case
    by (auto simp: toggles_def pin_of_def)
qed

lemma isr_run_complete:
  assumes "mtype me = MOT_PAP_TYPE_STEPS" "half_steps_curr me = 0"
    and "length cs = nat (half_steps_requested me)"
    and "is_i32 (half_steps_requested me)" "supervisor_queue b = Some q"
  shows "\<exists>me' b'. isr_run ax (cs @ [c]) me b = Inr (me', b') \<and> mtype me' = MOT_PAP_TYPE_STOP \<and>
    \<not> started (tmr me') \<and> already_there me' \<and>
    toggles (pin_of (step (gpios me))) (trace b') =
      toggles (pin_of (step (gpios me))) (trace b) + length cs"
proof (cases "half_steps_requested me \<ge> 0")
  case True
  then have "half_steps_curr me + int (length cs) \<le> half_steps_requested me"
    using assms(2,3) by simp
  from isr_run_pulses [OF assms(1) _ this assms(4,5), of ax] assms(2)
  obtain me1 b1 q1 where one: "isr_run ax cs me b = Inr (me1, b1)"
    "mtype me1 = MOT_PAP_TYPE_STEPS" "half_steps_curr me1 = half_steps_curr me + int (length cs)"
    "half_steps_requested me1 = half_steps_requested me"
    "toggles (pin_of (step (gpios me))) (trace b1) =
      toggles (pin_of (step (gpios me))) (trace b) + length cs"
    "supervisor_queue b1 = Some q1" by auto
  then have "half_steps_requested me1 \<le> half_steps_curr me1" using True assms(2,3) by simp
  from mot_pap_isr_finish [OF one(2) this one(6), of c ax "pin_of (step (gpios me))"] one
  show ?thesis by (auto simp: isr_run_append)
next
  case False
  with assms(2,3) have "cs = []" "half_steps_requested me \<le> half_steps_curr me" by simp_all
  with mot_pap_isr_finish [OF assms(1) _ assms(5), of c ax "pin_of (step (gpios me))"] show ?thesis
    by auto
qed

end
