(* ===== verification/Axes.thy ===== *)
theory Axes imports MotControl begin

text \<open>
  The three axes and the encoders (nfc/src/x_axis.c, y_axis.c, z_axis.c, encoders.c): the
  initial values of the global motor structures, their timer interrupts, and the counters the
  encoder interrupts advance.
\<close>

section \<open>Motor structures\<close>

text \<open>A global structure starts zeroed.\<close>

definition gpio_zero :: gpio_entry where "gpio_zero = mk_gpio 0 0 [] 0 0"

definition tmr_zero :: tmr where
  "tmr_zero =
     \<lparr>started = False, lpc_timer = LPC_TIMER1, rgu_timer_rst = RGU_TIMER1_RST,
      clk_mx_timer = CLK_MX_TIMER1, timer_IRQn = TIMER1_IRQn\<rparr>"

definition mot_pap_zero :: mot_pap where
  "mot_pap_zero =
     \<lparr>name = [], mtype = MOT_PAP_TYPE_FREE_RUNNING, dir = MOT_PAP_DIRECTION_CW,
      posAct = 0, posCmd = 0, posCmdMiddle = 0, requested_freq = 0, freq_increment = 0,
      freq_decrement = 0, step_time = 0, half_steps_to_quarter = 0,
      freq_slope_relation_incr_to_decr = 0, freq_delta = 0, freq_delta_divider = 0,
      time_delta = 0, current_freq = 0, already_there = False, stalled = False, last_pos = 0,
      stalled_counter = 0, gpios = \<lparr>direction = gpio_zero, step = gpio_zero\<rparr>,
      tmr = tmr_zero, last_dir = MOT_PAP_DIRECTION_CW, half_pulses = 0, offset = 0,
      half_steps_requested = 0, half_steps_curr = 0, half_steps_to_middle = 0,
      max_speed_reached_distance = 0, ticks_last_time = 0, max_speed_reached = False\<rparr>"

definition x_axis_struct :: "mot_pap \<Rightarrow> mot_pap" where
  "x_axis_struct me = me\<lparr>name := ''x_axis'', mtype := MOT_PAP_TYPE_STOP,
     last_dir := MOT_PAP_DIRECTION_CW, half_pulses := 0, offset := 41230,
     gpios := \<lparr>direction = mk_gpio 4 4 [SCU_MODE_FUNC0] 2 4,
               step = mk_gpio 4 8 [SCU_MODE_FUNC4] 5 12\<rparr>,
     tmr := \<lparr>started = False, lpc_timer = LPC_TIMER1, rgu_timer_rst = RGU_TIMER1_RST,
             clk_mx_timer = CLK_MX_TIMER1, timer_IRQn = TIMER1_IRQn\<rparr>\<rparr>"

definition y_axis_struct :: "mot_pap \<Rightarrow> mot_pap" where
  "y_axis_struct me = me\<lparr>name := ''y_axis'', mtype := MOT_PAP_TYPE_STOP,
     last_dir := MOT_PAP_DIRECTION_CW, half_pulses := 0, offset := 41230,
     gpios := \<lparr>direction = mk_gpio 4 5 [SCU_MODE_FUNC0] 2 5,
               step = mk_gpio 4 9 [SCU_MODE_FUNC4] 5 13\<rparr>,
     tmr := \<lparr>started = False, lpc_timer = LPC_TIMER2, rgu_timer_rst = RGU_TIMER2_RST,
             clk_mx_timer = CLK_MX_TIMER2, timer_IRQn = TIMER2_IRQn\<rparr>\<rparr>"

definition z_axis_struct :: "mot_pap \<Rightarrow> mot_pap" where
  "z_axis_struct me = me\<lparr>name := ''z_axis'', mtype := MOT_PAP_TYPE_STOP,
     last_dir := MOT_PAP_DIRECTION_CW, half_pulses := 0, offset := 41230,
     gpios := \<lparr>direction = mk_gpio 4 6 [SCU_MODE_FUNC0] 2 6,
               step = mk_gpio 4 10 [SCU_MODE_FUNC4] 5 14\<rparr>,
     tmr := \<lparr>started = False, lpc_timer = LPC_TIMER3, rgu_timer_rst = RGU_TIMER3_RST,
             clk_mx_timer = CLK_MX_TIMER3, timer_IRQn = TIMER3_IRQn\<rparr>\<rparr>"

definition axis_init_pins :: "(nat \<Rightarrow> bool) \<Rightarrow> mot_pap \<Rightarrow> board \<Rightarrow> (mot_pap \<times> board) option" where
  "axis_init_pins in_reset me b =
     (let b = gpio_init_output (direction (gpios me)) b;
          b = gpio_init_output (step (gpios me)) b
      in map_option (\<lambda>b. (me, b)) (tmr_init in_reset (tmr me) b))"

definition x_axis_init :: "(nat \<Rightarrow> bool) \<Rightarrow> mot_pap \<Rightarrow> board \<Rightarrow> (mot_pap \<times> board) option" where
  "x_axis_init in_reset x_axis b = axis_init_pins in_reset (x_axis_struct x_axis) b"

definition y_axis_init :: "(nat \<Rightarrow> bool) \<Rightarrow> mot_pap \<Rightarrow> board \<Rightarrow> (mot_pap \<times> board) option" where
  "y_axis_init in_reset y_axis b = axis_init_pins in_reset (y_axis_struct y_axis) b"

definition z_axis_init :: "(nat \<Rightarrow> bool) \<Rightarrow> mot_pap \<Rightarrow> board \<Rightarrow> (mot_pap \<times> board) option" where
  "z_axis_init in_reset z_axis b = axis_init_pins in_reset (z_axis_struct z_axis) b"

text \<open>
  The handlers \<open>TIMER1_IRQHandler\<close>, \<open>TIMER2_IRQHandler\<close> and \<open>TIMER3_IRQHandler\<close> are the
  same code on the three structures; \<open>pending\<close> is the answer of the match register.
\<close>

definition timer_irq_handler ::
    "bool \<Rightarrow> int \<Rightarrow> axis \<Rightarrow> mot_pap \<Rightarrow> board \<Rightarrow> (mot_pap \<times> board) res" where
  "timer_irq_handler pending count_a ax me b =
     (case tmr_match_pending pending (tmr me) b of
        (True, b) \<Rightarrow> mot_pap_isr count_a ax me b
      | (False, b) \<Rightarrow> Inr (me, b))"

definition TIMER1_IRQHandler :: "bool \<Rightarrow> int \<Rightarrow> mot_pap \<Rightarrow> board \<Rightarrow> (mot_pap \<times> board) res" where
  "TIMER1_IRQHandler pending count_a x_axis b = timer_irq_handler pending count_a X_AXIS x_axis b"

definition TIMER2_IRQHandler :: "bool \<Rightarrow> int \<Rightarrow> mot_pap \<Rightarrow> board \<Rightarrow> (mot_pap \<times> board) res" where
  "TIMER2_IRQHandler pending count_a y_axis b = timer_irq_handler pending count_a Y_AXIS y_axis b"

definition TIMER3_IRQHandler :: "bool \<Rightarrow> int \<Rightarrow> mot_pap \<Rightarrow> board \<Rightarrow> (mot_pap \<times> board) res" where
  "TIMER3_IRQHandler pending count_a z_axis b = timer_irq_handler pending count_a Z_AXIS z_axis b"

section \<open>Encoders\<close>

record encoders =
  count_z :: int
  count_b :: int
  count_a :: int

definition GPIO0_IRQHandler :: "encoders \<Rightarrow> board \<Rightarrow> encoders \<times> board" where
  "GPIO0_IRQHandler e b =
     (e\<lparr>count_z := i32 (count_z e + 1)\<rparr>, emit (Chip_PININT_ClearIntStatus 0) b)"

definition GPIO1_IRQHandler :: "encoders \<Rightarrow> board \<Rightarrow> encoders \<times> board" where
  "GPIO1_IRQHandler e b =
     (e\<lparr>count_b := i32 (count_b e + 1)\<rparr>, emit (Chip_PININT_ClearIntStatus 1) b)"

definition GPIO2_IRQHandler :: "encoders \<Rightarrow> board \<Rightarrow> encoders \<times> board" where
  "GPIO2_IRQHandler e b =
     (e\<lparr>count_a := i32 (count_a e + 1)\<rparr>, emit (Chip_PININT_ClearIntStatus 2) b)"

definition encoder_gpio :: "int \<Rightarrow> int \<Rightarrow> gpio_entry" where
  "encoder_gpio pin n =
     mk_gpio 7 pin [SCU_MODE_INBUFF_EN, SCU_MODE_PULLUP, SCU_MODE_FUNC0] 3 n"

definition encoders_init :: "encoders \<Rightarrow> board \<Rightarrow> encoders \<times> board" where
  "encoders_init e b =
     (let b = gpio_init_input (encoder_gpio 4 12) b;
          b = gpio_init_input (encoder_gpio 5 13) b;
          b = gpio_init_input (encoder_gpio 6 14) b
      in (e\<lparr>count_z := 0, count_b := 0, count_a := 0\<rparr>,
          emits
           [Chip_SCU_GPIOIntPinSel 0 3 12, Chip_SCU_GPIOIntPinSel 1 3 13,
            Chip_SCU_GPIOIntPinSel 2 3 14,
            Chip_PININT_ClearIntStatus 0, Chip_PININT_SetPinModeEdge 0, Chip_PININT_EnableIntLow 0,
            Chip_PININT_ClearIntStatus 1, Chip_PININT_SetPinModeEdge 1, Chip_PININT_EnableIntLow 1,
            Chip_PININT_ClearIntStatus 2, Chip_PININT_SetPinModeEdge 2, Chip_PININT_EnableIntLow 2,
            NVIC_ClearPendingIRQ PIN_INT0_IRQn, NVIC_EnableIRQ PIN_INT0_IRQn,
            NVIC_ClearPendingIRQ PIN_INT1_IRQn, NVIC_EnableIRQ PIN_INT1_IRQn,
            NVIC_ClearPendingIRQ PIN_INT2_IRQn, NVIC_EnableIRQ PIN_INT2_IRQn] b))"

section \<open>Lemmas\<close>

lemma axis_struct_simps [simp]:
  "direction (gpios (x_axis_struct me)) = mk_gpio 4 4 [SCU_MODE_FUNC0] 2 4"
  "step (gpios (x_axis_struct me)) = mk_gpio 4 8 [SCU_MODE_FUNC4] 5 12"
  "direction (gpios (y_axis_struct me)) = mk_gpio 4 5 [SCU_MODE_FUNC0] 2 5"
  "step (gpios (y_axis_struct me)) = mk_gpio 4 9 [SCU_MODE_FUNC4] 5 13"
  "direction (gpios (z_axis_struct me)) = mk_gpio 4 6 [SCU_MODE_FUNC0] 2 6"
  "step (gpios (z_axis_struct me)) = mk_gpio 4 10 [SCU_MODE_FUNC4] 5 14"
  by (simp_all add: x_axis_struct_def y_axis_struct_def z_axis_struct_def)

lemma tmr_init_returns_iff:
  "(\<exists>b'. tmr_init in_reset t b = Some b') \<longleftrightarrow> (\<exists>k. \<not> in_reset k)"
  using wait_while_terminates_iff [of in_reset 0]
  by (auto simp: tmr_init_def split: option.splits)

lemma tmr_init_pins:
  "tmr_init in_reset t b = Some b' \<Longrightarrow>
     touches P b b' \<and>
     supervisor_queue b' = supervisor_queue b \<and> xTickCount b' = xTickCount b"
proof -
  have "pins_written (replicate n (Chip_RGU_InReset r)) = {}" for n r
    by (induction n) simp_all
  then show "tmr_init in_reset t b = Some b' \<Longrightarrow> ?thesis"
    by (auto simp: tmr_init_def touches_def split: option.splits)
qed

end
