(* ===== verification/Settings.thy ===== *)
theory Settings imports Board begin

text \<open>
  The network settings and the EEPROM page that keeps them (nfc/src/settings.c, eeprom.c and
  the macro \<open>IP4_ADDR\<close> of lwip/inc/ipv4/lwip/ip_addr.h). The EEPROM is memory mapped: a state
  maps the byte address of an aligned 32-bit cell to its value. The vendor's page size and the
  address of a page are inputs (\<open>pgsz\<close> in bytes, \<open>addr page offset\<close>).
\<close>

unbundle bit_operations_syntax

section \<open>The EEPROM driver\<close>

type_synonym cells = "nat \<Rightarrow> 32 word"

fun store_words :: "nat \<Rightarrow> 32 word list \<Rightarrow> cells \<Rightarrow> cells" where
  "store_words base [] m = m"
| "store_words base (w # ws) m = store_words (base + 4) ws (m(base := w))"

definition load_words :: "nat \<Rightarrow> nat \<Rightarrow> cells \<Rightarrow> 32 word list" where
  "load_words base n m = map (\<lambda>i. m (base + 4 * i)) [0..<n]"

text \<open>\<open>((size + 3) & ~0x03) / 4\<close>: the number of 32-bit words that hold \<open>size\<close> bytes.\<close>

definition words_of_size :: "nat \<Rightarrow> nat" where
  "words_of_size sz = ((sz + 3) div 4 * 4) div 4"

definition EEPROM_init :: "board \<Rightarrow> board" where
  "EEPROM_init b = emits [Chip_EEPROM_Init, Chip_EEPROM_SetAutoProg_OFF] b"

definition EEPROM_Read :: "(nat \<Rightarrow> nat \<Rightarrow> nat) \<Rightarrow> nat \<Rightarrow> nat \<Rightarrow> nat \<Rightarrow> cells \<Rightarrow> 32 word list" where
  "EEPROM_Read addr pageOffset pageAddr sz m =
     load_words (addr pageAddr pageOffset) (words_of_size sz) m"

definition EEPROM_Erase ::
    "(nat \<Rightarrow> nat \<Rightarrow> nat) \<Rightarrow> nat \<Rightarrow> nat \<Rightarrow> cells \<times> board \<Rightarrow> cells \<times> board" where
  "EEPROM_Erase addr pgsz pageAddr mb =
     (store_words (addr pageAddr 0) (replicate (pgsz div 4) 0) (fst mb),
      emit Chip_EEPROM_EraseProgramPage (snd mb))"

text \<open>
  The count of words is compared with a count of bytes, as in the source, and the difference is
  one of unsigned 32-bit values; \<open>ws\<close> are the words the pointer argument refers to.
\<close>

definition page_room :: "nat \<Rightarrow> nat \<Rightarrow> nat" where
  "page_room pgsz pageOffset = nat (u32 (int pgsz - int pageOffset))"

definition EEPROM_Write ::
    "(nat \<Rightarrow> nat \<Rightarrow> nat) \<Rightarrow> nat \<Rightarrow> nat \<Rightarrow> nat \<Rightarrow> 32 word list \<Rightarrow> nat \<Rightarrow> cells \<times> board \<Rightarrow> cells \<times> board" where
  "EEPROM_Write addr pgsz pageOffset pageAddr ws sz mb =
     (let n = words_of_size sz;
          n = (if n > page_room pgsz pageOffset then page_room pgsz pageOffset else n)
      in (store_words (addr pageAddr pageOffset) (take n ws) (fst mb),
          emit Chip_EEPROM_EraseProgramPage (snd mb)))"

section \<open>The settings\<close>

record settings =
  gw :: "32 word"
  ipaddr :: "32 word"
  netmask :: "32 word"
  port :: "16 word"

definition PAGE_ADDR :: nat where "PAGE_ADDR = 1"

definition IP4_ADDR :: "32 word \<Rightarrow> 32 word \<Rightarrow> 32 word \<Rightarrow> 32 word \<Rightarrow> 32 word" where
  "IP4_ADDR a b c d =
     push_bit 24 (d AND 255) OR push_bit 16 (c AND 255) OR push_bit 8 (b AND 255) OR (a AND 255)"

definition settings_defaults :: settings where
  "settings_defaults =
     \<lparr>gw = IP4_ADDR 192 168 2 1, ipaddr = IP4_ADDR 192 168 2 20,
      netmask = IP4_ADDR 255 255 255 0, port = 5020\<rparr>"

text \<open>
  The structure in memory: three words, then the port in the low half of a fourth word. The
  high half is padding, whose value \<open>pad\<close> the language leaves open.
\<close>

definition sizeof_settings :: nat where "sizeof_settings = 16"

definition settings_words :: "16 word \<Rightarrow> settings \<Rightarrow> 32 word list" where
  "settings_words pad s =
     [gw s, ipaddr s, netmask s, push_bit 16 (ucast pad) OR ucast (port s)]"

definition words_settings :: "32 word list \<Rightarrow> settings" where
  "words_settings ws =
     \<lparr>gw = ws ! 0, ipaddr = ws ! 1, netmask = ws ! 2, port = ucast (ws ! 3)\<rparr>"

definition settings_init :: "board \<Rightarrow> board" where
  "settings_init b = EEPROM_init b"

definition settings_erase ::
    "(nat \<Rightarrow> nat \<Rightarrow> nat) \<Rightarrow> nat \<Rightarrow> cells \<times> board \<Rightarrow> cells \<times> board" where
  "settings_erase addr pgsz mb =
     EEPROM_Erase addr pgsz PAGE_ADDR
       (fst mb, lDebug Info ''settings_erase'' ''EEPROM Erase...'' (snd mb))"

definition settings_save ::
    "(nat \<Rightarrow> nat \<Rightarrow> nat) \<Rightarrow> nat \<Rightarrow> 16 word \<Rightarrow> settings \<Rightarrow> cells \<times> board \<Rightarrow> cells \<times> board" where
  "settings_save addr pgsz pad s mb =
     (let mb = (fst mb, lDebug Info ''settings_save'' ''EEPROM Erase...'' (snd mb));
          mb = EEPROM_Erase addr pgsz PAGE_ADDR mb;
          mb = (fst mb, lDebug Info ''settings_save'' ''EEPROM write...'' (snd mb))
      in EEPROM_Write addr pgsz 0 PAGE_ADDR (settings_words pad s) sizeof_settings mb)"

definition settings_valid :: "settings \<Rightarrow> bool" where
  "settings_valid s \<longleftrightarrow>
     \<not> (gw s = 0 \<or> ipaddr s = 0 \<or> netmask s = 0 \<or> port s = 0)"

definition settings_read ::
    "(nat \<Rightarrow> nat \<Rightarrow> nat) \<Rightarrow> cells \<times> board \<Rightarrow> settings \<times> board" where
  "settings_read addr mb =
     (let b = lDebug Info ''settings_read'' ''EEPROM Read...'' (snd mb);
          s = words_settings (EEPROM_Read addr 0 PAGE_ADDR sizeof_settings (fst mb))
      in if \<not> settings_valid s then
           (settings_defaults,
            lDebug Info ''settings_read''
              ''No network config loaded from EEPROM. Loading default settings'' b)
         else (s, lDebug Info ''settings_read'' ''Using settings loaded from EEPROM'' b))"

section \<open>Lemmas\<close>

lemma words_of_size_eq: "words_of_size sz = (sz + 3) div 4"
  by (simp add: words_of_size_def)

lemma store_words_outside:
  "a < base \<or> base + 4 * length ws \<le> a \<Longrightarrow> store_words base ws m a = m a"
  by (induction ws arbitrary: base m) auto

lemma store_words_at:
  "i < length ws \<Longrightarrow> store_words base ws m (base + 4 * i) = ws ! i"
proof (induction ws arbitrary: base m i)
  case (Cons w ws)
  show ?case
  proof (cases i)
    case 0
    then show ?thesis by (simp add: store_words_outside)
  next
    case (Suc j)
    with Cons.IH [of j "base + 4" "m(base := w)"] Cons.prems show ?thesis
      by (simp add: add.assoc fun_upd_def)
  qed
qed simp

lemma load_store_words:
  "n \<le> length ws \<Longrightarrow> load_words base n (store_words base ws m) = take n ws"
  by (rule nth_equalityI) (simp_all add: load_words_def store_words_at)

lemma length_settings_words [simp]: "length (settings_words pad s) = 4"
  by (simp add: settings_words_def)

lemma settings_round:
  "words_settings (settings_words pad s) = s"
proof -
  have "ucast (push_bit 16 (ucast pad) OR ucast (port s) :: 32 word) = port s"
    by (rule bit_word_eqI) (auto simp: bit_simps)
  then show ?thesis by (simp add: words_settings_def settings_words_def)
qed

text \<open>An erased page is zero; a written page holds the words written.\<close>

lemma EEPROM_Read_Erase:
  assumes "4 * words_of_size sz \<le> pgsz"
  shows "EEPROM_Read addr 0 p sz (fst (EEPROM_Erase addr pgsz p mb)) =
    replicate (words_of_size sz) 0"
  using assms by (simp add: EEPROM_Read_def EEPROM_Erase_def load_store_words)

lemma page_room_id: "off \<le> pgsz \<Longrightarrow> pgsz < 4294967296 \<Longrightarrow> page_room pgsz off = pgsz - off"
  by (simp add: page_room_def u32_id of_nat_diff nat_diff_distrib)

lemma EEPROM_Read_Write:
  assumes "length ws = words_of_size sz" "words_of_size sz \<le> pgsz" "pgsz < 4294967296"
  shows "EEPROM_Read addr 0 p sz (fst (EEPROM_Write addr pgsz 0 p ws sz mb)) = ws"
  using assms by (simp add: EEPROM_Read_def EEPROM_Write_def Let_def load_store_words page_room_id)

lemma EEPROM_Write_stays:
  assumes "4 * words_of_size sz \<le> pgsz - off" "off \<le> pgsz" "pgsz < 4294967296"
    and "a < addr p off \<or> addr p off + (pgsz - off) \<le> a"
  shows "fst (EEPROM_Write addr pgsz off p ws sz mb) a = fst mb a"
proof -
  let ?t = "take (words_of_size sz) ws"
  have "length ?t \<le> words_of_size sz" by simp
  with assms have "a < addr p off \<or> addr p off + 4 * length ?t \<le> a" by linarith
  moreover have "\<not> words_of_size sz > page_room pgsz off"
    using assms(1-3) by (simp add: page_room_id)
  ultimately show ?thesis by (simp add: EEPROM_Write_def Let_def store_words_outside)
qed

section \<open>The interface of a settings store\<close>

text \<open>
  What the network start-up and the command NETWORK_SETTINGS rely on: what is saved is read
  back when it is usable, an unusable record and an erased store read as the defaults.
\<close>

locale settings_store =
  fixes save :: "settings \<Rightarrow> 's \<Rightarrow> 's"
    and erase :: "'s \<Rightarrow> 's"
    and load :: "'s \<Rightarrow> settings"
    and usable :: "settings \<Rightarrow> bool"
    and fallback :: settings
  assumes load_save: "load (save s m) = (if usable s then s else fallback)"
    and load_erase: "load (erase m) = fallback"
    and usable_fallback: "usable fallback"
begin

lemma load_usable: "usable (load (save s m))"
  by (simp add: load_save usable_fallback)

lemma load_save_save: "load (save s (save t m)) = load (save s m)"
  by (simp add: load_save)

lemma resave: "load (save (load (save s m)) m') = load (save s m)"
  by (simp add: load_save usable_fallback)

lemma save_after_erase: "usable s \<Longrightarrow> load (save s (erase m)) = s"
  by (simp add: load_save)

end

lemma settings_defaults_valid: "settings_valid settings_defaults"
  by (simp add: settings_valid_def settings_defaults_def IP4_ADDR_def)

lemma settings_read_save:
  assumes "16 \<le> pgsz" "pgsz < 4294967296"
  shows "fst (settings_read addr (settings_save addr pgsz pad s mb)) =
    (if settings_valid s then s else settings_defaults)"
proof -
  have "words_settings (EEPROM_Read addr 0 PAGE_ADDR sizeof_settings
      (fst (settings_save addr pgsz pad s mb))) = s"
    using assms EEPROM_Read_Write [of "settings_words pad s" sizeof_settings pgsz]
    by (simp add: settings_save_def Let_def settings_round words_of_size_eq sizeof_settings_def)
  then show ?thesis by (simp add: settings_read_def Let_def)
qed

lemma settings_read_erase:
  assumes "16 \<le> pgsz"
  shows "fst (settings_read addr (settings_erase addr pgsz mb)) = settings_defaults"
proof -
  have "EEPROM_Read addr 0 PAGE_ADDR sizeof_settings (fst (settings_erase addr pgsz mb)) =
      replicate 4 0"
    using assms EEPROM_Read_Erase [of sizeof_settings pgsz addr PAGE_ADDR]
    by (simp add: settings_erase_def words_of_size_eq sizeof_settings_def)
  then show ?thesis by (simp add: settings_read_def Let_def settings_valid_def words_settings_def)
qed

text \<open>
  What the part's EEPROM has to provide: a page with room for the four words of the settings.
  Then the code's own operations are a settings store. The 128 bytes of the LPC43xx pages are
  an instance.
\<close>

locale eeprom_pages =
  fixes pgsz :: nat
  assumes room: "16 \<le> pgsz"
    and range: "pgsz < 4294967296"

sublocale eeprom_pages \<subseteq> settings_store
  "settings_save addr pgsz pad" "settings_erase addr pgsz"
  "\<lambda>mb. fst (settings_read addr mb)" settings_valid settings_defaults
  for addr :: "nat \<Rightarrow> nat \<Rightarrow> nat" and pad :: "16 word"
  by unfold_locales
    (simp_all add: settings_read_save settings_read_erase settings_defaults_valid room range)

context eeprom_pages begin

lemma saved_twice:
  "fst (settings_read addr (settings_save addr pgsz pad s (settings_save addr pgsz pad t mb))) =
     (if settings_valid s then s else settings_defaults)"
  using load_save_save [of addr pad s t mb] load_save [of addr pad s mb] by simp

lemma read_after_erase:
  "fst (settings_read addr (settings_erase addr pgsz mb)) = settings_defaults"
  using load_erase .

end

interpretation eeprom_settings: eeprom_pages 128
  by unfold_locales simp_all

end
