(* ===== verification/MotSystem.thy ===== *)
theory MotSystem imports Axes Settings begin

text \<open>
  The motor control system as a whole: the three axes, the encoders, the supervisor queue and
  the tasks that act on them. Start-up is \<open>prvSetupHardware\<close> and the level setting of \<open>main\<close>
  (nfc/src/main.c, mem_check.c). After it the interrupts, the supervisor task and the task that
  executes network commands interleave: a step relation with one rule for each of them. A
  command that sleeps before it reverses a motor takes two steps.
\<close>

section \<open>State\<close>

text \<open>What a sleeping command still has to do.\<close>

datatype cont =
    FreeRunEnd mot_pap_direction int
  | StepsEnd mot_pap_direction int int int int
  | ClosedLoopEnd mot_pap_direction

record sys =
  motors :: "axis \<Rightarrow> mot_pap"
  brd :: board
  enc :: encoders
  stall_detection :: bool
  sleeping :: "(axis \<times> cont) option"

section \<open>Start-up\<close>

definition mem_check_init :: "board \<Rightarrow> board" where
  "mem_check_init b = lDebug Info ''mem_check_init'' ''MemCheck: task created'' b"

definition prvSetupHardware ::
    "(axis \<Rightarrow> nat \<Rightarrow> bool) \<Rightarrow> bool \<Rightarrow> sys \<Rightarrow> sys option" where
  "prvSetupHardware in_reset queue_created s =
     (let b = debugInit (brd s);
          b = settings_init b;
          b = relay_init b;
          b = mot_pap_init queue_created b
      in Option.bind (x_axis_init (in_reset X_AXIS) (motors s X_AXIS) b) (\<lambda>(x, b).
         Option.bind (y_axis_init (in_reset Y_AXIS) (motors s Y_AXIS) b) (\<lambda>(y, b).
         Option.bind (z_axis_init (in_reset Z_AXIS) (motors s Z_AXIS) b) (\<lambda>(z, b).
           case encoders_init (enc s) b of (e, b) \<Rightarrow>
             Some (s\<lparr>motors := (motors s)(X_AXIS := x, Y_AXIS := y, Z_AXIS := z),
                     enc := e, brd := mem_check_init b\<rparr>)))))"

text \<open>The values of the global variables before \<open>main\<close>, on a board \<open>b\<close>.\<close>

definition sys_static :: "board \<Rightarrow> sys" where
  "sys_static b =
     \<lparr>motors = (\<lambda>_. mot_pap_zero), brd = b, enc = \<lparr>count_z = 0, count_b = 0, count_a = 0\<rparr>,
      stall_detection = True, sleeping = None\<rparr>"

definition main_start ::
    "(axis \<Rightarrow> nat \<Rightarrow> bool) \<Rightarrow> bool \<Rightarrow> board \<Rightarrow> sys option" where
  "main_start in_reset queue_created b =
     prvSetupHardware in_reset queue_created
       (sys_static (debugNetSetLevel Error (debugLocalSetLevel Info b)))"

section \<open>Commands\<close>

datatype mot_cmd =
    FreeRun mot_pap_direction int
  | Steps mot_pap_direction int int int int
  | ClosedLoop int
  | Halt

text \<open>
  A command up to its sleep, or to its end when it does not sleep; the first component of the
  result is what is left to do after the sleep.
\<close>

definition no_cont :: "(mot_pap \<times> board) res \<Rightarrow> (cont option \<times> mot_pap \<times> board) res" where
  "no_cont r = res_bind r (\<lambda>(me, b). Inr (None, me, b))"

fun cmd_start ::
    "(clk_mx \<Rightarrow> int) \<Rightarrow> mot_cmd \<Rightarrow> mot_pap \<Rightarrow> board \<Rightarrow> (cont option \<times> mot_pap \<times> board) res" where
  "cmd_start rate (FreeRun d speed) me b =
     (if mot_pap_free_run_speed_ok speed \<and> mot_pap_reverses me d then
        (case mot_pap_move_free_run_begin d me b of (me, b) \<Rightarrow>
           Inr (Some (FreeRunEnd d speed), me, b))
      else no_cont (mot_pap_move_free_run rate me d speed b))"
| "cmd_start rate (Steps d speed steps st dv) me b =
     (if mot_pap_free_run_speed_ok speed \<and> mot_pap_reverses me d then
        (case mot_pap_move_steps_begin d me b of (me, b) \<Rightarrow>
           Inr (Some (StepsEnd d speed steps st dv), me, b))
      else no_cont (mot_pap_move_steps rate me d speed steps st dv b))"
| "cmd_start rate (ClosedLoop setpoint) me b =
     (let d = mot_pap_direction_calculate (i32 (setpoint - posAct me))
      in case mot_pap_move_closed_loop_begin setpoint me b of (me', b') \<Rightarrow>
           if \<not> already_there me' \<and> mot_pap_reverses me d
           then Inr (Some (ClosedLoopEnd d), me', b')
           else no_cont (mot_pap_move_closed_loop rate me setpoint b))"
| "cmd_start rate Halt me b = (case mot_pap_stop me b of (me, b) \<Rightarrow> Inr (None, me, b))"

fun cmd_resume ::
    "(clk_mx \<Rightarrow> int) \<Rightarrow> cont \<Rightarrow> mot_pap \<Rightarrow> board \<Rightarrow> (mot_pap \<times> board) res" where
  "cmd_resume rate (FreeRunEnd d speed) me b = mot_pap_move_free_run_end rate d speed me b"
| "cmd_resume rate (StepsEnd d speed steps st dv) me b =
     mot_pap_move_steps_end rate d speed steps st dv me b"
| "cmd_resume rate (ClosedLoopEnd d) me b = mot_pap_move_closed_loop_end rate d me b"

text \<open>
  The arguments come from the network as \<open>int\<close> values and are converted to the unsigned
  parameter types of the movement functions.
\<close>

fun cmd_args :: "mot_cmd \<Rightarrow> mot_cmd" where
  "cmd_args (FreeRun d speed) = FreeRun d (u32 speed)"
| "cmd_args (Steps d speed steps st dv) = Steps d (u32 speed) (u32 steps) (u32 st) (u32 dv)"
| "cmd_args (ClosedLoop setpoint) = ClosedLoop (u16 setpoint)"
| "cmd_args Halt = Halt"

text \<open>The whole command, when nothing runs during the sleep.\<close>

fun cmd_whole ::
    "(clk_mx \<Rightarrow> int) \<Rightarrow> mot_cmd \<Rightarrow> mot_pap \<Rightarrow> board \<Rightarrow> (mot_pap \<times> board) res" where
  "cmd_whole rate (FreeRun d speed) me b = mot_pap_move_free_run rate me d speed b"
| "cmd_whole rate (Steps d speed steps st dv) me b =
     mot_pap_move_steps rate me d speed steps st dv b"
| "cmd_whole rate (ClosedLoop setpoint) me b = mot_pap_move_closed_loop rate me setpoint b"
| "cmd_whole rate Halt me b = Inr (mot_pap_stop me b)"

section \<open>Steps\<close>

datatype event =
    Command axis mot_cmd
  | Wake
  | TimerIRQ axis bool
  | Supervise axis
  | EncoderZ
  | EncoderB
  | EncoderA
  | Tick
  | Link bool
  | MainPower bool
  | StallControl bool

definition set_motor :: "axis \<Rightarrow> mot_pap \<Rightarrow> board \<Rightarrow> sys \<Rightarrow> sys" where
  "set_motor a me b s = s\<lparr>motors := (motors s)(a := me), brd := b\<rparr>"

inductive sys_step :: "(clk_mx \<Rightarrow> int) \<Rightarrow> sys \<Rightarrow> event \<Rightarrow> sys \<Rightarrow> bool" for rate where
  command:
    "sleeping s = None \<Longrightarrow> cmd_start rate (cmd_args c) (motors s a) (brd s) = Inr (k, me, b) \<Longrightarrow>
     sys_step rate s (Command a c) ((set_motor a me b s)\<lparr>sleeping := map_option (Pair a) k\<rparr>)"
| wake:
    "sleeping s = Some (a, k) \<Longrightarrow> cmd_resume rate k (motors s a) (brd s) = Inr (me, b) \<Longrightarrow>
     sys_step rate s Wake ((set_motor a me b s)\<lparr>sleeping := None\<rparr>)"
| timer:
    "started (tmr (motors s a)) \<Longrightarrow>
     timer_irq_handler pending (count_a (enc s)) a (motors s a) (brd s) = Inr (me, b) \<Longrightarrow>
     sys_step rate s (TimerIRQ a pending) (set_motor a me b s)"
| supervise:
    "supervisor_queue (brd s) = Some (a # q) \<Longrightarrow>
     mot_pap_supervisor_body rate (stall_detection s) (motors s a)
       ((brd s)\<lparr>supervisor_queue := Some q\<rparr>) = Inr (me, b) \<Longrightarrow>
     sys_step rate s (Supervise a) (set_motor a me b s)"
| encoder_z:
    "GPIO0_IRQHandler (enc s) (brd s) = (e, b) \<Longrightarrow>
     sys_step rate s EncoderZ (s\<lparr>enc := e, brd := b\<rparr>)"
| encoder_b:
    "GPIO1_IRQHandler (enc s) (brd s) = (e, b) \<Longrightarrow>
     sys_step rate s EncoderB (s\<lparr>enc := e, brd := b\<rparr>)"
| encoder_a:
    "GPIO2_IRQHandler (enc s) (brd s) = (e, b) \<Longrightarrow>
     sys_step rate s EncoderA (s\<lparr>enc := e, brd := b\<rparr>)"
| tick:
    "sys_step rate s Tick (s\<lparr>brd := (brd s)\<lparr>xTickCount := u32 (xTickCount (brd s) + 1)\<rparr>\<rparr>)"
| link:
    "sys_step rate s (Link v) (s\<lparr>brd := relay_spare_led v (brd s)\<rparr>)"
| main_power:
    "sys_step rate s (MainPower v) (s\<lparr>brd := relay_main_pwr v (brd s)\<rparr>)"
| stall_control:
    "sys_step rate s (StallControl v) (s\<lparr>stall_detection := v\<rparr>)"

inductive_cases sys_step_CommandE: "sys_step rate s (Command a c) t"
inductive_cases sys_step_WakeE: "sys_step rate s Wake t"
inductive_cases sys_step_TimerIRQE: "sys_step rate s (TimerIRQ a p) t"
inductive_cases sys_step_SuperviseE: "sys_step rate s (Supervise a) t"

inductive_simps sys_step_simps:
  "sys_step rate s (Link v) t"
  "sys_step rate s (MainPower v) t"
  "sys_step rate s (StallControl v) t"
  "sys_step rate s Tick t"

inductive sys_run :: "(clk_mx \<Rightarrow> int) \<Rightarrow> sys \<Rightarrow> event list \<Rightarrow> sys \<Rightarrow> bool" for rate where
  run_nil: "sys_run rate s [] s"
| run_snoc: "sys_run rate s es t \<Longrightarrow> sys_step rate t e u \<Longrightarrow> sys_run rate s (es @ [e]) u"

text \<open>The states the firmware can be in: reached from a start-up that returned.\<close>

definition reachable ::
    "(clk_mx \<Rightarrow> int) \<Rightarrow> (axis \<Rightarrow> nat \<Rightarrow> bool) \<Rightarrow> bool \<Rightarrow> board \<Rightarrow> sys \<Rightarrow> bool" where
  "reachable rate in_reset queue_created b s \<longleftrightarrow>
     (\<exists>s0 es. main_start in_reset queue_created b = Some s0 \<and> sys_run rate s0 es s)"

end
