(* ===== verification/MotInvariants.thy ===== *)
theory MotInvariants imports MotSystem begin

text \<open>
  What holds in every reachable state of the motor control system: the invariant of one axis,
  its preservation by each operation, the invariant of the whole, and by rule induction over
  the runs of the step relation its truth in every reachable state.
\<close>

section \<open>The invariant of an axis\<close>

definition axis_struct :: "axis \<Rightarrow> mot_pap \<Rightarrow> mot_pap" where
  "axis_struct a =
     (case a of X_AXIS \<Rightarrow> x_axis_struct | Y_AXIS \<Rightarrow> y_axis_struct | Z_AXIS \<Rightarrow> z_axis_struct)"

definition dir_pin :: "axis \<Rightarrow> int \<times> int" where
  "dir_pin a = (2, case a of X_AXIS \<Rightarrow> 4 | Y_AXIS \<Rightarrow> 5 | Z_AXIS \<Rightarrow> 6)"

definition step_pin :: "axis \<Rightarrow> int \<times> int" where
  "step_pin a = (5, case a of X_AXIS \<Rightarrow> 12 | Y_AXIS \<Rightarrow> 13 | Z_AXIS \<Rightarrow> 14)"

definition same_wiring :: "mot_pap \<Rightarrow> mot_pap \<Rightarrow> bool" where
  "same_wiring me me' \<longleftrightarrow>
     gpios me' = gpios me \<and> tmr me' = (tmr me)\<lparr>started := started (tmr me')\<rparr>"

lemma same_wiring_refl [simp, intro]: "same_wiring me me"
  by (simp add: same_wiring_def)

lemma same_wiring_trans [trans]:
  "same_wiring me1 me2 \<Longrightarrow> same_wiring me2 me3 \<Longrightarrow> same_wiring me1 me3"
  unfolding same_wiring_def by (metis tmr.update_convs(1) tmr.surjective)

definition steps_ok :: "mot_pap \<Rightarrow> bool" where
  "steps_ok me \<longleftrightarrow>
     (mtype me = MOT_PAP_TYPE_STEPS \<longrightarrow>
        ramp_ok me \<and> is_i32 (half_steps_requested me) \<and> 0 \<le> half_steps_curr me \<and>
        half_steps_curr me \<le> max 0 (half_steps_requested me))"

definition motor_ok :: "axis \<Rightarrow> mot_pap \<Rightarrow> bool" where
  "motor_ok a me \<longleftrightarrow>
     same_wiring (axis_struct a mot_pap_zero) me \<and> last_pos me = posAct me \<and> steps_ok me"

lemma motor_ok_pins:
  "motor_ok a me \<Longrightarrow> pin_of (direction (gpios me)) = dir_pin a \<and> pin_of (step (gpios me)) = step_pin a"
  by (cases a)
    (auto simp: motor_ok_def same_wiring_def axis_struct_def dir_pin_def step_pin_def
      pin_of_def mk_gpio_def)

text \<open>The supervisor keeps the invariant on every path, and writes no pin but the main power.\<close>

lemma supervisor_ramp_frame:
  assumes "supervisor_ramp rate ticks me b = Inr (me', b')"
  shows "mtype me' = mtype me \<and> same_wiring me me' \<and> dir me' = dir me \<and> posAct me' = posAct me \<and>
    last_pos me' = last_pos me \<and> half_steps_curr me' = half_steps_curr me \<and>
    half_steps_requested me' = half_steps_requested me \<and>
    stalled me' = stalled me \<and> stalled_counter me' = stalled_counter me \<and>
    supervisor_queue b' = supervisor_queue b \<and>
    touches P b b'"
proof -
  from assms obtain brk me1 where
    "mot_tmr_restart rate
       (current_freq (if brk then supervisor_decelerate (supervisor_accelerate (first_half_passed me) me)
          else supervisor_accelerate (first_half_passed me) me))
       (if brk then supervisor_decelerate (supervisor_accelerate (first_half_passed me) me)
          else supervisor_accelerate (first_half_passed me) me) b = Inr (me1, b')"
    "me' = me1\<lparr>ticks_last_time := ticks\<rparr>"
    by (auto simp: supervisor_ramp_def Let_def res_bind_eq_Inr)
  with mot_tmr_restart_frame [OF this(1), of P] show ?thesis
    by (auto simp: same_wiring_def)
qed

lemma supervisor_stall_counter:
  assumes "supervisor_stall True me b = (jump, me', b')" "last_pos me = posAct me"
  shows "stalled_counter me' = u32 (stalled_counter me + 1)"
  using assms by (auto simp: supervisor_stall_def Let_def split_beta MOT_PAP_STALL_THRESHOLD_def
      c_abs_def i32_id split: if_splits)

lemma supervisor_body_frame:
  assumes "mot_pap_supervisor_body rate sd me b = Inr (me', b')"
  shows "mtype me' = mtype me \<and> same_wiring me me' \<and> dir me' = dir me \<and> posAct me' = posAct me \<and>
    last_pos me' = last_pos me \<and> half_steps_curr me' = half_steps_curr me \<and>
    half_steps_requested me' = half_steps_requested me \<and>
    supervisor_queue b' = supervisor_queue b \<and>
    touches {main_pwr_pin} b b' \<and> (\<not> sd \<longrightarrow> touches {} b b') \<and>
    stalled_counter me' = stalled_counter (fst (snd (supervisor_stall sd me b)))"
proof (cases "supervisor_stall sd me b")
  case (fields jump me1 b1)
  note frame = supervisor_stall_frame [OF fields]
  have wiring: "same_wiring me me1"
    using fields by (auto simp: supervisor_stall_def same_wiring_def Let_def split_beta split: if_splits)
  have off: "\<not> sd \<Longrightarrow> b1 = b" using fields by simp
  show ?thesis
  proof (cases "jump \<or> stalled me1 \<or> already_there me1 \<or> \<not> supervisor_due (i32 (xTickCount b1)) me1")
    case True
    then have "me' = me1" "b' = b1 \<or> (\<exists>l f t. b' = lDebug l f t b1)"
      using assms by (auto simp: mot_pap_supervisor_body_def fields Let_def split: if_splits)
    with frame wiring off fields show ?thesis
      by (auto intro: touches_trans)
  next
    case False
    then have ramp: "supervisor_ramp rate (i32 (xTickCount b1)) me1 b1 = Inr (me', b')"
      using assms by (simp add: mot_pap_supervisor_body_def fields Let_def)
    from supervisor_ramp_frame [OF ramp, of "{main_pwr_pin}"] supervisor_ramp_frame [OF ramp, of "{}"]
      frame wiring off fields show ?thesis
      by (auto intro: touches_trans same_wiring_trans)
  qed
qed

lemma supervisor_body_ok:
  assumes "motor_ok a me" "mot_pap_supervisor_body rate sd me b = Inr (me', b')"
  shows "motor_ok a me'"
proof -
  note frame = supervisor_body_frame [OF assms(2)]
  have "mtype me' = MOT_PAP_TYPE_STEPS \<Longrightarrow> ramp_ok me'"
    using frame assms supervisor_body_steps_safe [of me rate sd b]
    by (auto simp: motor_ok_def steps_ok_def)
  with frame assms(1) show ?thesis
    by (auto simp: motor_ok_def steps_ok_def intro: same_wiring_trans)
qed

text \<open>The interrupt routine: it has no fault once the queue exists, and keeps the invariant.\<close>

lemma mot_pap_isr_total:
  assumes "supervisor_queue b = Some q"
  shows "\<exists>me' b'. mot_pap_isr c ax me b = Inr (me', b')"
  using assms
  by (simp add: mot_pap_isr_def isr_stop_def isr_pulse_def Let_def split_beta xQueueSendFromISR_def)

lemma mot_pap_isr_frame:
  assumes "mot_pap_isr c ax me b = Inr (me', b')"
  shows "same_wiring me me' \<and> last_pos me' = posAct me' \<and> dir me' = dir me \<and>
    (supervisor_queue b' = supervisor_queue b \<or>
     (\<exists>q. supervisor_queue b = Some q \<and> supervisor_queue b' = Some (push_bounded 1 ax q))) \<and>
    touches {pin_of (step (gpios me))} b b'"
proof -
  have "touches {pin_of (step (gpios me))} b
      (b\<lparr>trace := trace (gpio_toggle (step (gpios me)) b), supervisor_queue := q\<rparr>)" for q
    by (simp add: touches_def pin_of_def)
  with assms show ?thesis
    by (auto simp: mot_pap_isr_def isr_stop_def isr_pulse_def Let_def split_beta res_bind_eq_Inr
        xQueueSendFromISR_def same_wiring_def touches_gpio mot_tmr_stop_def tmr_stop_def
        touches_def pin_of_def emits_def split: if_splits option.splits)
qed

lemma mot_pap_isr_steps_ok:
  assumes "mot_pap_isr c ax me b = Inr (me', b')" "steps_ok me"
  shows "steps_ok me'"
proof (cases "mtype me = MOT_PAP_TYPE_STEPS \<and> half_steps_curr me < half_steps_requested me")
  case True
  then have "i32 (half_steps_curr me + 1) = half_steps_curr me + 1"
    using assms(2) by (simp add: steps_ok_def i32_id is_i32_def)
  with True assms show ?thesis
    by (auto simp: mot_pap_isr_def isr_arrival_def isr_stop_def isr_pulse_def Let_def split_beta
        res_bind_eq_Inr xQueueSendFromISR_def steps_ok_def ramp_ok_def
        split: if_splits option.splits)
next
  case False
  with assms(1) have "mtype me' \<noteq> MOT_PAP_TYPE_STEPS"
    by (auto simp: mot_pap_isr_def isr_arrival_def isr_stop_def isr_pulse_def Let_def split_beta
        res_bind_eq_Inr xQueueSendFromISR_def
        split: if_splits option.splits mot_pap_type.splits)
  then show ?thesis by (simp add: steps_ok_def)
qed

lemma mot_pap_isr_ok:
  "motor_ok a me \<Longrightarrow> mot_pap_isr c ax me b = Inr (me', b') \<Longrightarrow> motor_ok a me'"
  using mot_pap_isr_frame mot_pap_isr_steps_ok unfolding motor_ok_def
  by (blast intro: same_wiring_trans)

text \<open>
  A command, before and after its sleep. The continuation it leaves carries the unsigned values
  of its arguments.
\<close>

definition moved :: "mot_pap \<Rightarrow> mot_pap \<Rightarrow> bool" where
  "moved me me' \<longleftrightarrow> same_wiring me me' \<and> posAct me' = posAct me \<and> last_pos me' = last_pos me"

lemma moved_motor_ok: "moved me me' \<Longrightarrow> motor_ok a me \<Longrightarrow> steps_ok me' \<Longrightarrow> motor_ok a me'"
  by (auto simp: moved_def motor_ok_def intro: same_wiring_trans)

lemma moved_trans [trans]: "moved me1 me2 \<Longrightarrow> moved me2 me3 \<Longrightarrow> moved me1 me3"
  by (auto simp: moved_def intro: same_wiring_trans)

definition end_effect :: "mot_pap_direction \<Rightarrow> mot_pap \<Rightarrow> board \<Rightarrow> mot_pap \<Rightarrow> board \<Rightarrow> bool" where
  "end_effect d me b me' b' \<longleftrightarrow>
     moved me me' \<and> steps_ok me' \<and> dir me' = d \<and> started (tmr me') \<and>
     supervisor_queue b' = supervisor_queue b \<and> sets_direction d me b b'"

fun speed_of :: "cont \<Rightarrow> int" where
  "speed_of (FreeRunEnd d speed) = speed"
| "speed_of (StepsEnd d speed steps st dv) = speed"
| "speed_of (ClosedLoopEnd d) = 1"

fun dir_of :: "cont \<Rightarrow> mot_pap_direction" where
  "dir_of (FreeRunEnd d speed) = d"
| "dir_of (StepsEnd d speed steps st dv) = d"
| "dir_of (ClosedLoopEnd d) = d"

definition cont_ok :: "cont \<Rightarrow> bool" where
  "cont_ok k \<longleftrightarrow> 1 \<le> speed_of k \<and> speed_of k \<le> 8 \<and>
     (case k of StepsEnd d speed steps st dv \<Rightarrow> 0 \<le> dv | _ \<Rightarrow> True)"

lemma speed_cases: "1 \<le> speed \<Longrightarrow> speed \<le> 8 \<Longrightarrow> speed = 8 \<or> (1 \<le> speed \<and> speed \<le> 7)" for speed :: int
  by auto

lemma free_run_end_effect:
  assumes "mot_pap_move_free_run_end rate d speed me b = Inr (me', b')" "1 \<le> speed" "speed \<le> 8"
  shows "end_effect d me b me' b'"
proof -
  have "speed \<noteq> 8" using assms(1) mot_pap_move_free_run_end_8 by auto
  with mot_pap_move_free_run_end_ok [of speed rate d me b] assms show ?thesis
    by (auto simp: end_effect_def moved_def same_wiring_def steps_ok_def)
qed

lemma steps_end_fault_iff:
  assumes "1 \<le> speed" "speed \<le> 8" "0 \<le> dv"
  shows "(\<exists>f. mot_pap_move_steps_end rate d speed steps st dv me b = Inl f) \<longleftrightarrow>
    speed = 8 \<or> dv = 0 \<or> speed_freq speed < dv"
proof (cases "speed = 8 \<or> dv = 0 \<or> speed_freq speed < dv")
  case True
  with assms mot_pap_move_steps_end_8 [of rate d steps st dv me b]
    mot_pap_move_steps_end_div [of speed dv rate d steps st me b]
  show ?thesis using speed_cases [OF assms(1,2)] by auto
next
  case False
  then have "1 \<le> dv" "dv \<le> speed_freq speed" "speed \<le> 7" using assms by auto
  with mot_pap_move_steps_end_ok [of speed dv rate d steps st me b] assms False show ?thesis by auto
qed

lemma steps_end_run:
  assumes "mot_pap_move_steps_end rate d speed steps st dv me b = Inr (me', b')"
    and "1 \<le> speed" "speed \<le> 8" "0 \<le> dv"
  shows "mtype me' = MOT_PAP_TYPE_STEPS \<and> dir me' = d \<and> ramp_ok me' \<and> half_steps_curr me' = 0 \<and>
    half_steps_requested me' = i32 (u32 (steps * 2)) \<and> gpios me' = gpios me \<and>
    posAct me' = posAct me \<and> last_pos me' = last_pos me \<and> tmr me' = (tmr me)\<lparr>started := True\<rparr> \<and>
    supervisor_queue b' = supervisor_queue b \<and> sets_direction d me b b'"
proof -
  have "\<not> (speed = 8 \<or> dv = 0 \<or> speed_freq speed < dv)"
    using steps_end_fault_iff [OF assms(2-4), of rate d steps st me b] assms(1) by simp
  moreover have "tmr me' = (tmr me)\<lparr>started := True\<rparr>"
    using assms(1)
    by (auto simp: mot_pap_move_steps_end_def Let_def res_bind_eq_Inr dest!: mot_tmr_restart_frame [where P = "{}"])
  ultimately show ?thesis
    using mot_pap_move_steps_end_ok [of speed dv rate d steps st me b] assms by auto
qed

lemma steps_end_effect:
  assumes "mot_pap_move_steps_end rate d speed steps st dv me b = Inr (me', b')"
    and "1 \<le> speed" "speed \<le> 8" "0 \<le> dv"
  shows "end_effect d me b me' b'"
  using steps_end_run [OF assms] by (simp add: end_effect_def moved_def same_wiring_def steps_ok_def)

lemma closed_loop_end_effect:
  assumes "mot_pap_move_closed_loop_end rate d me b = Inr (me', b')"
  shows "end_effect d me b me' b'"
  using assms mot_pap_move_closed_loop_end_ok [of rate d me b]
  by (auto simp: end_effect_def moved_def same_wiring_def steps_ok_def)

lemma cmd_resume_effect:
  assumes "cmd_resume rate k me b = Inr (me', b')" "cont_ok k"
  shows "end_effect (dir_of k) me b me' b'"
  using assms free_run_end_effect steps_end_effect closed_loop_end_effect
  by (cases k) (auto simp: cont_ok_def)

text \<open>The direction line follows the direction field: it is untouched or set with it.\<close>

definition dir_kept :: "mot_pap \<Rightarrow> board \<Rightarrow> mot_pap \<Rightarrow> board \<Rightarrow> bool" where
  "dir_kept me b me' b' \<longleftrightarrow>
     (touches {} b b' \<and> dir me' = dir me) \<or> sets_direction (dir me') me b b'"

definition quiet :: "mot_pap \<Rightarrow> board \<Rightarrow> mot_pap \<Rightarrow> board \<Rightarrow> bool" where
  "quiet me b me' b' \<longleftrightarrow>
     moved me me' \<and> (steps_ok me \<longrightarrow> steps_ok me') \<and> dir me' = dir me \<and>
     supervisor_queue b' = supervisor_queue b \<and> touches {} b b'"

lemma quiet_refl: "quiet me b me b"
  by (simp add: quiet_def moved_def)

lemma quiet_trans: "quiet me1 b1 me2 b2 \<Longrightarrow> quiet me2 b2 me3 b3 \<Longrightarrow> quiet me1 b1 me3 b3"
  by (auto simp: quiet_def intro: moved_trans touches_trans)

lemma quiet_lDebug: "quiet me b me (lDebug level func text b)"
  by (simp add: quiet_def moved_def)

lemma quiet_stop: "quiet me b (fst (mot_tmr_stop me b)) (snd (mot_tmr_stop me b))"
  by (simp add: quiet_def moved_def same_wiring_def steps_ok_def)

lemma quiet_clear: "quiet me b (mot_pap_clear_flags me) b"
  by (simp add: quiet_def moved_def same_wiring_def mot_pap_clear_flags_def steps_ok_def ramp_ok_def)

lemma quiet_change_delay:
  assumes "mot_pap_change_delay d me b = (me', b')"
  shows "quiet me b me' b' \<and> (mot_pap_reverses me d \<longrightarrow> \<not> started (tmr me'))"
  using mot_pap_change_delay_frame [OF assms, of "{}"]
  by (auto simp: quiet_def moved_def same_wiring_def steps_ok_def split: if_splits)

lemma reverses_clear [simp]: "mot_pap_reverses (mot_pap_clear_flags me) d = mot_pap_reverses me d"
  by (simp add: mot_pap_reverses_def mot_pap_clear_flags_def)

lemma free_run_begin_quiet:
  assumes "mot_pap_move_free_run_begin d me b = (me', b')"
  shows "quiet me b me' b' \<and> (mot_pap_reverses me d \<longrightarrow> \<not> started (tmr me'))"
  using quiet_change_delay [of d "mot_pap_clear_flags me" b me' b'] assms quiet_clear quiet_trans
  by (fastforce simp: mot_pap_move_free_run_begin_def)

lemma steps_begin_quiet:
  assumes "mot_pap_move_steps_begin d me b = (me', b')"
  shows "quiet me b me' b' \<and> (mot_pap_reverses me d \<longrightarrow> \<not> started (tmr me'))"
  using free_run_begin_quiet assms
  by (simp add: mot_pap_move_steps_begin_def mot_pap_move_free_run_begin_def)

lemma closed_loop_begin_quiet:
  assumes "mot_pap_move_closed_loop_begin p me b = (me', b')"
  shows "quiet me b me' b' \<and>
    (\<not> already_there me' \<and> mot_pap_reverses me (mot_pap_direction_calculate (i32 (p - posAct me))) \<longrightarrow>
       \<not> started (tmr me'))"
proof -
  define me1 where "me1 = me\<lparr>stalled := False, stalled_counter := 0, posCmd := p,
    already_there := c_abs (i32 (p - posAct me)) < MOT_PAP_POS_THRESHOLD\<rparr>"
  define b1 where "b1 = lDebug Info ''mot_pap_move_closed_loop''
                (name me @ '': CLOSED_LOOP posCmd: '' @ show_int p
                 @ '' posAct: '' @ show_int (posAct me)) b"
  have one: "quiet me b me1 b1"
    by (simp add: quiet_def moved_def same_wiring_def me1_def b1_def steps_ok_def ramp_ok_def)
  have rev: "mot_pap_reverses me1 d = mot_pap_reverses me d" for d
    by (simp add: mot_pap_reverses_def me1_def)
  have body: "mot_pap_move_closed_loop_begin p me b =
      (if already_there me1 then
         (fst (mot_tmr_stop me1 b1), lDebug Info ''mot_pap_move_closed_loop''
            (name (fst (mot_tmr_stop me1 b1)) @ '': already there'') (snd (mot_tmr_stop me1 b1)))
       else mot_pap_change_delay (mot_pap_direction_calculate (i32 (p - posAct me))) me1 b1)"
    by (simp add: mot_pap_move_closed_loop_begin_def Let_def me1_def b1_def split_beta)
  show ?thesis
  proof (cases "already_there me1")
    case True
    with assms body show ?thesis
      using quiet_trans [OF one quiet_trans [OF quiet_stop quiet_lDebug]] by auto
  next
    case False
    with assms body show ?thesis
      using quiet_change_delay [of _ me1 b1 me' b'] one rev by (auto intro: quiet_trans)
  qed
qed

lemma quiet_end_effect:
  assumes "quiet me b me1 b1" "end_effect d me1 b1 me' b'"
  shows "moved me me' \<and> steps_ok me' \<and> supervisor_queue b' = supervisor_queue b \<and>
    dir_kept me b me' b'"
proof -
  have "gpios me1 = gpios me" using assms by (auto simp: quiet_def moved_def same_wiring_def)
  moreover have "touches P b b1" for P
    using assms(1) touches_mono [of "{}" b b1 P] by (simp add: quiet_def)
  ultimately have "dir_kept me b me' b'"
    using assms by (auto simp: dir_kept_def end_effect_def sets_direction_def intro: touches_trans)
  with assms show ?thesis by (auto simp: quiet_def end_effect_def intro: moved_trans)
qed

definition start_effect ::
    "mot_pap \<Rightarrow> board \<Rightarrow> cont option \<Rightarrow> mot_pap \<Rightarrow> board \<Rightarrow> bool" where
  "start_effect me b k me' b' \<longleftrightarrow>
     moved me me' \<and> (steps_ok me \<longrightarrow> steps_ok me') \<and>
     supervisor_queue b' = supervisor_queue b \<and> dir_kept me b me' b' \<and>
     (case k of None \<Rightarrow> True | Some k \<Rightarrow> cont_ok k \<and> \<not> started (tmr me'))"

lemma start_effect_quiet:
  "quiet me b me' b' \<Longrightarrow> (case k of None \<Rightarrow> True | Some k \<Rightarrow> cont_ok k \<and> \<not> started (tmr me')) \<Longrightarrow>
   start_effect me b k me' b'"
  by (auto simp: quiet_def start_effect_def dir_kept_def)

lemma start_effect_end:
  "quiet me b me1 b1 \<Longrightarrow> end_effect d me1 b1 me' b' \<Longrightarrow> start_effect me b None me' b'"
  using quiet_end_effect [of me b me1 b1 d me' b'] by (auto simp: start_effect_def)

lemma speed_ok_bounds: "mot_pap_free_run_speed_ok speed \<Longrightarrow> 1 \<le> speed \<and> speed \<le> 8"
  by (simp add: mot_pap_free_run_speed_ok_def MOT_PAP_MAX_SPEED_FREE_RUN_def)

lemma no_cont_Inr: "no_cont r = Inr (k, me, b) \<longleftrightarrow> k = None \<and> r = Inr (me, b)"
  by (cases r) (auto simp: no_cont_def split_beta)

lemma start_effect_free_run:
  assumes "cmd_start rate (FreeRun d speed) me b = Inr (k, me', b')"
  shows "start_effect me b k me' b'"
proof (cases "mot_pap_free_run_speed_ok speed")
  case True
  obtain me1 b1 where beg: "mot_pap_move_free_run_begin d me b = (me1, b1)" by fastforce
  from free_run_begin_quiet [OF beg] assms True beg speed_ok_bounds [OF True] show ?thesis
    by (cases "mot_pap_reverses me d")
      (auto simp: no_cont_Inr mot_pap_move_free_run_def cont_ok_def
        intro!: start_effect_quiet start_effect_end free_run_end_effect)
next
  case False
  with assms show ?thesis
    by (auto simp: no_cont_Inr mot_pap_move_free_run_def intro!: start_effect_quiet quiet_lDebug)
qed

lemma start_effect_steps:
  assumes "cmd_start rate (Steps d speed steps st dv) me b = Inr (k, me', b')" "0 \<le> dv"
  shows "start_effect me b k me' b'"
proof (cases "mot_pap_free_run_speed_ok speed")
  case True
  obtain me1 b1 where beg: "mot_pap_move_steps_begin d me b = (me1, b1)" by fastforce
  from steps_begin_quiet [OF beg] assms True beg speed_ok_bounds [OF True] show ?thesis
    by (cases "mot_pap_reverses me d")
      (auto simp: no_cont_Inr mot_pap_move_steps_def cont_ok_def
        intro!: start_effect_quiet start_effect_end steps_end_effect)
next
  case False
  with assms show ?thesis
    by (auto simp: no_cont_Inr mot_pap_move_steps_def intro!: start_effect_quiet quiet_lDebug)
qed

lemma start_effect_closed_loop:
  assumes "cmd_start rate (ClosedLoop p) me b = Inr (k, me', b')"
  shows "start_effect me b k me' b'"
proof -
  obtain me1 b1 where beg: "mot_pap_move_closed_loop_begin p me b = (me1, b1)" by fastforce
  from closed_loop_begin_quiet [OF beg] assms beg show ?thesis
    by (cases "already_there me1")
      (auto simp: no_cont_Inr mot_pap_move_closed_loop_def Let_def cont_ok_def
        split: if_splits intro: start_effect_quiet start_effect_end closed_loop_end_effect)
qed

lemma start_effect_halt:
  assumes "cmd_start rate Halt me b = Inr (k, me', b')"
  shows "start_effect me b k me' b'"
proof -
  have "quiet me b (me\<lparr>mtype := MOT_PAP_TYPE_STOP\<rparr>) b"
    by (simp add: quiet_def moved_def same_wiring_def steps_ok_def)
  from quiet_trans [OF this quiet_trans [OF quiet_stop quiet_lDebug]] assms show ?thesis
    by (auto simp: mot_pap_stop_def split_beta intro!: start_effect_quiet)
qed

lemma cmd_start_effect:
  assumes "cmd_start rate (cmd_args c) me b = Inr (k, me', b')"
  shows "start_effect me b k me' b'"
proof (cases c)
  case (Steps d speed steps st dv)
  moreover have "0 \<le> u32 dv" by (simp add: u32_def)
  ultimately show ?thesis using assms start_effect_steps by simp
qed (use assms start_effect_free_run start_effect_closed_loop start_effect_halt in simp_all)

section \<open>The invariant of the system\<close>

definition queue_ok :: "board \<Rightarrow> bool" where
  "queue_ok b \<longleftrightarrow> (\<exists>q. supervisor_queue b = Some q \<and> length q \<le> 1)"

definition dir_line :: "sys \<Rightarrow> axis \<Rightarrow> bool" where
  "dir_line s a \<longleftrightarrow> (\<forall>v. pin_level (dir_pin a) v (trace (brd s)) = dir_bit (dir (motors s a)))"

definition sys_ok :: "sys \<Rightarrow> bool" where
  "sys_ok s \<longleftrightarrow>
     (\<forall>a. motor_ok a (motors s a)) \<and> queue_ok (brd s) \<and>
     (\<forall>a k. sleeping s = Some (a, k) \<longrightarrow> cont_ok k) \<and>
     dir_line s Y_AXIS \<and> dir_line s Z_AXIS"

lemma sys_ok_motor: "sys_ok s \<Longrightarrow> motor_ok a (motors s a)"
  by (simp add: sys_ok_def)

lemma set_motor_simps [simp]:
  "motors (set_motor a me b s) = (motors s)(a := me)"
  "brd (set_motor a me b s) = b"
  "enc (set_motor a me b s) = enc s"
  "stall_detection (set_motor a me b s) = stall_detection s"
  "sleeping (set_motor a me b s) = sleeping s"
  by (simp_all add: set_motor_def)

lemma dir_pin_inj: "dir_pin a = dir_pin a' \<longleftrightarrow> a = a'"
  by (auto simp: dir_pin_def split: axis.splits)

lemma dir_pin_others [simp]: "dir_pin a \<noteq> step_pin a'" "dir_pin a \<noteq> (5, n)"
  by (simp_all add: dir_pin_def step_pin_def)

lemma touches_dir_line:
  assumes "touches P (brd s) (brd t)" "dir_pin a \<notin> P" "dir (motors t a) = dir (motors s a)"
  shows "dir_line s a \<Longrightarrow> dir_line t a"
  using assms touches_pin_level by (auto simp: dir_line_def)

lemma queue_ok_push:
  "queue_ok b \<Longrightarrow> supervisor_queue b = Some q \<Longrightarrow> supervisor_queue b' = Some (push_bounded 1 a q) \<Longrightarrow>
   queue_ok b'"
  by (auto simp: queue_ok_def push_bounded_def)

lemma queue_ok_same: "supervisor_queue b' = supervisor_queue b \<Longrightarrow> queue_ok b' = queue_ok b"
  by (simp add: queue_ok_def)

text \<open>
  A step of one axis: the new motor is well formed, the other motors are the same, and the
  direction line of the axis keeps its meaning.
\<close>

lemma dir_kept_line:
  assumes "dir_kept (motors s a) (brd s) me' b'" "motor_ok a (motors s a)" "dir_line s a'"
    and "brd t = b'" "motors t = (motors s)(a := me')"
  shows "dir_line t a'"
proof -
  from assms(1) consider
    (quiet) "touches {} (brd s) b'" "dir me' = dir (motors s a)" |
    (set) "touches {dir_pin a} (brd s) b'" "\<forall>v. pin_level (dir_pin a) v (trace b') = dir_bit (dir me')"
    using motor_ok_pins [OF assms(2)] by (auto simp: dir_kept_def sets_direction_def)
  then show ?thesis
  proof cases
    case quiet
    then show ?thesis using touches_dir_line [of "{}" s t a'] assms(3-5) by auto
  next
    case set
    then show ?thesis
      using touches_dir_line [of "{dir_pin a}" s t a'] assms(3-5)
      by (cases "a' = a") (auto simp: dir_line_def dir_pin_inj)
  qed
qed

text \<open>Every rule of the step relation keeps the invariant.\<close>

lemma sys_ok_set_motor:
  assumes "sys_ok s" "motor_ok a me" "queue_ok b" "k = None \<or> (\<exists>k'. k = Some (a, k') \<and> cont_ok k')"
    and "\<And>a'. a' \<noteq> X_AXIS \<Longrightarrow> dir_line s a' \<Longrightarrow> dir_line (set_motor a me b s) a'"
  shows "sys_ok ((set_motor a me b s)\<lparr>sleeping := k\<rparr>)"
  using assms by (auto simp: sys_ok_def dir_line_def)

lemma sys_ok_set_motor_awake:
  assumes "sys_ok s" "motor_ok a me" "queue_ok b"
    and "\<And>a'. a' \<noteq> X_AXIS \<Longrightarrow> dir_line s a' \<Longrightarrow> dir_line (set_motor a me b s) a'"
  shows "sys_ok (set_motor a me b s)"
  using assms by (auto simp: sys_ok_def)

lemma sys_ok_board:
  assumes "sys_ok s" "supervisor_queue b = supervisor_queue (brd s)"
    and "touches P (brd s) b" "dir_pin Y_AXIS \<notin> P" "dir_pin Z_AXIS \<notin> P"
    and "motors t = motors s" "brd t = b" "sleeping t = sleeping s"
  shows "sys_ok t"
  using assms touches_dir_line [of P s t Y_AXIS] touches_dir_line [of P s t Z_AXIS]
    queue_ok_same [of b "brd s"]
  by (auto simp: sys_ok_def)

lemma sys_ok_command:
  assumes "sys_ok s" "cmd_start rate (cmd_args c) (motors s a) (brd s) = Inr (k, me, b)"
  shows "sys_ok ((set_motor a me b s)\<lparr>sleeping := map_option (Pair a) k\<rparr>)"
proof -
  have eff: "start_effect (motors s a) (brd s) k me b" by (rule cmd_start_effect [OF assms(2)])
  have mot: "motor_ok a (motors s a)" using assms(1) by (simp add: sys_ok_def)
  show ?thesis
  proof (rule sys_ok_set_motor [OF assms(1)])
    show "motor_ok a me"
      using eff moved_motor_ok [OF _ mot] mot by (simp add: start_effect_def motor_ok_def)
    show "queue_ok b"
      using eff assms(1) queue_ok_same [of b "brd s"] by (simp add: start_effect_def sys_ok_def)
    show "map_option (Pair a) k = None \<or> (\<exists>k'. map_option (Pair a) k = Some (a, k') \<and> cont_ok k')"
      using eff by (cases k) (auto simp: start_effect_def)
    show "dir_line (set_motor a me b s) a'" if "dir_line s a'" for a'
      using dir_kept_line [of s a me b a'] eff mot that by (simp add: start_effect_def)
  qed
qed

lemma sys_ok_wake:
  assumes "sys_ok s" "sleeping s = Some (a, k)" "cmd_resume rate k (motors s a) (brd s) = Inr (me, b)"
  shows "sys_ok ((set_motor a me b s)\<lparr>sleeping := None\<rparr>)"
proof -
  have mot: "motor_ok a (motors s a)" and "cont_ok k" using assms(1,2) by (auto simp: sys_ok_def)
  from quiet_end_effect [OF quiet_refl cmd_resume_effect [OF assms(3) this(2)]]
  have eff: "moved (motors s a) me" "steps_ok me" "supervisor_queue b = supervisor_queue (brd s)"
    "dir_kept (motors s a) (brd s) me b" by auto
  show ?thesis
  proof (rule sys_ok_set_motor [OF assms(1)])
    show "motor_ok a me" by (rule moved_motor_ok [OF eff(1) mot eff(2)])
    show "queue_ok b"
      using eff assms(1) queue_ok_same [of b "brd s"] by (simp add: sys_ok_def)
    show "dir_line (set_motor a me b s) a'" if "dir_line s a'" for a'
      using dir_kept_line [of s a me b a'] eff mot that by simp
  qed simp
qed

lemma touches_cons_trace: "touches P (b\<lparr>supervisor_queue := q\<rparr>) b' = touches P b b'"
  by (simp add: touches_def)

lemma sys_ok_supervise:
  assumes "sys_ok s" "supervisor_queue (brd s) = Some (a # q)"
    and "mot_pap_supervisor_body rate sd (motors s a) ((brd s)\<lparr>supervisor_queue := Some q\<rparr>) = Inr (me, b)"
  shows "sys_ok (set_motor a me b s)"
proof -
  note frame = supervisor_body_frame [OF assms(3)]
  show ?thesis
  proof (rule sys_ok_set_motor_awake [OF assms(1)])
    show "motor_ok a me"
      using supervisor_body_ok [OF sys_ok_motor [OF assms(1)] assms(3)] .
    show "queue_ok b" using frame assms(1,2) by (auto simp: queue_ok_def sys_ok_def)
    show "dir_line (set_motor a me b s) a'" if "dir_line s a'" for a'
      using that frame touches_dir_line [of "{main_pwr_pin}" s "set_motor a me b s" a']
      by (auto simp: touches_cons_trace)
  qed
qed

lemma sys_ok_timer:
  assumes "sys_ok s" "timer_irq_handler pending c a (motors s a) (brd s) = Inr (me, b)"
  shows "sys_ok (set_motor a me b s)"
proof -
  define b1 where "b1 = snd (tmr_match_pending pending (tmr (motors s a)) (brd s))"
  have pend: "tmr_match_pending pending (tmr (motors s a)) (brd s) = (pending, b1)"
    and same: "supervisor_queue b1 = supervisor_queue (brd s)" "touches P (brd s) b1" for P
    by (simp_all add: b1_def tmr_match_pending_def touches_emit)
  have mot: "motor_ok a (motors s a)" using assms(1) by (simp add: sys_ok_def)
  show ?thesis
  proof (cases pending)
    case True
    then have isr: "mot_pap_isr c a (motors s a) b1 = Inr (me, b)"
      using assms(2) pend by (simp add: timer_irq_handler_def)
    note frame = mot_pap_isr_frame [OF isr]
    have touched: "touches {step_pin a} (brd s) b"
      using frame touches_trans [OF same(2)] motor_ok_pins [OF mot] by simp
    show ?thesis
    proof (rule sys_ok_set_motor_awake [OF assms(1)])
      show "motor_ok a me" by (rule mot_pap_isr_ok [OF mot isr])
      have "queue_ok b1" using same(1) assms(1) queue_ok_same [of b1 "brd s"] by (simp add: sys_ok_def)
      moreover have "supervisor_queue b = supervisor_queue b1 \<or>
          (\<exists>q. supervisor_queue b1 = Some q \<and> supervisor_queue b = Some (push_bounded 1 a q))"
        using frame by blast
      ultimately show "queue_ok b" using queue_ok_push queue_ok_same [of b b1] by blast
      show "dir_line (set_motor a me b s) a'" if "dir_line s a'" for a'
        using that frame touches_dir_line [of "{step_pin a}" s "set_motor a me b s" a'] touched
        by (simp)
    qed
  next
    case False
    then have "me = motors s a" "b = b1" using assms(2) pend by (simp_all add: timer_irq_handler_def)
    then show ?thesis
      using sys_ok_board [of s b "{}" "set_motor a me b s"] same assms(1) by (simp add: fun_upd_idem)
  qed
qed

theorem sys_step_ok: "sys_step rate s ev t \<Longrightarrow> sys_ok s \<Longrightarrow> sys_ok t"
proof (induction rule: sys_step.induct)
  case (link s v)
  have "touches {(2, 4)} (brd s) (relay_spare_led v (brd s))" by (simp add: touches_def)
  with link show ?case
    using sys_ok_board [of s "relay_spare_led v (brd s)" "{(2, 4)}"] by (simp add: dir_pin_def)
next
  case (main_power s v)
  have "touches {(5, 1)} (brd s) (relay_main_pwr v (brd s))" by (simp add: touches_def)
  with main_power show ?case
    using sys_ok_board [of s "relay_main_pwr v (brd s)" "{(5, 1)}"] by (simp add: dir_pin_def)
next
  case (tick s)
  then show ?case
    using sys_ok_board [of s "(brd s)\<lparr>xTickCount := u32 (xTickCount (brd s) + 1)\<rparr>" "{}"]
    by (simp add: touches_def)
next
  case (stall_control s v)
  then show ?case using sys_ok_board [of s "brd s" "{}"] by simp
next
  case (encoder_z s e b)
  then show ?case
    using sys_ok_board [of s b "{}"] by (auto simp: GPIO0_IRQHandler_def touches_emit)
next
  case (encoder_b s e b)
  then show ?case
    using sys_ok_board [of s b "{}"] by (auto simp: GPIO1_IRQHandler_def touches_emit)
next
  case (encoder_a s e b)
  then show ?case
    using sys_ok_board [of s b "{}"] by (auto simp: GPIO2_IRQHandler_def touches_emit)
next
  case (command s c a k me b)
  then show ?case using sys_ok_command by blast
next
  case (wake s a k me b)
  then show ?case using sys_ok_wake by blast
next
  case (timer s a pending me b)
  then show ?case using sys_ok_timer by blast
next
  case (supervise s a q me b)
  then show ?case using sys_ok_supervise by blast
qed

section \<open>Start-up\<close>

lemma axis_init_pins_frame:
  assumes "axis_init_pins in_reset me b = Some (me', b')"
  shows "me' = me \<and> supervisor_queue b' = supervisor_queue b \<and> touches {} b b'"
proof -
  let ?b1 = "gpio_init_output (step (gpios me)) (gpio_init_output (direction (gpios me)) b)"
  from assms have "tmr_init in_reset (tmr me) ?b1 = Some b'" "me' = me"
    by (auto simp: axis_init_pins_def Let_def)
  moreover have "touches {} b ?b1" by (simp add: touches_def)
  moreover have "supervisor_queue ?b1 = supervisor_queue b"
    by (simp add: gpio_init_output_def)
  ultimately show ?thesis
    using tmr_init_pins [of in_reset "tmr me" ?b1 b' "{}"] touches_trans by auto
qed

lemma encoders_init_frame:
  assumes "encoders_init e b = (e', b')"
  shows "supervisor_queue b' = supervisor_queue b \<and> touches {} b b'"
  using assms by (auto simp: encoders_init_def Let_def touches_def gpio_init_input_def)

lemma mot_pap_init_frame [simp]:
  "trace (mot_pap_init c b) = trace b"
  "supervisor_queue (mot_pap_init c b) = (if c then Some [] else None)"
  by (simp_all add: mot_pap_init_def)

lemma prvSetupHardware_shape:
  assumes "prvSetupHardware in_reset created s = Some s0"
  shows "motors s0 = (\<lambda>a. axis_struct a (motors s a)) \<and> sleeping s0 = sleeping s \<and>
    stall_detection s0 = stall_detection s \<and>
    supervisor_queue (brd s0) = (if created then Some [] else None) \<and>
    touches {} (mot_pap_init created (relay_init (settings_init (debugInit (brd s))))) (brd s0)"
proof -
  let ?b = "mot_pap_init created (relay_init (settings_init (debugInit (brd s))))"
  from assms obtain x b1 y b2 z b3 e b4 where
    x: "x_axis_init (in_reset X_AXIS) (motors s X_AXIS) ?b = Some (x, b1)" and
    y: "y_axis_init (in_reset Y_AXIS) (motors s Y_AXIS) b1 = Some (y, b2)" and
    z: "z_axis_init (in_reset Z_AXIS) (motors s Z_AXIS) b2 = Some (z, b3)" and
    e: "encoders_init (enc s) b3 = (e, b4)" and
    s0: "s0 = s\<lparr>motors := (motors s)(X_AXIS := x, Y_AXIS := y, Z_AXIS := z), enc := e,
      brd := mem_check_init b4\<rparr>"
    using that
    by (clarsimp simp: prvSetupHardware_def Let_def bind_eq_Some_conv split_beta) (metis surjective_pairing)
  note fx = axis_init_pins_frame [OF x [unfolded x_axis_init_def]]
  note fy = axis_init_pins_frame [OF y [unfolded y_axis_init_def]]
  note fz = axis_init_pins_frame [OF z [unfolded z_axis_init_def]]
  note fe = encoders_init_frame [OF e]
  have "touches {} ?b b1" "touches {} b1 b2" "touches {} b2 b3" "touches {} b3 b4"
    using fx fy fz fe by simp_all
  then have "touches {} ?b b4" by (blast intro: touches_trans)
  moreover have "touches {} b4 (mem_check_init b4)" by (simp add: mem_check_init_def)
  ultimately have "touches {} ?b (mem_check_init b4)" by (rule touches_trans)
  moreover have "(motors s)(X_AXIS := x, Y_AXIS := y, Z_AXIS := z) = (\<lambda>a. axis_struct a (motors s a))"
    using fx fy fz by (auto simp: axis_struct_def fun_eq_iff split: axis.splits)
  ultimately show ?thesis
    using fx fy fz fe by (simp add: s0 mem_check_init_def)
qed

lemma axis_struct_ok: "motor_ok a (axis_struct a mot_pap_zero)"
  by (cases a) (simp_all add: motor_ok_def axis_struct_def x_axis_struct_def y_axis_struct_def
      z_axis_struct_def mot_pap_zero_def steps_ok_def)

lemma axis_struct_dir: "dir (axis_struct a mot_pap_zero) = MOT_PAP_DIRECTION_CW"
  by (cases a) (simp_all add: axis_struct_def x_axis_struct_def y_axis_struct_def
      z_axis_struct_def mot_pap_zero_def)

lemma relay_init_low:
  "p \<in> {(2, 4), (2, 5), (2, 6), (5, 1)} \<Longrightarrow> \<not> pin_level p v (trace (relay_init b))"
  by (auto simp: relay_init_def Let_def relay_pins)

lemma main_start_shape:
  assumes "main_start in_reset created b = Some s"
  shows "motors s = (\<lambda>a. axis_struct a mot_pap_zero) \<and> sleeping s = None \<and>
    stall_detection s \<and> supervisor_queue (brd s) = (if created then Some [] else None) \<and>
    (\<forall>a. dir_line s a) \<and> (\<forall>v. \<not> pin_level main_pwr_pin v (trace (brd s)))"
proof -
  let ?b = "mot_pap_init created (relay_init (settings_init (debugInit
    (debugNetSetLevel Error (debugLocalSetLevel Info b)))))"
  note shape = prvSetupHardware_shape [OF assms [unfolded main_start_def]]
  have low: "\<not> pin_level p v (trace (brd s))" if "p \<in> {(2, 4), (2, 5), (2, 6), (5, 1)}" for p v
  proof -
    have "touches {} ?b (brd s)" using shape by (simp add: sys_static_def)
    then have "pin_level p v (trace (brd s)) = pin_level p v (trace ?b)"
      by (simp add: touches_pin_level)
    with relay_init_low [OF that] show ?thesis by simp
  qed
  have "dir_line s a" for a
    using low [of "dir_pin a"] shape
    by (cases a) (simp_all add: dir_line_def dir_pin_def sys_static_def axis_struct_dir dir_bit_def)
  with low shape show ?thesis by (simp add: sys_static_def)
qed

lemma main_start_ok:
  assumes "main_start in_reset True b = Some s"
  shows "sys_ok s"
  using main_start_shape [OF assms] axis_struct_ok by (auto simp: sys_ok_def queue_ok_def)

lemma sys_run_ok: "sys_run rate s es t \<Longrightarrow> sys_ok s \<Longrightarrow> sys_ok t"
  by (induction rule: sys_run.induct) (auto intro: sys_step_ok)

lemma reachable_ok: "reachable rate in_reset True b s \<Longrightarrow> sys_ok s"
  using main_start_ok sys_run_ok unfolding reachable_def by blast

lemma reachable_step:
  "reachable rate in_reset c b s \<Longrightarrow> sys_step rate s ev t \<Longrightarrow> reachable rate in_reset c b t"
  unfolding reachable_def using run_snoc by blast

text \<open>Start-up returns exactly when every timer leaves its reset.\<close>

lemma axis_init_pins_returns: "(\<exists>r. axis_init_pins ir me b = Some r) \<longleftrightarrow> (\<exists>k. \<not> ir k)"
  using tmr_init_returns_iff [of ir "tmr me"
      "gpio_init_output (step (gpios me)) (gpio_init_output (direction (gpios me)) b)"]
  by (auto simp: axis_init_pins_def Let_def)

lemma prvSetupHardware_returns_iff:
  "(\<exists>s'. prvSetupHardware in_reset created s = Some s') \<longleftrightarrow> (\<forall>a. \<exists>k. \<not> in_reset a k)"
proof
  assume "\<exists>s'. prvSetupHardware in_reset created s = Some s'"
  then obtain rx bx ry b1 rz b2 where
    "x_axis_init (in_reset X_AXIS) (motors s X_AXIS) bx = Some rx"
    "y_axis_init (in_reset Y_AXIS) (motors s Y_AXIS) b1 = Some ry"
    "z_axis_init (in_reset Z_AXIS) (motors s Z_AXIS) b2 = Some rz"
    by (auto simp: prvSetupHardware_def Let_def bind_eq_Some_conv split_beta)
  then have "\<exists>k. \<not> in_reset X_AXIS k" "\<exists>k. \<not> in_reset Y_AXIS k" "\<exists>k. \<not> in_reset Z_AXIS k"
    using axis_init_pins_returns unfolding x_axis_init_def y_axis_init_def z_axis_init_def
    by blast+
  then show "\<forall>a. \<exists>k. \<not> in_reset a k" by (metis axis.exhaust)
next
  assume rel: "\<forall>a. \<exists>k. \<not> in_reset a k"
  have "\<exists>r. x_axis_init (in_reset X_AXIS) me b = Some r" "\<exists>r. y_axis_init (in_reset Y_AXIS) me b = Some r"
    "\<exists>r. z_axis_init (in_reset Z_AXIS) me b = Some r" for me b
    using rel axis_init_pins_returns unfolding x_axis_init_def y_axis_init_def z_axis_init_def
    by blast+
  then obtain fx fy fz where
    "\<And>me b. x_axis_init (in_reset X_AXIS) me b = Some (fx me b)"
    "\<And>me b. y_axis_init (in_reset Y_AXIS) me b = Some (fy me b)"
    "\<And>me b. z_axis_init (in_reset Z_AXIS) me b = Some (fz me b)"
    by metis
  then show "\<exists>s'. prvSetupHardware in_reset created s = Some s'"
    by (simp add: prvSetupHardware_def Let_def split_beta)
qed

section \<open>Executing the system\<close>

text \<open>The step relation as a function: every event has at most one outcome.\<close>

fun sys_next :: "(clk_mx \<Rightarrow> int) \<Rightarrow> sys \<Rightarrow> event \<Rightarrow> sys option" where
  "sys_next rate s (Command a c) =
     (if sleeping s = None then
        (case cmd_start rate (cmd_args c) (motors s a) (brd s) of
           Inr (k, me, b) \<Rightarrow> Some ((set_motor a me b s)\<lparr>sleeping := map_option (Pair a) k\<rparr>)
         | Inl _ \<Rightarrow> None)
      else None)"
| "sys_next rate s Wake =
     (case sleeping s of
        None \<Rightarrow> None
      | Some (a, k) \<Rightarrow>
          (case cmd_resume rate k (motors s a) (brd s) of
             Inr (me, b) \<Rightarrow> Some ((set_motor a me b s)\<lparr>sleeping := None\<rparr>)
           | Inl _ \<Rightarrow> None))"
| "sys_next rate s (TimerIRQ a pending) =
     (if started (tmr (motors s a)) then
        (case timer_irq_handler pending (count_a (enc s)) a (motors s a) (brd s) of
           Inr (me, b) \<Rightarrow> Some (set_motor a me b s)
         | Inl _ \<Rightarrow> None)
      else None)"
| "sys_next rate s (Supervise a) =
     (case supervisor_queue (brd s) of
        Some (a' # q) \<Rightarrow>
          (if a' = a then
             (case mot_pap_supervisor_body rate (stall_detection s) (motors s a)
                     ((brd s)\<lparr>supervisor_queue := Some q\<rparr>) of
                Inr (me, b) \<Rightarrow> Some (set_motor a me b s)
              | Inl _ \<Rightarrow> None)
           else None)
      | _ \<Rightarrow> None)"
| "sys_next rate s EncoderZ = (case GPIO0_IRQHandler (enc s) (brd s) of (e, b) \<Rightarrow> Some (s\<lparr>enc := e, brd := b\<rparr>))"
| "sys_next rate s EncoderB = (case GPIO1_IRQHandler (enc s) (brd s) of (e, b) \<Rightarrow> Some (s\<lparr>enc := e, brd := b\<rparr>))"
| "sys_next rate s EncoderA = (case GPIO2_IRQHandler (enc s) (brd s) of (e, b) \<Rightarrow> Some (s\<lparr>enc := e, brd := b\<rparr>))"
| "sys_next rate s Tick = Some (s\<lparr>brd := (brd s)\<lparr>xTickCount := u32 (xTickCount (brd s) + 1)\<rparr>\<rparr>)"
| "sys_next rate s (Link v) = Some (s\<lparr>brd := relay_spare_led v (brd s)\<rparr>)"
| "sys_next rate s (MainPower v) = Some (s\<lparr>brd := relay_main_pwr v (brd s)\<rparr>)"
| "sys_next rate s (StallControl v) = Some (s\<lparr>stall_detection := v\<rparr>)"

lemma sys_next_sound: "sys_next rate s ev = Some t \<Longrightarrow> sys_step rate s ev t"
  by (cases ev)
    (auto split: if_splits option.splits sum.splits prod.splits list.splits intro: sys_step.intros)

lemma sys_next_complete: "sys_step rate s ev t \<Longrightarrow> sys_next rate s ev = Some t"
  by (induction rule: sys_step.induct) auto

lemma sys_next_iff: "sys_step rate s ev t \<longleftrightarrow> sys_next rate s ev = Some t"
  using sys_next_sound sys_next_complete by blast

fun sys_exec :: "(clk_mx \<Rightarrow> int) \<Rightarrow> sys \<Rightarrow> event list \<Rightarrow> sys option" where
  "sys_exec rate s [] = Some s"
| "sys_exec rate s (e # es) = Option.bind (sys_next rate s e) (\<lambda>t. sys_exec rate t es)"

lemma sys_run_Cons: "sys_run rate t es u \<Longrightarrow> sys_step rate s e t \<Longrightarrow> sys_run rate s (e # es) u"
proof (induction rule: sys_run.induct)
  case (run_nil t)
  then show ?case using run_snoc [OF sys_run.run_nil] by fastforce
next
  case (run_snoc t es u e' v)
  then show ?case using sys_run.run_snoc by (metis append_Cons)
qed

lemma sys_exec_sound: "sys_exec rate s es = Some t \<Longrightarrow> sys_run rate s es t"
  by (induction es arbitrary: s)
    (auto simp: bind_eq_Some_conv intro: run_nil sys_run_Cons sys_next_sound)

lemma reachable_exec:
  "main_start in_reset c b = Some s0 \<Longrightarrow> sys_exec rate s0 es = Some s \<Longrightarrow>
   reachable rate in_reset c b s"
  unfolding reachable_def using sys_exec_sound by blast

text \<open>The direction of an axis that is not stopped survives the first part of a command.\<close>

lemma quiet_end_dir: "quiet me b me1 b1 \<Longrightarrow> end_effect d me1 b1 me' b' \<Longrightarrow> dir me' = d"
  by (simp add: end_effect_def)

lemma quiet_dir: "quiet me b me' b' \<Longrightarrow> dir me' = dir me"
  by (simp add: quiet_def)

lemma not_reverses: "mtype me \<noteq> MOT_PAP_TYPE_STOP \<Longrightarrow> \<not> mot_pap_reverses me d \<Longrightarrow> dir me = d"
  by (simp add: mot_pap_reverses_def)

lemma cmd_start_keeps_dir:
  assumes "cmd_start rate (cmd_args c) me b = Inr (k, me', b')" "mtype me \<noteq> MOT_PAP_TYPE_STOP"
  shows "dir me' = dir me"
proof (cases c)
  case (FreeRun d speed)
  obtain me1 b1 where beg: "mot_pap_move_free_run_begin d me b = (me1, b1)" by fastforce
  show ?thesis
    using assms FreeRun beg free_run_begin_quiet [OF beg] quiet_dir not_reverses
      free_run_end_effect speed_ok_bounds
    by (fastforce simp: no_cont_Inr mot_pap_move_free_run_def end_effect_def split: if_splits)
next
  case (Steps d speed steps st dv)
  obtain me1 b1 where beg: "mot_pap_move_steps_begin d me b = (me1, b1)" by fastforce
  have "0 \<le> u32 dv" by (simp add: u32_def)
  with assms Steps beg steps_begin_quiet [OF beg] show ?thesis
    using quiet_dir not_reverses steps_end_effect speed_ok_bounds
    by (fastforce simp: no_cont_Inr mot_pap_move_steps_def end_effect_def split: if_splits)
next
  case (ClosedLoop p)
  obtain me1 b1 where beg: "mot_pap_move_closed_loop_begin (u16 p) me b = (me1, b1)" by fastforce
  show ?thesis
    using assms ClosedLoop beg closed_loop_begin_quiet [OF beg] quiet_dir not_reverses
      closed_loop_end_effect
    by (fastforce simp: no_cont_Inr mot_pap_move_closed_loop_def Let_def end_effect_def split: if_splits)
next
  case Halt
  with assms(1) show ?thesis by (auto simp: mot_pap_stop_def mot_tmr_stop_def split_beta)
qed

section \<open>The lines each event writes\<close>

definition event_lines :: "sys \<Rightarrow> event \<Rightarrow> (int \<times> int) set" where
  "event_lines s ev =
     (case ev of
        Command a c \<Rightarrow> {dir_pin a}
      | Wake \<Rightarrow> (case sleeping s of None \<Rightarrow> {} | Some (a, k) \<Rightarrow> {dir_pin a})
      | TimerIRQ a pending \<Rightarrow> {step_pin a}
      | Supervise a \<Rightarrow> (if stall_detection s then {main_pwr_pin} else {})
      | Link v \<Rightarrow> {(2, 4)}
      | MainPower v \<Rightarrow> {main_pwr_pin}
      | _ \<Rightarrow> {})"

lemma dir_kept_touches:
  "dir_kept me b me' b' \<Longrightarrow> touches {pin_of (direction (gpios me))} b b'"
  using touches_mono [of "{}" b b'] by (auto simp: dir_kept_def sets_direction_def)

lemma sys_step_touches:
  assumes "sys_ok s" "sys_step rate s ev t"
  shows "touches (event_lines s ev) (brd s) (brd t)"
  using assms(2)
proof cases
  case (command c a k me b)
  from cmd_start_effect [OF command(4)] have "dir_kept (motors s a) (brd s) me b"
    by (simp add: start_effect_def)
  with dir_kept_touches motor_ok_pins [OF sys_ok_motor [OF assms(1), of a]] command show ?thesis
    by (fastforce simp: event_lines_def)
next
  case (wake a k me b)
  then have "cont_ok k" using assms(1) by (simp add: sys_ok_def)
  from cmd_resume_effect [OF wake(4) this] motor_ok_pins [OF sys_ok_motor [OF assms(1), of a]] wake
  show ?thesis by (simp add: event_lines_def end_effect_def sets_direction_def)
next
  case (timer a pending me b)
  have one: "touches P (brd s) (snd (tmr_match_pending pending (tmr (motors s a)) (brd s)))" for P
    by (simp add: tmr_match_pending_def touches_emit)
  show ?thesis
  proof (cases pending)
    case True
    then have "mot_pap_isr (count_a (enc s)) a (motors s a)
        (snd (tmr_match_pending pending (tmr (motors s a)) (brd s))) = Inr (me, b)"
      using timer(4) by (simp add: timer_irq_handler_def tmr_match_pending_def)
    from mot_pap_isr_frame [OF this] motor_ok_pins [OF sys_ok_motor [OF assms(1), of a]] timer
    show ?thesis using touches_trans [OF one] by (simp add: event_lines_def)
  next
    case False
    with timer show ?thesis by (auto simp: timer_irq_handler_def tmr_match_pending_def)
  qed
next
  case (supervise a q me b)
  from supervisor_body_frame [OF supervise(4)] supervise show ?thesis
    by (auto simp: event_lines_def touches_cons_trace)
next
  case (encoder_z e b)
  then show ?thesis by (auto simp: GPIO0_IRQHandler_def touches_emit)
next
  case (encoder_b e b)
  then show ?thesis by (auto simp: GPIO1_IRQHandler_def touches_emit)
next
  case (encoder_a e b)
  then show ?thesis by (auto simp: GPIO2_IRQHandler_def touches_emit)
qed (auto simp: event_lines_def touches_def)

text \<open>A motor whose timer runs in the state STOP pulses for ever.\<close>

lemma isr_run_runaway:
  assumes "mtype me = MOT_PAP_TYPE_STOP" "started (tmr me)" "\<not> already_there me"
    and "supervisor_queue b = Some q"
  shows "\<exists>me' b'. isr_run ax cs me b = Inr (me', b') \<and> mtype me' = MOT_PAP_TYPE_STOP \<and>
    started (tmr me') \<and>
    toggles (pin_of (step (gpios me))) (trace b') =
      toggles (pin_of (step (gpios me))) (trace b) + length cs"
  using assms
proof (induction cs arbitrary: me b q)
  case (Cons c cs)
  have "\<exists>me1 b1 q1. mot_pap_isr c ax me b = Inr (me1, b1) \<and> mtype me1 = MOT_PAP_TYPE_STOP \<and>
      started (tmr me1) \<and> \<not> already_there me1 \<and> gpios me1 = gpios me \<and>
      supervisor_queue b1 = Some q1 \<and>
      toggles (pin_of (step (gpios me))) (trace b1) = toggles (pin_of (step (gpios me))) (trace b) + 1"
    using Cons.prems
    by (simp add: mot_pap_isr_def isr_arrival_def isr_pulse_def Let_def xQueueSendFromISR_def
        toggles_def pin_of_def)
  then obtain me1 b1 q1 where one: "mot_pap_isr c ax me b = Inr (me1, b1)" "mtype me1 = MOT_PAP_TYPE_STOP"
    "started (tmr me1)" "\<not> already_there me1" "gpios me1 = gpios me" "supervisor_queue b1 = Some q1"
    "toggles (pin_of (step (gpios me))) (trace b1) = toggles (pin_of (step (gpios me))) (trace b) + 1"
    by blast
  with Cons.IH [OF one(2-4,6)] show ?case by auto
qed simp

end
