(* ===== verification/MotDemo.thy ===== *)
theory MotDemo imports MotInvariants begin

text \<open>
  One concrete run of the X axis from start-up, event by event: a step run of one step, its
  end, a second command, a stop, and the supervisor message that was still queued. The states
  it passes through are the closed examples of the properties of the motor control system.
\<close>

definition demo_rate :: "clk_mx \<Rightarrow> int" where "demo_rate _ = 204000000"

definition demo_reachable :: "sys \<Rightarrow> bool" where
  "demo_reachable s \<longleftrightarrow> reachable demo_rate (\<lambda>_ _. False) True board_init s"

lemma demo_next: "demo_reachable s \<Longrightarrow> sys_next demo_rate s ev = Some t \<Longrightarrow> demo_reachable t"
  unfolding demo_reachable_def by (blast intro: reachable_step sys_next_sound)

lemma mod_i32: "i32 x mod 4294967296 = x mod 4294967296"
  unfolding i32_def by (simp add: mod_simps)

lemma tick_due: "u32 (i32 (i32 (u32 (x + 1)) - i32 x)) = 1"
proof -
  let ?N = "4294967296 :: int"
  have "u32 (i32 y) = y mod ?N" for y by (simp add: u32_def mod_i32)
  then have "u32 (i32 (i32 (u32 (x + 1)) - i32 x)) = (i32 (u32 (x + 1)) - i32 x) mod ?N" by simp
  also have "\<dots> = (i32 (u32 (x + 1)) mod ?N - i32 x mod ?N) mod ?N" by (simp only: mod_diff_eq)
  also have "\<dots> = ((x + 1) mod ?N - x mod ?N) mod ?N" by (simp add: mod_i32 u32_def)
  also have "\<dots> = ((x + 1) - x) mod ?N" by (simp only: mod_diff_eq)
  finally show ?thesis by simp
qed

abbreviation one_step :: event where
  "one_step \<equiv> Command X_AXIS (Steps MOT_PAP_DIRECTION_CW 1 1 0 10)"

lemma next_steps:
  assumes "sleeping s = None" "mtype (motors s X_AXIS) = MOT_PAP_TYPE_STOP"
  shows "\<exists>t. sys_next rate s one_step = Some t \<and> sleeping t = None \<and>
    supervisor_queue (brd t) = supervisor_queue (brd s) \<and>
    xTickCount (brd t) = xTickCount (brd s) \<and>
    stall_detection t = stall_detection s \<and> enc t = enc s \<and>
    motors t X_AXIS = (motors s X_AXIS)\<lparr>stalled := False, stalled_counter := 0, already_there := False,
      mtype := MOT_PAP_TYPE_STEPS, dir := MOT_PAP_DIRECTION_CW,
      half_steps_curr := 0, half_steps_requested := 2, requested_freq := 5000,
      freq_delta := 500, freq_slope_relation_incr_to_decr := 3, freq_increment := 1500,
      freq_decrement := 500, current_freq := 500, half_steps_to_quarter := 0, half_steps_to_middle := 1,
      max_speed_reached := False, step_time := 0, ticks_last_time := i32 (xTickCount (brd s)),
      tmr := (tmr (motors s X_AXIS))\<lparr>started := True\<rparr>\<rparr>"
  using assms
  by (simp add: mot_pap_reverses_def mot_pap_free_run_speed_ok_def mot_pap_move_steps_def
      mot_pap_move_steps_begin_def mot_pap_change_delay_def mot_pap_clear_flags_def no_cont_def
      mot_pap_move_steps_end_def array_get_def mot_pap_free_run_freqs_def udiv_def c_int
      MOT_PAP_MAX_SPEED_FREE_RUN_def Let_def mot_tmr_restart_Inr MOT_PAP_COMPUMOTOR_MAX_FREQ_def)


text \<open>The timer interrupt of the X axis in the two modes the example needs.\<close>

lemma next_timer_pulse:
  assumes "started (tmr (motors s X_AXIS))" "mtype (motors s X_AXIS) = MOT_PAP_TYPE_STEPS"
    and "half_steps_curr (motors s X_AXIS) < half_steps_requested (motors s X_AXIS)"
    and "half_pulses (motors s X_AXIS) < 600" "0 \<le> half_pulses (motors s X_AXIS)"
    and "half_steps_requested (motors s X_AXIS) = 2" "0 \<le> half_steps_curr (motors s X_AXIS)"
  shows "\<exists>t. sys_next rate s (TimerIRQ X_AXIS True) = Some t \<and> sleeping t = sleeping s \<and>
    supervisor_queue (brd t) = supervisor_queue (brd s) \<and>
    xTickCount (brd t) = xTickCount (brd s) \<and> stall_detection t = stall_detection s \<and>
    motors t X_AXIS = (motors s X_AXIS)\<lparr>posAct := count_a (enc s), last_pos := count_a (enc s),
      already_there := False,
      half_steps_curr := half_steps_curr (motors s X_AXIS) + 1,
      half_pulses := half_pulses (motors s X_AXIS) + 1\<rparr>"
  using assms
  by (simp add: timer_irq_handler_def tmr_match_pending_def mot_pap_isr_def isr_arrival_def
      isr_pulse_def Let_def i32_id MOT_PAP_SUPERVISOR_RATE_def)

lemma next_timer_finish:
  assumes "started (tmr (motors s X_AXIS))" "mtype (motors s X_AXIS) = MOT_PAP_TYPE_STEPS"
    and "half_steps_requested (motors s X_AXIS) \<le> half_steps_curr (motors s X_AXIS)"
    and "supervisor_queue (brd s) = Some []"
  shows "\<exists>t. sys_next rate s (TimerIRQ X_AXIS True) = Some t \<and> sleeping t = sleeping s \<and>
    supervisor_queue (brd t) = Some [X_AXIS] \<and>
    xTickCount (brd t) = xTickCount (brd s) \<and> stall_detection t = stall_detection s \<and>
    mtype (motors t X_AXIS) = MOT_PAP_TYPE_STOP \<and> 
    last_pos (motors t X_AXIS) = posAct (motors t X_AXIS)"
  using assms
  by (simp add: timer_irq_handler_def tmr_match_pending_def mot_pap_isr_def isr_arrival_def
      isr_stop_def mot_tmr_stop_def tmr_stop_def xQueueSendFromISR_def push_bounded_def)

lemma next_halt:
  assumes "sleeping s = None"
  shows "\<exists>t. sys_next rate s (Command X_AXIS Halt) = Some t \<and> sleeping t = None \<and>
    supervisor_queue (brd t) = supervisor_queue (brd s) \<and>
    xTickCount (brd t) = xTickCount (brd s) \<and> stall_detection t = stall_detection s \<and>
    motors t X_AXIS = (motors s X_AXIS)\<lparr>mtype := MOT_PAP_TYPE_STOP,
      tmr := (tmr (motors s X_AXIS))\<lparr>started := False\<rparr>\<rparr>"
  using assms by (simp add: mot_pap_stop_def mot_tmr_stop_def tmr_stop_def)

lemma next_supervise:
  assumes "supervisor_queue (brd s) = Some [X_AXIS]" "stalled_counter (motors s X_AXIS) = 0"
    and "last_pos (motors s X_AXIS) = posAct (motors s X_AXIS)"
    and "\<not> stalled (motors s X_AXIS)" "\<not> already_there (motors s X_AXIS)"
    and "mtype (motors s X_AXIS) = MOT_PAP_TYPE_STOP"
    and "supervisor_due (i32 (xTickCount (brd s))) (motors s X_AXIS)"
    and "current_freq (motors s X_AXIS) = 500" "freq_delta (motors s X_AXIS) = 500"
    and "requested_freq (motors s X_AXIS) = 5000" "\<not> max_speed_reached (motors s X_AXIS)"
  shows "\<exists>t. sys_next rate s (Supervise X_AXIS) = Some t \<and>
    supervisor_queue (brd t) = Some [] \<and>
    mtype (motors t X_AXIS) = MOT_PAP_TYPE_STOP \<and> started (tmr (motors t X_AXIS)) \<and>
    \<not> already_there (motors t X_AXIS)"
proof -
  have due: "supervisor_due (i32 (xTickCount (brd s))) ((motors s X_AXIS)\<lparr>stalled_counter := n\<rparr>)" for n
    using assms(7) by (simp add: supervisor_due_def)
  show ?thesis
    using assms due
    by (cases "stall_detection s")
      (simp_all add: mot_pap_supervisor_body_def supervisor_stall_def c_abs_def Let_def
        MOT_PAP_STALL_THRESHOLD_def MOT_PAP_STALL_MAX_COUNT_def supervisor_ramp_def c_int
        first_half_passed_def supervisor_accelerate_def supervisor_brakes_def
        mot_tmr_restart_Inr MOT_PAP_COMPUMOTOR_MAX_FREQ_def)
qed

section \<open>The states of the run\<close>

lemma demo_boot:
  "\<exists>s. demo_reachable s \<and> sleeping s = None \<and> stall_detection s \<and> supervisor_queue (brd s) = Some [] \<and>
    motors s = (\<lambda>a. axis_struct a mot_pap_zero)"
proof -
  obtain s where "main_start (\<lambda>_ _. False) True board_init = Some s"
    using prvSetupHardware_returns_iff unfolding main_start_def by blast
  with main_start_shape [OF this] run_nil show ?thesis
    unfolding demo_reachable_def reachable_def by fastforce
qed

lemma axis_struct_X: "mtype (axis_struct X_AXIS me) = MOT_PAP_TYPE_STOP"
    "half_pulses (axis_struct X_AXIS me) = 0"
  by (simp_all add: axis_struct_def x_axis_struct_def)

lemma demo_pulsing:
  "\<exists>s. demo_reachable s \<and> sleeping s = None \<and> stall_detection s \<and> supervisor_queue (brd s) = Some [] \<and>
    mtype (motors s X_AXIS) = MOT_PAP_TYPE_STEPS \<and> started (tmr (motors s X_AXIS)) \<and>
    half_steps_curr (motors s X_AXIS) = 0 \<and> half_steps_requested (motors s X_AXIS) = 2 \<and>
    half_pulses (motors s X_AXIS) = 0"
proof -
  obtain s where s: "demo_reachable s" "sleeping s = None" "stall_detection s" "supervisor_queue (brd s) = Some []"
    "motors s = (\<lambda>a. axis_struct a mot_pap_zero)" using demo_boot by blast
  have "mtype (motors s X_AXIS) = MOT_PAP_TYPE_STOP" using s(5) axis_struct_X by simp
  from next_steps [OF s(2) this, of demo_rate] obtain t where
    "sys_next demo_rate s one_step = Some t" and t: "sleeping t = None" "stall_detection t"
    "supervisor_queue (brd t) = Some []" "mtype (motors t X_AXIS) = MOT_PAP_TYPE_STEPS"
    "started (tmr (motors t X_AXIS))" "half_steps_curr (motors t X_AXIS) = 0"
    "half_steps_requested (motors t X_AXIS) = 2" "half_pulses (motors t X_AXIS) = 0"
    using s(3-5) axis_struct_X by auto
  with demo_next [OF s(1)] show ?thesis by blast
qed

lemma demo_finished:
  "\<exists>s. demo_reachable s \<and> sleeping s = None \<and> stall_detection s \<and> supervisor_queue (brd s) = Some [X_AXIS] \<and>
    mtype (motors s X_AXIS) = MOT_PAP_TYPE_STOP \<and>
    last_pos (motors s X_AXIS) = posAct (motors s X_AXIS)"
proof -
  obtain s0 where s0: "demo_reachable s0" "sleeping s0 = None" "stall_detection s0" "supervisor_queue (brd s0) = Some []"
    "mtype (motors s0 X_AXIS) = MOT_PAP_TYPE_STEPS" "started (tmr (motors s0 X_AXIS))"
    "half_steps_curr (motors s0 X_AXIS) = 0" "half_steps_requested (motors s0 X_AXIS) = 2"
    "half_pulses (motors s0 X_AXIS) = 0" using demo_pulsing by blast
  then obtain s1 where "sys_next demo_rate s0 (TimerIRQ X_AXIS True) = Some s1" and
    s1: "sleeping s1 = None" "stall_detection s1" "supervisor_queue (brd s1) = Some []"
    "mtype (motors s1 X_AXIS) = MOT_PAP_TYPE_STEPS" "started (tmr (motors s1 X_AXIS))"
    "half_steps_curr (motors s1 X_AXIS) = 1" "half_steps_requested (motors s1 X_AXIS) = 2"
    "half_pulses (motors s1 X_AXIS) = 1" using next_timer_pulse [of s0 demo_rate] by auto
  then have r1: "demo_reachable s1" using demo_next s0(1) by blast
  from s1 obtain s2 where "sys_next demo_rate s1 (TimerIRQ X_AXIS True) = Some s2" and
    s2: "sleeping s2 = None" "stall_detection s2" "supervisor_queue (brd s2) = Some []"
    "mtype (motors s2 X_AXIS) = MOT_PAP_TYPE_STEPS" "started (tmr (motors s2 X_AXIS))"
    "half_steps_curr (motors s2 X_AXIS) = 2" "half_steps_requested (motors s2 X_AXIS) = 2"
    using next_timer_pulse [of s1 demo_rate] by auto
  then have r2: "demo_reachable s2" using demo_next r1 by blast
  from s2 obtain s3 where "sys_next demo_rate s2 (TimerIRQ X_AXIS True) = Some s3" and
    "sleeping s3 = None \<and> stall_detection s3 \<and> supervisor_queue (brd s3) = Some [X_AXIS] \<and>
     mtype (motors s3 X_AXIS) = MOT_PAP_TYPE_STOP \<and>
     last_pos (motors s3 X_AXIS) = posAct (motors s3 X_AXIS)"
    using next_timer_finish [of s2 demo_rate] by auto
  with demo_next [OF r2] show ?thesis by blast
qed

lemma demo_queued:
  "\<exists>s. demo_reachable s \<and> sleeping s = None \<and> stall_detection s \<and> supervisor_queue (brd s) = Some [X_AXIS] \<and>
    mtype (motors s X_AXIS) = MOT_PAP_TYPE_STEPS \<and> started (tmr (motors s X_AXIS)) \<and>
    last_pos (motors s X_AXIS) = posAct (motors s X_AXIS) \<and>
    stalled_counter (motors s X_AXIS) = 0 \<and> \<not> stalled (motors s X_AXIS) \<and>
    \<not> already_there (motors s X_AXIS) \<and> ticks_last_time (motors s X_AXIS) = i32 (xTickCount (brd s)) \<and>
    step_time (motors s X_AXIS) = 0 \<and> current_freq (motors s X_AXIS) = 500 \<and>
    freq_delta (motors s X_AXIS) = 500 \<and> requested_freq (motors s X_AXIS) = 5000 \<and>
    \<not> max_speed_reached (motors s X_AXIS)"
proof -
  obtain s where s: "demo_reachable s" "sleeping s = None" "stall_detection s" "supervisor_queue (brd s) = Some [X_AXIS]"
    "mtype (motors s X_AXIS) = MOT_PAP_TYPE_STOP"
    "last_pos (motors s X_AXIS) = posAct (motors s X_AXIS)" using demo_finished by blast
  from next_steps [OF s(2) s(5), of demo_rate] obtain t where
    "sys_next demo_rate s one_step = Some t" "sleeping t = None" "stall_detection t"
    "supervisor_queue (brd t) = Some [X_AXIS]" "mtype (motors t X_AXIS) = MOT_PAP_TYPE_STEPS"
    "started (tmr (motors t X_AXIS))"
    "last_pos (motors t X_AXIS) = posAct (motors t X_AXIS)"
    "stalled_counter (motors t X_AXIS) = 0" "\<not> stalled (motors t X_AXIS)"
    "\<not> already_there (motors t X_AXIS)" "ticks_last_time (motors t X_AXIS) = i32 (xTickCount (brd t))"
    "step_time (motors t X_AXIS) = 0" "current_freq (motors t X_AXIS) = 500"
    "freq_delta (motors t X_AXIS) = 500" "requested_freq (motors t X_AXIS) = 5000"
    "\<not> max_speed_reached (motors t X_AXIS)"
    using s(3,4,6) by auto
  with demo_next [OF s(1)] show ?thesis by blast
qed

lemma demo_runaway:
  "\<exists>s. demo_reachable s \<and> mtype (motors s X_AXIS) = MOT_PAP_TYPE_STOP \<and>
    started (tmr (motors s X_AXIS)) \<and> \<not> already_there (motors s X_AXIS)"
proof -
  obtain s where s: "demo_reachable s" "sleeping s = None" "stall_detection s" "supervisor_queue (brd s) = Some [X_AXIS]"
    "last_pos (motors s X_AXIS) = posAct (motors s X_AXIS)"
    "stalled_counter (motors s X_AXIS) = 0" "\<not> stalled (motors s X_AXIS)"
    "\<not> already_there (motors s X_AXIS)" "ticks_last_time (motors s X_AXIS) = i32 (xTickCount (brd s))"
    "step_time (motors s X_AXIS) = 0" "current_freq (motors s X_AXIS) = 500"
    "freq_delta (motors s X_AXIS) = 500" "requested_freq (motors s X_AXIS) = 5000"
    "\<not> max_speed_reached (motors s X_AXIS)" using demo_queued by blast
  define u where "u = s\<lparr>brd := (brd s)\<lparr>xTickCount := u32 (xTickCount (brd s) + 1)\<rparr>\<rparr>"
  have u: "demo_reachable u" using demo_next [OF s(1), of Tick u] by (simp add: u_def)
  have "sleeping u = None" using s(2) by (simp add: u_def)
  from next_halt [OF this, of demo_rate] obtain v where
    "sys_next demo_rate u (Command X_AXIS Halt) = Some v"
    and v: "supervisor_queue (brd v) = supervisor_queue (brd u)" "xTickCount (brd v) = xTickCount (brd u)"
    "motors v X_AXIS = (motors u X_AXIS)\<lparr>mtype := MOT_PAP_TYPE_STOP,
      tmr := (tmr (motors u X_AXIS))\<lparr>started := False\<rparr>\<rparr>" by blast
  then have r: "demo_reachable v" using demo_next u by blast
  have "supervisor_due (i32 (xTickCount (brd v))) (motors v X_AXIS)"
    using s(9,10) tick_due [of "xTickCount (brd s)"]
    by (simp add: supervisor_due_def v u_def pdMS_TO_TICKS_def)
  then obtain w where "sys_next demo_rate v (Supervise X_AXIS) = Some w"
    "mtype (motors w X_AXIS) = MOT_PAP_TYPE_STOP" "started (tmr (motors w X_AXIS))"
    "\<not> already_there (motors w X_AXIS)"
    using next_supervise [of v demo_rate] v s by (auto simp: u_def)
  with demo_next [OF r] show ?thesis by blast
qed

end
