(* ===== verification/MotProperties.thy ===== *)
theory MotProperties imports MotDemo begin

text \<open>
  The properties of the motor control system: the invariant of a run, the outcome of every
  movement command, the supervisor's behaviour in each mode, the lines each event drives, and
  the states of the system that go wrong.
\<close>

section \<open>Step runs\<close>

text \<open>C2. In every reachable state an axis that makes a step run has a sound speed ramp: the
  increment is positive, the current frequency lies between the increment and the requested
  frequency, which is at most 125 kHz, and the half steps made are at most those requested.\<close>

theorem reachable_step_run_in_bounds:
  assumes "reachable rate in_reset True b s" "mtype (motors s a) = MOT_PAP_TYPE_STEPS"
  shows "0 < freq_delta (motors s a) \<and> freq_delta (motors s a) \<le> current_freq (motors s a) \<and>
    current_freq (motors s a) \<le> requested_freq (motors s a) \<and>
    requested_freq (motors s a) \<le> 125000 \<and> 0 \<le> half_steps_curr (motors s a) \<and>
    half_steps_curr (motors s a) \<le> max 0 (half_steps_requested (motors s a))"
  using sys_ok_motor [OF reachable_ok [OF assms(1)], of a] assms(2)
  by (simp add: motor_ok_def steps_ok_def ramp_ok_def MOT_PAP_MAX_FREQ_def)

theorem reachable_step_run_in_bounds_witness:
  "\<exists>s::sys. mtype (motors s X_AXIS) = MOT_PAP_TYPE_STEPS \<and>
     half_steps_curr (motors s X_AXIS) \<le> max 0 (half_steps_requested (motors s X_AXIS))"
proof -
  obtain s where "demo_reachable s" "mtype (motors s X_AXIS) = MOT_PAP_TYPE_STEPS"
    using demo_pulsing by blast
  with reachable_step_run_in_bounds [of demo_rate "\<lambda>_ _. False" board_init s X_AXIS]
  show ?thesis unfolding demo_reachable_def by blast
qed








section \<open>Outcomes of the commands\<close>

text \<open>C5. A step command fails exactly for speed 8, which the bound check admits although the
  table of frequencies has eight entries, for the divider zero, and for a divider greater than
  the frequency of the speed. Every other command returns.\<close>

theorem step_command_fails_iff:
  "(\<exists>f. mot_pap_move_steps rate me d (u32 speed) (u32 steps) (u32 st) (u32 dv) b = Inl f) \<longleftrightarrow>
   u32 speed = 8 \<or>
   (1 \<le> u32 speed \<and> u32 speed \<le> 7 \<and> (u32 dv = 0 \<or> speed_freq (u32 speed) < u32 dv))"
proof (cases "mot_pap_free_run_speed_ok (u32 speed)")
  case True
  obtain me0 b0 where beg: "mot_pap_move_steps_begin d me b = (me0, b0)" by fastforce
  have "0 \<le> u32 dv" by (simp add: u32_def)
  with True beg speed_ok_bounds [OF True] show ?thesis
    by (auto simp: mot_pap_move_steps_def steps_end_fault_iff)
next
  case False
  then show ?thesis
    by (auto simp: mot_pap_move_steps_def mot_pap_free_run_speed_ok_def MOT_PAP_MAX_SPEED_FREE_RUN_def)
qed



text \<open>A closed loop command never fails. Within six counts of the set point it stops the
  timer and touches no line; otherwise the axis turns at 125 kHz, counter-clockwise when the
  set point lies above the position and clockwise when it lies below.\<close>

theorem closed_loop_command_outcome:
  "\<exists>me' b'. mot_pap_move_closed_loop rate me (u16 setpoint) b = Inr (me', b') \<and>
     posCmd me' = u16 setpoint \<and> \<not> stalled me' \<and> stalled_counter me' = 0 \<and>
     (if c_abs (i32 (u16 setpoint - posAct me)) < MOT_PAP_POS_THRESHOLD
      then already_there me' \<and> \<not> started (tmr me') \<and> touches {} b b'
      else mtype me' = MOT_PAP_TYPE_CLOSED_LOOP \<and> started (tmr me') \<and>
           requested_freq me' = 125000 \<and>
           dir me' = (if i32 (u16 setpoint - posAct me) < 0 then MOT_PAP_DIRECTION_CW
                      else MOT_PAP_DIRECTION_CCW) \<and>
           (\<forall>v. pin_level (pin_of (direction (gpios me))) v (trace b') = dir_bit (dir me')))"
proof -
  obtain me0 b0 where beg: "mot_pap_move_closed_loop_begin (u16 setpoint) me b = (me0, b0)"
    by fastforce
  define d where "d = mot_pap_direction_calculate (i32 (u16 setpoint - posAct me))"
  have me0: "already_there me0 = (c_abs (i32 (u16 setpoint - posAct me)) < MOT_PAP_POS_THRESHOLD)"
    "posCmd me0 = u16 setpoint" "\<not> stalled me0" "stalled_counter me0 = 0" "gpios me0 = gpios me"
    "already_there me0 \<longrightarrow> \<not> started (tmr me0)"
    using beg by (auto simp: mot_pap_move_closed_loop_begin_def mot_pap_change_delay_def
        mot_tmr_stop_def tmr_stop_def Let_def split_beta split: if_splits)
  have "touches {} b b0" using closed_loop_begin_quiet [OF beg] by (simp add: quiet_def)
  with me0 beg mot_pap_move_closed_loop_end_ok [of rate d me0 b0] show ?thesis
    by (auto simp: mot_pap_move_closed_loop_def d_def [symmetric] sets_direction_def
        MOT_PAP_MAX_FREQ_def) (auto simp: d_def mot_pap_direction_calculate_def)
qed

text \<open>A command that sleeps before a reversal does in two parts exactly what the function of
  the source does in one.\<close>

theorem command_in_two_parts:
  "cmd_whole rate c me b =
     res_bind (cmd_start rate c me b) (\<lambda>(k, me', b').
       case k of None \<Rightarrow> Inr (me', b') | Some k \<Rightarrow> cmd_resume rate k me' b')"
proof -
  have no_cont: "res_bind (no_cont r) (\<lambda>(k, me', b'). case k of None \<Rightarrow> Inr (me', b')
      | Some k \<Rightarrow> cmd_resume rate k me' b') = r" for r
    by (cases r) (auto simp: no_cont_def split_beta)
  show ?thesis
    by (cases c)
      (auto simp: no_cont mot_pap_move_free_run_def mot_pap_move_steps_def
        mot_pap_move_closed_loop_def Let_def split: prod.splits)
qed




section \<open>The supervisor outside step runs\<close>



text \<open>C6. In every reachable state the stall detection counts every supervisor message as a
  message without movement, whatever the encoder did: the interrupt routine overwrites the
  position that the supervisor compares with.\<close>

theorem stall_counter_counts_every_message:
  assumes "reachable rate in_reset True b s" "sys_step rate s (Supervise a) t" "stall_detection s"
  shows "stalled_counter (motors t a) = u32 (stalled_counter (motors s a) + 1)"
proof -
  obtain q me b' where body: "mot_pap_supervisor_body rate True (motors s a)
      ((brd s)\<lparr>supervisor_queue := Some q\<rparr>) = Inr (me, b')" and t: "t = set_motor a me b' s"
    using assms(2,3) by (elim sys_step_SuperviseE) auto
  have "last_pos (motors s a) = posAct (motors s a)"
    using sys_ok_motor [OF reachable_ok [OF assms(1)], of a] by (simp add: motor_ok_def)
  with supervisor_body_frame [OF body] supervisor_stall_counter show ?thesis
    by (metis t set_motor_simps(1) fun_upd_same prod.collapse)
qed

theorem stall_counter_counts_every_message_witness:
  "\<exists>s t. sys_step demo_rate s (Supervise X_AXIS) t \<and> stall_detection s \<and>
     stalled_counter (motors s X_AXIS) = 0 \<and> stalled_counter (motors t X_AXIS) = 1"
proof -
  obtain s where s: "demo_reachable s" "stall_detection s" "supervisor_queue (brd s) = Some [X_AXIS]"
    "mtype (motors s X_AXIS) = MOT_PAP_TYPE_STEPS" "stalled_counter (motors s X_AXIS) = 0"
    using demo_queued by blast
  have "ramp_ok (motors s X_AXIS)"
    using sys_ok_motor [OF reachable_ok] s(1,4) unfolding demo_reachable_def motor_ok_def steps_ok_def by blast
  from supervisor_body_steps_safe [OF this s(4), of demo_rate "stall_detection s"
      "(brd s)\<lparr>supervisor_queue := Some []\<rparr>"] s(3)
  obtain t where "sys_step demo_rate s (Supervise X_AXIS) t" by (fastforce simp: sys_next_iff)
  with stall_counter_counts_every_message [OF s(1) [unfolded demo_reachable_def] this s(2)] s
  show ?thesis by (auto simp: u32_def)
qed


text \<open>C7. The supervisor message on which the stall counter reaches its limit stops the timer,
  marks the axis as stalled and switches the main power off.\<close>

theorem stall_limit_cuts_the_power:
  assumes "c_abs (i32 (posAct me - last_pos me)) < MOT_PAP_STALL_THRESHOLD"
    and "MOT_PAP_STALL_MAX_COUNT \<le> u32 (stalled_counter me + 1)"
  shows "\<exists>me' b'. mot_pap_supervisor_body rate True me b = Inr (me', b') \<and> stalled me' \<and>
    \<not> started (tmr me') \<and> \<not> pin_level main_pwr_pin v (trace b')"
  using supervisor_stall_trips [OF assms] .

theorem stall_limit_cuts_the_power_witness:
  "\<exists>me' b'. mot_pap_supervisor_body demo_rate True
      ((axis_struct X_AXIS mot_pap_zero)\<lparr>stalled_counter := 39\<rparr>) board_init = Inr (me', b') \<and>
     stalled me' \<and> \<not> pin_level main_pwr_pin True (trace b')"
proof -
  let ?me = "(axis_struct X_AXIS mot_pap_zero)\<lparr>stalled_counter := 39\<rparr>"
  have "c_abs (i32 (posAct ?me - last_pos ?me)) < MOT_PAP_STALL_THRESHOLD"
    "MOT_PAP_STALL_MAX_COUNT \<le> u32 (stalled_counter ?me + 1)"
    by (simp_all add: axis_struct_def x_axis_struct_def mot_pap_zero_def c_abs_def
        MOT_PAP_STALL_THRESHOLD_def MOT_PAP_STALL_MAX_COUNT_def u32_def)
  from stall_limit_cuts_the_power [OF this, of demo_rate board_init True] show ?thesis by blast
qed

section \<open>Lines\<close>

text \<open>In every reachable state the direction lines of the Y and Z axes carry the direction of
  the axis.\<close>

theorem direction_lines_of_y_and_z:
  assumes "reachable rate in_reset True b s" "a = Y_AXIS \<or> a = Z_AXIS"
  shows "pin_level (pin_of (direction (gpios (motors s a)))) v (trace (brd s)) =
    dir_bit (dir (motors s a))"
proof -
  have ok: "sys_ok s" by (rule reachable_ok [OF assms(1)])
  then have "dir_line s a" using assms(2) by (auto simp: sys_ok_def)
  with motor_ok_pins [OF sys_ok_motor [OF ok, of a]] show ?thesis by (simp add: dir_line_def)
qed

theorem direction_lines_of_y_and_z_witness:
  "\<exists>s::sys. mtype (motors s X_AXIS) = MOT_PAP_TYPE_STEPS \<and>
     pin_level (pin_of (direction (gpios (motors s Y_AXIS)))) False (trace (brd s)) =
     dir_bit (dir (motors s Y_AXIS))"
proof -
  obtain s :: sys where "demo_reachable s" "mtype (motors s X_AXIS) = MOT_PAP_TYPE_STEPS"
    using demo_pulsing by blast
  with direction_lines_of_y_and_z [of demo_rate "\<lambda>_ _. False" board_init s Y_AXIS False]
  show ?thesis unfolding demo_reachable_def by blast
qed

text \<open>C11. The direction line of the X axis is also the line of the fourth relay: the event that
  reports the network link sets it to the state of the link, whatever the direction of the
  axis, and leaves the direction field alone.\<close>

theorem link_event_overwrites_x_direction:
  assumes "reachable rate in_reset True b s" "sys_step rate s (Link v) t"
  shows "pin_level (pin_of (direction (gpios (motors t X_AXIS)))) w (trace (brd t)) = v \<and>
    dir (motors t X_AXIS) = dir (motors s X_AXIS)"
proof -
  have t: "t = s\<lparr>brd := relay_spare_led v (brd s)\<rparr>" using assms(2) by (simp add: sys_step_simps)
  have "pin_of (direction (gpios (motors t X_AXIS))) = (2, 4)"
    using motor_ok_pins [OF sys_ok_motor [OF reachable_ok [OF assms(1)], of X_AXIS]]
    by (simp add: t dir_pin_def)
  then show ?thesis by (simp add: t)
qed

theorem link_event_overwrites_x_direction_witness:
  "\<exists>s t. sys_step demo_rate s (Link True) t \<and>
     pin_level (pin_of (direction (gpios (motors t X_AXIS)))) False (trace (brd t)) \<and>
     dir (motors t X_AXIS) = dir (motors s X_AXIS)"
proof -
  obtain s :: sys where s: "demo_reachable s" using demo_boot by blast
  obtain t where t: "sys_step demo_rate s (Link True) t" using sys_step.link by blast
  from link_event_overwrites_x_direction [OF s [unfolded demo_reachable_def] t, of False] t
  show ?thesis by blast
qed




section \<open>Stopping\<close>


section \<open>Start-up\<close>

text \<open>Start-up returns exactly when the hardware releases every timer from reset.\<close>

theorem start_up_returns_iff:
  "(\<exists>s. main_start in_reset created b = Some s) \<longleftrightarrow> (\<forall>a. \<exists>k. \<not> in_reset a k)"
  unfolding main_start_def by (rule prvSetupHardware_returns_iff)

text \<open>After start-up every axis is in the state STOP with its timer stopped, the main power
  is off, and the three direction lines carry the clockwise level of their axes.\<close>

theorem state_after_start_up:
  assumes "main_start in_reset created b = Some s"
  shows "mtype (motors s a) = MOT_PAP_TYPE_STOP \<and> \<not> started (tmr (motors s a)) \<and>
    \<not> pin_level main_pwr_pin v (trace (brd s)) \<and>
    dir (motors s a) = MOT_PAP_DIRECTION_CW \<and>
    \<not> pin_level (pin_of (direction (gpios (motors s a)))) v (trace (brd s))"
proof -
  note shape = main_start_shape [OF assms]
  have "\<not> pin_level (dir_pin a) v (trace (brd s))"
    using shape by (simp add: dir_line_def axis_struct_dir dir_bit_def)
  with shape motor_ok_pins [OF axis_struct_ok, of a] axis_struct_dir show ?thesis
    by (cases a) (simp_all add: axis_struct_def x_axis_struct_def y_axis_struct_def
        z_axis_struct_def mot_pap_zero_def)
qed

theorem state_after_start_up_witness:
  "\<exists>s. main_start (\<lambda>_ k. k < 3) False board_init = Some s \<and> mtype (motors s Z_AXIS) = MOT_PAP_TYPE_STOP"
proof -
  have "\<forall>a::axis. \<exists>k. \<not> k < (3::nat)" by (auto intro: exI [of _ 3])
  then obtain s where s: "main_start (\<lambda>_ k. k < 3) False board_init = Some s"
    using prvSetupHardware_returns_iff [of "\<lambda>_ k. k < 3"] unfolding main_start_def by blast
  from state_after_start_up [OF s, of Z_AXIS] s show ?thesis by blast
qed

end
