(* ===== verification/BoardProperties.thy ===== *)
theory BoardProperties imports Settings begin

text \<open>The properties of the services under the motors: the log, the settings in the EEPROM.\<close>

text \<open>C13. A line of the log neither leaks nor frees a block that is not its own, whatever the
  allocator refuses: the blocks allocated beyond those the message queue owns are the same
  before and after, the queue never exceeds ten messages, and the motors are not touched.\<close>

theorem log_owns_one_block_per_message:
  "live (heap (lDebug level func line b)) - queued_blocks (lDebug level func line b) =
     live (heap b) - queued_blocks b \<and>
   length (debug_queue (lDebug level func line b)) \<le> max 10 (length (debug_queue b)) \<and>
   trace (lDebug level func line b) = trace b \<and>
   supervisor_queue (lDebug level func line b) = supervisor_queue b"
  using lDebug_blocks lDebug_queue_length by simp

text \<open>C14. On an EEPROM whose pages hold the settings, settings that are saved are read back when
  none of the four fields is zero, and read as the defaults otherwise; what was saved before
  does not matter.\<close>

theorem saved_settings_are_read_back:
  assumes "16 \<le> pgsz" "pgsz < 4294967296"
  shows "fst (settings_read addr (settings_save addr pgsz pad s (settings_save addr pgsz pad t mb))) =
     (if settings_valid s then s else settings_defaults)"
  using eeprom_pages.saved_twice [OF eeprom_pages.intro [OF assms]] .

theorem saved_settings_are_read_back_witness:
  "fst (settings_read (\<lambda>p off. 128 * p + off)
     (settings_save (\<lambda>p off. 128 * p + off) 128 0
       \<lparr>gw = 5, ipaddr = 6, netmask = 7, port = 8\<rparr>
       (settings_save (\<lambda>p off. 128 * p + off) 128 0 settings_defaults (\<lambda>_. 0, board_init)))) =
   \<lparr>gw = 5, ipaddr = 6, netmask = 7, port = 8\<rparr>"
  using saved_settings_are_read_back [of 128] by (simp add: settings_valid_def)

text \<open>Whatever the EEPROM holds, the settings the firmware starts with have an address, a
  mask, a gateway and a port that are not zero; after an erase of an EEPROM whose pages hold
  the settings they are the defaults.\<close>

theorem settings_read_are_usable:
  assumes "16 \<le> pgsz" "pgsz < 4294967296"
  shows "settings_valid (fst (settings_read addr mb)) \<and>
    fst (settings_read addr (settings_erase addr pgsz mb)) = settings_defaults"
  using eeprom_pages.read_after_erase [OF eeprom_pages.intro [OF assms]] settings_defaults_valid
  by (simp add: settings_read_def Let_def)

theorem settings_read_are_usable_witness:
  "settings_valid (fst (settings_read (\<lambda>p off. 128 * p + off) (\<lambda>_. 0, board_init)))"
  using settings_read_are_usable [of 128] by simp

text \<open>The bound check of the EEPROM write compares a number of words with a number of bytes:
  a write whose words fit the page only when counted as bytes overwrites the cell after the
  page.\<close>

theorem eeprom_write_can_leave_the_page:
  assumes "off \<le> pgsz" "pgsz < 4294967296" "4 dvd pgsz - off" "length ws = words_of_size sz"
    and "words_of_size sz \<le> pgsz - off" "pgsz - off < 4 * words_of_size sz"
  shows "fst (EEPROM_Write addr pgsz off p ws sz mb) (addr p off + (pgsz - off)) =
    ws ! ((pgsz - off) div 4)"
proof -
  from assms(3) obtain k where k: "pgsz - off = 4 * k" by (elim dvdE)
  with assms(4,6) have "k < length ws" by simp
  with assms k show ?thesis
    by (simp add: EEPROM_Write_def Let_def page_room_id store_words_at)
qed

theorem eeprom_write_can_leave_the_page_witness:
  "fst (EEPROM_Write (\<lambda>p off. 128 * p + off) 16 0 1 [1, 2, 3, 4, 5] 20 (\<lambda>_. 0, board_init)) 144 = 5"
  using eeprom_write_can_leave_the_page
    [of 0 16 "[1, 2, 3, 4, 5]" 20 "\<lambda>p off. 128 * p + off" 1 "(\<lambda>_. 0, board_init)"]
  by (simp add: words_of_size_eq)

end
