(* ===== verification/CDouble.thy ===== *)
theory CDouble imports Prelude begin

text \<open>
  The part of the C language and library that the JSON code (nfc/src/parson.c) uses for
  strings and numbers: C strings as lists of characters without the final zero, the type
  \<open>double\<close> as binary64 numbers, \<open>strtod\<close> with the errors it reports, and the conversion
  \<open>%1.17g\<close> of \<open>sprintf\<close>.
\<close>

section \<open>C strings\<close>

abbreviation NUL :: char where "NUL \<equiv> CHR 0x00"

definition cur :: "string \<Rightarrow> char" where
  "cur s = (case s of [] \<Rightarrow> NUL | c # _ \<Rightarrow> c)"

definition char_at :: "string \<Rightarrow> nat \<Rightarrow> char" where
  "char_at s i = (if i < length s then s ! i else NUL)"

definition isspace :: "char \<Rightarrow> bool" where
  "isspace c \<longleftrightarrow> c \<in> {CHR 0x20, CHR 0x09, CHR 0x0A, CHR 0x0B, CHR 0x0C, CHR 0x0D}"

definition isdigit :: "char \<Rightarrow> bool" where
  "isdigit c \<longleftrightarrow> (48::int) \<le> of_char c \<and> of_char c \<le> (57::int)"

definition digit_val :: "char \<Rightarrow> int" where
  "digit_val c = of_char c - 48"

definition SKIP_WHITESPACES :: "string \<Rightarrow> string" where
  "SKIP_WHITESPACES s = dropWhile isspace s"

text \<open>\<open>strncmp(p, s, strlen(p)) == 0\<close> for a pattern without a zero.\<close>

fun prefixed :: "string \<Rightarrow> string \<Rightarrow> bool" where
  "prefixed [] s = True"
| "prefixed (p # ps) [] = False"
| "prefixed (p # ps) (c # s) = (p = c \<and> prefixed ps s)"

definition tolower :: "char \<Rightarrow> char" where
  "tolower c = (if (65::int) \<le> of_char c \<and> of_char c \<le> (90::int) then char_of (of_char c + 32 :: int) else c)"

section \<open>Binary64\<close>

text \<open>
  \<open>Fin s m e\<close> is the number \<open>(-1)^s * m * 2^e\<close>. A number is kept in the form the rounding
  yields: \<open>m\<close> has 53 bits unless the number is subnormal, zero has \<open>m = 0\<close> and \<open>e = 0\<close>.
\<close>

datatype dbl = Fin bool int int | Inf bool | NaN

function ilog :: "int \<Rightarrow> int \<Rightarrow> int" where
  "ilog b x = (if x < b \<or> b \<le> 1 then 0 else 1 + ilog b (x div b))"
  by pat_completeness auto

termination ilog
proof (relation "measure (\<lambda>(b, x). nat x)")
  fix b x :: int
  assume "\<not> (x < b \<or> b \<le> 1)"
  then have "x div b < x" by (simp add: int_div_less_self)
  with \<open>\<not> (x < b \<or> b \<le> 1)\<close> show "((b, x div b), b, x) \<in> measure (\<lambda>(b, x). nat x)" by simp
qed simp

declare ilog.simps [simp del]

text \<open>The floor of the logarithm of the positive fraction \<open>n / d\<close>.\<close>

definition log_frac :: "int \<Rightarrow> int \<Rightarrow> int \<Rightarrow> int" where
  "log_frac b n d = (if d \<le> n then ilog b (n div d) else - (ilog b ((d - 1) div n) + 1))"

text \<open>Rounding a positive fraction to the nearest integer, ties to even.\<close>

definition rne :: "int \<Rightarrow> int \<Rightarrow> int" where
  "rne a b =
     (let q = a div b; r = a mod b
      in if 2 * r < b \<or> (2 * r = b \<and> even q) then q else q + 1)"

definition scale :: "int \<Rightarrow> int \<Rightarrow> int \<Rightarrow> int \<Rightarrow> int" where
  "scale b n d k = (if 0 \<le> k then rne (n * b ^ nat k) d else rne n (d * b ^ nat (- k)))"

definition dbl_round :: "bool \<Rightarrow> int \<Rightarrow> int \<Rightarrow> dbl" where
  "dbl_round s n d =
     (if n = 0 then Fin s 0 0
      else
        (let e = max (log_frac 2 n d - 52) (- 1074);
             q = scale 2 n d (- e)
         in if q = 0 then Fin s 0 0
            else (case (if q = 9007199254740992 then (4503599627370496, e + 1) else (q, e)) of
                    (m, e) \<Rightarrow> if e > 971 then Inf s else Fin s m e)))"

definition dbl_of_int :: "int \<Rightarrow> dbl" where
  "dbl_of_int x = dbl_round (x < 0) (abs x) 1"

definition dbl_frac :: "int \<Rightarrow> int \<Rightarrow> int \<times> int" where
  "dbl_frac m e = (if 0 \<le> e then (m * 2 ^ nat e, 1) else (m, 2 ^ nat (- e)))"

definition signed :: "bool \<Rightarrow> int \<Rightarrow> int" where
  "signed s x = (if s then - x else x)"

text \<open>\<open>(((x) * 0.0) != 0.0)\<close>: true of the infinities and of NaN.\<close>

definition IS_NUMBER_INVALID :: "dbl \<Rightarrow> bool" where
  "IS_NUMBER_INVALID x = (case x of Fin s m e \<Rightarrow> False | _ \<Rightarrow> True)"

definition dbl_sub :: "dbl \<Rightarrow> dbl \<Rightarrow> dbl" where
  "dbl_sub x y =
     (case (x, y) of
        (Fin s m e, Fin s' m' e') \<Rightarrow>
          (case (dbl_frac m e, dbl_frac m' e') of
             ((n, d), (n', d')) \<Rightarrow>
               (let num = signed s n * d' - signed s' n' * d
                in dbl_round (num < 0) (abs num) (d * d')))
      | (Inf s, Inf s') \<Rightarrow> (if s = s' then NaN else Inf s)
      | (Inf s, Fin _ _ _) \<Rightarrow> Inf s
      | (Fin _ _ _, Inf s') \<Rightarrow> Inf (\<not> s')
      | _ \<Rightarrow> NaN)"

definition dbl_abs :: "dbl \<Rightarrow> dbl" where
  "dbl_abs x = (case x of Fin s m e \<Rightarrow> Fin False m e | Inf s \<Rightarrow> Inf False | NaN \<Rightarrow> NaN)"

definition dbl_less :: "dbl \<Rightarrow> dbl \<Rightarrow> bool" where
  "dbl_less x y =
     (case (x, y) of
        (Fin s m e, Fin s' m' e') \<Rightarrow>
          (case (dbl_frac m e, dbl_frac m' e') of
             ((n, d), (n', d')) \<Rightarrow> signed s n * d' < signed s' n' * d)
      | (Inf s, Inf s') \<Rightarrow> s \<and> \<not> s'
      | (Inf s, Fin _ _ _) \<Rightarrow> s
      | (Fin _ _ _, Inf s') \<Rightarrow> \<not> s'
      | _ \<Rightarrow> False)"

text \<open>
  The conversion to an integer type whose range is \<open>[lo, hi]\<close> drops the fraction; a value out
  of range has no meaning in C.
\<close>

definition dbl_to_int :: "int \<Rightarrow> int \<Rightarrow> dbl \<Rightarrow> int res" where
  "dbl_to_int lo hi x =
     (case x of
        Fin s m e \<Rightarrow>
          (case dbl_frac m e of (n, d) \<Rightarrow>
             (let i = signed s (n div d)
              in if lo \<le> i \<and> i \<le> hi then Inr i else Inl FloatRange))
      | _ \<Rightarrow> Inl FloatRange)"

section \<open>\<open>strtod\<close>\<close>

fun digits_val :: "int \<Rightarrow> int \<Rightarrow> int list \<Rightarrow> int" where
  "digits_val b acc [] = acc"
| "digits_val b acc (d # ds) = digits_val b (acc * b + d) ds"

definition hex_val :: "char \<Rightarrow> int option" where
  "hex_val c =
     (let x = of_char c :: int
      in if 48 \<le> x \<and> x \<le> 57 then Some (x - 48)
         else if 97 \<le> x \<and> x \<le> 102 then Some (x - 87)
         else if 65 \<le> x \<and> x \<le> 70 then Some (x - 55)
         else None)"

definition is_hex :: "char \<Rightarrow> bool" where "is_hex c \<longleftrightarrow> hex_val c \<noteq> None"

text \<open>An optional sign.\<close>

definition take_sign :: "string \<Rightarrow> bool \<times> string" where
  "take_sign s =
     (if cur s = CHR ''-'' then (True, tl s) else if cur s = CHR ''+'' then (False, tl s) else (False, s))"

text \<open>Digits, an optional point and more digits; the digits and how many follow the point.\<close>

definition take_mantissa :: "(char \<Rightarrow> bool) \<Rightarrow> string \<Rightarrow> string \<times> nat \<times> string" where
  "take_mantissa dig s =
     (let ip = takeWhile dig s; r = dropWhile dig s
      in if cur r = CHR ''.'' then
           (let fp = takeWhile dig (tl r)
            in if ip @ fp = [] then ([], 0, s) else (ip @ fp, length fp, dropWhile dig (tl r)))
         else (ip, 0, r))"

text \<open>An optional exponent after one of the letters.\<close>

definition take_exponent :: "char set \<Rightarrow> string \<Rightarrow> int \<times> string" where
  "take_exponent letters s =
     (if s \<noteq> [] \<and> cur s \<in> letters then
        (case take_sign (tl s) of (neg, r) \<Rightarrow>
           if isdigit (cur r)
           then (signed neg (digits_val 10 0 (map digit_val (takeWhile isdigit r))), dropWhile isdigit r)
           else (0, s))
      else (0, s))"

text \<open>The value \<open>D * b^k\<close> rounded, and whether \<open>errno\<close> becomes \<open>ERANGE\<close>.\<close>

definition dbl_value :: "bool \<Rightarrow> int \<Rightarrow> int \<Rightarrow> int \<Rightarrow> dbl \<times> bool" where
  "dbl_value s D b k =
     (if D = 0 then (Fin s 0 0, False)
      else
        (let x = (if 0 \<le> k then dbl_round s (D * b ^ nat k) 1 else dbl_round s D (b ^ nat (- k)))
         in (x, (case x of Fin _ m _ \<Rightarrow> m = 0 | _ \<Rightarrow> True))))"

definition nan_tail :: "string \<Rightarrow> string" where
  "nan_tail s =
     (let ok = (\<lambda>c. isdigit c \<or> (97 \<le> (of_char (tolower c) :: int) \<and> (of_char (tolower c) :: int) \<le> 122)
                    \<or> c = CHR ''_'')
      in if cur s = CHR ''('' \<and> cur (dropWhile ok (tl s)) = CHR '')'' then tl (dropWhile ok (tl s)) else s)"

text \<open>The value, the rest of the string after the part that was converted, and the error flag.\<close>

definition strtod :: "string \<Rightarrow> dbl \<times> string \<times> bool" where
  "strtod s =
     (case take_sign (SKIP_WHITESPACES s) of (neg, s1) \<Rightarrow>
        if prefixed ''inf'' (map tolower s1) then
          (Inf neg, (if prefixed ''infinity'' (map tolower s1) then drop 8 s1 else drop 3 s1), False)
        else if prefixed ''nan'' (map tolower s1) then (NaN, nan_tail (drop 3 s1), False)
        else if prefixed ''0x'' (map tolower s1) \<and> fst (take_mantissa is_hex (drop 2 s1)) \<noteq> [] then
          (case take_mantissa is_hex (drop 2 s1) of (ds, nf, r) \<Rightarrow>
             case take_exponent {CHR ''p'', CHR ''P''} r of (ex, r) \<Rightarrow>
               case dbl_value neg (digits_val 16 0 (List.map_filter hex_val ds)) 2 (ex - 4 * int nf) of
                 (x, err) \<Rightarrow> (x, r, err))
        else
          (case take_mantissa isdigit s1 of (ds, nf, r) \<Rightarrow>
             if ds = [] then (Fin False 0 0, s, False)
             else
               (case take_exponent {CHR ''e'', CHR ''E''} r of (ex, r) \<Rightarrow>
                  case dbl_value neg (digits_val 10 0 (map digit_val ds)) 10 (ex - int nf) of
                    (x, err) \<Rightarrow> (x, r, err))))"

section \<open>\<open>sprintf("%1.17g")\<close>\<close>

definition strip_zeros :: "string \<Rightarrow> string" where
  "strip_zeros s = rev (dropWhile (\<lambda>c. c = CHR ''0'') (rev s))"

definition point :: "string \<Rightarrow> string" where
  "point s = (if s = [] then [] else CHR ''.'' # s)"

definition show_exponent :: "int \<Rightarrow> string" where
  "show_exponent x =
     CHR ''e'' # (if x < 0 then CHR ''-'' else CHR ''+'') #
       (if abs x < 10 then CHR ''0'' # show_digits (abs x) else show_digits (abs x))"

text \<open>The 17 significant digits of \<open>n / d\<close> as an integer and the decimal exponent of the first.\<close>

definition sig17 :: "int \<Rightarrow> int \<Rightarrow> int \<times> int" where
  "sig17 n d =
     (let x = log_frac 10 n d; q = scale 10 n d (16 - x)
      in if q = 100000000000000000 then (10000000000000000, x + 1) else (q, x))"

definition fmt_digits :: "int \<Rightarrow> int \<Rightarrow> string" where
  "fmt_digits q x =
     (let ds = show_digits q
      in if x < - 4 \<or> 17 \<le> x then
           take 1 ds @ point (strip_zeros (drop 1 ds)) @ show_exponent x
         else if 0 \<le> x then
           take (nat x + 1) ds @ point (strip_zeros (drop (nat x + 1) ds))
         else ''0.'' @ replicate (nat (- x) - 1) (CHR ''0'') @ strip_zeros ds)"

definition sprintf_17g :: "dbl \<Rightarrow> string" where
  "sprintf_17g x =
     (case x of
        NaN \<Rightarrow> ''nan''
      | Inf s \<Rightarrow> (if s then ''-inf'' else ''inf'')
      | Fin s m e \<Rightarrow>
          (if s then ''-'' else []) @
          (if m = 0 then ''0''
           else (case dbl_frac m e of (n, d) \<Rightarrow> case sig17 n d of (q, x) \<Rightarrow> fmt_digits q x)))"

end
