(* ===== verification/JsonValue.thy ===== *)
theory JsonValue imports CDouble Heap begin

text \<open>
  JSON values as parson keeps them (nfc/src/parson.c, nfc/inc/parson.h): the tree of a value,
  the blocks of the heap it owns, and the operations that make, free and change values,
  objects and arrays. An operation on an object or an array maps it to its new value; every
  request to the allocator may be refused.
\<close>

section \<open>Data\<close>

text \<open>
  An object has its names and values in order and the capacity of its two arrays, an array its
  items and their capacity. A pointer to the names, values or items is null exactly when the
  capacity is zero. A null value is \<open>None\<close>.
\<close>

datatype json =
    JNull
  | JString string
  | JNumber dbl
  | JObject "(string \<times> json) list" nat
  | JArray "json list" nat
  | JBoolean int

type_synonym jobject = "(string \<times> json) list \<times> nat"
type_synonym jarray = "json list \<times> nat"

datatype json_value_type =
    JSONError | JSONNull | JSONString | JSONNumber | JSONObject | JSONArray | JSONBoolean

datatype json_status = JSONSuccess | JSONFailure

definition STARTING_CAPACITY :: nat where "STARTING_CAPACITY = 16"

text \<open>The sizes of the structures on the 32-bit target.\<close>

definition sizeof_JSON_Value :: nat where "sizeof_JSON_Value = 16"
definition sizeof_JSON_Object :: nat where "sizeof_JSON_Object = 20"
definition sizeof_JSON_Array :: nat where "sizeof_JSON_Array = 16"
definition sizeof_ptr :: nat where "sizeof_ptr = 4"

definition json_value_get_type :: "json option \<Rightarrow> json_value_type" where
  "json_value_get_type v =
     (case v of
        None \<Rightarrow> JSONError
      | Some JNull \<Rightarrow> JSONNull
      | Some (JString s) \<Rightarrow> JSONString
      | Some (JNumber x) \<Rightarrow> JSONNumber
      | Some (JObject kvs cap) \<Rightarrow> JSONObject
      | Some (JArray xs cap) \<Rightarrow> JSONArray
      | Some (JBoolean b) \<Rightarrow> JSONBoolean)"

definition json_value_get_object :: "json option \<Rightarrow> jobject option" where
  "json_value_get_object v = (case v of Some (JObject kvs cap) \<Rightarrow> Some (kvs, cap) | _ \<Rightarrow> None)"

definition json_value_get_array :: "json option \<Rightarrow> jarray option" where
  "json_value_get_array v = (case v of Some (JArray xs cap) \<Rightarrow> Some (xs, cap) | _ \<Rightarrow> None)"

definition json_value_get_string_desc :: "json option \<Rightarrow> string option" where
  "json_value_get_string_desc v = (case v of Some (JString s) \<Rightarrow> Some s | _ \<Rightarrow> None)"

text \<open>What a reader of the C string sees ends at the first zero.\<close>

definition c_str :: "string \<Rightarrow> string" where
  "c_str s = takeWhile (\<lambda>c. c \<noteq> NUL) s"

definition json_value_get_string :: "json option \<Rightarrow> string option" where
  "json_value_get_string v = json_value_get_string_desc v"

definition json_value_get_string_len :: "json option \<Rightarrow> nat" where
  "json_value_get_string_len v =
     (case json_value_get_string_desc v of Some s \<Rightarrow> length s | None \<Rightarrow> 0)"

definition json_value_get_number :: "json option \<Rightarrow> dbl" where
  "json_value_get_number v = (case v of Some (JNumber x) \<Rightarrow> x | _ \<Rightarrow> Fin False 0 0)"

definition json_value_get_boolean :: "json option \<Rightarrow> int" where
  "json_value_get_boolean v = (case v of Some (JBoolean b) \<Rightarrow> b | _ \<Rightarrow> - 1)"

section \<open>Freeing\<close>

definition free_ptr :: "bool \<Rightarrow> mem \<Rightarrow> mem" where
  "free_ptr nonnull m = (if nonnull then vPortFree m else m)"

text \<open>
  The loops of \<open>json_object_free\<close> and \<open>json_array_free\<close> over the entries, whose values are
  given by what freeing them does.
\<close>

definition free_members :: "(string \<times> (mem \<Rightarrow> mem)) list \<Rightarrow> mem \<Rightarrow> mem" where
  "free_members fs m = fold (\<lambda>(k, f) m. f (vPortFree m)) fs m"

definition json_object_free_with :: "(string \<times> (mem \<Rightarrow> mem)) list \<Rightarrow> nat \<Rightarrow> mem \<Rightarrow> mem" where
  "json_object_free_with fs cap m =
     vPortFree (free_ptr (cap \<noteq> 0) (free_ptr (cap \<noteq> 0) (free_members fs m)))"

definition json_array_free_with :: "(mem \<Rightarrow> mem) list \<Rightarrow> nat \<Rightarrow> mem \<Rightarrow> mem" where
  "json_array_free_with fs cap m = vPortFree (free_ptr (cap \<noteq> 0) (fold (\<lambda>f. f) fs m))"

primrec json_value_free :: "json \<Rightarrow> mem \<Rightarrow> mem" where
  "json_value_free JNull = vPortFree"
| "json_value_free (JString s) = (\<lambda>m. vPortFree (vPortFree m))"
| "json_value_free (JNumber x) = vPortFree"
| "json_value_free (JObject kvs cap) =
     (\<lambda>m. vPortFree (json_object_free_with (map (map_prod id json_value_free) kvs) cap m))"
| "json_value_free (JArray xs cap) =
     (\<lambda>m. vPortFree (json_array_free_with (map json_value_free xs) cap m))"
| "json_value_free (JBoolean b) = vPortFree"

definition json_value_free_opt :: "json option \<Rightarrow> mem \<Rightarrow> mem" where
  "json_value_free_opt v m = (case v of None \<Rightarrow> m | Some v \<Rightarrow> json_value_free v m)"

text \<open>The blocks a value owns.\<close>

primrec blocks :: "json \<Rightarrow> int" where
  "blocks JNull = 1"
| "blocks (JString s) = 2"
| "blocks (JNumber x) = 1"
| "blocks (JObject kvs cap) =
     2 + (if cap = 0 then 0 else 2) + sum_list (map (\<lambda>(k, n). 1 + n) (map (map_prod id blocks) kvs))"
| "blocks (JArray xs cap) =
     2 + (if cap = 0 then 0 else 1) + sum_list (map blocks xs)"
| "blocks (JBoolean b) = 1"

definition obj_blocks :: "jobject \<Rightarrow> int" where
  "obj_blocks ob = blocks (JObject (fst ob) (snd ob))"

definition arr_blocks :: "jarray \<Rightarrow> int" where
  "arr_blocks ar = blocks (JArray (fst ar) (snd ar))"

definition opt_blocks :: "json option \<Rightarrow> int" where
  "opt_blocks v = (case v of None \<Rightarrow> 0 | Some v \<Rightarrow> blocks v)"

section \<open>Making values\<close>

definition json_value_init_object :: "mem \<Rightarrow> json option \<times> mem" where
  "json_value_init_object m =
     (case pvPortMalloc sizeof_JSON_Value m of
        (False, m) \<Rightarrow> (None, m)
      | (True, m) \<Rightarrow>
          (case pvPortMalloc sizeof_JSON_Object m of
             (False, m) \<Rightarrow> (None, vPortFree m)
           | (True, m) \<Rightarrow> (Some (JObject [] 0), m)))"

definition json_value_init_array :: "mem \<Rightarrow> json option \<times> mem" where
  "json_value_init_array m =
     (case pvPortMalloc sizeof_JSON_Value m of
        (False, m) \<Rightarrow> (None, m)
      | (True, m) \<Rightarrow>
          (case pvPortMalloc sizeof_JSON_Array m of
             (False, m) \<Rightarrow> (None, vPortFree m)
           | (True, m) \<Rightarrow> (Some (JArray [] 0), m)))"

definition parson_strndup :: "string \<Rightarrow> nat \<Rightarrow> mem \<Rightarrow> string option \<times> mem" where
  "parson_strndup s n m =
     (case pvPortMalloc (n + 1) m of
        (False, m) \<Rightarrow> (None, m)
      | (True, m) \<Rightarrow> (Some (take n s), m))"

definition parson_strdup :: "string \<Rightarrow> mem \<Rightarrow> string option \<times> mem" where
  "parson_strdup s m = parson_strndup s (length s) m"

definition json_value_init_string_no_copy :: "string \<Rightarrow> mem \<Rightarrow> json option \<times> mem" where
  "json_value_init_string_no_copy s m =
     (case pvPortMalloc sizeof_JSON_Value m of
        (False, m) \<Rightarrow> (None, m)
      | (True, m) \<Rightarrow> (Some (JString s), m))"

definition json_value_init_number :: "dbl \<Rightarrow> mem \<Rightarrow> json option \<times> mem" where
  "json_value_init_number x m =
     (if IS_NUMBER_INVALID x then (None, m)
      else (case pvPortMalloc sizeof_JSON_Value m of
              (False, m) \<Rightarrow> (None, m)
            | (True, m) \<Rightarrow> (Some (JNumber x), m)))"

definition json_value_init_boolean :: "int \<Rightarrow> mem \<Rightarrow> json option \<times> mem" where
  "json_value_init_boolean b m =
     (case pvPortMalloc sizeof_JSON_Value m of
        (False, m) \<Rightarrow> (None, m)
      | (True, m) \<Rightarrow> (Some (JBoolean (if b \<noteq> 0 then 1 else 0)), m))"

definition json_value_init_null :: "mem \<Rightarrow> json option \<times> mem" where
  "json_value_init_null m =
     (case pvPortMalloc sizeof_JSON_Value m of
        (False, m) \<Rightarrow> (None, m)
      | (True, m) \<Rightarrow> (Some JNull, m))"

section \<open>Objects\<close>

definition json_object_get_count :: "jobject option \<Rightarrow> nat" where
  "json_object_get_count ob = (case ob of None \<Rightarrow> 0 | Some (kvs, cap) \<Rightarrow> length kvs)"

fun json_object_getn_value :: "(string \<times> 'v) list \<Rightarrow> string \<Rightarrow> nat \<Rightarrow> 'v option" where
  "json_object_getn_value [] name n = None"
| "json_object_getn_value ((k, v) # kvs) name n =
     (if length k \<noteq> n then json_object_getn_value kvs name n
      else if take n k = take n name then Some v
      else json_object_getn_value kvs name n)"

definition json_object_get_value :: "jobject option \<Rightarrow> string option \<Rightarrow> json option" where
  "json_object_get_value ob name =
     (case (ob, name) of
        (Some (kvs, cap), Some name) \<Rightarrow> json_object_getn_value kvs name (length name)
      | _ \<Rightarrow> None)"

definition json_object_get_name :: "jobject option \<Rightarrow> nat \<Rightarrow> string option" where
  "json_object_get_name ob i =
     (case ob of
        None \<Rightarrow> None
      | Some (kvs, cap) \<Rightarrow> if i \<ge> length kvs then None else Some (fst (kvs ! i)))"

definition json_object_get_value_at :: "jobject option \<Rightarrow> nat \<Rightarrow> json option" where
  "json_object_get_value_at ob i =
     (case ob of
        None \<Rightarrow> None
      | Some (kvs, cap) \<Rightarrow> if i \<ge> length kvs then None else Some (snd (kvs ! i)))"

definition json_object_resize :: "jobject \<Rightarrow> nat \<Rightarrow> mem \<Rightarrow> json_status \<times> jobject \<times> mem" where
  "json_object_resize ob new_capacity m =
     (case ob of (kvs, cap) \<Rightarrow>
        if new_capacity = 0 then (JSONFailure, ob, m)
        else (case pvPortMalloc (new_capacity * sizeof_ptr) m of
                (False, m) \<Rightarrow> (JSONFailure, ob, m)
              | (True, m) \<Rightarrow>
                  (case pvPortMalloc (new_capacity * sizeof_ptr) m of
                     (False, m) \<Rightarrow> (JSONFailure, ob, vPortFree m)
                   | (True, m) \<Rightarrow>
                       (JSONSuccess, (kvs, new_capacity),
                        free_ptr (cap \<noteq> 0) (free_ptr (cap \<noteq> 0) m)))))"

text \<open>Room for one more entry; \<open>resize\<close> is the object's or the array's.\<close>

definition grown :: "nat \<Rightarrow> nat" where
  "grown cap = max (cap * 2) STARTING_CAPACITY"

definition json_object_addn ::
    "jobject \<Rightarrow> string \<Rightarrow> nat \<Rightarrow> json option \<Rightarrow> mem \<Rightarrow> json_status \<times> jobject \<times> mem" where
  "json_object_addn ob name n val m =
     (case val of
        None \<Rightarrow> (JSONFailure, ob, m)
      | Some v \<Rightarrow>
          (case json_object_getn_value (fst ob) name n of
             Some _ \<Rightarrow> (JSONFailure, ob, m)
           | None \<Rightarrow>
               (case (if length (fst ob) \<ge> snd ob then json_object_resize ob (grown (snd ob)) m
                      else (JSONSuccess, ob, m)) of
                  (JSONFailure, ob, m) \<Rightarrow> (JSONFailure, ob, m)
                | (JSONSuccess, ob, m) \<Rightarrow>
                    (case parson_strndup name n m of
                       (None, m) \<Rightarrow> (JSONFailure, ob, m)
                     | (Some key, m) \<Rightarrow> (JSONSuccess, (fst ob @ [(key, v)], snd ob), m)))))"

definition json_object_add ::
    "jobject \<Rightarrow> string \<Rightarrow> json option \<Rightarrow> mem \<Rightarrow> json_status \<times> jobject \<times> mem" where
  "json_object_add ob name val m = json_object_addn ob name (length name) val m"

text \<open>The entry at \<open>i\<close> is replaced by the last one.\<close>

definition drop_entry :: "nat \<Rightarrow> 'a list \<Rightarrow> 'a list" where
  "drop_entry i xs = (if i \<noteq> length xs - 1 then (butlast xs)[i := last xs] else butlast xs)"

fun index_of :: "string \<Rightarrow> (string \<times> 'v) list \<Rightarrow> nat option" where
  "index_of name [] = None"
| "index_of name ((k, v) # kvs) =
     (if k = name then Some 0 else map_option Suc (index_of name kvs))"

definition json_object_remove_internal ::
    "jobject option \<Rightarrow> string \<Rightarrow> bool \<Rightarrow> mem \<Rightarrow> json_status \<times> jobject option \<times> mem" where
  "json_object_remove_internal ob name free_value m =
     (case ob of
        None \<Rightarrow> (JSONFailure, None, m)
      | Some (kvs, cap) \<Rightarrow>
          if json_object_get_value ob (Some name) = None then (JSONFailure, ob, m)
          else (case index_of name kvs of
                  None \<Rightarrow> (JSONFailure, ob, m)
                | Some i \<Rightarrow>
                    (let m = vPortFree m;
                         m = (if free_value then json_value_free (snd (kvs ! i)) m else m)
                     in (JSONSuccess, Some (drop_entry i kvs, cap), m))))"

definition json_object_remove ::
    "jobject option \<Rightarrow> string \<Rightarrow> mem \<Rightarrow> json_status \<times> jobject option \<times> mem" where
  "json_object_remove ob name m = json_object_remove_internal ob name True m"

definition json_object_clear ::
    "jobject option \<Rightarrow> mem \<Rightarrow> json_status \<times> jobject option \<times> mem" where
  "json_object_clear ob m =
     (case ob of
        None \<Rightarrow> (JSONFailure, None, m)
      | Some (kvs, cap) \<Rightarrow>
          (JSONSuccess, Some ([], cap), free_members (map (map_prod id json_value_free) kvs) m))"

text \<open>
  \<open>parented\<close> says that the val already belongs to an object or an array. The old val is
  freed and the new one takes its place.
\<close>

definition json_object_set_value ::
    "jobject option \<Rightarrow> string option \<Rightarrow> bool \<Rightarrow> json option \<Rightarrow> mem
     \<Rightarrow> json_status \<times> jobject option \<times> mem" where
  "json_object_set_value ob name parented val m =
     (case (ob, name, val) of
        (Some (kvs, cap), Some name, Some v) \<Rightarrow>
          if parented then (JSONFailure, ob, m)
          else (case json_object_get_value ob (Some name) of
                  Some old \<Rightarrow>
                    (let m = json_value_free old m
                     in case index_of name kvs of
                          Some i \<Rightarrow> (JSONSuccess, Some (kvs[i := (fst (kvs ! i), v)], cap), m)
                        | None \<Rightarrow>
                            (case json_object_add (kvs, cap) name val m of
                               (st, ob, m) \<Rightarrow> (st, Some ob, m)))
                | None \<Rightarrow>
                    (case json_object_add (kvs, cap) name val m of
                       (st, ob, m) \<Rightarrow> (st, Some ob, m)))
      | _ \<Rightarrow> (JSONFailure, ob, m))"

section \<open>Arrays\<close>

definition json_array_get_count :: "jarray option \<Rightarrow> nat" where
  "json_array_get_count ar = (case ar of None \<Rightarrow> 0 | Some (xs, cap) \<Rightarrow> length xs)"

definition json_array_get_value :: "jarray option \<Rightarrow> nat \<Rightarrow> json option" where
  "json_array_get_value ar i =
     (case ar of None \<Rightarrow> None | Some (xs, cap) \<Rightarrow> if i \<ge> length xs then None else Some (xs ! i))"

definition json_array_resize :: "jarray \<Rightarrow> nat \<Rightarrow> mem \<Rightarrow> json_status \<times> jarray \<times> mem" where
  "json_array_resize ar new_capacity m =
     (case ar of (xs, cap) \<Rightarrow>
        if new_capacity = 0 then (JSONFailure, ar, m)
        else (case pvPortMalloc (new_capacity * sizeof_ptr) m of
                (False, m) \<Rightarrow> (JSONFailure, ar, m)
              | (True, m) \<Rightarrow> (JSONSuccess, (xs, new_capacity), free_ptr (cap \<noteq> 0) m)))"

definition json_array_add :: "jarray \<Rightarrow> json \<Rightarrow> mem \<Rightarrow> json_status \<times> jarray \<times> mem" where
  "json_array_add ar v m =
     (case (if length (fst ar) \<ge> snd ar then json_array_resize ar (grown (snd ar)) m
            else (JSONSuccess, ar, m)) of
        (JSONFailure, ar, m) \<Rightarrow> (JSONFailure, ar, m)
      | (JSONSuccess, ar, m) \<Rightarrow> (JSONSuccess, (fst ar @ [v], snd ar), m))"

definition json_array_remove ::
    "jarray option \<Rightarrow> nat \<Rightarrow> mem \<Rightarrow> json_status \<times> jarray option \<times> mem" where
  "json_array_remove ar ix m =
     (case ar of
        None \<Rightarrow> (JSONFailure, None, m)
      | Some (xs, cap) \<Rightarrow>
          if ix \<ge> length xs then (JSONFailure, ar, m)
          else (JSONSuccess, Some (take ix xs @ drop (Suc ix) xs, cap), json_value_free (xs ! ix) m))"

definition json_array_replace_value ::
    "jarray option \<Rightarrow> nat \<Rightarrow> bool \<Rightarrow> json option \<Rightarrow> mem \<Rightarrow> json_status \<times> jarray option \<times> mem" where
  "json_array_replace_value ar ix parented val m =
     (case (ar, val) of
        (Some (xs, cap), Some v) \<Rightarrow>
          if parented \<or> ix \<ge> length xs then (JSONFailure, ar, m)
          else (JSONSuccess, Some (xs[ix := v], cap), json_value_free (xs ! ix) m)
      | _ \<Rightarrow> (JSONFailure, ar, m))"

definition json_array_clear :: "jarray option \<Rightarrow> mem \<Rightarrow> json_status \<times> jarray option \<times> mem" where
  "json_array_clear ar m =
     (case ar of
        None \<Rightarrow> (JSONFailure, None, m)
      | Some (xs, cap) \<Rightarrow> (JSONSuccess, Some ([], cap), fold (\<lambda>f. f) (map json_value_free xs) m))"

definition json_array_append_value ::
    "jarray option \<Rightarrow> bool \<Rightarrow> json option \<Rightarrow> mem \<Rightarrow> json_status \<times> jarray option \<times> mem" where
  "json_array_append_value ar parented val m =
     (case (ar, val) of
        (Some ar', Some v) \<Rightarrow>
          if parented then (JSONFailure, ar, m)
          else (case json_array_add ar' v m of (st, ar', m) \<Rightarrow> (st, Some ar', m))
      | _ \<Rightarrow> (JSONFailure, ar, m))"

end
