(* ===== verification/JsonObject.thy ===== *)
theory JsonObject imports JsonValue begin

text \<open>
  What the operations of the object and array interface of parson do: the blocks they take and
  give back, the names an object has, and the interface of a map from names to values, which
  the network commands rely on, interpreted on the operations of the code.
\<close>

section \<open>Blocks\<close>

lemma live_malloc:
  "live (snd (pvPortMalloc n m)) = live m + (if fst (pvPortMalloc n m) then 1 else 0)"
  by (simp add: pvPortMalloc_def)

lemma malloc_cases:
  assumes "\<And>m'. pvPortMalloc n m = (True, m') \<Longrightarrow> live m' = live m + 1 \<Longrightarrow> P"
    and "\<And>m'. pvPortMalloc n m = (False, m') \<Longrightarrow> live m' = live m \<Longrightarrow> P"
  shows P
  using assms pvPortMalloc_True pvPortMalloc_False by (cases "pvPortMalloc n m"; cases "fst (pvPortMalloc n m)") auto

lemma live_free_ptr [simp]: "live (free_ptr b m) = live m - (if b then 1 else 0)"
  by (simp add: free_ptr_def)

lemma live_fold:
  assumes "\<And>f m. f \<in> set fs \<Longrightarrow> live (g f m) = live m - h f"
  shows "live (fold g fs m) = live m - sum_list (map h fs)"
  using assms
proof (induction fs arbitrary: m)
  case (Cons f fs)
  have "live (fold g fs (g f m)) = live (g f m) - sum_list (map h fs)"
    using Cons.prems by (intro Cons.IH) simp
  then show ?case using Cons.prems [of f m] by simp
qed simp

lemma live_json_value_free [simp]: "live (json_value_free v m) = live m - blocks v"
proof (induction v arbitrary: m)
  case (JObject kvs cap)
  have "live (fold (\<lambda>(k, v) m. json_value_free v (vPortFree m)) kvs m) =
      live m - sum_list (map (\<lambda>(k, v). 1 + blocks v) kvs)" for m
    by (rule live_fold) (use JObject in \<open>fastforce simp: snds.simps\<close>)
  then show ?case
    by (simp add: json_object_free_with_def free_members_def fold_map o_def case_prod_unfold)
next
  case (JArray xs cap)
  have "live (fold json_value_free xs m) = live m - sum_list (map blocks xs)" for m
    by (rule live_fold) (use JArray in auto)
  then show ?case by (simp add: json_array_free_with_def fold_map o_def)
qed simp_all

lemma live_json_value_free_opt [simp]: "live (json_value_free_opt v m) = live m - opt_blocks v"
  by (simp add: json_value_free_opt_def opt_blocks_def split: option.splits)

lemma sum_list_blocks_nonneg: "(\<And>x. x \<in> set xs \<Longrightarrow> 0 \<le> f x) \<Longrightarrow> 0 \<le> sum_list (map f xs)"
  for f :: "'a \<Rightarrow> int"
  by (rule sum_list_nonneg) auto

lemma blocks_pos: "0 < blocks v"
proof (induction v)
  case (JObject kvs cap)
  have "0 \<le> sum_list (map (\<lambda>p. 1 + blocks (snd p)) kvs)"
    by (rule sum_list_blocks_nonneg) (use JObject in \<open>force simp: snds.simps\<close>)
  then show ?case by (simp add: o_def case_prod_unfold)
next
  case (JArray xs cap)
  have "0 \<le> sum_list (map blocks xs)"
    by (rule sum_list_blocks_nonneg) (use JArray in force)
  then show ?case by simp
qed simp_all

lemma obj_blocks_eq:
  "obj_blocks (kvs, cap) =
     2 + (if cap = 0 then 0 else 2) + sum_list (map (\<lambda>(k, v). 1 + blocks v) kvs)"
  by (simp add: obj_blocks_def o_def case_prod_unfold)

lemma arr_blocks_eq:
  "arr_blocks (xs, cap) = 2 + (if cap = 0 then 0 else 1) + sum_list (map blocks xs)"
  by (simp add: arr_blocks_def)

definition handed :: "json_status \<Rightarrow> json option \<Rightarrow> int" where
  "handed st v = (if st = JSONSuccess then opt_blocks v else 0)"

lemma live_init:
  "json_value_init_object m = (v, m') \<Longrightarrow> live m' = live m + opt_blocks v"
  "json_value_init_array m = (v, m') \<Longrightarrow> live m' = live m + opt_blocks v"
  "json_value_init_number x m = (v, m') \<Longrightarrow> live m' = live m + opt_blocks v"
  "json_value_init_boolean b m = (v, m') \<Longrightarrow> live m' = live m + opt_blocks v"
  "json_value_init_null m = (v, m') \<Longrightarrow> live m' = live m + opt_blocks v"
  by (auto simp: json_value_init_object_def json_value_init_array_def json_value_init_number_def
      json_value_init_boolean_def json_value_init_null_def opt_blocks_def pvPortMalloc_def
      split: if_splits)

lemma live_init_string_no_copy:
  "json_value_init_string_no_copy s m = (v, m') \<Longrightarrow>
     live m' = live m + (case v of None \<Rightarrow> 0 | Some _ \<Rightarrow> 1) \<and> (v = None \<or> v = Some (JString s))"
  by (auto simp: json_value_init_string_no_copy_def pvPortMalloc_def split: if_splits)

lemma live_strndup:
  "parson_strndup s n m = (r, m') \<Longrightarrow>
     live m' = live m + (case r of None \<Rightarrow> 0 | Some _ \<Rightarrow> 1) \<and> (r = None \<or> r = Some (take n s))"
  by (auto simp: parson_strndup_def pvPortMalloc_def split: if_splits)

lemma live_object_resize:
  "json_object_resize ob n m = (st, ob', m') \<Longrightarrow>
     live m' - obj_blocks ob' = live m - obj_blocks ob \<and> fst ob' = fst ob \<and>
     (st = JSONSuccess \<longrightarrow> snd ob' = n \<and> n \<noteq> 0) \<and> (st = JSONFailure \<longrightarrow> ob' = ob)"
  by (auto simp: json_object_resize_def pvPortMalloc_def obj_blocks_eq split: if_splits prod.splits)

lemma live_array_resize:
  "json_array_resize ar n m = (st, ar', m') \<Longrightarrow>
     live m' - arr_blocks ar' = live m - arr_blocks ar \<and> fst ar' = fst ar \<and>
     (st = JSONSuccess \<longrightarrow> snd ar' = n \<and> n \<noteq> 0) \<and> (st = JSONFailure \<longrightarrow> ar' = ar)"
  by (auto simp: json_array_resize_def pvPortMalloc_def arr_blocks_eq split: if_splits prod.splits)

lemma addn_effect:
  assumes "json_object_addn ob name n val m = (st, ob', m')"
  shows "live m' - obj_blocks ob' = live m - obj_blocks ob - handed st val \<and>
    (st = JSONSuccess \<longrightarrow> (\<exists>v. val = Some v \<and> json_object_getn_value (fst ob) name n = None \<and>
       fst ob' = fst ob @ [(take n name, v)])) \<and>
    (st = JSONFailure \<longrightarrow> fst ob' = fst ob)"
proof (cases val)
  case None
  with assms show ?thesis by (simp add: json_object_addn_def handed_def opt_blocks_def)
next
  case (Some v)
  show ?thesis
  proof (cases "json_object_getn_value (fst ob) name n")
    case (Some w)
    with assms \<open>val = Some v\<close> show ?thesis by (simp add: json_object_addn_def handed_def)
  next
    case None
    obtain st1 ob1 m1 where room: "(if length (fst ob) \<ge> snd ob then json_object_resize ob (grown (snd ob)) m
        else (JSONSuccess, ob, m)) = (st1, ob1, m1)"
      by (cases "if length (fst ob) \<ge> snd ob then json_object_resize ob (grown (snd ob)) m
        else (JSONSuccess, ob, m)") auto
    then have one: "live m1 - obj_blocks ob1 = live m - obj_blocks ob" "fst ob1 = fst ob"
      using live_object_resize by (auto split: if_splits)
    obtain r m2 where dup: "parson_strndup name n m1 = (r, m2)" by fastforce
    have out: "(st, ob', m') = (case st1 of JSONFailure \<Rightarrow> (JSONFailure, ob1, m1)
        | JSONSuccess \<Rightarrow> (case r of None \<Rightarrow> (JSONFailure, ob1, m2)
            | Some key \<Rightarrow> (JSONSuccess, (fst ob1 @ [(key, v)], snd ob1), m2)))"
      using assms \<open>val = Some v\<close> None room dup
      by (simp add: json_object_addn_def split: json_status.splits)
    show ?thesis
      using out one live_strndup [OF dup] \<open>val = Some v\<close> None
      by (cases ob; cases ob1)
        (auto simp: handed_def opt_blocks_def obj_blocks_eq split: json_status.splits option.splits)
  qed
qed

lemma array_add_effect:
  assumes "json_array_add ar v m = (st, ar', m')"
  shows "live m' - arr_blocks ar' = live m - arr_blocks ar - handed st (Some v) \<and>
    (st = JSONSuccess \<longrightarrow> fst ar' = fst ar @ [v]) \<and> (st = JSONFailure \<longrightarrow> ar' = ar)"
proof -
  obtain st1 ar1 m1 where room: "(if length (fst ar) \<ge> snd ar then json_array_resize ar (grown (snd ar)) m
      else (JSONSuccess, ar, m)) = (st1, ar1, m1)"
    by (cases "if length (fst ar) \<ge> snd ar then json_array_resize ar (grown (snd ar)) m
      else (JSONSuccess, ar, m)") auto
  then have one: "live m1 - arr_blocks ar1 = live m - arr_blocks ar" "fst ar1 = fst ar"
    "st1 = JSONFailure \<Longrightarrow> ar1 = ar"
    using live_array_resize by (auto split: if_splits)
  have "(st, ar', m') = (case st1 of JSONFailure \<Rightarrow> (JSONFailure, ar1, m1)
      | JSONSuccess \<Rightarrow> (JSONSuccess, (fst ar1 @ [v], snd ar1), m1))"
    using assms room by (simp add: json_array_add_def split: json_status.splits)
  with one show ?thesis
    by (cases ar; cases ar1)
      (auto simp: handed_def opt_blocks_def arr_blocks_eq split: json_status.splits)
qed

section \<open>Names\<close>

lemma getn_take: "json_object_getn_value kvs name n = json_object_getn_value kvs (take n name) n"
  by (induction kvs) auto

lemma getn_map_of:
  "length name = n \<Longrightarrow> json_object_getn_value kvs name n = map_of kvs name"
  by (induction kvs) auto

lemma get_value_map_of [simp]:
  "json_object_get_value (Some (kvs, cap)) (Some name) = map_of kvs name"
  by (simp add: json_object_get_value_def getn_map_of)

lemma index_of_None: "index_of name kvs = None \<longleftrightarrow> name \<notin> fst ` set kvs"
  by (induction kvs rule: index_of.induct) auto

lemma index_of_Some:
  "index_of name kvs = Some i \<Longrightarrow> i < length kvs \<and> fst (kvs ! i) = name \<and> map_of kvs name = Some (snd (kvs ! i))"
  by (induction kvs arbitrary: i) (auto split: if_splits)

lemma index_of_found:
  assumes "map_of kvs name = Some v"
  obtains i where "index_of name kvs = Some i" "i < length kvs" "fst (kvs ! i) = name" "snd (kvs ! i) = v"
proof -
  have "index_of name kvs \<noteq> None" using assms by (metis index_of_None map_of_eq_None_iff option.distinct(1))
  with index_of_Some assms that show ?thesis by (metis not_Some_eq option.inject)
qed

lemma map_of_update: "index_of k kvs = Some i \<Longrightarrow> map_of (kvs[i := (k, v)]) = (map_of kvs)(k \<mapsto> v)"
proof (induction k kvs arbitrary: i rule: index_of.induct)
  case (2 name k v' kvs)
  then show ?case by (cases "k = name") (auto simp: fun_eq_iff)
qed simp

lemma set_value_new:
  "map_of kvs k = None \<Longrightarrow> json_object_set_value (Some (kvs, cap)) (Some k) False (Some v) m =
     (case json_object_addn (kvs, cap) k (length k) (Some v) m of (st, ob, m) \<Rightarrow> (st, Some ob, m))"
  by (simp add: json_object_set_value_def json_object_add_def)

lemma set_value_old:
  "index_of k kvs = Some i \<Longrightarrow> json_object_set_value (Some (kvs, cap)) (Some k) False (Some v) m =
     (JSONSuccess, Some (kvs[i := (k, v)], cap), json_value_free (snd (kvs ! i)) m)"
  by (simp add: json_object_set_value_def Let_def index_of_Some)

definition names :: "jobject \<Rightarrow> string list" where
  "names ob = map fst (fst ob)"

definition names_ok :: "jobject \<Rightarrow> bool" where
  "names_ok ob \<longleftrightarrow> distinct (names ob)"

lemma set_drop_entry:
  assumes "distinct xs" "i < length xs"
  shows "set (drop_entry i xs) = set xs - {xs ! i} \<and> distinct (drop_entry i xs)"
proof -
  from assms(2) obtain ys y where xs: "xs = ys @ [y]" by (cases xs rule: rev_cases) auto
  show ?thesis
  proof (cases "i = length xs - 1")
    case True
    with xs assms(1) show ?thesis by (simp add: drop_entry_def)
  next
    case False
    with xs assms(2) have "i < length ys" by simp
    with xs False assms(1) show ?thesis
      by (auto simp: drop_entry_def nth_append set_update_distinct distinct_list_update)
  qed
qed

lemma map_of_drop_entry:
  assumes "distinct (map fst kvs)" "i < length kvs"
  shows "map_of (drop_entry i kvs) k = (if k = fst (kvs ! i) then None else map_of kvs k) \<and>
    distinct (map fst (drop_entry i kvs))"
proof -
  have d: "distinct kvs" using assms(1) by (simp add: distinct_map)
  have m: "map fst (drop_entry i kvs) = drop_entry i (map fst kvs)"
    using assms(2) by (cases kvs rule: rev_cases) (auto simp: drop_entry_def map_update map_butlast last_map)
  have dk: "distinct (map fst (drop_entry i kvs))"
    using set_drop_entry [OF assms(1), of i] assms(2) m by simp
  have s: "set (drop_entry i kvs) = set kvs - {kvs ! i}"
    using set_drop_entry [OF d assms(2)] by simp
  have "map_of (drop_entry i kvs) k = Some v \<longleftrightarrow> (k, v) \<in> set kvs \<and> (k, v) \<noteq> kvs ! i" for v
    using dk s by (simp add: map_of_eq_Some_iff)
  moreover have "(k, v) \<in> set kvs \<and> (k, v) \<noteq> kvs ! i \<longleftrightarrow> k \<noteq> fst (kvs ! i) \<and> map_of kvs k = Some v" for v
  proof -
    obtain k0 v0 where at: "kvs ! i = (k0, v0)" by fastforce
    then have "(k0, v0) \<in> set kvs" using assms(2) by (metis nth_mem)
    then have "(k, v) \<in> set kvs \<Longrightarrow> k = k0 \<Longrightarrow> v = v0" using eq_key_imp_eq_value [OF assms(1)] by blast
    then show ?thesis using assms(1) at by (auto simp: map_of_eq_Some_iff)
  qed
  ultimately have "map_of (drop_entry i kvs) k = Some v \<longleftrightarrow> k \<noteq> fst (kvs ! i) \<and> map_of kvs k = Some v" for v
    by simp
  then have "map_of (drop_entry i kvs) k = (if k = fst (kvs ! i) then None else map_of kvs k)"
    by (cases "map_of kvs k"; cases "map_of (drop_entry i kvs) k") auto
  with dk show ?thesis by simp
qed

lemma sum_list_update_int:
  "i < length xs \<Longrightarrow> sum_list (xs[i := x]) = sum_list xs + x - xs ! i" for x :: int
  by (induction xs arbitrary: i) (auto simp: nth_Cons split: nat.splits)

lemma sum_drop_entry:
  "i < length xs \<Longrightarrow> sum_list (map f (drop_entry i xs)) = sum_list (map f xs) - f (xs ! i)"
  for f :: "'a \<Rightarrow> int"
proof (cases xs rule: rev_cases)
  case (snoc ys y)
  assume "i < length xs"
  then show ?thesis
    using snoc by (auto simp: drop_entry_def nth_append map_update sum_list_update_int)
qed simp

lemma set_value_effect:
  assumes "json_object_set_value (Some ob) name parented val m = (st, ob', m')"
  shows "\<exists>ob1. ob' = Some ob1 \<and>
    live m' - obj_blocks ob1 = live m - obj_blocks ob - handed st val \<and>
    (st = JSONFailure \<longrightarrow> fst ob1 = fst ob)"
proof (cases "\<exists>n v. name = Some n \<and> val = Some v \<and> \<not> parented")
  case False
  with assms show ?thesis
    by (cases ob; cases name; cases val) (auto simp: json_object_set_value_def handed_def opt_blocks_def)
next
  case True
  then obtain n v where nv: "name = Some n" "val = Some v" "\<not> parented" by blast
  obtain kvs cap where ob: "ob = (kvs, cap)" by fastforce
  show ?thesis
  proof (cases "map_of kvs n")
    case None
    then show ?thesis
      using assms nv ob addn_effect [of ob n "length n" val m]
      by (auto simp: set_value_new split: prod.splits)
  next
    case (Some old)
    then obtain i where i: "index_of n kvs = Some i" by (rule index_of_found)
    note at = index_of_Some [OF i]
    have "sum_list ((map (\<lambda>(k, v). 1 + blocks v) kvs)[i := 1 + blocks v]) =
        sum_list (map (\<lambda>(k, v). 1 + blocks v) kvs) + blocks v - blocks old"
      using at Some by (simp add: sum_list_update_int case_prod_unfold)
    then have "obj_blocks (kvs[i := (n, v)], cap) = obj_blocks (kvs, cap) + blocks v - blocks old"
      by (simp add: obj_blocks_eq map_update)
    moreover have "st = JSONSuccess" "ob' = Some (kvs[i := (n, v)], cap)" "m' = json_value_free old m"
      using assms nv ob i at Some by (auto simp: set_value_old)
    ultimately show ?thesis using nv ob by (simp add: handed_def opt_blocks_def)
  qed
qed

lemma set_value_names:
  assumes "json_object_set_value (Some ob) (Some k) False (Some v) m = (JSONSuccess, Some ob', m')"
    and "names_ok ob"
  shows "names_ok ob' \<and> map_of (fst ob') = (map_of (fst ob))(k \<mapsto> v)"
proof -
  obtain kvs cap where ob: "ob = (kvs, cap)" by fastforce
  show ?thesis
  proof (cases "map_of kvs k")
    case None
    then have ob': "fst ob' = kvs @ [(k, v)]"
      using assms(1) ob addn_effect [of ob k "length k" "Some v" m]
      by (auto simp: set_value_new split: prod.splits)
    moreover have "k \<notin> fst ` set kvs" using None by (simp add: map_of_eq_None_iff)
    moreover have "map_of (kvs @ [(k, v)]) = (map_of kvs)(k \<mapsto> v)"
      using None by (auto simp: fun_eq_iff map_add_def split: option.splits)
    ultimately show ?thesis
      using assms(2) ob
      by (auto simp: names_ok_def names_def simp del: map_of_append)
  next
    case (Some old)
    then obtain i where i: "index_of k kvs = Some i" by (rule index_of_found)
    note at = index_of_Some [OF i]
    from assms(1) ob Some i at have ob': "fst ob' = kvs[i := (k, v)]"
      by (auto simp: json_object_set_value_def Let_def)
    have d: "distinct (map fst kvs)" using assms(2) ob by (simp add: names_ok_def names_def)
    have same: "map fst (kvs[i := (k, v)]) = map fst kvs"
      using at by (simp add: map_update list_update_same_conv)
    from map_of_update [OF i] have "map_of (kvs[i := (k, v)]) = (map_of kvs)(k \<mapsto> v)" .
    with same d ob ob' show ?thesis by (simp add: names_ok_def names_def)
  qed
qed

lemma remove_effect:
  assumes "json_object_remove_internal (Some ob) k free_value m = (st, ob', m')"
  shows "\<exists>ob1. ob' = Some ob1 \<and>
    (st = JSONSuccess \<longleftrightarrow> map_of (fst ob) k \<noteq> None) \<and>
    live m' - obj_blocks ob1 = live m - obj_blocks ob +
      (if st = JSONSuccess \<and> \<not> free_value then blocks (the (map_of (fst ob) k)) else 0) \<and>
    (st = JSONFailure \<longrightarrow> ob1 = ob) \<and>
    (st = JSONSuccess \<longrightarrow> names_ok ob \<longrightarrow>
       names_ok ob1 \<and> map_of (fst ob1) = (map_of (fst ob))(k := None))"
proof -
  obtain kvs cap where ob: "ob = (kvs, cap)" by fastforce
  show ?thesis
  proof (cases "map_of kvs k")
    case None
    with assms ob show ?thesis by (simp add: json_object_remove_internal_def)
  next
    case (Some old)
    then obtain i where i: "index_of k kvs = Some i" by (rule index_of_found)
    note at = index_of_Some [OF i]
    have out: "st = JSONSuccess" "ob' = Some (drop_entry i kvs, cap)"
      "live m' = live m - 1 - (if free_value then blocks old else 0)"
      using assms ob Some i at by (auto simp: json_object_remove_internal_def Let_def)
    have "sum_list (map (\<lambda>(k, v). 1 + blocks v) (drop_entry i kvs)) =
        sum_list (map (\<lambda>(k, v). 1 + blocks v) kvs) - (1 + blocks old)"
      using at Some by (simp add: sum_drop_entry case_prod_unfold)
    moreover have "names_ok ob \<longrightarrow> names_ok (drop_entry i kvs, cap) \<and>
        map_of (drop_entry i kvs) = (map_of kvs)(k := None)"
      using map_of_drop_entry [of kvs i] at ob by (auto simp: names_ok_def names_def)
    ultimately show ?thesis using out ob Some by (simp add: obj_blocks_eq)
  qed
qed

lemma remove_names:
  assumes "json_object_remove (Some ob) k m = (JSONSuccess, Some ob', m')" "names_ok ob"
  shows "names_ok ob' \<and> map_of (fst ob') = (map_of (fst ob))(k := None)"
  using remove_effect [OF assms(1) [unfolded json_object_remove_def]] assms(2) by auto

section \<open>The interface of a map from names to values\<close>

text \<open>
  What the code that builds and reads answers relies on. An update is a relation, because the
  allocator decides whether it succeeds: \<open>set ob k v ob'\<close> says that \<open>ob'\<close> is the result of a
  call that succeeded.
\<close>

locale name_map =
  fixes get :: "'o \<Rightarrow> string \<Rightarrow> 'v option"
    and set_to :: "'o \<Rightarrow> string \<Rightarrow> 'v \<Rightarrow> 'o \<Rightarrow> bool"
    and remove :: "'o \<Rightarrow> string \<Rightarrow> 'o \<Rightarrow> bool"
    and ok :: "'o \<Rightarrow> bool"
  assumes set_ok: "ok ob \<Longrightarrow> set_to ob k v ob' \<Longrightarrow> ok ob'"
    and get_set: "ok ob \<Longrightarrow> set_to ob k v ob' \<Longrightarrow> get ob' = (get ob)(k \<mapsto> v)"
    and remove_ok: "ok ob \<Longrightarrow> remove ob k ob' \<Longrightarrow> ok ob'"
    and get_remove: "ok ob \<Longrightarrow> remove ob k ob' \<Longrightarrow> get ob' = (get ob)(k := None)"
begin

lemma get_same: "ok ob \<Longrightarrow> set_to ob k v ob' \<Longrightarrow> get ob' k = Some v"
  by (simp add: get_set)

lemma get_other: "ok ob \<Longrightarrow> set_to ob k v ob' \<Longrightarrow> k' \<noteq> k \<Longrightarrow> get ob' k' = get ob k'"
  by (simp add: get_set)

lemma set_twice: "ok ob \<Longrightarrow> set_to ob k v ob1 \<Longrightarrow> set_to ob1 k w ob2 \<Longrightarrow> get ob2 = (get ob)(k \<mapsto> w)"
  using set_ok get_set by fastforce

lemma set_order:
  assumes "ok ob" "k \<noteq> l" "set_to ob k v ob1" "set_to ob1 l w ob2" "set_to ob l w ob3" "set_to ob3 k v ob4"
  shows "get ob2 = get ob4"
  using assms get_set [of ob] get_set [of ob1] get_set [of ob3] set_ok [of ob] by (simp add: fun_upd_twist)

lemma remove_set_new:
  assumes "ok ob" "get ob k = None" "set_to ob k v ob1" "remove ob1 k ob2"
  shows "get ob2 = get ob"
  using assms get_set [of ob] get_remove [of ob1] set_ok [of ob] by (auto simp: fun_eq_iff)

lemma set_all:
  assumes "ok ob" "\<And>i. i < length kvs \<Longrightarrow> set_to (obs ! i) (fst (kvs ! i)) (snd (kvs ! i)) (obs ! Suc i)"
    and "length obs = Suc (length kvs)" "obs ! 0 = ob"
  shows "get (last obs) = get ob ++ map_of (rev kvs) \<and> ok (last obs)"
  using assms
proof (induction kvs arbitrary: obs rule: rev_induct)
  case Nil
  then show ?case by (cases obs) auto
next
  case (snoc kv kvs)
  let ?obs = "butlast obs"
  have at: "?obs ! i = obs ! i" if "i \<le> length kvs" for i
    using that snoc.prems(3) by (simp add: nth_butlast)
  have "get (last ?obs) = get ob ++ map_of (rev kvs) \<and> ok (last ?obs)"
  proof (rule snoc.IH)
    fix i assume "i < length kvs"
    then show "set_to (?obs ! i) (fst (kvs ! i)) (snd (kvs ! i)) (?obs ! Suc i)"
      using snoc.prems(2) [of i] at [of i] at [of "Suc i"] by (simp add: nth_append)
  qed (use snoc.prems at in auto)
  moreover have "last ?obs = obs ! length kvs"
  proof -
    have "butlast obs \<noteq> []" "length (butlast obs) - 1 = length kvs"
      using snoc.prems(3) by (auto simp flip: length_0_conv)
    then show ?thesis using at [of "length kvs"] last_conv_nth [of "butlast obs"] by simp
  qed
  moreover have "set_to (obs ! length kvs) (fst kv) (snd kv) (last obs)"
    using snoc.prems(2) [of "length kvs"] snoc.prems(3)
      last_conv_nth [of obs] by (cases obs) (auto simp: nth_append)
  ultimately show ?case
    using get_set set_ok by (auto simp: map_add_def fun_eq_iff)
qed

end

definition sets_name :: "jobject \<Rightarrow> string \<Rightarrow> json \<Rightarrow> jobject \<Rightarrow> bool" where
  "sets_name ob k v ob' \<longleftrightarrow>
     (\<exists>m m'. json_object_set_value (Some ob) (Some k) False (Some v) m = (JSONSuccess, Some ob', m'))"

definition removes_name :: "jobject \<Rightarrow> string \<Rightarrow> jobject \<Rightarrow> bool" where
  "removes_name ob k ob' \<longleftrightarrow>
     (\<exists>m m'. json_object_remove (Some ob) k m = (JSONSuccess, Some ob', m'))"

interpretation json_objects: name_map
  "\<lambda>ob k. json_object_get_value (Some ob) (Some k)" sets_name removes_name names_ok
proof unfold_locales
  fix ob ob' :: jobject and k v
  assume ok: "names_ok ob"
  {
    assume "sets_name ob k v ob'"
    with ok show "names_ok ob'"
      and "(\<lambda>k. json_object_get_value (Some ob') (Some k)) =
        (\<lambda>k. json_object_get_value (Some ob) (Some k))(k \<mapsto> v)"
      using set_value_names by (auto simp: sets_name_def) (cases ob; cases ob'; fastforce)+
  next
    assume "removes_name ob k ob'"
    with ok show "names_ok ob'"
      and "(\<lambda>k. json_object_get_value (Some ob') (Some k)) =
        (\<lambda>k. json_object_get_value (Some ob) (Some k))(k := None)"
      using remove_names by (auto simp: removes_name_def) (cases ob; cases ob'; fastforce)+
  }
qed

end
