(* ===== verification/JsonParse.thy ===== *)
theory JsonParse imports JsonObject begin

text \<open>
  The parser of parson (nfc/src/parson.c). A pointer into the text is the rest of the text from
  there, whose end is the final zero. A parse function yields the value or null, the new
  position and the heap; the position after a failure is not used by any caller. The nesting
  counter runs down from \<open>MAX_NESTING + 1\<close> here. The loops over members and items run on fuel,
  and \<open>None\<close> says that it ran out, which the length of the text rules out.
\<close>

unbundle bit_operations_syntax

section \<open>Characters\<close>

definition code :: "char \<Rightarrow> int" where "code c = of_char c"

definition hex_char_to_int :: "char \<Rightarrow> int" where
  "hex_char_to_int c =
     (if 48 \<le> code c \<and> code c \<le> 57 then code c - 48
      else if 97 \<le> code c \<and> code c \<le> 102 then code c - 97 + 10
      else if 65 \<le> code c \<and> code c \<le> 70 then code c - 65 + 10
      else - 1)"

definition parse_utf16_hex :: "string \<Rightarrow> int option" where
  "parse_utf16_hex s =
     (if char_at s 0 = NUL \<or> char_at s 1 = NUL \<or> char_at s 2 = NUL \<or> char_at s 3 = NUL then None
      else
        (let x1 = hex_char_to_int (char_at s 0); x2 = hex_char_to_int (char_at s 1);
             x3 = hex_char_to_int (char_at s 2); x4 = hex_char_to_int (char_at s 3)
         in if x1 = - 1 \<or> x2 = - 1 \<or> x3 = - 1 \<or> x4 = - 1 then None
            else Some (x1 * 4096 + x2 * 256 + x3 * 16 + x4)))"

definition IS_CONT :: "int \<Rightarrow> bool" where
  "IS_CONT b \<longleftrightarrow> b AND 0xC0 = 0x80"

definition num_bytes_in_utf8_sequence :: "int \<Rightarrow> nat" where
  "num_bytes_in_utf8_sequence c =
     (if c = 0xC0 \<or> c = 0xC1 \<or> c > 0xF4 \<or> IS_CONT c then 0
      else if c AND 0x80 = 0 then 1
      else if c AND 0xE0 = 0xC0 then 2
      else if c AND 0xF0 = 0xE0 then 3
      else if c AND 0xF8 = 0xF0 then 4
      else 0)"

definition verify_utf8_sequence :: "string \<Rightarrow> bool \<times> nat" where
  "verify_utf8_sequence s =
     (let b0 = code (char_at s 0); b1 = code (char_at s 1);
          b2 = code (char_at s 2); b3 = code (char_at s 3);
          len = num_bytes_in_utf8_sequence b0;
          cp = (if len = 1 then Some b0
                else if len = 2 \<and> IS_CONT b1 then Some ((b0 AND 0x1F) * 64 + (b1 AND 0x3F))
                else if len = 3 \<and> IS_CONT b1 \<and> IS_CONT b2 then
                  Some (((b0 AND 0xF) * 64 + (b1 AND 0x3F)) * 64 + (b2 AND 0x3F))
                else if len = 4 \<and> IS_CONT b1 \<and> IS_CONT b2 \<and> IS_CONT b3 then
                  Some ((((b0 AND 0x7) * 64 + (b1 AND 0x3F)) * 64 + (b2 AND 0x3F)) * 64 + (b3 AND 0x3F))
                else None)
      in case cp of
           None \<Rightarrow> (False, len)
         | Some cp \<Rightarrow>
             if (cp < 0x80 \<and> len > 1) \<or> (cp < 0x800 \<and> len > 2) \<or> (cp < 0x10000 \<and> len > 3) then (False, len)
             else if cp > 0x10FFFF then (False, len)
             else if cp \<ge> 0xD800 \<and> cp \<le> 0xDFFF then (False, len)
             else (True, len))"

lemma verify_utf8_sequence_len: "verify_utf8_sequence s = (True, len) \<Longrightarrow> 0 < len"
  by (auto simp: verify_utf8_sequence_def Let_def split: option.splits if_splits)

function is_valid_utf8 :: "string \<Rightarrow> nat \<Rightarrow> bool" where
  "is_valid_utf8 s n =
     (if n = 0 then True
      else (case verify_utf8_sequence s of
              (ok, len) \<Rightarrow> if ok then is_valid_utf8 (drop len s) (n - len) else False))"
  by pat_completeness auto

termination is_valid_utf8
  by (relation "measure snd") (auto dest!: verify_utf8_sequence_len [OF sym])

declare is_valid_utf8.simps [simp del]

text \<open>\<open>strchr("xX", c)\<close> also finds the zero at the end of its string.\<close>

definition is_decimal :: "string \<Rightarrow> nat \<Rightarrow> bool" where
  "is_decimal s n =
     (if n > 1 \<and> char_at s 0 = CHR ''0'' \<and> char_at s 1 \<noteq> CHR ''.'' then False
      else if n > 2 \<and> prefixed ''-0'' s \<and> char_at s 2 \<noteq> CHR ''.'' then False
      else list_all (\<lambda>i. char_at s i \<notin> {CHR ''x'', CHR ''X'', NUL}) (rev [0..<n]))"

section \<open>Comments\<close>

fun strstr :: "string \<Rightarrow> string \<Rightarrow> nat option" where
  "strstr [] p = (if p = [] then Some 0 else None)"
| "strstr (c # s) p = (if prefixed p (c # s) then Some 0 else map_option Suc (strstr s p))"

function remove_comments_loop :: "string \<Rightarrow> string \<Rightarrow> bool \<Rightarrow> bool \<Rightarrow> string \<Rightarrow> string" where
  "remove_comments_loop st en in_string escaped s =
     (if s = [] \<or> st = [] then s
      else if hd s = CHR 0x5C \<and> \<not> escaped then
        hd s # remove_comments_loop st en in_string True (tl s)
      else if hd s = CHR 0x22 \<and> \<not> escaped then
        hd s # remove_comments_loop st en (\<not> in_string) False (tl s)
      else if \<not> in_string \<and> prefixed st s then
        (case strstr (drop (length st) s) en of
           None \<Rightarrow> replicate (length st) (CHR '' '') @ drop (length st) s
         | Some k \<Rightarrow>
             replicate (length st + k + length en) (CHR '' '') @
             remove_comments_loop st en in_string False (drop (length st + k + length en) s))
      else hd s # remove_comments_loop st en in_string False (tl s))"
  by pat_completeness auto

termination remove_comments_loop
  by (relation "measure (\<lambda>(st, en, a, b, s). length s)") auto

declare remove_comments_loop.simps [simp del]

definition remove_comments :: "string \<Rightarrow> string \<Rightarrow> string \<Rightarrow> string" where
  "remove_comments s start_token end_token =
     (if start_token = [] \<or> end_token = [] then s
      else remove_comments_loop start_token end_token False False s)"

section \<open>Strings\<close>

fun skip_quotes_loop :: "string \<Rightarrow> string option" where
  "skip_quotes_loop [] = None"
| "skip_quotes_loop (c # s) =
     (if c = CHR 0x22 then Some s
      else if c = CHR 0x5C then (case s of [] \<Rightarrow> None | d # s' \<Rightarrow> skip_quotes_loop s')
      else skip_quotes_loop s)"

definition skip_quotes :: "string \<Rightarrow> string option" where
  "skip_quotes s = (if cur s \<noteq> CHR 0x22 then None else skip_quotes_loop (tl s))"

definition byte :: "int \<Rightarrow> char" where "byte x = char_of x"

text \<open>
  The four cases of the encoding, and the surrogate pair. The text starts at the letter \<open>u\<close>;
  the result is the bytes written and the text from the last hexadecimal digit on.
\<close>

definition utf8_bytes :: "int \<Rightarrow> string" where
  "utf8_bytes cp =
     (if cp < 0x80 then [byte cp]
      else if cp < 0x800 then
        [byte (((drop_bit 6 cp) AND 0x1F) OR 0xC0), byte ((cp AND 0x3F) OR 0x80)]
      else if cp < 0x10000 then
        [byte (((drop_bit 12 cp) AND 0x0F) OR 0xE0), byte (((drop_bit 6 cp) AND 0x3F) OR 0x80),
         byte ((cp AND 0x3F) OR 0x80)]
      else
        [byte (((drop_bit 18 cp) AND 0x07) OR 0xF0), byte (((drop_bit 12 cp) AND 0x3F) OR 0x80),
         byte (((drop_bit 6 cp) AND 0x3F) OR 0x80), byte ((cp AND 0x3F) OR 0x80)])"

definition parse_utf16 :: "string \<Rightarrow> (string \<times> string) option" where
  "parse_utf16 s =
     (let p = tl s
      in case parse_utf16_hex p of
           None \<Rightarrow> None
         | Some cp \<Rightarrow>
             if cp < 0xD800 \<or> cp > 0xDFFF then Some (utf8_bytes cp, drop 3 p)
             else if cp \<ge> 0xD800 \<and> cp \<le> 0xDBFF then
               (let p = drop 4 p
                in if char_at p 0 \<noteq> CHR 0x5C \<or> char_at p 1 \<noteq> CHR ''u'' then None
                   else (case parse_utf16_hex (drop 2 p) of
                           None \<Rightarrow> None
                         | Some trail \<Rightarrow>
                             if trail < 0xDC00 \<or> trail > 0xDFFF then None
                             else Some (utf8_bytes
                                          ((push_bit 10 ((cp - 0xD800) AND 0x3FF)
                                             OR ((trail - 0xDC00) AND 0x3FF)) + 0x10000),
                                        drop 3 (drop 2 p))))
             else None)"

text \<open>
  One turn of the loop of \<open>process_string\<close>: the bytes written and the position of the last
  character read.
\<close>

definition process_char :: "string \<Rightarrow> (string \<times> string) option" where
  "process_char s =
     (let c = cur s
      in if c = CHR 0x5C then
           (let p = tl s; d = cur p
            in if d = CHR 0x22 then Some ([CHR 0x22], p)
               else if d = CHR 0x5C then Some ([CHR 0x5C], p)
               else if d = CHR ''/'' then Some (''/'', p)
               else if d = CHR ''b'' then Some ([CHR 0x08], p)
               else if d = CHR ''f'' then Some ([CHR 0x0C], p)
               else if d = CHR ''n'' then Some ([CHR 0x0A], p)
               else if d = CHR ''r'' then Some ([CHR 0x0D], p)
               else if d = CHR ''t'' then Some ([CHR 0x09], p)
               else if d = CHR ''u'' then parse_utf16 p
               else None)
         else if code c < 0x20 then None
         else Some ([c], s))"

text \<open>\<open>n\<close> is what is left of \<open>input_len\<close>.\<close>

function process_loop :: "string \<Rightarrow> nat \<Rightarrow> string option" where
  "process_loop s n =
     (if cur s = NUL \<or> n = 0 then Some []
      else (case process_char s of
              None \<Rightarrow> None
            | Some (out, p) \<Rightarrow>
                map_option ((@) out) (process_loop (tl p) (n - 1 - (length s - length p)))))"
  by pat_completeness auto

termination process_loop by (relation "measure snd") auto

declare process_loop.simps [simp del]

definition process_string :: "string \<Rightarrow> nat \<Rightarrow> mem \<Rightarrow> string option \<times> mem" where
  "process_string s input_len m =
     (case pvPortMalloc (input_len + 1) m of
        (False, m) \<Rightarrow> (None, m)
      | (True, m) \<Rightarrow>
          (case process_loop s input_len of
             None \<Rightarrow> (None, vPortFree m)
           | Some out \<Rightarrow>
               (case pvPortMalloc (length out + 1) m of
                  (False, m) \<Rightarrow> (None, vPortFree m)
                | (True, m) \<Rightarrow> (Some out, vPortFree m))))"

definition get_quoted_string :: "string \<Rightarrow> mem \<Rightarrow> string option \<times> string \<times> mem" where
  "get_quoted_string s m =
     (case skip_quotes s of
        None \<Rightarrow> (None, s, m)
      | Some rest \<Rightarrow>
          (case process_string (tl s) (length s - length rest - 2) m of (r, m) \<Rightarrow> (r, rest, m)))"

section \<open>Values\<close>

type_synonym presult = "json option \<times> string \<times> mem"

definition MAX_NESTING :: nat where "MAX_NESTING = 2048"

definition parse_string_value :: "string \<Rightarrow> mem \<Rightarrow> presult" where
  "parse_string_value s m =
     (case get_quoted_string s m of
        (None, s, m) \<Rightarrow> (None, s, m)
      | (Some str, s, m) \<Rightarrow>
          (case json_value_init_string_no_copy str m of
             (None, m) \<Rightarrow> (None, s, vPortFree m)
           | (Some v, m) \<Rightarrow> (Some v, s, m)))"

definition parse_boolean_value :: "string \<Rightarrow> mem \<Rightarrow> presult" where
  "parse_boolean_value s m =
     (if prefixed ''true'' s then (case json_value_init_boolean 1 m of (v, m) \<Rightarrow> (v, drop 4 s, m))
      else if prefixed ''false'' s then
        (case json_value_init_boolean 0 m of (v, m) \<Rightarrow> (v, drop 5 s, m))
      else (None, s, m))"

definition parse_number_value :: "string \<Rightarrow> mem \<Rightarrow> presult" where
  "parse_number_value s m =
     (case strtod s of (number, end_ptr, err) \<Rightarrow>
        if err \<or> \<not> is_decimal s (length s - length end_ptr) then (None, s, m)
        else (case json_value_init_number number m of (v, m) \<Rightarrow> (v, end_ptr, m)))"

definition parse_null_value :: "string \<Rightarrow> mem \<Rightarrow> presult" where
  "parse_null_value s m =
     (if prefixed ''null'' s then (case json_value_init_null m of (v, m) \<Rightarrow> (v, drop 4 s, m))
      else (None, s, m))"

definition free_object :: "jobject \<Rightarrow> mem \<Rightarrow> mem" where
  "free_object ob m = json_value_free (JObject (fst ob) (snd ob)) m"

definition free_array :: "jarray \<Rightarrow> mem \<Rightarrow> mem" where
  "free_array ar m = json_value_free (JArray (fst ar) (snd ar)) m"

text \<open>The loop over the members; \<open>pv\<close> parses a value one level deeper.\<close>

fun parse_members ::
    "(string \<Rightarrow> mem \<Rightarrow> presult option) \<Rightarrow> nat \<Rightarrow> jobject \<Rightarrow> string \<Rightarrow> mem
     \<Rightarrow> (jobject option \<times> string \<times> mem) option" where
  "parse_members pv 0 ob s m = None"
| "parse_members pv (Suc fuel) ob s m =
     (if cur s = NUL then Some (Some ob, s, m)
      else (case get_quoted_string s m of
              (None, s, m) \<Rightarrow> Some (None, s, free_object ob m)
            | (Some key, s, m) \<Rightarrow>
                if length key \<noteq> length (c_str key) then Some (None, s, free_object ob m)
                else
                  (let s = SKIP_WHITESPACES s
                   in if cur s \<noteq> CHR '':'' then Some (None, s, free_object ob (vPortFree m))
                      else Option.bind (pv (tl s) m) (\<lambda>(v, s, m).
                        case v of
                          None \<Rightarrow> Some (None, s, free_object ob (vPortFree m))
                        | Some w \<Rightarrow>
                            (case json_object_add ob key (Some w) m of
                               (JSONFailure, ob, m) \<Rightarrow>
                                 Some (None, s, free_object ob (json_value_free w (vPortFree m)))
                             | (JSONSuccess, ob, m) \<Rightarrow>
                                 (let m = vPortFree m; s = SKIP_WHITESPACES s
                                  in if cur s \<noteq> CHR '','' then Some (Some ob, s, m)
                                     else parse_members pv fuel ob (SKIP_WHITESPACES (tl s)) m))))))"

definition parse_object_value ::
    "(string \<Rightarrow> mem \<Rightarrow> presult option) \<Rightarrow> string \<Rightarrow> mem \<Rightarrow> presult option" where
  "parse_object_value pv s m =
     (case json_value_init_object m of
        (None, m) \<Rightarrow> Some (None, s, m)
      | (Some v, m) \<Rightarrow>
          if cur s \<noteq> CHR ''{'' then Some (None, s, json_value_free v m)
          else
            (let s = SKIP_WHITESPACES (tl s)
             in if cur s = CHR ''}'' then Some (Some v, tl s, m)
                else Option.bind (parse_members pv (Suc (length s)) ([], 0) s m) (\<lambda>(r, s, m).
                  case r of
                    None \<Rightarrow> Some (None, s, m)
                  | Some ob \<Rightarrow>
                      (let s = SKIP_WHITESPACES s
                       in if cur s \<noteq> CHR ''}'' then Some (None, s, free_object ob m)
                          else (case json_object_resize ob (length (fst ob)) m of
                                  (JSONFailure, ob, m) \<Rightarrow> Some (None, s, free_object ob m)
                                | (JSONSuccess, ob, m) \<Rightarrow>
                                    Some (Some (JObject (fst ob) (snd ob)), tl s, m))))))"

fun parse_items ::
    "(string \<Rightarrow> mem \<Rightarrow> presult option) \<Rightarrow> nat \<Rightarrow> jarray \<Rightarrow> string \<Rightarrow> mem
     \<Rightarrow> (jarray option \<times> string \<times> mem) option" where
  "parse_items pv 0 ar s m = None"
| "parse_items pv (Suc fuel) ar s m =
     (if cur s = NUL then Some (Some ar, s, m)
      else Option.bind (pv s m) (\<lambda>(v, s, m).
        case v of
          None \<Rightarrow> Some (None, s, free_array ar m)
        | Some w \<Rightarrow>
            (case json_array_add ar w m of
               (JSONFailure, ar, m) \<Rightarrow> Some (None, s, free_array ar (json_value_free w m))
             | (JSONSuccess, ar, m) \<Rightarrow>
                 (let s = SKIP_WHITESPACES s
                  in if cur s \<noteq> CHR '','' then Some (Some ar, s, m)
                     else parse_items pv fuel ar (SKIP_WHITESPACES (tl s)) m))))"

definition parse_array_value ::
    "(string \<Rightarrow> mem \<Rightarrow> presult option) \<Rightarrow> string \<Rightarrow> mem \<Rightarrow> presult option" where
  "parse_array_value pv s m =
     (case json_value_init_array m of
        (None, m) \<Rightarrow> Some (None, s, m)
      | (Some v, m) \<Rightarrow>
          if cur s \<noteq> CHR ''['' then Some (None, s, json_value_free v m)
          else
            (let s = SKIP_WHITESPACES (tl s)
             in if cur s = CHR '']'' then Some (Some v, tl s, m)
                else Option.bind (parse_items pv (Suc (length s)) ([], 0) s m) (\<lambda>(r, s, m).
                  case r of
                    None \<Rightarrow> Some (None, s, m)
                  | Some ar \<Rightarrow>
                      (let s = SKIP_WHITESPACES s
                       in if cur s \<noteq> CHR '']'' then Some (None, s, free_array ar m)
                          else (case json_array_resize ar (length (fst ar)) m of
                                  (JSONFailure, ar, m) \<Rightarrow> Some (None, s, free_array ar m)
                                | (JSONSuccess, ar, m) \<Rightarrow>
                                    Some (Some (JArray (fst ar) (snd ar)), tl s, m))))))"

text \<open>The first argument is \<open>MAX_NESTING + 1 - nesting\<close>.\<close>

fun parse_value :: "nat \<Rightarrow> string \<Rightarrow> mem \<Rightarrow> presult option" where
  "parse_value 0 s m = Some (None, s, m)"
| "parse_value (Suc d) s m =
     (let s = SKIP_WHITESPACES s; c = cur s
      in if c = CHR ''{'' then parse_object_value (parse_value d) s m
         else if c = CHR ''['' then parse_array_value (parse_value d) s m
         else if c = CHR 0x22 then Some (parse_string_value s m)
         else if c = CHR ''f'' \<or> c = CHR ''t'' then Some (parse_boolean_value s m)
         else if c = CHR ''-'' \<or> isdigit c then Some (parse_number_value s m)
         else if c = CHR ''n'' then Some (parse_null_value s m)
         else Some (None, s, m))"

text \<open>The entry points read a C string from a buffer, up to its first zero.\<close>

definition json_parse_string :: "string option \<Rightarrow> mem \<Rightarrow> (json option \<times> mem) option" where
  "json_parse_string buf m =
     (case buf of
        None \<Rightarrow> Some (None, m)
      | Some b \<Rightarrow>
          (let s = c_str b;
               s = (if char_at s 0 = CHR 0xEF \<and> char_at s 1 = CHR 0xBB \<and> char_at s 2 = CHR 0xBF
                    then drop 3 s else s)
           in map_option (\<lambda>(v, s, m). (v, m)) (parse_value (MAX_NESTING + 1) s m)))"

definition json_parse_string_with_comments :: "string \<Rightarrow> mem \<Rightarrow> (json option \<times> mem) option" where
  "json_parse_string_with_comments b m =
     (case parson_strdup (c_str b) m of
        (None, m) \<Rightarrow> Some (None, m)
      | (Some s, m) \<Rightarrow>
          (let s = remove_comments s ''/*'' ''*/'';
               s = remove_comments s ''//'' [CHR 0x0A]
           in map_option (\<lambda>(v, s, m). (v, vPortFree m)) (parse_value (MAX_NESTING + 1) s m)))"

end
