(* ===== verification/CDoubleFacts.thy ===== *)
theory CDoubleFacts imports Complex_Main CDouble begin

text \<open>
  What the conversions of \<open>CDouble\<close> do, measured on the real numbers: the logarithm and the
  scaling are the mathematical ones, every rounded number is a number of the format, and the
  text of a number has at most 24 characters.
\<close>

section \<open>The logarithm\<close>

lemma div_bounds: "0 < d \<Longrightarrow> n div d * d \<le> n" "0 < d \<Longrightarrow> n < (n div d + 1) * d" for n d :: int
proof -
  assume "0 < d"
  with pos_mod_sign [of d n] pos_mod_bound [of d n]
  have "0 \<le> n - n div d * d" "n - n div d * d < d" by (simp_all only: minus_div_mult_eq_mod)
  then show "n div d * d \<le> n" "n < (n div d + 1) * d" by (simp_all add: distrib_right)
qed

lemma ilog_nonneg: "0 \<le> ilog b x"
proof (induction b x rule: ilog.induct)
  case (1 b x)
  then show ?case by (subst ilog.simps) simp
qed

lemma ilog_upper: "1 < b \<Longrightarrow> x < b ^ nat (ilog b x + 1)"
proof (induction b x rule: ilog.induct)
  case (1 b x)
  show ?case
  proof (cases "x < b")
    case True
    with 1 show ?thesis by (simp add: ilog.simps [of b x])
  next
    case False
    have "x div b < b ^ nat (ilog b (x div b) + 1)" using 1 False by simp
    then have "x div b + 1 \<le> b ^ nat (ilog b (x div b) + 1)" by simp
    then have "b * (x div b + 1) \<le> b * b ^ nat (ilog b (x div b) + 1)"
      using \<open>1 < b\<close> by (intro mult_left_mono) simp_all
    moreover have "x < b * (x div b + 1)"
      using \<open>1 < b\<close> div_bounds(2) [of b x] by (simp add: mult.commute)
    moreover have "nat (ilog b x + 1) = Suc (nat (ilog b (x div b) + 1))"
      using False \<open>1 < b\<close> ilog_nonneg [of b "x div b"] by (simp add: ilog.simps [of b x])
    ultimately show ?thesis by simp
  qed
qed

lemma ilog_lower: "1 < b \<Longrightarrow> 0 < x \<Longrightarrow> b ^ nat (ilog b x) \<le> x"
proof (induction b x rule: ilog.induct)
  case (1 b x)
  show ?case
  proof (cases "x < b")
    case True
    with 1 show ?thesis by (simp add: ilog.simps [of b x])
  next
    case False
    then have "0 < x div b" using \<open>1 < b\<close> by (simp add: pos_imp_zdiv_pos_iff)
    then have "b ^ nat (ilog b (x div b)) \<le> x div b" using 1 False by simp
    then have "b * b ^ nat (ilog b (x div b)) \<le> b * (x div b)"
      using \<open>1 < b\<close> by (intro mult_left_mono) simp_all
    also have "\<dots> \<le> x"
      using div_bounds(1) [of b x] \<open>1 < b\<close> by (simp add: mult.commute)
    finally have "b ^ Suc (nat (ilog b (x div b))) \<le> x" by simp
    moreover have "nat (ilog b x) = Suc (nat (ilog b (x div b)))"
      using False \<open>1 < b\<close> ilog_nonneg [of b "x div b"] by (simp add: ilog.simps [of b x])
    ultimately show ?thesis by simp
  qed
qed

lemma powi_nat: "0 \<le> k \<Longrightarrow> (x :: real) powi k = x ^ nat k"
  by (simp add: power_int_def)

lemma powi_neg: "k \<le> 0 \<Longrightarrow> (x :: real) powi k = 1 / x ^ nat (- k)"
  by (cases "k = 0") (auto simp: power_int_def inverse_eq_divide power_divide)

lemma log_frac_real:
  assumes "1 < b" "0 < n" "0 < d"
  shows "real_of_int b powi (log_frac b n d) \<le> real_of_int n / real_of_int d \<and>
    real_of_int n / real_of_int d < real_of_int b powi (log_frac b n d + 1)"
proof (cases "d \<le> n")
  case True
  let ?q = "n div d" and ?x = "ilog b (n div d)"
  have q: "0 < ?q" using True assms by (simp add: pos_imp_zdiv_pos_iff)
  have "b ^ nat ?x * d \<le> ?q * d" using ilog_lower [OF assms(1) q] assms(3) by simp
  also have "\<dots> \<le> n" by (rule div_bounds(1) [OF assms(3)])
  finally have "real_of_int (b ^ nat ?x * d) \<le> real_of_int n" by (simp only: of_int_le_iff)
  then have lo: "real_of_int b ^ nat ?x * real_of_int d \<le> real_of_int n" by simp
  have "?q + 1 \<le> b ^ nat (?x + 1)" using ilog_upper [OF assms(1), of ?q] by simp
  then have "(?q + 1) * d \<le> b ^ nat (?x + 1) * d" using assms(3) by simp
  moreover have "n < (?q + 1) * d"
    by (rule div_bounds(2) [OF assms(3)])
  ultimately have "real_of_int n < real_of_int (b ^ nat (?x + 1) * d)" by linarith
  then have hi: "real_of_int n < real_of_int b ^ nat (?x + 1) * real_of_int d" by simp
  from True lo hi assms show ?thesis
    by (simp add: log_frac_def powi_nat ilog_nonneg field_simps)
next
  case False
  let ?q = "(d - 1) div n" let ?x = "ilog b ?q"
  have q: "0 < ?q" using False assms by (simp add: pos_imp_zdiv_pos_iff)
  have "b ^ nat ?x * n \<le> ?q * n" using ilog_lower [OF assms(1) q] assms(2) by simp
  also have "\<dots> \<le> d - 1" by (rule div_bounds(1) [OF assms(2)])
  finally have "real_of_int (b ^ nat ?x * n) < real_of_int d" by linarith
  then have hi: "real_of_int b ^ nat ?x * real_of_int n < real_of_int d" by simp
  have "?q + 1 \<le> b ^ nat (?x + 1)" using ilog_upper [OF assms(1), of ?q] by simp
  then have "(?q + 1) * n \<le> b ^ nat (?x + 1) * n" using assms(2) by simp
  moreover have "d - 1 < (?q + 1) * n"
    by (rule div_bounds(2) [OF assms(2)])
  ultimately have "real_of_int d \<le> real_of_int (b ^ nat (?x + 1) * n)" by linarith
  then have lo: "real_of_int d \<le> real_of_int b ^ nat (?x + 1) * real_of_int n" by simp
  define P where "P = real_of_int b ^ nat (?x + 1)"
  define Q where "Q = real_of_int b ^ nat ?x"
  have l: "log_frac b n d = - (?x + 1)" using False by (simp add: log_frac_def)
  then have l1: "log_frac b n d + 1 = - ?x" by simp
  have "real_of_int b powi (log_frac b n d) = 1 / P" "real_of_int b powi (log_frac b n d + 1) = 1 / Q"
    unfolding l1 unfolding l using ilog_nonneg [of b ?q]
    by (simp_all add: powi_neg P_def Q_def add.commute)
  moreover have PQ: "0 < P" "0 < Q" using assms(1) by (simp_all add: P_def Q_def)
  moreover have "1 / P \<le> real_of_int n / real_of_int d" "real_of_int n / real_of_int d < 1 / Q"
    using lo hi assms PQ unfolding P_def [symmetric] Q_def [symmetric] by (simp_all add: field_simps)
  ultimately show ?thesis by simp
qed

section \<open>Rounding\<close>

definition rnd :: "real \<Rightarrow> int" where
  "rnd r = (if r - of_int \<lfloor>r\<rfloor> < 1 / 2 \<or> (r - of_int \<lfloor>r\<rfloor> = 1 / 2 \<and> even \<lfloor>r\<rfloor>) then \<lfloor>r\<rfloor> else \<lfloor>r\<rfloor> + 1)"

lemma rne_real:
  assumes "0 < d"
  shows "rne n d = rnd (real_of_int n / real_of_int d)"
proof -
  have fl: "\<lfloor>real_of_int n / real_of_int d\<rfloor> = n div d" by (simp add: floor_divide_of_int_eq)
  have "real_of_int n = real_of_int d * real_of_int (n div d) + real_of_int (n mod d)"
    using mult_div_mod_eq [of d n] by (metis of_int_add of_int_mult)
  then have fr: "real_of_int n / real_of_int d - real_of_int (n div d) = real_of_int (n mod d) / real_of_int d"
    using assms by (simp add: field_simps)
  have "real_of_int (n mod d) / real_of_int d < 1 / 2 \<longleftrightarrow> real_of_int (2 * (n mod d)) < real_of_int d"
    using assms by (simp add: field_simps)
  moreover have "real_of_int (n mod d) / real_of_int d = 1 / 2 \<longleftrightarrow> real_of_int (2 * (n mod d)) = real_of_int d"
    using assms by (auto simp add: field_simps)
  ultimately show ?thesis
    unfolding rne_def rnd_def Let_def fl fr by (simp only: of_int_less_iff of_int_eq_iff)
qed

lemma rnd_near: "\<bar>r - of_int (rnd r)\<bar> \<le> 1 / 2"
  using floor_correct [of r] by (auto simp add: rnd_def abs_le_iff field_simps)

lemma rnd_le: "r \<le> of_int n \<Longrightarrow> rnd r \<le> n"
proof -
  assume r: "r \<le> of_int n"
  then have "\<lfloor>r\<rfloor> \<le> n" using floor_mono [of r "of_int n"] by simp
  moreover have "\<lfloor>r\<rfloor> = n \<Longrightarrow> r = of_int n" using r by linarith
  ultimately show ?thesis by (cases "\<lfloor>r\<rfloor> = n") (auto simp: rnd_def)
qed

lemma rnd_ge: "of_int n \<le> r \<Longrightarrow> n \<le> rnd r"
  using le_floor_iff [of n r] by (auto simp: rnd_def)

lemma rnd_unique: "\<bar>r - of_int n\<bar> < 1 / 2 \<Longrightarrow> rnd r = n"
  using rnd_near [of r] by linarith

lemma scale_real:
  assumes "0 < b" "0 < d"
  shows "scale b n d k = rnd (real_of_int n / real_of_int d * real_of_int b powi k)"
proof (cases "0 \<le> k")
  case True
  with assms show ?thesis by (simp add: scale_def rne_real powi_nat)
next
  case False
  then have "real_of_int b powi k = 1 / real_of_int b ^ nat (- k)" by (simp add: powi_neg)
  with False assms show ?thesis by (simp add: scale_def rne_real)
qed

section \<open>Numbers of the format\<close>

definition dbl_ok :: "dbl \<Rightarrow> bool" where
  "dbl_ok x =
     (case x of
        Fin s m e \<Rightarrow> (m = 0 \<and> e = 0) \<or>
          (0 < m \<and> m < 9007199254740992 \<and> - 1074 \<le> e \<and> e \<le> 971 \<and> (4503599627370496 \<le> m \<or> e = - 1074))
      | _ \<Rightarrow> False)"

lemma dbl_ok_valid: "dbl_ok x \<Longrightarrow> \<not> IS_NUMBER_INVALID x"
  by (auto simp: dbl_ok_def IS_NUMBER_INVALID_def split: dbl.splits)

lemma powi_2_53: "(2 :: real) powi 53 = 9007199254740992" "(2 :: real) powi 52 = 4503599627370496"
  by simp_all

lemma dbl_round_ok:
  assumes "0 \<le> n" "0 < d" "dbl_round s n d = x" "\<not> IS_NUMBER_INVALID x"
  shows "dbl_ok x"
proof (cases "n = 0")
  case True
  with assms show ?thesis by (auto simp: dbl_round_def dbl_ok_def)
next
  case False
  with assms have n: "0 < n" by simp
  define l where "l = log_frac 2 n d"
  define e where "e = max (l - 52) (- 1074)"
  define q where "q = scale 2 n d (- e)"
  define r where "r = real_of_int n / real_of_int d"
  have q: "q = rnd (r * 2 powi (- e))" using scale_real [of 2 d n "- e"] assms(2) by (simp add: q_def r_def)
  have l: "2 powi l \<le> r" "r < 2 powi (l + 1)"
    using log_frac_real [of 2 n d] n assms(2) by (simp_all add: l_def r_def)
  have r0: "0 < r" using n assms(2) by (simp add: r_def)
  have "r * 2 powi (- e) \<le> 2 powi (l + 1) * 2 powi (- e)"
    using l by (intro mult_right_mono) simp_all
  also have "\<dots> = 2 powi (l + 1 - e)" by (simp add: power_int_add [symmetric])
  also have "\<dots> \<le> 2 powi 53" by (rule power_int_increasing) (simp_all add: e_def)
  finally have hi: "q \<le> 9007199254740992" unfolding q by (intro rnd_le) simp
  have lo: "4503599627370496 \<le> q" if "e = l - 52"
  proof -
    have "2 powi (52 :: int) = (2 :: real) powi l * 2 powi (- e)"
      using that by (simp add: power_int_add [symmetric])
    also have "\<dots> \<le> r * 2 powi (- e)" using l by (intro mult_right_mono) simp_all
    finally show ?thesis unfolding q by (intro rnd_ge) simp
  qed
  have q0: "0 \<le> q" unfolding q by (rule rnd_ge) (use r0 in simp)
  have sub: "4503599627370496 \<le> q \<or> e = - 1074" using lo by (auto simp: e_def max_def)
  have e: "- 1074 \<le> e" by (simp add: e_def)
  have "dbl_round s n d = (if q = 0 then Fin s 0 0 else
      (case (if q = 9007199254740992 then (4503599627370496, e + 1) else (q, e)) of
         (m, e) \<Rightarrow> if e > 971 then Inf s else Fin s m e))"
    using False by (simp add: dbl_round_def Let_def q_def e_def l_def)
  with assms(3,4) hi q0 sub e show ?thesis
    by (auto simp add: dbl_ok_def IS_NUMBER_INVALID_def simp flip: assms(3) split: if_splits)
qed

lemma dbl_of_int_ok: "\<not> IS_NUMBER_INVALID (dbl_of_int x) \<Longrightarrow> dbl_ok (dbl_of_int x)"
  unfolding dbl_of_int_def by (rule dbl_round_ok [OF _ _ refl]) simp_all


lemma digits_val_nonneg: "list_all (\<lambda>d. 0 \<le> d) ds \<Longrightarrow> 0 \<le> b \<Longrightarrow> 0 \<le> a \<Longrightarrow> 0 \<le> digits_val b a ds"
  by (induction ds arbitrary: a) auto

lemma dbl_value_ok:
  assumes "dbl_value s D b k = (x, err)" "0 \<le> D" "0 < b" "\<not> err"
  shows "dbl_ok x"
proof (cases "D = 0")
  case True
  with assms show ?thesis by (auto simp: dbl_value_def dbl_ok_def)
next
  case False
  define n d where "n = (if 0 \<le> k then D * b ^ nat k else D)" and "d = (if 0 \<le> k then 1 else b ^ nat (- k))"
  have x: "x = dbl_round s n d" "\<not> IS_NUMBER_INVALID x"
    using assms(1,4) False by (auto simp: dbl_value_def Let_def n_def d_def IS_NUMBER_INVALID_def split: dbl.splits)
  have "0 \<le> n" "0 < d" using assms(2,3) by (auto simp: n_def d_def)
  then show ?thesis using dbl_round_ok x by blast
qed

lemma isdigit_nonneg: "isdigit c \<Longrightarrow> 0 \<le> digit_val c"
  by (simp add: isdigit_def digit_val_def)

lemma hex_val_nonneg: "hex_val c = Some v \<Longrightarrow> 0 \<le> v"
  by (auto simp: hex_val_def Let_def split: if_splits)

lemma take_mantissa_digits:
  "take_mantissa dig s = (ds, n, r) \<Longrightarrow> \<forall>c \<in> set ds. dig c"
  by (auto simp: take_mantissa_def Let_def dest: set_takeWhileD split: if_splits)

lemma strtod_ok:
  assumes "strtod s = (x, r, err)" "\<not> err" "\<not> IS_NUMBER_INVALID x"
  shows "dbl_ok x"
proof -
  obtain neg s1 where sg: "take_sign (SKIP_WHITESPACES s) = (neg, s1)" by fastforce
  obtain hs hn hr where hx: "take_mantissa is_hex (drop 2 s1) = (hs, hn, hr)"
    by (cases "take_mantissa is_hex (drop 2 s1)")
  obtain ds dn dr where dc: "take_mantissa isdigit s1 = (ds, dn, dr)" by (cases "take_mantissa isdigit s1")
  have H: "0 \<le> digits_val 16 0 (List.map_filter hex_val hs)"
    by (rule digits_val_nonneg)
      (auto simp: list_all_iff List.map_filter_def hex_val_nonneg)
  have D: "0 \<le> digits_val 10 0 (map digit_val ds)"
    by (rule digits_val_nonneg)
      (use take_mantissa_digits [OF dc] in \<open>auto simp: list_all_iff isdigit_nonneg\<close>)
  have z: "dbl_ok (Fin False 0 0)" by (simp add: dbl_ok_def)
  from assms sg hx dc show ?thesis
    by (auto simp: strtod_def IS_NUMBER_INVALID_def intro: z dest: dbl_value_ok [OF _ H] dbl_value_ok [OF _ D]
        split: if_splits prod.splits)
qed

section \<open>The text of a number\<close>

lemma show_digits_small: "x < 10 \<Longrightarrow> show_digits x = [digit_char x]"
  by (simp add: show_digits.simps)

lemma show_digits_length: "x < 10 ^ Suc k \<Longrightarrow> length (show_digits x) \<le> Suc k"
proof (induction k arbitrary: x)
  case 0
  then show ?case by (simp add: show_digits_small)
next
  case (Suc k)
  show ?case
  proof (cases "x < 10")
    case True
    then show ?thesis by (simp add: show_digits_small)
  next
    case False
    have "x div 10 < 10 ^ Suc k" using Suc.prems by (simp add: div_less_iff_less_mult)
    from Suc.IH [OF this] False show ?thesis by (simp add: show_digits.simps [of x])
  qed
qed

lemma strip_zeros_length: "length (strip_zeros s) \<le> length s"
  using length_dropWhile_le [of _ "rev s"] by (simp add: strip_zeros_def)

lemma point_length: "length (point s) \<le> Suc (length s)" "s = [] \<Longrightarrow> point s = []"
  by (simp_all add: point_def)

lemma fmt_digits_length:
  assumes "q < 10 ^ 17" "\<bar>x\<bar> < 1000"
  shows "length (fmt_digits q x) \<le> 23"
proof -
  have ds: "length (show_digits q) \<le> 17" using show_digits_length [of q 16] assms(1) by simp
  have sx: "length (show_exponent x) \<le> 5"
    using show_digits_length [of "\<bar>x\<bar>" 2] assms(2)
    by (auto simp: show_exponent_def show_digits_small)
  have frac: "length (point (strip_zeros (drop k (show_digits q)))) \<le> Suc (17 - k)"
    if "k \<le> 17" for k
    using point_length(1) [of "strip_zeros (drop k (show_digits q))"]
      strip_zeros_length [of "drop k (show_digits q)"] ds by simp
  show ?thesis
  proof (cases "x < - 4 \<or> 17 \<le> x")
    case True
    with frac [of 1] sx show ?thesis by (simp add: fmt_digits_def Let_def)
  next
    case False
    then have "nat x + 1 \<le> 17" by auto
    from frac [OF this] False ds strip_zeros_length [of "show_digits q"] show ?thesis
      by (auto simp: fmt_digits_def Let_def)
  qed
qed

lemma dbl_frac_real:
  "0 < m \<Longrightarrow> dbl_frac m e = (n, d) \<Longrightarrow> 0 < n \<and> 0 < d \<and> real_of_int n / real_of_int d = of_int m * 2 powi e"
  by (auto simp: dbl_frac_def powi_nat powi_neg split: if_splits)

lemma sig17_bounds:
  assumes "sig17 n d = (q, x)" "0 < n" "0 < d"
    and "10 powi (- K) \<le> real_of_int n / real_of_int d" "real_of_int n / real_of_int d < 10 powi K"
  shows "10 ^ 16 \<le> q \<and> q < 10 ^ 17 \<and> \<bar>x\<bar> \<le> K + 2"
proof -
  define r where "r = real_of_int n / real_of_int d"
  define l where "l = log_frac 10 n d"
  have l: "10 powi l \<le> r" "r < 10 powi (l + 1)"
    using log_frac_real [of 10 n d] assms(2,3) by (simp_all add: l_def r_def)
  have "(10 :: real) powi l < 10 powi K" "(10 :: real) powi (- K) < 10 powi (l + 1)"
    using l assms(4,5) unfolding r_def by linarith+
  then have lb: "l < K" "- K - 1 < l"
    using power_int_increasing [of K l "10 :: real"] power_int_increasing [of "l + 1" "- K" "10 :: real"]
    by linarith+
  let ?q = "scale 10 n d (16 - l)"
  have q: "?q = rnd (r * 10 powi (16 - l))" using scale_real [of 10 d n] assms(3) by (simp add: r_def)
  have "r * 10 powi (16 - l) \<le> 10 powi (l + 1) * 10 powi (16 - l)"
    using l by (intro mult_right_mono) simp_all
  also have "\<dots> = 10 powi 17" by (simp add: power_int_add [symmetric])
  finally have hi: "?q \<le> 100000000000000000" unfolding q by (intro rnd_le) simp
  have "10 powi (16 :: int) = (10 :: real) powi l * 10 powi (16 - l)"
    by (simp add: power_int_add [symmetric])
  also have "\<dots> \<le> r * 10 powi (16 - l)" using l by (intro mult_right_mono) simp_all
  finally have lo: "10000000000000000 \<le> ?q" unfolding q by (intro rnd_ge) simp
  from assms(1) hi lo lb show ?thesis by (auto simp: sig17_def Let_def l_def split: if_splits)
qed

lemma two_ten:
  "K = 500 \<Longrightarrow> (10 :: real) powi (- K) \<le> 2 powi (- 1074)"
  "K = 500 \<Longrightarrow> (9007199254740992 :: real) * 2 powi 971 < 10 powi K"
proof -
  have eight: "(2 :: real) ^ (3 * k) \<le> 10 ^ k" for k
    unfolding power_mult by (rule power_mono) simp_all
  have 1074: "(1074 :: nat) = 3 * 358" and 1024: "(53 :: nat) + 971 \<le> 3 * 358" by simp_all
  have up: "(10 :: real) ^ 358 < 10 ^ 500" by (rule power_strict_increasing) simp_all
  have "(2 :: real) ^ 1074 \<le> 10 ^ 358" unfolding 1074 by (rule eight)
  then have "(2 :: real) ^ 1074 \<le> 10 ^ 500" by (rule order_trans [OF _ less_imp_le [OF up]])
  then have "inverse ((10 :: real) ^ 500) \<le> inverse (2 ^ 1074)"
    by (rule le_imp_inverse_le) (rule zero_less_power, simp)
  then show "K = 500 \<Longrightarrow> (10 :: real) powi (- K) \<le> 2 powi (- 1074)"
    by (simp only: power_int_minus power_int_numeral)
  have "(2 :: real) ^ (53 + 971) \<le> 2 ^ (3 * 358)" using 1024 by (rule power_increasing) simp
  also have "\<dots> \<le> 10 ^ 358" by (rule eight)
  also note up
  finally have "(2 :: real) ^ 53 * 2 ^ 971 < 10 ^ 500" by (simp only: power_add)
  moreover have "(2 :: real) ^ 53 = 9007199254740992" by simp
  ultimately show "K = 500 \<Longrightarrow> (9007199254740992 :: real) * 2 powi 971 < 10 powi K"
    by (simp only: power_int_numeral)
qed

lemma sprintf_17g_length:
  assumes "dbl_ok x"
  shows "length (sprintf_17g x) \<le> 24"
proof -
  obtain s m e where x: "x = Fin s m e" using assms by (cases x) (auto simp: dbl_ok_def)
  show ?thesis
  proof (cases "m = 0")
    case True
    with x show ?thesis by (simp add: sprintf_17g_def)
  next
    case False
    with assms x have m: "0 < m" "m < 9007199254740992" "- 1074 \<le> e" "e \<le> 971"
      by (auto simp: dbl_ok_def)
    obtain n d where nd: "dbl_frac m e = (n, d)" by fastforce
    obtain K :: int where K: "K = 500" by simp
    note r = dbl_frac_real [OF m(1) nd]
    obtain q y where qy: "sig17 n d = (q, y)" by fastforce
    have "(10 :: real) powi (- K) \<le> 2 powi (- 1074)" by (rule two_ten [OF K])
    also have "\<dots> \<le> 2 powi e" by (rule power_int_increasing) (use m in simp_all)
    also have "\<dots> \<le> of_int m * 2 powi e" using m(1) by simp
    finally have lo: "10 powi (- K) \<le> real_of_int n / real_of_int d" using r by simp
    have "of_int m * 2 powi e \<le> (9007199254740992 :: real) * 2 powi 971"
      using m power_int_increasing [of e 971 "2 :: real"] by (intro mult_mono) simp_all
    also have "\<dots> < 10 powi K" by (rule two_ten [OF K])
    finally have hi: "real_of_int n / real_of_int d < 10 powi K" using r by simp
    have "q < 10 ^ 17 \<and> \<bar>y\<bar> \<le> K + 2" using sig17_bounds [OF qy _ _ lo hi] r by simp
    then have "length (fmt_digits q y) \<le> 23" using K fmt_digits_length [of q y] by simp
    with x False nd qy show ?thesis by (simp add: sprintf_17g_def)
  qed
qed

end
