(* ===== verification/JsonParseLemmas.thy ===== *)
theory JsonParseLemmas imports JsonParse CDoubleFacts begin

text \<open>
  What the parser guarantees: it always ends, it only moves forward, the values it yields are
  well formed and not nested deeper than the limit, and it accounts for every block of the heap
  whatever the allocator refuses.
\<close>

section \<open>Positions\<close>

lemma length_tl_le: "length (tl s) \<le> length s"
  by simp

lemma length_skip: "length (SKIP_WHITESPACES s) \<le> length s"
  by (simp add: SKIP_WHITESPACES_def length_dropWhile_le)

lemma length_skip_le [simp]: "length s \<le> n \<Longrightarrow> length (SKIP_WHITESPACES s) \<le> n"
  using length_skip le_trans by blast

lemma cur_nonempty: "cur s = c \<Longrightarrow> c \<noteq> NUL \<Longrightarrow> s \<noteq> []"
  by (auto simp: cur_def)

lemma take_sign_length: "take_sign s = (neg, r) \<Longrightarrow> length r \<le> length s"
  by (auto simp: take_sign_def split: if_splits)

lemma take_mantissa_length: "take_mantissa dig s = (ds, n, r) \<Longrightarrow> length r \<le> length s"
  using length_dropWhile_le [of dig s] length_dropWhile_le [of dig "tl (dropWhile dig s)"]
  by (auto simp: take_mantissa_def Let_def split: if_splits)

lemma take_exponent_length: "take_exponent letters s = (x, r) \<Longrightarrow> length r \<le> length s"
  using length_dropWhile_le [of isdigit]
  by (auto simp: take_exponent_def split: if_splits prod.splits dest!: take_sign_length)
    (meson diff_le_self le_trans)

lemma nan_tail_length: "length (nan_tail s) \<le> length s"
proof -
  have "length (tl (dropWhile P (tl s))) \<le> length s" for P
    using length_dropWhile_le [of P "tl s"] by simp
  then show ?thesis by (simp add: nan_tail_def Let_def)
qed

lemma strtod_length: "strtod s = (x, r, e) \<Longrightarrow> length r \<le> length s"
proof -
  assume *: "strtod s = (x, r, e)"
  obtain neg s1 where sg: "take_sign (SKIP_WHITESPACES s) = (neg, s1)" by fastforce
  have s1: "length s1 \<le> length s"
    using take_sign_length [OF sg] length_skip [of s] by linarith
  have nan: "length (nan_tail (drop 3 s1)) \<le> length s1"
    using nan_tail_length [of "drop 3 s1"] by simp
  obtain ds nf r1 where hx: "take_mantissa is_hex (drop 2 s1) = (ds, nf, r1)" by (cases "take_mantissa is_hex (drop 2 s1)")
  obtain ex r2 where he: "take_exponent {CHR ''p'', CHR ''P''} r1 = (ex, r2)" by fastforce
  have hex: "length r2 \<le> length s1"
    using take_mantissa_length [OF hx] take_exponent_length [OF he] by simp
  obtain ds' nf' r3 where dc: "take_mantissa isdigit s1 = (ds', nf', r3)" by (cases "take_mantissa isdigit s1")
  obtain ex' r4 where de: "take_exponent {CHR ''e'', CHR ''E''} r3 = (ex', r4)" by fastforce
  have dec: "length r4 \<le> length s1"
    using take_mantissa_length [OF dc] take_exponent_length [OF de] by simp
  from * s1 nan hex dec show ?thesis
    by (auto simp: strtod_def sg hx he dc de split: if_splits prod.splits)
qed

lemma skip_quotes_loop_length: "skip_quotes_loop s = Some r \<Longrightarrow> length r < length s"
proof (induction s rule: skip_quotes_loop.induct)
  case (2 c s)
  then show ?case by (fastforce split: if_splits list.splits)
qed simp

lemma skip_quotes_length: "skip_quotes s = Some r \<Longrightarrow> length r < length s"
  using skip_quotes_loop_length [of "tl s" r] by (auto simp: skip_quotes_def split: if_splits)

section \<open>Strings\<close>

lemma process_string_effect:
  "process_string s n m = (r, m') \<Longrightarrow> live m' = live m + (case r of None \<Rightarrow> 0 | Some _ \<Rightarrow> 1) \<and>
     (\<forall>out. r = Some out \<longrightarrow> process_loop s n = Some out)"
  by (auto simp: process_string_def pvPortMalloc_def split: if_splits option.splits)

lemma get_quoted_string_effect:
  assumes "get_quoted_string s m = (r, rest, m')"
  shows "live m' = live m + (case r of None \<Rightarrow> 0 | Some _ \<Rightarrow> 1) \<and> length rest \<le> length s \<and>
    (r \<noteq> None \<longrightarrow> length rest < length s)"
proof (cases "skip_quotes s")
  case None
  with assms show ?thesis by (auto simp: get_quoted_string_def)
next
  case (Some q)
  obtain r1 m1 where "process_string (tl s) (length s - length q - 2) m = (r1, m1)" by fastforce
  with assms Some skip_quotes_length [OF Some] process_string_effect [OF this] show ?thesis
    by (auto simp: get_quoted_string_def)
qed

text \<open>The bytes written for an escape never outnumber the characters read.\<close>

lemma length_utf8_bytes: "length (utf8_bytes cp) \<le> (if cp < 0x80 then 1 else if cp < 0x800 then 2 else if cp < 0x10000 then 3 else 4)"
  by (simp add: utf8_bytes_def)

lemma utf16_hex_length: "parse_utf16_hex s = Some cp \<Longrightarrow> 4 \<le> length s"
  by (auto simp: parse_utf16_hex_def char_at_def split: if_splits)

lemma hex_char_bound: "hex_char_to_int c \<noteq> - 1 \<Longrightarrow> 0 \<le> hex_char_to_int c \<and> hex_char_to_int c \<le> 15"
  by (auto simp: hex_char_to_int_def split: if_splits)

lemma length_utf8_le4: "length (utf8_bytes cp) \<le> 4"
  by (simp add: utf8_bytes_def)

lemma utf16_hex_bound: "parse_utf16_hex s = Some cp \<Longrightarrow> 0 \<le> cp \<and> cp < 0x10000"
  using hex_char_bound [of "char_at s 0"] hex_char_bound [of "char_at s 1"]
    hex_char_bound [of "char_at s 2"] hex_char_bound [of "char_at s 3"]
  by (auto simp: parse_utf16_hex_def Let_def split: if_splits)

lemma parse_utf16_length:
  assumes "parse_utf16 s = Some (out, p)" "s \<noteq> []"
  shows "length out + length p \<le> length s \<and> p \<noteq> []"
proof -
  obtain cp where cp: "parse_utf16_hex (tl s) = Some cp"
    using assms by (auto simp: parse_utf16_def Let_def split: option.splits)
  from utf16_hex_length [OF this] have four: "4 \<le> length (tl s)" .
  show ?thesis
  proof (cases "cp < 0xD800 \<or> cp > 0xDFFF")
    case True
    have "cp < 0x10000" using utf16_hex_bound [OF cp] by simp
    with True assms cp four length_utf8_bytes [of cp] show ?thesis
      by (auto simp: parse_utf16_def Let_def split: if_splits)
  next
    case False
    with assms cp obtain trail where tr: "parse_utf16_hex (drop 2 (drop 4 (tl s))) = Some trail"
      and out: "length out \<le> 4" "p = drop 3 (drop 2 (drop 4 (tl s)))"
      using length_utf8_le4
      by (auto simp: parse_utf16_def Let_def split: if_splits option.splits)
    from utf16_hex_length [OF tr] have "10 \<le> length (tl s)" by simp
    with out show ?thesis by auto
  qed
qed


text \<open>
  Between two quotes the loop of \<open>process_string\<close> keeps in step with \<open>skip_quotes\<close>: an escape
  never reaches over the closing quote.
\<close>

definition plain :: "char \<Rightarrow> bool" where
  "plain c \<longleftrightarrow> c \<noteq> CHR 0x22 \<and> c \<noteq> CHR 0x5C"

lemma skip_quotes_plain:
  "list_all plain xs \<Longrightarrow> skip_quotes_loop (xs @ ys) = skip_quotes_loop ys"
  by (induction xs) (auto simp: plain_def)

lemma skip_quotes_drop_plain:
  assumes "list_all plain (take k s)"
  shows "skip_quotes_loop (drop k s) = skip_quotes_loop s"
  using skip_quotes_plain [OF assms, of "drop k s"] by simp

lemma hex_plain: "hex_char_to_int c \<noteq> - 1 \<Longrightarrow> plain c"
  by (auto simp: plain_def hex_char_to_int_def code_def)

lemma utf16_hex_plain:
  assumes "parse_utf16_hex s = Some cp"
  shows "list_all plain (take 4 s)"
proof -
  have "4 \<le> length s" using utf16_hex_length [OF assms] .
  then obtain a b c d r where s: "s = a # b # c # d # r"
    by (cases s; cases "tl s"; cases "tl (tl s)"; cases "tl (tl (tl s))") auto
  with assms show ?thesis
    by (auto simp: parse_utf16_hex_def char_at_def Let_def intro: hex_plain split: if_splits)
qed


lemma tl_drop_3: "tl (drop 3 t) = drop 4 t"
  by (simp add: tl_drop flip: drop_Suc)

lemma tl_drop_9: "tl (drop 9 t) = drop 10 t"
  by (simp add: tl_drop flip: drop_Suc)

lemma process_escape:
  assumes "process_char (CHR 0x5C # d # t) = Some (out, p)" "d \<noteq> CHR ''u''"
  shows "length out = 1 \<and> p = d # t"
  using assms by (simp add: process_char_def cur_def Let_def split: if_splits) auto

lemma parse_utf16_sync:
  assumes "parse_utf16 s = Some (out, p)" "cur s = CHR ''u''"
  shows "skip_quotes_loop (tl p) = skip_quotes_loop s"
proof -
  from assms(2) obtain t where s: "s = CHR ''u'' # t" by (cases s) (auto simp: cur_def)
  obtain cp where cp: "parse_utf16_hex t = Some cp"
    using assms s by (auto simp: parse_utf16_def Let_def split: option.splits)
  note four = skip_quotes_drop_plain [OF utf16_hex_plain [OF cp]]
  have u: "skip_quotes_loop s = skip_quotes_loop t" by (simp add: s)
  show ?thesis
  proof (cases "cp < 0xD800 \<or> cp > 0xDFFF")
    case True
    with assms(1) s cp have "p = drop 3 t"
      by (auto simp: parse_utf16_def Let_def split: if_splits)
    then have "tl p = drop 4 t" by (simp add: tl_drop_3)
    with four u show ?thesis by simp
  next
    case False
    with assms(1) s cp obtain trail where tr: "parse_utf16_hex (drop 6 t) = Some trail"
      and esc: "char_at (drop 4 t) 0 = CHR 0x5C" "char_at (drop 4 t) 1 = CHR ''u''" and p: "p = drop 9 t"
      by (auto simp: parse_utf16_def Let_def split: if_splits option.splits)
    have "2 \<le> length (drop 4 t)" using utf16_hex_length [OF tr] by simp
    then obtain a b r where r: "drop 4 t = a # b # r"
      by (cases "drop 4 t"; cases "tl (drop 4 t)") auto
    with esc have ab: "a = CHR 0x5C" by (simp add: char_at_def)
    have "drop 6 t = drop 2 (drop 4 t)" by simp
    then have "drop 6 t = r" by (simp add: r del: drop_drop)
    moreover have "skip_quotes_loop (drop 4 (drop 6 t)) = skip_quotes_loop (drop 6 t)"
      by (rule skip_quotes_drop_plain [OF utf16_hex_plain [OF tr]])
    moreover have "tl p = drop 4 (drop 6 t)" by (simp add: p tl_drop_9)
    ultimately show ?thesis using four u r ab by simp
  qed
qed

lemma process_char_sync:
  assumes "process_char s = Some (out, p)" "s \<noteq> []" "cur s \<noteq> CHR 0x22" "skip_quotes_loop s = Some r"
  shows "skip_quotes_loop (tl p) = Some r \<and> length out + length (tl p) \<le> length s \<and>
    length (tl p) < length s \<and> length p \<le> length s \<and> p \<noteq> []"
proof -
  obtain c t where s: "s = c # t" using assms(2) by (cases s) auto
  show ?thesis
  proof (cases "c = CHR 0x5C")
    case False
    with assms s show ?thesis by (auto simp: process_char_def cur_def split: if_splits)
  next
    case True
    with assms s obtain d t' where t: "t = d # t'" by (cases t) auto
    show ?thesis
    proof (cases "d = CHR ''u''")
      case True
      with assms s t \<open>c = CHR 0x5C\<close> have u: "parse_utf16 (d # t') = Some (out, p)"
        by (auto simp: process_char_def cur_def)
      from parse_utf16_sync [OF u] parse_utf16_length [OF u] True assms(4) s t \<open>c = CHR 0x5C\<close>
      show ?thesis by (auto simp: cur_def)
    next
      case False
      with assms s t True process_escape [of d t' out p] show ?thesis by auto
    qed
  qed
qed

lemma process_loop_fits:
  assumes "skip_quotes_loop s = Some r" "n = length s - length r - 1" "process_loop s n = Some out"
  shows "length out \<le> n"
  using assms
proof (induction s n arbitrary: out rule: process_loop.induct)
  case (1 s n)
  show ?case
  proof (cases "cur s = NUL \<or> n = 0")
    case True
    with 1(4) show ?thesis by (simp add: process_loop.simps)
  next
    case False
    with 1(4) obtain o1 p o2 where step: "process_char s = Some (o1, p)"
      "process_loop (tl p) (n - 1 - (length s - length p)) = Some o2" "out = o1 @ o2"
      by (auto simp: process_loop.simps [of s] split: option.splits if_splits)
    have ne: "s \<noteq> []" using False by (auto simp: cur_def)
    have lt: "length r < length s" by (rule skip_quotes_loop_length [OF 1(2)])
    have "cur s \<noteq> CHR 0x22"
      using 1(2,3) False ne by (cases s) (auto simp: cur_def)
    note sync = process_char_sync [OF step(1) ne this 1(2)]
    have lt': "length r < length (tl p)" using sync skip_quotes_loop_length by blast
    have n: "n - 1 - (length s - length p) = length (tl p) - length r - 1"
      using 1(3) sync lt lt' by auto
    have "length o2 \<le> n - 1 - (length s - length p)"
      using 1(1) [OF False step(1) refl _ n step(2)] sync by simp
    with step(3) sync 1(3) n lt lt' show ?thesis by auto
  qed
qed


section \<open>Well-formed values\<close>

text \<open>
  What holds of every value the code makes: numbers are of the format, booleans are 0 or 1, the names
  of an object are distinct and have no zero in them, and a container has room for what it
  holds.
\<close>

primrec json_ok :: "json \<Rightarrow> bool" where
  "json_ok JNull = True"
| "json_ok (JString s) = True"
| "json_ok (JNumber x) = dbl_ok x"
| "json_ok (JObject kvs cap) =
     (distinct (map fst kvs) \<and> (\<forall>k \<in> set (map fst kvs). NUL \<notin> set k) \<and> length kvs \<le> cap \<and>
      list_all snd (map (map_prod id json_ok) kvs))"
| "json_ok (JArray xs cap) = (length xs \<le> cap \<and> list_all id (map json_ok xs))"
| "json_ok (JBoolean b) = (b = 0 \<or> b = 1)"

primrec depth :: "json \<Rightarrow> nat" where
  "depth JNull = 1"
| "depth (JString s) = 1"
| "depth (JNumber x) = 1"
| "depth (JObject kvs cap) = Suc (fold max (map snd (map (map_prod id depth) kvs)) 0)"
| "depth (JArray xs cap) = Suc (fold max (map depth xs) 0)"
| "depth (JBoolean b) = 1"

lemma fold_max_le: "fold max xs a \<le> n \<longleftrightarrow> a \<le> n \<and> (\<forall>x \<in> set xs. x \<le> n)" for n :: nat
  by (induction xs arbitrary: a) auto

lemma json_ok_object:
  "json_ok (JObject kvs cap) \<longleftrightarrow> names_ok (kvs, cap) \<and> (\<forall>(k, v) \<in> set kvs. NUL \<notin> set k \<and> json_ok v) \<and>
     length kvs \<le> cap"
  by (auto simp: names_ok_def names_def list_all_iff)

lemma json_ok_array:
  "json_ok (JArray xs cap) \<longleftrightarrow> (\<forall>v \<in> set xs. json_ok v) \<and> length xs \<le> cap"
  by (auto simp: list_all_iff)

lemma depth_object: "depth (JObject kvs cap) \<le> Suc d \<longleftrightarrow> (\<forall>(k, v) \<in> set kvs. depth v \<le> d)"
  by (auto simp: fold_max_le)

lemma depth_array: "depth (JArray xs cap) \<le> Suc d \<longleftrightarrow> (\<forall>v \<in> set xs. depth v \<le> d)"
  by (auto simp: fold_max_le)

lemmas json_ok_simps = json_ok_object json_ok_array
declare json_ok.simps(4,5) [simp del] depth.simps(4,5) [simp del]

lemma c_str_length: "length k = length (c_str k) \<longleftrightarrow> NUL \<notin> set k"
  by (induction k) (auto simp: c_str_def)

text \<open>An object under construction: all its members are well formed and nested at most \<open>d\<close>.\<close>

definition obj_ok :: "nat \<Rightarrow> jobject \<Rightarrow> bool" where
  "obj_ok d ob \<longleftrightarrow> json_ok (JObject (fst ob) (snd ob)) \<and> depth (JObject (fst ob) (snd ob)) \<le> Suc d"

definition arr_ok :: "nat \<Rightarrow> jarray \<Rightarrow> bool" where
  "arr_ok d ar \<longleftrightarrow> json_ok (JArray (fst ar) (snd ar)) \<and> depth (JArray (fst ar) (snd ar)) \<le> Suc d"

lemma resize_room:
  "json_object_resize ob n m = (st, ob', m') \<Longrightarrow> length (fst ob) \<le> n \<Longrightarrow> length (fst ob) \<le> snd ob \<Longrightarrow>
     length (fst ob') \<le> snd ob'"
  using live_object_resize [of ob n m st ob' m'] by (cases st) auto

lemma grown_room: "n \<le> cap \<Longrightarrow> cap \<le> n \<Longrightarrow> n < grown cap"
  by (auto simp: grown_def STARTING_CAPACITY_def)

lemma addn_room:
  assumes "json_object_addn ob name n (Some v) m = (st, ob', m')" "length (fst ob) \<le> snd ob"
  shows "length (fst ob') \<le> snd ob'"
proof (cases "json_object_getn_value (fst ob) name n")
  case (Some w)
  with assms show ?thesis by (simp add: json_object_addn_def)
next
  case None
  show ?thesis
  proof (cases "length (fst ob) \<ge> snd ob")
    case False
    with assms None show ?thesis
      by (auto simp: json_object_addn_def split: option.splits prod.splits)
  next
    case True
    obtain st1 ob1 m1 where rs: "json_object_resize ob (grown (snd ob)) m = (st1, ob1, m1)"
      by (cases "json_object_resize ob (grown (snd ob)) m")
    note eff = live_object_resize [OF rs]
    have "length (fst ob) < grown (snd ob)" using grown_room assms(2) True by blast
    with eff assms None True rs show ?thesis
      by (auto simp: json_object_addn_def split: json_status.splits option.splits prod.splits)
  qed
qed

lemma array_add_room:
  assumes "json_array_add ar v m = (st, ar', m')" "length (fst ar) \<le> snd ar"
  shows "length (fst ar') \<le> snd ar'"
proof (cases "length (fst ar) \<ge> snd ar")
  case False
  with assms show ?thesis by (auto simp: json_array_add_def)
next
  case True
  obtain st1 ar1 m1 where rs: "json_array_resize ar (grown (snd ar)) m = (st1, ar1, m1)"
    by (cases "json_array_resize ar (grown (snd ar)) m")
  note eff = live_array_resize [OF rs]
  have "length (fst ar) < grown (snd ar)" using grown_room assms(2) True by blast
  with eff assms True rs show ?thesis
    by (auto simp: json_array_add_def split: json_status.splits)
qed

lemma object_add_ok:
  assumes "json_object_add ob key (Some v) m = (st, ob', m')" "obj_ok d ob"
    and "json_ok v" "depth v \<le> d" "NUL \<notin> set key"
  shows "obj_ok d ob' \<and> live m' - obj_blocks ob' = live m - obj_blocks ob - handed st (Some v)"
proof -
  note add = assms(1) [unfolded json_object_add_def]
  note eff = addn_effect [OF add]
  have "length (fst ob) \<le> snd ob" using assms(2) by (cases ob) (simp add: obj_ok_def json_ok_object)
  note room = addn_room [OF add this]
  have "json_ok (JObject (fst ob') (snd ob')) \<and> depth (JObject (fst ob') (snd ob')) \<le> Suc d"
  proof (cases st)
    case JSONFailure
    then show ?thesis
      using eff room assms(2) by (auto simp: obj_ok_def json_ok_object depth_object names_ok_def names_def)
  next
    case JSONSuccess
    then have "fst ob' = fst ob @ [(key, v)]" "map_of (fst ob) key = None"
      using eff by (auto simp: getn_map_of)
    then show ?thesis
      using room assms(2-5)
      by (auto simp: obj_ok_def json_ok_object depth_object names_ok_def names_def map_of_eq_None_iff)
  qed
  with eff show ?thesis by (simp add: obj_ok_def)
qed

lemma array_add_ok:
  assumes "json_array_add ar v m = (st, ar', m')" "arr_ok d ar" "json_ok v" "depth v \<le> d"
  shows "arr_ok d ar' \<and> live m' - arr_blocks ar' = live m - arr_blocks ar - handed st (Some v)"
proof -
  note eff = array_add_effect [OF assms(1)]
  have "length (fst ar) \<le> snd ar" using assms(2) by (cases ar) (simp add: arr_ok_def json_ok_array)
  note room = array_add_room [OF assms(1) this]
  from eff room assms(2-4) show ?thesis
    by (cases st) (auto simp: arr_ok_def json_ok_array depth_array)
qed


section \<open>The parser\<close>

text \<open>
  The contract of a parse function: it ends, moves forward, yields a well formed value that
  owns exactly the blocks that were taken, or null with at most one block lost.
\<close>

definition settles :: "nat \<Rightarrow> string \<Rightarrow> mem \<Rightarrow> presult \<Rightarrow> bool" where
  "settles d s m r =
     (case r of (v, s', m') \<Rightarrow>
        length s' \<le> length s \<and>
        (case v of
           None \<Rightarrow> live m \<le> live m' \<and> live m' \<le> live m + 1
         | Some w \<Rightarrow> live m' = live m + blocks w \<and> json_ok w \<and> depth w \<le> d))"

definition good :: "nat \<Rightarrow> (string \<Rightarrow> mem \<Rightarrow> presult option) \<Rightarrow> bool" where
  "good d pv \<longleftrightarrow> (\<forall>s m. \<exists>r. pv s m = Some r \<and> settles d s m r)"

lemma goodD: "good d pv \<Longrightarrow> \<exists>v s' m'. pv s m = Some (v, s', m') \<and> settles d s m (v, s', m')"
  by (fastforce simp: good_def)

lemma live_free_object [simp]: "live (free_object ob m) = live m - obj_blocks ob"
  using live_json_value_free [of "JObject (fst ob) (snd ob)" m]
  by (simp only: free_object_def obj_blocks_def)

lemma live_free_array [simp]: "live (free_array ar m) = live m - arr_blocks ar"
  using live_json_value_free [of "JArray (fst ar) (snd ar)" m]
  by (simp only: free_array_def arr_blocks_def)

text \<open>The loops: what they own is the blocks of the container they fill.\<close>

definition members_settle :: "nat \<Rightarrow> jobject \<Rightarrow> string \<Rightarrow> mem \<Rightarrow> jobject option \<times> string \<times> mem \<Rightarrow> bool" where
  "members_settle d ob s m r =
     (case r of (ob', s', m') \<Rightarrow>
        length s' \<le> length s \<and>
        (case ob' of
           None \<Rightarrow> live m - obj_blocks ob \<le> live m' \<and> live m' \<le> live m - obj_blocks ob + 1
         | Some ob' \<Rightarrow> live m' - obj_blocks ob' = live m - obj_blocks ob \<and> obj_ok d ob'))"

lemma parse_members_settles:
  assumes "good d pv"
  shows "length s < fuel \<Longrightarrow> obj_ok d ob \<Longrightarrow>
    \<exists>r. parse_members pv fuel ob s m = Some r \<and> members_settle d ob s m r"
proof (induction fuel arbitrary: ob s m)
  case (Suc fuel)
  obtain k s1 m1 where q: "get_quoted_string s m = (k, s1, m1)" by (cases "get_quoted_string s m")
  note quote = get_quoted_string_effect [OF q]
  let ?s2 = "SKIP_WHITESPACES s1"
  have s2: "length ?s2 \<le> length s" using quote length_skip [of s1] by linarith
  show ?case
  proof (cases "cur s = NUL")
    case True
    with Suc.prems show ?thesis by (simp add: members_settle_def)
  next
    case live_text: False
    show ?thesis
    proof (cases "\<exists>key. k = Some key \<and> NUL \<notin> set key \<and> cur ?s2 = CHR '':''")
      case False
      with live_text q quote s2 show ?thesis
        by (cases k) (auto simp: members_settle_def Let_def c_str_length)
    next
      case True
      then obtain key where key: "k = Some key" "NUL \<notin> set key" "cur ?s2 = CHR '':''" by blast
      obtain v s3 m3 where v: "pv (tl ?s2) m1 = Some (v, s3, m3)" "settles d (tl ?s2) m1 (v, s3, m3)"
        using goodD [OF assms] by blast
      have s3: "length s3 \<le> length s1"
      proof -
        have "length s3 \<le> length (tl ?s2)" using v(2) by (simp add: settles_def)
        also have "\<dots> \<le> length ?s2" by (rule length_tl_le)
        finally show ?thesis using length_skip [of s1] by linarith
      qed
      show ?thesis
      proof (cases v)
        case None
        with v live_text q quote key s3 show ?thesis
          by (auto simp: members_settle_def Let_def c_str_length settles_def)
      next
        case (Some w)
        obtain st ob1 m4 where add: "json_object_add ob key (Some w) m3 = (st, ob1, m4)"
          by (cases "json_object_add ob key (Some w) m3")
        have w: "json_ok w" "depth w \<le> d" "live m3 = live m1 + blocks w"
          using v(2) Some by (auto simp: settles_def)
        note added = object_add_ok [OF add Suc.prems(2) w(1,2) key(2)]
        show ?thesis
        proof (cases st)
          case JSONFailure
          with v Some live_text q quote key s3 add added w show ?thesis
            by (auto simp: members_settle_def Let_def c_str_length handed_def opt_blocks_def)
        next
          case JSONSuccess
          let ?s4 = "SKIP_WHITESPACES s3" and ?m5 = "vPortFree m4"
          have bal: "live ?m5 - obj_blocks ob1 = live m - obj_blocks ob"
            using JSONSuccess added w quote key by (simp add: handed_def opt_blocks_def)
          show ?thesis
          proof (cases "cur ?s4 = CHR '',''")
            case False
            with JSONSuccess v Some live_text q quote key s3 add added bal length_skip [of s3]
            show ?thesis by (auto simp: members_settle_def Let_def c_str_length)
          next
            case True
            let ?s5 = "SKIP_WHITESPACES (tl ?s4)"
            have s5: "length ?s5 < length s"
            proof -
              have "length ?s5 \<le> length (tl ?s4)" by (rule length_skip)
              also have "\<dots> \<le> length ?s4" by (rule length_tl_le)
              also have "\<dots> \<le> length s3" by (rule length_skip)
              finally show ?thesis using quote key s3 by simp
            qed
            with Suc.prems(1) have "length ?s5 < fuel" by simp
            from Suc.IH [OF this, of ob1 ?m5] added obtain r where
              r: "parse_members pv fuel ob1 ?s5 ?m5 = Some r" "members_settle d ob1 ?s5 ?m5 r" by blast
            have "members_settle d ob s m r"
              using r(2) bal s5 by (auto simp: members_settle_def split: option.splits prod.splits)
            moreover have "parse_members pv (Suc fuel) ob s m = Some r"
              using r(1) True JSONSuccess v(1) Some live_text q key add
              by (simp add: Let_def c_str_length)
            ultimately show ?thesis by blast
          qed
        qed
      qed
    qed
  qed
qed simp


definition items_settle :: "nat \<Rightarrow> jarray \<Rightarrow> string \<Rightarrow> mem \<Rightarrow> jarray option \<times> string \<times> mem \<Rightarrow> bool" where
  "items_settle d ar s m r =
     (case r of (ar', s', m') \<Rightarrow>
        length s' \<le> length s \<and>
        (case ar' of
           None \<Rightarrow> live m - arr_blocks ar \<le> live m' \<and> live m' \<le> live m - arr_blocks ar + 1
         | Some ar' \<Rightarrow> live m' - arr_blocks ar' = live m - arr_blocks ar \<and> arr_ok d ar'))"

lemma parse_items_settles:
  assumes "good d pv"
  shows "length s < fuel \<Longrightarrow> arr_ok d ar \<Longrightarrow>
    \<exists>r. parse_items pv fuel ar s m = Some r \<and> items_settle d ar s m r"
proof (induction fuel arbitrary: ar s m)
  case (Suc fuel)
  show ?case
  proof (cases "cur s = NUL")
    case True
    with Suc.prems show ?thesis by (simp add: items_settle_def)
  next
    case live_text: False
    obtain v s1 m1 where v: "pv s m = Some (v, s1, m1)" "settles d s m (v, s1, m1)"
      using goodD [OF assms] by blast
    show ?thesis
    proof (cases v)
      case None
      with v live_text show ?thesis by (auto simp: items_settle_def settles_def)
    next
      case (Some w)
      obtain st ar1 m2 where add: "json_array_add ar w m1 = (st, ar1, m2)"
        by (cases "json_array_add ar w m1")
      have w: "json_ok w" "depth w \<le> d" "live m1 = live m + blocks w" "length s1 \<le> length s"
        using v(2) Some by (auto simp: settles_def)
      note added = array_add_ok [OF add Suc.prems(2) w(1,2)]
      show ?thesis
      proof (cases st)
        case JSONFailure
        with v Some live_text add added w show ?thesis
          by (auto simp: items_settle_def handed_def opt_blocks_def)
      next
        case JSONSuccess
        let ?s2 = "SKIP_WHITESPACES s1"
        have bal: "live m2 - arr_blocks ar1 = live m - arr_blocks ar"
          using JSONSuccess added w by (simp add: handed_def opt_blocks_def)
        show ?thesis
        proof (cases "cur ?s2 = CHR '',''")
          case False
          with JSONSuccess v Some live_text add added bal w length_skip [of s1]
          show ?thesis by (auto simp: items_settle_def Let_def)
        next
          case True
          let ?s3 = "SKIP_WHITESPACES (tl ?s2)"
          have "?s2 \<noteq> []" using True by (auto simp: cur_def)
          then have "length (tl ?s2) < length ?s2" by simp
          then have s3: "length ?s3 < length s"
            using w(4) length_skip [of s1] length_skip [of "tl ?s2"] by linarith
          with Suc.prems(1) have "length ?s3 < fuel" by simp
          from Suc.IH [OF this, of ar1 m2] added obtain r where
            r: "parse_items pv fuel ar1 ?s3 m2 = Some r" "items_settle d ar1 ?s3 m2 r" by blast
          have "items_settle d ar s m r"
            using r(2) bal s3 by (auto simp: items_settle_def split: option.splits prod.splits)
          moreover have "parse_items pv (Suc fuel) ar s m = Some r"
            using r(1) True JSONSuccess v(1) Some live_text add by (simp add: Let_def)
          ultimately show ?thesis by blast
        qed
      qed
    qed
  qed
qed simp

lemma obj_ok_trim:
  assumes "json_object_resize ob (length (fst ob)) m = (st, ob', m')" "obj_ok d ob"
  shows "obj_ok d ob' \<and> live m' - obj_blocks ob' = live m - obj_blocks ob"
proof -
  note eff = live_object_resize [OF assms(1)]
  have room: "length (fst ob) \<le> snd ob" using assms(2) by (simp add: obj_ok_def json_ok_object)
  note resize_room [OF assms(1) order_refl room]
  with eff assms(2) show ?thesis
    by (cases st) (auto simp: obj_ok_def json_ok_object depth_object names_ok_def names_def)
qed

lemma arr_ok_trim:
  assumes "json_array_resize ar (length (fst ar)) m = (st, ar', m')" "arr_ok d ar"
  shows "arr_ok d ar' \<and> live m' - arr_blocks ar' = live m - arr_blocks ar"
  using live_array_resize [OF assms(1)] assms(2)
  by (cases st) (auto simp: arr_ok_def json_ok_array depth_array)


lemma init_object_ok: "json_value_init_object m = (Some v, m') \<Longrightarrow> v = JObject [] 0"
  "json_value_init_array m = (Some v, m') \<Longrightarrow> v = JArray [] 0"
  by (auto simp: json_value_init_object_def json_value_init_array_def pvPortMalloc_def split: if_splits)

lemma obj_ok_empty: "obj_ok d ([], 0)" "arr_ok d ([], 0)"
  by (simp_all add: obj_ok_def arr_ok_def json_ok_object json_ok_array depth_object depth_array
      names_ok_def names_def)

lemma parse_object_value_settles:
  assumes "good d pv"
  shows "\<exists>r. parse_object_value pv s m = Some r \<and> settles (Suc d) s m r"
proof -
  obtain v m1 where init: "json_value_init_object m = (v, m1)" by fastforce
  note live1 = live_init(1) [OF init]
  show ?thesis
  proof (cases v)
    case None
    with init live1 show ?thesis by (simp add: parse_object_value_def settles_def opt_blocks_def)
  next
    case (Some w)
    then have w: "w = JObject [] 0" using init init_object_ok by blast
    have m1: "live m1 = live m + obj_blocks ([], 0)"
      using live1 Some w by (simp add: opt_blocks_def obj_blocks_def)
    have ok: "json_ok w" "depth w \<le> Suc d"
      using obj_ok_empty(1) [of d] w by (simp_all add: obj_ok_def)
    let ?s1 = "SKIP_WHITESPACES (tl s)"
    have s1: "length ?s1 \<le> length s" by simp
    show ?thesis
    proof (cases "cur s = CHR ''{'' \<and> cur ?s1 \<noteq> CHR ''}''")
      case False
      have "live (json_value_free w m1) = live m" using live1 Some by (simp add: opt_blocks_def del: json_value_free.simps blocks.simps)
      moreover have "length (tl ?s1) \<le> length s" using s1 length_tl_le le_trans by blast
      ultimately show ?thesis using False init Some m1 w ok
        by (auto simp: parse_object_value_def Let_def settles_def obj_blocks_def)
    next
      case True
      obtain r where r: "parse_members pv (Suc (length ?s1)) ([], 0) ?s1 m1 = Some r"
        "members_settle d ([], 0) ?s1 m1 r"
        using parse_members_settles [OF assms lessI obj_ok_empty(1)] by blast
      obtain ob' s2 m2 where [simp]: "r = (ob', s2, m2)" by (cases r)
      have s2: "length s2 \<le> length s" using r(2) by (auto simp: members_settle_def intro: le_trans [OF _ s1])
      show ?thesis
      proof (cases ob')
        case None
        with r True init Some m1 s2 show ?thesis
          by (simp add: parse_object_value_def members_settle_def settles_def)
      next
        case ob: (Some ob)
        then have ob2: "live m2 = live m + obj_blocks ob" "obj_ok d ob"
          using r(2) m1 by (simp_all add: members_settle_def)
        obtain st ob3 m3 where rs: "json_object_resize ob (length (fst ob)) m2 = (st, ob3, m3)"
          by (cases "json_object_resize ob (length (fst ob)) m2")
        note trim = obj_ok_trim [OF rs ob2(2)]
        have "settles (Suc d) s m (None, SKIP_WHITESPACES s2, free_object ob m2)"
          "settles (Suc d) s m (None, SKIP_WHITESPACES s2, free_object ob3 m3)"
          using ob2 trim s2 by (simp_all add: settles_def)
        moreover have "settles (Suc d) s m (Some (JObject (fst ob3) (snd ob3)), tl (SKIP_WHITESPACES s2), m3)"
          using ob2 trim le_trans [OF length_tl_le length_skip_le [OF s2]]
          by (simp add: settles_def obj_ok_def obj_blocks_def)
        ultimately show ?thesis
          using r True init Some ob rs
          by (cases st) (simp_all add: parse_object_value_def Let_def)
      qed
    qed
  qed
qed

lemma parse_array_value_settles:
  assumes "good d pv"
  shows "\<exists>r. parse_array_value pv s m = Some r \<and> settles (Suc d) s m r"
proof -
  obtain v m1 where init: "json_value_init_array m = (v, m1)" by fastforce
  note live1 = live_init(2) [OF init]
  show ?thesis
  proof (cases v)
    case None
    with init live1 show ?thesis by (simp add: parse_array_value_def settles_def opt_blocks_def)
  next
    case (Some w)
    then have w: "w = JArray [] 0" using init init_object_ok by blast
    have m1: "live m1 = live m + arr_blocks ([], 0)"
      using live1 Some w by (simp add: opt_blocks_def arr_blocks_def)
    have ok: "json_ok w" "depth w \<le> Suc d"
      using obj_ok_empty(2) [of d] w by (simp_all add: arr_ok_def)
    let ?s1 = "SKIP_WHITESPACES (tl s)"
    have s1: "length ?s1 \<le> length s" by simp
    show ?thesis
    proof (cases "cur s = CHR ''['' \<and> cur ?s1 \<noteq> CHR '']''")
      case False
      have "live (json_value_free w m1) = live m" using live1 Some by (simp add: opt_blocks_def del: json_value_free.simps blocks.simps)
      moreover have "length (tl ?s1) \<le> length s" using s1 length_tl_le le_trans by blast
      ultimately show ?thesis using False init Some m1 w ok
        by (auto simp: parse_array_value_def Let_def settles_def arr_blocks_def)
    next
      case True
      obtain r where r: "parse_items pv (Suc (length ?s1)) ([], 0) ?s1 m1 = Some r"
        "items_settle d ([], 0) ?s1 m1 r"
        using parse_items_settles [OF assms lessI obj_ok_empty(2)] by blast
      obtain ar' s2 m2 where [simp]: "r = (ar', s2, m2)" by (cases r)
      have s2: "length s2 \<le> length s" using r(2) by (auto simp: items_settle_def intro: le_trans [OF _ s1])
      show ?thesis
      proof (cases ar')
        case None
        with r True init Some m1 s2 show ?thesis
          by (simp add: parse_array_value_def items_settle_def settles_def)
      next
        case ar: (Some ar)
        then have ar2: "live m2 = live m + arr_blocks ar" "arr_ok d ar"
          using r(2) m1 by (simp_all add: items_settle_def)
        obtain st ar3 m3 where rs: "json_array_resize ar (length (fst ar)) m2 = (st, ar3, m3)"
          by (cases "json_array_resize ar (length (fst ar)) m2")
        note trim = arr_ok_trim [OF rs ar2(2)]
        have "settles (Suc d) s m (None, SKIP_WHITESPACES s2, free_array ar m2)"
          "settles (Suc d) s m (None, SKIP_WHITESPACES s2, free_array ar3 m3)"
          using ar2 trim s2 by (simp_all add: settles_def)
        moreover have "settles (Suc d) s m (Some (JArray (fst ar3) (snd ar3)), tl (SKIP_WHITESPACES s2), m3)"
          using ar2 trim le_trans [OF length_tl_le length_skip_le [OF s2]]
          by (simp add: settles_def arr_ok_def arr_blocks_def)
        ultimately show ?thesis
          using r True init Some ar rs
          by (cases st) (simp_all add: parse_array_value_def Let_def)
      qed
    qed
  qed
qed

lemma scalars_settle:
  "settles (Suc d) s m (parse_string_value s m)"
  "settles (Suc d) s m (parse_boolean_value s m)"
  "settles (Suc d) s m (parse_number_value s m)"
  "settles (Suc d) s m (parse_null_value s m)"
proof -
  obtain r s1 m1 where q: "get_quoted_string s m = (r, s1, m1)" by (cases "get_quoted_string s m")
  show "settles (Suc d) s m (parse_string_value s m)"
    using get_quoted_string_effect [OF q] q
    by (auto simp: parse_string_value_def settles_def dest!: live_init_string_no_copy
        split: option.splits prod.splits)
  obtain x e err where st: "strtod s = (x, e, err)" by (cases "strtod s")
  show "settles (Suc d) s m (parse_number_value s m)"
    using strtod_length [OF st] strtod_ok [OF st] st
    by (auto simp: parse_number_value_def settles_def json_value_init_number_def pvPortMalloc_def)
  show "settles (Suc d) s m (parse_boolean_value s m)" "settles (Suc d) s m (parse_null_value s m)"
    by (auto simp: parse_boolean_value_def parse_null_value_def settles_def json_value_init_boolean_def
        json_value_init_null_def pvPortMalloc_def)
qed

lemma settles_skip: "settles d (SKIP_WHITESPACES s) m r \<Longrightarrow> settles d s m r"
  using le_trans [OF _ length_skip [of s]] by (cases r) (fastforce simp: settles_def)

lemma good_parse_value: "good d (parse_value d)"
proof (induction d)
  case 0
  show ?case by (simp add: good_def settles_def)
next
  case (Suc d)
  have "\<exists>r. parse_value (Suc d) s m = Some r \<and> settles (Suc d) s m r" for s m
  proof -
    let ?s = "SKIP_WHITESPACES s"
    have none: "settles (Suc d) ?s m (None, ?s, m)" by (simp add: settles_def)
    have "\<exists>r. parse_value (Suc d) s m = Some r \<and> settles (Suc d) ?s m r"
      using parse_object_value_settles [OF Suc, of ?s m] parse_array_value_settles [OF Suc, of ?s m]
        scalars_settle [of d ?s m] none
      by (simp add: Let_def del: split_paired_Ex)
    then show ?thesis using settles_skip by blast
  qed
  then show ?case by (simp add: good_def)
qed


section \<open>The entry points\<close>

text \<open>What a caller of the library gets: a result, whatever the text and the allocator.\<close>

definition accounted :: "nat \<Rightarrow> mem \<Rightarrow> json option \<times> mem \<Rightarrow> bool" where
  "accounted d m r =
     (case r of
        (None, m') \<Rightarrow> live m \<le> live m' \<and> live m' \<le> live m + 1
      | (Some w, m') \<Rightarrow> live m' = live m + blocks w \<and> json_ok w \<and> depth w \<le> d)"

lemma parse_value_accounted:
  "\<exists>v s' m'. parse_value d s m = Some (v, s', m') \<and> accounted d m (v, m')"
proof -
  obtain v s' m' where "parse_value d s m = Some (v, s', m')" "settles d s m (v, s', m')"
    using goodD [OF good_parse_value] by blast
  then show ?thesis by (auto simp: accounted_def settles_def split: option.splits)
qed

lemma json_parse_string_accounted:
  "\<exists>r. json_parse_string buf m = Some r \<and> accounted (MAX_NESTING + 1) m r"
proof (cases buf)
  case None
  then show ?thesis by (simp add: json_parse_string_def accounted_def)
next
  case (Some b)
  define s where "s = (if char_at (c_str b) 0 = CHR 0xEF \<and> char_at (c_str b) 1 = CHR 0xBB \<and>
    char_at (c_str b) 2 = CHR 0xBF then drop 3 (c_str b) else c_str b)"
  obtain v s' m' where "parse_value (MAX_NESTING + 1) s m = Some (v, s', m')"
    "accounted (MAX_NESTING + 1) m (v, m')"
    using parse_value_accounted by blast
  with Some show ?thesis by (simp add: json_parse_string_def s_def Let_def)
qed

lemma json_parse_with_comments_accounted:
  "\<exists>r. json_parse_string_with_comments b m = Some r \<and> accounted (MAX_NESTING + 1) m r"
proof -
  obtain d m1 where dup: "parson_strdup (c_str b) m = (d, m1)" by fastforce
  note eff = live_strndup [OF dup [unfolded parson_strdup_def]]
  show ?thesis
  proof (cases d)
    case None
    with dup eff show ?thesis by (simp add: json_parse_string_with_comments_def accounted_def)
  next
    case (Some s)
    let ?s = "remove_comments (remove_comments s ''/*'' ''*/'') ''//'' [CHR 0x0A]"
    obtain v s' m' where v: "parse_value (MAX_NESTING + 1) ?s m1 = Some (v, s', m')"
      "accounted (MAX_NESTING + 1) m1 (v, m')"
      using parse_value_accounted by blast
    then have "accounted (MAX_NESTING + 1) m (v, vPortFree m')"
      using eff Some by (auto simp: accounted_def split: option.splits)
    with v(1) dup Some show ?thesis
      by (simp add: json_parse_string_with_comments_def Let_def)
  qed
qed

end
