(* ===== verification/JsonSerial.thy ===== *)
theory JsonSerial imports JsonParseLemmas begin

text \<open>
  The serializer of parson (nfc/src/parson.c). A buffer is null, or the text written so far
  together with the number of bytes that were allocated; a write that does not fit is a fault.
  A writer yields the number of characters it wrote, or -1, and the buffer behind them. \<open>esc\<close>
  is the variable \<open>parson_escape_slashes\<close>.
\<close>

section \<open>Writers\<close>

type_synonym buf = "(string \<times> nat) option"
type_synonym writer = "buf \<Rightarrow> (int \<times> buf) res"

text \<open>\<open>n\<close> bytes stored behind the text, the first of which are \<open>s\<close>.\<close>

definition buf_store :: "string \<Rightarrow> nat \<Rightarrow> writer" where
  "buf_store s n b =
     (case b of
        None \<Rightarrow> Inr (int (length s), None)
      | Some (t, sz) \<Rightarrow>
          if length t + n \<le> sz then Inr (int (length s), Some (t @ s, sz)) else Inl OutOfBounds)"

text \<open>\<open>sprintf\<close> writes a final zero, which the next write covers.\<close>

definition append_string :: "string \<Rightarrow> writer" where
  "append_string s = buf_store s (length s + 1)"

text \<open>
  One writer after the other: \<open>if (written < 0) return -1; buf += written; written_total +=
  written\<close>.
\<close>

definition seq :: "writer \<Rightarrow> writer \<Rightarrow> writer" where
  "seq w1 w2 b =
     res_bind (w1 b) (\<lambda>(n1, b). if n1 < 0 then Inr (- 1, b) else
     res_bind (w2 b) (\<lambda>(n2, b). if n2 < 0 then Inr (- 1, b) else Inr (n1 + n2, b)))"

fun run :: "writer list \<Rightarrow> writer" where
  "run [] b = Inr (0, b)"
| "run (w # ws) b = seq w (run ws) b"

definition append_indent :: "int \<Rightarrow> writer" where
  "append_indent level = run (replicate (nat level) (append_string ''    ''))"

section \<open>Strings\<close>

definition hex_digit :: "int \<Rightarrow> char" where
  "hex_digit x = (if x < 10 then char_of (48 + x) else char_of (87 + x))"

definition escape_char :: "bool \<Rightarrow> char \<Rightarrow> writer" where
  "escape_char esc c =
     (if c = CHR 0x22 then append_string [CHR 0x5C, CHR 0x22]
      else if c = CHR 0x5C then append_string [CHR 0x5C, CHR 0x5C]
      else if c = CHR 0x08 then append_string (CHR 0x5C # ''b'')
      else if c = CHR 0x0C then append_string (CHR 0x5C # ''f'')
      else if c = CHR 0x0A then append_string (CHR 0x5C # ''n'')
      else if c = CHR 0x0D then append_string (CHR 0x5C # ''r'')
      else if c = CHR 0x09 then append_string (CHR 0x5C # ''t'')
      else if code c < 0x20 then
        append_string (CHR 0x5C # ''u00'' @ [hex_digit (code c div 16), hex_digit (code c mod 16)])
      else if c = CHR ''/'' then
        (if esc then append_string (CHR 0x5C # ''/'') else append_string ''/'')
      else buf_store [c] 1)"

definition json_serialize_string :: "bool \<Rightarrow> string \<Rightarrow> writer" where
  "json_serialize_string esc s =
     run ([append_string [CHR 0x22]] @ map (escape_char esc) s @ [append_string [CHR 0x22]])"

section \<open>Values\<close>

definition NUM_BUF_SIZE :: nat where "NUM_BUF_SIZE = 64"

text \<open>Without a buffer the number is printed into \<open>num_buf\<close>.\<close>

definition serialize_number :: "dbl \<Rightarrow> writer" where
  "serialize_number x b =
     (case b of
        None \<Rightarrow> res_bind (append_string (sprintf_17g x) (Some ([], NUM_BUF_SIZE))) (\<lambda>(n, _). Inr (n, None))
      | Some _ \<Rightarrow> append_string (sprintf_17g x) b)"

text \<open>The loop over the items, each written by one of \<open>ws\<close>.\<close>

fun serialize_items :: "bool \<Rightarrow> int \<Rightarrow> writer list \<Rightarrow> writer list" where
  "serialize_items pretty level [] = []"
| "serialize_items pretty level (w # ws) =
     (if pretty then [append_indent (level + 1)] else []) @ [w] @
     (if ws \<noteq> [] then [append_string '',''] else []) @
     (if pretty then [append_string [CHR 0x0A]] else []) @ serialize_items pretty level ws"

definition serialize_between :: "string \<Rightarrow> string \<Rightarrow> bool \<Rightarrow> int \<Rightarrow> writer list \<Rightarrow> writer" where
  "serialize_between opening closing pretty level ws =
     run ([append_string opening] @
          (if ws \<noteq> [] \<and> pretty then [append_string [CHR 0x0A]] else []) @
          serialize_items pretty level ws @
          (if ws \<noteq> [] \<and> pretty then [append_indent level] else []) @
          [append_string closing])"

text \<open>A member is looked up again by its name; \<open>fs\<close> are the values as writers.\<close>

definition serialize_member ::
    "bool \<Rightarrow> bool \<Rightarrow> int \<Rightarrow> (string \<times> (int \<Rightarrow> writer)) list \<Rightarrow> string \<Rightarrow> writer" where
  "serialize_member esc pretty level fs key =
     run ([json_serialize_string esc (c_str key), append_string '':''] @
          (if pretty then [append_string '' ''] else []) @
          [case json_object_getn_value fs (c_str key) (length (c_str key)) of
             None \<Rightarrow> (\<lambda>b. Inr (- 1, b))
           | Some f \<Rightarrow> f (level + 1)])"

primrec json_serialize_to_buffer_r :: "bool \<Rightarrow> bool \<Rightarrow> json \<Rightarrow> int \<Rightarrow> writer" where
  "json_serialize_to_buffer_r esc pretty (JArray xs cap) =
     (\<lambda>level. serialize_between ''['' '']'' pretty level
        (map (\<lambda>f. f (level + 1)) (map (json_serialize_to_buffer_r esc pretty) xs)))"
| "json_serialize_to_buffer_r esc pretty (JObject kvs cap) =
     (\<lambda>level. serialize_between ''{'' ''}'' pretty level
        (let fs = map (map_prod id (json_serialize_to_buffer_r esc pretty)) kvs
         in map (\<lambda>kf. serialize_member esc pretty level fs (fst kf)) fs))"
| "json_serialize_to_buffer_r esc pretty (JString s) = (\<lambda>level. json_serialize_string esc s)"
| "json_serialize_to_buffer_r esc pretty (JBoolean b) =
     (\<lambda>level. append_string (if b \<noteq> 0 then ''true'' else ''false''))"
| "json_serialize_to_buffer_r esc pretty (JNumber x) = (\<lambda>level. serialize_number x)"
| "json_serialize_to_buffer_r esc pretty JNull = (\<lambda>level. append_string ''null'')"

section \<open>The entry points\<close>

definition serialize_opt :: "bool \<Rightarrow> bool \<Rightarrow> json option \<Rightarrow> writer" where
  "serialize_opt esc pretty v b =
     (case v of None \<Rightarrow> Inr (- 1, b) | Some w \<Rightarrow> json_serialize_to_buffer_r esc pretty w 0 b)"

definition json_serialization_size :: "bool \<Rightarrow> bool \<Rightarrow> json option \<Rightarrow> nat res" where
  "json_serialization_size esc pretty v =
     res_bind (serialize_opt esc pretty v None) (\<lambda>(n, _). Inr (if n < 0 then 0 else nat n + 1))"

text \<open>\<open>buf_size\<close> is what the caller passes, \<open>sz\<close> what the buffer really has.\<close>

definition json_serialize_to_buffer ::
    "bool \<Rightarrow> bool \<Rightarrow> json option \<Rightarrow> nat \<Rightarrow> nat \<Rightarrow> (json_status \<times> string) res" where
  "json_serialize_to_buffer esc pretty v sz buf_size =
     res_bind (json_serialization_size esc pretty v) (\<lambda>needed.
       if needed = 0 \<or> buf_size < needed then Inr (JSONFailure, [])
       else res_bind (serialize_opt esc pretty v (Some ([], sz))) (\<lambda>(n, b).
         let t = (case b of None \<Rightarrow> [] | Some (t, _) \<Rightarrow> t)
         in Inr (if n < 0 then JSONFailure else JSONSuccess, t)))"

definition json_serialize_to_string ::
    "bool \<Rightarrow> bool \<Rightarrow> json option \<Rightarrow> mem \<Rightarrow> (string option \<times> mem) res" where
  "json_serialize_to_string esc pretty v m =
     res_bind (json_serialization_size esc pretty v) (\<lambda>sz.
       if sz = 0 then Inr (None, m)
       else (case pvPortMalloc sz m of
               (False, m) \<Rightarrow> Inr (None, m)
             | (True, m) \<Rightarrow>
                 res_bind (json_serialize_to_buffer esc pretty v sz sz) (\<lambda>(st, t).
                   if st = JSONFailure then Inr (None, vPortFree m) else Inr (Some t, m))))"

definition json_free_serialized_string :: "mem \<Rightarrow> mem" where
  "json_free_serialized_string m = vPortFree m"

section \<open>The text of a value\<close>

text \<open>The reference: the text itself, with each member written where it stands.\<close>

definition escaped :: "bool \<Rightarrow> char \<Rightarrow> string" where
  "escaped esc c =
     (if c = CHR 0x22 then [CHR 0x5C, CHR 0x22]
      else if c = CHR 0x5C then [CHR 0x5C, CHR 0x5C]
      else if c = CHR 0x08 then CHR 0x5C # ''b''
      else if c = CHR 0x0C then CHR 0x5C # ''f''
      else if c = CHR 0x0A then CHR 0x5C # ''n''
      else if c = CHR 0x0D then CHR 0x5C # ''r''
      else if c = CHR 0x09 then CHR 0x5C # ''t''
      else if code c < 0x20 then
        CHR 0x5C # ''u00'' @ [hex_digit (code c div 16), hex_digit (code c mod 16)]
      else if c = CHR ''/'' \<and> esc then CHR 0x5C # ''/''
      else [c])"

definition quoted :: "bool \<Rightarrow> string \<Rightarrow> string" where
  "quoted esc s = [CHR 0x22] @ concat (map (escaped esc) s) @ [CHR 0x22]"

definition indent :: "int \<Rightarrow> string" where
  "indent level = concat (replicate (nat level) ''    '')"

fun items_text :: "bool \<Rightarrow> int \<Rightarrow> string list \<Rightarrow> string" where
  "items_text pretty level [] = []"
| "items_text pretty level (t # ts) =
     (if pretty then indent (level + 1) else []) @ t @ (if ts \<noteq> [] then '','' else []) @
     (if pretty then [CHR 0x0A] else []) @ items_text pretty level ts"

definition between_text :: "string \<Rightarrow> string \<Rightarrow> bool \<Rightarrow> int \<Rightarrow> string list \<Rightarrow> string" where
  "between_text opening closing pretty level ts =
     opening @ (if ts \<noteq> [] \<and> pretty then [CHR 0x0A] else []) @ items_text pretty level ts @
     (if ts \<noteq> [] \<and> pretty then indent level else []) @ closing"

primrec json_text :: "bool \<Rightarrow> bool \<Rightarrow> json \<Rightarrow> int \<Rightarrow> string" where
  "json_text esc pretty (JArray xs cap) =
     (\<lambda>level. between_text ''['' '']'' pretty level (map (\<lambda>f. f (level + 1)) (map (json_text esc pretty) xs)))"
| "json_text esc pretty (JObject kvs cap) =
     (\<lambda>level. between_text ''{'' ''}'' pretty level
        (map (\<lambda>(k, f). quoted esc k @ '':'' @ (if pretty then '' '' else []) @ f (level + 1))
           (map (map_prod id (json_text esc pretty)) kvs)))"
| "json_text esc pretty (JString s) = (\<lambda>level. quoted esc s)"
| "json_text esc pretty (JBoolean b) = (\<lambda>level. if b \<noteq> 0 then ''true'' else ''false'')"
| "json_text esc pretty (JNumber x) = (\<lambda>level. sprintf_17g x)"
| "json_text esc pretty JNull = (\<lambda>level. ''null'')"

section \<open>The writers write the text\<close>

text \<open>
  \<open>writes w s\<close>: without a buffer \<open>w\<close> counts the characters of \<open>s\<close>; into a buffer that has
  room for them and the final zero it writes \<open>s\<close>.
\<close>

definition writes :: "writer \<Rightarrow> string \<Rightarrow> bool" where
  "writes w s \<longleftrightarrow> w None = Inr (int (length s), None) \<and>
     (\<forall>t sz. length t + length s + 1 \<le> sz \<longrightarrow>
        w (Some (t, sz)) = Inr (int (length s), Some (t @ s, sz)))"

lemma writes_append: "writes (append_string s) s"
  by (simp add: writes_def append_string_def buf_store_def)

lemma writes_char: "writes (buf_store [c] (Suc 0)) [c]"
  by (simp add: writes_def buf_store_def)

lemma writes_seq:
  assumes "writes w1 s1" "writes w2 s2"
  shows "writes (seq w1 w2) (s1 @ s2)"
  unfolding writes_def
proof (intro conjI allI impI)
  show "seq w1 w2 None = Inr (int (length (s1 @ s2)), None)"
    using assms by (simp add: writes_def seq_def)
next
  fix t :: string and sz
  assume room: "length t + length (s1 @ s2) + 1 \<le> sz"
  then have "w1 (Some (t, sz)) = Inr (int (length s1), Some (t @ s1, sz))"
    using assms(1) by (simp add: writes_def)
  moreover have "w2 (Some (t @ s1, sz)) = Inr (int (length s2), Some ((t @ s1) @ s2, sz))"
    using assms(2) room by (simp only: writes_def) simp
  ultimately show "seq w1 w2 (Some (t, sz)) = Inr (int (length (s1 @ s2)), Some (t @ s1 @ s2, sz))"
    by (simp add: seq_def)
qed

lemma writes_run: "list_all2 writes ws ts \<Longrightarrow> writes (run ws) (concat ts)"
proof (induction ws ts rule: list_all2_induct)
  case Nil
  show ?case by (simp add: writes_def)
next
  case (Cons w ws t ts)
  have "run (w # ws) = seq w (run ws)" by (rule ext) simp
  with writes_seq [OF Cons(1,3)] show ?case by simp
qed

lemma writes_indent: "writes (append_indent level) (indent level)"
  unfolding append_indent_def indent_def
  by (rule writes_run) (simp add: list_all2_conv_all_nth writes_append)

lemma writes_escape: "writes (escape_char esc c) (escaped esc c)"
  by (simp add: escape_char_def escaped_def writes_append writes_char)

lemma writes_string: "writes (json_serialize_string esc s) (quoted esc s)"
proof -
  have "list_all2 writes ([append_string [CHR 0x22]] @ map (escape_char esc) s @ [append_string [CHR 0x22]])
      ([[CHR 0x22]] @ map (escaped esc) s @ [[CHR 0x22]])"
    by (intro list_all2_appendI) (auto simp: list_all2_conv_all_nth writes_escape writes_append)
  from writes_run [OF this] show ?thesis by (simp add: json_serialize_string_def quoted_def)
qed

lemma items_pieces:
  "list_all2 writes ws ts \<Longrightarrow>
    \<exists>us. list_all2 writes (serialize_items pretty level ws) us \<and> concat us = items_text pretty level ts"
proof (induction ws ts rule: list_all2_induct)
  case (Cons w ws t ts)
  from Cons(3) obtain us where us: "list_all2 writes (serialize_items pretty level ws) us"
    "concat us = items_text pretty level ts" by blast
  have ne: "ws \<noteq> [] \<longleftrightarrow> ts \<noteq> []" using Cons(2) by auto
  let ?vs = "(if pretty then [indent (level + 1)] else []) @ [t] @ (if ts \<noteq> [] then [[CHR '','']] else []) @
    (if pretty then [[CHR 0x0A]] else []) @ us"
  have "list_all2 writes (serialize_items pretty level (w # ws)) ?vs"
    unfolding serialize_items.simps ne
    by (intro list_all2_appendI) (auto simp: us Cons(1) writes_append writes_indent)
  moreover have "concat ?vs = items_text pretty level (t # ts)" by (simp add: us)
  ultimately show ?case by blast
qed (auto intro: exI [of _ "[]"])

lemma writes_between:
  assumes "list_all2 writes ws ts"
  shows "writes (serialize_between a z pretty level ws) (between_text a z pretty level ts)"
proof -
  obtain us where us: "list_all2 writes (serialize_items pretty level ws) us"
    "concat us = items_text pretty level ts"
    using items_pieces [OF assms] by blast
  have ne: "ws \<noteq> [] \<longleftrightarrow> ts \<noteq> []" using assms by auto
  let ?vs = "[a] @ (if ts \<noteq> [] \<and> pretty then [[CHR 0x0A]] else []) @ us @
    (if ts \<noteq> [] \<and> pretty then [indent level] else []) @ [z]"
  have "writes (serialize_between a z pretty level ws) (concat ?vs)"
    unfolding serialize_between_def ne
    by (rule writes_run, intro list_all2_appendI) (auto simp: us writes_append writes_indent)
  moreover have "concat ?vs = between_text a z pretty level ts" by (simp add: us between_text_def)
  ultimately show ?thesis by simp
qed

lemma writes_number: "dbl_ok x \<Longrightarrow> writes (serialize_number x) (sprintf_17g x)"
  using sprintf_17g_length [of x] writes_append [of "sprintf_17g x"]
  by (simp add: writes_def serialize_number_def NUM_BUF_SIZE_def)

lemma c_str_id: "NUL \<notin> set k \<Longrightarrow> c_str k = k"
  by (auto simp: c_str_def takeWhile_eq_all_conv)

lemma map_of_map_prod_id: "map_of (map (map_prod id f) kvs) k = map_option f (map_of kvs k)"
  by (induction kvs) auto

lemma getn_member:
  assumes "distinct (map fst kvs)" "(k, v) \<in> set kvs"
  shows "json_object_getn_value (map (map_prod id f) kvs) k (length k) = Some (f v)"
proof -
  have "map_of kvs k = Some v" using assms by simp
  then show ?thesis by (simp add: getn_map_of map_of_map_prod_id)
qed

lemma writes_member:
  assumes "(k, v) \<in> set kvs" "distinct (map fst kvs)" "NUL \<notin> set k" "writes (f v (level + 1)) t"
  shows "writes (serialize_member esc pretty level (map (map_prod id f) kvs) k)
    (quoted esc k @ '':'' @ (if pretty then '' '' else []) @ t)"
proof -
  let ?vs = "[quoted esc k, '':''] @ (if pretty then ['' ''] else []) @ [t]"
  have "writes (serialize_member esc pretty level (map (map_prod id f) kvs) k) (concat ?vs)"
    unfolding serialize_member_def c_str_id [OF assms(3)] getn_member [OF assms(2,1)]
    by (rule writes_run, intro list_all2_appendI) (auto simp: writes_append writes_string assms(4))
  moreover have "concat ?vs = quoted esc k @ '':'' @ (if pretty then '' '' else []) @ t" by simp
  ultimately show ?thesis by simp
qed

theorem serialize_writes_text:
  "json_ok v \<Longrightarrow> writes (json_serialize_to_buffer_r esc pretty v level) (json_text esc pretty v level)"
proof (induction v arbitrary: level)
  case (JObject kvs cap)
  let ?f = "json_serialize_to_buffer_r esc pretty" and ?t = "json_text esc pretty"
  have ok: "distinct (map fst kvs)" "\<And>k v. (k, v) \<in> set kvs \<Longrightarrow> NUL \<notin> set k \<and> json_ok v"
    using JObject.prems by (auto simp: json_ok_object names_ok_def names_def)
  have "list_all2 writes
      (map (\<lambda>kf. serialize_member esc pretty level (map (map_prod id ?f) kvs) (fst kf))
         (map (map_prod id ?f) kvs))
      (map (\<lambda>(k, f). quoted esc k @ '':'' @ (if pretty then '' '' else []) @ f (level + 1))
         (map (map_prod id ?t) kvs))"
  proof (rule list_all2_all_nthI)
    fix i
    assume "i < length (map (\<lambda>kf. serialize_member esc pretty level (map (map_prod id ?f) kvs) (fst kf))
         (map (map_prod id ?f) kvs))"
    then have i: "i < length kvs" by simp
    then have kv: "(fst (kvs ! i), snd (kvs ! i)) \<in> set kvs" by simp
    have "writes (?f (snd (kvs ! i)) (level + 1)) (?t (snd (kvs ! i)) (level + 1))"
      by (rule JObject.IH [OF nth_mem [OF i]]) (use ok(2) [OF kv] in \<open>simp_all add: snds.simps\<close>)
    from writes_member [where f = ?f, OF kv ok(1) _ this, of esc pretty] ok(2) [OF kv]
    show "writes
      (map (\<lambda>kf. serialize_member esc pretty level (map (map_prod id ?f) kvs) (fst kf))
         (map (map_prod id ?f) kvs) ! i)
      (map (\<lambda>(k, f). quoted esc k @ '':'' @ (if pretty then '' '' else []) @ f (level + 1))
         (map (map_prod id ?t) kvs) ! i)"
      using i by (simp add: case_prod_unfold)
  qed simp
  from writes_between [OF this] show ?case by (simp add: Let_def)
next
  case (JArray xs cap)
  then have "list_all2 writes
      (map (\<lambda>f. f (level + 1)) (map (json_serialize_to_buffer_r esc pretty) xs))
      (map (\<lambda>f. f (level + 1)) (map (json_text esc pretty) xs))"
    by (auto simp: list_all2_conv_all_nth json_ok_array)
  from writes_between [OF this] show ?case by simp
qed (auto simp: writes_string writes_number writes_append)

section \<open>Sizes\<close>

lemma serialization_size_text:
  "json_ok v \<Longrightarrow> json_serialization_size esc pretty (Some v) = Inr (length (json_text esc pretty v 0) + 1)"
  using serialize_writes_text [of v esc pretty 0]
  by (simp add: json_serialization_size_def serialize_opt_def writes_def)

lemma serialize_to_buffer_text:
  assumes "json_ok v" "buf_size \<le> sz"
  shows "json_serialize_to_buffer esc pretty (Some v) sz buf_size =
    Inr (if buf_size < length (json_text esc pretty v 0) + 1 then (JSONFailure, [])
         else (JSONSuccess, json_text esc pretty v 0))"
  using serialize_writes_text [OF assms(1), of esc pretty 0] assms(2)
  by (simp add: json_serialize_to_buffer_def serialization_size_text [OF assms(1)] serialize_opt_def writes_def)

lemma serialize_to_string_text:
  assumes "json_ok v"
  shows "\<exists>m'. json_serialize_to_string esc pretty (Some v) m =
    Inr (if grants m (calls m) (length (json_text esc pretty v 0) + 1)
         then Some (json_text esc pretty v 0) else None, m') \<and>
    live m' = live m + (if grants m (calls m) (length (json_text esc pretty v 0) + 1) then 1 else 0)"
  using assms
  by (simp add: json_serialize_to_string_def serialization_size_text serialize_to_buffer_text pvPortMalloc_def)

end
