(* ===== verification/JsonCopy.thy ===== *)
theory JsonCopy imports JsonSerial begin

text \<open>
  Whole-value operations of parson (nfc/src/parson.c): the deep copy, the validation against a
  schema and the comparison; and what they guarantee.
\<close>

section \<open>Deep copy\<close>

fun copy_items :: "(mem \<Rightarrow> json option \<times> mem) list \<Rightarrow> jarray \<Rightarrow> mem \<Rightarrow> json option \<times> mem" where
  "copy_items [] ar m = (Some (JArray (fst ar) (snd ar)), m)"
| "copy_items (f # fs) ar m =
     (case f m of
        (None, m) \<Rightarrow> (None, free_array ar m)
      | (Some c, m) \<Rightarrow>
          (case json_array_add ar c m of
             (JSONFailure, ar, m) \<Rightarrow> (None, json_value_free c (free_array ar m))
           | (JSONSuccess, ar, m) \<Rightarrow> copy_items fs ar m))"

text \<open>The copy of a null value is null.\<close>

fun copy_members ::
    "(string \<times> (mem \<Rightarrow> json option \<times> mem)) list \<Rightarrow> string list \<Rightarrow> jobject \<Rightarrow> mem \<Rightarrow> json option \<times> mem" where
  "copy_members fs [] ob m = (Some (JObject (fst ob) (snd ob)), m)"
| "copy_members fs (key # keys) ob m =
     (case (case json_object_getn_value fs key (length key) of None \<Rightarrow> (None, m) | Some f \<Rightarrow> f m) of
        (None, m) \<Rightarrow> (None, free_object ob m)
      | (Some c, m) \<Rightarrow>
          (case json_object_add ob key (Some c) m of
             (JSONFailure, ob, m) \<Rightarrow> (None, json_value_free c (free_object ob m))
           | (JSONSuccess, ob, m) \<Rightarrow> copy_members fs keys ob m))"

primrec json_value_deep_copy :: "json \<Rightarrow> mem \<Rightarrow> json option \<times> mem" where
  "json_value_deep_copy (JArray xs cap) = (\<lambda>m.
     case json_value_init_array m of
       (None, m) \<Rightarrow> (None, m)
     | (Some _, m) \<Rightarrow> copy_items (map json_value_deep_copy xs) ([], 0) m)"
| "json_value_deep_copy (JObject kvs cap) = (\<lambda>m.
     case json_value_init_object m of
       (None, m) \<Rightarrow> (None, m)
     | (Some _, m) \<Rightarrow>
         (let fs = map (map_prod id json_value_deep_copy) kvs
          in copy_members fs (map fst fs) ([], 0) m))"
| "json_value_deep_copy (JBoolean b) = json_value_init_boolean b"
| "json_value_deep_copy (JNumber x) = json_value_init_number x"
| "json_value_deep_copy (JString s) = (\<lambda>m.
     case parson_strndup s (length s) m of
       (None, m) \<Rightarrow> (None, m)
     | (Some copy, m) \<Rightarrow>
         (case json_value_init_string_no_copy copy m of
            (None, m) \<Rightarrow> (None, vPortFree m)
          | (Some v, m) \<Rightarrow> (Some v, m)))"
| "json_value_deep_copy JNull = json_value_init_null"

section \<open>Validation\<close>

definition status :: "bool \<Rightarrow> json_status" where
  "status b = (if b then JSONSuccess else JSONFailure)"

text \<open>The loops stop at the first failure.\<close>

primrec json_validate :: "json \<Rightarrow> json option \<Rightarrow> json_status" where
  "json_validate JNull = (\<lambda>v. status (v \<noteq> None))"
| "json_validate (JString s) = (\<lambda>v. status (json_value_get_type v = JSONString))"
| "json_validate (JNumber x) = (\<lambda>v. status (json_value_get_type v = JSONNumber))"
| "json_validate (JBoolean b) = (\<lambda>v. status (json_value_get_type v = JSONBoolean))"
| "json_validate (JArray ss cap) = (\<lambda>v.
     case json_value_get_array v of
       None \<Rightarrow> JSONFailure
     | Some ar \<Rightarrow>
         (case map json_validate ss of
            [] \<Rightarrow> JSONSuccess
          | f # _ \<Rightarrow> status (list_all (\<lambda>x. f (Some x) = JSONSuccess) (fst ar))))"
| "json_validate (JObject ss cap) = (\<lambda>v.
     case json_value_get_object v of
       None \<Rightarrow> JSONFailure
     | Some ob \<Rightarrow>
         (let fs = map (map_prod id json_validate) ss
          in if fs = [] then JSONSuccess
             else if json_object_get_count (Some ob) < length fs then JSONFailure
             else status (list_all (\<lambda>(key, _).
                    case json_object_get_value (Some ob) (Some key) of
                      None \<Rightarrow> False
                    | Some w \<Rightarrow>
                        (case json_object_getn_value fs key (length key) of
                           None \<Rightarrow> False
                         | Some f \<Rightarrow> f (Some w) = JSONSuccess)) fs)))"

section \<open>Comparison\<close>

text \<open>The literal \<open>0.000001\<close>.\<close>

definition EPSILON :: dbl where "EPSILON = fst (dbl_value False 1 10 (- 6))"

primrec json_value_equals :: "json \<Rightarrow> json option \<Rightarrow> bool" where
  "json_value_equals JNull = (\<lambda>w. json_value_get_type w = JSONNull)"
| "json_value_equals (JString s) = (\<lambda>w.
     case w of Some (JString t) \<Rightarrow> length s = length t \<and> s = t | _ \<Rightarrow> False)"
| "json_value_equals (JNumber x) = (\<lambda>w.
     case w of Some (JNumber y) \<Rightarrow> dbl_less (dbl_abs (dbl_sub x y)) EPSILON | _ \<Rightarrow> False)"
| "json_value_equals (JBoolean b) = (\<lambda>w. case w of Some (JBoolean c) \<Rightarrow> b = c | _ \<Rightarrow> False)"
| "json_value_equals (JArray xs cap) = (\<lambda>w.
     case json_value_get_array w of
       None \<Rightarrow> False
     | Some ar \<Rightarrow>
         length (map json_value_equals xs) = length (fst ar) \<and>
         list_all2 (\<lambda>f y. f (Some y)) (map json_value_equals xs) (fst ar))"
| "json_value_equals (JObject kvs cap) = (\<lambda>w.
     case json_value_get_object w of
       None \<Rightarrow> False
     | Some ob \<Rightarrow>
         (let fs = map (map_prod id json_value_equals) kvs
          in length fs = length (fst ob) \<and>
             list_all (\<lambda>(key, _).
               case json_object_getn_value fs key (length key) of
                 None \<Rightarrow> json_object_get_value (Some ob) (Some key) = None
               | Some f \<Rightarrow> f (json_object_get_value (Some ob) (Some key))) fs))"

section \<open>Contents\<close>

text \<open>A value without the capacities of its containers.\<close>

primrec skel :: "json \<Rightarrow> json" where
  "skel JNull = JNull"
| "skel (JString s) = JString s"
| "skel (JNumber x) = JNumber x"
| "skel (JBoolean b) = JBoolean b"
| "skel (JArray xs cap) = JArray (map skel xs) 0"
| "skel (JObject kvs cap) = JObject (map (map_prod id skel) kvs) 0"

lemma depth_skel [simp]: "depth (skel v) = depth v"
proof (induction v)
  case (JObject kvs cap)
  then have "map (depth \<circ> (snd \<circ> map_prod id skel)) kvs = map (depth \<circ> snd) kvs"
    by (intro map_cong) (auto simp: snds.simps)
  from arg_cong [OF this, of "\<lambda>ds. fold max ds 0"] show ?case by (simp add: depth.simps o_def)
next
  case (JArray xs cap)
  then have "map (depth \<circ> skel) xs = map depth xs" by (intro map_cong) auto
  from arg_cong [OF this, of "\<lambda>ds. fold max ds 0"] show ?case by (simp add: depth.simps o_def)
qed simp_all

text \<open>An allocator that grants every request.\<close>

definition generous :: "mem \<Rightarrow> bool" where
  "generous m \<longleftrightarrow> (\<forall>k n. grants m k n)"

lemma generous_free [simp]: "generous (vPortFree m) = generous m"
  by (simp add: generous_def)

lemma generous_init:
  "generous m \<Longrightarrow> json_value_init_array m = (v, m') \<Longrightarrow> generous m' \<and> v \<noteq> None"
  "generous m \<Longrightarrow> json_value_init_object m = (v, m') \<Longrightarrow> generous m' \<and> v \<noteq> None"
  "generous m \<Longrightarrow> json_value_init_number x m = (v, m') \<Longrightarrow> \<not> IS_NUMBER_INVALID x \<Longrightarrow> generous m' \<and> v \<noteq> None"
  "generous m \<Longrightarrow> json_value_init_boolean b m = (v, m') \<Longrightarrow> generous m' \<and> v \<noteq> None"
  "generous m \<Longrightarrow> json_value_init_null m = (v, m') \<Longrightarrow> generous m' \<and> v \<noteq> None"
  "generous m \<Longrightarrow> json_value_init_string_no_copy s m = (v, m') \<Longrightarrow> generous m' \<and> v \<noteq> None"
  "generous m \<Longrightarrow> parson_strndup s n m = (r, m') \<Longrightarrow> generous m' \<and> r \<noteq> None"
  by (auto simp: generous_def json_value_init_array_def json_value_init_object_def json_value_init_number_def
      json_value_init_boolean_def json_value_init_null_def json_value_init_string_no_copy_def
      parson_strndup_def pvPortMalloc_def split: if_splits)

lemma generous_free_ptr [simp]: "generous (free_ptr b m) = generous m"
  by (simp add: free_ptr_def)

lemma generous_array_add:
  "generous m \<Longrightarrow> json_array_add ar v m = (st, ar', m') \<Longrightarrow> generous m' \<and> st = JSONSuccess"
  by (auto simp: json_array_add_def json_array_resize_def pvPortMalloc_def generous_def grown_def
      STARTING_CAPACITY_def free_ptr_def split: if_splits prod.splits)

lemma generous_object_add:
  "generous m \<Longrightarrow> json_object_add ob key (Some v) m = (st, ob', m') \<Longrightarrow>
     json_object_getn_value (fst ob) key (length key) = None \<Longrightarrow> generous m' \<and> st = JSONSuccess"
  by (auto simp: json_object_add_def json_object_addn_def json_object_resize_def parson_strndup_def
      pvPortMalloc_def generous_def grown_def STARTING_CAPACITY_def free_ptr_def
      split: if_splits prod.splits)


section \<open>The copy\<close>

text \<open>
  What a copy owes: the heap gains the blocks of the copy and no other, the copy has the same
  contents, and an allocator that grants every request makes it succeed.
\<close>

definition copied :: "json \<Rightarrow> mem \<Rightarrow> json option \<times> mem \<Rightarrow> bool" where
  "copied v m r =
     (live (snd r) = live m + opt_blocks (fst r) \<and>
      (\<forall>c. fst r = Some c \<longrightarrow> skel c = skel v \<and> json_ok c) \<and>
      (generous m \<longrightarrow> generous (snd r) \<and> fst r \<noteq> None))"

lemma depth_copy: "skel c = skel v \<Longrightarrow> depth c = depth v"
  by (metis depth_skel)

lemma copy_items_effect:
  assumes "\<And>v m. v \<in> set rest \<Longrightarrow> copied v m (json_value_deep_copy v m) \<and> depth v \<le> d"
    and "arr_ok d ar" "map skel (fst ar) = map skel done"
  shows "(case copy_items (map json_value_deep_copy rest) ar m of (r, m') \<Rightarrow>
    live m' = live m - arr_blocks ar + opt_blocks r \<and>
    (\<forall>c. r = Some c \<longrightarrow> skel c = JArray (map skel (done @ rest)) 0 \<and> json_ok c) \<and>
    (generous m \<longrightarrow> generous m' \<and> r \<noteq> None))"
  using assms
proof (induction rest arbitrary: ar m "done")
  case Nil
  then show ?case by (simp add: opt_blocks_def arr_blocks_def arr_ok_def del: blocks.simps)
next
  case (Cons v rest)
  obtain r m1 where c: "json_value_deep_copy v m = (r, m1)" by fastforce
  have cop: "copied v m (r, m1)" and dv: "depth v \<le> d" using Cons.prems(1) [of v m] c by auto
  show ?case
  proof (cases r)
    case None
    with c cop show ?thesis by (simp add: copied_def opt_blocks_def)
  next
    case (Some w)
    have w: "skel w = skel v" "json_ok w" "depth w \<le> d" "live m1 = live m + blocks w"
      using cop Some dv depth_copy [of w v] by (auto simp: copied_def opt_blocks_def)
    obtain st ar2 m2 where add: "json_array_add ar w m1 = (st, ar2, m2)"
      by (cases "json_array_add ar w m1")
    note ok = array_add_ok [OF add Cons.prems(2) w(2,3)]
    have gen: "generous m \<Longrightarrow> generous m2 \<and> st = JSONSuccess"
      using cop generous_array_add [OF _ add] by (auto simp: copied_def)
    show ?thesis
    proof (cases st)
      case JSONFailure
      with c Some add ok w gen show ?thesis by (auto simp: opt_blocks_def handed_def)
    next
      case JSONSuccess
      then have "map skel (fst ar2) = map skel (done @ [v])"
        using array_add_effect [OF add] Cons.prems(3) w(1) by simp
      from Cons.IH [OF _ _ this, of m2] Cons.prems(1) ok
      show ?thesis
        using c Some add w gen JSONSuccess
        by (auto simp: opt_blocks_def handed_def split: prod.splits)
    qed
  qed
qed

lemma copy_members_effect:
  assumes "\<And>k v m. (k, v) \<in> set kvs \<Longrightarrow> copied v m (json_value_deep_copy v m) \<and> depth v \<le> d \<and> NUL \<notin> set k"
    and "obj_ok d ob" "map (map_prod id skel) (fst ob) = map (map_prod id skel) done"
    and "kvs = done @ rest" "distinct (map fst kvs)"
  shows "(case copy_members (map (map_prod id json_value_deep_copy) kvs) (map fst rest) ob m of (r, m') \<Rightarrow>
    live m' = live m - obj_blocks ob + opt_blocks r \<and>
    (\<forall>c. r = Some c \<longrightarrow> skel c = JObject (map (map_prod id skel) kvs) 0 \<and> json_ok c) \<and>
    (generous m \<longrightarrow> generous m' \<and> r \<noteq> None))"
  using assms(2-4)
proof (induction rest arbitrary: ob m "done")
  case Nil
  then show ?case by (simp add: opt_blocks_def obj_blocks_def obj_ok_def id_def del: blocks.simps)
next
  case (Cons kv rest)
  obtain k v where kv: "kv = (k, v)" by fastforce
  with Cons.prems(3) have mem: "(k, v) \<in> set kvs" by simp
  obtain r m1 where c: "json_value_deep_copy v m = (r, m1)" by fastforce
  have cop: "copied v m (r, m1)" and dv: "depth v \<le> d" and k: "NUL \<notin> set k"
    using assms(1) [OF mem, of m] c by auto
  note look = getn_member [OF assms(5) mem, of json_value_deep_copy]
  show ?case
  proof (cases r)
    case None
    with c cop look kv show ?thesis by (simp add: copied_def opt_blocks_def id_def)
  next
    case (Some w)
    have w: "skel w = skel v" "json_ok w" "depth w \<le> d" "live m1 = live m + blocks w"
      using cop Some dv depth_copy [of w v] by (auto simp: copied_def opt_blocks_def)
    obtain st ob2 m2 where add: "json_object_add ob k (Some w) m1 = (st, ob2, m2)"
      by (cases "json_object_add ob k (Some w) m1")
    note ok = object_add_ok [OF add Cons.prems(1) w(2,3) k]
    have names: "map fst (fst ob) = map fst done"
      using arg_cong [OF Cons.prems(2), of "map fst"] by (simp add: o_def)
    have "k \<notin> set (map fst done)" using assms(5) Cons.prems(3) kv by auto
    then have new: "json_object_getn_value (fst ob) k (length k) = None"
      unfolding names [symmetric] by (simp add: getn_map_of map_of_eq_None_iff)
    have gen: "generous m \<Longrightarrow> generous m2 \<and> st = JSONSuccess"
      using cop generous_object_add [OF _ add new] by (auto simp: copied_def)
    show ?thesis
    proof (cases st)
      case JSONFailure
      with c Some add ok w gen look kv show ?thesis by (auto simp: opt_blocks_def handed_def id_def)
    next
      case JSONSuccess
      then have "map (map_prod id skel) (fst ob2) = map (map_prod id skel) (done @ [kv])"
        using addn_effect [OF add [unfolded json_object_add_def]] Cons.prems(2) w(1) kv by (simp add: id_def)
      from Cons.IH [OF _ this, of m2] Cons.prems(3) ok
      show ?thesis
        using c Some add w gen JSONSuccess look kv
        by (auto simp: opt_blocks_def handed_def id_def split: prod.splits)
    qed
  qed
qed

lemma deep_copy_copied: "json_ok v \<Longrightarrow> copied v m (json_value_deep_copy v m)"
proof (induction v arbitrary: m)
  case (JArray xs cap)
  obtain r m1 where init: "json_value_init_array m = (r, m1)" by fastforce
  show ?case
  proof (cases r)
    case None
    with init live_init(2) [OF init] generous_init(1) [OF _ init] show ?thesis
      by (auto simp: copied_def)
  next
    case (Some w)
    then have w: "w = JArray [] 0" using init init_object_ok by blast
    have d: "depth v \<le> depth (JArray xs cap)" if "v \<in> set xs" for v
      using depth_array [of xs cap "depth (JArray xs cap) - 1"] that by (fastforce simp: depth.simps)
    have "copied v m (json_value_deep_copy v m) \<and> depth v \<le> depth (JArray xs cap)" if "v \<in> set xs" for v m
      using JArray that d by (auto simp: json_ok_array)
    from copy_items_effect [OF this obj_ok_empty(2), of xs "[]" m1] init Some w live_init(2) [OF init]
      generous_init(1) [OF _ init]
    show ?thesis by (auto simp: copied_def opt_blocks_def arr_blocks_def)
  qed
next
  case (JObject kvs cap)
  obtain r m1 where init: "json_value_init_object m = (r, m1)" by fastforce
  show ?case
  proof (cases r)
    case None
    with init live_init(1) [OF init] generous_init(2) [OF _ init] show ?thesis
      by (auto simp: copied_def)
  next
    case (Some w)
    then have w: "w = JObject [] 0" using init init_object_ok by blast
    have d: "depth v \<le> depth (JObject kvs cap)" if "(k, v) \<in> set kvs" for k v
      using depth_object [of kvs cap "depth (JObject kvs cap) - 1"] that by (fastforce simp: depth.simps)
    have c: "copied v m (json_value_deep_copy v m) \<and> depth v \<le> depth (JObject kvs cap) \<and> NUL \<notin> set k"
      if "(k, v) \<in> set kvs" for k v m
      using JObject that d by (fastforce simp: json_ok_object snds.simps)
    have "distinct (map fst kvs)" using JObject.prems by (simp add: json_ok_object names_ok_def names_def)
    from copy_members_effect [OF c obj_ok_empty(1) _ _ this, of "[]" kvs m1] init Some w
      live_init(1) [OF init] generous_init(2) [OF _ init]
    show ?thesis by (auto simp: copied_def opt_blocks_def obj_blocks_def Let_def id_def o_def split: prod.splits)
  qed
next
  case (JString s)
  show ?case
    by (auto simp: copied_def opt_blocks_def parson_strndup_def json_value_init_string_no_copy_def
        pvPortMalloc_def generous_def)
qed (auto simp: copied_def opt_blocks_def json_value_init_number_def json_value_init_boolean_def
    json_value_init_null_def pvPortMalloc_def generous_def dest: dbl_ok_valid)


section \<open>Comparison and validation\<close>

lemma EPSILON_positive: "dbl_less (Fin s 0 0) EPSILON"
proof -
  have "dbl_less (Fin True 0 0) EPSILON" "dbl_less (Fin False 0 0) EPSILON" by code_simp+
  then show ?thesis by (cases s) auto
qed

lemma dbl_sub_self: "\<not> IS_NUMBER_INVALID x \<Longrightarrow> \<exists>s. dbl_sub x x = Fin s 0 0"
  by (cases x) (auto simp: IS_NUMBER_INVALID_def dbl_sub_def dbl_round_def split: prod.splits)

lemma map_of_skel:
  assumes "map (map_prod id skel) kvs = map (map_prod id skel) kvs'"
  shows "map_option skel (map_of kvs k) = map_option skel (map_of kvs' k)"
  using arg_cong [OF assms, of "\<lambda>l. map_of l k"] by (simp add: map_of_map_prod_id)

text \<open>Values with the same contents are equal for the code.\<close>

lemma equals_skel: "json_ok v \<Longrightarrow> skel w = skel v \<Longrightarrow> json_value_equals v (Some w)"
proof (induction v arbitrary: w)
  case (JNumber x)
  then have w: "w = JNumber x" by (cases w) auto
  obtain s where "dbl_sub x x = Fin s 0 0" using dbl_sub_self dbl_ok_valid JNumber by fastforce
  then show ?case using w EPSILON_positive by (simp add: dbl_abs_def)
next
  case (JArray xs cap)
  then obtain ys cap' where w: "w = JArray ys cap'" "map skel ys = map skel xs" by (cases w) auto
  then have len: "length ys = length xs" by (metis length_map)
  have "list_all2 (\<lambda>f y. f (Some y)) (map json_value_equals xs) ys"
  proof (rule list_all2_all_nthI)
    fix i assume "i < length (map json_value_equals xs)"
    then have i: "i < length xs" by simp
    have "skel (ys ! i) = skel (xs ! i)" using arg_cong [OF w(2), of "\<lambda>l. l ! i"] i len by simp
    with JArray i show "(map json_value_equals xs ! i) (Some (ys ! i))" by (simp add: json_ok_array)
  qed (simp add: len)
  with w len show ?case by (simp add: json_value_get_array_def)
next
  case (JObject kvs cap)
  then obtain kvs' cap' where w: "w = JObject kvs' cap'"
    "map (map_prod id skel) kvs' = map (map_prod id skel) kvs" by (cases w) auto
  then have len: "length kvs' = length kvs" by (metis length_map)
  have dist: "distinct (map fst kvs)" using JObject.prems by (simp add: json_ok_object names_ok_def names_def)
  have "json_value_equals v (map_of kvs' k)" if kv: "(k, v) \<in> set kvs" for k v
  proof -
    have "map_of kvs k = Some v" using dist kv by simp
    with map_of_skel [OF w(2), of k] obtain v' where v': "map_of kvs' k = Some v'" "skel v' = skel v"
      by auto
    have "json_ok v" using JObject.prems(1) kv by (auto simp: json_ok_object)
    with JObject.IH [OF kv _ this v'(2)] v'(1) show ?thesis by (simp add: snds.simps)
  qed
  then have "list_all (\<lambda>(key, _). case json_object_getn_value (map (map_prod id json_value_equals) kvs) key (length key) of
       None \<Rightarrow> json_object_get_value (Some (kvs', cap')) (Some key) = None
     | Some f \<Rightarrow> f (json_object_get_value (Some (kvs', cap')) (Some key))) (map (map_prod id json_value_equals) kvs)"
    by (auto simp: list_all_iff getn_member [OF dist])
  with w len show ?case by (simp add: json_value_get_object_def Let_def)
next
  case (JString s)
  then show ?case by (cases w) auto
next
  case (JBoolean b)
  then show ?case by (cases w) auto
next
  case JNull
  then show ?case by (cases w) (auto simp: json_value_get_type_def)
qed

text \<open>
  What a schema says: null admits every value, a scalar its own type, an array that every item
  conforms to its first item, an object that every member is there and conforms.
\<close>

inductive conforms :: "json \<Rightarrow> json \<Rightarrow> bool" where
  "conforms JNull v"
| "conforms (JString s) (JString t)"
| "conforms (JNumber x) (JNumber y)"
| "conforms (JBoolean b) (JBoolean c)"
| "conforms (JArray [] cap) (JArray xs cap')"
| "(\<And>x. x \<in> set xs \<Longrightarrow> conforms s x) \<Longrightarrow> conforms (JArray (s # ss) cap) (JArray xs cap')"
| "(\<And>k s. (k, s) \<in> set ss \<Longrightarrow> \<exists>v. map_of kvs k = Some v \<and> conforms s v) \<Longrightarrow>
     conforms (JObject ss cap) (JObject kvs cap')"

inductive_simps conforms_simps:
  "conforms JNull v" "conforms (JString s) v" "conforms (JNumber x) v" "conforms (JBoolean b) v"
  "conforms (JArray [] cap) v" "conforms (JArray (s # ss) cap) v" "conforms (JObject ss cap) v"

lemma status_Success [simp]: "status b = JSONSuccess \<longleftrightarrow> b"
  by (simp add: status_def)

text \<open>
  The test for the number of members refuses nothing more: a schema has distinct names, and
  each has to be found.
\<close>

lemma names_found_count:
  assumes "distinct (map fst ss)" "\<And>k s. (k, s) \<in> set ss \<Longrightarrow> map_of kvs k \<noteq> None"
  shows "length ss \<le> length kvs"
proof -
  have "fst ` set ss \<subseteq> fst ` set kvs"
    using assms(2) by (force simp: map_of_eq_None_iff)
  then have "card (fst ` set ss) \<le> card (fst ` set kvs)" by (intro card_mono) auto
  also have "\<dots> \<le> length kvs" by (metis card_length length_map list.set_map)
  finally show ?thesis using distinct_card [OF assms(1)] by simp
qed

lemma validate_conforms:
  "json_ok s \<Longrightarrow> json_validate s (Some v) = JSONSuccess \<longleftrightarrow> conforms s v"
proof (induction s arbitrary: v)
  case (JArray ss cap)
  show ?case
  proof (cases ss)
    case Nil
    then show ?thesis by (cases v) (auto simp: conforms_simps json_value_get_array_def)
  next
    case (Cons s ss')
    with JArray show ?thesis
      by (cases v) (auto simp: conforms_simps json_value_get_array_def list_all_iff json_ok_array)
  qed
next
  case (JObject ss cap)
  have dist: "distinct (map fst ss)" using JObject.prems by (simp add: json_ok_object names_ok_def names_def)
  have IH: "json_validate s (Some w) = JSONSuccess \<longleftrightarrow> conforms s w" if "(k, s) \<in> set ss" for k s w
    using JObject that by (fastforce simp: json_ok_object snds.simps)
  show ?case
  proof (cases "json_value_get_object (Some v)")
    case None
    then show ?thesis
      by (cases v) (auto simp: conforms_simps json_value_get_object_def)
  next
    case (Some ob)
    then obtain kvs cap' where v: "v = JObject kvs cap'" "ob = (kvs, cap')"
      by (cases v) (auto simp: json_value_get_object_def)
    let ?all = "\<forall>(k, s) \<in> set ss. \<exists>w. map_of kvs k = Some w \<and> conforms s w"
    have "json_validate (JObject ss cap) (Some v) = JSONSuccess \<longleftrightarrow> ss = [] \<or> (length ss \<le> length kvs \<and> ?all)"
    proof -
      have "list_all (\<lambda>(key, _).
          case json_object_get_value (Some (kvs, cap')) (Some key) of None \<Rightarrow> False
          | Some w \<Rightarrow> (case json_object_getn_value (map (map_prod id json_validate) ss) key (length key) of
              None \<Rightarrow> False | Some f \<Rightarrow> f (Some w) = JSONSuccess)) (map (map_prod id json_validate) ss) \<longleftrightarrow> ?all"
        unfolding list_all_iff
        by (auto simp: getn_member [OF dist] IH split: option.splits)
      then show ?thesis
        using v by (auto simp: json_value_get_object_def Let_def json_object_get_count_def)
    qed
    moreover have "?all \<Longrightarrow> length ss \<le> length kvs"
      by (rule names_found_count [OF dist]) fastforce
    moreover have "conforms (JObject ss cap) v \<longleftrightarrow> ?all"
      using v by (auto simp: conforms_simps)
    ultimately show ?thesis by auto
  qed
next
  case JNull
  then show ?case by (simp add: conforms_simps)
next
  case (JString s)
  then show ?case by (cases v) (simp_all add: conforms_simps json_value_get_type_def)
next
  case (JNumber x)
  then show ?case by (cases v) (simp_all add: conforms_simps json_value_get_type_def)
next
  case (JBoolean b)
  then show ?case by (cases v) (simp_all add: conforms_simps json_value_get_type_def)
qed

end
