(* ===== verification/JsonApi.thy ===== *)
theory JsonApi imports JsonCopy begin

text \<open>
  The rest of the interface of parson (nfc/src/parson.c): typed access to members and items,
  members named by a path of names with dots between them, and the calls that make a value and
  put it into an object or an array at once. When such a call fails it frees the value it made.
\<close>

section \<open>Strings\<close>

definition json_value_init_string_with_len :: "string option \<Rightarrow> nat \<Rightarrow> mem \<Rightarrow> json option \<times> mem" where
  "json_value_init_string_with_len s n m =
     (case s of
        None \<Rightarrow> (None, m)
      | Some s \<Rightarrow>
          if \<not> is_valid_utf8 s n then (None, m)
          else (case parson_strndup s n m of
                  (None, m) \<Rightarrow> (None, m)
                | (Some copy, m) \<Rightarrow>
                    (case json_value_init_string_no_copy copy m of
                       (None, m) \<Rightarrow> (None, vPortFree m)
                     | (Some v, m) \<Rightarrow> (Some v, m))))"

definition json_value_init_string :: "string option \<Rightarrow> mem \<Rightarrow> json option \<times> mem" where
  "json_value_init_string s m =
     (case s of None \<Rightarrow> (None, m) | Some b \<Rightarrow> json_value_init_string_with_len s (length (c_str b)) m)"

section \<open>Members\<close>

definition json_object_get_string :: "jobject option \<Rightarrow> string option \<Rightarrow> string option" where
  "json_object_get_string ob name = json_value_get_string (json_object_get_value ob name)"

definition json_object_get_string_len :: "jobject option \<Rightarrow> string option \<Rightarrow> nat" where
  "json_object_get_string_len ob name = json_value_get_string_len (json_object_get_value ob name)"

definition json_object_get_number :: "jobject option \<Rightarrow> string option \<Rightarrow> dbl" where
  "json_object_get_number ob name = json_value_get_number (json_object_get_value ob name)"

definition json_object_get_object :: "jobject option \<Rightarrow> string option \<Rightarrow> jobject option" where
  "json_object_get_object ob name = json_value_get_object (json_object_get_value ob name)"

definition json_object_get_array :: "jobject option \<Rightarrow> string option \<Rightarrow> jarray option" where
  "json_object_get_array ob name = json_value_get_array (json_object_get_value ob name)"

definition json_object_get_boolean :: "jobject option \<Rightarrow> string option \<Rightarrow> int" where
  "json_object_get_boolean ob name = json_value_get_boolean (json_object_get_value ob name)"

definition json_object_has_value :: "jobject option \<Rightarrow> string option \<Rightarrow> bool" where
  "json_object_has_value ob name \<longleftrightarrow> json_object_get_value ob name \<noteq> None"

definition json_object_has_value_of_type :: "jobject option \<Rightarrow> string option \<Rightarrow> json_value_type \<Rightarrow> bool" where
  "json_object_has_value_of_type ob name ty \<longleftrightarrow>
     json_object_get_value ob name \<noteq> None \<and> json_value_get_type (json_object_get_value ob name) = ty"

section \<open>Items\<close>

definition json_array_get_string :: "jarray option \<Rightarrow> nat \<Rightarrow> string option" where
  "json_array_get_string ar i = json_value_get_string (json_array_get_value ar i)"

definition json_array_get_string_len :: "jarray option \<Rightarrow> nat \<Rightarrow> nat" where
  "json_array_get_string_len ar i = json_value_get_string_len (json_array_get_value ar i)"

definition json_array_get_number :: "jarray option \<Rightarrow> nat \<Rightarrow> dbl" where
  "json_array_get_number ar i = json_value_get_number (json_array_get_value ar i)"

definition json_array_get_object :: "jarray option \<Rightarrow> nat \<Rightarrow> jobject option" where
  "json_array_get_object ar i = json_value_get_object (json_array_get_value ar i)"

definition json_array_get_array :: "jarray option \<Rightarrow> nat \<Rightarrow> jarray option" where
  "json_array_get_array ar i = json_value_get_array (json_array_get_value ar i)"

definition json_array_get_boolean :: "jarray option \<Rightarrow> nat \<Rightarrow> int" where
  "json_array_get_boolean ar i = json_value_get_boolean (json_array_get_value ar i)"

section \<open>Paths\<close>

text \<open>The position of the first dot.\<close>

definition strchr_dot :: "string \<Rightarrow> nat option" where
  "strchr_dot s = (if CHR ''.'' \<in> set s then Some (length (takeWhile (\<lambda>c. c \<noteq> CHR ''.'') s)) else None)"

lemma takeWhile_less: "c \<in> set s \<Longrightarrow> length (takeWhile (\<lambda>x. x \<noteq> c) s) < length s"
  by (induction s) auto

lemma strchr_dot_less: "strchr_dot s = Some i \<Longrightarrow> i < length s"
  by (auto simp: strchr_dot_def takeWhile_less split: if_splits)

function json_object_dotget_value :: "jobject option \<Rightarrow> string \<Rightarrow> json option" where
  "json_object_dotget_value ob name =
     (case strchr_dot name of
        None \<Rightarrow> json_object_get_value ob (Some name)
      | Some i \<Rightarrow>
          json_object_dotget_value
            (json_value_get_object (case ob of None \<Rightarrow> None | Some ob \<Rightarrow> json_object_getn_value (fst ob) name i))
            (drop (i + 1) name))"
  by pat_completeness auto

termination json_object_dotget_value
  by (relation "measure (\<lambda>(ob, name). length name)") (auto dest: strchr_dot_less)

declare json_object_dotget_value.simps [simp del]

definition json_object_dotget_string :: "jobject option \<Rightarrow> string \<Rightarrow> string option" where
  "json_object_dotget_string ob name = json_value_get_string (json_object_dotget_value ob name)"

definition json_object_dotget_string_len :: "jobject option \<Rightarrow> string \<Rightarrow> nat" where
  "json_object_dotget_string_len ob name = json_value_get_string_len (json_object_dotget_value ob name)"

definition json_object_dotget_number :: "jobject option \<Rightarrow> string \<Rightarrow> dbl" where
  "json_object_dotget_number ob name = json_value_get_number (json_object_dotget_value ob name)"

definition json_object_dotget_object :: "jobject option \<Rightarrow> string \<Rightarrow> jobject option" where
  "json_object_dotget_object ob name = json_value_get_object (json_object_dotget_value ob name)"

definition json_object_dotget_array :: "jobject option \<Rightarrow> string \<Rightarrow> jarray option" where
  "json_object_dotget_array ob name = json_value_get_array (json_object_dotget_value ob name)"

definition json_object_dotget_boolean :: "jobject option \<Rightarrow> string \<Rightarrow> int" where
  "json_object_dotget_boolean ob name = json_value_get_boolean (json_object_dotget_value ob name)"

definition json_object_dothas_value :: "jobject option \<Rightarrow> string \<Rightarrow> bool" where
  "json_object_dothas_value ob name \<longleftrightarrow> json_object_dotget_value ob name \<noteq> None"

definition json_object_dothas_value_of_type :: "jobject option \<Rightarrow> string \<Rightarrow> json_value_type \<Rightarrow> bool" where
  "json_object_dothas_value_of_type ob name ty \<longleftrightarrow>
     json_object_dotget_value ob name \<noteq> None \<and> json_value_get_type (json_object_dotget_value ob name) = ty"

text \<open>The object found under a name is changed where it stands.\<close>

definition put_member :: "string \<Rightarrow> jobject \<Rightarrow> jobject \<Rightarrow> jobject" where
  "put_member key sub ob =
     (case index_of key (fst ob) of
        None \<Rightarrow> ob
      | Some i \<Rightarrow> ((fst ob)[i := (fst (fst ob ! i), JObject (fst sub) (snd sub))], snd ob))"

function json_object_dotremove_internal ::
    "jobject option \<Rightarrow> string \<Rightarrow> bool \<Rightarrow> mem \<Rightarrow> json_status \<times> jobject option \<times> mem" where
  "json_object_dotremove_internal ob name free_value m =
     (case strchr_dot name of
        None \<Rightarrow> json_object_remove_internal ob name free_value m
      | Some i \<Rightarrow>
          (case ob of
             None \<Rightarrow> (JSONFailure, ob, m)
           | Some ob' \<Rightarrow>
               (case json_object_getn_value (fst ob') name i of
                  Some (JObject kvs cap) \<Rightarrow>
                    (case json_object_dotremove_internal (Some (kvs, cap)) (drop (i + 1) name) free_value m of
                       (st, Some sub, m) \<Rightarrow> (st, Some (put_member (take i name) sub ob'), m)
                     | (st, None, m) \<Rightarrow> (st, ob, m))
                | _ \<Rightarrow> (JSONFailure, ob, m))))"
  by pat_completeness auto

termination json_object_dotremove_internal
  by (relation "measure (\<lambda>(ob, name, b, m). length name)") (auto dest: strchr_dot_less)

declare json_object_dotremove_internal.simps [simp del]

definition json_object_dotremove ::
    "jobject option \<Rightarrow> string \<Rightarrow> mem \<Rightarrow> json_status \<times> jobject option \<times> mem" where
  "json_object_dotremove ob name m = json_object_dotremove_internal ob name True m"

function json_object_dotset_value ::
    "jobject \<Rightarrow> string \<Rightarrow> bool \<Rightarrow> json \<Rightarrow> mem \<Rightarrow> json_status \<times> jobject \<times> mem" where
  "json_object_dotset_value ob name parented v m =
     (case strchr_dot name of
        None \<Rightarrow>
          (case json_object_set_value (Some ob) (Some name) parented (Some v) m of
             (st, ob', m) \<Rightarrow> (st, (case ob' of None \<Rightarrow> ob | Some ob' \<Rightarrow> ob'), m))
      | Some i \<Rightarrow>
          (case json_object_getn_value (fst ob) name i of
             Some (JObject kvs cap) \<Rightarrow>
               (case json_object_dotset_value (kvs, cap) (drop (i + 1) name) parented v m of
                  (st, sub, m) \<Rightarrow> (st, put_member (take i name) sub ob, m))
           | Some _ \<Rightarrow> (JSONFailure, ob, m)
           | None \<Rightarrow>
               (case json_value_init_object m of
                  (None, m) \<Rightarrow> (JSONFailure, ob, m)
                | (Some _, m) \<Rightarrow>
                    (case json_object_dotset_value ([], 0) (drop (i + 1) name) parented v m of
                       (JSONFailure, sub, m) \<Rightarrow> (JSONFailure, ob, free_object sub m)
                     | (JSONSuccess, sub, m) \<Rightarrow>
                         (case json_object_addn ob name i (Some (JObject (fst sub) (snd sub))) m of
                            (JSONSuccess, ob, m) \<Rightarrow> (JSONSuccess, ob, m)
                          | (JSONFailure, ob, m) \<Rightarrow>
                              (case json_object_dotremove_internal (Some sub) (drop (i + 1) name) False m of
                                 (_, Some sub, m) \<Rightarrow> (JSONFailure, ob, free_object sub m)
                               | (_, None, m) \<Rightarrow> (JSONFailure, ob, m)))))))"
  by pat_completeness auto

termination json_object_dotset_value
  by (relation "measure (\<lambda>(ob, name, b, v, m). length name)") (auto dest: strchr_dot_less)

declare json_object_dotset_value.simps [simp del]

section \<open>Making and putting\<close>

definition set_new ::
    "jobject option \<Rightarrow> string option \<Rightarrow> json option \<times> mem \<Rightarrow> json_status \<times> jobject option \<times> mem" where
  "set_new ob name made =
     (case made of (v, m) \<Rightarrow>
        (case json_object_set_value ob name False v m of
           (JSONFailure, ob, m) \<Rightarrow> (JSONFailure, ob, json_value_free_opt v m)
         | (JSONSuccess, ob, m) \<Rightarrow> (JSONSuccess, ob, m)))"

definition dotset_new ::
    "jobject \<Rightarrow> string \<Rightarrow> json option \<times> mem \<Rightarrow> json_status \<times> jobject \<times> mem" where
  "dotset_new ob name made =
     (case made of
        (None, m) \<Rightarrow> (JSONFailure, ob, m)
      | (Some v, m) \<Rightarrow>
          (case json_object_dotset_value ob name False v m of
             (JSONFailure, ob, m) \<Rightarrow> (JSONFailure, ob, json_value_free v m)
           | (JSONSuccess, ob, m) \<Rightarrow> (JSONSuccess, ob, m)))"

definition append_new ::
    "jarray option \<Rightarrow> json option \<times> mem \<Rightarrow> json_status \<times> jarray option \<times> mem" where
  "append_new ar made =
     (case made of
        (None, m) \<Rightarrow> (JSONFailure, ar, m)
      | (Some v, m) \<Rightarrow>
          (case json_array_append_value ar False (Some v) m of
             (JSONFailure, ar, m) \<Rightarrow> (JSONFailure, ar, json_value_free v m)
           | (JSONSuccess, ar, m) \<Rightarrow> (JSONSuccess, ar, m)))"

definition replace_new ::
    "jarray option \<Rightarrow> nat \<Rightarrow> json option \<times> mem \<Rightarrow> json_status \<times> jarray option \<times> mem" where
  "replace_new ar i made =
     (case made of
        (None, m) \<Rightarrow> (JSONFailure, ar, m)
      | (Some v, m) \<Rightarrow>
          (case json_array_replace_value ar i False (Some v) m of
             (JSONFailure, ar, m) \<Rightarrow> (JSONFailure, ar, json_value_free v m)
           | (JSONSuccess, ar, m) \<Rightarrow> (JSONSuccess, ar, m)))"

definition json_object_set_string :: "jobject option \<Rightarrow> string option \<Rightarrow> string option \<Rightarrow> mem \<Rightarrow> json_status \<times> jobject option \<times> mem" where
  "json_object_set_string ob name s m = set_new ob name (json_value_init_string s m)"

definition json_object_set_string_with_len :: "jobject option \<Rightarrow> string option \<Rightarrow> string option \<Rightarrow> nat \<Rightarrow> mem \<Rightarrow> json_status \<times> jobject option \<times> mem" where
  "json_object_set_string_with_len ob name s n m = set_new ob name (json_value_init_string_with_len s n m)"

definition json_object_set_number :: "jobject option \<Rightarrow> string option \<Rightarrow> dbl \<Rightarrow> mem \<Rightarrow> json_status \<times> jobject option \<times> mem" where
  "json_object_set_number ob name x m = set_new ob name (json_value_init_number x m)"

definition json_object_set_boolean :: "jobject option \<Rightarrow> string option \<Rightarrow> int \<Rightarrow> mem \<Rightarrow> json_status \<times> jobject option \<times> mem" where
  "json_object_set_boolean ob name b m = set_new ob name (json_value_init_boolean b m)"

definition json_object_set_null :: "jobject option \<Rightarrow> string option \<Rightarrow> mem \<Rightarrow> json_status \<times> jobject option \<times> mem" where
  "json_object_set_null ob name m = set_new ob name (json_value_init_null m)"

definition json_object_dotset_string :: "jobject \<Rightarrow> string \<Rightarrow> string option \<Rightarrow> mem \<Rightarrow> json_status \<times> jobject \<times> mem" where
  "json_object_dotset_string ob name s m = dotset_new ob name (json_value_init_string s m)"

definition json_object_dotset_string_with_len :: "jobject \<Rightarrow> string \<Rightarrow> string option \<Rightarrow> nat \<Rightarrow> mem \<Rightarrow> json_status \<times> jobject \<times> mem" where
  "json_object_dotset_string_with_len ob name s n m = dotset_new ob name (json_value_init_string_with_len s n m)"

definition json_object_dotset_number :: "jobject \<Rightarrow> string \<Rightarrow> dbl \<Rightarrow> mem \<Rightarrow> json_status \<times> jobject \<times> mem" where
  "json_object_dotset_number ob name x m = dotset_new ob name (json_value_init_number x m)"

definition json_object_dotset_boolean :: "jobject \<Rightarrow> string \<Rightarrow> int \<Rightarrow> mem \<Rightarrow> json_status \<times> jobject \<times> mem" where
  "json_object_dotset_boolean ob name b m = dotset_new ob name (json_value_init_boolean b m)"

definition json_object_dotset_null :: "jobject \<Rightarrow> string \<Rightarrow> mem \<Rightarrow> json_status \<times> jobject \<times> mem" where
  "json_object_dotset_null ob name m = dotset_new ob name (json_value_init_null m)"

definition json_array_append_string :: "jarray option \<Rightarrow> string option \<Rightarrow> mem \<Rightarrow> json_status \<times> jarray option \<times> mem" where
  "json_array_append_string ar s m = append_new ar (json_value_init_string s m)"

definition json_array_append_string_with_len :: "jarray option \<Rightarrow> string option \<Rightarrow> nat \<Rightarrow> mem \<Rightarrow> json_status \<times> jarray option \<times> mem" where
  "json_array_append_string_with_len ar s n m = append_new ar (json_value_init_string_with_len s n m)"

definition json_array_append_number :: "jarray option \<Rightarrow> dbl \<Rightarrow> mem \<Rightarrow> json_status \<times> jarray option \<times> mem" where
  "json_array_append_number ar x m = append_new ar (json_value_init_number x m)"

definition json_array_append_boolean :: "jarray option \<Rightarrow> int \<Rightarrow> mem \<Rightarrow> json_status \<times> jarray option \<times> mem" where
  "json_array_append_boolean ar b m = append_new ar (json_value_init_boolean b m)"

definition json_array_append_null :: "jarray option \<Rightarrow> mem \<Rightarrow> json_status \<times> jarray option \<times> mem" where
  "json_array_append_null ar m = append_new ar (json_value_init_null m)"

definition json_array_replace_string :: "jarray option \<Rightarrow> nat \<Rightarrow> string option \<Rightarrow> mem \<Rightarrow> json_status \<times> jarray option \<times> mem" where
  "json_array_replace_string ar i s m = replace_new ar i (json_value_init_string s m)"

definition json_array_replace_string_with_len :: "jarray option \<Rightarrow> nat \<Rightarrow> string option \<Rightarrow> nat \<Rightarrow> mem \<Rightarrow> json_status \<times> jarray option \<times> mem" where
  "json_array_replace_string_with_len ar i s n m = replace_new ar i (json_value_init_string_with_len s n m)"

definition json_array_replace_number :: "jarray option \<Rightarrow> nat \<Rightarrow> dbl \<Rightarrow> mem \<Rightarrow> json_status \<times> jarray option \<times> mem" where
  "json_array_replace_number ar i x m = replace_new ar i (json_value_init_number x m)"

definition json_array_replace_boolean :: "jarray option \<Rightarrow> nat \<Rightarrow> int \<Rightarrow> mem \<Rightarrow> json_status \<times> jarray option \<times> mem" where
  "json_array_replace_boolean ar i b m = replace_new ar i (json_value_init_boolean b m)"

definition json_array_replace_null :: "jarray option \<Rightarrow> nat \<Rightarrow> mem \<Rightarrow> json_status \<times> jarray option \<times> mem" where
  "json_array_replace_null ar i m = replace_new ar i (json_value_init_null m)"

end
