(* ===== verification/JsonPaths.thy ===== *)
theory JsonPaths imports JsonApi begin

text \<open>
  What the calls with paths and the calls that make a value and put it in place guarantee: a
  value that was set is found again, and no block of the heap is lost.
\<close>

section \<open>Paths\<close>

lemma getn_path: "i < length name \<Longrightarrow> json_object_getn_value kvs name i = map_of kvs (take i name)"
  using getn_take [of kvs name i] getn_map_of [of "take i name" i kvs] by simp

lemma dotget_plain: "strchr_dot name = None \<Longrightarrow> json_object_dotget_value (Some ob) name = map_of (fst ob) name"
  by (cases ob) (simp add: json_object_dotget_value.simps)

lemma dotget_none: "json_object_dotget_value None name = None"
proof (induction "length name" arbitrary: name rule: less_induct)
  case less
  then show ?case
    by (subst json_object_dotget_value.simps)
      (auto simp: json_object_get_value_def json_value_get_object_def dest: strchr_dot_less split: option.splits)
qed

lemma dotget_step:
  "strchr_dot name = Some i \<Longrightarrow> json_object_dotget_value (Some ob) name =
     (case map_of (fst ob) (take i name) of
        Some (JObject kvs cap) \<Rightarrow> json_object_dotget_value (Some (kvs, cap)) (drop (i + 1) name)
      | _ \<Rightarrow> None)"
  using getn_path [OF strchr_dot_less, of name i "fst ob"]
  by (subst json_object_dotget_value.simps)
    (auto simp: json_value_get_object_def dotget_none split: option.splits json.splits)

lemma put_member_get:
  assumes "map_of (fst ob) key = Some old"
  shows "map_of (fst (put_member key sub ob)) key = Some (JObject (fst sub) (snd sub))"
proof -
  obtain i where i: "index_of key (fst ob) = Some i" using assms by (rule index_of_found)
  with index_of_Some [OF i] map_of_update [OF i] show ?thesis by (simp add: put_member_def)
qed

lemma put_member_blocks:
  assumes "map_of (fst ob) key = Some old"
  shows "obj_blocks (put_member key sub ob) = obj_blocks ob + obj_blocks sub - blocks old"
proof -
  obtain i where i: "index_of key (fst ob) = Some i" using assms by (rule index_of_found)
  note at = index_of_Some [OF i]
  obtain kvs cap where ob: "ob = (kvs, cap)" by fastforce
  have "sum_list ((map (\<lambda>(k, v). 1 + blocks v) kvs)[i := 1 + obj_blocks sub]) =
      sum_list (map (\<lambda>(k, v). 1 + blocks v) kvs) + obj_blocks sub - blocks old"
    using at ob assms by (simp add: sum_list_update_int case_prod_unfold)
  then show ?thesis
    using i ob by (simp add: put_member_def obj_blocks_eq map_update obj_blocks_def del: blocks.simps)
      (simp add: obj_blocks_eq [unfolded obj_blocks_def fst_conv snd_conv] map_update del: blocks.simps)
qed

lemma dotremove_plain:
  "strchr_dot name = None \<Longrightarrow>
     json_object_dotremove_internal ob name free_value m = json_object_remove_internal ob name free_value m"
  by (subst json_object_dotremove_internal.simps) simp

lemma dotremove_step:
  assumes "strchr_dot name = Some i"
  shows "json_object_dotremove_internal (Some ob) name free_value m =
     (case map_of (fst ob) (take i name) of
        Some (JObject kvs cap) \<Rightarrow>
          (case json_object_dotremove_internal (Some (kvs, cap)) (drop (i + 1) name) free_value m of
             (st, Some sub, m) \<Rightarrow> (st, Some (put_member (take i name) sub ob), m)
           | (st, None, m) \<Rightarrow> (st, Some ob, m))
      | _ \<Rightarrow> (JSONFailure, Some ob, m))"
  unfolding json_object_dotremove_internal.simps [of "Some ob" name free_value m] assms
  unfolding option.case getn_path [OF strchr_dot_less [OF assms]] by (rule refl)

lemma case_not_object:
  "\<nexists>kvs cap. w = Some (JObject kvs cap) \<Longrightarrow> (case w of Some (JObject kvs cap) \<Rightarrow> f kvs cap | _ \<Rightarrow> x) = x"
  by (auto split: option.splits json.splits)

lemma dotremove_effect:
  assumes "json_object_dotremove_internal (Some ob) name free_value m = (st, ob', m')"
  shows "\<exists>ob1. ob' = Some ob1 \<and>
    (st = JSONSuccess \<longleftrightarrow> json_object_dotget_value (Some ob) name \<noteq> None) \<and>
    live m' - obj_blocks ob1 = live m - obj_blocks ob +
      (if st = JSONSuccess \<and> \<not> free_value then blocks (the (json_object_dotget_value (Some ob) name)) else 0)"
  using assms
proof (induction "length name" arbitrary: name ob st ob' m m' rule: less_induct)
  case less
  show ?case
  proof (cases "strchr_dot name")
    case None
    from remove_effect [OF less.prems [unfolded dotremove_plain [OF None]]] show ?thesis
      unfolding dotget_plain [OF None] by blast
  next
    case (Some i)
    note i = strchr_dot_less [OF Some]
    note step = dotremove_step [OF Some, of ob free_value m] dotget_step [OF Some, of ob]
    show ?thesis
    proof (cases "\<exists>kvs cap. map_of (fst ob) (take i name) = Some (JObject kvs cap)")
      case False
      note no = case_not_object [OF False]
      have "json_object_dotremove_internal (Some ob) name free_value m = (JSONFailure, Some ob, m)"
        "json_object_dotget_value (Some ob) name = None"
        by (simp_all only: step no)
      with less.prems show ?thesis by (intro exI [of _ ob]) auto
    next
      case True
      then obtain kvs cap where sub: "map_of (fst ob) (take i name) = Some (JObject kvs cap)" by blast
      obtain st1 ob1 m1 where r:
        "json_object_dotremove_internal (Some (kvs, cap)) (drop (i + 1) name) free_value m = (st1, ob1, m1)"
        by (cases "json_object_dotremove_internal (Some (kvs, cap)) (drop (i + 1) name) free_value m")
      have "length (drop (i + 1) name) < length name" using i by simp
      from less.hyps [OF this r] obtain sub1 where "ob1 = Some sub1"
        "st1 = JSONSuccess \<longleftrightarrow> json_object_dotget_value (Some (kvs, cap)) (drop (i + 1) name) \<noteq> None"
        "live m1 - obj_blocks sub1 = live m - obj_blocks (kvs, cap) +
          (if st1 = JSONSuccess \<and> \<not> free_value
           then blocks (the (json_object_dotget_value (Some (kvs, cap)) (drop (i + 1) name))) else 0)"
        by blast
      moreover have "blocks (JObject kvs cap) = obj_blocks (kvs, cap)" by (simp only: obj_blocks_def fst_conv snd_conv)
      ultimately show ?thesis
        using less.prems r sub step put_member_blocks [OF sub, of sub1]
        by (intro exI [of _ "put_member (take i name) sub1 ob"]) (auto simp del: blocks.simps)
    qed
  qed
qed

lemma dotset_plain:
  "strchr_dot name = None \<Longrightarrow> json_object_dotset_value ob name parented v m =
     (case json_object_set_value (Some ob) (Some name) parented (Some v) m of
        (st, ob', m) \<Rightarrow> (st, (case ob' of None \<Rightarrow> ob | Some ob' \<Rightarrow> ob'), m))"
  by (subst json_object_dotset_value.simps) simp

lemma dotset_into:
  assumes "strchr_dot name = Some i" "map_of (fst ob) (take i name) = Some (JObject kvs cap)"
  shows "json_object_dotset_value ob name parented v m =
    (case json_object_dotset_value (kvs, cap) (drop (i + 1) name) parented v m of
       (st, sub, m) \<Rightarrow> (st, put_member (take i name) sub ob, m))"
  using assms getn_path [OF strchr_dot_less, of name i "fst ob"]
  by (subst json_object_dotset_value.simps) simp

lemma dotset_blocked:
  assumes "strchr_dot name = Some i" "map_of (fst ob) (take i name) = Some w" "\<nexists>kvs cap. w = JObject kvs cap"
  shows "json_object_dotset_value ob name parented v m = (JSONFailure, ob, m)"
  using assms getn_path [OF strchr_dot_less, of name i "fst ob"]
  by (subst json_object_dotset_value.simps) (cases w; simp)

lemma dotset_new_object:
  assumes "strchr_dot name = Some i" "map_of (fst ob) (take i name) = None"
  shows "json_object_dotset_value ob name parented v m =
    (case json_value_init_object m of
       (None, m) \<Rightarrow> (JSONFailure, ob, m)
     | (Some _, m) \<Rightarrow>
         (case json_object_dotset_value ([], 0) (drop (i + 1) name) parented v m of
            (JSONFailure, sub, m) \<Rightarrow> (JSONFailure, ob, free_object sub m)
          | (JSONSuccess, sub, m) \<Rightarrow>
              (case json_object_addn ob name i (Some (JObject (fst sub) (snd sub))) m of
                 (JSONSuccess, ob, m) \<Rightarrow> (JSONSuccess, ob, m)
               | (JSONFailure, ob, m) \<Rightarrow>
                   (case json_object_dotremove_internal (Some sub) (drop (i + 1) name) False m of
                      (_, Some sub, m) \<Rightarrow> (JSONFailure, ob, free_object sub m)
                    | (_, None, m) \<Rightarrow> (JSONFailure, ob, m)))))"
  using assms getn_path [OF strchr_dot_less, of name i "fst ob"]
  by (subst json_object_dotset_value.simps) simp

lemma set_value_get:
  assumes "json_object_set_value (Some ob) (Some k) parented (Some v) m = (JSONSuccess, Some ob', m')"
  shows "map_of (fst ob') k = Some v"
proof -
  obtain kvs cap where ob: "ob = (kvs, cap)" by fastforce
  have p: "\<not> parented" using assms by (auto simp: json_object_set_value_def ob)
  show ?thesis
  proof (cases "map_of kvs k")
    case None
    then have "fst ob' = kvs @ [(k, v)]"
      using assms ob p addn_effect [of ob k "length k" "Some v" m]
      by (auto simp: set_value_new split: prod.splits)
    with None show ?thesis by (simp add: map_add_def)
  next
    case (Some old)
    then obtain i where i: "index_of k kvs = Some i" by (rule index_of_found)
    with assms ob p have "fst ob' = kvs[i := (k, v)]" by (auto simp: set_value_old)
    with map_of_update [OF i, of v] show ?thesis by simp
  qed
qed

text \<open>
  Setting a path: the blocks of the value go into the object exactly when the call succeeds,
  also when the allocator refuses a request half way, and the path then leads to the value.
\<close>

lemma dotset_effect:
  assumes "json_object_dotset_value ob name parented v m = (st, ob', m')"
  shows "live m' - obj_blocks ob' = live m - obj_blocks ob - handed st (Some v) \<and>
    (st = JSONSuccess \<longrightarrow> json_object_dotget_value (Some ob') name = Some v)"
  using assms
proof (induction "length name" arbitrary: name ob st ob' m m' rule: less_induct)
  case less
  show ?case
  proof (cases "strchr_dot name")
    case None
    obtain st1 r m1 where set: "json_object_set_value (Some ob) (Some name) parented (Some v) m = (st1, r, m1)"
      by (cases "json_object_set_value (Some ob) (Some name) parented (Some v) m")
    from set_value_effect [OF this] less.prems set show ?thesis
      using set_value_get [of ob name parented v m] by (auto simp: dotset_plain [OF None] dotget_plain [OF None])
  next
    case (Some i)
    let ?rest = "drop (i + 1) name" and ?key = "take i name"
    have i: "length ?rest < length name" using strchr_dot_less [OF Some] by simp
    show ?thesis
    proof (cases "map_of (fst ob) ?key")
      case (Some w)
      show ?thesis
      proof (cases "\<exists>kvs cap. w = JObject kvs cap")
        case False
        with dotset_blocked [OF \<open>strchr_dot name = Some i\<close> Some] less.prems show ?thesis
          by (simp add: handed_def)
      next
        case True
        then obtain kvs cap where w: "map_of (fst ob) ?key = Some (JObject kvs cap)" using Some by blast
        obtain st1 sub m1 where r: "json_object_dotset_value (kvs, cap) ?rest parented v m = (st1, sub, m1)"
          by (cases "json_object_dotset_value (kvs, cap) ?rest parented v m")
        have out: "st = st1" "ob' = put_member ?key sub ob" "m' = m1"
          using less.prems dotset_into [OF \<open>strchr_dot name = Some i\<close> w] r by simp_all
        have "blocks (JObject kvs cap) = obj_blocks (kvs, cap)" by (simp only: obj_blocks_def fst_conv snd_conv)
        with less.hyps [OF i r] put_member_blocks [OF w, of sub] put_member_get [OF w, of sub] out
        show ?thesis by (simp add: dotget_step [OF \<open>strchr_dot name = Some i\<close>] del: blocks.simps)
      qed
    next
      case None
      obtain n m1 where init: "json_value_init_object m = (n, m1)" by fastforce
      note live1 = live_init(1) [OF init]
      note new = dotset_new_object [OF Some None, of parented v m, unfolded init]
      show ?thesis
      proof (cases n)
        case None
        with new live1 less.prems show ?thesis by (simp add: handed_def opt_blocks_def)
      next
        case (Some nv)
        have m1: "live m1 = live m + obj_blocks ([], 0)"
          using live1 Some init_object_ok(1) [of m nv m1] init by (simp add: opt_blocks_def obj_blocks_def)
        obtain st1 sub m2 where r: "json_object_dotset_value ([], 0) ?rest parented v m1 = (st1, sub, m2)"
          by (cases "json_object_dotset_value ([], 0) ?rest parented v m1")
        note IH = less.hyps [OF i r]
        show ?thesis
        proof (cases st1)
          case JSONFailure
          with new r Some less.prems IH m1 show ?thesis by (simp add: handed_def)
        next
          case JSONSuccess
          obtain st2 ob2 m3 where add: "json_object_addn ob name i (Some (JObject (fst sub) (snd sub))) m2 = (st2, ob2, m3)"
            by (cases "json_object_addn ob name i (Some (JObject (fst sub) (snd sub))) m2")
          have hand: "handed st2 (Some (JObject (fst sub) (snd sub))) = (if st2 = JSONSuccess then obj_blocks sub else 0)"
            by (simp only: handed_def opt_blocks_def option.case obj_blocks_def)
          note eff = addn_effect [OF add, unfolded hand]
          show ?thesis
          proof (cases st2)
            case st2: JSONSuccess
            have out: "st = JSONSuccess" "ob' = ob2" "m' = m3"
              using new r Some less.prems JSONSuccess add st2 by simp_all
            have "map_of (fst ob2) ?key = Some (JObject (fst sub) (snd sub))"
              using eff st2 None by (simp add: map_add_def)
            with IH JSONSuccess out eff st2 m1 show ?thesis
              by (simp add: dotget_step [OF \<open>strchr_dot name = Some i\<close>] handed_def)
          next
            case st2: JSONFailure
            obtain st3 ob3 m4 where rem: "json_object_dotremove_internal (Some sub) ?rest False m3 = (st3, ob3, m4)"
              by (cases "json_object_dotremove_internal (Some sub) ?rest False m3")
            from dotremove_effect [OF this] IH JSONSuccess obtain sub1 where
              sub1: "ob3 = Some sub1" "live m4 - obj_blocks sub1 = live m3 - obj_blocks sub + blocks v"
              by auto
            have "st = JSONFailure" "ob' = ob2" "m' = free_object sub1 m4"
              using new r Some less.prems JSONSuccess add st2 rem sub1(1) by simp_all
            with IH JSONSuccess eff st2 m1 sub1(2) show ?thesis
              by (simp add: handed_def opt_blocks_def)
          qed
        qed
      qed
    qed
  qed
qed


section \<open>Making and putting\<close>

text \<open>A call that makes a value: the heap gains the blocks of what it yields.\<close>

definition made_ok :: "mem \<Rightarrow> json option \<times> mem \<Rightarrow> bool" where
  "made_ok m made \<longleftrightarrow> live (snd made) = live m + opt_blocks (fst made)"

lemma made_ok_string_with_len: "made_ok m (json_value_init_string_with_len s n m)"
  by (auto simp: made_ok_def json_value_init_string_with_len_def json_value_init_string_no_copy_def
      parson_strndup_def pvPortMalloc_def opt_blocks_def split: option.splits)

lemma made_ok_init [simp]:
  "made_ok m (json_value_init_string_with_len s n m)"
  "made_ok m (json_value_init_string s m)"
  "made_ok m (json_value_init_number x m)"
  "made_ok m (json_value_init_boolean b m)"
  "made_ok m (json_value_init_null m)"
proof -
  show "made_ok m (json_value_init_string_with_len s n m)" by (rule made_ok_string_with_len)
  show "made_ok m (json_value_init_string s m)"
    using made_ok_string_with_len [of m s]
    by (auto simp: json_value_init_string_def made_ok_def opt_blocks_def split: option.splits)
  show "made_ok m (json_value_init_number x m)" "made_ok m (json_value_init_boolean b m)"
    "made_ok m (json_value_init_null m)"
    using live_init(3,4,5) by (simp_all add: made_ok_def)
qed

text \<open>
  Whatever the outcome, what is allocated beyond the object or the array is the same before and
  after the call.
\<close>

lemma set_new_balance:
  assumes "set_new (Some ob) name made = (st, Some ob', m')" "made_ok m made"
  shows "live m' - obj_blocks ob' = live m - obj_blocks ob"
proof -
  obtain v m1 where mk: "made = (v, m1)" by fastforce
  obtain st1 r m2 where set: "json_object_set_value (Some ob) name False v m1 = (st1, r, m2)"
    by (cases "json_object_set_value (Some ob) name False v m1")
  from set_value_effect [OF this] assms mk set show ?thesis
    by (cases st1) (auto simp: set_new_def made_ok_def handed_def)
qed

lemma dotset_new_balance:
  assumes "dotset_new ob name made = (st, ob', m')" "made_ok m made"
  shows "live m' - obj_blocks ob' = live m - obj_blocks ob"
proof -
  obtain v m1 where mk: "made = (v, m1)" by fastforce
  show ?thesis
  proof (cases v)
    case None
    with assms mk show ?thesis by (simp add: dotset_new_def made_ok_def opt_blocks_def)
  next
    case (Some w)
    obtain st1 r m2 where set: "json_object_dotset_value ob name False w m1 = (st1, r, m2)"
      by (cases "json_object_dotset_value ob name False w m1")
    from dotset_effect [OF this] assms mk set Some show ?thesis
      by (cases st1) (auto simp: dotset_new_def made_ok_def handed_def opt_blocks_def)
  qed
qed

lemma append_new_balance:
  assumes "append_new (Some ar) made = (st, Some ar', m')" "made_ok m made"
  shows "live m' - arr_blocks ar' = live m - arr_blocks ar"
proof -
  obtain v m1 where mk: "made = (v, m1)" by fastforce
  show ?thesis
  proof (cases v)
    case None
    with assms mk show ?thesis by (auto simp: append_new_def made_ok_def opt_blocks_def)
  next
    case (Some w)
    obtain st1 r m2 where add: "json_array_add ar w m1 = (st1, r, m2)"
      by (cases "json_array_add ar w m1")
    from array_add_effect [OF this] assms mk add Some show ?thesis
      by (cases st1) (auto simp: append_new_def json_array_append_value_def made_ok_def handed_def opt_blocks_def)
  qed
qed

lemma replace_new_balance:
  assumes "replace_new (Some ar) i made = (st, Some ar', m')" "made_ok m made"
  shows "live m' - arr_blocks ar' = live m - arr_blocks ar"
proof -
  obtain v m1 where mk: "made = (v, m1)" by fastforce
  obtain xs cap where ar: "ar = (xs, cap)" by fastforce
  have upd: "sum_list ((map blocks xs)[i := blocks w]) = sum_list (map blocks xs) + blocks w - blocks (xs ! i)"
    if "i < length xs" for w
    using that by (simp add: sum_list_update_int)
  from assms mk ar show ?thesis
    by (cases v) (auto simp: replace_new_def json_array_replace_value_def made_ok_def opt_blocks_def
        arr_blocks_eq map_update upd split: if_splits)
qed

end
