(* ===== verification/NumberTrip.thy ===== *)
theory NumberTrip imports CDoubleFacts begin

text \<open>
  A number that is printed with 17 significant digits and read back is the same number, whatever
  follows it in the text: the printed value is so near that the reader rounds it to the number
  it came from, at the borders between binades and among the subnormal numbers too.
\<close>

section \<open>Rounding back\<close>

lemma powi_le_exp: "(b :: real) powi l \<le> r \<Longrightarrow> r < b powi k \<Longrightarrow> 1 < b \<Longrightarrow> l < k"
  using power_int_increasing [of k l b] by linarith

text \<open>A fraction within half a unit of the 17th digit of a number is rounded to it.\<close>

lemma dbl_round_near:
  assumes ok: "dbl_ok (Fin s m e)" and m: "0 < m" and nd: "0 < n" "0 < d"
    and near: "\<bar>real_of_int n / real_of_int d - of_int m * 2 powi e\<bar> \<le> of_int m * 2 powi e / 20000000000000000"
  shows "dbl_round s n d = Fin s m e"
proof -
  define t where "t = real_of_int n / real_of_int d * 2 powi (- e)"
  define l where "l = log_frac 2 n d"
  have fm: "m < 9007199254740992" "- 1074 \<le> e" "e \<le> 971" "4503599627370496 \<le> m \<or> e = - 1074"
    using ok m by (auto simp: dbl_ok_def)
  have p: "(2 :: real) powi e * 2 powi (- e) = 1" by (simp add: power_int_add [symmetric])
  have r: "real_of_int n / real_of_int d = t * 2 powi e"
    using p by (simp add: t_def mult.assoc mult.commute [of "2 powi e"])
  have "\<bar>t - of_int m\<bar> * 2 powi e \<le> of_int m / 20000000000000000 * 2 powi e"
  proof -
    have "\<bar>t - of_int m\<bar> * 2 powi e = \<bar>(t - of_int m) * 2 powi e\<bar>" by (simp add: abs_mult)
    also have "\<dots> = \<bar>real_of_int n / real_of_int d - of_int m * 2 powi e\<bar>" unfolding r by (simp add: algebra_simps)
    finally show ?thesis using near by simp
  qed
  then have t: "\<bar>t - of_int m\<bar> \<le> of_int m / 20000000000000000" by simp
  have mr: "real_of_int m \<le> 9007199254740991" using fm(1) by linarith
  have t1: "\<bar>t - of_int m\<bar> < 1 / 2" using t mr by linarith
  have l: "2 powi (l - e) \<le> t" "t < 2 powi (l + 1 - e)"
  proof -
    note lr = log_frac_real [of 2 n d]
    have "2 powi l * 2 powi (- e) \<le> t" "t < 2 powi (l + 1) * 2 powi (- e)"
      unfolding t_def l_def using lr nd by (intro mult_right_mono mult_strict_right_mono; simp)+
    then show "2 powi (l - e) \<le> t" "t < 2 powi (l + 1 - e)" by (simp_all add: power_int_add [symmetric])
  qed
  have sc: "scale 2 n d (- k) = rnd (t * 2 powi (e - k))" for k
  proof -
    have "real_of_int n / real_of_int d * 2 powi (- k) = t * (2 powi e * 2 powi (- k))" unfolding r by simp
    also have "2 powi e * 2 powi (- k) = (2 :: real) powi (e - k)" by (simp add: power_int_add [symmetric])
    finally show ?thesis using scale_real [of 2 d n "- k"] nd by simp
  qed
  have same: "dbl_round s n d = Fin s m e" if "max (l - 52) (- 1074) = e"
  proof -
    have "scale 2 n d (- e) = m" using rnd_unique [OF t1] by (simp add: sc)
    then show ?thesis using that nd(1) m fm by (simp add: dbl_round_def Let_def l_def)
  qed
  have t_hi: "t < 9007199254740992" using t1 mr by linarith
  have l53: "l - e < 53" by (rule powi_le_exp [OF l(1)]) (use t_hi in simp_all)
  show ?thesis
  proof (cases "4503599627370496 \<le> t")
    case True
    have "52 < l + 1 - e" by (rule powi_le_exp [of 2 52 t]) (use True l(2) in simp_all)
    then have "l - 52 = e" using l53 by simp
    then show ?thesis using same fm(2) by simp
  next
    case False
    then have l52: "l - e < 52" by (intro powi_le_exp [OF l(1)]) simp_all
    show ?thesis
    proof (cases "e = - 1074")
      case True
      then show ?thesis using same l52 by simp
    next
      case e: False
      then have "4503599627370496 \<le> m" using fm(4) by simp
      moreover have "real_of_int m < 4503599627370496 + 1" using False t1 by linarith
      ultimately have m': "m = 4503599627370496" by linarith
      have "51 < l + 1 - e" by (rule powi_le_exp [of 2 51 t]) (use m' t1 l(2) in \<open>simp_all, linarith\<close>)
      then have "max (l - 52) (- 1074) = e - 1" using l52 e fm(2) by simp
      moreover have "t - 4503599627370496 < 1 / 4" "4503599627370496 - t < 1 / 4" 
        using t m' abs_ge_self [of "t - 4503599627370496"] abs_ge_minus_self [of "t - 4503599627370496"] by simp_all
      then have "\<bar>t * 2 - real_of_int 9007199254740992\<bar> < 1 / 2" unfolding abs_less_iff by simp
      then have "rnd (t * 2) = 9007199254740992" by (rule rnd_unique)
      then have "scale 2 n d (- (e - 1)) = 9007199254740992" using sc [of "e - 1"] by simp
      ultimately show ?thesis using nd(1) fm(3) m' by (simp add: dbl_round_def Let_def l_def)
    qed
  qed
qed

lemma sig17_near:
  assumes "sig17 n d = (q, x)" "0 < n" "0 < d"
  shows "\<bar>real_of_int q * 10 powi (x - 16) - real_of_int n / real_of_int d\<bar> \<le> real_of_int n / real_of_int d / 20000000000000000"
proof -
  define r where "r = real_of_int n / real_of_int d"
  define l where "l = log_frac 10 n d"
  have l: "10 powi l \<le> r" using log_frac_real [of 10 n d] assms(2,3) by (simp_all add: l_def r_def)
  have p: "(10 :: real) powi (16 - l) * 10 powi (l - 16) = 1" by (simp add: power_int_add [symmetric])
  let ?q = "scale 10 n d (16 - l)"
  have "?q = rnd (r * 10 powi (16 - l))" using scale_real [of 10 d n] assms(3) by (simp add: r_def)
  then have "\<bar>r * 10 powi (16 - l) - real_of_int ?q\<bar> \<le> 1 / 2" using rnd_near [of "r * 10 powi (16 - l)"] by simp
  then have "\<bar>r * 10 powi (16 - l) - real_of_int ?q\<bar> * 10 powi (l - 16) \<le> 1 / 2 * 10 powi (l - 16)"
    by (intro mult_right_mono) simp_all
  also have "\<bar>r * 10 powi (16 - l) - real_of_int ?q\<bar> * 10 powi (l - 16) =
      \<bar>(r * 10 powi (16 - l) - real_of_int ?q) * 10 powi (l - 16)\<bar>" by (simp add: abs_mult)
  also have "(r * 10 powi (16 - l) - real_of_int ?q) * 10 powi (l - 16) =
      r * (10 powi (16 - l) * 10 powi (l - 16)) - real_of_int ?q * 10 powi (l - 16)" by (simp add: algebra_simps)
  finally have d: "\<bar>real_of_int ?q * 10 powi (l - 16) - r\<bar> \<le> 1 / 2 * 10 powi (l - 16)" unfolding p by (simp add: abs_minus_commute)
  have "(10 :: real) powi (l - 16) = 10 powi l / 10 powi 16" by (simp add: power_int_diff)
  then have "1 / 2 * 10 powi (l - 16) \<le> r / 20000000000000000" using l by simp
  with d have d: "\<bar>real_of_int ?q * 10 powi (l - 16) - r\<bar> \<le> r / 20000000000000000" by linarith
  show ?thesis
  proof (cases "?q = 100000000000000000")
    case True
    then have qx: "q = 10000000000000000" "x = l + 1" using assms(1) by (auto simp: sig17_def Let_def l_def)
    have "(10 :: real) powi (l - 15) = 10 powi (l - 16) * 10 powi 1" unfolding power_int_add [symmetric, of "10 :: real", OF disjI1, simplified] by simp
    then have "real_of_int q * 10 powi (x - 16) = real_of_int ?q * 10 powi (l - 16)" unfolding qx True by simp
    then show ?thesis using d by (simp add: r_def)
  next
    case False
    then have "q = ?q" "x = l" using assms(1) by (auto simp: sig17_def Let_def l_def)
    then show ?thesis using d by (simp add: r_def)
  qed
qed

text \<open>The value of the digits that are read.\<close>

lemma dbl_value_near:
  assumes ok: "dbl_ok (Fin s m e)" and m: "0 < m" and D: "0 < D"
    and near: "\<bar>real_of_int D * 10 powi k - of_int m * 2 powi e\<bar> \<le> of_int m * 2 powi e / 20000000000000000"
  shows "dbl_value s D 10 k = (Fin s m e, False)"
proof (cases "0 \<le> k")
  case True
  have "dbl_round s (D * 10 ^ nat k) 1 = Fin s m e"
    by (rule dbl_round_near [OF ok m]) (use near D True in \<open>simp_all add: powi_nat\<close>)
  then show ?thesis using D m True by (simp add: dbl_value_def)
next
  case False
  have "dbl_round s D (10 ^ nat (- k)) = Fin s m e"
    by (rule dbl_round_near [OF ok m]) (use near D False in \<open>simp_all add: powi_neg\<close>)
  then show ?thesis using D m False by (simp add: dbl_value_def)
qed

end
