(* ===== verification/NumberText.thy ===== *)
theory NumberText imports NumberTrip JsonParseLemmas begin

text \<open>
  The text of a number and what the reader takes from it: the digits before and behind the point,
  the exponent, and where the number ends.
\<close>

section \<open>Digits\<close>

lemma digit_char_digit: "0 \<le> x \<Longrightarrow> x < 10 \<Longrightarrow> isdigit (digit_char x) \<and> digit_val (digit_char x) = x"
  by (simp add: isdigit_def digit_val_def digit_char_def)

lemma digits_val_append: "digits_val b a (xs @ ys) = digits_val b (digits_val b a xs) ys"
  by (induction xs arbitrary: a) auto

lemma digits_val_acc: "digits_val b a xs = a * b ^ length xs + digits_val b 0 xs"
proof (induction xs arbitrary: a)
  case (Cons x xs)
  show ?case using Cons [of "a * b + x"] Cons [of x] by (simp add: algebra_simps)
qed simp

abbreviation dec :: "string \<Rightarrow> int" where
  "dec s \<equiv> digits_val 10 0 (map digit_val s)"

lemma dec_append: "dec (s @ t) = dec s * 10 ^ length t + dec t"
  using digits_val_acc [of 10 "dec s" "map digit_val t"] by (simp add: digits_val_append)

lemma digit_val_zero: "digit_val (CHR ''0'') = 0"
  by (simp add: digit_val_def)

lemma dec_zeros: "dec (replicate k (CHR ''0'')) = 0"
  by (induction k) (simp_all add: digit_val_zero)

lemma show_digits_dec: "0 \<le> x \<Longrightarrow> list_all isdigit (show_digits x) \<and> dec (show_digits x) = x"
proof (induction x rule: show_digits.induct)
  case (1 x)
  show ?case
  proof (cases "x < 10")
    case True
    then show ?thesis using 1(2) digit_char_digit [of x] by (simp add: show_digits.simps [of x])
  next
    case False
    have d: "isdigit (digit_char (x mod 10))" "digit_val (digit_char (x mod 10)) = x mod 10"
      using digit_char_digit [of "x mod 10"] by simp_all
    have "dec (show_digits x) = dec (show_digits (x div 10)) * 10 + x mod 10"
      using False d(2) by (subst show_digits.simps) (simp add: digits_val_append)
    also have "\<dots> = x" using 1(1) [OF False] 1(2) by simp
    finally have "dec (show_digits x) = x" .
    moreover have "list_all isdigit (show_digits x)"
      using 1(1) [OF False] 1(2) d(1) False by (subst show_digits.simps) simp
    ultimately show ?thesis by simp
  qed
qed

lemma show_digits_nonempty: "show_digits x \<noteq> []"
  by (subst show_digits.simps) simp

lemma show_digits_count: "10 ^ k \<le> x \<Longrightarrow> x < 10 ^ Suc k \<Longrightarrow> length (show_digits x) = Suc k \<and> hd (show_digits x) \<noteq> CHR ''0''"
proof (induction k arbitrary: x)
  case 0
  then have "digit_char x \<noteq> CHR ''0''" using digit_char_digit [of x] digit_val_zero by force
  with 0 show ?case by (simp add: show_digits.simps [of x])
next
  case (Suc k)
  have "(10 :: int) ^ Suc k \<le> x" "(10 :: int) \<le> 10 ^ Suc k" using Suc.prems by simp_all
  then have x: "\<not> x < 10" by linarith
  have "10 ^ k \<le> x div 10" "x div 10 < 10 ^ Suc k" using Suc.prems by simp_all
  from Suc.IH [OF this] x show ?case
    using show_digits_nonempty [of "x div 10"] by (simp add: show_digits.simps [of x] hd_append)
qed

lemma strip_zeros_split: "\<exists>k. s = strip_zeros s @ replicate k (CHR ''0'')"
proof -
  let ?z = "takeWhile (\<lambda>c. c = CHR ''0'') (rev s)"
  have "rev s = ?z @ rev (strip_zeros s)" by (simp add: strip_zeros_def)
  then have "s = strip_zeros s @ rev ?z" by (metis rev_append rev_rev_ident)
  moreover have "rev ?z = replicate (length ?z) (CHR ''0'')"
    by (rule replicate_eqI) (auto dest: set_takeWhileD)
  ultimately show ?thesis by metis
qed

section \<open>Reading a mantissa and an exponent\<close>

text \<open>What may follow a number in the text of a value.\<close>

definition number_ends :: "string \<Rightarrow> bool" where
  "number_ends r \<longleftrightarrow> cur r \<in> {NUL, CHR '','', CHR '']'', CHR ''}'', CHR 0x0A}"

lemma not_digit: "\<not> isdigit (CHR ''.'')" "\<not> isdigit (CHR ''e'')" "\<not> isdigit NUL" "\<not> isdigit (CHR '','')"
  "\<not> isdigit (CHR '']'')" "\<not> isdigit (CHR ''}'')" "\<not> isdigit (CHR 0x0A)" "\<not> isdigit (CHR ''-'')" "\<not> isdigit (CHR ''+'')"
  by (simp_all add: isdigit_def)

lemma takeWhile_stop: "list_all P xs \<Longrightarrow> ys = [] \<or> \<not> P (hd ys) \<Longrightarrow> takeWhile P (xs @ ys) = xs \<and> dropWhile P (xs @ ys) = ys"
  by (induction xs) (auto, cases ys, auto, cases ys, auto)

lemma stop_at: "\<not> isdigit (cur r) \<Longrightarrow> r = [] \<or> \<not> isdigit (hd r)"
  by (cases r) (auto simp: cur_def)

lemma read_mantissa:
  assumes "list_all isdigit ip" "ip \<noteq> []" "list_all isdigit fp" "\<not> isdigit (cur r)" "cur r \<noteq> CHR ''.''"
  shows "take_mantissa isdigit (ip @ point fp @ r) = (ip @ fp, length fp, r)"
proof (cases "fp = []")
  case True
  from takeWhile_stop [OF assms(1) stop_at [OF assms(4)]] assms(5) True show ?thesis
    by (simp add: take_mantissa_def point_def)
next
  case False
  have "takeWhile isdigit (ip @ CHR ''.'' # fp @ r) = ip" "dropWhile isdigit (ip @ CHR ''.'' # fp @ r) = CHR ''.'' # fp @ r"
    using takeWhile_stop [OF assms(1), of "CHR ''.'' # fp @ r"] not_digit by simp_all
  with takeWhile_stop [OF assms(3) stop_at [OF assms(4)]] assms(2) False show ?thesis
    by (simp add: take_mantissa_def point_def cur_def)
qed

lemma read_exponent:
  assumes "\<bar>x\<bar> < 1000" "\<not> isdigit (cur r)"
  shows "take_exponent {CHR ''e'', CHR ''E''} (show_exponent x @ r) = (x, r)"
proof -
  define ds where "ds = (if \<bar>x\<bar> < 10 then CHR ''0'' # show_digits \<bar>x\<bar> else show_digits \<bar>x\<bar>)"
  have ds: "list_all isdigit ds" "dec ds = \<bar>x\<bar>" "ds \<noteq> []"
    using show_digits_dec [of "\<bar>x\<bar>"] show_digits_nonempty [of "\<bar>x\<bar>"] by (simp_all add: ds_def digit_val_zero isdigit_def)
  define sc where "sc = (if x < 0 then CHR ''-'' else CHR ''+'')"
  have sg: "take_sign (sc # ds @ r) = (x < 0, ds @ r)"
    by (simp add: take_sign_def cur_def sc_def)
  have dig: "isdigit (cur (ds @ r))" using ds(1,3) by (cases ds) (auto simp: cur_def)
  have rd: "takeWhile isdigit (ds @ r) = ds" "dropWhile isdigit (ds @ r) = r"
    using takeWhile_stop [OF ds(1) stop_at [OF assms(2)]] by blast+
  have "show_exponent x @ r = CHR ''e'' # sc # ds @ r"
    by (simp add: show_exponent_def ds_def sc_def)
  moreover have "take_exponent {CHR ''e'', CHR ''E''} (CHR ''e'' # sc # ds @ r) = (signed (x < 0) (dec ds), r)"
    using sg dig rd by (simp add: take_exponent_def cur_def [of "CHR ''e'' # sc # ds @ r"])
  ultimately show ?thesis unfolding ds(2) by (simp add: signed_def)
qed

text \<open>No exponent follows.\<close>

lemma read_no_exponent: "cur r \<notin> {CHR ''e'', CHR ''E''} \<Longrightarrow> take_exponent {CHR ''e'', CHR ''E''} r = (0, r)"
  by (simp add: take_exponent_def)

section \<open>Reading back a printed number\<close>

definition number_text :: "string \<Rightarrow> string \<Rightarrow> string \<Rightarrow> string" where
  "number_text ip fp ex = ip @ point fp @ ex"

lemma tolower_x: "tolower d = CHR ''x'' \<Longrightarrow> d = CHR ''x'' \<or> d = CHR ''X''"
proof -
  assume d: "tolower d = CHR ''x''"
  show ?thesis
  proof (cases "(65::int) \<le> of_char d \<and> of_char d \<le> (90::int)")
    case True
    then have "char_of (of_char d + 32 :: int) = CHR ''x''" using d by (simp add: tolower_def)
    then have "(of_char (char_of (of_char d + 32 :: int)) :: int) = 120" by simp
    then have "(of_char d :: int) = 88" using True by simp
    then have "(of_char d :: int) = of_char (CHR ''X'')" by simp
    then have "d = CHR ''X''" by (simp only: of_char_eq_iff)
    then show ?thesis by simp
  next
    case False
    then have "tolower d = d" unfolding tolower_def by (rule if_not_P)
    then show ?thesis using d by simp
  qed
qed

lemma strtod_number:
  assumes dig: "list_all isdigit ip" "ip \<noteq> []" "list_all isdigit fp" "hd ip \<noteq> CHR ''0'' \<or> (ip = ''0'' \<and> cur (point fp @ ex @ r) \<notin> {CHR ''x'', CHR ''X''})"
    and ex: "ex = [] \<and> y = 0 \<or> ex = show_exponent y \<and> \<bar>y\<bar> < 1000" and r: "number_ends r"
    and val: "dbl_value s (dec (ip @ fp)) 10 (y - int (length fp)) = (x, False)"
  shows "strtod ((if s then ''-'' else []) @ number_text ip fp ex @ r) = (x, r, False)"
proof -
  let ?t = "number_text ip fp ex @ r"
  obtain c ip' where c: "ip = c # ip'" "isdigit c" using dig(1,2) by (cases ip) auto
  have cd: "c \<notin> {CHR ''-'', CHR ''+'', CHR ''i'', CHR ''n'', CHR ''I'', CHR ''N''}" "\<not> isspace c"
    using c(2) by (auto simp: isdigit_def isspace_def)
  have low: "tolower c = c" using c(2) by (simp add: tolower_def isdigit_def)
  define u where "u = ip' @ point fp @ ex @ r"
  have t: "?t = c # u" by (simp add: number_text_def c(1) u_def)
  have sg: "take_sign (SKIP_WHITESPACES ((if s then ''-'' else []) @ ?t)) = (s, ?t)"
    unfolding t using cd by (auto simp: take_sign_def cur_def SKIP_WHITESPACES_def isspace_def)
  have no: "\<not> prefixed ''inf'' (map tolower ?t)" "\<not> prefixed ''nan'' (map tolower ?t)"
    unfolding t using cd by (auto simp: low)
  have nx: "\<not> prefixed ''0x'' (map tolower ?t)"
  proof
    assume "prefixed ''0x'' (map tolower ?t)"
    then have "prefixed ''0x'' (c # map tolower u)" unfolding t using low by simp
    then obtain d q where d: "u = d # q" "c = CHR ''0''" "tolower d = CHR ''x''" by (cases u) auto
    then have ip: "ip = ''0''" "cur (point fp @ ex @ r) \<notin> {CHR ''x'', CHR ''X''}" using dig(4) c(1) by auto
    then have "cur (point fp @ ex @ r) = d" using d(1) c(1) by (simp add: u_def cur_def)
    moreover have "d = CHR ''x'' \<or> d = CHR ''X''" using d(3) by (rule tolower_x)
    ultimately show False using ip by auto
  qed
  have cr: "\<not> isdigit (cur (ex @ r))" "cur (ex @ r) \<noteq> CHR ''.''"
    using ex r not_digit by (auto simp: number_ends_def show_exponent_def cur_def)
  have ma: "take_mantissa isdigit ?t = (ip @ fp, length fp, ex @ r)"
    using read_mantissa [OF dig(1-3) cr] by (simp add: number_text_def)
  have rd: "\<not> isdigit (cur r)" "cur r \<notin> {CHR ''e'', CHR ''E''}"
    using r not_digit by (auto simp: number_ends_def)
  have xe: "take_exponent {CHR ''e'', CHR ''E''} (ex @ r) = (y, r)"
    using ex read_exponent [of y r] read_no_exponent [OF rd(2)] rd(1) by auto
  show ?thesis
    unfolding strtod_def sg prod.case using no nx ma xe val dig(2) by simp
qed

end
