(* ===== verification/NumberBack.thy ===== *)
theory NumberBack imports NumberText begin

text \<open>Every number that is printed is read back as it was.\<close>

section \<open>The three forms of the text\<close>

definition reads :: "string \<Rightarrow> string \<Rightarrow> string \<Rightarrow> int \<Rightarrow> bool" where
  "reads ip fp ex y \<longleftrightarrow> list_all isdigit ip \<and> ip \<noteq> [] \<and> list_all isdigit fp \<and>
     (hd ip \<noteq> CHR ''0'' \<or> ip = ''0'' \<and> fp \<noteq> []) \<and> (ex = [] \<and> y = 0 \<or> ex = show_exponent y \<and> \<bar>y\<bar> < 1000)"

lemma shift_exponent:
  assumes "q = D * 10 ^ j"
  shows "real_of_int q * 10 powi k = real_of_int D * 10 powi (int j + k)"
proof -
  have "(10 :: real) powi (int j + k) = 10 powi int j * 10 powi k" by (rule power_int_add) simp
  moreover have "real_of_int q = real_of_int D * 10 powi int j" using assms by simp
  ultimately show ?thesis by simp
qed

lemma cut_digits:
  assumes q: "10 ^ 16 \<le> q" "q < 10 ^ 17" and k: "0 < k" "k \<le> 17"
  shows "reads (take k (show_digits q)) (strip_zeros (drop k (show_digits q))) [] 0"
    "\<bar>y\<bar> < 1000 \<Longrightarrow> reads (take k (show_digits q)) (strip_zeros (drop k (show_digits q))) (show_exponent y) y"
    "real_of_int (dec (take k (show_digits q) @ strip_zeros (drop k (show_digits q)))) *
      10 powi (x + 1 - int k - int (length (strip_zeros (drop k (show_digits q))))) = real_of_int q * 10 powi (x - 16)"
proof -
  let ?ds = "show_digits q" and ?ip = "take k (show_digits q)" and ?fp = "strip_zeros (drop k (show_digits q))"
  have ds: "list_all isdigit ?ds" "dec ?ds = q" using show_digits_dec [of q] q(1) by auto
  have cnt: "length ?ds = 17" "hd ?ds \<noteq> CHR ''0''" using show_digits_count [of 16 q] q by simp_all
  obtain j where j: "drop k ?ds = ?fp @ replicate j (CHR ''0'')" using strip_zeros_split by blast
  have all: "?ds = (?ip @ ?fp) @ replicate j (CHR ''0'')" using j append_take_drop_id [of k ?ds] by simp
  have dig: "list_all isdigit ?ip" "list_all isdigit ?fp"
    using ds(1) by (subst (asm) all, simp)+
  have ip: "?ip \<noteq> []" "hd ?ip \<noteq> CHR ''0''" using cnt k by (auto simp: hd_take)
  show "reads ?ip ?fp [] 0" "\<bar>y\<bar> < 1000 \<Longrightarrow> reads ?ip ?fp (show_exponent y) y"
    using dig ip by (simp_all add: reads_def)
  have len: "17 = k + length ?fp + j" using arg_cong [OF all, of length] cnt(1) k by simp
  have "q = dec (?ip @ ?fp) * 10 ^ j"
    using ds(2) arg_cong [OF all, of dec] dec_append [of "?ip @ ?fp" "replicate j (CHR ''0'')"] dec_zeros [of j] by simp
  from shift_exponent [OF this, of "x - 16"]
  have "real_of_int q * 10 powi (x - 16) = real_of_int (dec (?ip @ ?fp)) * 10 powi (int j + (x - 16))" .
  also have "int j + (x - 16) = x + 1 - int k - int (length ?fp)" using len by linarith
  finally show "real_of_int (dec (?ip @ ?fp)) * 10 powi (x + 1 - int k - int (length ?fp)) = real_of_int q * 10 powi (x - 16)" ..
qed

lemma fmt_digits_text:
  assumes q: "10 ^ 16 \<le> q" "q < 10 ^ 17" and x: "\<bar>x\<bar> < 1000"
  shows "\<exists>ip fp ex y. fmt_digits q x = number_text ip fp ex \<and> reads ip fp ex y \<and>
    real_of_int (dec (ip @ fp)) * 10 powi (y - int (length fp)) = real_of_int q * 10 powi (x - 16)"
proof -
  note cut = cut_digits [OF q]
  consider "x < - 4 \<or> 17 \<le> x" | "0 \<le> x" "x < 17" | "- 4 \<le> x" "x < 0" by linarith
  then show ?thesis
  proof cases
    case 1
    then have "fmt_digits q x = number_text (take 1 (show_digits q)) (strip_zeros (drop 1 (show_digits q))) (show_exponent x)"
      by (simp add: fmt_digits_def number_text_def Let_def)
    moreover have "real_of_int (dec (take 1 (show_digits q) @ strip_zeros (drop 1 (show_digits q)))) *
      10 powi (x - int (length (strip_zeros (drop 1 (show_digits q))))) = real_of_int q * 10 powi (x - 16)"
      using cut(3) [of 1 x] by simp
    ultimately show ?thesis using cut(2) [of 1 x] x by (meson one_le_numeral zero_less_one)
  next
    case 2
    let ?k = "nat x + 1"
    have k: "0 < ?k" "?k \<le> 17" "x + 1 - int ?k = 0" using 2 by auto
    have "fmt_digits q x = number_text (take ?k (show_digits q)) (strip_zeros (drop ?k (show_digits q))) []"
      using 2 by (simp add: fmt_digits_def number_text_def Let_def)
    moreover have "real_of_int (dec (take ?k (show_digits q) @ strip_zeros (drop ?k (show_digits q)))) *
      10 powi (0 - int (length (strip_zeros (drop ?k (show_digits q))))) = real_of_int q * 10 powi (x - 16)"
      using cut(3) [OF k(1,2), of x] unfolding k(3) .
    ultimately show ?thesis using cut(1) [OF k(1,2)] by blast
  next
    case 3
    let ?ds = "show_digits q" and ?z = "replicate (nat (- x) - 1) (CHR ''0'')"
    have ds: "list_all isdigit ?ds" "dec ?ds = q" using show_digits_dec [of q] q(1) by auto
    have cnt: "length ?ds = 17" using show_digits_count [of 16 q] q by simp
    obtain j where j: "?ds = strip_zeros ?ds @ replicate j (CHR ''0'')" using strip_zeros_split by blast
    have S: "q = dec (strip_zeros ?ds) * 10 ^ j"
      using ds(2) arg_cong [OF j, of dec] dec_append [of "strip_zeros ?ds" "replicate j (CHR ''0'')"] dec_zeros [of j] by simp
    have ne: "strip_zeros ?ds \<noteq> []" using S q(1) by auto
    have "list_all isdigit (replicate k (CHR ''0''))" for k by (induction k) (simp_all add: isdigit_def)
    moreover have "list_all isdigit (strip_zeros ?ds)" using ds(1) arg_cong [OF j, of "list_all isdigit"] by simp
    ultimately have dig: "list_all isdigit (?z @ strip_zeros ?ds)" "list_all isdigit ''0''" by (simp_all add: isdigit_def)
    have "fmt_digits q x = number_text ''0'' (?z @ strip_zeros ?ds) []"
      using 3 ne by (simp add: fmt_digits_def number_text_def Let_def point_def)
    moreover have "reads ''0'' (?z @ strip_zeros ?ds) [] 0" using dig ne by (simp add: reads_def)
    moreover have "real_of_int (dec (''0'' @ ?z @ strip_zeros ?ds)) * 10 powi (0 - int (length (?z @ strip_zeros ?ds))) =
        real_of_int q * 10 powi (x - 16)"
    proof -
      have "dec ((''0'' @ ?z) @ strip_zeros ?ds) = dec (''0'' @ ?z) * 10 ^ length (strip_zeros ?ds) + dec (strip_zeros ?ds)"
        by (rule dec_append)
      moreover have "dec (''0'' @ ?z) = 0" using dec_zeros [of "Suc (nat (- x) - 1)"] by simp
      ultimately have d: "dec (''0'' @ ?z @ strip_zeros ?ds) = dec (strip_zeros ?ds)" by simp
      have len: "17 = length (strip_zeros ?ds) + j" using arg_cong [OF j, of length] cnt by simp
      from shift_exponent [OF S, of "x - 16"]
      have "real_of_int q * 10 powi (x - 16) = real_of_int (dec (strip_zeros ?ds)) * 10 powi (int j + (x - 16))" .
      also have "int j + (x - 16) = 0 - int (length (?z @ strip_zeros ?ds))" using len 3 by simp
      finally show ?thesis unfolding d ..
    qed
    ultimately show ?thesis by blast
  qed
qed

section \<open>Reading back\<close>

definition number_start :: "char \<Rightarrow> bool" where
  "number_start c \<longleftrightarrow> c = CHR ''-'' \<or> isdigit c"

lemma number_chars:
  assumes "reads ip fp ex y" "c \<in> set (number_text ip fp ex)"
  shows "c \<notin> {CHR ''x'', CHR ''X'', NUL}"
proof -
  have d: "list_all isdigit s \<Longrightarrow> c \<in> set s \<Longrightarrow> c \<notin> {CHR ''x'', CHR ''X'', NUL}" for s
    by (auto simp: list_all_iff isdigit_def)
  have "c \<in> set ip \<or> c \<in> set fp \<or> c = CHR ''.'' \<or> c \<in> set ex"
    using assms(2) by (auto simp: number_text_def point_def split: if_splits)
  moreover have "c \<notin> {CHR ''x'', CHR ''X'', NUL}" if "c \<in> set ex"
  proof -
    have "ex = show_exponent y" using that assms(1) by (auto simp: reads_def)
    then have "c \<in> {CHR ''e'', CHR ''-'', CHR ''+'', CHR ''0''} \<or> c \<in> set (show_digits \<bar>y\<bar>)"
      using that by (auto simp: show_exponent_def split: if_splits)
    then show ?thesis using d [of "show_digits \<bar>y\<bar>"] show_digits_dec [of "\<bar>y\<bar>"] by auto
  qed
  ultimately show ?thesis using d [of ip] d [of fp] assms(1) by (auto simp: reads_def)
qed

lemma decimal_text:
  assumes "reads ip fp ex y" "t = (if s then ''-'' else []) @ number_text ip fp ex"
  shows "is_decimal (t @ r) (length t)" "number_start (cur (t @ r))"
proof -
  obtain c ip' where c: "ip = c # ip'" "isdigit c" using assms(1) by (cases ip) (auto simp: reads_def)
  have zero: "c = CHR ''0'' \<Longrightarrow> ip' = [] \<and> fp \<noteq> []" using assms(1) c(1) by (auto simp: reads_def)
  then have dot: "c = CHR ''0'' \<Longrightarrow> number_text ip fp ex = CHR ''0'' # CHR ''.'' # fp @ ex"
    using c(1) by (simp add: number_text_def point_def)
  have ch: "char_at (t @ r) i \<notin> {CHR ''x'', CHR ''X'', NUL}" if "i < length t" for i
  proof -
    have "char_at (t @ r) i = t ! i" using that by (simp add: char_at_def nth_append)
    moreover have "t ! i \<in> set t" using that by simp
    then have "t ! i \<notin> {CHR ''x'', CHR ''X'', NUL}"
      using number_chars [OF assms(1), of "t ! i"] assms(2) by (auto split: if_splits)
    ultimately show ?thesis by simp
  qed
  have hd: "number_text ip fp ex = c # ip' @ point fp @ ex" using c(1) by (simp add: number_text_def)
  have nm: "c \<noteq> CHR ''-''" using c(2) by (auto simp: isdigit_def)
  have "list_all (\<lambda>i. char_at (t @ r) i \<notin> {CHR ''x'', CHR ''X'', NUL}) (rev [0..<length t])"
    using ch by (simp add: list_all_iff)
  moreover have "char_at (t @ r) 0 \<noteq> CHR ''0'' \<or> char_at (t @ r) 1 = CHR ''.''"
  proof (cases "c = CHR ''0''")
    case True
    then show ?thesis using assms(2) dot by (cases s) (simp_all add: char_at_def)
  next
    case False
    then show ?thesis using assms(2) hd nm by (cases s) (simp_all add: char_at_def)
  qed
  moreover have "\<not> prefixed ''-0'' (t @ r) \<or> char_at (t @ r) 2 = CHR ''.''"
  proof (cases "c = CHR ''0''")
    case True
    then show ?thesis using assms(2) dot by (cases s) (simp_all add: char_at_def numeral_2_eq_2)
  next
    case False
    then show ?thesis using assms(2) hd nm by (cases s) (simp_all add: char_at_def)
  qed
  ultimately show "is_decimal (t @ r) (length t)" by (auto simp: is_decimal_def)
  show "number_start (cur (t @ r))" using assms(2) hd c(2) by (cases s) (simp_all add: number_start_def cur_def)
qed

lemma ok_size:
  assumes "dbl_ok (Fin s m e)" "0 < m" "dbl_frac m e = (n, d)" "sig17 n d = (q, x)"
  shows "10 ^ 16 \<le> q" "q < 10 ^ 17" "\<bar>x\<bar> < 1000"
proof -
  have m: "0 < m" "m < 9007199254740992" "- 1074 \<le> e" "e \<le> 971" using assms(1,2) by (auto simp: dbl_ok_def)
  obtain K :: int where K: "K = 500" by simp
  note r = dbl_frac_real [OF m(1) assms(3)]
  have "(10 :: real) powi (- K) \<le> 2 powi (- 1074)" by (rule two_ten [OF K])
  also have "\<dots> \<le> 2 powi e" by (rule power_int_increasing) (use m in simp_all)
  also have "\<dots> \<le> of_int m * 2 powi e" using m(1) by simp
  finally have lo: "10 powi (- K) \<le> real_of_int n / real_of_int d" using r by simp
  have "of_int m * 2 powi e \<le> (9007199254740992 :: real) * 2 powi 971"
    using m power_int_increasing [of e 971 "2 :: real"] by (intro mult_mono) simp_all
  also have "\<dots> < 10 powi K" by (rule two_ten [OF K])
  finally have hi: "real_of_int n / real_of_int d < 10 powi K" using r by simp
  from sig17_bounds [OF assms(4) _ _ lo hi] r K show "10 ^ 16 \<le> q" "q < 10 ^ 17" "\<bar>x\<bar> < 1000" by simp_all
qed

theorem number_read_back:
  assumes ok: "dbl_ok x" and r: "number_ends r"
  shows "strtod (sprintf_17g x @ r) = (x, r, False)" "is_decimal (sprintf_17g x @ r) (length (sprintf_17g x))"
    "number_start (cur (sprintf_17g x @ r))"
proof -
  obtain s m e where x: "x = Fin s m e" using ok by (cases x) (auto simp: dbl_ok_def)
  have "strtod (sprintf_17g x @ r) = (x, r, False) \<and> is_decimal (sprintf_17g x @ r) (length (sprintf_17g x)) \<and>
    number_start (cur (sprintf_17g x @ r))"
  proof (cases "m = 0")
    case True
    then have xs: "x = Fin s 0 0" using ok x by (simp add: dbl_ok_def)
    have t: "sprintf_17g x = (if s then ''-'' else []) @ number_text ''0'' [] []"
      by (simp add: xs sprintf_17g_def number_text_def point_def)
    have nr: "cur r \<notin> {CHR ''x'', CHR ''X''}" using r by (auto simp: number_ends_def)
    have "strtod ((if s then ''-'' else []) @ number_text ''0'' [] [] @ r) = (x, r, False)"
      by (rule strtod_number [where y = 0]) (use r nr in \<open>simp_all add: xs isdigit_def dbl_value_def digit_val_zero point_def\<close>)
    moreover have "is_decimal (sprintf_17g x @ r) (length (sprintf_17g x))" unfolding t
      by (cases s) (simp_all add: is_decimal_def number_text_def point_def char_at_def numeral_2_eq_2)
    moreover have "number_start (cur (sprintf_17g x @ r))" unfolding t
      by (cases s) (simp_all add: number_start_def number_text_def point_def cur_def isdigit_def)
    ultimately show ?thesis using t by simp
  next
    case False
    then have m: "0 < m" using ok x by (auto simp: dbl_ok_def)
    have ok': "dbl_ok (Fin s m e)" using ok x by simp
    obtain n d where nd: "dbl_frac m e = (n, d)" by fastforce
    obtain q y where qy: "sig17 n d = (q, y)" by fastforce
    note sz = ok_size [OF ok' m nd qy]
    note fr = dbl_frac_real [OF m nd]
    from fmt_digits_text [OF sz] obtain ip fp ex z where
      f: "fmt_digits q y = number_text ip fp ex" "reads ip fp ex z"
        "real_of_int (dec (ip @ fp)) * 10 powi (z - int (length fp)) = real_of_int q * 10 powi (y - 16)" by blast
    have t: "sprintf_17g x = (if s then ''-'' else []) @ number_text ip fp ex"
      using x False nd qy f(1) by (simp add: sprintf_17g_def)
    have near: "\<bar>real_of_int (dec (ip @ fp)) * 10 powi (z - int (length fp)) - of_int m * 2 powi e\<bar> \<le> of_int m * 2 powi e / 20000000000000000"
      using sig17_near [OF qy] fr f(3) by simp
    have "0 < real_of_int q * 10 powi (y - 16)" using sz(1) by simp
    then have "0 < real_of_int (dec (ip @ fp)) * 10 powi (z - int (length fp))" using f(3) by linarith
    then have "0 < real_of_int (dec (ip @ fp))" by (rule zero_less_mult_pos2) simp
    then have pos: "0 < dec (ip @ fp)" by (simp only: of_int_0_less_iff)
    note val = dbl_value_near [OF ok' m pos near]
    have "strtod ((if s then ''-'' else []) @ number_text ip fp ex @ r) = (x, r, False)"
      unfolding x by (rule strtod_number [OF _ _ _ _ _ r val])
        (use f(2) r in \<open>auto simp: reads_def point_def cur_def\<close>)
    moreover note decimal_text [OF f(2) t, of r]
    ultimately show ?thesis using t by simp
  qed
  then show "strtod (sprintf_17g x @ r) = (x, r, False)" "is_decimal (sprintf_17g x @ r) (length (sprintf_17g x))"
    "number_start (cur (sprintf_17g x @ r))" by blast+
qed

end
