(* ===== verification/StringTrip.thy ===== *)
theory StringTrip imports NumberBack JsonSerial JsonCopy begin

text \<open>
  A string that is written between quotes and read back is the same string, whatever its bytes
  are, zeros and control characters included.
\<close>

section \<open>Escapes\<close>

lemma hex_digit_back: "0 \<le> x \<Longrightarrow> x < 16 \<Longrightarrow> hex_char_to_int (hex_digit x) = x \<and> hex_digit x \<noteq> NUL \<and> plain (hex_digit x)"
proof -
  assume x: "0 \<le> x" "x < 16"
  then have "hex_char_to_int (hex_digit x) = x"
    by (simp add: hex_char_to_int_def hex_digit_def code_def)
  moreover from this x have "hex_char_to_int (hex_digit x) \<noteq> - 1" by simp
  then have "plain (hex_digit x)" by (rule hex_plain)
  moreover have "hex_digit x \<noteq> NUL"
  proof
    assume "hex_digit x = NUL"
    then have "(of_char (hex_digit x) :: int) = 0" by simp
    then show False using x by (simp add: hex_digit_def split: if_splits)
  qed
  ultimately show ?thesis by simp
qed

lemma code_bounds: "0 \<le> code c" "code c < 256"
  by (simp_all add: code_def of_char_def)

lemma byte_code: "byte (code c) = c"
  by (simp add: byte_def code_def)

text \<open>A control character without an escape of its own.\<close>

lemma control_back:
  assumes "code c < 32"
  shows "process_char (CHR 0x5C # ''u00'' @ [hex_digit (code c div 16), hex_digit (code c mod 16)] @ t) =
    Some ([c], hex_digit (code c mod 16) # t)"
proof -
  have d: "0 \<le> code c div 16" "code c div 16 < 16" "0 \<le> code c mod 16" "code c mod 16 < 16"
    using code_bounds [of c] by simp_all
  note h = hex_digit_back [OF d(1,2)] hex_digit_back [OF d(3,4)]
  have zero: "hex_char_to_int (CHR ''0'') = 0" by (simp add: hex_char_to_int_def code_def)
  have "parse_utf16_hex (''00'' @ [hex_digit (code c div 16), hex_digit (code c mod 16)] @ t) = Some (code c)"
    using h zero d by (simp add: parse_utf16_hex_def char_at_def Let_def numeral_2_eq_2 numeral_3_eq_3)
  then have "parse_utf16 (''u00'' @ [hex_digit (code c div 16), hex_digit (code c mod 16)] @ t) =
      Some (utf8_bytes (code c), hex_digit (code c mod 16) # t)"
    using assms by (simp add: parse_utf16_def Let_def numeral_3_eq_3)
  moreover have "utf8_bytes (code c) = [c]" using assms by (simp add: utf8_bytes_def byte_code)
  ultimately show ?thesis by (simp add: process_char_def cur_def Let_def)
qed

text \<open>One character: what is written for it is read as it, and the quotes stay in step.\<close>

lemma escaped_forms:
  obtains (itself) "escaped esc c = [c]" "\<not> code c < 32" "c \<noteq> CHR 0x22" "c \<noteq> CHR 0x5C"
  | (two) d where "escaped esc c = [CHR 0x5C, d]" "d \<noteq> NUL" "\<And>t. process_char (CHR 0x5C # d # t) = Some ([c], d # t)"
  | (hex) "escaped esc c = CHR 0x5C # ''u00'' @ [hex_digit (code c div 16), hex_digit (code c mod 16)]" "code c < 32"
proof -
  let ?pairs = "[(CHR 0x22, CHR 0x22), (CHR 0x5C, CHR 0x5C), (CHR 0x08, CHR ''b''), (CHR 0x0C, CHR ''f''), (CHR 0x0A, CHR ''n''),
    (CHR 0x0D, CHR ''r''), (CHR 0x09, CHR ''t'')]"
  show thesis
  proof (cases "c \<in> fst ` set ?pairs")
    case True
    then obtain d where d: "(c, d) \<in> set ?pairs" by auto
    then have "escaped esc c = [CHR 0x5C, d] \<and> d \<noteq> NUL \<and> (\<forall>t. process_char (CHR 0x5C # d # t) = Some ([c], d # t))"
      unfolding list.set insert_iff prod.inject empty_iff
      by (elim disjE conjE; simp add: escaped_def process_char_def cur_def Let_def)
    then show thesis using two by blast
  next
    case False
    then have ne: "c \<noteq> CHR 0x22" "c \<noteq> CHR 0x5C" "c \<noteq> CHR 0x08" "c \<noteq> CHR 0x0C" "c \<noteq> CHR 0x0A" "c \<noteq> CHR 0x0D" "c \<noteq> CHR 0x09"
      by auto
    show thesis
    proof (cases "code c < 32")
      case True
      then show thesis using ne by (intro hex) (simp_all add: escaped_def)
    next
      case nc: False
      show thesis
      proof (cases "c = CHR ''/'' \<and> esc")
        case True
        then show thesis using nc by (intro two [of "CHR ''/''"]) (simp_all add: escaped_def process_char_def cur_def Let_def)
      next
        case False
        then show thesis using nc ne by (intro itself) (auto simp: escaped_def)
      qed
    qed
  qed
qed

lemma escaped_back:
  "process_char (escaped esc c @ t) = Some ([c], last (escaped esc c) # t) \<and> cur (escaped esc c @ t) \<noteq> NUL \<and>
    escaped esc c \<noteq> [] \<and> NUL \<notin> set (escaped esc c) \<and> skip_quotes_loop (escaped esc c @ t) = skip_quotes_loop t"
proof (cases esc c rule: escaped_forms)
  case itself
  moreover have "c \<noteq> NUL" using itself(2) by (auto simp: code_def)
  ultimately show ?thesis by (simp add: process_char_def cur_def Let_def)
next
  case (two d)
  then show ?thesis by (simp add: cur_def)
next
  case hex
  have d: "0 \<le> code c div 16" "code c div 16 < 16" "0 \<le> code c mod 16" "code c mod 16 < 16"
    using code_bounds [of c] by simp_all
  note h = hex_digit_back [OF d(1,2)] hex_digit_back [OF d(3,4)]
  from control_back [OF hex(2), of t] show ?thesis unfolding hex(1) using h by (auto simp: cur_def plain_def)
qed

abbreviation body :: "bool \<Rightarrow> string \<Rightarrow> string" where
  "body esc s \<equiv> concat (map (escaped esc) s)"

lemma process_body: "process_loop (body esc s @ t) (length (body esc s)) = Some s"
proof (induction s)
  case Nil
  show ?case by (subst process_loop.simps) simp
next
  case (Cons c s)
  note e = escaped_back [of esc c "body esc s @ t"]
  have len: "length (escaped esc c) + length (body esc s) - 1 - (length (escaped esc c @ body esc s @ t) - length (last (escaped esc c) # body esc s @ t)) = length (body esc s)"
    using e by (cases "escaped esc c") auto
  have "process_loop (escaped esc c @ body esc s @ t) (length (escaped esc c) + length (body esc s)) =
      map_option ((@) [c]) (process_loop (body esc s @ t) (length (body esc s)))"
    using e len by (subst process_loop.simps) (simp del: length_append)
  with Cons show ?case by simp
qed

lemma skip_body: "skip_quotes_loop (body esc s @ CHR 0x22 # r) = Some r"
  by (induction s) (simp_all add: escaped_back)

lemma body_no_zero: "NUL \<notin> set (body esc s)"
  using escaped_back by (induction s) auto

section \<open>Quoted strings\<close>

lemma grants_keep [simp]:
  "generous (snd (pvPortMalloc n m)) = generous m" "generous (vPortFree m) = generous m" "generous (free_ptr b m) = generous m"
  by (simp_all add: generous_def free_ptr_def)

lemma quoted_back:
  assumes "generous m"
  shows "\<exists>m'. get_quoted_string (quoted esc s @ r) m = (Some s, r, m') \<and> generous m'"
proof -
  have sk: "skip_quotes (quoted esc s @ r) = Some r" by (simp add: skip_quotes_def quoted_def cur_def skip_body)
  have len: "length (quoted esc s @ r) - length r - 2 = length (body esc s)" by (simp add: quoted_def)
  have "process_loop (tl (quoted esc s @ r)) (length (body esc s)) = Some s"
    using process_body [of esc s "CHR 0x22 # r"] by (simp add: quoted_def)
  then show ?thesis
    using assms unfolding get_quoted_string_def sk option.case len
    by (simp add: process_string_def pvPortMalloc_def generous_def vPortFree_def)
qed

end
