(* ===== verification/JsonTrip.thy ===== *)
theory JsonTrip imports StringTrip begin

text \<open>
  The text that the serializer writes for a value, compact or with line breaks, is read back by the
  parser as that value, as far as the allocator refuses nothing: the same members in the same
  order, the same strings byte by byte, the same numbers bit by bit. Only the capacities are new:
  the parser trims them to what is there.
\<close>

section \<open>The value that is read\<close>

primrec trimmed :: "json \<Rightarrow> json" where
  "trimmed JNull = JNull"
| "trimmed (JString s) = JString s"
| "trimmed (JNumber x) = JNumber x"
| "trimmed (JObject kvs cap) = JObject (map (map_prod id trimmed) kvs) (length kvs)"
| "trimmed (JArray xs cap) = JArray (map trimmed xs) (length xs)"
| "trimmed (JBoolean b) = JBoolean b"

abbreviation member_text :: "bool \<Rightarrow> bool \<Rightarrow> int \<Rightarrow> string \<times> json \<Rightarrow> string" where
  "member_text esc pretty level kv \<equiv>
     quoted esc (fst kv) @ '':'' @ (if pretty then '' '' else []) @ json_text esc pretty (snd kv) (level + 1)"

lemma json_text_object:
  "json_text esc pretty (JObject kvs cap) level =
     between_text ''{'' ''}'' pretty level (map (member_text esc pretty level) kvs)"
  by (simp add: o_def case_prod_unfold)

lemma json_text_array:
  "json_text esc pretty (JArray xs cap) level =
     between_text ''['' '']'' pretty level (map (\<lambda>v. json_text esc pretty v (level + 1)) xs)"
  by (simp add: o_def)

declare json_text.simps(1,2) [simp del]

section \<open>The characters of the text\<close>

definition value_start :: "char \<Rightarrow> bool" where
  "value_start c \<longleftrightarrow> c \<in> {CHR ''{'', CHR ''['', CHR 0x22, CHR ''t'', CHR ''f'', CHR ''n''} \<or> number_start c"

lemma value_start_facts:
  assumes "value_start c"
  shows "\<not> isspace c" "c \<noteq> NUL" "c \<noteq> CHR 0xEF" "c \<noteq> CHR '']''" "c \<noteq> CHR ''}''"
  using assms by (auto simp: value_start_def number_start_def isspace_def isdigit_def)

lemma cur_append: "s \<noteq> [] \<Longrightarrow> cur (s @ t) = cur s"
  by (cases s) (simp_all add: cur_def)

lemma cur_cons [simp]: "cur (c # s) = c"
  by (simp add: cur_def)

lemma number_text_start: "dbl_ok x \<Longrightarrow> number_start (cur (sprintf_17g x))"
  using number_read_back(3) [of x "[]"] by (simp add: number_ends_def cur_def)

lemma text_start:
  assumes "json_ok v"
  shows "json_text esc pretty v level \<noteq> [] \<and> value_start (cur (json_text esc pretty v level))"
proof (cases v)
  case (JNumber x)
  have "number_start (cur (sprintf_17g x))" using number_text_start assms JNumber by simp
  moreover from this have "sprintf_17g x \<noteq> []" by (auto simp: cur_def number_start_def isdigit_def)
  ultimately show ?thesis using JNumber by (simp add: value_start_def)
qed (simp_all add: json_text_object json_text_array between_text_def quoted_def value_start_def)

lemma between_no_zero:
  assumes "list_all (\<lambda>t. NUL \<notin> set t) ts" "NUL \<notin> set a" "NUL \<notin> set z"
  shows "NUL \<notin> set (between_text a z pretty l ts)"
proof -
  have ind: "NUL \<notin> set (indent l)" for l by (auto simp: indent_def)
  have "NUL \<notin> set (items_text pretty l ts)" using assms(1) ind by (induction ts) auto
  then show ?thesis using assms(2,3) ind by (auto simp: between_text_def)
qed

lemma quoted_no_zero: "NUL \<notin> set (quoted esc s)"
  using body_no_zero by (auto simp: quoted_def)

lemma number_no_zero:
  assumes "dbl_ok x"
  shows "NUL \<notin> set (sprintf_17g x)"
proof -
  have "is_decimal (sprintf_17g x @ []) (length (sprintf_17g x))"
    by (intro number_read_back(2) assms) (simp add: number_ends_def cur_def)
  then have "sprintf_17g x ! i \<noteq> NUL" if "i < length (sprintf_17g x)" for i
    using that by (auto simp: is_decimal_def list_all_iff char_at_def split: if_splits)
  then show ?thesis by (auto simp: in_set_conv_nth)
qed

lemma text_no_zero: "json_ok v \<Longrightarrow> NUL \<notin> set (json_text esc pretty v level)"
proof (induction v arbitrary: level)
  case (JObject kvs cap)
  have "NUL \<notin> set (member_text esc pretty level kv)" if "kv \<in> set kvs" for kv
    using JObject.IH [OF that, of "snd kv" "level + 1"] JObject.prems that quoted_no_zero [of esc "fst kv"]
    by (auto simp: json_ok_object snds.simps)
  then show ?case unfolding json_text_object by (intro between_no_zero) (auto simp: list_all_iff)
next
  case (JArray xs cap)
  then show ?case unfolding json_text_array by (intro between_no_zero) (auto simp: list_all_iff json_ok_array)
qed (auto simp: quoted_no_zero number_no_zero)

section \<open>Scalars\<close>

text \<open>\<open>reads_as\<close>: behind any white space the parser reads the text of the value, and stops at its end.\<close>

definition reads_as :: "nat \<Rightarrow> string \<Rightarrow> json \<Rightarrow> bool" where
  "reads_as d t w \<longleftrightarrow>
     (\<forall>ws r m. list_all isspace ws \<and> number_ends r \<and> generous m \<longrightarrow>
        (\<exists>m'. parse_value d (ws @ t @ r) m = Some (Some w, r, m') \<and> generous m'))"

lemma skip_spaces: "list_all isspace ws \<Longrightarrow> \<not> isspace (cur s) \<Longrightarrow> SKIP_WHITESPACES (ws @ s) = s"
  by (induction ws) (auto simp: SKIP_WHITESPACES_def, cases s, auto simp: cur_def)

lemma skip_none: "\<not> isspace (cur s) \<Longrightarrow> SKIP_WHITESPACES s = s"
  using skip_spaces [of "[]" s] by simp

lemma init_run:
  assumes "generous m"
  shows "\<exists>m'. json_value_init_number x m = ((if IS_NUMBER_INVALID x then None else Some (JNumber x)), m') \<and> generous m'"
    "\<exists>m'. json_value_init_boolean b m = (Some (JBoolean (if b \<noteq> 0 then 1 else 0)), m') \<and> generous m'"
    "\<exists>m'. json_value_init_null m = (Some JNull, m') \<and> generous m'"
    "\<exists>m'. json_value_init_string_no_copy s m = (Some (JString s), m') \<and> generous m'"
    "\<exists>m'. json_value_init_object m = (Some (JObject [] 0), m') \<and> generous m'"
    "\<exists>m'. json_value_init_array m = (Some (JArray [] 0), m') \<and> generous m'"
  using assms
  by (simp_all add: json_value_init_number_def json_value_init_boolean_def json_value_init_null_def
      json_value_init_string_no_copy_def json_value_init_object_def json_value_init_array_def pvPortMalloc_def generous_def)

lemma parse_skips:
  assumes "list_all isspace ws" "\<not> isspace (cur s)"
  shows "parse_value (Suc d) (ws @ s) m = parse_value (Suc d) s m"
  using skip_spaces [OF assms] skip_none [OF assms(2)] by simp

lemma scalars_read:
  "reads_as (Suc d) ''null'' JNull" "b = 0 \<or> b = 1 \<Longrightarrow> reads_as (Suc d) (if b \<noteq> 0 then ''true'' else ''false'') (JBoolean b)"
  "dbl_ok x \<Longrightarrow> reads_as (Suc d) (sprintf_17g x) (JNumber x)" "reads_as (Suc d) (quoted esc s) (JString s)"
proof -
  have num: "reads_as (Suc d) t w"
    if start: "t \<noteq> []" "value_start (cur t)"
      and read: "\<And>r m. number_ends r \<Longrightarrow> generous m \<Longrightarrow> \<exists>m'. parse_value (Suc d) (t @ r) m = Some (Some w, r, m') \<and> generous m'" for t w
    unfolding reads_as_def
  proof (intro allI impI, elim conjE)
    fix ws r m assume "list_all isspace ws" "number_ends r" "generous m"
    moreover have "\<not> isspace (cur (t @ r))" using value_start_facts(1) [OF start(2)] start(1) by (simp add: cur_append)
    ultimately show "\<exists>m'. parse_value (Suc d) (ws @ t @ r) m = Some (Some w, r, m') \<and> generous m'"
      using read parse_skips [of ws "t @ r"] by simp
  qed
  have sp: "\<not> isspace (CHR ''n'')" "\<not> isspace (CHR ''t'')" "\<not> isspace (CHR ''f'')" "\<not> isspace (CHR 0x22)" by (simp_all add: isspace_def)
  have nd: "\<not> isdigit (CHR ''n'')" by (simp add: isdigit_def)
  show "reads_as (Suc d) ''null'' JNull"
  proof (rule num)
    fix r m assume g: "generous m"
    then show "\<exists>m'. parse_value (Suc d) (''null'' @ r) m = Some (Some JNull, r, m') \<and> generous m'"
      using init_run(3) [OF g] nd by (auto simp: skip_none sp parse_null_value_def)
  qed (simp_all add: value_start_def)
  show "reads_as (Suc d) (if b \<noteq> 0 then ''true'' else ''false'') (JBoolean b)" if b: "b = 0 \<or> b = 1"
  proof (rule num)
    fix r m assume g: "generous m"
    show "\<exists>m'. parse_value (Suc d) ((if b \<noteq> 0 then ''true'' else ''false'') @ r) m = Some (Some (JBoolean b), r, m') \<and> generous m'"
      using init_run(2) [OF g, of 0] init_run(2) [OF g, of 1] b by (auto simp: skip_none sp parse_boolean_value_def)
  qed (simp_all add: value_start_def)
  show "reads_as (Suc d) (sprintf_17g x) (JNumber x)" if x: "dbl_ok x"
  proof (rule num)
    fix r m assume r: "number_ends r" and g: "generous m"
    note nb = number_read_back [OF x r]
    have "\<not> isspace (cur (sprintf_17g x @ r))" using nb(3) by (auto simp: number_start_def isspace_def isdigit_def)
    moreover have "cur (sprintf_17g x @ r) \<notin> {CHR ''{'', CHR ''['', CHR 0x22, CHR ''t'', CHR ''f''}"
      using nb(3) by (auto simp: number_start_def isdigit_def)
    ultimately have "parse_value (Suc d) (sprintf_17g x @ r) m = Some (parse_number_value (sprintf_17g x @ r) m)"
      using nb(3) by (simp add: skip_none Let_def number_start_def)
    moreover have "length (sprintf_17g x @ r) - length r = length (sprintf_17g x)" by simp
    ultimately show "\<exists>m'. parse_value (Suc d) (sprintf_17g x @ r) m = Some (Some (JNumber x), r, m') \<and> generous m'"
      using init_run(1) [OF g, of x] dbl_ok_valid [OF x] nb(1,2) by (auto simp: parse_number_value_def)
  qed (use text_start [of "JNumber x" esc pretty level] x in simp_all)
  show "reads_as (Suc d) (quoted esc s) (JString s)"
  proof (rule num)
    fix r m assume g: "generous m"
    from quoted_back [OF g, of esc s r] obtain m1 where m1: "get_quoted_string (quoted esc s @ r) m = (Some s, r, m1)" "generous m1" by blast
    have c: "cur (quoted esc s @ r) = CHR 0x22" by (simp add: quoted_def)
    show "\<exists>m'. parse_value (Suc d) (quoted esc s @ r) m = Some (Some (JString s), r, m') \<and> generous m'"
      using init_run(4) [OF m1(2), of s] m1(1) c by (auto simp: skip_none sp parse_string_value_def)
  qed (simp_all add: value_start_def quoted_def)
qed

end
