(* ===== verification/JsonTripLoops.thy ===== *)
theory JsonTripLoops imports JsonTrip begin

text \<open>Arrays, objects and whole texts are read back.\<close>

section \<open>Containers that grow\<close>

lemma array_add_run:
  assumes "generous m"
  shows "\<exists>cap' m'. json_array_add (xs, cap) v m = (JSONSuccess, (xs @ [v], cap'), m') \<and> generous m'"
  using assms
  by (auto simp: json_array_add_def json_array_resize_def pvPortMalloc_def generous_def grown_def STARTING_CAPACITY_def
      free_ptr_def vPortFree_def)

lemma array_resize_run:
  assumes "generous m" "n \<noteq> 0"
  shows "\<exists>m'. json_array_resize (xs, cap) n m = (JSONSuccess, (xs, n), m') \<and> generous m'"
  using assms by (auto simp: json_array_resize_def pvPortMalloc_def generous_def free_ptr_def vPortFree_def)

lemma object_add_run:
  assumes "generous m" "k \<notin> fst ` set kvs"
  shows "\<exists>cap' m'. json_object_add (kvs, cap) k (Some v) m = (JSONSuccess, (kvs @ [(k, v)], cap'), m') \<and> generous m'"
proof -
  have "json_object_getn_value kvs k (length k) = None" using assms(2) by (simp add: getn_map_of map_of_eq_None_iff)
  then show ?thesis using assms(1)
    by (auto simp: json_object_add_def json_object_addn_def json_object_resize_def parson_strndup_def pvPortMalloc_def
        generous_def grown_def STARTING_CAPACITY_def free_ptr_def vPortFree_def)
qed

lemma object_resize_run:
  assumes "generous m" "n \<noteq> 0"
  shows "\<exists>m'. json_object_resize (kvs, cap) n m = (JSONSuccess, (kvs, n), m') \<and> generous m'"
  using assms by (auto simp: json_object_resize_def pvPortMalloc_def generous_def free_ptr_def vPortFree_def)

section \<open>The loops\<close>

text \<open>What follows the last item, and what follows any item.\<close>

definition closing :: "bool \<Rightarrow> int \<Rightarrow> char \<Rightarrow> string \<Rightarrow> string" where
  "closing pretty level z r = (if pretty then indent level else []) @ z # r"

definition behind :: "bool \<Rightarrow> int \<Rightarrow> string list \<Rightarrow> string \<Rightarrow> string" where
  "behind pretty level ts fin =
     (if ts \<noteq> [] then '','' else []) @ (if pretty then [CHR 0x0A] else []) @ items_text pretty level ts @ fin"

lemma items_text_behind:
  "items_text pretty level (t # ts) @ fin = (if pretty then indent (level + 1) else []) @ t @ behind pretty level ts fin"
  by (simp add: behind_def)

lemma indent_spaces: "list_all isspace (indent l)"
  by (auto simp: indent_def isspace_def list_all_iff)

lemma skip_more: "list_all isspace ws \<Longrightarrow> SKIP_WHITESPACES (ws @ s) = SKIP_WHITESPACES s"
  by (induction ws) (auto simp: SKIP_WHITESPACES_def)

lemma skip_closing:
  assumes "\<not> isspace z"
  shows "SKIP_WHITESPACES (closing pretty level z r) = z # r"
  using assms indent_spaces [of level] skip_none [of "z # r"] by (simp add: closing_def skip_more)

lemma skip_items:
  assumes "t \<noteq> []" "\<not> isspace (cur t)"
  shows "SKIP_WHITESPACES (items_text pretty level (t # ts) @ fin) = t @ behind pretty level ts fin"
proof -
  have "\<not> isspace (cur (t @ behind pretty level ts fin))" using assms by (simp add: cur_append)
  then show ?thesis unfolding items_text_behind by (simp add: skip_more indent_spaces skip_none)
qed

lemma behind_more:
  "ts \<noteq> [] \<Longrightarrow> behind pretty level ts fin = CHR '','' # (if pretty then [CHR 0x0A] else []) @ items_text pretty level ts @ fin"
  "number_ends (behind pretty level ts (closing pretty level z r))" if "z \<in> {CHR '']'', CHR ''}''}"
  using that by (auto simp: behind_def closing_def number_ends_def cur_def)

lemma skip_behind_last:
  assumes "\<not> isspace z"
  shows "SKIP_WHITESPACES (behind pretty level [] (closing pretty level z r)) = z # r"
proof -
  have "list_all isspace (if pretty then [CHR 0x0A] else [])" by (simp add: isspace_def)
  from skip_more [OF this, of "closing pretty level z r"] skip_closing [OF assms] show ?thesis by (simp add: behind_def)
qed

lemma comma_space: "\<not> isspace (CHR '','')" "\<not> isspace (CHR '']'')" "\<not> isspace (CHR ''}'')" "\<not> isspace (CHR '':'')"
  "\<not> isspace (CHR 0x22)" "\<not> isspace (CHR ''['')" "\<not> isspace (CHR ''{'')" "isspace (CHR '' '')" "isspace (CHR 0x0A)"
  by (simp_all add: isspace_def)

lemma reads_asD:
  "reads_as d t w \<Longrightarrow> list_all isspace ws \<Longrightarrow> number_ends r \<Longrightarrow> generous m \<Longrightarrow>
    \<exists>m'. parse_value d (ws @ t @ r) m = Some (Some w, r, m') \<and> generous m'"
  by (simp add: reads_as_def)

lemma items_read:
  "list_all (\<lambda>(t, w). reads_as d t w \<and> t \<noteq> [] \<and> value_start (cur t)) tws \<Longrightarrow> tws \<noteq> [] \<Longrightarrow> length tws < fuel \<Longrightarrow> generous m \<Longrightarrow>
    \<exists>cap' m'. parse_items (parse_value d) fuel (acc, cap)
        (SKIP_WHITESPACES (items_text pretty level (map fst tws) @ closing pretty level (CHR '']'') r)) m =
      Some (Some (acc @ map snd tws, cap'), CHR '']'' # r, m') \<and> generous m'"
proof (induction tws arbitrary: acc cap fuel m)
  case (Cons tw tws)
  obtain t w where tw: "tw = (t, w)" by fastforce
  let ?fin = "closing pretty level (CHR '']'') r" and ?ts = "map fst tws"
  have t: "reads_as d t w" "t \<noteq> []" "value_start (cur t)" using Cons.prems(1) tw by auto
  note vs = value_start_facts [OF t(3)]
  obtain f where f: "fuel = Suc f" using Cons.prems(3) by (cases fuel) auto
  have s: "SKIP_WHITESPACES (items_text pretty level (map fst (tw # tws)) @ ?fin) = t @ behind pretty level ?ts ?fin"
    unfolding tw list.map fst_conv by (rule skip_items [OF t(2) vs(1)])
  have cur: "cur (t @ behind pretty level ?ts ?fin) \<noteq> NUL" using vs(2) t(2) by (simp add: cur_append)
  from reads_asD [OF t(1), of "[]"] behind_more(2) [of "CHR '']''" pretty level ?ts r] Cons.prems(4) obtain m1 where
    m1: "parse_value d (t @ behind pretty level ?ts ?fin) m = Some (Some w, behind pretty level ?ts ?fin, m1)" "generous m1"
    by auto
  from array_add_run [OF m1(2), of acc cap w] obtain c2 m2 where
    m2: "json_array_add (acc, cap) w m1 = (JSONSuccess, (acc @ [w], c2), m2)" "generous m2" by blast
  show ?case
  proof (cases "tws = []")
    case True
    have "SKIP_WHITESPACES (behind pretty level ?ts ?fin) = CHR '']'' # r"
      using True skip_behind_last [OF comma_space(2)] by simp
    then have "parse_items (parse_value d) fuel (acc, cap) (t @ behind pretty level ?ts ?fin) m =
        Some (Some (acc @ [w], c2), CHR '']'' # r, m2)"
      using cur m1(1) m2(1) f by simp
    then show ?thesis unfolding s using m2(2) True tw by simp
  next
    case False
    let ?nl = "if pretty then [CHR 0x0A] else []"
    have nl: "list_all isspace ?nl" by (simp add: isspace_def)
    have b: "behind pretty level ?ts ?fin = CHR '','' # ?nl @ items_text pretty level ?ts @ ?fin"
      using False behind_more(1) [of "CHR '']''" ?ts] by simp
    have sk: "SKIP_WHITESPACES (behind pretty level ?ts ?fin) = CHR '','' # ?nl @ items_text pretty level ?ts @ ?fin"
      unfolding b by (rule skip_none) (simp add: comma_space)
    have "parse_items (parse_value d) fuel (acc, cap) (t @ behind pretty level ?ts ?fin) m =
        parse_items (parse_value d) f (acc @ [w], c2) (SKIP_WHITESPACES (items_text pretty level ?ts @ ?fin)) m2"
      using cur m1(1) m2(1) sk skip_more [OF nl, of "items_text pretty level ?ts @ ?fin"] by (simp add: f)
    moreover have "length tws < f" using Cons.prems(3) f by simp
    from Cons.IH [OF _ False this m2(2), of "acc @ [w]" c2] Cons.prems(1)
    obtain c' m' where "parse_items (parse_value d) f (acc @ [w], c2) (SKIP_WHITESPACES (items_text pretty level ?ts @ ?fin)) m2 =
        Some (Some ((acc @ [w]) @ map snd tws, c'), CHR '']'' # r, m')" "generous m'" by auto
    ultimately show ?thesis unfolding s using tw by simp
  qed
qed simp

lemma members_read:
  "list_all (\<lambda>(k, t, w). reads_as d t w \<and> NUL \<notin> set k) ktws \<Longrightarrow> ktws \<noteq> [] \<Longrightarrow> length ktws < fuel \<Longrightarrow> generous m \<Longrightarrow>
    distinct (map fst acc @ map fst ktws) \<Longrightarrow>
    \<exists>cap' m'. parse_members (parse_value d) fuel (acc, cap)
        (SKIP_WHITESPACES (items_text pretty level
           (map (\<lambda>(k, t, w). quoted esc k @ '':'' @ (if pretty then '' '' else []) @ t) ktws) @ closing pretty level (CHR ''}'') r)) m =
      Some (Some (acc @ map (\<lambda>(k, t, w). (k, w)) ktws, cap'), CHR ''}'' # r, m') \<and> generous m'"
proof (induction ktws arbitrary: acc cap fuel m)
  case (Cons x ktws)
  obtain k t w where x: "x = (k, t, w)" by (cases x)
  let ?fin = "closing pretty level (CHR ''}'') r" and ?sp = "if pretty then '' '' else []"
  define ts where "ts = map (\<lambda>(k, t, w). quoted esc k @ '':'' @ ?sp @ t) ktws"
  have t: "reads_as d t w" "NUL \<notin> set k" using Cons.prems(1) x by auto
  obtain f where f: "fuel = Suc f" using Cons.prems(3) by (cases fuel) auto
  let ?q = "quoted esc k" and ?b = "behind pretty level ts ?fin"
  have q: "?q @ '':'' @ ?sp @ t \<noteq> []" "cur (?q @ '':'' @ ?sp @ t) = CHR 0x22" by (simp_all add: quoted_def)
  have l: "map (\<lambda>(k, t, w). quoted esc k @ '':'' @ ?sp @ t) (x # ktws) = (?q @ '':'' @ ?sp @ t) # ts"
    by (simp add: ts_def x)
  have "\<not> isspace (cur (?q @ '':'' @ ?sp @ t))" unfolding q(2) by (rule comma_space)
  from skip_items [OF q(1) this, of pretty level ts ?fin]
  have s: "SKIP_WHITESPACES (items_text pretty level (map (\<lambda>(k, t, w). quoted esc k @ '':'' @ ?sp @ t) (x # ktws)) @ ?fin) =
      ?q @ CHR '':'' # ?sp @ t @ ?b"
    unfolding l by (simp only: append_assoc append_Cons append_Nil)
  have cur: "cur (?q @ CHR '':'' # ?sp @ t @ ?b) = CHR 0x22" by (simp add: quoted_def)
  from quoted_back [OF Cons.prems(4), of esc k "CHR '':'' # ?sp @ t @ ?b"] obtain m0 where
    m0: "get_quoted_string (?q @ CHR '':'' # ?sp @ t @ ?b) m = (Some k, CHR '':'' # ?sp @ t @ ?b, m0)" "generous m0" by blast
  have kl: "length k = length (c_str k)" using t(2) c_str_length by blast
  have colon: "SKIP_WHITESPACES (CHR '':'' # ?sp @ t @ ?b) = CHR '':'' # ?sp @ t @ ?b"
    by (rule skip_none) (simp add: comma_space)
  have sp: "list_all isspace ?sp" by (simp add: isspace_def)
  from reads_asD [OF t(1) sp behind_more(2) [of "CHR ''}''" pretty level ts r] m0(2)] obtain m1 where
    m1: "parse_value d (?sp @ t @ ?b) m0 = Some (Some w, ?b, m1)" "generous m1" by auto
  have "k \<notin> fst ` set acc" using Cons.prems(5) x by auto
  from object_add_run [OF m1(2) this, of cap w] obtain c2 m2 where
    m2: "json_object_add (acc, cap) k (Some w) m1 = (JSONSuccess, (acc @ [(k, w)], c2), m2)" "generous m2" by blast
  let ?m2 = "vPortFree m2"
  have g2: "generous ?m2" using m2(2) by simp
  show ?case
  proof (cases "ktws = []")
    case True
    then have "SKIP_WHITESPACES ?b = CHR ''}'' # r" using skip_behind_last [OF comma_space(3)] by (simp add: ts_def)
    then have "parse_members (parse_value d) fuel (acc, cap) (?q @ CHR '':'' # ?sp @ t @ ?b) m =
        Some (Some (acc @ [(k, w)], c2), CHR ''}'' # r, ?m2)"
      using cur m0(1) kl colon m1(1) m2(1) f by simp
    then show ?thesis unfolding s using g2 True x by simp
  next
    case False
    let ?nl = "if pretty then [CHR 0x0A] else []"
    have nl: "list_all isspace ?nl" by (simp add: isspace_def)
    have b: "?b = CHR '','' # ?nl @ items_text pretty level ts @ ?fin"
      using False behind_more(1) [of "CHR ''}''" ts] by (simp add: ts_def)
    have sk: "SKIP_WHITESPACES ?b = CHR '','' # ?nl @ items_text pretty level ts @ ?fin"
      unfolding b by (rule skip_none) (simp add: comma_space)
    have "parse_members (parse_value d) fuel (acc, cap) (?q @ CHR '':'' # ?sp @ t @ ?b) m =
        parse_members (parse_value d) f (acc @ [(k, w)], c2) (SKIP_WHITESPACES (items_text pretty level ts @ ?fin)) ?m2"
      using cur m0(1) kl colon m1(1) m2(1) sk skip_more [OF nl, of "items_text pretty level ts @ ?fin"] by (simp add: f)
    moreover have "length ktws < f" using Cons.prems(3) f by simp
    from Cons.IH [OF _ False this g2, of "acc @ [(k, w)]" c2] Cons.prems(1,5) x
    obtain c' m' where "parse_members (parse_value d) f (acc @ [(k, w)], c2) (SKIP_WHITESPACES (items_text pretty level ts @ ?fin)) ?m2 =
        Some (Some ((acc @ [(k, w)]) @ map (\<lambda>(k, t, w). (k, w)) ktws, c'), CHR ''}'' # r, m')" "generous m'"
      by (auto simp: ts_def)
    ultimately show ?thesis unfolding s using x by simp
  qed
qed simp

end
