(* ===== verification/JsonTripValues.thy ===== *)
theory JsonTripValues imports JsonTripLoops begin

text \<open>Every well-formed value is read back from its text.\<close>

section \<open>Arrays and objects\<close>

lemma items_length: "list_all (\<lambda>t. t \<noteq> []) ts \<Longrightarrow> length ts \<le> length (items_text pretty level ts)"
proof (induction ts)
  case (Cons t ts)
  then have "1 \<le> length t" by (cases t) auto
  with Cons show ?case by simp
qed simp

lemma skipped_length:
  assumes "list_all (\<lambda>t. t \<noteq> []) (t # ts)" "\<not> isspace (cur t)"
  shows "length (t # ts) < Suc (length (SKIP_WHITESPACES (items_text pretty level (t # ts) @ fin)))"
proof -
  have "1 \<le> length t" using assms(1) by (cases t) auto
  moreover have "length ts \<le> length (items_text pretty level ts)" using items_length assms(1) by simp
  ultimately show ?thesis
    using skip_items [of t pretty level ts fin] assms by (simp add: behind_def)
qed

lemma between_closing:
  "ts \<noteq> [] \<Longrightarrow> between_text [a] [z] pretty level ts @ r =
    a # (if pretty then [CHR 0x0A] else []) @ items_text pretty level ts @ closing pretty level z r"
  by (simp add: between_text_def closing_def)

lemma newline_spaces: "list_all isspace (if pretty then [CHR 0x0A] else [])"
  by (simp add: isspace_def)

lemma array_reads:
  assumes "\<And>v. v \<in> set xs \<Longrightarrow> reads_as d (json_text esc pretty v (level + 1)) (trimmed v) \<and> json_ok v"
  shows "reads_as (Suc d) (json_text esc pretty (JArray xs cap) level) (trimmed (JArray xs cap))"
  unfolding reads_as_def
proof (intro allI impI, elim conjE)
  fix ws r m
  assume ws: "list_all isspace ws" and r: "number_ends r" and g: "generous m"
  let ?ts = "map (\<lambda>v. json_text esc pretty v (level + 1)) xs" and ?s = "json_text esc pretty (JArray xs cap) level @ r"
  obtain s' where s': "?s = CHR ''['' # s'" by (simp add: json_text_array between_text_def)
  have "parse_value (Suc d) (ws @ ?s) m = parse_value (Suc d) ?s m"
    by (rule parse_skips [OF ws]) (simp add: s' comma_space)
  also have "\<dots> = parse_array_value (parse_value d) ?s m"
    unfolding s' using skip_none [of "CHR ''['' # s'"] comma_space by simp
  finally have run: "parse_value (Suc d) (ws @ ?s) m = parse_array_value (parse_value d) ?s m" .
  from init_run(6) [OF g] obtain m1 where m1: "json_value_init_array m = (Some (JArray [] 0), m1)" "generous m1" by blast
  show "\<exists>m'. parse_value (Suc d) (ws @ ?s) m = Some (Some (trimmed (JArray xs cap)), r, m') \<and> generous m'"
  proof (cases xs)
    case Nil
    then have "?s = ''[]'' @ r" by (simp add: json_text_array between_text_def)
    then show ?thesis unfolding run using Nil m1 skip_none [of "CHR '']'' # r"] comma_space
      by (simp add: parse_array_value_def)
  next
    case (Cons x xs')
    then have ne: "?ts \<noteq> []" "xs \<noteq> []" by simp_all
    let ?fin = "closing pretty level (CHR '']'') r"
    let ?tws = "map (\<lambda>v. (json_text esc pretty v (level + 1), trimmed v)) xs"
    have fm: "map fst ?tws = ?ts" "map snd ?tws = map trimmed xs" by simp_all
    have all: "list_all (\<lambda>(t, w). reads_as d t w \<and> t \<noteq> [] \<and> value_start (cur t)) ?tws"
      using assms text_start by (auto simp: list_all_iff)
    define s2 where "s2 = SKIP_WHITESPACES (items_text pretty level ?ts @ ?fin)"
    have s: "?s = CHR ''['' # (if pretty then [CHR 0x0A] else []) @ items_text pretty level ?ts @ ?fin"
      unfolding json_text_array by (rule between_closing [OF ne(1)])
    have sk: "SKIP_WHITESPACES ((if pretty then [CHR 0x0A] else []) @ items_text pretty level ?ts @ ?fin) = s2"
      unfolding s2_def by (rule skip_more [OF newline_spaces])
    let ?t = "json_text esc pretty x (level + 1)"
    have tx: "?t \<noteq> []" "value_start (cur ?t)" using assms [of x] text_start [of x] Cons by auto
    note vs = value_start_facts [OF tx(2)]
    have ts: "?ts = ?t # map (\<lambda>v. json_text esc pretty v (level + 1)) xs'" using Cons by simp
    have la: "list_all (\<lambda>t. t \<noteq> []) ?ts" using assms text_start by (auto simp: list_all_iff)
    have "length ?ts < Suc (length s2)"
      unfolding s2_def ts by (rule skipped_length [OF la [unfolded ts] vs(1)])
    then have len: "length ?tws < Suc (length s2)" by simp
    have c2: "cur s2 \<noteq> CHR '']''"
      unfolding s2_def ts skip_items [OF tx(1) vs(1)] using vs(4) tx(1) by (simp add: cur_append)
    from items_read [OF all _ len m1(2), of "[]" 0 pretty level r] ne(2) obtain c3 m3 where
      m3: "parse_items (parse_value d) (Suc (length s2)) ([], 0) s2 m1 = Some (Some (map trimmed xs, c3), CHR '']'' # r, m3)"
        "generous m3" unfolding fm s2_def by auto
    from array_resize_run [OF m3(2), of "length xs" "map trimmed xs" c3] ne(2) obtain m4 where
      m4: "json_array_resize (map trimmed xs, c3) (length xs) m3 = (JSONSuccess, (map trimmed xs, length xs), m4)" "generous m4"
      by auto
    have "parse_array_value (parse_value d) ?s m = Some (Some (JArray (map trimmed xs) (length xs)), r, m4)"
      unfolding s parse_array_value_def m1(1)
      using sk c2 m3(1) m4(1) skip_none [of "CHR '']'' # r"] comma_space by (simp del: parse_items.simps)
    then show ?thesis unfolding run using m4(2) by simp
  qed
qed

lemma object_reads:
  assumes "\<And>k v. (k, v) \<in> set kvs \<Longrightarrow> reads_as d (json_text esc pretty v (level + 1)) (trimmed v) \<and> NUL \<notin> set k"
    and dist: "distinct (map fst kvs)"
  shows "reads_as (Suc d) (json_text esc pretty (JObject kvs cap) level) (trimmed (JObject kvs cap))"
  unfolding reads_as_def
proof (intro allI impI, elim conjE)
  fix ws r m
  assume ws: "list_all isspace ws" and r: "number_ends r" and g: "generous m"
  let ?ts = "map (member_text esc pretty level) kvs" and ?s = "json_text esc pretty (JObject kvs cap) level @ r"
  obtain s' where s': "?s = CHR ''{'' # s'" by (simp add: json_text_object between_text_def)
  have "parse_value (Suc d) (ws @ ?s) m = parse_value (Suc d) ?s m"
    by (rule parse_skips [OF ws]) (simp add: s' comma_space)
  also have "\<dots> = parse_object_value (parse_value d) ?s m"
    unfolding s' using skip_none [of "CHR ''{'' # s'"] comma_space by simp
  finally have run: "parse_value (Suc d) (ws @ ?s) m = parse_object_value (parse_value d) ?s m" .
  from init_run(5) [OF g] obtain m1 where m1: "json_value_init_object m = (Some (JObject [] 0), m1)" "generous m1" by blast
  show "\<exists>m'. parse_value (Suc d) (ws @ ?s) m = Some (Some (trimmed (JObject kvs cap)), r, m') \<and> generous m'"
  proof (cases kvs)
    case Nil
    then have "?s = ''{}'' @ r" by (simp add: json_text_object between_text_def)
    then show ?thesis unfolding run using Nil m1 skip_none [of "CHR ''}'' # r"] comma_space
      by (simp add: parse_object_value_def)
  next
    case (Cons x kvs')
    then have ne: "?ts \<noteq> []" "kvs \<noteq> []" by simp_all
    let ?fin = "closing pretty level (CHR ''}'') r"
    let ?ktws = "map (\<lambda>(k, v). (k, json_text esc pretty v (level + 1), trimmed v)) kvs"
    have fm: "map (\<lambda>(k, t, w). quoted esc k @ '':'' @ (if pretty then '' '' else []) @ t) ?ktws = ?ts"
      "map (\<lambda>(k, t, w). (k, w)) ?ktws = map (map_prod id trimmed) kvs"
      by (auto simp: case_prod_unfold)
    have all: "list_all (\<lambda>(k, t, w). reads_as d t w \<and> NUL \<notin> set k) ?ktws"
      using assms(1) by (auto simp: list_all_iff)
    have dk: "distinct (map fst ([] :: (string \<times> json) list) @ map fst ?ktws)" using dist by (simp add: case_prod_unfold o_def)
    define s2 where "s2 = SKIP_WHITESPACES (items_text pretty level ?ts @ ?fin)"
    have s: "?s = CHR ''{'' # (if pretty then [CHR 0x0A] else []) @ items_text pretty level ?ts @ ?fin"
      unfolding json_text_object by (rule between_closing [OF ne(1)])
    have sk: "SKIP_WHITESPACES ((if pretty then [CHR 0x0A] else []) @ items_text pretty level ?ts @ ?fin) = s2"
      unfolding s2_def by (rule skip_more [OF newline_spaces])
    let ?t = "member_text esc pretty level x"
    have tx: "?t \<noteq> []" "cur ?t = CHR 0x22" by (simp_all add: quoted_def)
    have nsp: "\<not> isspace (cur ?t)" unfolding tx(2) by (rule comma_space)
    have ts: "?ts = ?t # map (member_text esc pretty level) kvs'" using Cons by simp
    have la: "list_all (\<lambda>t. t \<noteq> []) ?ts" by (auto simp: list_all_iff quoted_def)
    have "length ?ts < Suc (length s2)"
      unfolding s2_def ts by (rule skipped_length [OF la [unfolded ts] nsp])
    then have len: "length ?ktws < Suc (length s2)" by simp
    have c2: "cur s2 \<noteq> CHR ''}''"
      unfolding s2_def ts skip_items [OF tx(1) nsp] cur_append [OF tx(1)] tx(2) by simp
    from members_read [where cap = 0 and pretty = pretty and level = level and esc = esc and r = r, OF all _ len m1(2) dk] ne(2) obtain c3 m3 where
      m3: "parse_members (parse_value d) (Suc (length s2)) ([], 0) s2 m1 =
        Some (Some (map (map_prod id trimmed) kvs, c3), CHR ''}'' # r, m3)" "generous m3"
      unfolding fm s2_def by auto
    from object_resize_run [OF m3(2), of "length kvs" "map (map_prod id trimmed) kvs" c3] ne(2) obtain m4 where
      m4: "json_object_resize (map (map_prod id trimmed) kvs, c3) (length kvs) m3 =
        (JSONSuccess, (map (map_prod id trimmed) kvs, length kvs), m4)" "generous m4" by auto
    have "parse_object_value (parse_value d) ?s m = Some (Some (JObject (map (map_prod id trimmed) kvs) (length kvs)), r, m4)"
      unfolding s parse_object_value_def m1(1)
      using sk c2 m3(1) m4(1) skip_none [of "CHR ''}'' # r"] comma_space by (simp del: parse_members.simps)
    then show ?thesis unfolding run using m4(2) by simp
  qed
qed

section \<open>Every value\<close>

lemma depth_pos: "0 < depth v"
  by (cases v) (simp_all add: depth.simps)

lemma value_reads:
  "json_ok v \<Longrightarrow> depth v \<le> d \<Longrightarrow> reads_as d (json_text esc pretty v level) (trimmed v)"
proof (induction v arbitrary: d level)
  case (JObject kvs cap)
  from depth_pos [of "JObject kvs cap"] JObject.prems(2) obtain d' where d: "d = Suc d'" by (cases d) auto
  have ok: "distinct (map fst kvs)" "\<And>k v. (k, v) \<in> set kvs \<Longrightarrow> NUL \<notin> set k \<and> json_ok v \<and> depth v \<le> d'"
    using JObject.prems d by (auto simp: json_ok_object names_ok_def names_def depth_object)
  show ?case unfolding d
  proof (rule object_reads [OF _ ok(1)])
    fix k v assume kv: "(k, v) \<in> set kvs"
    show "reads_as d' (json_text esc pretty v (level + 1)) (trimmed v) \<and> NUL \<notin> set k"
      using JObject.IH [OF kv, of v] ok(2) [OF kv] by (simp add: snds.simps)
  qed
next
  case (JArray xs cap)
  from depth_pos [of "JArray xs cap"] JArray.prems(2) obtain d' where d: "d = Suc d'" by (cases d) auto
  show ?case unfolding d
  proof (rule array_reads)
    fix v assume v: "v \<in> set xs"
    show "reads_as d' (json_text esc pretty v (level + 1)) (trimmed v) \<and> json_ok v"
      using JArray.IH [OF v] JArray.prems v d by (auto simp: json_ok_array depth_array)
  qed
next
  case JNull
  then show ?case using scalars_read(1) by (cases d) simp_all
next
  case (JString s)
  then show ?case using scalars_read(4) by (cases d) simp_all
next
  case (JNumber x)
  then show ?case using scalars_read(3) by (cases d) simp_all
next
  case (JBoolean b)
  then show ?case using scalars_read(2) [of b] by (cases d) simp_all
qed

section \<open>The entry points\<close>

lemma text_parses:
  assumes "json_ok v" "depth v \<le> MAX_NESTING + 1" "generous m"
  shows "\<exists>m'. json_parse_string (Some (json_text esc pretty v 0)) m = Some (Some (trimmed v), m') \<and> generous m'"
proof -
  let ?t = "json_text esc pretty v 0"
  have c: "c_str ?t = ?t" by (rule c_str_id [OF text_no_zero [OF assms(1)]])
  have "char_at ?t 0 = cur ?t" by (cases ?t) (simp_all add: char_at_def cur_def)
  then have bom: "char_at ?t 0 \<noteq> CHR 0xEF" using value_start_facts(3) text_start [OF assms(1)] by metis
  have "number_ends []" by (simp add: number_ends_def cur_def)
  from reads_asD [OF value_reads [OF assms(1,2), of esc pretty 0], of "[]", OF _ this assms(3)]
  obtain m' where "parse_value (MAX_NESTING + 1) ?t m = Some (Some (trimmed v), [], m')" "generous m'" by auto
  then show ?thesis using bom c by (auto simp: json_parse_string_def Let_def simp del: parse_value.simps)
qed

lemma skel_trimmed: "skel (trimmed v) = skel v"
proof (induction v)
  case (JObject kvs cap)
  then have "map (map_prod id skel) (map (map_prod id trimmed) kvs) = map (map_prod id skel) kvs"
    by (auto simp: snds.simps)
  then show ?case by (simp add: o_def)
next
  case (JArray xs cap)
  then show ?case by simp
qed simp_all

lemma serialize_generous:
  assumes "json_ok v" "generous m"
  shows "\<exists>m'. json_serialize_to_string esc pretty (Some v) m = Inr (Some (json_text esc pretty v 0), m') \<and> generous m'"
  using assms
  by (simp add: json_serialize_to_string_def serialization_size_text serialize_to_buffer_text pvPortMalloc_def generous_def)

end
