(* ===== verification/JsonProperties.thy ===== *)
theory JsonProperties imports JsonPaths JsonTripValues begin

text \<open>The properties of the JSON library.\<close>

text \<open>C15. The parser returns on every text and with every behaviour of the allocator: neither the
  loops over members and items nor the recursion into nested values can run on for ever.\<close>

theorem parser_returns:
  "(\<exists>v m'. json_parse_string buf m = Some (v, m')) \<and>
   (\<exists>v m'. json_parse_string_with_comments b m = Some (v, m'))"
  using json_parse_string_accounted [of buf m] json_parse_with_comments_accounted [of b m]
  by auto

text \<open>C16. A value the parser yields is well formed (its names are distinct and without zeros, its
  numbers are finite, every container has room for what it holds), is nested at most 2049 deep
  and owns exactly the blocks that were allocated; when the parser yields null at most one block
  is lost.\<close>

theorem parsed_values_are_well_formed:
  assumes "json_parse_string buf m = Some (r, m')"
  shows "(case r of
     Some v \<Rightarrow> json_ok v \<and> depth v \<le> MAX_NESTING + 1 \<and> live m' = live m + blocks v
   | None \<Rightarrow> live m \<le> live m' \<and> live m' \<le> live m + 1)"
  using json_parse_string_accounted [of buf m] assms by (auto simp: accounted_def split: option.splits)

definition sample_text :: string where
  "sample_text = [CHR 0x7B, CHR 0x22, CHR ''a'', CHR 0x22, CHR '':'', CHR ''['', CHR ''2'', CHR '']'', CHR 0x7D]"

theorem parsed_values_are_well_formed_witness:
  "\<exists>v m'. json_parse_string (Some sample_text) mem_ample = Some (Some v, m') \<and> depth v \<le> 2049 \<and>
     live m' = blocks v"
proof -
  have "map_option (\<lambda>(v, m). v \<noteq> None) (json_parse_string (Some sample_text) mem_ample) = Some True"
    by code_simp
  then obtain v m' where "json_parse_string (Some sample_text) mem_ample = Some (Some v, m')" by auto
  with parsed_values_are_well_formed [OF this] show ?thesis
    by (simp add: mem_ample_def MAX_NESTING_def)
qed

text \<open>A name with a zero in it is refused, and its block is never freed.\<close>

theorem zero_in_a_name_leaks:
  "map_option (\<lambda>(v, m). (v, live m))
     (json_parse_string (Some ([CHR 0x7B, CHR 0x22, CHR 0x5C] @ ''u0000'' @ [CHR 0x22] @ '':1'' @ [CHR 0x7D])) mem_ample) =
   Some (None, 1)"
  by code_simp




text \<open>C18. Serializing a well formed value to a string yields its text, pretty or not, in a block
  of exactly the text's length and the final zero, or null when the allocator refuses the block;
  no write leaves its buffer, neither the 64 bytes numbers are measured in nor the block.\<close>

theorem serialized_text_is_exact:
  assumes "json_ok v"
  shows "\<exists>m'. json_serialize_to_string esc pretty (Some v) m =
    Inr (if grants m (calls m) (length (json_text esc pretty v 0) + 1)
         then Some (json_text esc pretty v 0) else None, m') \<and>
    live m' = live m + (if grants m (calls m) (length (json_text esc pretty v 0) + 1) then 1 else 0)"
  by (rule serialize_to_string_text [OF assms])

definition sample_value :: json where
  "sample_value = JObject [(''a'', JArray [JNumber (Fin False 4503599627370496 (- 51)), JBoolean 1] 16)] 16"

lemma sample_value_ok: "json_ok sample_value"
  by (simp add: sample_value_def json_ok_object json_ok_array names_ok_def names_def dbl_ok_def)

theorem serialized_text_is_exact_witness:
  "\<exists>m'. json_serialize_to_string True False (Some sample_value) mem_ample =
    Inr (Some ([CHR 0x7B, CHR 0x22, CHR ''a'', CHR 0x22] @ '':[2,true]'' @ [CHR 0x7D]), m') \<and> live m' = 1"
proof -
  have "json_text True False sample_value 0 =
    [CHR 0x7B, CHR 0x22, CHR ''a'', CHR 0x22] @ '':[2,true]'' @ [CHR 0x7D]" by code_simp
  with serialized_text_is_exact [OF sample_value_ok, of True False mem_ample] show ?thesis
    by (simp add: mem_ample_def)
qed

text \<open>C19. What the serializer writes is read back: as far as the allocator refuses nothing, a
  well-formed value that is not nested too deep has a text, pretty or not, and the parser makes of
  it a value with the same members in the same order, the same strings byte by byte and the same
  numbers bit by bit. Seventeen digits are enough for every finite double, and the escapes undo
  each other. Only the capacities are new; for \<open>json_value_equals\<close> the two are equal.\<close>

theorem json_text_is_read_back:
  assumes "json_ok v" "depth v \<le> MAX_NESTING + 1" "generous m"
  shows "\<exists>t m1 m2. json_serialize_to_string esc pretty (Some v) m = Inr (Some t, m1) \<and>
    json_parse_string (Some t) m1 = Some (Some (trimmed v), m2) \<and>
    skel (trimmed v) = skel v \<and> json_value_equals v (Some (trimmed v))"
proof -
  from serialize_generous [OF assms(1,3)] obtain m1 where
    m1: "json_serialize_to_string esc pretty (Some v) m = Inr (Some (json_text esc pretty v 0), m1)" "generous m1" by blast
  from text_parses [OF assms(1,2) m1(2)] obtain m2 where
    "json_parse_string (Some (json_text esc pretty v 0)) m1 = Some (Some (trimmed v), m2)" by blast
  with m1(1) skel_trimmed equals_skel [OF assms(1)] show ?thesis by auto
qed

definition trip_value :: json where
  "trip_value = JObject [(''t'', JNumber (Fin True 7205759403792794 (- 56))),
     (''s'', JArray [JString [NUL, CHR 0x22, CHR 0x1F], JBoolean 0, JNull] 16)] 16"

theorem json_text_is_read_back_witness:
  "\<exists>t m1 m2. json_serialize_to_string False True (Some trip_value) \<lparr>live = 0, calls = 0, grants = (\<lambda>_ _. True)\<rparr> = Inr (Some t, m1) \<and>
    json_parse_string (Some t) m1 = Some (Some (JObject [(''t'', JNumber (Fin True 7205759403792794 (- 56))),
     (''s'', JArray [JString [NUL, CHR 0x22, CHR 0x1F], JBoolean 0, JNull] 3)] 2), m2)"
proof -
  have ok: "json_ok trip_value" "depth trip_value \<le> MAX_NESTING + 1"
    by (simp_all add: trip_value_def json_ok_object json_ok_array names_ok_def names_def dbl_ok_def depth.simps MAX_NESTING_def)
  have t: "trimmed trip_value = JObject [(''t'', JNumber (Fin True 7205759403792794 (- 56))),
     (''s'', JArray [JString [NUL, CHR 0x22, CHR 0x1F], JBoolean 0, JNull] 3)] 2" by (simp add: trip_value_def)
  have "generous \<lparr>live = 0, calls = 0, grants = (\<lambda>_ _. True)\<rparr>" by (simp add: generous_def)
  from json_text_is_read_back [OF ok this, of False True] show ?thesis unfolding t by blast
qed

text \<open>C20. A deep copy has the contents of the original, is equal to it for
  \<open>json_value_equals\<close> and accounts for exactly the blocks it took; when the allocator refuses
  a request half way everything is given back, and when it refuses none the copy succeeds.\<close>

theorem deep_copy_is_equal:
  assumes "json_ok v" "json_value_deep_copy v m = (r, m')"
  shows "live m' = live m + opt_blocks r \<and> (generous m \<longrightarrow> r \<noteq> None) \<and>
    (\<forall>c. r = Some c \<longrightarrow> skel c = skel v \<and> json_ok c \<and> json_value_equals v (Some c))"
  using deep_copy_copied [OF assms(1), of m] equals_skel [OF assms(1)] assms(2)
  by (auto simp: copied_def)

theorem deep_copy_is_equal_witness:
  "\<exists>c m'. json_value_deep_copy sample_value \<lparr>live = 0, calls = 0, grants = (\<lambda>_ _. True)\<rparr> = (Some c, m') \<and>
    json_value_equals sample_value (Some c) \<and> live m' = blocks c"
proof -
  let ?m = "\<lparr>live = 0, calls = 0, grants = (\<lambda>_ _. True)\<rparr>"
  obtain r m' where c: "json_value_deep_copy sample_value ?m = (r, m')" by fastforce
  from deep_copy_is_equal [OF sample_value_ok c] c show ?thesis
    by (auto simp: generous_def opt_blocks_def)
qed

text \<open>C21. Validation accepts exactly the values that conform to the schema; the early test on
  the number of members never refuses a value that conforms.\<close>

theorem validate_is_conformance:
  assumes "json_ok s"
  shows "json_validate s (Some v) = JSONSuccess \<longleftrightarrow> conforms s v"
  by (rule validate_conforms [OF assms])

theorem validate_is_conformance_witness:
  "conforms sample_value (JObject [(''b'', JNull), (''a'', JArray [] 0)] 2)"
proof -
  have "json_validate sample_value (Some (JObject [(''b'', JNull), (''a'', JArray [] 0)] 2)) = JSONSuccess"
    by code_simp
  with validate_is_conformance [OF sample_value_ok] show ?thesis by blast
qed

text \<open>C22. A value that \<open>json_object_dotset_value\<close> puts at the end of a path of names is found
  there, the intermediate objects being made as needed; the blocks of the value pass to the
  object exactly when the call succeeds, and a call that fails half way gives back all it took.\<close>

theorem dotset_value_is_found:
  assumes "json_object_dotset_value ob name parented v m = (st, ob', m')"
  shows "live m' - obj_blocks ob' = live m - obj_blocks ob - (if st = JSONSuccess then blocks v else 0) \<and>
    (st = JSONSuccess \<longrightarrow> json_object_dotget_value (Some ob') name = Some v)"
  using dotset_effect [OF assms] by (simp add: handed_def opt_blocks_def)

theorem dotset_value_is_found_witness:
  "\<exists>ob' m'. json_object_dotset_value ([], 0) ''a.b'' False JNull mem_ample = (JSONSuccess, ob', m') \<and>
    json_object_dotget_value (Some ob') ''a.b'' = Some JNull"
proof -
  have "(case json_object_dotset_value ([], 0) ''a.b'' False JNull mem_ample of (st, ob', m') \<Rightarrow> st) = JSONSuccess"
    by code_simp
  then obtain ob' m' where "json_object_dotset_value ([], 0) ''a.b'' False JNull mem_ample = (JSONSuccess, ob', m')"
    by (auto split: prod.splits)
  with dotset_value_is_found [OF this] show ?thesis by simp
qed

lemmas set_new_balances =
  set_new_balance [OF sym made_ok_init(1)]
  set_new_balance [OF sym made_ok_init(2)]
  set_new_balance [OF sym made_ok_init(3)]
  set_new_balance [OF sym made_ok_init(4)]
  set_new_balance [OF sym made_ok_init(5)]
lemmas dotset_new_balances =
  dotset_new_balance [OF _ made_ok_init(1)]
  dotset_new_balance [OF _ made_ok_init(2)]
  dotset_new_balance [OF _ made_ok_init(3)]
  dotset_new_balance [OF _ made_ok_init(4)]
  dotset_new_balance [OF _ made_ok_init(5)]

text \<open>The calls that make a value and set it in an object, by name or by path, leak nothing
  and free nothing twice: what is allocated beyond the object is the same before and after,
  whether they succeed or fail.\<close>

theorem set_calls_keep_the_balance:
  assumes "(st, Some ob', m') \<in>
    {json_object_set_string (Some ob) name s m, json_object_set_string_with_len (Some ob) name s n m,
     json_object_set_number (Some ob) name x m, json_object_set_boolean (Some ob) name b m,
     json_object_set_null (Some ob) name m} \<union>
    (\<lambda>(st, ob, m). (st, Some ob, m)) `
    {json_object_dotset_string ob path s m, json_object_dotset_string_with_len ob path s n m,
     json_object_dotset_number ob path x m, json_object_dotset_boolean ob path b m,
     json_object_dotset_null ob path m}"
  shows "live m' - obj_blocks ob' = live m - obj_blocks ob"
  using assms
  by (auto simp: json_object_set_string_def json_object_set_string_with_len_def json_object_set_number_def
      json_object_set_boolean_def json_object_set_null_def json_object_dotset_string_def
      json_object_dotset_string_with_len_def json_object_dotset_number_def json_object_dotset_boolean_def
      json_object_dotset_null_def dest: set_new_balances dotset_new_balances split: prod.splits)

theorem set_calls_keep_the_balance_witness:
  "\<exists>ob' m'. json_object_set_null (Some ([], 0)) (Some ''k'') mem_ample = (JSONSuccess, Some ob', m') \<and>
    live m' - obj_blocks ob' = - obj_blocks ([], 0)"
proof -
  have "(case json_object_set_null (Some ([], 0)) (Some ''k'') mem_ample of (st, ob', m') \<Rightarrow>
      st = JSONSuccess \<and> ob' \<noteq> None)"
    by code_simp
  then obtain ob' m' where r: "json_object_set_null (Some ([], 0)) (Some ''k'') mem_ample = (JSONSuccess, Some ob', m')"
    by (auto split: prod.splits)
  with set_calls_keep_the_balance [of JSONSuccess ob' m' "([], 0)" "Some ''k''" _ mem_ample] show ?thesis
    by (simp add: mem_ample_def)
qed

text \<open>C23. An object is a map from names to values: setting a name changes what is found under
  it and under no other name, removing a name takes it away and no other, although the last
  entry moves into the gap, and the names stay distinct.\<close>

theorem object_is_a_map:
  assumes "names_ok ob"
    and "json_object_set_value (Some ob) (Some k) False (Some v) m = (JSONSuccess, Some ob1, m1)"
    and "json_object_remove (Some ob1) l m1 = (JSONSuccess, Some ob2, m2)"
  shows "json_object_get_value (Some ob1) (Some j) =
      (if j = k then Some v else json_object_get_value (Some ob) (Some j)) \<and>
    json_object_get_value (Some ob2) (Some j) =
      (if j = l then None else json_object_get_value (Some ob1) (Some j)) \<and> names_ok ob2"
proof -
  have s: "sets_name ob k v ob1" and r: "removes_name ob1 l ob2"
    using assms(2,3) by (auto simp: sets_name_def removes_name_def)
  note ok1 = json_objects.set_ok [OF assms(1) s]
  show ?thesis
    using fun_cong [OF json_objects.get_set [OF assms(1) s], of j]
      fun_cong [OF json_objects.get_remove [OF ok1 r], of j] json_objects.remove_ok [OF ok1 r] by simp
qed

theorem object_is_a_map_witness:
  "\<exists>ob2. json_object_get_value (Some ob2) (Some ''c'') = Some (JBoolean 1) \<and>
    json_object_get_value (Some ob2) (Some ''a'') = None"
proof -
  let ?ob = "([(''a'', JNull), (''b'', JNull), (''c'', JNull)], 16)"
  obtain st ob1 m1 where s:
    "json_object_set_value (Some ?ob) (Some ''c'') False (Some (JBoolean 1)) mem_ample = (st, ob1, m1)"
    by (cases "json_object_set_value (Some ?ob) (Some ''c'') False (Some (JBoolean 1)) mem_ample")
  then have ob1: "st = JSONSuccess" "ob1 = Some ([(''a'', JNull), (''b'', JNull), (''c'', JBoolean 1)], 16)"
    by (auto simp: json_object_set_value_def Let_def)
  obtain st2 ob2 m2 where r:
    "json_object_remove (Some ([(''a'', JNull), (''b'', JNull), (''c'', JBoolean 1)], 16)) ''a'' m1 = (st2, ob2, m2)"
    by (cases "json_object_remove (Some ([(''a'', JNull), (''b'', JNull), (''c'', JBoolean 1)], 16)) ''a'' m1")
  then obtain ob3 where ob2: "st2 = JSONSuccess" "ob2 = Some ob3"
    by (auto simp: json_object_remove_def json_object_remove_internal_def Let_def)
  have "names_ok ?ob" by (simp add: names_ok_def names_def)
  note laws = object_is_a_map [OF this s [unfolded ob1] r [unfolded ob2]]
  show ?thesis using laws [of "''c''"] laws [of "''a''"] by (intro exI [of _ ob3]) simp
qed

end
