(* ===== verification/OneWire.thy ===== *)
theory OneWire imports Prelude begin

text \<open>
  The 1-Wire bus master (nfc/src/one-wire.c). What the code does to the line, with the waits
  and the critical sections around it, is recorded in \<open>line\<close>; the devices on the bus are an
  input: \<open>ops\<close> says how they answer a reset, a read slot and a write slot, on their own state.
  The ring buffer that keeps received bytes belongs to the vendor's library: an insertion into a
  full buffer is refused.
\<close>

unbundle bit_operations_syntax

section \<open>State\<close>

datatype line_event =
    EnterCritical
  | ExitCritical
  | DQ_Low
  | DQ_Floating
  | DQ_SetLow
  | DQ_SetHigh
  | DQ_Read
  | WaitUs int
  | DelayMs int

record 'b bus_ops =
  bus_reset :: "'b \<Rightarrow> bool \<times> 'b"
  bus_read :: "'b \<Rightarrow> bool \<times> 'b"
  bus_write :: "bool \<Rightarrow> 'b \<Rightarrow> 'b"

record 'b wire =
  ROM_NO :: "8 word list"
  LastDiscrepancy :: int
  LastFamilyDiscrepancy :: int
  LastDeviceFlag :: bool
  input_ring_buff :: "8 word list"
  line :: "line_event list"
  bus :: 'b

definition INPUT_RING_BUFFER_SIZE :: nat where "INPUT_RING_BUFFER_SIZE = 16"
definition ONE_WIRE_ROM_CODE_SIZE :: nat where "ONE_WIRE_ROM_CODE_SIZE = 8"

definition RC_READ_ROM :: "8 word" where "RC_READ_ROM = 0x33"
definition RC_SEARCH_COND :: "8 word" where "RC_SEARCH_COND = 0xEC"
definition RC_SEARCH :: "8 word" where "RC_SEARCH = 0xF0"
definition RC_RELEASE :: "8 word" where "RC_RELEASE = 0xFF"

definition ow_ok :: int where "ow_ok = 0"
definition ow_busoff :: int where "ow_busoff = 12"
definition ow_crc :: int where "ow_crc = 20"

definition drive :: "line_event list \<Rightarrow> 'b wire \<Rightarrow> 'b wire" where
  "drive es w = w\<lparr>line := line w @ es\<rparr>"

section \<open>Bits and bytes\<close>

definition DQ1_Init :: "'b wire \<Rightarrow> 'b wire" where
  "DQ1_Init w = drive [DQ_Floating, DQ_SetLow] w"

definition DQ1_StrongPullUp :: "'b wire \<Rightarrow> 'b wire" where
  "DQ1_StrongPullUp w = drive [DQ_Low, DQ_SetHigh] w"

definition read_bit :: "'b bus_ops \<Rightarrow> 'b wire \<Rightarrow> bool \<times> 'b wire" where
  "read_bit ops w =
     (let w = drive [EnterCritical, DQ_Low, WaitUs 6, DQ_Floating, WaitUs 3, DQ_Read, ExitCritical, WaitUs 55] w
      in case bus_read ops (bus w) of (lvl, b) \<Rightarrow> (lvl, w\<lparr>bus := b\<rparr>))"

definition write_bit :: "'b bus_ops \<Rightarrow> bool \<Rightarrow> 'b wire \<Rightarrow> 'b wire" where
  "write_bit ops b w =
     (let w = drive (if b then [EnterCritical, DQ_Low, WaitUs 6, DQ_Floating, WaitUs 64, ExitCritical]
                     else [EnterCritical, DQ_Low, WaitUs 60, DQ_Floating, WaitUs 10, ExitCritical]) w
      in w\<lparr>bus := bus_write ops b (bus w)\<rparr>)"

text \<open>The line is low when a device answers the reset.\<close>

definition one_wire_send_reset :: "'b bus_ops \<Rightarrow> 'b wire \<Rightarrow> int \<times> 'b wire" where
  "one_wire_send_reset ops w =
     (let w = drive [EnterCritical, DQ_Low, WaitUs 480, DQ_Floating, WaitUs 70, DQ_Read, ExitCritical, WaitUs 410] w
      in case bus_reset ops (bus w) of
           (lvl, b) \<Rightarrow> (if \<not> lvl then ow_ok else ow_busoff, w\<lparr>bus := b\<rparr>))"

fun send_bits :: "'b bus_ops \<Rightarrow> nat \<Rightarrow> 8 word \<Rightarrow> 'b wire \<Rightarrow> 'b wire" where
  "send_bits ops 0 data w = w"
| "send_bits ops (Suc n) data w = send_bits ops n (drop_bit 1 data) (write_bit ops (bit data 0) w)"

definition one_wire_send_byte :: "'b bus_ops \<Rightarrow> 8 word \<Rightarrow> 'b wire \<Rightarrow> int \<times> 'b wire" where
  "one_wire_send_byte ops data w = (ow_ok, send_bits ops 8 data w)"

fun one_wire_send_bytes :: "'b bus_ops \<Rightarrow> 8 word list \<Rightarrow> 'b wire \<Rightarrow> int \<times> 'b wire" where
  "one_wire_send_bytes ops [] w = (ow_ok, w)"
| "one_wire_send_bytes ops (d # ds) w =
     (case one_wire_send_byte ops d w of
        (res, w) \<Rightarrow> if res \<noteq> ow_ok then (res, w) else one_wire_send_bytes ops ds w)"

fun receive_bits :: "'b bus_ops \<Rightarrow> nat \<Rightarrow> 8 word \<Rightarrow> 8 word \<Rightarrow> 'b wire \<Rightarrow> 8 word \<times> 'b wire" where
  "receive_bits ops 0 msk val w = (val, w)"
| "receive_bits ops (Suc n) msk val w =
     (case read_bit ops w of
        (lvl, w) \<Rightarrow> receive_bits ops n (push_bit 1 msk) (if lvl then val OR msk else val) w)"

fun one_wire_receive :: "'b bus_ops \<Rightarrow> nat \<Rightarrow> 'b wire \<Rightarrow> int \<times> 'b wire" where
  "one_wire_receive ops 0 w = (ow_ok, w)"
| "one_wire_receive ops (Suc counter) w =
     (case receive_bits ops 8 1 0 w of
        (val, w) \<Rightarrow>
          one_wire_receive ops counter
            (w\<lparr>input_ring_buff := push_bounded INPUT_RING_BUFFER_SIZE val (input_ring_buff w)\<rparr>))"

definition one_wire_count :: "'b wire \<Rightarrow> nat" where
  "one_wire_count w = length (input_ring_buff w)"

text \<open>
  The error code \<open>ERR_FAILED\<close> is defined outside the repository: it is the argument \<open>failed\<close>.
\<close>

definition one_wire_get_byte :: "int \<Rightarrow> 8 word \<Rightarrow> 'b wire \<Rightarrow> int \<times> 8 word \<times> 'b wire" where
  "one_wire_get_byte failed data w =
     (case input_ring_buff w of
        [] \<Rightarrow> (failed, data, w)
      | d # q \<Rightarrow> (ow_ok, d, w\<lparr>input_ring_buff := q\<rparr>))"

text \<open>The bytes go to the front of the caller's buffer.\<close>

definition one_wire_get_bytes :: "int \<Rightarrow> 8 word list \<Rightarrow> nat \<Rightarrow> 'b wire \<Rightarrow> int \<times> 8 word list \<times> 'b wire" where
  "one_wire_get_bytes failed data count w =
     (if count > length (input_ring_buff w) then (failed, data, w)
      else (ow_ok, take count (input_ring_buff w) @ drop count data,
            w\<lparr>input_ring_buff := drop count (input_ring_buff w)\<rparr>))"

section \<open>The check sum\<close>

fun crc_bits :: "nat \<Rightarrow> 8 word \<Rightarrow> 8 word \<Rightarrow> 8 word" where
  "crc_bits 0 y crc = crc"
| "crc_bits (Suc n) y crc =
     crc_bits n (drop_bit 1 y)
       (if (crc AND 1) XOR (y AND 1) \<noteq> 0 then drop_bit 1 crc XOR 0x8c else drop_bit 1 crc)"

fun crc_bytes :: "8 word list \<Rightarrow> 8 word \<Rightarrow> 8 word" where
  "crc_bytes [] crc = crc"
| "crc_bytes (y # ys) crc = crc_bytes ys (crc_bits 8 y crc)"

definition one_wire_calc_CRC :: "8 word list \<Rightarrow> nat \<Rightarrow> 8 word" where
  "one_wire_calc_CRC data dataSize = crc_bytes (take dataSize data) 0"

section \<open>Initialisation and the ROM code of a single device\<close>

definition one_wire_init :: "'b wire \<Rightarrow> 'b wire" where
  "one_wire_init w =
     (let w = (DQ1_Init w)\<lparr>input_ring_buff := []\<rparr>
      in drive [DQ_Floating, DQ_SetLow] w)"

definition one_wire_read_rom_code :: "int \<Rightarrow> 'b bus_ops \<Rightarrow> 8 word list \<Rightarrow> 'b wire \<Rightarrow> int \<times> 8 word list \<times> 'b wire" where
  "one_wire_read_rom_code failed ops romCodeBuffer w =
     (let w = snd (one_wire_send_reset ops w);
          w = snd (one_wire_send_byte ops RC_READ_ROM w);
          w = snd (one_wire_receive ops ONE_WIRE_ROM_CODE_SIZE w);
          w = snd (one_wire_send_byte ops RC_RELEASE w)
      in case one_wire_get_bytes failed romCodeBuffer ONE_WIRE_ROM_CODE_SIZE w of
           (res, rom, w) \<Rightarrow>
             if res \<noteq> ow_ok then (res, rom, w)
             else if one_wire_calc_CRC rom (ONE_WIRE_ROM_CODE_SIZE - 1) \<noteq> rom ! (ONE_WIRE_ROM_CODE_SIZE - 1)
             then (ow_crc, rom, w)
             else (ow_ok, rom, w))"

section \<open>ROM codes as text\<close>

text \<open>A buffer of \<open>dstSize\<close> bytes that holds a C string; \<open>dstSize\<close> is not zero.\<close>

definition chcat :: "string \<Rightarrow> nat \<Rightarrow> char \<Rightarrow> string" where
  "chcat dst dstSize ch =
     (let k = min (length dst) (dstSize - 1)
      in if k < dstSize - 1 then take k dst @ [ch] else take k dst)"

definition hex_upper :: "8 word \<Rightarrow> char" where
  "hex_upper h = (if h \<le> 9 then char_of (unat h + 48) else char_of (unat h + 55))"

text \<open>The size is passed to \<open>strncat\<close>, which takes it as the most it may append.\<close>

definition strcat_num_8_hex :: "string \<Rightarrow> nat \<Rightarrow> 8 word \<Rightarrow> string" where
  "strcat_num_8_hex dst dstSize num =
     dst @ take dstSize [hex_upper (drop_bit 4 num AND 0x0F), hex_upper (num AND 0x0F)]"

fun strcat_rom :: "nat \<Rightarrow> nat \<Rightarrow> 8 word list \<Rightarrow> string \<Rightarrow> string" where
  "strcat_rom bufSize j [] buf = buf"
| "strcat_rom bufSize j (r # rs) buf =
     (let buf = strcat_num_8_hex buf bufSize r
      in strcat_rom bufSize (Suc j) rs (if j < ONE_WIRE_ROM_CODE_SIZE - 1 then chcat buf bufSize (CHR ''-'') else buf))"

definition one_wire_strcat_rom_code :: "string \<Rightarrow> nat \<Rightarrow> 8 word list \<Rightarrow> int \<times> string" where
  "one_wire_strcat_rom_code buf bufSize romCode =
     (ow_ok, strcat_rom bufSize 0 (take ONE_WIRE_ROM_CODE_SIZE romCode) buf)"

section \<open>The search\<close>

definition one_wire_reset_search :: "'b wire \<Rightarrow> 'b wire" where
  "one_wire_reset_search w =
     w\<lparr>LastDiscrepancy := 0, LastDeviceFlag := False, LastFamilyDiscrepancy := 0, ROM_NO := replicate 8 0\<rparr>"

definition one_wire_target_search :: "8 word \<Rightarrow> 'b wire \<Rightarrow> 'b wire" where
  "one_wire_target_search familyCode w =
     w\<lparr>ROM_NO := familyCode # replicate 7 0, LastDiscrepancy := 64, LastFamilyDiscrepancy := 0,
       LastDeviceFlag := False\<rparr>"

text \<open>The local variables of the loop of \<open>one_wire_search\<close>.\<close>

record search =
  id_bit_number :: int
  last_zero :: int
  rom_byte_number :: nat
  rom_byte_mask :: "8 word"

definition search_direction :: "bool \<Rightarrow> bool \<Rightarrow> search \<Rightarrow> 'b wire \<Rightarrow> bool" where
  "search_direction id_bit cmp_id_bit l w =
     (if id_bit \<noteq> cmp_id_bit then id_bit
      else if id_bit_number l < LastDiscrepancy w
      then ROM_NO w ! rom_byte_number l AND rom_byte_mask l > 0
      else id_bit_number l = LastDiscrepancy w)"

text \<open>One turn of the loop after the two reads, when a device answered.\<close>

definition search_turn :: "'b bus_ops \<Rightarrow> bool \<Rightarrow> bool \<Rightarrow> search \<Rightarrow> 'b wire \<Rightarrow> search \<times> 'b wire" where
  "search_turn ops id_bit cmp_id_bit l w =
     (let d = search_direction id_bit cmp_id_bit l w;
          zero = (id_bit = cmp_id_bit \<and> \<not> d);
          l = (if zero then l\<lparr>last_zero := id_bit_number l\<rparr> else l);
          w = (if zero \<and> last_zero l < 9 then w\<lparr>LastFamilyDiscrepancy := last_zero l\<rparr> else w);
          old = ROM_NO w ! rom_byte_number l;
          w = w\<lparr>ROM_NO := (ROM_NO w)[rom_byte_number l :=
                 (if d then old OR rom_byte_mask l else old AND NOT (rom_byte_mask l))]\<rparr>;
          w = write_bit ops d w;
          l = l\<lparr>id_bit_number := id_bit_number l + 1, rom_byte_mask := push_bit 1 (rom_byte_mask l)\<rparr>;
          l = (if rom_byte_mask l = 0
               then l\<lparr>rom_byte_number := Suc (rom_byte_number l), rom_byte_mask := 1\<rparr> else l)
      in (l, w))"

text \<open>The loop ends after 64 turns, which is the fuel it gets.\<close>

fun search_loop :: "'b bus_ops \<Rightarrow> nat \<Rightarrow> search \<Rightarrow> 'b wire \<Rightarrow> search \<times> 'b wire" where
  "search_loop ops 0 l w = (l, w)"
| "search_loop ops (Suc fuel) l w =
     (case read_bit ops w of (id_bit, w) \<Rightarrow>
      case read_bit ops w of (cmp_id_bit, w) \<Rightarrow>
        if id_bit \<and> cmp_id_bit then (l, w)
        else (case search_turn ops id_bit cmp_id_bit l w of
                (l, w) \<Rightarrow> if rom_byte_number l < 8 then search_loop ops fuel l w else (l, w)))"

definition search_start :: search where
  "search_start = \<lparr>id_bit_number = 1, last_zero = 0, rom_byte_number = 0, rom_byte_mask = 1\<rparr>"

definition search_forget :: "'b wire \<Rightarrow> 'b wire" where
  "search_forget w = w\<lparr>LastDiscrepancy := 0, LastDeviceFlag := False, LastFamilyDiscrepancy := 0\<rparr>"

definition search_finish :: "bool \<Rightarrow> 8 word list \<Rightarrow> 'b wire \<Rightarrow> bool \<times> 8 word list \<times> 'b wire" where
  "search_finish search_result newAddr w =
     (if \<not> search_result \<or> ROM_NO w ! 0 = 0 then (False, newAddr, search_forget w)
      else (True, ROM_NO w, w))"

definition one_wire_search ::
    "'b bus_ops \<Rightarrow> bool \<Rightarrow> 8 word list \<Rightarrow> 'b wire \<Rightarrow> bool \<times> 8 word list \<times> 'b wire" where
  "one_wire_search ops search_mode newAddr w =
     (if LastDeviceFlag w then search_finish False newAddr w
      else (case one_wire_send_reset ops w of (res, w) \<Rightarrow>
        if res \<noteq> ow_ok then (False, newAddr, search_forget w)
        else
          (let w = snd (one_wire_send_byte ops (if search_mode then RC_SEARCH else RC_SEARCH_COND) w)
           in case search_loop ops 64 search_start w of (l, w) \<Rightarrow>
                if id_bit_number l < 65 then search_finish False newAddr w
                else search_finish True newAddr
                  (w\<lparr>LastDiscrepancy := last_zero l,
                     LastDeviceFlag := (last_zero l = 0) \<or> LastDeviceFlag w\<rparr>))))"

definition one_wire_strong_pull_up :: "int \<Rightarrow> 'b wire \<Rightarrow> 'b wire" where
  "one_wire_strong_pull_up ms w =
     DQ1_Init (drive [DelayMs ms] (DQ1_StrongPullUp w))"

end
