(* ===== verification/OneWireSearch.thy ===== *)
theory OneWireSearch imports OneWire begin

text \<open>
  The search for the devices of a bus: the devices as the 1-Wire standard describes them, the
  search seen on lists of 64 bits, and the proof that successive searches find every device,
  each once, in the order of their codes.
\<close>

section \<open>The devices\<close>

text \<open>
  A code is a list of 64 bits, the least significant bit of the family byte first. After a
  reset the devices take a command of eight bits; in the search every device that is still
  selected sends its bit and the complement of it on a line that a zero pulls low, and is
  deselected when the master writes the other bit.
\<close>

datatype mode = Idle | Cmd "bool list" | Sel "bool list list" nat nat

record rom_bus =
  devices :: "bool list list"
  alarmed :: "bool list list"
  mode :: mode

definition command_bits :: "8 word \<Rightarrow> bool list" where
  "command_bits c = map (bit c) [0..<8]"

lemma length_command_bits [simp]: "length (command_bits c) = 8"
  by (simp add: command_bits_def)

definition rom_reset :: "rom_bus \<Rightarrow> bool \<times> rom_bus" where
  "rom_reset b = (devices b = [], b\<lparr>mode := Cmd []\<rparr>)"

definition rom_read :: "rom_bus \<Rightarrow> bool \<times> rom_bus" where
  "rom_read b =
     (case mode b of
        Sel ds i ph \<Rightarrow>
          (if ph = 0 then list_all (\<lambda>d. d ! i) ds
           else if ph = 1 then list_all (\<lambda>d. \<not> d ! i) ds else True,
           b\<lparr>mode := Sel ds i (Suc ph)\<rparr>)
      | _ \<Rightarrow> (True, b))"

definition rom_write :: "bool \<Rightarrow> rom_bus \<Rightarrow> rom_bus" where
  "rom_write v b =
     (case mode b of
        Idle \<Rightarrow> b
      | Cmd bs \<Rightarrow>
          (let bs = bs @ [v]
           in b\<lparr>mode :=
                 (if length bs < 8 then Cmd bs
                  else if bs = command_bits RC_SEARCH then Sel (devices b) 0 0
                  else if bs = command_bits RC_SEARCH_COND then Sel (alarmed b) 0 0
                  else Idle)\<rparr>)
      | Sel ds i ph \<Rightarrow>
          b\<lparr>mode := (if ph = 2 then Sel (filter (\<lambda>d. d ! i = v) ds) (Suc i) 0 else Idle)\<rparr>)"

definition rom_ops :: "rom_bus bus_ops" where
  "rom_ops = \<lparr>bus_reset = rom_reset, bus_read = rom_read, bus_write = rom_write\<rparr>"

section \<open>Bits of the ROM code\<close>

definition code_bits :: "8 word list \<Rightarrow> bool list" where
  "code_bits ws = map (\<lambda>i. bit (ws ! (i div 8)) (i mod 8)) [0..<64]"

lemma length_code_bits [simp]: "length (code_bits ws) = 64"
  by (simp add: code_bits_def)

lemma nth_code_bits: "i < 64 \<Longrightarrow> code_bits ws ! i = bit (ws ! (i div 8)) (i mod 8)"
  by (simp add: code_bits_def)

lemma code_bits_inject:
  assumes "code_bits ws = code_bits vs" "length ws = 8" "length vs = 8"
  shows "ws = vs"
proof (rule nth_equalityI)
  fix k assume k: "k < length ws"
  show "ws ! k = vs ! k"
  proof (rule bit_word_eqI)
    fix n assume n: "n < LENGTH(8)"
    have "code_bits ws ! (8 * k + n) = code_bits vs ! (8 * k + n)" using assms(1) by simp
    then show "bit (ws ! k) n = bit (vs ! k) n" using k n assms(2) by (simp add: nth_code_bits)
  qed
qed (simp add: assms)

lemma mask_bit: "j < 8 \<Longrightarrow> bit (2 ^ j :: 8 word) n \<longleftrightarrow> n = j"
  by (auto simp: bit_simps)

lemma and_mask_pos:
  fixes a :: "8 word"
  assumes "j < 8"
  shows "a AND push_bit j 1 > 0 \<longleftrightarrow> bit a j"
proof -
  have "a AND push_bit j 1 = 0 \<longleftrightarrow> \<not> bit a j"
    using assms by (auto simp: bit_eq_iff [where 'a = "8 word"] bit_and_iff mask_bit [OF assms])
  then show ?thesis by (simp add: word_gt_0)
qed

lemma code_bits_update:
  assumes "k < 8" "j < 8" "length ws = 8"
  shows "code_bits (ws[k := (if d then ws ! k OR push_bit j 1 else ws ! k AND NOT (push_bit j 1))]) =
    (code_bits ws)[8 * k + j := d]"
proof (rule nth_equalityI)
  fix i assume "i < length (code_bits (ws[k := (if d then ws ! k OR push_bit j 1 else ws ! k AND NOT (push_bit j 1))]))"
  then have i: "i < 64" by simp
  have "8 * (i div 8) + j = i \<longleftrightarrow> i mod 8 = j" "i mod 8 < 8"
    using mult_div_mod_eq [of 8 i] by (linarith, simp)
  then show "code_bits (ws[k := (if d then ws ! k OR push_bit j 1 else ws ! k AND NOT (push_bit j 1))]) ! i =
      (code_bits ws)[8 * k + j := d] ! i"
    using i assms
    by (auto simp: nth_code_bits nth_list_update bit_or_iff bit_and_iff bit_not_iff mask_bit [OF assms(2)])
qed simp

section \<open>The search on lists of bits\<close>

definition cands :: "bool list list \<Rightarrow> bool list \<Rightarrow> bool list list" where
  "cands D p = filter (\<lambda>d. take (length p) d = p) D"

definition both :: "bool list list \<Rightarrow> bool list \<Rightarrow> bool" where
  "both D p \<longleftrightarrow> (\<exists>d \<in> set (cands D p). d ! length p) \<and> (\<exists>d \<in> set (cands D p). \<not> d ! length p)"

text \<open>The direction after the prefix \<open>p\<close>; \<open>L\<close> is the last discrepancy, \<open>r\<close> the last code.\<close>

definition direction_at :: "bool list list \<Rightarrow> nat \<Rightarrow> bool list \<Rightarrow> bool list \<Rightarrow> bool" where
  "direction_at D L r p =
     (if both D p then (if Suc (length p) < L then r ! length p else Suc (length p) = L)
      else (\<exists>d \<in> set (cands D p). d ! length p))"

fun walk :: "bool list list \<Rightarrow> nat \<Rightarrow> bool list \<Rightarrow> nat \<Rightarrow> bool list \<Rightarrow> nat \<Rightarrow> bool list \<times> nat" where
  "walk D L r 0 p z = (p, z)"
| "walk D L r (Suc n) p z =
     (let d = direction_at D L r p
      in walk D L r n (p @ [d]) (if both D p \<and> \<not> d then Suc (length p) else z))"

text \<open>The last position where the search took a zero although a device has a one there.\<close>

definition zero_at :: "bool list list \<Rightarrow> bool list \<Rightarrow> nat \<Rightarrow> bool" where
  "zero_at D q i \<longleftrightarrow> both D (take i q) \<and> \<not> q ! i"

lemma walk_spec:
  assumes "walk D L r n p z = (q, z')"
  shows "length q = length p + n \<and> take (length p) q = p \<and>
    (\<forall>i. length p \<le> i \<and> i < length q \<longrightarrow> q ! i = direction_at D L r (take i q)) \<and>
    (\<forall>i. length p \<le> i \<and> i < length q \<and> zero_at D q i \<longrightarrow> Suc i \<le> z') \<and>
    (z' = z \<and> (\<forall>i. length p \<le> i \<and> i < length q \<longrightarrow> \<not> zero_at D q i) \<or>
     (\<exists>i. length p \<le> i \<and> i < length q \<and> zero_at D q i \<and> z' = Suc i))"
  using assms
proof (induction n arbitrary: p z)
  case 0
  then show ?case by auto
next
  case (Suc n)
  define d where "d = direction_at D L r p"
  define z1 where "z1 = (if both D p \<and> \<not> d then Suc (length p) else z)"
  from Suc.prems have "walk D L r n (p @ [d]) z1 = (q, z')" by (simp add: Let_def d_def z1_def)
  note IH = Suc.IH [OF this]
  then have pre: "take (Suc (length p)) q = p @ [d]" and len: "length q = length p + Suc n" by simp_all
  have "take (length p) q = take (length p) (take (Suc (length p)) q)" by simp
  moreover have "q ! length p = take (Suc (length p)) q ! length p" by simp
  ultimately have p: "take (length p) q = p" "q ! length p = d" unfolding pre by simp_all
  have zero: "zero_at D q (length p) \<longleftrightarrow> both D p \<and> \<not> d" using p by (simp add: zero_at_def)
  have split: "length p \<le> i \<longleftrightarrow> i = length p \<or> length (p @ [d]) \<le> i" for i by auto
  from IH p len zero show ?case
    unfolding split by (auto simp: d_def [symmetric] z1_def split: if_splits)
qed


section \<open>The loop follows the walk\<close>

definition at_turn :: "bool list list \<Rightarrow> nat \<Rightarrow> bool list \<Rightarrow> bool list \<Rightarrow> nat \<Rightarrow> search \<Rightarrow> rom_bus wire \<Rightarrow> bool" where
  "at_turn D L r p z l w \<longleftrightarrow>
     id_bit_number l = int (Suc (length p)) \<and> last_zero l = int z \<and>
     rom_byte_number l = length p div 8 \<and> rom_byte_mask l = push_bit (length p mod 8) 1 \<and>
     length (ROM_NO w) = 8 \<and> code_bits (ROM_NO w) = p @ drop (length p) r \<and>
     LastDiscrepancy w = int L \<and> mode (bus w) = Sel (cands D p) (length p) 0 \<and>
     devices (bus w) = D \<and> \<not> LastDeviceFlag w"

lemma cands_step: "filter (\<lambda>d. d ! length p = b) (cands D p) = cands D (p @ [b])"
  if "\<forall>d \<in> set D. length d = 64" "length p < 64"
proof -
  have "d ! length p = b \<and> take (length p) d = p \<longleftrightarrow> take (length (p @ [b])) d = p @ [b]" if "length d = 64" for d
    using that \<open>length p < 64\<close> by (auto simp: take_Suc_conv_app_nth)
  with that(1) show ?thesis
    by (auto simp: cands_def intro!: filter_cong)
qed

lemma reads_both:
  assumes "cands D p \<noteq> []"
  shows "\<not> (list_all (\<lambda>d. d ! length p) (cands D p) \<and> list_all (\<lambda>d. \<not> d ! length p) (cands D p))"
    and "both D p \<longleftrightarrow> list_all (\<lambda>d. d ! length p) (cands D p) = list_all (\<lambda>d. \<not> d ! length p) (cands D p)"
    and "\<not> both D p \<Longrightarrow> (\<exists>d \<in> set (cands D p). d ! length p) \<longleftrightarrow> list_all (\<lambda>d. d ! length p) (cands D p)"
  using assms by (auto simp: both_def list_all_iff neq_Nil_conv)

lemma next_mask:
  assumes "i < 64"
  shows "(push_bit 1 (push_bit (i mod 8) (1 :: 8 word)) = 0 \<longleftrightarrow> Suc i mod 8 = 0)"
    and "Suc i mod 8 \<noteq> 0 \<Longrightarrow> Suc i div 8 = i div 8 \<and>
      push_bit 1 (push_bit (i mod 8) (1 :: 8 word)) = push_bit (Suc i mod 8) 1"
    and "Suc i mod 8 = 0 \<Longrightarrow> Suc i div 8 = Suc (i div 8)"
proof -
  have "i mod 8 < 8" by simp
  then consider "i mod 8 = 7" "Suc i mod 8 = 0" | "i mod 8 < 7" "Suc i mod 8 = Suc (i mod 8)"
    using mod_Suc [of i 8] by force
  then show "(push_bit 1 (push_bit (i mod 8) (1 :: 8 word)) = 0 \<longleftrightarrow> Suc i mod 8 = 0)"
  proof cases
    case 1
    have "push_bit 8 (1 :: 8 word) = 0" by simp
    with 1 show ?thesis by (simp add: push_bit_push_bit)
  next
    case 2
    have "bit (push_bit (Suc (i mod 8)) (1 :: 8 word)) (Suc (i mod 8))"
      using 2(1) by (simp add: bit_simps)
    then have "push_bit (Suc (i mod 8)) (1 :: 8 word) \<noteq> 0" by auto
    with 2 show ?thesis by (simp add: push_bit_push_bit mult.commute)
  qed
  show "Suc i mod 8 \<noteq> 0 \<Longrightarrow> Suc i div 8 = i div 8 \<and>
      push_bit 1 (push_bit (i mod 8) (1 :: 8 word)) = push_bit (Suc i mod 8) 1"
    using mod_Suc [of i 8] by (auto simp: push_bit_push_bit div_Suc split: if_splits)
  show "Suc i mod 8 = 0 \<Longrightarrow> Suc i div 8 = Suc (i div 8)"
    by (simp add: div_Suc)
qed

lemma read_rom:
  "mode (bus w) = Sel ds i 0 \<Longrightarrow> \<exists>w2.
     (case read_bit rom_ops w of (a, w) \<Rightarrow> case read_bit rom_ops w of (b, w) \<Rightarrow> ((a, b), w)) =
       ((list_all (\<lambda>d. d ! i) ds, list_all (\<lambda>d. \<not> d ! i) ds), w2) \<and>
     mode (bus w2) = Sel ds i 2 \<and> devices (bus w2) = devices (bus w) \<and> ROM_NO w2 = ROM_NO w \<and>
     LastDiscrepancy w2 = LastDiscrepancy w \<and> LastDeviceFlag w2 = LastDeviceFlag w"
  by (simp add: read_bit_def drive_def rom_ops_def rom_read_def Let_def numeral_2_eq_2)

lemma write_rom:
  "mode (bus w) = Sel ds i 2 \<Longrightarrow>
     mode (bus (write_bit rom_ops b w)) = Sel (filter (\<lambda>d. d ! i = b) ds) (Suc i) 0 \<and>
     devices (bus (write_bit rom_ops b w)) = devices (bus w) \<and> ROM_NO (write_bit rom_ops b w) = ROM_NO w \<and>
     LastDiscrepancy (write_bit rom_ops b w) = LastDiscrepancy w \<and>
     LastDeviceFlag (write_bit rom_ops b w) = LastDeviceFlag w"
  by (simp add: write_bit_def drive_def rom_ops_def rom_write_def Let_def)


lemma direction_agrees:
  assumes "at_turn D L r p z l w" "cands D p \<noteq> []" "length p < 64" "length r = 64"
    and "ROM_NO w' = ROM_NO w" "LastDiscrepancy w' = LastDiscrepancy w"
  shows "search_direction (list_all (\<lambda>d. d ! length p) (cands D p))
      (list_all (\<lambda>d. \<not> d ! length p) (cands D p)) l w' = direction_at D L r p"
proof -
  have "code_bits (ROM_NO w) ! length p = r ! length p"
    using assms(1,3,4) by (simp add: at_turn_def nth_append)
  then have "bit (ROM_NO w ! (length p div 8)) (length p mod 8) \<longleftrightarrow> r ! length p"
    using nth_code_bits [OF assms(3)] by simp
  then have "(ROM_NO w ! rom_byte_number l AND rom_byte_mask l > 0) = r ! length p"
    using assms(1) and_mask_pos [of "length p mod 8"] by (simp add: at_turn_def)
  then show ?thesis
    using assms reads_both [OF assms(2)]
    by (auto simp: search_direction_def direction_at_def at_turn_def)
qed

lemma search_turn_fst:
  "fst (search_turn ops a b l w) =
     (let l1 = (if a = b \<and> \<not> search_direction a b l w then l\<lparr>last_zero := id_bit_number l\<rparr> else l);
          l1 = l1\<lparr>id_bit_number := id_bit_number l1 + 1, rom_byte_mask := push_bit 1 (rom_byte_mask l1)\<rparr>
      in if rom_byte_mask l1 = 0 then l1\<lparr>rom_byte_number := Suc (rom_byte_number l1), rom_byte_mask := 1\<rparr> else l1)"
  unfolding search_turn_def Let_def fst_conv ..

lemma search_turn_vars:
  assumes "search_turn ops a b l w = (l2, w2)" "search_direction a b l w = d"
  shows "id_bit_number l2 = id_bit_number l + 1"
    and "last_zero l2 = (if a = b \<and> \<not> d then id_bit_number l else last_zero l)"
    and "rom_byte_mask l2 = (if push_bit 1 (rom_byte_mask l) = 0 then 1 else push_bit 1 (rom_byte_mask l))"
    and "rom_byte_number l2 = (if push_bit 1 (rom_byte_mask l) = 0 then Suc (rom_byte_number l) else rom_byte_number l)"
proof -
  have e: "l2 = fst (search_turn ops a b l w)" by (simp add: assms(1))
  have f: "l2 = (let l1 = (if a = b \<and> \<not> d then l\<lparr>last_zero := id_bit_number l\<rparr> else l);
          l1 = l1\<lparr>id_bit_number := id_bit_number l1 + 1, rom_byte_mask := push_bit 1 (rom_byte_mask l1)\<rparr>
      in if rom_byte_mask l1 = 0 then l1\<lparr>rom_byte_number := Suc (rom_byte_number l1), rom_byte_mask := 1\<rparr> else l1)"
    unfolding e search_turn_fst assms(2) by (rule refl)
  show "id_bit_number l2 = id_bit_number l + 1" unfolding f Let_def by simp
  show "last_zero l2 = (if a = b \<and> \<not> d then id_bit_number l else last_zero l)" unfolding f Let_def by simp
  show "rom_byte_mask l2 = (if push_bit 1 (rom_byte_mask l) = 0 then 1 else push_bit 1 (rom_byte_mask l))" unfolding f Let_def by simp
  show "rom_byte_number l2 = (if push_bit 1 (rom_byte_mask l) = 0 then Suc (rom_byte_number l) else rom_byte_number l)" unfolding f Let_def by simp
qed

lemma turn_agrees:
  assumes "at_turn D L r p z l w" "cands D p \<noteq> []" "length p < 64" "length r = 64"
    and "\<forall>d \<in> set D. length d = 64"
    and "mode (bus w') = Sel (cands D p) (length p) 2" "devices (bus w') = devices (bus w)"
    "ROM_NO w' = ROM_NO w" "LastDiscrepancy w' = LastDiscrepancy w" "LastDeviceFlag w' = LastDeviceFlag w"
    and "search_turn rom_ops (list_all (\<lambda>d. d ! length p) (cands D p))
      (list_all (\<lambda>d. \<not> d ! length p) (cands D p)) l w' = (l2, w2)"
  defines "d \<equiv> direction_at D L r p"
  shows "at_turn D L r (p @ [d]) (if both D p \<and> \<not> d then Suc (length p) else z) l2 w2"
proof -
  let ?i = "length p"
  note dir = direction_agrees [OF assms(1-4,8,9), folded d_def]
  note step = cands_step [OF assms(5,3), of d]
  have rom: "code_bits ((ROM_NO w)[?i div 8 :=
      (if d then ROM_NO w ! (?i div 8) OR push_bit (?i mod 8) 1
       else ROM_NO w ! (?i div 8) AND NOT (push_bit (?i mod 8) 1))]) = (code_bits (ROM_NO w))[?i := d]"
    using code_bits_update [of "?i div 8" "?i mod 8" "ROM_NO w" d] assms(1,3) by (simp add: at_turn_def)
  have upd: "(p @ drop ?i r)[?i := d] = (p @ [d]) @ drop (Suc ?i) r"
    using assms(3,4) by (simp add: list_update_append Cons_nth_drop_Suc [symmetric] del: Cons_nth_drop_Suc)
  have bothd: "list_all (\<lambda>d. d ! ?i) (cands D p) = list_all (\<lambda>d. \<not> d ! ?i) (cands D p) \<longleftrightarrow> both D p"
    using reads_both(2) [OF assms(2)] by blast
  define w3 where "w3 = (if both D p \<and> \<not> d \<and> Suc ?i < 9 then w'\<lparr>LastFamilyDiscrepancy := int (Suc ?i)\<rparr> else w')"
  define w4 where "w4 = w3\<lparr>ROM_NO := (ROM_NO w)[?i div 8 :=
      (if d then ROM_NO w ! (?i div 8) OR push_bit (?i mod 8) 1
       else ROM_NO w ! (?i div 8) AND NOT (push_bit (?i mod 8) 1))]\<rparr>"
  have w4: "mode (bus w4) = Sel (cands D p) ?i 2" "devices (bus w4) = D" "LastDiscrepancy w4 = int L"
    "\<not> LastDeviceFlag w4" "length (ROM_NO w4) = 8" "code_bits (ROM_NO w4) = (p @ [d]) @ drop (Suc ?i) r"
    using assms(1,6-10) rom upd by (auto simp: w4_def w3_def at_turn_def)
  have st: "id_bit_number l = int (Suc ?i)" "last_zero l = int z" "rom_byte_number l = ?i div 8"
    "rom_byte_mask l = push_bit (?i mod 8) 1"
    using assms(1) by (simp_all add: at_turn_def)
  note turn = assms(11) [unfolded search_turn_def Let_def dir bothd]
  have w2: "w2 = write_bit rom_ops d w4"
    using turn st assms(8) by (cases "both D p"; cases d) (auto simp: w4_def w3_def)
  have l2: "id_bit_number l2 = int (Suc (Suc ?i))"
    "last_zero l2 = int (if both D p \<and> \<not> d then Suc ?i else z)"
    using search_turn_vars [OF assms(11) dir] st(1,2) bothd by simp_all
  have l2b: "rom_byte_number l2 = Suc ?i div 8 \<and> rom_byte_mask l2 = push_bit (Suc ?i mod 8) 1"
    using search_turn_vars [OF assms(11) dir, unfolded st next_mask(1) [OF assms(3)]]
      next_mask(2,3) [OF assms(3)]
    by (cases "Suc ?i mod 8 = 0") simp_all
  show ?thesis
    unfolding at_turn_def w2
    using l2 l2b w4 write_rom [OF w4(1), of d] step by simp
qed

lemma cands_next:
  assumes "cands D p \<noteq> []" "\<forall>d \<in> set D. length d = 64" "length p < 64"
  shows "cands D (p @ [direction_at D L r p]) \<noteq> []"
proof -
  obtain e where e: "e \<in> set (cands D p)" using assms(1) by (cases "cands D p") auto
  let ?d = "direction_at D L r p"
  have "\<exists>c \<in> set (cands D p). c ! length p = ?d"
  proof (cases "both D p")
    case True
    then obtain c1 c0 where "c1 \<in> set (cands D p)" "c1 ! length p" "c0 \<in> set (cands D p)" "\<not> c0 ! length p"
      by (auto simp: both_def)
    then show ?thesis by (cases ?d) auto
  next
    case False
    with e show ?thesis by (auto simp: direction_at_def both_def)
  qed
  then show ?thesis
    unfolding cands_step [OF assms(2,3), symmetric] by (auto simp: filter_empty_conv)
qed

lemma loop_step:
  assumes "at_turn D L r p z l w" "length r = 64" "\<forall>d \<in> set D. length d = 64"
    and "length p < 64" "cands D p \<noteq> []"
  defines "d \<equiv> direction_at D L r p"
  shows "\<exists>l2 w2. search_loop rom_ops (Suc n) l w =
      (if Suc (length p) < 64 then search_loop rom_ops n l2 w2 else (l2, w2)) \<and>
    at_turn D L r (p @ [d]) (if both D p \<and> \<not> d then Suc (length p) else z) l2 w2"
proof -
  have md: "mode (bus w) = Sel (cands D p) (length p) 0" using assms(1) by (simp add: at_turn_def)
  let ?a = "list_all (\<lambda>d. d ! length p) (cands D p)" and ?b = "list_all (\<lambda>d. \<not> d ! length p) (cands D p)"
  obtain w1 a w2 b where rd: "read_bit rom_ops w = (a, w1)" "read_bit rom_ops w1 = (b, w2)"
    by (cases "read_bit rom_ops w"; cases "read_bit rom_ops (snd (read_bit rom_ops w))") auto
  from read_rom [OF md] rd have w2: "a = ?a" "b = ?b" "mode (bus w2) = Sel (cands D p) (length p) 2"
    "devices (bus w2) = devices (bus w)" "ROM_NO w2 = ROM_NO w"
    "LastDiscrepancy w2 = LastDiscrepancy w" "LastDeviceFlag w2 = LastDeviceFlag w"
    by auto
  obtain l3 w3 where tn: "search_turn rom_ops ?a ?b l w2 = (l3, w3)" by fastforce
  note nxt = turn_agrees [OF assms(1,5,4,2,3) w2(3-7) tn, folded d_def]
  have "rom_byte_number l3 < 8 \<longleftrightarrow> Suc (length p) < 64"
    using nxt by (auto simp: at_turn_def)
  then have "search_loop rom_ops (Suc n) l w =
      (if Suc (length p) < 64 then search_loop rom_ops n l3 w3 else (l3, w3))"
    using rd w2(1,2) tn reads_both(1) [OF assms(5)] by auto
  with nxt show ?thesis by blast
qed

lemma loop_agrees:
  assumes "at_turn D L r p z l w" "length r = 64" "\<forall>d \<in> set D. length d = 64"
    and "length p + Suc n = 64" "cands D p \<noteq> []"
  shows "\<exists>l2 w2. search_loop rom_ops (Suc n) l w = (l2, w2) \<and>
    (case walk D L r (Suc n) p z of (q, z') \<Rightarrow> at_turn D L r q z' l2 w2)"
  using assms
proof (induction n arbitrary: p z l w)
  case (0 p z l w)
  have "length p < 64" using 0(4) by simp
  from loop_step [OF 0(1,2,3) this 0(5), of 0] 0(4) show ?case by (auto simp: Let_def)
next
  case (Suc n)
  define d where "d = direction_at D L r p"
  define z1 where "z1 = (if both D p \<and> \<not> d then Suc (length p) else z)"
  have p: "length p < 64" "Suc (length p) < 64" using Suc.prems(4) by simp_all
  from loop_step [OF Suc.prems(1,2,3) p(1) Suc.prems(5), of "Suc n"] p(2) obtain l2 w2 where
    step: "search_loop rom_ops (Suc (Suc n)) l w = search_loop rom_ops (Suc n) l2 w2"
    "at_turn D L r (p @ [d]) z1 l2 w2"
    by (auto simp: d_def z1_def)
  have "cands D (p @ [d]) \<noteq> []" unfolding d_def by (rule cands_next [OF Suc.prems(5,3) p(1)])
  from Suc.IH [OF step(2) Suc.prems(2,3) _ this] Suc.prems(4) obtain l3 w3 where
    "search_loop rom_ops (Suc n) l2 w2 = (l3, w3)"
    "case walk D L r (Suc n) (p @ [d]) z1 of (q, z') \<Rightarrow> at_turn D L r q z' l3 w3" by auto
  with step(1) show ?case
    unfolding walk.simps(2) [of D L r "Suc n"] Let_def d_def [symmetric] z1_def [symmetric] by auto
qed

section \<open>What the walk finds\<close>

text \<open>The order of codes in which the first bit that differs decides.\<close>

definition code_less :: "bool list \<Rightarrow> bool list \<Rightarrow> bool" where
  "code_less x y \<longleftrightarrow> (\<exists>i < 64. take i x = take i y \<and> \<not> x ! i \<and> y ! i)"

text \<open>The last discrepancy of a code, from 1; zero when no code is greater.\<close>

definition disc :: "bool list list \<Rightarrow> bool list \<Rightarrow> nat \<Rightarrow> bool" where
  "disc D q z \<longleftrightarrow> (\<forall>i < 64. zero_at D q i \<longrightarrow> Suc i \<le> z) \<and>
     (z = 0 \<or> (\<exists>i < 64. zero_at D q i \<and> z = Suc i))"

lemma differ_first:
  assumes "length x = 64" "length y = 64" "x \<noteq> y"
  shows "\<exists>i < 64. take i x = take i y \<and> x ! i \<noteq> y ! i"
proof -
  have "\<exists>i. i < 64 \<and> x ! i \<noteq> y ! i" using assms by (auto simp: list_eq_iff_nth_eq)
  then obtain i where i: "i < 64" "x ! i \<noteq> y ! i" "\<forall>j < i. \<not> (j < 64 \<and> x ! j \<noteq> y ! j)"
    using exists_least_iff [of "\<lambda>i. i < 64 \<and> x ! i \<noteq> y ! i"] by blast
  have "take i x = take i y"
  proof (rule nth_equalityI)
    fix j assume "j < length (take i x)"
    then show "take i x ! j = take i y ! j" using i assms by simp
  qed (use assms in simp)
  with i(1,2) show ?thesis by blast
qed

lemma code_less_total:
  assumes "length x = 64" "length y = 64" "x \<noteq> y"
  shows "code_less x y \<or> code_less y x"
proof -
  obtain i where "i < 64" "take i x = take i y" "x ! i \<noteq> y ! i" using differ_first [OF assms] by blast
  then show ?thesis unfolding code_less_def by metis
qed

lemma code_less_asym:
  assumes "code_less x y"
  shows "\<not> code_less y x"
proof
  assume "code_less y x"
  then obtain j where j: "j < 64" "take j y = take j x" "\<not> y ! j" "x ! j" unfolding code_less_def by blast
  obtain i where i: "i < 64" "take i x = take i y" "\<not> x ! i" "y ! i" using assms unfolding code_less_def by blast
  consider "i < j" | "j < i" | "i = j" by linarith
  then show False
    by cases (use i j nth_take [of i j x] nth_take [of i j y] nth_take [of j i x] nth_take [of j i y] in auto)
qed

lemma zero_at_iff:
  assumes "q \<in> set D" "length q = 64" "i < 64"
  shows "zero_at D q i \<longleftrightarrow> \<not> q ! i \<and> (\<exists>d \<in> set D. take i d = take i q \<and> d ! i)"
  using assms by (auto simp: zero_at_def both_def cands_def)

lemma both_at:
  assumes "q \<in> set D" "d \<in> set D" "length q = 64" "i < 64" "take i d = take i q" "d ! i \<noteq> q ! i"
  shows "both D (take i q)"
  using assms unfolding both_def cands_def by (cases "q ! i") fastforce+

lemma walk_from_start:
  assumes "walk D L r 64 [] 0 = (q, z)" "D \<noteq> []" "\<forall>d \<in> set D. length d = 64"
  shows "length q = 64" and "q \<in> set D" and "\<And>i. i < 64 \<Longrightarrow> q ! i = direction_at D L r (take i q)"
    and "disc D q z"
proof -
  note S = walk_spec [OF assms(1)]
  show len: "length q = 64" using S by simp
  show dir: "q ! i = direction_at D L r (take i q)" if "i < 64" for i using S that by simp
  show "disc D q z" unfolding disc_def using S by auto
  have "cands D (take i q) \<noteq> []" if "i \<le> 64" for i
    using that
  proof (induction i)
    case 0
    show ?case using assms(2) by (simp add: cands_def)
  next
    case (Suc i)
    have "cands D (take i q @ [direction_at D L r (take i q)]) \<noteq> []"
      using Suc cands_next [OF _ assms(3), of "take i q"] len by simp
    then show ?case using Suc.prems dir [of i] len by (simp add: take_Suc_conv_app_nth)
  qed
  from this [of 64] len assms(3) show "q \<in> set D"
    by (auto simp: cands_def filter_empty_conv)
qed

lemma walk_first:
  assumes "walk D 0 r 64 [] 0 = (q, z)" "D \<noteq> []" "\<forall>d \<in> set D. length d = 64" "d \<in> set D" "d \<noteq> q"
  shows "code_less q d"
proof -
  note W = walk_from_start [OF assms(1-3)]
  obtain i where i: "i < 64" "take i d = take i q" "d ! i \<noteq> q ! i"
    using differ_first [of d q] assms W(1) by auto
  have "both D (take i q)" by (rule both_at [OF W(2) assms(4) W(1) i])
  with W(3) [OF i(1)] have "\<not> q ! i" by (simp add: direction_at_def)
  with i show ?thesis by (auto simp: code_less_def)
qed

lemma walk_next:
  assumes "walk D L r 64 [] 0 = (q, z)" "\<forall>d \<in> set D. length d = 64" "r \<in> set D" "disc D r L" "L \<noteq> 0"
  shows "code_less r q" and "\<And>d. d \<in> set D \<Longrightarrow> code_less r d \<Longrightarrow> d = q \<or> code_less q d"
proof -
  have ne: "D \<noteq> []" using assms(3) by auto
  note W = walk_from_start [OF assms(1) ne assms(2)]
  have r: "length r = 64" using assms(2,3) by blast
  obtain j where j: "j < 64" "zero_at D r j" "L = Suc j" using assms(4,5) by (auto simp: disc_def)
  have low: "take i q = take i r" if "i \<le> j" for i
    using that
  proof (induction i)
    case (Suc i)
    then have i: "i < 64" "take i q = take i r" using j(1) by simp_all
    have mem: "r \<in> set (cands D (take i r))" using assms(3) r i(1) by (simp add: cands_def)
    have "q ! i = r ! i"
    proof (cases "both D (take i r)")
      case True
      then show ?thesis using W(3) [OF i(1)] i r Suc.prems j(3) W(1) by (simp add: direction_at_def)
    next
      case False
      with mem have "(\<exists>d \<in> set (cands D (take i r)). d ! i) = r ! i"
        using r i(1) by (auto simp: both_def)
      then show ?thesis using W(3) [OF i(1)] i r False by (simp add: direction_at_def)
    qed
    then show ?case using i r W(1) by (simp add: take_Suc_conv_app_nth)
  qed simp
  have at: "q ! j" "\<not> r ! j"
    using W(3) [OF j(1)] low [of j] j r by (simp_all add: direction_at_def zero_at_def)
  show "code_less r q" unfolding code_less_def using j(1) low [of j] at by auto
  fix d assume d: "d \<in> set D" "code_less r d"
  from d(2) obtain k where k: "k < 64" "take k r = take k d" "\<not> r ! k" "d ! k" unfolding code_less_def by blast
  then have "zero_at D r k" using zero_at_iff [OF assms(3) r k(1)] d(1) by auto
  then have kj: "k \<le> j" using assms(4) k(1) j(3) by (auto simp: disc_def)
  show "d = q \<or> code_less q d"
  proof (cases "k = j")
    case False
    with kj have "k < j" by simp
    then have "take (Suc k) q = take (Suc k) r" using low [of "Suc k"] by simp
    then have "q ! k = r ! k" by (metis lessI nth_take)
    with k low [OF kj] show ?thesis by (auto simp: code_less_def)
  next
    case True
    show ?thesis
    proof (cases "d = q")
      case False
      obtain i where i: "i < 64" "take i d = take i q" "d ! i \<noteq> q ! i"
        using differ_first [OF _ W(1) False] assms(2) d(1) by blast
      have "j < i"
      proof (rule ccontr)
        assume "\<not> j < i"
        then consider "i < j" | "i = j" by linarith
        then show False
        proof cases
          case 1
          then have "d ! i = r ! i" "q ! i = r ! i"
            using k(2) True low [of j] by (metis nth_take order_refl)+
          with i show False by simp
        next
          case 2
          with k(4) True at(1) i(3) show False by simp
        qed
      qed
      have "both D (take i q)" by (rule both_at [OF W(2) d(1) W(1) i])
      with W(3) [OF i(1)] W(1) \<open>j < i\<close> j(3) i(1) have "\<not> q ! i" by (simp add: direction_at_def)
      with i show ?thesis unfolding code_less_def by metis
    qed simp
  qed
qed

end
