(* ===== verification/OneWireProperties.thy ===== *)
theory OneWireProperties imports OneWireSearch begin

text \<open>
  What the 1-Wire bus master promises: the search finds every device of the bus, and the check
  sum of a ROM code notices every error in one byte.
\<close>

section \<open>One call of the search\<close>

text \<open>What a call of \<open>one_wire_search\<close> leaves behind: the code it found and how far it is.\<close>

definition searched :: "bool list list \<Rightarrow> bool list \<Rightarrow> nat \<Rightarrow> rom_bus wire \<Rightarrow> bool" where
  "searched D q z w \<longleftrightarrow>
     length (ROM_NO w) = 8 \<and> code_bits (ROM_NO w) = q \<and> LastDiscrepancy w = int z \<and>
     LastDeviceFlag w = (z = 0) \<and> devices (bus w) = D"

text \<open>The devices of a bus: at least one, each with a family code that is not zero.\<close>

definition good_bus :: "bool list list \<Rightarrow> bool" where
  "good_bus D \<longleftrightarrow> D \<noteq> [] \<and> list_all (\<lambda>d. length d = 64 \<and> list_ex (\<lambda>x. x) (take 8 d)) D"

lemma good_busD:
  assumes "good_bus D"
  shows "D \<noteq> []" and "\<forall>d \<in> set D. length d = 64" and "\<And>d. d \<in> set D \<Longrightarrow> \<exists>i < 8. d ! i"
proof -
  show "D \<noteq> []" "\<forall>d \<in> set D. length d = 64" using assms by (auto simp: good_bus_def list_all_iff)
  fix d assume "d \<in> set D"
  then have "list_ex (\<lambda>x. x) (take 8 d)" using assms by (auto simp: good_bus_def list_all_iff)
  then obtain i where "i < length (take 8 d)" "take 8 d ! i" by (auto simp: list_ex_iff in_set_conv_nth)
  then show "\<exists>i < 8. d ! i" by auto
qed

lemma reset_rom:
  assumes "devices (bus w) \<noteq> []"
  shows "\<exists>w1. one_wire_send_reset rom_ops w = (ow_ok, w1) \<and> mode (bus w1) = Cmd [] \<and>
    devices (bus w1) = devices (bus w) \<and> ROM_NO w1 = ROM_NO w \<and>
    LastDiscrepancy w1 = LastDiscrepancy w \<and> LastDeviceFlag w1 = LastDeviceFlag w"
  using assms by (simp add: one_wire_send_reset_def drive_def rom_ops_def rom_reset_def Let_def)

lemma command_rom:
  assumes "mode (bus w) = Cmd bs" "length bs < 7"
  shows "mode (bus (write_bit rom_ops v w)) = Cmd (bs @ [v])"
  using assms by (simp add: write_bit_def drive_def rom_ops_def rom_write_def Let_def)

lemma command_last_rom:
  assumes "mode (bus w) = Cmd bs" "bs @ [v] = command_bits RC_SEARCH"
  shows "mode (bus (write_bit rom_ops v w)) = Sel (devices (bus w)) 0 0"
proof -
  have "length (bs @ [v]) = 8" unfolding assms(2) by simp
  then have "length bs = 7" by simp
  with assms show ?thesis by (simp add: write_bit_def drive_def rom_ops_def rom_write_def Let_def)
qed

lemma write_rom_keeps:
  "devices (bus (write_bit rom_ops v w)) = devices (bus w) \<and> ROM_NO (write_bit rom_ops v w) = ROM_NO w \<and>
   LastDiscrepancy (write_bit rom_ops v w) = LastDiscrepancy w \<and>
   LastDeviceFlag (write_bit rom_ops v w) = LastDeviceFlag w"
  by (simp add: write_bit_def drive_def rom_ops_def rom_write_def Let_def split: mode.split)

lemma send_bits_rom:
  "mode (bus w) = Cmd bs \<Longrightarrow> bs @ map (bit data) [0..<n] = command_bits RC_SEARCH \<Longrightarrow> 0 < n \<Longrightarrow>
   mode (bus (send_bits rom_ops n data w)) = Sel (devices (bus w)) 0 0"
proof (induction n arbitrary: w bs data)
  case (Suc n)
  have shift: "map (bit data) [0..<Suc n] = bit data 0 # map (bit (drop_bit 1 data)) [0..<n]"
    by (simp add: upt_conv_Cons map_Suc_upt [symmetric] bit_drop_bit_eq comp_def del: upt_Suc)
  show ?case
  proof (cases "n = 0")
    case True
    with command_last_rom [OF Suc.prems(1)] Suc.prems(2) show ?thesis by simp
  next
    case False
    have "length (bs @ map (bit data) [0..<Suc n]) = 8"
      unfolding Suc.prems(2) by simp
    with False have "length bs < 7" by simp
    from Suc.IH [OF command_rom [OF Suc.prems(1) this, of "bit data 0"], of "drop_bit 1 data"]
      Suc.prems(2) False shift write_rom_keeps show ?thesis by (simp del: upt_Suc)
  qed
qed simp

lemma send_bits_keeps:
  "devices (bus (send_bits rom_ops n data w)) = devices (bus w) \<and> ROM_NO (send_bits rom_ops n data w) = ROM_NO w \<and>
   LastDiscrepancy (send_bits rom_ops n data w) = LastDiscrepancy w \<and>
   LastDeviceFlag (send_bits rom_ops n data w) = LastDeviceFlag w"
  using write_rom_keeps by (induction n arbitrary: data w) simp_all

lemma send_search_rom:
  assumes "mode (bus w) = Cmd []"
  shows "\<exists>w1. one_wire_send_byte rom_ops RC_SEARCH w = (ow_ok, w1) \<and> mode (bus w1) = Sel (devices (bus w)) 0 0 \<and>
    devices (bus w1) = devices (bus w) \<and> ROM_NO w1 = ROM_NO w \<and>
    LastDiscrepancy w1 = LastDiscrepancy w \<and> LastDeviceFlag w1 = LastDeviceFlag w"
  using send_bits_rom [OF assms, of RC_SEARCH 8] send_bits_keeps
  by (simp add: one_wire_send_byte_def command_bits_def del: upt_Suc)

lemma search_call:
  assumes "good_bus D" "devices (bus w) = D" "LastDiscrepancy w = int L" "\<not> LastDeviceFlag w"
    and "length (ROM_NO w) = 8" "walk D L (code_bits (ROM_NO w)) 64 [] 0 = (q, z)"
  shows "\<exists>addr w2. one_wire_search rom_ops True newAddr w = (True, addr, w2) \<and> code_bits addr = q \<and>
    searched D q z w2"
proof -
  note D = good_busD [OF assms(1)]
  obtain w1 where w1: "one_wire_send_reset rom_ops w = (ow_ok, w1)" "mode (bus w1) = Cmd []"
    "devices (bus w1) = D" "ROM_NO w1 = ROM_NO w" "LastDiscrepancy w1 = int L" "\<not> LastDeviceFlag w1"
    using reset_rom [of w] D(1) assms(2-4) by auto
  obtain w2 where w2: "one_wire_send_byte rom_ops RC_SEARCH w1 = (ow_ok, w2)" "mode (bus w2) = Sel D 0 0"
    "devices (bus w2) = D" "ROM_NO w2 = ROM_NO w" "LastDiscrepancy w2 = int L" "\<not> LastDeviceFlag w2"
    using send_search_rom [OF w1(2)] w1(3-6) by auto
  have start: "at_turn D L (code_bits (ROM_NO w)) [] 0 search_start w2"
    using w2 assms(5) by (simp add: at_turn_def search_start_def cands_def)
  have "cands D [] \<noteq> []" using D(1) by (simp add: cands_def)
  from loop_agrees [OF start _ D(2), of 63] this assms(6) obtain l3 w3 where
    loop: "search_loop rom_ops 64 search_start w2 = (l3, w3)"
      "at_turn D L (code_bits (ROM_NO w)) q z l3 w3"
    by (auto simp del: search_loop.simps walk.simps)
  note W = walk_from_start [OF assms(6) D(1,2)]
  have w3: "length (ROM_NO w3) = 8" "code_bits (ROM_NO w3) = q" "id_bit_number l3 = 65" "last_zero l3 = int z"
    "devices (bus w3) = D" "\<not> LastDeviceFlag w3"
    using loop(2) W(1) by (simp_all add: at_turn_def)
  obtain i where i: "i < 8" "q ! i" using D(3) [OF W(2)] by blast
  have "bit (ROM_NO w3 ! 0) i" using i w3(2) nth_code_bits [of i "ROM_NO w3"] by simp
  then have "ROM_NO w3 ! 0 \<noteq> 0" by auto
  then show ?thesis
    using w1(1) w2(1) loop(1) w3 assms(4)
    by (simp add: one_wire_search_def search_finish_def searched_def del: search_loop.simps)
qed

section \<open>Successive calls\<close>

text \<open>The codes that \<open>n\<close> successive calls report, \<open>None\<close> for a call that finds nothing.\<close>

fun searches :: "nat \<Rightarrow> rom_bus wire \<Rightarrow> bool list option list" where
  "searches 0 w = []"
| "searches (Suc n) w =
     (case one_wire_search rom_ops True (replicate 8 0) w of
        (found, addr, w) \<Rightarrow> (if found then Some (code_bits addr) else None) # searches n w)"

lemma disc_zero:
  assumes "disc D q z" "q \<in> set D" "\<forall>d \<in> set D. length d = 64"
  shows "z = 0 \<longleftrightarrow> (\<forall>d \<in> set D. \<not> code_less q d)"
proof
  have q: "length q = 64" using assms by blast
  show "\<forall>d \<in> set D. \<not> code_less q d" if "z = 0"
  proof (intro ballI notI)
    fix d assume d: "d \<in> set D" "code_less q d"
    then obtain i where "i < 64" "take i q = take i d" "\<not> q ! i" "d ! i" unfolding code_less_def by blast
    then have "i < 64" "zero_at D q i" using zero_at_iff [OF assms(2) q] d(1) by auto
    with assms(1) that show False by (auto simp: disc_def)
  qed
  show "z = 0" if "\<forall>d \<in> set D. \<not> code_less q d"
  proof (rule ccontr)
    assume "z \<noteq> 0"
    then obtain i where i: "i < 64" "zero_at D q i" using assms(1) by (auto simp: disc_def)
    then obtain d where "d \<in> set D" "take i d = take i q" "\<not> q ! i" "d ! i"
      using zero_at_iff [OF assms(2) q i(1)] by blast
    with i(1) that show False unfolding code_less_def by metis
  qed
qed

lemma sorted_split:
  assumes "sorted_wrt code_less (pre @ q # rest)" "d \<in> set (pre @ q # rest)" "code_less q d"
  shows "d \<in> set rest"
  using assms code_less_asym by (auto simp: sorted_wrt_append)

lemma searches_from:
  assumes "good_bus D" "sorted_wrt code_less (pre @ q # rest)" "set (pre @ q # rest) = set D"
    and "searched D q z w" "disc D q z"
  shows "searches (Suc (length rest)) w = map Some rest @ [None]"
  using assms(2-5)
proof (induction rest arbitrary: pre q z w)
  case Nil
  note D = good_busD [OF assms(1)]
  have "q \<in> set D" using Nil.prems(2) by auto
  have "\<not> code_less q d" if "d \<in> set D" for d
    using sorted_split [OF Nil.prems(1), of d] that Nil.prems(2) by auto
  with disc_zero [OF Nil.prems(4) \<open>q \<in> set D\<close> D(2)] have "LastDeviceFlag w"
    using Nil.prems(3) by (simp add: searched_def)
  then show ?case by (simp add: one_wire_search_def search_finish_def)
next
  case (Cons r rest)
  note D = good_busD [OF assms(1)]
  have q: "q \<in> set D" and r: "r \<in> set D" using Cons.prems(2) by auto
  have qr: "code_less q r" using Cons.prems(1) by (simp add: sorted_wrt_append)
  have z: "z \<noteq> 0" using disc_zero [OF Cons.prems(4) q D(2)] qr r by blast
  obtain q' z' where walk: "walk D z q 64 [] 0 = (q', z')" by fastforce
  note W = walk_from_start [OF walk D(1,2)] and N = walk_next [OF walk D(2) q Cons.prems(4) z]
  have "q' \<in> set (r # rest)" using sorted_split [OF Cons.prems(1), of q'] W(2) N(1) Cons.prems(2) by blast
  moreover have "q' \<notin> set rest"
  proof
    assume "q' \<in> set rest"
    then have "code_less r q'" using Cons.prems(1) by (auto simp: sorted_wrt_append)
    with N(2) [OF r qr] code_less_asym show False by blast
  qed
  ultimately have [simp]: "q' = r" by simp
  have st: "devices (bus w) = D" "LastDiscrepancy w = int z" "\<not> LastDeviceFlag w" "length (ROM_NO w) = 8"
    "walk D z (code_bits (ROM_NO w)) 64 [] 0 = (r, z')"
    using Cons.prems(3) z walk by (simp_all add: searched_def)
  from search_call [OF assms(1) st, of "replicate 8 0"] obtain addr w2 where
    call: "one_wire_search rom_ops True (replicate 8 0) w = (True, addr, w2)" "code_bits addr = r"
      "searched D r z' w2" by blast
  from Cons.IH [of "pre @ [q]" r z' w2] Cons.prems(1,2) call(3) W(4)
  have "searches (Suc (length rest)) w2 = map Some rest @ [None]" by simp
  then show ?case using call by (simp only: searches.simps list.size) simp
qed

section \<open>Every device, once\<close>

lemma searches_all:
  assumes "good_bus D" "sorted_wrt code_less S" "set S = set D" "devices (bus w) = D"
  shows "searches (Suc (length S)) (one_wire_reset_search w) = map Some S @ [None]"
proof (cases S)
  case Nil
  then show ?thesis using assms(1,3) by (simp add: good_bus_def)
next
  case (Cons s rest)
  note D = good_busD [OF assms(1)]
  let ?w = "one_wire_reset_search w"
  obtain q z where walk: "walk D 0 (code_bits (ROM_NO ?w)) 64 [] 0 = (q, z)" by fastforce
  note W = walk_from_start [OF walk D(1,2)] and F = walk_first [OF walk D(1,2)]
  have s: "s \<in> set D" using assms(3) Cons by auto
  have "q = s"
  proof (rule ccontr)
    assume "q \<noteq> s"
    then have "code_less q s" "q \<in> set rest" using F [OF s] W(2) assms(3) Cons by auto
    moreover have "code_less s q" using calculation(2) assms(2) Cons by auto
    ultimately show False using code_less_asym by blast
  qed
  have st: "devices (bus ?w) = D" "LastDiscrepancy ?w = int 0" "\<not> LastDeviceFlag ?w" "length (ROM_NO ?w) = 8"
    using assms(4) by (simp_all add: one_wire_reset_search_def)
  from search_call [OF assms(1) st walk, of "replicate 8 0"] obtain addr w2 where
    call: "one_wire_search rom_ops True (replicate 8 0) ?w = (True, addr, w2)" "code_bits addr = q"
      "searched D q z w2" by blast
  from searches_from [OF assms(1), of "[]" q rest z w2] assms(2,3) Cons \<open>q = s\<close> call(3) W(4)
  have "searches (Suc (length rest)) w2 = map Some rest @ [None]" by simp
  then show ?thesis using call Cons \<open>q = s\<close> by (simp only: searches.simps list.size) simp
qed

text \<open>C28. After a reset of the search, successive calls of \<open>one_wire_search\<close> report every device
  of the bus exactly once, in the order of the codes, and the call after the last device reports
  nothing: the branch of each code is chosen from the discrepancies of the one before.\<close>

theorem search_finds_every_device_once:
  assumes "list_all (\<lambda>d. length d = 64 \<and> list_ex (\<lambda>x. x) (take 8 d)) S" "S \<noteq> []"
    and "sorted_wrt code_less S" "set (devices (bus w)) = set S"
  shows "searches (Suc (length S)) (one_wire_reset_search w) = map Some S @ [None]"
proof -
  have "good_bus (devices (bus w))"
    using assms(1,2,4) by (auto simp: good_bus_def list_all_iff)
  from searches_all [OF this assms(3) assms(4) [symmetric] refl] show ?thesis .
qed

definition two_sensors :: "bool list list" where
  "two_sensors = [code_bits [0x28, 2, 0, 0, 0, 0, 0, 1], code_bits [0x28, 1, 0, 0, 0, 0, 0, 3]]"

definition sensor_wire :: "rom_bus wire" where
  "sensor_wire = \<lparr>ROM_NO = replicate 8 7, LastDiscrepancy = 3, LastFamilyDiscrepancy = 1, LastDeviceFlag = True,
     input_ring_buff = [], line = [],
     bus = \<lparr>devices = rev two_sensors, alarmed = [], mode = Idle\<rparr>\<rparr>"

theorem search_finds_every_device_once_witness:
  "searches 3 (one_wire_reset_search sensor_wire) = [Some (two_sensors ! 0), Some (two_sensors ! 1), None]"
proof -
  have ok: "list_all (\<lambda>d. length d = 64 \<and> list_ex (\<lambda>x. x) (take 8 d)) two_sensors" by code_simp
  have ordered: "sorted_wrt code_less two_sensors"
    by code_simp
  have two: "two_sensors \<noteq> []" "set (devices (bus sensor_wire)) = set two_sensors"
    "map Some two_sensors @ [None] = [Some (two_sensors ! 0), Some (two_sensors ! 1), None]"
    "Suc (length two_sensors) = 3"
    by (simp_all add: two_sensors_def sensor_wire_def insert_commute)
  from search_finds_every_device_once [OF ok two(1) ordered two(2)] show ?thesis
    unfolding two(3,4) .
qed

section \<open>The check sum\<close>

text \<open>One step of the shift register, on the exclusive or of the register and the input.\<close>

definition crc_step :: "8 word \<Rightarrow> 8 word" where
  "crc_step c = (if c AND 1 \<noteq> 0 then drop_bit 1 c XOR 0x8c else drop_bit 1 c)"

lemma and_one_bit: "(c :: 8 word) AND 1 \<noteq> 0 \<longleftrightarrow> bit c 0"
  by (simp add: and_one_eq mod_2_eq_odd bit_0)

lemma crc_step_bits:
  "bit (crc_step c) n \<longleftrightarrow> (if bit c 0 then bit (drop_bit 1 c) n \<noteq> bit (0x8c :: 8 word) n else bit (drop_bit 1 c) n)"
  unfolding crc_step_def and_one_bit by (simp add: bit_xor_iff)

lemma crc_step_inject:
  assumes "crc_step c = crc_step d"
  shows "c = d"
proof -
  have top: "bit (crc_step x) 7 \<longleftrightarrow> bit x 0" for x
  proof -
    have "\<not> bit (drop_bit 1 x) 7" using bit_imp_le_length [of x 8] by (auto simp: bit_drop_bit_eq)
    moreover have "bit (0x8c :: 8 word) 7" by code_simp
    ultimately show ?thesis unfolding crc_step_bits by simp
  qed
  have "bit (crc_step c) n = bit (crc_step d) n" for n using assms by simp
  then have "bit c 0 = bit d 0" "\<And>n. bit (drop_bit 1 c) n = bit (drop_bit 1 d) n"
    using top unfolding crc_step_bits by metis+
  then have "bit c n = bit d n" for n by (cases n) (simp_all add: bit_drop_bit_eq)
  then show ?thesis by (rule bit_eqI)
qed

lemma crc_bits_step: "crc_bits n y c XOR drop_bit n y = (crc_step ^^ n) (c XOR y)"
proof (induction n arbitrary: y c)
  case (Suc n)
  have "(c AND 1) XOR (y AND 1) = (c XOR y) AND 1" by (simp add: bit_eq_iff bit_simps) blast
  then have "(if (c AND 1) XOR (y AND 1) \<noteq> 0 then drop_bit 1 c XOR 0x8c else drop_bit 1 c) XOR drop_bit 1 y =
      crc_step (c XOR y)"
    unfolding crc_step_def by (simp add: drop_bit_xor ac_simps)
  with Suc.IH [of "drop_bit 1 y"] show ?case
    by (simp add: funpow_swap1 drop_bit_drop_bit)
qed simp

lemma crc_byte: "crc_bits 8 y c = (crc_step ^^ 8) (c XOR y)"
proof -
  have "drop_bit 8 y = 0" by (rule bit_word_eqI) (simp add: bit_drop_bit_eq)
  with crc_bits_step [of 8 y c] show ?thesis by simp
qed

lemma crc_steps_inject: "(crc_step ^^ n) c = (crc_step ^^ n) d \<Longrightarrow> c = d"
  by (induction n) (auto dest: crc_step_inject)

lemma xor_inject: "(a :: 8 word) XOR b = a XOR c \<Longrightarrow> b = c" "(b :: 8 word) XOR a = c XOR a \<Longrightarrow> b = c"
  by (metis bit.xor_left_self, metis bit.xor_left_self xor.commute)

lemma crc_bytes_inject: "crc_bytes ys c = crc_bytes ys d \<Longrightarrow> c = d"
  by (induction ys arbitrary: c d) (auto simp: crc_byte dest: crc_steps_inject xor_inject)

lemma crc_bytes_append: "crc_bytes (xs @ ys) c = crc_bytes ys (crc_bytes xs c)"
  by (induction xs arbitrary: c) simp_all

lemma crc_one_byte: "k < length ys \<Longrightarrow> crc_bytes (ys[k := v]) c = crc_bytes ys c \<Longrightarrow> v = ys ! k"
  by (subst (asm) (2) id_take_nth_drop [of k ys], assumption)
    (auto simp: upd_conv_take_nth_drop crc_bytes_append crc_byte
      dest!: crc_bytes_inject crc_steps_inject xor_inject)

text \<open>C29. The check sum of a ROM code notices every error that is confined to one byte, the byte
  of the check sum included: a code whose last byte is the check sum of the seven before it no
  longer has this property when any one of its bytes is another one.\<close>

theorem crc_notices_a_wrong_byte:
  assumes "length rom = 8" "one_wire_calc_CRC rom 7 = rom ! 7" "k < 8" "v \<noteq> rom ! k"
  shows "one_wire_calc_CRC (rom[k := v]) 7 \<noteq> rom[k := v] ! 7"
proof (cases "k = 7")
  case True
  with assms show ?thesis by (simp add: one_wire_calc_CRC_def)
next
  case False
  with assms(3) have k: "k < 7" by simp
  then have "take 7 (rom[k := v]) = (take 7 rom)[k := v]" "rom[k := v] ! 7 = rom ! 7"
    by (simp_all add: take_update_swap)
  with crc_one_byte [of k "take 7 rom" v 0] assms k show ?thesis
    by (auto simp: one_wire_calc_CRC_def)
qed

theorem crc_notices_a_wrong_byte_witness:
  "one_wire_calc_CRC [0x02, 0x1C, 0xB8, 0x01, 0, 0, 0, 0xA2] 7 = 0xA2 \<and>
   one_wire_calc_CRC [0x02, 0x1D, 0xB8, 0x01, 0, 0, 0, 0xA2] 7 \<noteq> 0xA2"
proof
  show ok: "one_wire_calc_CRC [0x02, 0x1C, 0xB8, 0x01, 0, 0, 0, 0xA2] 7 = 0xA2" by code_simp
  show "one_wire_calc_CRC [0x02, 0x1D, 0xB8, 0x01, 0, 0, 0, 0xA2] 7 \<noteq> 0xA2"
    using crc_notices_a_wrong_byte [of "[0x02, 0x1C, 0xB8, 0x01, 0, 0, 0, 0xA2]" 1 "0x1D"] ok by simp
qed

end
