(* ===== verification/Sensors.thy ===== *)
theory Sensors imports CDouble "HOL-Library.Word" begin

text \<open>
  Waiting by the cycle counter (nfc/src/wait.c, nfc/inc/wait.h), the averaged analogue
  temperature (nfc/src/temperature.c), the last values of the two digital sensors
  (nfc/src/temperature_ds18b20.c, whose task is in DeviceTasks) and the routines of nfc/inc/misc.h
  that the latter file compiles.
\<close>

unbundle bit_operations_syntax

section \<open>Waiting\<close>

text \<open>
  \<open>cyc k\<close> is what the \<open>k\<close>-th read of the 32-bit cycle counter yields. The first read fixes
  the end, the others are the polls; the result is the number of reads.
\<close>

definition wait_cycles :: "(nat \<Rightarrow> int) \<Rightarrow> int \<Rightarrow> nat option" where
  "wait_cycles cyc cycles =
     (let counter = u32 (cycles + cyc 0)
      in wait_while (\<lambda>k. cyc k < counter) 1)"

definition number_of_cycles_ms :: "int \<Rightarrow> int \<Rightarrow> int" where
  "number_of_cycles_ms ms hz = u32 (ms * (hz div 1000))"

definition number_of_cycles_us :: "int \<Rightarrow> int \<Rightarrow> int" where
  "number_of_cycles_us us hz = u32 (us * (hz div 1000 div 1000))"

text \<open>The calls a wait makes: a short one of ten cycles, or one that polls the counter.\<close>

datatype wait_call = Wait10Cycles | WaitCycles int

definition wait_ms :: "int \<Rightarrow> int \<Rightarrow> wait_call list" where
  "wait_ms hz ms = replicate (nat ms) (WaitCycles (number_of_cycles_ms 1 hz))"

definition WAIT_C :: "int \<Rightarrow> wait_call list" where
  "WAIT_C cycles = (if cycles \<le> 10 then [Wait10Cycles] else [WaitCycles cycles])"

definition wait_us :: "int \<Rightarrow> int \<Rightarrow> wait_call list" where
  "wait_us hz us =
     (if number_of_cycles_us us hz = 0 \<or> us = 0 then []
      else (if us div 1000 = 0 then [] else wait_ms hz (us div 1000))) @
     (if number_of_cycles_us (us mod 1000) hz = 0 then []
      else WAIT_C (number_of_cycles_us (us mod 1000) hz))"

section \<open>The averaged temperature\<close>

definition TEMPERATURE_COUNT :: nat where "TEMPERATURE_COUNT = 200"

record adc_average =
  temperature :: int
  aTemperature :: "int list"
  sample_index :: nat

text \<open>\<open>sum\<close> is a 16-bit variable.\<close>

definition sum16 :: "int list \<Rightarrow> int" where
  "sum16 xs = fold (\<lambda>x sum. u16 (sum + x)) xs 0"

text \<open>
  \<open>busy\<close> are the answers to the polls of the converter, \<open>sample\<close> the value it then has; an
  index out of the buffer is a fault.
\<close>

definition temperature_read ::
    "(nat \<Rightarrow> bool) \<Rightarrow> int \<Rightarrow> adc_average \<Rightarrow> (int \<times> adc_average) res option" where
  "temperature_read busy sample a =
     Option.bind (wait_while busy 0) (\<lambda>_.
       Some (if sample_index a < length (aTemperature a) then
         (let a = a\<lparr>aTemperature := (aTemperature a)[sample_index a := u16 sample],
                    sample_index := Suc (sample_index a)\<rparr>;
              a = (if sample_index a = TEMPERATURE_COUNT then
                     a\<lparr>temperature := sum16 (take TEMPERATURE_COUNT (aTemperature a)) div int TEMPERATURE_COUNT,
                       sample_index := 0\<rparr>
                   else a)
          in Inr (temperature a, a))
         else Inl OutOfBounds))"

section \<open>The digital sensors\<close>

definition ERR_OK :: int where "ERR_OK = 0"
definition ERR_BUSOFF :: int where "ERR_BUSOFF = 12"
definition ERR_CRC :: int where "ERR_CRC = 20"
definition ERR_RANGE :: int where "ERR_RANGE = 2"

definition temperature_ds18b20_get :: "dbl list \<Rightarrow> nat \<Rightarrow> dbl option \<Rightarrow> int \<times> dbl option" where
  "temperature_ds18b20_get temps sensor var =
     (if sensor \<ge> length temps then (ERR_RANGE, var) else (ERR_OK, Some (temps ! sensor)))"

section \<open>Bit operations\<close>

definition stb_bitcount :: "32 word \<Rightarrow> 32 word" where
  "stb_bitcount a =
     (let a = (a AND 0x55555555) + (drop_bit 1 a AND 0x55555555);
          a = (a AND 0x33333333) + (drop_bit 2 a AND 0x33333333);
          a = (a + drop_bit 4 a) AND 0x0f0f0f0f;
          a = a + drop_bit 8 a;
          a = a + drop_bit 16 a
      in a AND 0xff)"

definition stb_bitreverse8 :: "8 word \<Rightarrow> 32 word" where
  "stb_bitreverse8 n =
     (let n = ucast ((drop_bit 1 (ucast n AND (0xAA :: 32 word))) + push_bit 1 (ucast n AND (0x55 :: 32 word))) :: 8 word;
          n = ucast ((drop_bit 2 (ucast n AND (0xCC :: 32 word))) + push_bit 2 (ucast n AND (0x33 :: 32 word))) :: 8 word
      in ucast (ucast (drop_bit 4 (ucast n :: 32 word) + push_bit 4 (ucast n :: 32 word)) :: 8 word))"

definition stb_bitreverse :: "32 word \<Rightarrow> 32 word" where
  "stb_bitreverse n =
     (let n = drop_bit 1 (n AND 0xAAAAAAAA) OR push_bit 1 (n AND 0x55555555);
          n = drop_bit 2 (n AND 0xCCCCCCCC) OR push_bit 2 (n AND 0x33333333);
          n = drop_bit 4 (n AND 0xF0F0F0F0) OR push_bit 4 (n AND 0x0F0F0F0F);
          n = drop_bit 8 (n AND 0xFF00FF00) OR push_bit 8 (n AND 0x00FF00FF)
      in drop_bit 16 n OR push_bit 16 n)"

definition stb_is_pow2 :: "32 word \<Rightarrow> bool" where
  "stb_is_pow2 n \<longleftrightarrow> n AND (n - 1) = 0"

section \<open>Printing a number with decimals\<close>

definition dbl_mul :: "dbl \<Rightarrow> dbl \<Rightarrow> dbl" where
  "dbl_mul x y =
     (case (x, y) of
        (Fin s m e, Fin s' m' e') \<Rightarrow>
          (case (dbl_frac m e, dbl_frac m' e') of
             ((n, d), (n', d')) \<Rightarrow> dbl_round (s \<noteq> s') (n * n') (d * d'))
      | _ \<Rightarrow> NaN)"

text \<open>
  The buffer is what it holds after the call and the number of bytes that were written, which
  may be more than it has. The size the first \<open>snprintf\<close> yields is cut to a byte.
\<close>

definition snprint_double :: "int \<Rightarrow> dbl \<Rightarrow> nat \<Rightarrow> (string \<times> int) res" where
  "snprint_double buf_len v decimals =
     (let i = i32 (10 ^ decimals); cast = dbl_to_int (- 2147483648) 2147483647
      in res_bind (cast v) (\<lambda>int_part.
         res_bind (cast (dbl_mul (dbl_sub v (dbl_of_int int_part)) (dbl_of_int i))) (\<lambda>f.
           let fract_part = (if f < 0 then i32 (f * - 1) else f);
               line = show_int int_part @ ''.'' @ show_int fract_part;
               len = int (length line) mod 256
           in if len > buf_len then Inr (replicate (nat buf_len) (CHR ''#'') @ [NUL], buf_len)
              else Inr (line @ [NUL], len))))"

end
