(* ===== verification/SensorProperties.thy ===== *)
theory SensorProperties imports Sensors begin

text \<open>What the waits and the averaged temperature compute, wrap-around included.\<close>

section \<open>Waiting\<close>

lemma wait_cycles_returns_iff:
  "(\<exists>n. wait_cycles cyc cycles = Some n) \<longleftrightarrow> (\<exists>k. u32 (cycles + cyc 0) \<le> cyc (Suc k))"
  unfolding wait_cycles_def Let_def wait_while_terminates_iff by (simp add: not_less)

text \<open>A wait on a counter that starts at \<open>c\<close> and has advanced by \<open>e k\<close> at its \<open>k\<close>-th read:
  as long as the end of the wait is below the wrap-around of the counter, the wait returns no
  earlier than after its number of cycles, and returns if a poll ever sees the end; otherwise
  it does not wait at all, since the first poll already is past the wrapped end.\<close>

theorem wait_cycles_waits:
  assumes "\<And>k. cyc k = u32 (c + e k)" "e 0 = 0" "\<And>k. 0 \<le> e k"
    and "0 \<le> c" "c + e 1 < 4294967296" "0 \<le> cycles" "cycles < 4294967296"
  shows "if c + cycles < 4294967296
     then (\<forall>n. wait_cycles cyc cycles = Some n \<longrightarrow> cycles \<le> e (n - 1)) \<and>
          (\<forall>k. cycles \<le> e (Suc k) \<and> c + e (Suc k) < 4294967296 \<longrightarrow> (\<exists>n. wait_cycles cyc cycles = Some n))
     else wait_cycles cyc cycles = Some 2"
proof (cases "c + cycles < 4294967296")
  case True
  then have fin: "u32 (cycles + cyc 0) = c + cycles"
    using assms(1,2,4,6) by (simp add: u32_id add.commute)
  have "cycles \<le> e (n - 1)" if "wait_cycles cyc cycles = Some n" for n
  proof (rule ccontr)
    assume early: "\<not> cycles \<le> e (n - 1)"
    have "\<not> cyc (n - 1) < c + cycles"
      using wait_while_busy_prefix [OF that [unfolded wait_cycles_def Let_def fin]] by simp
    moreover have "cyc (n - 1) = c + e (n - 1)"
      using assms(1,3,4) early True by (simp add: u32_id)
    ultimately show False using early by simp
  qed
  moreover have "\<exists>n. wait_cycles cyc cycles = Some n"
    if "cycles \<le> e (Suc k)" "c + e (Suc k) < 4294967296" for k
    unfolding wait_cycles_returns_iff fin
    using that assms(1,3,4) by (intro exI [of _ k]) (simp add: u32_id)
  ultimately show ?thesis using True by (simp only: if_True) blast
next
  case False
  have "cyc 0 = c" using assms(1,2,4,5) assms(3) [of 1] by (simp add: u32_id)
  then have "u32 (cycles + cyc 0) \<le> c"
    using False assms(4-7) assms(3) [of 1] mod_pos_pos_trivial [of "cycles + c - 4294967296" 4294967296]
    by (simp add: u32_def)
  moreover have "c \<le> cyc 1"
    using assms(1,4,5) assms(3) [of 1] by (simp add: u32_id)
  ultimately have "\<not> cyc 1 < u32 (cycles + cyc 0)" by simp
  then show ?thesis using False by (simp add: wait_cycles_def wait_while_done)
qed

theorem wait_cycles_waits_witness:
  "wait_cycles (\<lambda>k. u32 (4294967290 + 2 * int k)) 100 = Some 2"
  using wait_cycles_waits [of "\<lambda>k. u32 (4294967290 + 2 * int k)" 4294967290 "\<lambda>k. 2 * int k" 100] by simp

section \<open>The averaged temperature\<close>

text \<open>Successive reads when the converter always answers.\<close>

fun temperature_reads :: "int list \<Rightarrow> adc_average \<Rightarrow> (int list \<times> adc_average) res option" where
  "temperature_reads [] a = Some (Inr ([], a))"
| "temperature_reads (x # xs) a =
     Option.bind (temperature_read (\<lambda>_. False) x a) (\<lambda>r. case r of
        Inl e \<Rightarrow> Some (Inl e)
      | Inr (t, a) \<Rightarrow> Option.bind (temperature_reads xs a) (\<lambda>r. case r of
            Inl e \<Rightarrow> Some (Inl e)
          | Inr (ts, a) \<Rightarrow> Some (Inr (t # ts, a))))"

lemma temperature_read_one:
  assumes "sample_index a < length (aTemperature a)"
  shows "temperature_read (\<lambda>_. False) x a =
    (let b = a\<lparr>aTemperature := (aTemperature a)[sample_index a := u16 x], sample_index := Suc (sample_index a)\<rparr>;
         b = (if sample_index b = TEMPERATURE_COUNT then
                b\<lparr>temperature := sum16 (take TEMPERATURE_COUNT (aTemperature b)) div int TEMPERATURE_COUNT, sample_index := 0\<rparr>
              else b)
     in Some (Inr (temperature b, b)))"
  using assms by (simp add: temperature_read_def wait_while_done Let_def)

lemma sum16_from: "fold (\<lambda>x s. u16 (s + x)) xs (u16 s) = u16 (s + sum_list xs)"
proof (induction xs arbitrary: s)
  case (Cons x xs)
  have "u16 (u16 s + x) = u16 (s + x)" by (simp add: u16_def mod_simps)
  with Cons.IH [of "s + x"] show ?case by (simp add: ac_simps)
qed simp

lemma sum16_mod: "sum16 xs = sum_list xs mod 65536"
  using sum16_from [of xs 0] by (simp add: sum16_def u16_def)

lemma temperature_reads_fill:
  assumes "length (aTemperature a) = TEMPERATURE_COUNT" "sample_index a + length xs = TEMPERATURE_COUNT"
    and "xs \<noteq> []" "list_all (\<lambda>x. 0 \<le> x \<and> x < 65536) xs"
  shows "\<exists>m. m = (sum_list (take (sample_index a) (aTemperature a)) + sum_list xs) mod 65536 div int TEMPERATURE_COUNT \<and>
    temperature_reads xs a =
      Some (Inr (replicate (length xs - 1) (temperature a) @ [m],
        \<lparr>temperature = m, aTemperature = take (sample_index a) (aTemperature a) @ xs, sample_index = 0\<rparr>))"
  using assms
proof (induction xs arbitrary: a)
  case (Cons x xs)
  let ?i = "sample_index a" and ?n = TEMPERATURE_COUNT
  let ?m = "(sum_list (take ?i (aTemperature a)) + sum_list (x # xs)) mod 65536 div int TEMPERATURE_COUNT"
  have i: "?i < length (aTemperature a)" using Cons.prems(1,2) by simp
  have x: "u16 x = x" using Cons.prems(4) by (simp add: u16_id)
  have upd: "take (Suc ?i) ((aTemperature a)[?i := x]) = take ?i (aTemperature a) @ [x]"
    using i by (simp add: take_Suc_conv_app_nth)
  show ?case
  proof (cases xs)
    case Nil
    then have last: "Suc ?i = ?n" using Cons.prems(2) by simp
    have "take ?n ((aTemperature a)[?i := x]) = take ?i (aTemperature a) @ [x]"
      "(aTemperature a)[?i := x] = take ?i (aTemperature a) @ [x]"
      using upd last Cons.prems(1) by simp_all
    then show ?thesis
      using Nil last x by (simp add: temperature_read_one [OF i] Let_def sum16_mod)
  next
    case (Cons y ys)
    define b where "b = a\<lparr>aTemperature := (aTemperature a)[?i := x], sample_index := Suc ?i\<rparr>"
    have step: "temperature_read (\<lambda>_. False) x a = Some (Inr (temperature a, b))"
      using Cons.prems(2) Cons x by (simp add: temperature_read_one [OF i] Let_def b_def)
    have rest: "temperature_reads xs b = Some (Inr (replicate (length xs - 1) (temperature a) @ [?m],
        \<lparr>temperature = ?m, aTemperature = take ?i (aTemperature a) @ x # xs, sample_index = 0\<rparr>))"
      using Cons.IH [of b] Cons.prems Cons upd by (simp add: b_def add.assoc del: temperature_reads.simps(2))
    have "replicate (length xs) (temperature a) = temperature a # replicate (length xs - 1) (temperature a)"
      using Cons by simp
    with rest show ?thesis by (simp add: step)
  qed
qed simp

lemma mean16:
  fixes s :: int
  assumes "0 \<le> s"
  shows "s mod 65536 div 200 = s div 200 \<longleftrightarrow> s < 65536"
proof (cases "s < 65536")
  case False
  then have "1 \<le> s div 65536" using zdiv_mono1 [of 65536 s 65536] by simp
  then have "s mod 65536 + 327 * 200 \<le> s" using mult_div_mod_eq [of 65536 s] by linarith
  then have "(s mod 65536 + 327 * 200) div 200 \<le> s div 200" by (intro zdiv_mono1) simp_all
  then have "s mod 65536 div 200 + 327 \<le> s div 200" by simp
  with False show ?thesis by simp
qed (use assms in simp)

text \<open>Over a round of 200 samples the reported temperature keeps its value until the last read,
  which reports the sum of the samples modulo 65536 divided by 200: the mean of the samples
  exactly when their sum is below 65536, as the sum is kept in 16 bits.\<close>

theorem temperature_is_the_mean_of_small_samples:
  assumes "length (aTemperature a) = 200" "sample_index a = 0" "length xs = 200"
    and "list_all (\<lambda>x. 0 \<le> x \<and> x < 65536) xs"
  shows "\<exists>m b. temperature_reads xs a = Some (Inr (replicate 199 (temperature a) @ [m], b)) \<and>
    aTemperature b = xs \<and> sample_index b = 0 \<and> temperature b = m \<and>
    m = sum_list xs mod 65536 div 200 \<and> (m = sum_list xs div 200 \<longleftrightarrow> sum_list xs < 65536)"
proof -
  have "0 \<le> sum_list xs" using assms(4) by (intro sum_list_nonneg) (simp add: list_all_iff)
  then have "sum_list xs mod 65536 div 200 = sum_list xs div 200 \<longleftrightarrow> sum_list xs < 65536" by (rule mean16)
  moreover have "xs \<noteq> []" using assms(3) by auto
  ultimately show ?thesis
    using temperature_reads_fill [of a xs] assms by (auto simp: TEMPERATURE_COUNT_def)
qed

theorem temperature_is_the_mean_of_small_samples_witness:
  "\<exists>b. temperature_reads (replicate 200 1000) \<lparr>temperature = 0, aTemperature = replicate 200 0, sample_index = 0\<rparr> =
     Some (Inr (replicate 199 0 @ [16], b))"
  using temperature_is_the_mean_of_small_samples
    [of "\<lparr>temperature = 0, aTemperature = replicate 200 0, sample_index = 0\<rparr>" "replicate 200 1000"]
  by (auto simp: list_all_iff sum_list_replicate)

section \<open>Printing\<close>

text \<open>
  The routine writes one byte more than the length it reports, and reports at most the length
  it is given: a buffer of that length is one byte too short when the number fills it.
\<close>

theorem snprint_double_needs_one_more_byte:
  "snprint_double buf_len v decimals = Inr (text_written, n) \<Longrightarrow> 0 \<le> buf_len \<Longrightarrow> buf_len < 256 \<Longrightarrow>
   n \<le> buf_len \<and> (int (length text_written) = n + 1 \<or> 256 \<le> length text_written)"
  by (auto simp: snprint_double_def Let_def res_bind_eq_Inr split: if_splits)

end
