(* ===== verification/NetCommands.thy ===== *)
theory NetCommands imports MotSystem JsonPaths begin

text \<open>
  The commands the network can give (nfc/src/net_commands.c). A command gets the value under
  "pars" of its request, or null, and yields the value to answer with, or null. Every answer is
  built in the heap that the log shares; a call of the JSON library whose result the code does
  not look at is a call whose status is dropped here.
\<close>

section \<open>State\<close>

text \<open>The motors with their board, the cells of the EEPROM and the last two temperatures.\<close>

record node =
  msys :: sys
  eeprom :: cells
  temperatures :: "dbl list"

text \<open>
  What the commands take from outside the repository: the timers' clock, the EEPROM's layout,
  the value of memory that is used before it is written, and the heap's statistics.
\<close>

record net_env =
  clk_rate :: "clk_mx \<Rightarrow> int"
  page_addr :: "nat \<Rightarrow> nat \<Rightarrow> nat"
  page_size :: nat
  padding :: "16 word"
  stack_junk :: "8 word list"
  free_heap :: "mem \<Rightarrow> int"
  min_free_heap :: "mem \<Rightarrow> int"

definition upd_brd :: "(board \<Rightarrow> board) \<Rightarrow> node \<Rightarrow> node" where
  "upd_brd f s = s\<lparr>msys := (msys s)\<lparr>brd := f (brd (msys s))\<rparr>\<rparr>"

definition node_heap :: "node \<Rightarrow> mem" where
  "node_heap s = heap (brd (msys s))"

definition on_heap :: "(mem \<Rightarrow> 'a \<times> mem) \<Rightarrow> node \<Rightarrow> 'a \<times> node" where
  "on_heap f s = (case f (node_heap s) of (x, m) \<Rightarrow> (x, upd_brd (\<lambda>b. b\<lparr>heap := m\<rparr>) s))"

definition node_log :: "debugLevels \<Rightarrow> string \<Rightarrow> string \<Rightarrow> node \<Rightarrow> node" where
  "node_log level func line s = upd_brd (lDebug level func line) s"

type_synonym cmd_function = "json option \<Rightarrow> node \<Rightarrow> (json option \<times> node) res"

section \<open>Building answers\<close>

definition wrap_object :: "jobject option \<Rightarrow> json option" where
  "wrap_object ob = map_option (\<lambda>(kvs, cap). JObject kvs cap) ob"

text \<open>\<open>f(json_value_get_object(ans), ...)\<close>, the status unused.\<close>

definition ans_set ::
    "(jobject option \<Rightarrow> mem \<Rightarrow> json_status \<times> jobject option \<times> mem) \<Rightarrow> json option \<times> mem \<Rightarrow> json option \<times> mem" where
  "ans_set f vm =
     (case f (json_value_get_object (fst vm)) (snd vm) of (st, ob, m) \<Rightarrow> (wrap_object ob, m))"

definition set_number :: "string \<Rightarrow> dbl \<Rightarrow> json option \<times> mem \<Rightarrow> json option \<times> mem" where
  "set_number key x = ans_set (\<lambda>ob m. json_object_set_number ob (Some key) x m)"

definition set_boolean :: "string \<Rightarrow> bool \<Rightarrow> json option \<times> mem \<Rightarrow> json option \<times> mem" where
  "set_boolean key x = ans_set (\<lambda>ob m. json_object_set_boolean ob (Some key) (if x then 1 else 0) m)"

definition answer_ack :: "bool \<Rightarrow> node \<Rightarrow> json option \<times> node" where
  "answer_ack x s = on_heap (\<lambda>m. set_boolean ''ACK'' x (json_value_init_object m)) s"

text \<open>The parameters, when they are an object.\<close>

definition pars_object :: "json option \<Rightarrow> jobject option" where
  "pars_object pars = json_value_get_object pars"

definition par_number :: "json option \<Rightarrow> string \<Rightarrow> dbl" where
  "par_number pars key = json_object_get_number (pars_object pars) (Some key)"

definition par_string :: "json option \<Rightarrow> string \<Rightarrow> string option" where
  "par_string pars key = map_option c_str (json_object_get_string (pars_object pars) (Some key))"

definition to_int :: "dbl \<Rightarrow> int res" where
  "to_int x = dbl_to_int (- 2147483648) 2147483647 x"

definition dbl_nonzero :: "dbl \<Rightarrow> bool" where
  "dbl_nonzero x = (case x of Fin s m e \<Rightarrow> m \<noteq> 0 | _ \<Rightarrow> True)"

section \<open>The commands\<close>

definition telemetria_cmd :: cmd_function where
  "telemetria_cmd pars s =
     (let e = enc (msys s)
      in Inr (on_heap (\<lambda>m.
           set_number ''cuentas Z'' (dbl_of_int (count_a e))
             (set_number ''cuentas B'' (dbl_of_int (count_b e))
               (set_number ''cuentas A'' (dbl_of_int (count_z e)) (json_value_init_object m)))) s))"

text \<open>\<open>MIN\<close> compares as \<open>double\<close>; what it yields is converted to \<open>int\<close>.\<close>

definition min_quantity :: "dbl \<Rightarrow> int \<Rightarrow> int res" where
  "min_quantity quantity waiting =
     (if dbl_less quantity (dbl_of_int waiting) then to_int quantity else Inr waiting)"

text \<open>Moving messages from the queue of the log into an array.\<close>

fun extract_messages :: "nat \<Rightarrow> json option \<Rightarrow> board \<Rightarrow> json option \<times> board" where
  "extract_messages 0 msg_array b = (msg_array, b)"
| "extract_messages (Suc n) msg_array b =
     (case debug_queue b of
        [] \<Rightarrow> extract_messages n msg_array b
      | dbg_msg # q \<Rightarrow>
          (case json_array_append_string (json_value_get_array msg_array) dbg_msg (heap b) of
             (st, ar, m) \<Rightarrow>
               extract_messages n (map_option (\<lambda>(xs, cap). JArray xs cap) ar)
                 (b\<lparr>debug_queue := q,
                    heap := (case dbg_msg of None \<Rightarrow> m | Some _ \<Rightarrow> vPortFree m)\<rparr>)))"

definition logs_cmd :: cmd_function where
  "logs_cmd pars s =
     (if pars \<noteq> None \<and> json_value_get_type pars = JSONObject then
        (let quantity = par_number pars ''quantity'';
             (ans, s) = on_heap json_value_init_object s;
             (msg_array, s) = on_heap json_value_init_array s;
             msgs_waiting = int (length (debug_queue (brd (msys s))))
         in res_bind (min_quantity quantity msgs_waiting) (\<lambda>extract.
              let (msg_array, b) = extract_messages (nat extract) msg_array (brd (msys s));
                  s = upd_brd (\<lambda>_. b) s
              in Inr (on_heap (\<lambda>m.
                   ans_set (\<lambda>ob m. json_object_set_value ob (Some ''DEBUG_MSGS'') False msg_array m)
                     (ans, m)) s)))
      else Inr (None, s))"

definition PROTOCOL_VERSION :: string where "PROTOCOL_VERSION = ''JSON_1.0''"

definition protocol_version_cmd :: cmd_function where
  "protocol_version_cmd pars s =
     Inr (on_heap (\<lambda>m.
       ans_set (\<lambda>ob m. json_object_set_string ob (Some ''Version'') (Some PROTOCOL_VERSION) m)
         (json_value_init_object m)) s)"

text \<open>Every integer but zero becomes \<open>true\<close>, also the -1 of a member that is missing.\<close>

definition par_enabled :: "json option \<Rightarrow> bool" where
  "par_enabled pars = (json_object_get_boolean (pars_object pars) (Some ''enabled'') \<noteq> 0)"

definition control_enable_cmd :: cmd_function where
  "control_enable_cmd pars s =
     (let enabled = par_enabled pars;
          s = upd_brd (relay_main_pwr enabled) s
      in Inr (answer_ack enabled s))"

definition stall_control_cmd :: cmd_function where
  "stall_control_cmd pars s =
     (let s = s\<lparr>msys := (msys s)\<lparr>stall_detection := par_enabled pars\<rparr>\<rparr>
      in Inr (answer_ack (stall_detection (msys s)) s))"

definition axis_closed_loop_cmd :: cmd_function where
  "axis_closed_loop_cmd pars s =
     (let s = node_log Info ''axis_closed_loop_cmd'' ''LLAMADA axis_closed_loop_cmd'' s
      in Inr (answer_ack True s))"

definition dir_par :: "string \<Rightarrow> mot_pap_direction" where
  "dir_par d = (if d = ''CW'' then MOT_PAP_DIRECTION_CW else MOT_PAP_DIRECTION_CCW)"

definition move_line :: "string \<Rightarrow> int \<Rightarrow> string" where
  "move_line d speed = ''AXIS_FREE_RUN DIR: '' @ d @ '', SPEED: '' @ show_int speed"

definition axis_free_run_cmd :: "net_env \<Rightarrow> cmd_function" where
  "axis_free_run_cmd env pars s =
     (if pars \<noteq> None \<and> json_value_get_type pars = JSONObject then
        (let d = par_string pars ''dir''; speed = par_number pars ''speed''
         in res_bind
              (case d of
                 Some d \<Rightarrow>
                   if dbl_nonzero speed then
                     res_bind (to_int speed) (\<lambda>n.
                     res_bind (mot_pap_move_free_run (clk_rate env) (motors (msys s) X_AXIS) (dir_par d)
                                 (u32 n) (brd (msys s))) (\<lambda>(me, b).
                       Inr (node_log Info ''axis_free_run_cmd'' (move_line d n)
                              (s\<lparr>msys := set_motor X_AXIS me b (msys s)\<rparr>))))
                   else Inr s
               | None \<Rightarrow> Inr s)
              (\<lambda>s. Inr (answer_ack True s)))
      else Inr (None, s))"

text \<open>
  The axis a letter names. \<open>*axis\<close> of a null pointer and the use of a pointer that no case has
  assigned are faults.
\<close>

definition axis_par :: "string option \<Rightarrow> axis res" where
  "axis_par axis =
     (case axis of
        None \<Rightarrow> Inl NullPointer
      | Some a \<Rightarrow>
          (let c = cur a
           in if c = CHR ''x'' \<or> c = CHR ''X'' then Inr X_AXIS
              else if c = CHR ''y'' \<or> c = CHR ''Y'' then Inr Y_AXIS
              else if c = CHR ''z'' \<or> c = CHR ''Z'' then Inr Z_AXIS
              else Inl Uninitialised))"

definition axis_free_run_steps_cmd :: "net_env \<Rightarrow> cmd_function" where
  "axis_free_run_steps_cmd env pars s =
     (if pars \<noteq> None \<and> json_value_get_type pars = JSONObject then
        (let axis = par_string pars ''axis''; d = par_string pars ''dir'';
             speed = par_number pars ''speed''; steps = par_number pars ''steps'';
             stime = par_number pars ''step_time'';
             divider = par_number pars ''step_amplitude_divider''
         in res_bind
              (case d of
                 Some d \<Rightarrow>
                   if dbl_nonzero speed then
                     res_bind (axis_par axis) (\<lambda>a.
                     res_bind (to_int speed) (\<lambda>n.
                     res_bind (to_int steps) (\<lambda>k.
                     res_bind (to_int stime) (\<lambda>t.
                     res_bind (to_int divider) (\<lambda>q.
                     res_bind (mot_pap_move_steps (clk_rate env) (motors (msys s) a) (dir_par d)
                                 (u32 n) (u32 k) (u32 t) (u32 q) (brd (msys s))) (\<lambda>(me, b).
                       Inr (node_log Info ''axis_free_run_steps_cmd'' (move_line d n)
                              (s\<lparr>msys := set_motor a me b (msys s)\<rparr>))))))))
                   else Inr s
               | None \<Rightarrow> Inr s)
              (\<lambda>s. Inr (answer_ack True s)))
      else Inr (None, s))"

definition axis_stop_cmd :: cmd_function where
  "axis_stop_cmd pars s =
     (case mot_pap_stop (motors (msys s) X_AXIS) (brd (msys s)) of (me, b) \<Rightarrow>
        Inr (answer_ack True (s\<lparr>msys := set_motor X_AXIS me b (msys s)\<rparr>)))"

section \<open>Network settings\<close>

text \<open>
  \<open>%hhu\<close> of \<open>sscanf\<close>: white space, an optional sign and decimal digits, converted as an
  unsigned long and cut to a byte.
\<close>

definition scan_hhu :: "string \<Rightarrow> (8 word \<times> string) option" where
  "scan_hhu s =
     (case take_sign (SKIP_WHITESPACES s) of (neg, r) \<Rightarrow>
        if \<not> isdigit (cur r) then None
        else
          (let v = min 4294967295 (digits_val 10 0 (map digit_val (takeWhile isdigit r)))
           in Some (word_of_int (signed neg v), dropWhile isdigit r)))"

text \<open>\<open>"%hhu.%hhu.%hhu.%hhu"\<close>: the bytes that are assigned before the first mismatch.\<close>

fun scan_dotted :: "nat \<Rightarrow> string \<Rightarrow> 8 word list" where
  "scan_dotted 0 s = []"
| "scan_dotted (Suc n) s =
     (case scan_hhu s of
        None \<Rightarrow> []
      | Some (b, r) \<Rightarrow> b # (if cur r = CHR ''.'' then scan_dotted n (tl r) else []))"

definition address_bytes :: "8 word list \<Rightarrow> string \<Rightarrow> 8 word list" where
  "address_bytes junk s = (let bs = scan_dotted 4 s in bs @ drop (length bs) junk)"

definition bytes_address :: "8 word list \<Rightarrow> 32 word" where
  "bytes_address bs = IP4_ADDR (ucast (bs ! 0)) (ucast (bs ! 1)) (ucast (bs ! 2)) (ucast (bs ! 3))"

text \<open>The local structure starts with what the stack holds: four bytes for each address.\<close>

definition received_settings :: "8 word list \<Rightarrow> string \<Rightarrow> string \<Rightarrow> string \<Rightarrow> int \<Rightarrow> settings" where
  "received_settings junk gw' ip nmask prt =
     \<lparr>gw = bytes_address (address_bytes (take 4 junk) gw'),
      ipaddr = bytes_address (address_bytes (take 4 (drop 4 junk)) ip),
      netmask = bytes_address (address_bytes (take 4 (drop 8 junk)) nmask),
      port = word_of_int prt\<rparr>"

definition save_and_restart :: "net_env \<Rightarrow> settings \<Rightarrow> node \<Rightarrow> node" where
  "save_and_restart env settings s =
     (case settings_save (page_addr env) (page_size env) (padding env) settings (eeprom s, brd (msys s)) of
        (cells, b) \<Rightarrow>
          (let s = upd_brd (\<lambda>_. b) (s\<lparr>eeprom := cells\<rparr>);
               s = node_log Info ''network_settings_cmd'' ''Settings saved. Restarting...'' s
           in upd_brd (emits [Chip_UART_SendBlocking [CHR 0x0A, CHR 0x0A],
                              Chip_RGU_TriggerReset RGU_CORE_RST]) s))"

definition network_settings_cmd :: "net_env \<Rightarrow> cmd_function" where
  "network_settings_cmd env pars s =
     (if pars \<noteq> None \<and> json_value_get_type pars = JSONObject then
        res_bind (dbl_to_int 0 65535 (par_number pars ''port'')) (\<lambda>prt.
          let s = (case (par_string pars ''gw'', par_string pars ''ipaddr'', par_string pars ''netmask'') of
                     (Some gw', Some ip, Some nmask) \<Rightarrow>
                       if prt \<noteq> 0 then
                         save_and_restart env (received_settings (stack_junk env) gw' ip nmask prt)
                           (node_log Info ''network_settings_cmd''
                              (''Received network settings: gw:'' @ gw' @ '', ipaddr:'' @ ip
                               @ '', netmask:'' @ nmask @ '', port:'' @ show_int prt) s)
                       else s
                   | _ \<Rightarrow> s)
          in Inr (answer_ack True s))
      else Inr (None, s))"

section \<open>Information\<close>

definition mem_info_cmd :: "net_env \<Rightarrow> cmd_function" where
  "mem_info_cmd env pars s =
     Inr (on_heap (\<lambda>m.
       (let r = set_number ''MEM_TOTAL'' (dbl_of_int (int configTOTAL_HEAP_SIZE)) (json_value_init_object m);
            r = set_number ''MEM_FREE'' (dbl_of_int (free_heap env (snd r))) r
        in set_number ''MEM_MIN_FREE'' (dbl_of_int (min_free_heap env (snd r))) r)) s)"

definition temperature_info_cmd :: cmd_function where
  "temperature_info_cmd pars s =
     res_bind (array_get (temperatures s) 0) (\<lambda>t1.
     res_bind (array_get (temperatures s) 1) (\<lambda>t2.
       Inr (on_heap (\<lambda>m.
         set_number ''TEMP2'' t2 (set_number ''TEMP1'' t1 (json_value_init_object m))) s)))"

section \<open>Dispatch\<close>

definition cmds_table :: "net_env \<Rightarrow> (string \<times> cmd_function) list" where
  "cmds_table env =
     [(''PROTOCOL_VERSION'', protocol_version_cmd),
      (''CONTROL_ENABLE'', control_enable_cmd),
      (''STALL_CONTROL'', stall_control_cmd),
      (''AXIS_STOP'', axis_stop_cmd),
      (''AXIS_FREE_RUN'', axis_free_run_cmd env),
      (''AXIS_FREE_RUN_STEPS'', axis_free_run_steps_cmd env),
      (''AXIS_CLOSED_LOOP'', axis_closed_loop_cmd),
      (''TELEMETRIA'', telemetria_cmd),
      (''LOGS'', logs_cmd),
      (''NETWORK_SETTINGS'', network_settings_cmd env),
      (''MEM_INFO'', mem_info_cmd env),
      (''TEMPERATURE_INFO'', temperature_info_cmd)]"

definition cmd_execute :: "net_env \<Rightarrow> string option \<Rightarrow> cmd_function" where
  "cmd_execute env cmd pars s =
     (case cmd of
        None \<Rightarrow> Inl NullPointer
      | Some cmd \<Rightarrow>
          (case List.find (\<lambda>entry. fst entry = cmd) (cmds_table env) of
             Some (_, cmd_function) \<Rightarrow> cmd_function pars s
           | None \<Rightarrow> Inr (None, node_log Error ''cmd_execute'' ''No matching command found'' s)))"

section \<open>The request\<close>

text \<open>The loop over the commands of a request; \<open>tx\<close> is the answer so far.\<close>

fun run_commands ::
    "net_env \<Rightarrow> json list \<Rightarrow> json option \<Rightarrow> node \<Rightarrow> (json option \<times> node) res" where
  "run_commands env [] tx s = Inr (tx, s)"
| "run_commands env (c # cs) tx s =
     (let command = json_value_get_object (Some c);
          command_name = map_option c_str (json_object_get_string command (Some ''command''));
          s = node_log Info ''json_wp''
                (''Command Found: '' @ (case command_name of None \<Rightarrow> ''(null)'' | Some n \<Rightarrow> n)) s;
          pars = json_object_get_value command (Some ''pars'')
      in res_bind (cmd_execute env command_name pars s) (\<lambda>(ans, s).
           case ans of
             None \<Rightarrow> run_commands env cs tx s
           | Some a \<Rightarrow>
               (case on_heap (\<lambda>m.
                   ans_set (\<lambda>ob m. json_object_set_value ob command_name False (Some a) m) (tx, m)) s of
                  (tx, s) \<Rightarrow> run_commands env cs tx s)))"

text \<open>
  What \<open>json_wp\<close> does with the parsed request \<open>rx\<close> and the empty answer \<open>tx\<close>: the length of
  the reply and its buffer, null when there is none.
\<close>

definition reply_to ::
    "net_env \<Rightarrow> json option \<Rightarrow> json option \<Rightarrow> node \<Rightarrow> ((nat \<times> string option) \<times> json option \<times> node) res" where
  "reply_to env rx tx s =
     (if json_value_get_type rx \<noteq> JSONObject then
        Inr ((0, None), tx, node_log Error ''json_wp'' ''Error json parse.'' s)
      else
        (let commands = json_object_get_array (json_value_get_object rx) (Some ''commands'')
         in res_bind (case commands of
                None \<Rightarrow> Inr (tx, s)
              | Some ar \<Rightarrow> run_commands env (fst ar) tx s) (\<lambda>(tx, s).
            res_bind (json_serialization_size True False tx) (\<lambda>buff_len.
              case on_heap (pvPortMalloc buff_len) s of
                (False, s) \<Rightarrow> Inr ((0, None), tx, node_log Error ''json_wp'' ''Out Of Memory'' s)
              | (True, s) \<Rightarrow>
                  res_bind (json_serialize_to_buffer True False tx buff_len buff_len) (\<lambda>(st, t).
                    Inr ((buff_len, Some t), tx, s))))))"

text \<open>
  \<open>rx_buff\<close> is the text received, up to its final zero. The parser always returns; \<open>None\<close> would
  say that it does not.
\<close>

definition json_wp :: "net_env \<Rightarrow> string \<Rightarrow> node \<Rightarrow> ((nat \<times> string option) \<times> node) res option" where
  "json_wp env rx_buff s =
     Option.bind (json_parse_string (Some rx_buff) (node_heap s)) (\<lambda>(rx, m).
       let s = upd_brd (\<lambda>b. b\<lparr>heap := m\<rparr>) s;
           (tx, s) = on_heap json_value_init_object s
       in Some (res_bind (reply_to env rx tx s) (\<lambda>(r, tx, s).
            Inr (r, upd_brd (\<lambda>b. b\<lparr>heap := json_value_free_opt tx (json_value_free_opt rx (heap b))\<rparr>) s))))"

end
