(* ===== verification/NetLemmas.thy ===== *)
theory NetLemmas imports NetCommands MotInvariants begin

text \<open>
  What every network command keeps: the invariant of the motor system, the balance of the heap
  and the form of the answers; then the same for a whole request.
\<close>

section \<open>The heap under the motors\<close>

text \<open>
  The blocks that are allocated beyond those of the log's queue; an allocator that refuses
  nothing stays one.
\<close>

definition own_blocks :: "board \<Rightarrow> int" where
  "own_blocks b = live (heap b) - queued_blocks b"

definition keeps_heap :: "board \<Rightarrow> board \<Rightarrow> bool" where
  "keeps_heap b b' \<longleftrightarrow> own_blocks b' = own_blocks b \<and> (generous (heap b) \<longrightarrow> generous (heap b'))"

lemma keeps_heap_refl [simp, intro]: "keeps_heap b b"
  by (simp add: keeps_heap_def)

lemma keeps_heap_trans [trans]: "keeps_heap a b \<Longrightarrow> keeps_heap b c \<Longrightarrow> keeps_heap a c"
  by (simp add: keeps_heap_def)

lemma generous_malloc [simp]: "generous (snd (pvPortMalloc n m)) = generous m"
  by (simp add: generous_def)

lemma lDebug_generous [simp]: "generous (heap (lDebug level func line b)) = generous (heap b)"
  by (auto simp: lDebug_def lDebug_net_def lDebug_uart_def Let_def make_message_def generous_def
      split: prod.splits option.splits bool.splits dest: pvPortMalloc_True pvPortMalloc_False)

lemma keeps_heap_lDebug [simp, intro]: "keeps_heap b (lDebug level func line b)"
  using lDebug_blocks by (simp add: keeps_heap_def own_blocks_def)

lemma keeps_heap_same: "heap b' = heap b \<Longrightarrow> debug_queue b' = debug_queue b \<Longrightarrow> keeps_heap b b'"
  by (simp add: keeps_heap_def own_blocks_def queued_blocks_def)

lemma keeps_heap_emit [simp, intro]:
  "keeps_heap b (emit c b)" "keeps_heap b (emits cs b)" "keeps_heap b (gpio_set_pin_state g v b)"
  "keeps_heap b (snd (mot_tmr_stop me b))" "keeps_heap b (snd (tmr_start t b))"
  "keeps_heap b (relay_main_pwr v b)" "keeps_heap b (vTaskDelay n b)"
  by (auto intro!: keeps_heap_same simp: gpio_set_pin_state_def mot_tmr_stop_def tmr_stop_def tmr_start_def
      relay_main_pwr_def vTaskDelay_def split_beta)

lemma keeps_heap_set_freq: "tmr_set_freq rate t f b = Inr (r, b') \<Longrightarrow> keeps_heap b b'"
  by (auto simp: tmr_set_freq_def Let_def udiv_def intro!: keeps_heap_same split: if_splits)

lemma keeps_heap_restart:
  assumes "mot_tmr_restart rate f me b = Inr (me', b')"
  shows "keeps_heap b b'"
proof -
  obtain me1 b1 where one: "mot_tmr_stop me b = (me1, b1)" by fastforce
  with assms obtain r b2 where two: "tmr_set_freq rate (tmr me1) (u32 f) b1 = Inr (r, b2)"
    and three: "b' = snd (tmr_start (tmr me1) b2)"
    by (auto simp: mot_tmr_restart_def res_bind_eq_Inr split_beta)
  have "keeps_heap b b1" using keeps_heap_emit(4) [of b me] one by simp
  also note keeps_heap_set_freq [OF two]
  finally show ?thesis using keeps_heap_emit(5) three keeps_heap_trans by blast
qed

lemma keeps_heap_begin: "keeps_heap b (snd (mot_pap_move_free_run_begin d me b))"
  by (auto simp: mot_pap_move_free_run_begin_def mot_pap_change_delay_def split_beta
      intro: keeps_heap_trans)

lemma steps_begin_free_run: "mot_pap_move_steps_begin d me b = mot_pap_move_free_run_begin d me b"
  by (simp add: mot_pap_move_steps_begin_def mot_pap_move_free_run_begin_def)

lemma keeps_heap_free_run_end:
  assumes "mot_pap_move_free_run_end rate d speed me b = Inr (me', b')"
  shows "keeps_heap b b'"
  using assms
  by (auto simp: mot_pap_move_free_run_end_def Let_def res_bind_eq_Inr
      dest!: keeps_heap_restart intro: keeps_heap_trans [OF keeps_heap_trans [OF keeps_heap_emit(3)]])

lemma keeps_heap_steps_end:
  assumes "mot_pap_move_steps_end rate d speed steps st dv me b = Inr (me', b')"
  shows "keeps_heap b b'"
  using assms
  by (auto simp: mot_pap_move_steps_end_def Let_def res_bind_eq_Inr
      dest!: keeps_heap_restart intro: keeps_heap_trans [OF keeps_heap_trans [OF keeps_heap_emit(3)]])

lemma keeps_heap_free_run:
  assumes "mot_pap_move_free_run rate me d speed b = Inr (me', b')"
  shows "keeps_heap b b'"
  using assms keeps_heap_begin [of b d me]
  by (auto simp: mot_pap_move_free_run_def split_beta dest: keeps_heap_free_run_end
      intro: keeps_heap_trans split: if_splits)

lemma keeps_heap_steps:
  assumes "mot_pap_move_steps rate me d speed steps st dv b = Inr (me', b')"
  shows "keeps_heap b b'"
  using assms keeps_heap_begin [of b d me]
  by (auto simp: mot_pap_move_steps_def steps_begin_free_run split_beta dest: keeps_heap_steps_end
      intro: keeps_heap_trans split: if_splits)

lemma keeps_heap_stop: "mot_pap_stop me b = (me', b') \<Longrightarrow> keeps_heap b b'"
  by (auto simp: mot_pap_stop_def split_beta intro: keeps_heap_trans)

section \<open>The invariant of the motors under whole commands\<close>

lemma free_run_whole_effect:
  assumes "mot_pap_move_free_run rate me d speed b = Inr (me', b')"
  shows "start_effect me b None me' b'"
proof (cases "mot_pap_free_run_speed_ok speed")
  case True
  obtain me1 b1 where beg: "mot_pap_move_free_run_begin d me b = (me1, b1)" by fastforce
  from free_run_begin_quiet [OF beg] assms True beg speed_ok_bounds [OF True] show ?thesis
    by (auto simp: mot_pap_move_free_run_def intro!: start_effect_end free_run_end_effect)
next
  case False
  with assms show ?thesis
    by (auto simp: mot_pap_move_free_run_def intro!: start_effect_quiet quiet_lDebug)
qed

lemma steps_whole_effect:
  assumes "mot_pap_move_steps rate me d speed steps st dv b = Inr (me', b')" "0 \<le> dv"
  shows "start_effect me b None me' b'"
proof (cases "mot_pap_free_run_speed_ok speed")
  case True
  obtain me1 b1 where beg: "mot_pap_move_steps_begin d me b = (me1, b1)" by fastforce
  from steps_begin_quiet [OF beg] assms True beg speed_ok_bounds [OF True] show ?thesis
    by (auto simp: mot_pap_move_steps_def intro!: start_effect_end steps_end_effect)
next
  case False
  with assms show ?thesis
    by (auto simp: mot_pap_move_steps_def intro!: start_effect_quiet quiet_lDebug)
qed

lemma sys_ok_whole:
  assumes "sys_ok s" "start_effect (motors s a) (brd s) None me b"
  shows "sys_ok (set_motor a me b s)"
proof -
  have mot: "motor_ok a (motors s a)" using assms(1) by (simp add: sys_ok_def)
  show ?thesis
  proof (rule sys_ok_set_motor_awake [OF assms(1)])
    show "motor_ok a me"
      using assms(2) moved_motor_ok [OF _ mot] mot by (simp add: start_effect_def motor_ok_def)
    show "queue_ok b"
      using assms queue_ok_same [of b "brd s"] by (simp add: start_effect_def sys_ok_def)
    show "dir_line (set_motor a me b s) a'" if "dir_line s a'" for a'
      using dir_kept_line [of s a me b a'] assms(2) mot that by (simp add: start_effect_def)
  qed
qed

lemma sys_ok_quiet_board:
  assumes "sys_ok s" "supervisor_queue b = supervisor_queue (brd s)" "touches {(5, 1)} (brd s) b"
  shows "sys_ok (s\<lparr>brd := b\<rparr>)"
  by (rule sys_ok_board [OF assms]) (simp_all add: dir_pin_def)

end
