(* ===== verification/NetAnswers.thy ===== *)
theory NetAnswers imports NetCommands begin

text \<open>
  The answers of the network commands: objects that are well formed, own the blocks that were
  taken for them, and are complete when the allocator refuses nothing.
\<close>

section \<open>Setting members\<close>

lemma generous_fold:
  "(\<And>f m. f \<in> set fs \<Longrightarrow> generous m \<Longrightarrow> generous (g f m)) \<Longrightarrow> generous m \<Longrightarrow> generous (fold g fs m)"
  by (induction fs arbitrary: m) auto

lemma generous_value_free: "generous m \<Longrightarrow> generous (json_value_free v m)"
proof (induction v arbitrary: m)
  case (JObject kvs cap)
  have "generous m \<Longrightarrow> generous (fold (\<lambda>(k, v) m. json_value_free v (vPortFree m)) kvs m)" for m
    by (rule generous_fold) (use JObject in \<open>fastforce simp: snds.simps\<close>)+
  then show ?case using JObject.prems
    by (simp add: json_object_free_with_def free_members_def fold_map o_def case_prod_unfold)
next
  case (JArray xs cap)
  have "generous m \<Longrightarrow> generous (fold json_value_free xs m)" for m
    by (rule generous_fold) (use JArray in auto)
  then show ?case using JArray.prems by (simp add: json_array_free_with_def fold_map o_def)
qed simp_all

lemma generous_value_free_opt: "generous m \<Longrightarrow> generous (json_value_free_opt v m)"
  by (simp add: json_value_free_opt_def generous_value_free split: option.splits)

text \<open>What \<open>json_object_set_value\<close> does to a well formed object.\<close>

lemma set_value_total:
  assumes "json_object_set_value (Some ob) (Some k) False (Some v) m = (st, ob', m')"
    and "json_ok (JObject (fst ob) (snd ob))" "json_ok v" "NUL \<notin> set k"
  shows "\<exists>ob1. ob' = Some ob1 \<and> json_ok (JObject (fst ob1) (snd ob1)) \<and>
    (generous m \<longrightarrow> generous m' \<and> st = JSONSuccess) \<and>
    (st = JSONSuccess \<longrightarrow> map_of (fst ob1) = (map_of (fst ob))(k \<mapsto> v)) \<and> (st = JSONFailure \<longrightarrow> fst ob1 = fst ob)"
proof -
  obtain kvs cap where ob: "ob = (kvs, cap)" by fastforce
  show ?thesis
  proof (cases "map_of kvs k")
    case None
    obtain ob1 where add: "json_object_add (kvs, cap) k (Some v) m = (st, ob1, m')" and ob1: "ob' = Some ob1"
      using assms(1) ob None by (auto simp: set_value_new json_object_add_def split: prod.splits)
    define d where "d = depth (JObject kvs cap) + depth v"
    have "obj_ok d (kvs, cap)" using assms(2) ob by (simp add: obj_ok_def d_def)
    from object_add_ok [OF add this assms(3) _ assms(4)] have "json_ok (JObject (fst ob1) (snd ob1))"
      by (simp add: d_def obj_ok_def)
    moreover have "generous m \<longrightarrow> generous m' \<and> st = JSONSuccess"
      using generous_object_add [OF _ add] None by (simp add: getn_map_of)
    moreover have "(st = JSONSuccess \<longrightarrow> map_of (fst ob1) = (map_of kvs)(k \<mapsto> v)) \<and> (st = JSONFailure \<longrightarrow> fst ob1 = kvs)"
      using addn_effect [of "(kvs, cap)" k "length k" "Some v" m] add None
      by (auto simp: json_object_add_def map_add_def fun_eq_iff split: option.split)
    ultimately show ?thesis using ob1 ob by simp
  next
    case (Some old)
    then obtain i where i: "index_of k kvs = Some i" by (rule index_of_found)
    with assms(1) ob have out: "st = JSONSuccess" "ob' = Some (kvs[i := (k, v)], cap)"
      "m' = json_value_free (snd (kvs ! i)) m"
      by (simp_all add: set_value_old)
    note at = index_of_Some [OF i]
    have "map fst (kvs[i := (k, v)]) = map fst kvs" using at by (simp add: map_update list_update_same_conv)
    then have "json_ok (JObject (kvs[i := (k, v)]) cap)"
      using assms(2-4) ob set_update_subset_insert [of kvs i "(k, v)"]
      by (auto simp: json_ok_object names_ok_def names_def)
    with out map_of_update [OF i] ob generous_value_free show ?thesis by simp
  qed
qed

section \<open>Objects under construction\<close>

definition is_object :: "json \<Rightarrow> bool" where
  "is_object v \<longleftrightarrow> json_ok v \<and> json_value_get_type (Some v) = JSONObject"

lemma is_object_cases: "is_object v \<longleftrightarrow> (\<exists>kvs cap. v = JObject kvs cap \<and> json_ok v)"
  by (cases v) (auto simp: is_object_def json_value_get_type_def)

text \<open>
  \<open>built m (v, m')\<close>: since \<open>m\<close> exactly the blocks of \<open>v\<close> were taken, \<open>v\<close> is an object, or
  null when the allocator refused it.
\<close>

definition built :: "mem \<Rightarrow> json option \<times> mem \<Rightarrow> bool" where
  "built m vm \<longleftrightarrow> live (snd vm) = live m + opt_blocks (fst vm) \<and>
     (generous m \<longrightarrow> generous (snd vm) \<and> fst vm \<noteq> None) \<and> (\<forall>v. fst vm = Some v \<longrightarrow> is_object v)"

lemma built_init [simp, intro]: "built m (json_value_init_object m)"
proof -
  obtain v m' where i: "json_value_init_object m = (v, m')" by fastforce
  from live_init(1) [OF i] generous_init(2) [OF _ i] init_object_ok(1) [of m _ m'] i show ?thesis
    by (cases v) (auto simp: built_def is_object_cases json_ok_object names_ok_def names_def)
qed

text \<open>A value that was made to become a member.\<close>

definition member_made :: "mem \<Rightarrow> json option \<times> mem \<Rightarrow> bool" where
  "member_made m made \<longleftrightarrow> made_ok m made \<and> (generous m \<longrightarrow> generous (snd made)) \<and>
     (\<forall>v. fst made = Some v \<longrightarrow> json_ok v)"

lemma set_value_none:
  "json_object_set_value ob nm False None m = (JSONFailure, ob, m)"
  "json_object_set_value None nm False v m = (JSONFailure, None, m)"
  by (auto simp: json_object_set_value_def split: option.splits)

lemma built_set_new:
  assumes "built m0 (v, m)" "member_made m made" "NUL \<notin> set key"
  shows "built m0 (case set_new (json_value_get_object v) (Some key) made of (st, ob, m) \<Rightarrow> (wrap_object ob, m))"
proof -
  obtain w m1 where made: "made = (w, m1)" by fastforce
  note w = assms(2) [unfolded member_made_def made_ok_def made fst_conv snd_conv]
  note b = assms(1) [unfolded built_def fst_conv snd_conv]
  show ?thesis
  proof (cases v)
    case None
    then show ?thesis
      using w b made
      by (auto simp: built_def set_new_def json_value_get_object_def set_value_none wrap_object_def opt_blocks_def
          generous_value_free_opt)
  next
    case (Some u)
    then obtain kvs cap where u: "v = Some (JObject kvs cap)" "json_ok (JObject kvs cap)"
      using b by (auto simp: is_object_cases)
    show ?thesis
    proof (cases w)
      case None
      with w b made u show ?thesis
        by (auto simp: built_def set_new_def json_value_get_object_def set_value_none wrap_object_def
            json_value_free_opt_def opt_blocks_def)
    next
      case (Some x)
      obtain st ob m2 where set: "json_object_set_value (Some (kvs, cap)) (Some key) False (Some x) m1 = (st, ob, m2)"
        by (cases "json_object_set_value (Some (kvs, cap)) (Some key) False (Some x) m1")
      have "json_ok x" using w Some by simp
      from set_value_total [OF set _ this assms(3)] u(2) obtain ob1 where
        ob1: "ob = Some ob1" "json_ok (JObject (fst ob1) (snd ob1))" "generous m1 \<longrightarrow> generous m2"
        by auto
      have bl: "live m2 - obj_blocks ob1 = live m1 - obj_blocks (kvs, cap) - handed st (Some x)"
        using set_value_effect [OF set] ob1(1) by auto
      have "opt_blocks (Some (JObject kvs cap)) = obj_blocks (kvs, cap)"
        "opt_blocks (wrap_object (Some ob1)) = obj_blocks ob1"
        by (simp_all only: opt_blocks_def obj_blocks_def option.case wrap_object_def split_beta option.map fst_conv snd_conv)
      with bl w b u made Some set ob1 show ?thesis
        by (cases st; cases ob1)
          (auto simp: built_def set_new_def json_value_get_object_def wrap_object_def handed_def opt_blocks_def
            is_object_cases generous_value_free_opt json_value_free_opt_def generous_value_free)
    qed
  qed
qed

lemma built_trans: "built m0 vm \<Longrightarrow> built (snd vm) vm' \<Longrightarrow> fst vm = None \<Longrightarrow> built m0 vm'"
  by (auto simp: built_def opt_blocks_def)

end
