(* ===== verification/NetEffects.thy ===== *)
theory NetEffects imports NetLemmas NetAnswers begin

text \<open>
  What each command does to the whole node, and what a request does, which is a list of
  commands between a parse and a reply.
\<close>

section \<open>Building answers\<close>

text \<open>A number that is a \<open>double\<close>, or one the library does not accept.\<close>

definition dbl_fits :: "dbl \<Rightarrow> bool" where
  "dbl_fits x \<longleftrightarrow> IS_NUMBER_INVALID x \<or> dbl_ok x"

lemma dbl_fits_of_int [simp]: "dbl_fits (dbl_of_int x)"
  unfolding dbl_fits_def dbl_of_int_def using dbl_round_ok [of "abs x" 1 "x < 0"] by auto

lemma member_number: "dbl_fits x \<Longrightarrow> IS_NUMBER_INVALID x \<or> True \<Longrightarrow> member_made m (json_value_init_number x m)"
  by (auto simp: member_made_def json_value_init_number_def dbl_fits_def generous_def split: bool.splits prod.splits
      dest: pvPortMalloc_True pvPortMalloc_False)
    (auto simp: made_ok_def opt_blocks_def pvPortMalloc_def split: if_splits)

lemma member_boolean: "member_made m (json_value_init_boolean b m)"
  by (auto simp: member_made_def json_value_init_boolean_def generous_def made_ok_def opt_blocks_def pvPortMalloc_def)

lemma member_string: "member_made m (json_value_init_string s m)"
proof -
  have "json_ok v" if "fst (json_value_init_string s m) = Some v" for v
    using that by (auto simp: json_value_init_string_def json_value_init_string_with_len_def
        json_value_init_string_no_copy_def split: option.splits if_splits prod.splits bool.splits)
  moreover have "generous m \<Longrightarrow> generous (snd (json_value_init_string s m))"
    by (auto simp: json_value_init_string_def json_value_init_string_with_len_def generous_def
        json_value_init_string_no_copy_def parson_strndup_def pvPortMalloc_def split: option.splits)
  ultimately show ?thesis by (simp add: member_made_def)
qed

lemma built_number: "built m0 vm \<Longrightarrow> dbl_fits x \<Longrightarrow> NUL \<notin> set key \<Longrightarrow> built m0 (set_number key x vm)"
  using built_set_new [of m0 "fst vm" "snd vm" "json_value_init_number x (snd vm)" key] member_number
  by (simp add: set_number_def ans_set_def json_object_set_number_def)

lemma built_boolean: "built m0 vm \<Longrightarrow> NUL \<notin> set key \<Longrightarrow> built m0 (set_boolean key x vm)"
  using built_set_new [of m0 "fst vm" "snd vm" "json_value_init_boolean (if x then 1 else 0) (snd vm)" key] member_boolean
  by (simp add: set_boolean_def ans_set_def json_object_set_boolean_def)

lemma built_string:
  "built m0 vm \<Longrightarrow> NUL \<notin> set key \<Longrightarrow>
   built m0 (ans_set (\<lambda>ob m. json_object_set_string ob (Some key) s m) vm)"
  using built_set_new [of m0 "fst vm" "snd vm" "json_value_init_string s (snd vm)" key] member_string
  by (simp add: ans_set_def json_object_set_string_def)

section \<open>Effects on the node\<close>

definition node_blocks :: "node \<Rightarrow> int" where
  "node_blocks s = own_blocks (brd (msys s))"

definition same_rest :: "node \<Rightarrow> node \<Rightarrow> bool" where
  "same_rest s s' \<longleftrightarrow> (sys_ok (msys s) \<longrightarrow> sys_ok (msys s')) \<and> sleeping (msys s') = sleeping (msys s) \<and>
     temperatures s' = temperatures s \<and> (generous (node_heap s) \<longrightarrow> generous (node_heap s'))"

definition cmd_effect :: "node \<Rightarrow> json option \<times> node \<Rightarrow> bool" where
  "cmd_effect s r \<longleftrightarrow> same_rest s (snd r) \<and>
     node_blocks s + opt_blocks (fst r) \<le> node_blocks (snd r) \<and>
     (generous (node_heap s) \<longrightarrow> node_blocks (snd r) = node_blocks s + opt_blocks (fst r)) \<and>
     (\<forall>v. fst r = Some v \<longrightarrow> is_object v)"

lemma same_rest_refl [simp, intro]: "same_rest s s"
  by (simp add: same_rest_def)

lemma same_rest_trans [trans]: "same_rest s s' \<Longrightarrow> same_rest s' s'' \<Longrightarrow> same_rest s s''"
  by (simp add: same_rest_def)

lemma cmd_effect_none [simp, intro]: "cmd_effect s (None, s)"
  by (simp add: cmd_effect_def opt_blocks_def)

lemma cmd_effect_then: "cmd_effect s (None, s') \<Longrightarrow> cmd_effect s' r \<Longrightarrow> cmd_effect s r"
  by (auto simp: cmd_effect_def opt_blocks_def intro: same_rest_trans) (auto simp: same_rest_def)

text \<open>A change of the board that keeps the motors and the balance.\<close>

lemma board_effect:
  assumes "keeps_heap (brd (msys s)) (f (brd (msys s)))"
    and "supervisor_queue (f (brd (msys s))) = supervisor_queue (brd (msys s))"
    and "touches {(5, 1)} (brd (msys s)) (f (brd (msys s)))"
  shows "cmd_effect s (None, upd_brd f s)"
  using assms sys_ok_quiet_board [of "msys s"]
  by (auto simp: cmd_effect_def same_rest_def upd_brd_def node_heap_def node_blocks_def keeps_heap_def opt_blocks_def)

lemma log_effect [simp, intro]: "cmd_effect s (None, node_log level func line s)"
  unfolding node_log_def by (rule board_effect) simp_all

lemma power_effect: "cmd_effect s (None, upd_brd (relay_main_pwr v) s)"
  using touches_relay_main_pwr [of "brd (msys s)" v] by (intro board_effect) simp_all

lemma heap_effect:
  assumes "built (node_heap s) (f (node_heap s))"
  shows "cmd_effect s (on_heap f s)"
proof -
  obtain v m where f: "f (node_heap s) = (v, m)" by fastforce
  have "sys_ok (msys s) \<longrightarrow> sys_ok ((msys s)\<lparr>brd := (brd (msys s))\<lparr>heap := m\<rparr>\<rparr>)"
    using sys_ok_quiet_board [of "msys s" "(brd (msys s))\<lparr>heap := m\<rparr>"] touches_same_trace by simp
  with assms f show ?thesis
    by (auto simp: cmd_effect_def same_rest_def on_heap_def upd_brd_def node_heap_def node_blocks_def
        own_blocks_def queued_blocks_def built_def)
qed

lemma ack_effect [simp, intro]: "cmd_effect s (answer_ack x s)"
  unfolding answer_ack_def by (rule heap_effect) (simp add: built_boolean)

lemma motor_effect:
  assumes "start_effect (motors (msys s) a) (brd (msys s)) None me b" "keeps_heap (brd (msys s)) b"
  shows "cmd_effect s (None, s\<lparr>msys := set_motor a me b (msys s)\<rparr>)"
  using assms sys_ok_whole [of "msys s" a me b]
  by (auto simp: cmd_effect_def same_rest_def node_heap_def node_blocks_def keeps_heap_def opt_blocks_def)

section \<open>The commands\<close>

lemma telemetria_effect: "telemetria_cmd pars s = Inr r \<Longrightarrow> cmd_effect s r"
  by (auto simp: telemetria_cmd_def Let_def intro!: heap_effect built_number)

lemma protocol_version_effect: "protocol_version_cmd pars s = Inr r \<Longrightarrow> cmd_effect s r"
  by (auto simp: protocol_version_cmd_def intro!: heap_effect built_string)

lemma control_enable_effect: "control_enable_cmd pars s = Inr r \<Longrightarrow> cmd_effect s r"
  using cmd_effect_then [OF power_effect [of s "par_enabled pars"] ack_effect [of _ "par_enabled pars"]]
  by (auto simp only: control_enable_cmd_def Let_def sum.inject)

lemma stall_control_effect: "stall_control_cmd pars s = Inr r \<Longrightarrow> cmd_effect s r"
proof -
  assume r: "stall_control_cmd pars s = Inr r"
  have "sys_ok (t\<lparr>stall_detection := v\<rparr>) = sys_ok t" for t v by (simp add: sys_ok_def dir_line_def)
  then have "cmd_effect s (None, s\<lparr>msys := (msys s)\<lparr>stall_detection := v\<rparr>\<rparr>)" for v
    by (simp add: cmd_effect_def same_rest_def node_heap_def node_blocks_def opt_blocks_def)
  moreover have "r = answer_ack (par_enabled pars) (s\<lparr>msys := (msys s)\<lparr>stall_detection := par_enabled pars\<rparr>\<rparr>)"
    using r by (simp add: stall_control_cmd_def Let_def)
  ultimately show ?thesis using cmd_effect_then [OF _ ack_effect] by blast
qed

lemma closed_loop_effect: "axis_closed_loop_cmd pars s = Inr r \<Longrightarrow> cmd_effect s r"
  using cmd_effect_then [OF log_effect ack_effect]
  by (auto simp only: axis_closed_loop_cmd_def Let_def sum.inject)

lemma answered_effect:
  assumes "res_bind q (\<lambda>s. Inr (answer_ack True s)) = Inr r"
    and "\<And>s'. q = Inr s' \<Longrightarrow> cmd_effect s (None, s')"
  shows "cmd_effect s r"
  using assms cmd_effect_then [OF _ ack_effect] by (fastforce simp: res_bind_eq_Inr)

lemma moved_log_effect:
  assumes "start_effect (motors (msys s) a) (brd (msys s)) None me b" "keeps_heap (brd (msys s)) b"
  shows "cmd_effect s (None, node_log level func line (s\<lparr>msys := set_motor a me b (msys s)\<rparr>))"
  by (rule cmd_effect_then [OF motor_effect [OF assms] log_effect])

lemma free_run_effect:
  assumes "axis_free_run_cmd env pars s = Inr r"
  shows "cmd_effect s r"
proof (cases "pars \<noteq> None \<and> json_value_get_type pars = JSONObject")
  case True
  show ?thesis
    by (rule answered_effect [OF assms [unfolded axis_free_run_cmd_def Let_def if_P [OF True]]])
      (auto simp: res_bind_eq_Inr split: option.splits if_splits
        intro!: moved_log_effect dest: free_run_whole_effect keeps_heap_free_run)
next
  case False
  with assms show ?thesis by (auto simp: axis_free_run_cmd_def)
qed

lemma u32_nonneg: "0 \<le> u32 x"
  by (simp add: u32_def)

lemma free_run_steps_effect:
  assumes "axis_free_run_steps_cmd env pars s = Inr r"
  shows "cmd_effect s r"
proof (cases "pars \<noteq> None \<and> json_value_get_type pars = JSONObject")
  case True
  show ?thesis
    by (rule answered_effect [OF assms [unfolded axis_free_run_steps_cmd_def Let_def if_P [OF True]]])
      (auto simp: res_bind_eq_Inr split: option.splits if_splits
        intro!: moved_log_effect dest: steps_whole_effect [OF _ u32_nonneg] keeps_heap_steps)
next
  case False
  with assms show ?thesis by (auto simp: axis_free_run_steps_cmd_def)
qed

lemma stop_effect: "axis_stop_cmd pars s = Inr r \<Longrightarrow> cmd_effect s r"
proof -
  assume r: "axis_stop_cmd pars s = Inr r"
  obtain me b where stop: "mot_pap_stop (motors (msys s) X_AXIS) (brd (msys s)) = (me, b)" by fastforce
  have "start_effect (motors (msys s) X_AXIS) (brd (msys s)) None me b"
    by (rule start_effect_halt [where rate = "\<lambda>_. 0"]) (simp add: stop)
  note cmd_effect_then [OF motor_effect [OF this keeps_heap_stop [OF stop]] ack_effect]
  moreover have "r = answer_ack True (s\<lparr>msys := set_motor X_AXIS me b (msys s)\<rparr>)"
    using r stop by (simp add: axis_stop_cmd_def)
  ultimately show ?thesis by blast
qed

lemma settings_save_board:
  "keeps_heap (snd mb) (snd (settings_save addr pgsz pad t mb)) \<and>
   supervisor_queue (snd (settings_save addr pgsz pad t mb)) = supervisor_queue (snd mb) \<and>
   touches {} (snd mb) (snd (settings_save addr pgsz pad t mb))"
  by (auto simp: settings_save_def Let_def EEPROM_Erase_def EEPROM_Write_def
      intro!: keeps_heap_trans [OF _ keeps_heap_emit(1)] keeps_heap_trans [OF _ keeps_heap_lDebug]
        touches_trans [OF _ touches_emit] touches_trans [OF _ touches_lDebug])

lemma save_effect:
  assumes "settings_save addr pgsz pad t (c, brd (msys s)) = (c', b)"
  shows "cmd_effect s (None, upd_brd (\<lambda>_. b) (s\<lparr>eeprom := c'\<rparr>))"
proof -
  have "cmd_effect (s\<lparr>eeprom := c'\<rparr>) (None, upd_brd (\<lambda>_. b) (s\<lparr>eeprom := c'\<rparr>))"
    using settings_save_board [of "(c, brd (msys s))" addr pgsz pad t] assms touches_mono [of "{}" _ b "{(5, 1)}"]
    by (intro board_effect) simp_all
  then show ?thesis by (simp add: cmd_effect_def same_rest_def node_heap_def node_blocks_def)
qed

lemma reset_effect: "cmd_effect s (None, upd_brd (emits [Chip_UART_SendBlocking t, Chip_RGU_TriggerReset c]) s)"
  by (rule board_effect) (simp_all add: touches_emits)

lemma save_and_restart_effect: "cmd_effect s (None, save_and_restart env t s)"
proof -
  obtain c b where sv: "settings_save (page_addr env) (page_size env) (padding env) t (eeprom s, brd (msys s)) = (c, b)"
    by fastforce
  show ?thesis
    unfolding save_and_restart_def sv prod.case Let_def
    by (rule cmd_effect_then [OF cmd_effect_then [OF save_effect [OF sv] log_effect] reset_effect])
qed

lemma network_settings_effect:
  assumes "network_settings_cmd env pars s = Inr r"
  shows "cmd_effect s r"
proof (cases "pars \<noteq> None \<and> json_value_get_type pars = JSONObject")
  case True
  with assms obtain prt where r: "r = answer_ack True
      (case (par_string pars ''gw'', par_string pars ''ipaddr'', par_string pars ''netmask'') of
         (Some gw', Some ip, Some nmask) \<Rightarrow>
           if prt \<noteq> 0 then
             save_and_restart env (received_settings (stack_junk env) gw' ip nmask prt)
               (node_log Info ''network_settings_cmd''
                  (''Received network settings: gw:'' @ gw' @ '', ipaddr:'' @ ip
                   @ '', netmask:'' @ nmask @ '', port:'' @ show_int prt) s)
           else s
       | _ \<Rightarrow> s)" (is "r = answer_ack True ?s")
    by (auto simp: network_settings_cmd_def Let_def res_bind_eq_Inr)
  have "cmd_effect s (None, ?s)"
    by (simp split: option.split) (intro allI impI cmd_effect_then [OF log_effect save_and_restart_effect])
  from cmd_effect_then [OF this ack_effect] r show ?thesis by simp
next
  case False
  with assms show ?thesis by (auto simp: network_settings_cmd_def)
qed

lemma mem_info_effect: "mem_info_cmd env pars s = Inr r \<Longrightarrow> cmd_effect s r"
  by (auto simp: mem_info_cmd_def Let_def intro!: heap_effect built_number)

lemma temperature_info_effect:
  "temperature_info_cmd pars s = Inr r \<Longrightarrow> list_all dbl_fits (temperatures s) \<Longrightarrow> cmd_effect s r"
  by (auto simp: temperature_info_cmd_def res_bind_eq_Inr array_get_def list_all_length split: if_splits
      intro!: heap_effect built_number)

end
