(* ===== verification/NetRequest.thy ===== *)
theory NetRequest imports NetEffects begin

text \<open>A whole request: the parse, the commands in their order, the reply.\<close>

section \<open>The parser and the allocator\<close>

lemma generous_add: "json_object_add ob key v m = (st, ob', m') \<Longrightarrow> generous m \<Longrightarrow> generous m'"
  by (auto simp: json_object_add_def json_object_addn_def json_object_resize_def parson_strndup_def
      pvPortMalloc_def generous_def free_ptr_def split: if_splits prod.splits option.splits bool.splits json_status.splits)

lemma generous_resize:
  "json_object_resize ob n m = (st, ob', m') \<Longrightarrow> generous m \<Longrightarrow> generous m'"
  "json_array_resize ar n m = (st, ar', m') \<Longrightarrow> generous m \<Longrightarrow> generous m'"
  by (auto simp: json_object_resize_def json_array_resize_def pvPortMalloc_def generous_def free_ptr_def
      split: if_splits prod.splits bool.splits)

lemma generous_quoted: "get_quoted_string s m = (r, s', m') \<Longrightarrow> generous m \<Longrightarrow> generous m'"
  by (auto simp: get_quoted_string_def process_string_def pvPortMalloc_def generous_def
      split: option.splits prod.splits if_splits bool.splits)

lemma generous_made:
  "json_value_init_object m = (v, m') \<Longrightarrow> generous m \<Longrightarrow> generous m'"
  "json_value_init_array m = (v, m') \<Longrightarrow> generous m \<Longrightarrow> generous m'"
  "json_value_init_number x m = (v, m') \<Longrightarrow> generous m \<Longrightarrow> generous m'"
  "json_value_init_boolean b m = (v, m') \<Longrightarrow> generous m \<Longrightarrow> generous m'"
  "json_value_init_null m = (v, m') \<Longrightarrow> generous m \<Longrightarrow> generous m'"
  "json_value_init_string_no_copy str m = (v, m') \<Longrightarrow> generous m \<Longrightarrow> generous m'"
  by (auto simp: generous_def json_value_init_array_def json_value_init_object_def json_value_init_number_def
      json_value_init_boolean_def json_value_init_null_def json_value_init_string_no_copy_def
      pvPortMalloc_def split: if_splits)

lemma generous_free_container:
  "generous m \<Longrightarrow> generous (free_object ob m)" "generous m \<Longrightarrow> generous (free_array ar m)"
  by (simp_all add: free_object_def free_array_def generous_value_free del: json_value_free.simps)

text \<open>A parse function that leaves a generous allocator generous.\<close>

definition keeps_generous :: "(string \<Rightarrow> mem \<Rightarrow> ('v \<times> string \<times> mem) option) \<Rightarrow> bool" where
  "keeps_generous pv \<longleftrightarrow> (\<forall>s m v s' m'. pv s m = Some (v, s', m') \<longrightarrow> generous m \<longrightarrow> generous m')"

lemma keeps_generous_members:
  assumes "keeps_generous pv"
  shows "parse_members pv fuel ob s m = Some (r, s', m') \<Longrightarrow> generous m \<Longrightarrow> generous m'"
proof (induction fuel arbitrary: ob s m)
  case (Suc fuel)
  obtain q s1 m1 where q: "get_quoted_string s m = (q, s1, m1)" by (cases "get_quoted_string s m")
  note g1 = generous_quoted [OF q Suc.prems(2)]
  show ?case
  proof (cases "cur s = NUL \<or> q = None \<or> (\<exists>key. q = Some key \<and> length key \<noteq> length (c_str key)) \<or>
      cur (SKIP_WHITESPACES s1) \<noteq> CHR '':''")
    case True
    with Suc.prems q g1 show ?thesis
      by (cases q) (auto simp: Let_def generous_free_container split: if_splits)
  next
    case False
    then obtain key where key: "q = Some key" "length key = length (c_str key)" by auto
    with Suc.prems(1) False q obtain v s2 m2 where v: "pv (tl (SKIP_WHITESPACES s1)) m1 = Some (v, s2, m2)"
      by (auto simp: Let_def bind_eq_Some_conv)
    have g2: "generous m2" using assms v g1 by (auto simp: keeps_generous_def)
    show ?thesis
    proof (cases v)
      case None
      with Suc.prems(1) False q key v g2 show ?thesis by (auto simp: Let_def generous_free_container)
    next
      case (Some w)
      obtain st ob1 m3 where add: "json_object_add ob key (Some w) m2 = (st, ob1, m3)"
        by (cases "json_object_add ob key (Some w) m2")
      note g3 = generous_add [OF add g2]
      show ?thesis
        using Suc.prems(1) False q key v Some add g3 Suc.IH [of ob1 _ "vPortFree m3"]
        by (cases st) (auto simp: Let_def generous_free_container generous_value_free split: if_splits)
    qed
  qed
qed simp

lemma keeps_generous_items:
  assumes "keeps_generous pv"
  shows "parse_items pv fuel ar s m = Some (r, s', m') \<Longrightarrow> generous m \<Longrightarrow> generous m'"
proof (induction fuel arbitrary: ar s m)
  case (Suc fuel)
  show ?case
  proof (cases "cur s = NUL")
    case True
    with Suc.prems show ?thesis by simp
  next
    case False
    with Suc.prems(1) obtain v s2 m2 where v: "pv s m = Some (v, s2, m2)"
      by (auto simp: bind_eq_Some_conv)
    have g2: "generous m2" using assms v Suc.prems(2) by (auto simp: keeps_generous_def)
    show ?thesis
    proof (cases v)
      case None
      with Suc.prems(1) False v g2 show ?thesis by (auto simp: generous_free_container)
    next
      case (Some w)
      obtain st ar1 m3 where add: "json_array_add ar w m2 = (st, ar1, m3)"
        by (cases "json_array_add ar w m2")
      have g3: "generous m3" using generous_array_add [OF g2 add] by simp
      show ?thesis
        using Suc.prems(1) False v Some add g3 Suc.IH [of ar1 _ m3]
        by (cases st) (auto simp: Let_def generous_free_container generous_value_free split: if_splits)
    qed
  qed
qed simp

lemma keeps_generous_object:
  assumes "keeps_generous pv"
  shows "keeps_generous (parse_object_value pv)"
  unfolding keeps_generous_def
proof (intro allI impI)
  fix s m v s' m'
  assume p: "parse_object_value pv s m = Some (v, s', m')" and g: "generous m"
  obtain n m1 where init: "json_value_init_object m = (n, m1)" by fastforce
  have g1: "generous m1" using init g by (rule generous_made)
  let ?s = "SKIP_WHITESPACES (tl s)"
  show "generous m'"
  proof (cases "n = None \<or> cur s \<noteq> CHR ''{'' \<or> cur ?s = CHR ''}''")
    case True
    with p init g1 show ?thesis
      by (cases n) (auto simp: parse_object_value_def Let_def generous_value_free split: if_splits)
  next
    case False
    then obtain w where "n = Some w" by auto
    with p init False obtain r s2 m2 where inner: "parse_members pv (Suc (length ?s)) ([], 0) ?s m1 = Some (r, s2, m2)"
      and out: "(case r of None \<Rightarrow> Some (None, s2, m2)
        | Some c \<Rightarrow>
            (let s = SKIP_WHITESPACES s2
             in if cur s \<noteq> CHR ''}'' then Some (None, s, free_object c m2)
                else (case json_object_resize c (length (fst c)) m2 of
                        (JSONFailure, c, m) \<Rightarrow> Some (None, s, free_object c m)
                      | (JSONSuccess, c, m) \<Rightarrow> Some (Some (JObject (fst c) (snd c)), tl s, m)))) = Some (v, s', m')"
      by (auto simp: parse_object_value_def Let_def bind_eq_Some_conv)
    have g2: "generous m2" by (rule keeps_generous_members [OF assms inner g1])
    show ?thesis
    proof (cases r)
      case None
      with out g2 show ?thesis by simp
    next
      case (Some c)
      obtain st c1 m3 where rs: "json_object_resize c (length (fst c)) m2 = (st, c1, m3)"
        by (cases "json_object_resize c (length (fst c)) m2")
      have "generous m3" using rs g2 by (rule generous_resize)
      with out Some rs g2 show ?thesis
        by (cases st) (auto simp: Let_def generous_free_container split: if_splits)
    qed
  qed
qed

lemma keeps_generous_array:
  assumes "keeps_generous pv"
  shows "keeps_generous (parse_array_value pv)"
  unfolding keeps_generous_def
proof (intro allI impI)
  fix s m v s' m'
  assume p: "parse_array_value pv s m = Some (v, s', m')" and g: "generous m"
  obtain n m1 where init: "json_value_init_array m = (n, m1)" by fastforce
  have g1: "generous m1" using init g by (rule generous_made)
  let ?s = "SKIP_WHITESPACES (tl s)"
  show "generous m'"
  proof (cases "n = None \<or> cur s \<noteq> CHR ''['' \<or> cur ?s = CHR '']''")
    case True
    with p init g1 show ?thesis
      by (cases n) (auto simp: parse_array_value_def Let_def generous_value_free split: if_splits)
  next
    case False
    then obtain w where "n = Some w" by auto
    with p init False obtain r s2 m2 where inner: "parse_items pv (Suc (length ?s)) ([], 0) ?s m1 = Some (r, s2, m2)"
      and out: "(case r of None \<Rightarrow> Some (None, s2, m2)
        | Some c \<Rightarrow>
            (let s = SKIP_WHITESPACES s2
             in if cur s \<noteq> CHR '']'' then Some (None, s, free_array c m2)
                else (case json_array_resize c (length (fst c)) m2 of
                        (JSONFailure, c, m) \<Rightarrow> Some (None, s, free_array c m)
                      | (JSONSuccess, c, m) \<Rightarrow> Some (Some (JArray (fst c) (snd c)), tl s, m)))) = Some (v, s', m')"
      by (auto simp: parse_array_value_def Let_def bind_eq_Some_conv)
    have g2: "generous m2" by (rule keeps_generous_items [OF assms inner g1])
    show ?thesis
    proof (cases r)
      case None
      with out g2 show ?thesis by simp
    next
      case (Some c)
      obtain st c1 m3 where rs: "json_array_resize c (length (fst c)) m2 = (st, c1, m3)"
        by (cases "json_array_resize c (length (fst c)) m2")
      have "generous m3" using rs g2 by (rule generous_resize)
      with out Some rs g2 show ?thesis
        by (cases st) (auto simp: Let_def generous_free_container split: if_splits)
    qed
  qed
qed

lemma keeps_generous_scalars:
  "parse_string_value s m = (v, s', m') \<Longrightarrow> generous m \<Longrightarrow> generous m'"
  "parse_boolean_value s m = (v, s', m') \<Longrightarrow> generous m \<Longrightarrow> generous m'"
  "parse_number_value s m = (v, s', m') \<Longrightarrow> generous m \<Longrightarrow> generous m'"
  "parse_null_value s m = (v, s', m') \<Longrightarrow> generous m \<Longrightarrow> generous m'"
  by (auto simp: parse_string_value_def parse_boolean_value_def parse_number_value_def parse_null_value_def
      split: option.splits prod.splits if_splits dest: generous_made generous_quoted)

lemma keeps_generous_value: "keeps_generous (parse_value d)"
proof (induction d)
  case (Suc d)
  note sub = keeps_generous_object [OF Suc] keeps_generous_array [OF Suc]
  show ?case
    unfolding keeps_generous_def
    using sub [unfolded keeps_generous_def]
    by (auto simp: Let_def split: if_splits dest: keeps_generous_scalars)
qed (simp add: keeps_generous_def)

lemma generous_parse: "json_parse_string buf m = Some (v, m') \<Longrightarrow> generous m \<Longrightarrow> generous m'"
  using keeps_generous_value [of "MAX_NESTING + 1"]
  by (fastforce simp: json_parse_string_def keeps_generous_def Let_def split: option.splits)

section \<open>The log command\<close>

definition is_array :: "json option \<Rightarrow> bool" where
  "is_array v \<longleftrightarrow> (\<forall>w. v = Some w \<longrightarrow> json_ok w \<and> (\<exists>xs cap. w = JArray xs cap))"

lemma append_string_array:
  assumes "json_array_append_string (Some ar) t m = (st, ar', m')" "json_ok (JArray (fst ar) (snd ar))"
  shows "\<exists>ar1. ar' = Some ar1 \<and> json_ok (JArray (fst ar1) (snd ar1)) \<and>
    live m' - arr_blocks ar1 = live m - arr_blocks ar \<and> (generous m \<longrightarrow> generous m')"
proof -
  obtain v m1 where mk: "json_value_init_string t m = (v, m1)" by fastforce
  note made = member_string [of m t, unfolded mk member_made_def fst_conv snd_conv]
  show ?thesis
  proof (cases v)
    case None
    with assms mk made show ?thesis
      by (cases ar) (auto simp: json_array_append_string_def append_new_def made_ok_def opt_blocks_def)
  next
    case (Some w)
    obtain st1 ar1 m2 where add: "json_array_add ar w m1 = (st1, ar1, m2)" by (cases "json_array_add ar w m1")
    note eff = array_add_effect [OF add]
    have "length (fst ar) \<le> snd ar" using assms(2) by (simp add: json_ok_array)
    note room = array_add_room [OF add this]
    have ok: "json_ok (JArray (fst ar1) (snd ar1))"
      using eff room assms(2) made Some by (cases st1) (auto simp: json_ok_array)
    have bal: "live m' - arr_blocks ar1 = live m - arr_blocks ar"
      and out: "ar' = Some ar1" and gen: "generous m2 \<longrightarrow> generous m'"
      using assms(1) mk Some add eff made
      by (cases st1; auto simp: json_array_append_string_def append_new_def json_array_append_value_def
          made_ok_def handed_def opt_blocks_def generous_value_free)+
    from generous_array_add [OF _ add] gen made ok bal out show ?thesis by blast
  qed
qed

lemma extract_keeps:
  assumes "extract_messages n v b = (v', b')" "is_array v"
  shows "is_array v' \<and> own_blocks b' - opt_blocks v' = own_blocks b - opt_blocks v \<and>
    (generous (heap b) \<longrightarrow> generous (heap b')) \<and> (v \<noteq> None \<longrightarrow> v' \<noteq> None) \<and>
    supervisor_queue b' = supervisor_queue b \<and> trace b' = trace b"
  using assms
proof (induction n arbitrary: v b)
  case (Suc n)
  show ?case
  proof (cases "debug_queue b")
    case Nil
    with Suc show ?thesis by simp
  next
    case (Cons msg q)
    obtain st ar m where ap: "json_array_append_string (json_value_get_array v) msg (heap b) = (st, ar, m)"
      by (cases "json_array_append_string (json_value_get_array v) msg (heap b)")
    define b1 where "b1 = b\<lparr>debug_queue := q, heap := (case msg of None \<Rightarrow> m | Some _ \<Rightarrow> vPortFree m)\<rparr>"
    define v1 where "v1 = map_option (\<lambda>(xs, cap). JArray xs cap) ar"
    have step: "is_array v1 \<and> live m - opt_blocks v1 = live (heap b) - opt_blocks v \<and>
      (generous (heap b) \<longrightarrow> generous m) \<and> (v \<noteq> None \<longrightarrow> v1 \<noteq> None)"
    proof (cases v)
      case None
      obtain w m1 where mk: "json_value_init_string msg (heap b) = (w, m1)" by fastforce
      with ap None member_string [of "heap b" msg] show ?thesis
        by (cases w)
          (auto simp: v1_def is_array_def json_value_get_array_def json_array_append_string_def append_new_def
            json_array_append_value_def member_made_def made_ok_def opt_blocks_def generous_value_free)
    next
      case (Some w)
      then obtain xs cap where w: "v = Some (JArray xs cap)" "json_ok (JArray xs cap)"
        using Suc.prems(2) by (auto simp: is_array_def)
      have "opt_blocks (Some (JArray xs cap)) = arr_blocks (xs, cap)"
        by (simp only: opt_blocks_def arr_blocks_def option.case fst_conv snd_conv)
      moreover have "opt_blocks (map_option (\<lambda>(xs, cap). JArray xs cap) (Some ar1)) = arr_blocks ar1" for ar1
        by (simp only: opt_blocks_def arr_blocks_def option.case option.map split_beta)
      ultimately show ?thesis
        using append_string_array [of "(xs, cap)" msg "heap b" st ar m] ap w
        by (auto simp: v1_def is_array_def json_value_get_array_def simp del: blocks.simps)
    qed
    have "own_blocks b1 = live m - queued_blocks b"
      using Cons by (cases msg) (simp_all add: b1_def own_blocks_def queued_blocks_def)
    moreover have "generous (heap b1) = generous m"
      by (cases msg) (simp_all add: b1_def)
    moreover have "extract_messages n v1 b1 = (v', b')"
      using Suc.prems(1) Cons ap by (simp add: b1_def v1_def)
    ultimately show ?thesis
      using Suc.IH [of v1 b1] step by (simp add: own_blocks_def b1_def)
  qed
qed simp

lemma init_array_ok: "json_value_init_array m = (v, m') \<Longrightarrow>
    is_array v \<and> live m' = live m + opt_blocks v \<and> (generous m \<longrightarrow> generous m' \<and> v \<noteq> None)"
  using live_init(2) [of m v m'] generous_init(1) [of m v m'] init_object_ok(2) [of m _ m']
  by (cases v) (auto simp: is_array_def json_ok_array)

text \<open>
  A value that is put into the object of an answer whatever the status: refused, its blocks are
  lost.
\<close>

definition ans_ok :: "json option \<Rightarrow> bool" where
  "ans_ok v \<longleftrightarrow> (\<forall>u. v = Some u \<longrightarrow> is_object u)"

lemma put_keeps:
  assumes "ans_set (\<lambda>ob m. json_object_set_value ob (Some key) False w m) (v, m) = (v', m')"
    and "ans_ok v" "\<And>u. w = Some u \<Longrightarrow> json_ok u" "NUL \<notin> set key"
  shows "ans_ok v' \<and> (v' = None \<longleftrightarrow> v = None) \<and>
    live m - opt_blocks v - opt_blocks w \<le> live m' - opt_blocks v' \<and> (generous m \<longrightarrow> generous m') \<and>
    (generous m \<and> v \<noteq> None \<longrightarrow> live m' - opt_blocks v' = live m - opt_blocks v - opt_blocks w)"
proof (cases "v = None \<or> w = None")
  case True
  then have "v' = v \<and> m' = m"
  proof
    assume "v = None"
    with assms(1) show ?thesis
      by (simp add: ans_set_def json_value_get_object_def set_value_none wrap_object_def split_beta)
  next
    assume w: "w = None"
    show ?thesis
    proof (cases v)
      case None
      with assms(1) show ?thesis
        by (simp add: ans_set_def json_value_get_object_def set_value_none wrap_object_def split_beta)
    next
      case (Some u)
      with assms(2) obtain kvs cap where "v = Some (JObject kvs cap)" by (auto simp: ans_ok_def is_object_cases)
      with assms(1) w show ?thesis
        by (simp add: ans_set_def json_value_get_object_def set_value_none wrap_object_def split_beta)
    qed
  qed
  moreover have "0 \<le> opt_blocks w" using blocks_pos by (simp add: opt_blocks_def order_less_imp_le split: option.split)
  ultimately show ?thesis using assms(2) True by (auto simp: opt_blocks_def)
next
  case False
  then obtain u x where ux: "v = Some u" "w = Some x" by auto
  with assms(2) obtain kvs cap where u: "u = JObject kvs cap" "json_ok u" by (auto simp: ans_ok_def is_object_cases)
  obtain st ob m1 where set: "json_object_set_value (Some (kvs, cap)) (Some key) False (Some x) m = (st, ob, m1)"
    by (cases "json_object_set_value (Some (kvs, cap)) (Some key) False (Some x) m")
  have "json_ok x" using assms(3) ux by simp
  from set_value_total [OF set _ this assms(4)] u obtain ob1 where
    ob1: "ob = Some ob1" "json_ok (JObject (fst ob1) (snd ob1))" "generous m \<longrightarrow> generous m1 \<and> st = JSONSuccess"
    by auto
  have bl: "live m1 - obj_blocks ob1 = live m - obj_blocks (kvs, cap) - handed st (Some x)"
    using set_value_effect [OF set] ob1(1) by auto
  have v': "v' = Some (JObject (fst ob1) (snd ob1))" "m' = m1"
    using assms(1) ux u set ob1 by (simp_all add: ans_set_def json_value_get_object_def wrap_object_def split_beta)
  have "opt_blocks v = obj_blocks (kvs, cap)" "opt_blocks v' = obj_blocks ob1" "opt_blocks w = blocks x"
    by (simp_all only: opt_blocks_def obj_blocks_def option.case ux u v' fst_conv snd_conv)
  with bl v' ob1 ux blocks_pos [of x] show ?thesis
    by (cases st) (auto simp: ans_ok_def is_object_cases handed_def opt_blocks_def simp del: blocks.simps)
qed

lemma rebuilt_effect:
  assumes "trace b = trace (brd (msys s))" "supervisor_queue b = supervisor_queue (brd (msys s))"
    and "generous (node_heap s) \<longrightarrow> generous (heap b) \<and> own_blocks b = node_blocks s + opt_blocks v"
    and "node_blocks s + opt_blocks v \<le> own_blocks b" "ans_ok v"
  shows "cmd_effect s (v, upd_brd (\<lambda>_. b) s)"
  using assms sys_ok_quiet_board [of "msys s" b] touches_same_trace [of b "brd (msys s)"]
  by (auto simp: cmd_effect_def same_rest_def upd_brd_def node_heap_def node_blocks_def ans_ok_def)

lemma on_heap_eq: "on_heap f s = (v, s') \<longleftrightarrow>
    (\<exists>m. f (node_heap s) = (v, m) \<and> s' = upd_brd (\<lambda>b. b\<lparr>heap := m\<rparr>) s)"
  by (auto simp: on_heap_def split: prod.splits)

lemma logs_effect:
  assumes "logs_cmd pars s = Inr r"
  shows "cmd_effect s r"
proof (cases "pars \<noteq> None \<and> json_value_get_type pars = JSONObject")
  case False
  with assms show ?thesis by (auto simp: logs_cmd_def)
next
  case True
  let ?b = "brd (msys s)"
  obtain v1 m1 where i1: "json_value_init_object (heap ?b) = (v1, m1)" by fastforce
  obtain v2 m2 where i2: "json_value_init_array m1 = (v2, m2)" by fastforce
  let ?b2 = "?b\<lparr>heap := m2\<rparr>"
  from assms True i1 i2 obtain n where r: "r = (case extract_messages (nat n) v2 ?b2 of (v3, b3) \<Rightarrow>
      case ans_set (\<lambda>ob m. json_object_set_value ob (Some ''DEBUG_MSGS'') False v3 m) (v1, heap b3) of
        (v4, m4) \<Rightarrow> (v4, upd_brd (\<lambda>_. b3\<lparr>heap := m4\<rparr>) s))"
    by (auto simp: logs_cmd_def Let_def res_bind_eq_Inr on_heap_def upd_brd_def node_heap_def split_beta)
  obtain v3 b3 where ex: "extract_messages (nat n) v2 ?b2 = (v3, b3)" by fastforce
  obtain v4 m4 where put: "ans_set (\<lambda>ob m. json_object_set_value ob (Some ''DEBUG_MSGS'') False v3 m)
      (v1, heap b3) = (v4, m4)" by fastforce
  note b1 = built_init [of "heap ?b", unfolded i1 built_def fst_conv snd_conv]
  note a2 = init_array_ok [OF i2]
  note e3 = extract_keeps [OF ex conjunct1 [OF a2]]
  have "ans_ok v1" using b1 by (simp add: ans_ok_def)
  from put_keeps [OF put this] e3 have p4: "ans_ok v4 \<and> (v4 = None \<longleftrightarrow> v1 = None) \<and>
    live (heap b3) - opt_blocks v1 - opt_blocks v3 \<le> live m4 - opt_blocks v4 \<and> (generous (heap b3) \<longrightarrow> generous m4) \<and>
    (generous (heap b3) \<and> v1 \<noteq> None \<longrightarrow> live m4 - opt_blocks v4 = live (heap b3) - opt_blocks v1 - opt_blocks v3)"
    by (auto simp: is_array_def)
  have bal: "live (heap b3) - queued_blocks b3 - opt_blocks v3 = live (heap ?b) + opt_blocks v1 - queued_blocks ?b"
    using e3 a2 b1 by (simp add: own_blocks_def queued_blocks_def)
  have "cmd_effect s (v4, upd_brd (\<lambda>_. b3\<lparr>heap := m4\<rparr>) s)"
  proof (rule rebuilt_effect)
    show "trace (b3\<lparr>heap := m4\<rparr>) = trace ?b" "supervisor_queue (b3\<lparr>heap := m4\<rparr>) = supervisor_queue ?b"
      using e3 by simp_all
    show "node_blocks s + opt_blocks v4 \<le> own_blocks (b3\<lparr>heap := m4\<rparr>)"
      using p4 bal by (simp add: node_blocks_def own_blocks_def queued_blocks_def)
    show "ans_ok v4" using p4 by simp
    show "generous (node_heap s) \<longrightarrow> generous (heap (b3\<lparr>heap := m4\<rparr>)) \<and>
        own_blocks (b3\<lparr>heap := m4\<rparr>) = node_blocks s + opt_blocks v4"
    proof
      assume "generous (node_heap s)"
      then have "generous (heap b3)" "v1 \<noteq> None" using b1 a2 e3 by (simp_all add: node_heap_def)
      with p4 bal show "generous (heap (b3\<lparr>heap := m4\<rparr>)) \<and>
          own_blocks (b3\<lparr>heap := m4\<rparr>) = node_blocks s + opt_blocks v4"
        by (simp add: node_blocks_def own_blocks_def queued_blocks_def)
    qed
  qed
  with r ex put show ?thesis by simp
qed

section \<open>Dispatch\<close>

lemma found_in: "List.find P xs = Some x \<Longrightarrow> x \<in> set xs \<and> P x"
  by (induction xs) (auto split: if_splits)

lemmas command_effects =
  protocol_version_effect control_enable_effect stall_control_effect stop_effect free_run_effect
  free_run_steps_effect closed_loop_effect telemetria_effect logs_effect network_settings_effect
  mem_info_effect

lemma table_effect:
  "(nm, f) \<in> set (cmds_table env) \<Longrightarrow> f pars s = Inr r \<Longrightarrow> list_all dbl_fits (temperatures s) \<Longrightarrow> cmd_effect s r"
  unfolding cmds_table_def set_simps insert_iff empty_iff prod.inject
  by (elim disjE conjE FalseE; hypsubst; (rule command_effects temperature_info_effect; assumption))

lemma execute_effect:
  assumes "cmd_execute env cmd pars s = Inr r" "list_all dbl_fits (temperatures s)"
  shows "cmd_effect s r"
proof -
  from assms(1) obtain c where c: "cmd = Some c" by (cases cmd) (auto simp: cmd_execute_def)
  show ?thesis
  proof (cases "List.find (\<lambda>entry. fst entry = c) (cmds_table env)")
    case None
    with assms(1) c show ?thesis by (auto simp: cmd_execute_def)
  next
    case (Some e)
    obtain nm f where e: "e = (nm, f)" by fastforce
    with Some have "(nm, f) \<in> set (cmds_table env)" using found_in by fast
    with assms c Some e show ?thesis by (auto simp: cmd_execute_def dest: table_effect)
  qed
qed

section \<open>The commands of a request\<close>

lemma c_str_no_nul: "NUL \<notin> set (c_str t)"
  by (auto simp: c_str_def dest: set_takeWhileD)

lemma run_commands_effect:
  assumes "run_commands env cs tx s = Inr (tx', s')" "ans_ok tx" "list_all dbl_fits (temperatures s)"
  shows "same_rest s s' \<and> ans_ok tx' \<and> (tx' = None \<longleftrightarrow> tx = None) \<and>
    node_blocks s - opt_blocks tx \<le> node_blocks s' - opt_blocks tx' \<and>
    (generous (node_heap s) \<and> tx \<noteq> None \<longrightarrow> node_blocks s' - opt_blocks tx' = node_blocks s - opt_blocks tx)"
  using assms
proof (induction cs arbitrary: tx s)
  case (Cons c cs)
  let ?cmd = "json_value_get_object (Some c)"
  let ?nm = "map_option c_str (json_object_get_string ?cmd (Some ''command''))"
  define s1 where "s1 = node_log Info ''json_wp''
    (''Command Found: '' @ (case ?nm of None \<Rightarrow> ''(null)'' | Some n \<Rightarrow> n)) s"
  note lg = log_effect [of s Info "''json_wp''" "''Command Found: '' @ (case ?nm of None \<Rightarrow> ''(null)'' | Some n \<Rightarrow> n)",
      folded s1_def]
  from Cons.prems(1) obtain ans s2 where ex: "cmd_execute env ?nm (json_object_get_value ?cmd (Some ''pars'')) s1 = Inr (ans, s2)"
    and rest: "(case ans of None \<Rightarrow> run_commands env cs tx s2
      | Some a \<Rightarrow> (case on_heap (\<lambda>m. ans_set (\<lambda>ob m. json_object_set_value ob ?nm False (Some a) m) (tx, m)) s2 of
          (tx, s) \<Rightarrow> run_commands env cs tx s)) = Inr (tx', s')"
    by (auto simp: Let_def s1_def res_bind_eq_Inr)
  have "list_all dbl_fits (temperatures s1)" using lg Cons.prems(3) by (simp add: cmd_effect_def same_rest_def)
  from cmd_effect_then [OF lg execute_effect [OF ex this]]
  have eff: "same_rest s s2" "node_blocks s + opt_blocks ans \<le> node_blocks s2" "ans_ok ans"
    "generous (node_heap s) \<longrightarrow> node_blocks s2 = node_blocks s + opt_blocks ans"
    by (simp_all add: cmd_effect_def ans_ok_def)
  have temps: "list_all dbl_fits (temperatures s2)" using eff(1) Cons.prems(3) by (simp add: same_rest_def)
  show ?case
  proof (cases ans)
    case None
    with rest have "run_commands env cs tx s2 = Inr (tx', s')" by simp
    from Cons.IH [OF this Cons.prems(2) temps] eff None show ?thesis
      by (auto simp: opt_blocks_def intro: same_rest_trans) (auto simp: same_rest_def)
  next
    case (Some a)
    from ex obtain nm where nm: "?nm = Some nm" "NUL \<notin> set nm"
      using c_str_no_nul by (cases "json_object_get_string ?cmd (Some ''command'')") (auto simp: cmd_execute_def)
    obtain tx2 m2 where put: "ans_set (\<lambda>ob m. json_object_set_value ob (Some nm) False (Some a) m)
        (tx, node_heap s2) = (tx2, m2)" by fastforce
    define s3 where "s3 = upd_brd (\<lambda>b. b\<lparr>heap := m2\<rparr>) s2"
    have "json_ok a" using eff(3) Some by (auto simp: ans_ok_def is_object_def)
    with put_keeps [OF put Cons.prems(2)] nm(2) have p: "ans_ok tx2" "tx2 = None \<longleftrightarrow> tx = None"
      "live (node_heap s2) - opt_blocks tx - opt_blocks ans \<le> live m2 - opt_blocks tx2"
      "generous (node_heap s2) \<longrightarrow> generous m2"
      "generous (node_heap s2) \<and> tx \<noteq> None \<longrightarrow>
        live m2 - opt_blocks tx2 = live (node_heap s2) - opt_blocks tx - opt_blocks ans"
      using Some by simp_all
    have run: "run_commands env cs tx2 s3 = Inr (tx', s')"
      using rest Some nm(1) put by (simp add: on_heap_def s3_def)
    have nb: "node_blocks s3 = node_blocks s2 + live m2 - live (node_heap s2)"
      by (simp add: s3_def node_blocks_def own_blocks_def upd_brd_def node_heap_def queued_blocks_def)
    have "sys_ok (msys s2) \<longrightarrow> sys_ok (msys s3)"
      using sys_ok_quiet_board [of "msys s2" "(brd (msys s2))\<lparr>heap := m2\<rparr>"] touches_same_trace
      by (simp add: s3_def upd_brd_def)
    then have rest3: "same_rest s2 s3" using p(4) by (simp add: same_rest_def s3_def upd_brd_def node_heap_def)
    have "list_all dbl_fits (temperatures s3)" using temps by (simp add: s3_def upd_brd_def)
    note IH = Cons.IH [OF run p(1) this]
    have "same_rest s s'" using eff(1) rest3 IH by (blast intro: same_rest_trans)
    moreover have "generous (node_heap s) \<longrightarrow> generous (node_heap s2) \<and> generous (node_heap s3)"
      using eff(1) rest3 by (simp add: same_rest_def)
    ultimately show ?thesis using IH p nb eff by auto
  qed
qed auto

section \<open>The reply\<close>

text \<open>A change of the heap alone.\<close>

definition with_heap :: "mem \<Rightarrow> node \<Rightarrow> node" where
  "with_heap m s = upd_brd (\<lambda>b. b\<lparr>heap := m\<rparr>) s"

lemma with_heap_simps [simp]:
  "node_heap (with_heap m s) = m"
  "temperatures (with_heap m s) = temperatures s"
  "sleeping (msys (with_heap m s)) = sleeping (msys s)"
  "node_blocks (with_heap m s) = node_blocks s + live m - live (node_heap s)"
  by (simp_all add: with_heap_def upd_brd_def node_heap_def node_blocks_def own_blocks_def queued_blocks_def)

lemma with_heap_rest: "(generous (node_heap s) \<longrightarrow> generous m) \<Longrightarrow> same_rest s (with_heap m s)"
  using sys_ok_quiet_board [of "msys s" "(brd (msys s))\<lparr>heap := m\<rparr>"] touches_same_trace
  by (simp add: same_rest_def) (simp add: with_heap_def upd_brd_def)

lemma on_heap_with: "on_heap f s = (case f (node_heap s) of (x, m) \<Rightarrow> (x, with_heap m s))"
  by (simp add: on_heap_def with_heap_def)

lemma json_wp_eq:
  assumes "json_parse_string (Some rx_buff) (node_heap s) = Some (rx, m)" "json_value_init_object m = (tx, m1)"
  shows "json_wp env rx_buff s = Some (res_bind (reply_to env rx tx (with_heap m1 s))
    (\<lambda>(r, tx, s). Inr (r, with_heap (json_value_free_opt tx (json_value_free_opt rx (node_heap s))) s)))"
proof -
  have "upd_brd (\<lambda>b. b\<lparr>heap := m1\<rparr>) (upd_brd (\<lambda>b. b\<lparr>heap := m\<rparr>) s) = with_heap m1 s"
    "node_heap (upd_brd (\<lambda>b. b\<lparr>heap := m\<rparr>) s) = m"
    by (simp_all add: with_heap_def upd_brd_def node_heap_def)
  moreover have "upd_brd (\<lambda>b. b\<lparr>heap := json_value_free_opt v (json_value_free_opt rx (heap b))\<rparr>) t =
      with_heap (json_value_free_opt v (json_value_free_opt rx (node_heap t))) t" for v t
    by (simp add: with_heap_def upd_brd_def node_heap_def)
  ultimately show ?thesis
    using assms by (simp add: json_wp_def on_heap_def Let_def)
qed

lemma serialized_opt:
  assumes "ans_ok tx" "json_serialization_size True False tx = Inr n"
  shows "(tx = None \<longrightarrow> n = 0) \<and> (\<forall>v. tx = Some v \<longrightarrow> n = length (json_text True False v 0) + 1 \<and>
    json_serialize_to_buffer True False tx n n = Inr (JSONSuccess, json_text True False v 0))"
proof (cases tx)
  case None
  with assms show ?thesis by (simp add: json_serialization_size_def serialize_opt_def)
next
  case (Some v)
  then have "json_ok v" using assms(1) by (simp add: ans_ok_def is_object_def)
  with assms(2) Some show ?thesis
    by (simp add: serialization_size_text serialize_to_buffer_text)
qed

lemma malloc_rest: "on_heap (pvPortMalloc n) s = (ok, s') \<Longrightarrow>
    same_rest s s' \<and> node_blocks s' = node_blocks s + (if ok then 1 else 0) \<and> (generous (node_heap s) \<longrightarrow> ok)"
  using with_heap_rest [of s "snd (pvPortMalloc n (node_heap s))"]
  by (auto simp: on_heap_with pvPortMalloc_def generous_def split: if_splits)

lemma reply_effect:
  assumes "reply_to env rx tx s = Inr ((n, t), tx', s')" "ans_ok tx" "list_all dbl_fits (temperatures s)"
  shows "same_rest s s' \<and>
    node_blocks s - opt_blocks tx + (if t = None then 0 else 1) \<le> node_blocks s' - opt_blocks tx' \<and>
    (generous (node_heap s) \<and> tx \<noteq> None \<longrightarrow>
       node_blocks s' - opt_blocks tx' = node_blocks s - opt_blocks tx + (if t = None then 0 else 1) \<and>
       (t = None \<longleftrightarrow> json_value_get_type rx \<noteq> JSONObject)) \<and>
    (t = None \<longrightarrow> n = 0) \<and>
    (\<forall>txt. t = Some txt \<and> 0 < n \<longrightarrow> (\<exists>v. is_object v \<and> txt = json_text True False v 0 \<and> n = length txt + 1))"
proof (cases "json_value_get_type rx \<noteq> JSONObject")
  case True
  with assms(1) log_effect [of s Error "''json_wp''" "''Error json parse.''"] show ?thesis
    by (auto simp: reply_to_def cmd_effect_def opt_blocks_def)
next
  case False
  define commands where "commands = json_object_get_array (json_value_get_object rx) (Some ''commands'')"
  obtain tx1 s1 where run: "(case commands of None \<Rightarrow> Inr (tx, s) | Some ar \<Rightarrow> run_commands env (fst ar) tx s) = Inr (tx1, s1)"
    and rest: "res_bind (json_serialization_size True False tx1) (\<lambda>buff_len.
              case on_heap (pvPortMalloc buff_len) s1 of
                (False, s) \<Rightarrow> Inr ((0, None), tx1, node_log Error ''json_wp'' ''Out Of Memory'' s)
              | (True, s) \<Rightarrow>
                  res_bind (json_serialize_to_buffer True False tx1 buff_len buff_len) (\<lambda>(st, t).
                    Inr ((buff_len, Some t), tx1, s))) = Inr ((n, t), tx', s')"
    using assms(1) False by (auto simp: reply_to_def commands_def Let_def res_bind_eq_Inr)
  have one: "same_rest s s1 \<and> ans_ok tx1 \<and> (tx1 = None \<longleftrightarrow> tx = None) \<and>
      node_blocks s - opt_blocks tx \<le> node_blocks s1 - opt_blocks tx1 \<and>
      (generous (node_heap s) \<and> tx \<noteq> None \<longrightarrow> node_blocks s1 - opt_blocks tx1 = node_blocks s - opt_blocks tx)"
  proof (cases commands)
    case None
    with run assms(2) show ?thesis by auto
  next
    case (Some ar)
    with run run_commands_effect [OF _ assms(2,3)] show ?thesis by simp
  qed
  then have gen: "generous (node_heap s) \<longrightarrow> generous (node_heap s1)" by (simp add: same_rest_def)
  from rest obtain k where k: "json_serialization_size True False tx1 = Inr k" by (auto simp: res_bind_eq_Inr)
  note ser = serialized_opt [OF conjunct1 [OF conjunct2 [OF one]] k]
  obtain ok s2 where al: "on_heap (pvPortMalloc k) s1 = (ok, s2)" by fastforce
  note m = malloc_rest [OF al]
  show ?thesis
  proof (cases ok)
    case True
    with rest k al have out: "n = k" "tx' = tx1" "s' = s2" "\<exists>st u. t = Some u \<and> json_serialize_to_buffer True False tx1 k k = Inr (st, u)"
      by (auto simp: res_bind_eq_Inr)
    have "\<forall>txt. t = Some txt \<and> 0 < n \<longrightarrow> (\<exists>v. is_object v \<and> txt = json_text True False v 0 \<and> n = length txt + 1)"
      using out ser one by (cases tx1) (auto simp: ans_ok_def)
    then show ?thesis using one m out True False by (auto intro: same_rest_trans)
  next
    case notok: False
    with rest k al have out: "n = 0" "t = None" "tx' = tx1" "s' = node_log Error ''json_wp'' ''Out Of Memory'' s2"
      by simp_all
    have lg: "same_rest s2 s' \<and> node_blocks s2 \<le> node_blocks s' \<and> (generous (node_heap s2) \<longrightarrow> node_blocks s' = node_blocks s2)"
      using log_effect [of s2 Error "''json_wp''" "''Out Of Memory''"] out(4) by (simp add: cmd_effect_def opt_blocks_def)
    have "\<not> generous (node_heap s)" using m notok gen by blast
    then show ?thesis using one m out lg notok by (auto intro: same_rest_trans)
  qed
qed

section \<open>The whole request\<close>

lemma parse_effect:
  assumes "json_parse_string (Some rx_buff) m = Some (rx, m1)"
  shows "(\<forall>v. rx = Some v \<longrightarrow> json_ok v \<and> live m1 = live m + blocks v) \<and>
    live m + opt_blocks rx \<le> live m1 \<and> live m1 \<le> live m + opt_blocks rx + (if rx = None then 1 else 0)"
  using json_parse_string_accounted [of "Some rx_buff" m] assms
  by (auto simp: accounted_def opt_blocks_def split: option.splits)

lemma json_wp_returns: "\<exists>r. json_wp env rx_buff s = Some r"
proof -
  obtain rx m where p: "json_parse_string (Some rx_buff) (node_heap s) = Some (rx, m)"
    using json_parse_string_accounted [of "Some rx_buff" "node_heap s"] by auto
  obtain tx m1 where "json_value_init_object m = (tx, m1)" by fastforce
  from json_wp_eq [OF p this] show ?thesis by blast
qed

text \<open>
  \<open>parses\<close>: the text is a JSON value. Blocks are only lost when the text does not parse or the
  allocator refuses a request.
\<close>

definition parses :: "string \<Rightarrow> mem \<Rightarrow> bool" where
  "parses rx_buff m \<longleftrightarrow> (case json_parse_string (Some rx_buff) m of Some (Some v, _) \<Rightarrow> True | _ \<Rightarrow> False)"

lemma json_wp_effect:
  assumes "json_wp env rx_buff s = Some (Inr ((n, t), s'))" "list_all dbl_fits (temperatures s)"
  shows "same_rest s s'"
    and "node_blocks s + (if t = None then 0 else 1) \<le> node_blocks s'"
    and "generous (node_heap s) \<Longrightarrow> parses rx_buff (node_heap s) \<Longrightarrow>
      node_blocks s' = node_blocks s + (if t = None then 0 else 1)"
    and "t = None \<longrightarrow> n = 0"
    and "t = Some txt \<Longrightarrow> 0 < n \<Longrightarrow>
      \<exists>v. is_object v \<and> txt = json_text True False v 0 \<and> n = length txt + 1"
proof -
  obtain rx m where p: "json_parse_string (Some rx_buff) (node_heap s) = Some (rx, m)"
    using json_parse_string_accounted [of "Some rx_buff" "node_heap s"] by auto
  obtain tx m1 where i: "json_value_init_object m = (tx, m1)" by fastforce
  note b = built_init [of m, unfolded i built_def fst_conv snd_conv]
  note pe = parse_effect [OF p] and pg = generous_parse [OF p]
  have "res_bind (reply_to env rx tx (with_heap m1 s))
    (\<lambda>(r, tx, s). Inr (r, with_heap (json_value_free_opt tx (json_value_free_opt rx (node_heap s))) s)) =
      Inr ((n, t), s')"
    using json_wp_eq [OF p i, of env] assms(1) by simp
  then obtain tx1 s1 where
    rep: "reply_to env rx tx (with_heap m1 s) = Inr ((n, t), tx1, s1)"
    and s': "s' = with_heap (json_value_free_opt tx1 (json_value_free_opt rx (node_heap s1))) s1"
    by (cases "reply_to env rx tx (with_heap m1 s)") auto
  have "ans_ok tx" using b by (simp add: ans_ok_def)
  note eff = reply_effect [OF rep this, unfolded with_heap_simps, OF assms(2)]
  have rest: "same_rest s (with_heap m1 s)" by (rule with_heap_rest) (use pg b in blast)
  have last: "same_rest s1 s'" unfolding s' by (rule with_heap_rest) (simp add: generous_value_free_opt)
  show "same_rest s s'" by (rule same_rest_trans [OF same_rest_trans [OF rest conjunct1 [OF eff]] last])
  have bal: "node_blocks s' = node_blocks s1 - opt_blocks tx1 - opt_blocks rx" by (simp add: s')
  show "node_blocks s + (if t = None then 0 else 1) \<le> node_blocks s'"
    using bal eff b pe by simp
  show "t = None \<longrightarrow> n = 0" using eff by simp
  show "node_blocks s' = node_blocks s + (if t = None then 0 else 1)"
    if "generous (node_heap s)" "parses rx_buff (node_heap s)"
  proof -
    have "rx \<noteq> None" using that(2) p by (auto simp: parses_def split: option.splits)
    moreover have "generous m1" "tx \<noteq> None" using pg b that(1) by blast+
    ultimately show ?thesis using bal eff b pe by (auto simp: opt_blocks_def)
  qed
  show "\<exists>v. is_object v \<and> txt = json_text True False v 0 \<and> n = length txt + 1"
    if "t = Some txt" "0 < n"
    using eff that by auto
qed

section \<open>Requests that cannot fault\<close>

definition command_name :: "json \<Rightarrow> string option" where
  "command_name c = map_option c_str (json_object_get_string (json_value_get_object (Some c)) (Some ''command''))"

text \<open>
  The commands that convert no number of the request to an integer and name no axis; the names
  that are not in the table are among them.
\<close>

definition plain_command :: "string \<Rightarrow> bool" where
  "plain_command nm \<longleftrightarrow>
     \<not> List.member [''AXIS_FREE_RUN'', ''AXIS_FREE_RUN_STEPS'', ''NETWORK_SETTINGS'', ''LOGS''] nm"

definition plain_entry :: "json \<Rightarrow> bool" where
  "plain_entry c \<longleftrightarrow> (case command_name c of None \<Rightarrow> True | Some nm \<Rightarrow> plain_command nm)"

lemma execute_total:
  assumes "plain_command nm" "length (temperatures s) = 2"
  shows "\<exists>r. cmd_execute env (Some nm) pars s = Inr r"
proof (cases "List.find (\<lambda>entry. fst entry = nm) (cmds_table env)")
  case None
  then show ?thesis by (simp add: cmd_execute_def)
next
  case (Some e)
  obtain nm' f where e: "e = (nm', f)" by fastforce
  from found_in [OF Some] e have f: "(nm, f) \<in> set (cmds_table env)" by auto
  have "\<exists>r. f pars s = Inr r"
    using f assms unfolding cmds_table_def set_simps insert_iff empty_iff prod.inject
    by (elim disjE conjE FalseE; hypsubst;
        simp add: plain_command_def protocol_version_cmd_def control_enable_cmd_def stall_control_cmd_def
          axis_stop_cmd_def axis_closed_loop_cmd_def telemetria_cmd_def mem_info_cmd_def Let_def split_beta
          temperature_info_cmd_def array_get_def)
  with Some e show ?thesis by (auto simp: cmd_execute_def)
qed

lemma run_commands_total:
  assumes "list_all plain_entry cs"
    and "length (temperatures s) = 2" "list_all dbl_fits (temperatures s)"
  shows "if \<exists>c \<in> set cs. command_name c = None then run_commands env cs tx s = Inl NullPointer
    else \<exists>r. run_commands env cs tx s = Inr r"
  using assms
proof (induction cs arbitrary: tx s)
  case (Cons c cs)
  define s1 where "s1 = node_log Info ''json_wp''
    (''Command Found: '' @ (case command_name c of None \<Rightarrow> ''(null)'' | Some n \<Rightarrow> n)) s"
  let ?pars = "json_object_get_value (json_value_get_object (Some c)) (Some ''pars'')"
  have lg: "cmd_effect s (None, s1)" unfolding s1_def by (rule log_effect)
  have step: "run_commands env (c # cs) tx s = res_bind (cmd_execute env (command_name c) ?pars s1) (\<lambda>(ans, s).
      case ans of None \<Rightarrow> run_commands env cs tx s
      | Some a \<Rightarrow> (case on_heap (\<lambda>m. ans_set (\<lambda>ob m. json_object_set_value ob (command_name c) False (Some a) m) (tx, m)) s of
          (tx, s) \<Rightarrow> run_commands env cs tx s))"
    by (simp only: run_commands.simps Let_def s1_def command_name_def)
  show ?case
  proof (cases "command_name c")
    case None
    then show ?thesis using step by (simp add: cmd_execute_def)
  next
    case (Some nm)
    have temps1: "temperatures s1 = temperatures s" using lg by (simp add: cmd_effect_def same_rest_def)
    then obtain ans s2 where ex: "cmd_execute env (command_name c) ?pars s1 = Inr (ans, s2)"
      using execute_total [of nm s1 env ?pars] Cons.prems(1,2) Some by (auto simp: plain_entry_def)
    have "cmd_effect s1 (ans, s2)" using execute_effect [OF ex] temps1 Cons.prems(3) by simp
    then have temps2: "temperatures s2 = temperatures s" using temps1 by (simp add: cmd_effect_def same_rest_def)
    obtain tx3 s3 where s3: "(case ans of None \<Rightarrow> (tx, s2)
      | Some a \<Rightarrow> on_heap (\<lambda>m. ans_set (\<lambda>ob m. json_object_set_value ob (command_name c) False (Some a) m) (tx, m)) s2) = (tx3, s3)"
      by fastforce
    then have "run_commands env (c # cs) tx s = run_commands env cs tx3 s3"
      unfolding step ex res_bind_simps prod.case using s3 by (cases ans) simp_all
    moreover have "temperatures s3 = temperatures s"
      using s3 temps2 by (cases ans) (auto simp: on_heap_def upd_brd_def split: prod.splits)
    ultimately show ?thesis using Cons.IH [of s3 tx3] Cons.prems Some
      by (cases "\<exists>c \<in> set cs. command_name c = None") (auto simp del: run_commands.simps)
  qed
qed simp

definition request_commands :: "json \<Rightarrow> json list" where
  "request_commands v =
     (case json_object_get_array (json_value_get_object (Some v)) (Some ''commands'') of
        None \<Rightarrow> [] | Some ar \<Rightarrow> fst ar)"

lemma reply_run:
  assumes "json_value_get_type (Some v) = JSONObject"
  shows "reply_to env (Some v) tx s = res_bind (run_commands env (request_commands v) tx s) (\<lambda>(tx, s).
    res_bind (json_serialization_size True False tx) (\<lambda>buff_len.
      case on_heap (pvPortMalloc buff_len) s of
        (False, s) \<Rightarrow> Inr ((0, None), tx, node_log Error ''json_wp'' ''Out Of Memory'' s)
      | (True, s) \<Rightarrow>
          res_bind (json_serialize_to_buffer True False tx buff_len buff_len) (\<lambda>(st, t).
            Inr ((buff_len, Some t), tx, s))))"
  using assms by (simp add: reply_to_def request_commands_def Let_def split: option.split)

lemma plain_request:
  assumes "json_parse_string (Some rx_buff) (node_heap s) = Some (Some v, m)"
    and "json_value_get_type (Some v) = JSONObject"
    and "list_all plain_entry (request_commands v)"
    and "generous (node_heap s)" "length (temperatures s) = 2" "list_all dbl_fits (temperatures s)"
  shows "if \<exists>c \<in> set (request_commands v). command_name c = None
    then json_wp env rx_buff s = Some (Inl NullPointer)
    else \<exists>txt s'. json_wp env rx_buff s = Some (Inr ((length txt + 1, Some txt), s'))"
proof -
  obtain tx m1 where i: "json_value_init_object m = (tx, m1)" by fastforce
  note b = built_init [of m, unfolded i built_def fst_conv snd_conv]
  have m1: "generous m1" "tx \<noteq> None" using generous_parse [OF assms(1,4)] b by blast+
  note wp = json_wp_eq [OF assms(1) i, of env, unfolded reply_run [OF assms(2)]]
  have run: "if \<exists>c \<in> set (request_commands v). command_name c = None
    then run_commands env (request_commands v) tx (with_heap m1 s) = Inl NullPointer
    else \<exists>r. run_commands env (request_commands v) tx (with_heap m1 s) = Inr r"
    by (rule run_commands_total) (use assms in auto)
  show ?thesis
  proof (cases "\<exists>c \<in> set (request_commands v). command_name c = None")
    case True
    with run wp show ?thesis by simp
  next
    case False
    with run obtain tx1 s1 where r: "run_commands env (request_commands v) tx (with_heap m1 s) = Inr (tx1, s1)"
      by auto
    have "ans_ok tx" using b by (simp add: ans_ok_def)
    from run_commands_effect [OF r this, unfolded with_heap_simps, OF assms(6)] m1 have
      eff: "ans_ok tx1" "tx1 \<noteq> None" "generous (node_heap s1)" by (auto simp: same_rest_def)
    then obtain w where w: "tx1 = Some w" "json_ok w" by (auto simp: ans_ok_def is_object_def)
    let ?k = "length (json_text True False w 0) + 1"
    obtain ok s2 where al: "on_heap (pvPortMalloc ?k) s1 = (ok, s2)" by fastforce
    with malloc_rest [OF al] eff(3) have "on_heap (pvPortMalloc ?k) s1 = (True, s2)" by auto
    with wp r w have "\<exists>s'. json_wp env rx_buff s = Some (Inr ((?k, Some (json_text True False w 0)), s'))"
      by (simp add: serialization_size_text serialize_to_buffer_text)
    with False show ?thesis by auto
  qed
qed

end
