(* ===== verification/TcpServer.thy ===== *)
theory TcpServer imports NetCommands begin

text \<open>
  The TCP server (nfc/src/tcp_server.c): one connection at a time, each text that arrives is a
  request for \<open>json_wp\<close>, each reply is sent behind its length in four hexadecimal digits. The
  socket library is an input: what its calls answer. The calls the server makes are recorded.
\<close>

section \<open>State and inputs\<close>

text \<open>What \<open>recv\<close> answers: a failure, or bytes; no bytes when the peer has closed.\<close>

datatype recv_answer = RecvFailed | RecvBytes string

datatype sock_option =
    SO_REUSEADDR int
  | SO_KEEPALIVE int
  | TCP_KEEPIDLE int
  | TCP_KEEPINTVL int
  | TCP_KEEPCNT int

datatype sock_call =
    Socket
  | SetSockOpt int sock_option
  | Bind int "16 word"
  | Listen int int
  | Accept int
  | Recv int nat
  | Send int string int
  | Shutdown int
  | CloseSocket int
  | TaskDelete

record server =
  snode :: node
  sock_calls :: "sock_call list"
  sends :: nat

text \<open>\<open>send_answer k n\<close> is what the \<open>k\<close>-th call of \<open>send\<close> answers when it is given \<open>n\<close> bytes.\<close>

record sock_env =
  err_no :: int
  send_answer :: "nat \<Rightarrow> nat \<Rightarrow> int"

text \<open>A connection: the socket, the address when it is an IPv4 one, what arrives on it.\<close>

record connection =
  conn_sock :: int
  conn_inet :: "string option"
  conn_recv :: "recv_answer list"

definition sock_calling :: "sock_call list \<Rightarrow> server \<Rightarrow> server" where
  "sock_calling cs c = c\<lparr>sock_calls := sock_calls c @ cs\<rparr>"

definition server_log :: "debugLevels \<Rightarrow> string \<Rightarrow> string \<Rightarrow> server \<Rightarrow> server" where
  "server_log level func line c = c\<lparr>snode := node_log level func line (snode c)\<rparr>"

definition errno_line :: "string \<Rightarrow> sock_env \<Rightarrow> string" where
  "errno_line what io = what @ '': errno '' @ show_int (err_no io)"

section \<open>Sending a reply\<close>

definition sock_send :: "sock_env \<Rightarrow> int \<Rightarrow> string \<Rightarrow> server \<Rightarrow> int \<times> server" where
  "sock_send io sock bytes c =
     (let a = send_answer io (sends c) (length bytes)
      in (a, (sock_calling [Send sock bytes a] c)\<lparr>sends := Suc (sends c)\<rparr>))"

definition hex_lower :: "nat \<Rightarrow> char" where
  "hex_lower d = (if d < 10 then char_of (48 + d) else char_of (87 + d))"

fun show_hex :: "nat \<Rightarrow> string" where
  "show_hex n = (if n < 16 then [hex_lower n] else show_hex (n div 16) @ [hex_lower (n mod 16)])"

declare show_hex.simps [simp del]

text \<open>\<open>"%04x"\<close>\<close>

definition sprintf_04x :: "nat \<Rightarrow> string" where
  "sprintf_04x n = replicate (4 - length (show_hex n)) (CHR ''0'') @ show_hex n"

text \<open>
  The loop that sends the rest of the \<open>ack_len\<close> bytes of the buffer. It does not return
  (\<open>None\<close>) when \<open>send\<close> accepts no byte for ever.
\<close>

partial_function (option) send_all ::
    "sock_env \<Rightarrow> int \<Rightarrow> string \<Rightarrow> int \<Rightarrow> server \<Rightarrow> server option" where
  "send_all io sock tx_buffer to_write c =
     (if to_write > 0 then
        (let r = sock_send io sock (drop (length tx_buffer - nat to_write) tx_buffer) c
         in if fst r < 0
            then Some (server_log Error ''do_retransmit'' (errno_line ''Error occurred during sending'' io) (snd r))
            else send_all io sock tx_buffer (to_write - fst r) (snd r))
      else Some c)"

text \<open>The header goes through a buffer of five bytes.\<close>

definition ack_buff_size :: nat where "ack_buff_size = 5"

definition send_reply :: "sock_env \<Rightarrow> int \<Rightarrow> nat \<Rightarrow> string \<Rightarrow> server \<Rightarrow> server res option" where
  "send_reply io sock ack_len tx_buffer c =
     (let header = sprintf_04x ack_len
      in if length header + 1 > ack_buff_size then Some (Inl OutOfBounds)
         else map_option Inr
           (send_all io sock tx_buffer (int ack_len) (snd (sock_send io sock (take 4 header) c))))"

section \<open>A connection\<close>

definition rx_buffer_size :: nat where "rx_buffer_size = 1024"

definition server_free :: "server \<Rightarrow> server" where
  "server_free c = c\<lparr>snode := upd_brd (\<lambda>b. b\<lparr>heap := vPortFree (heap b)\<rparr>) (snode c)\<rparr>"

text \<open>
  The list holds the answers of \<open>recv\<close>; at its end the server still waits, and the first
  component of the result is false. The buffer of a reply ends with the zero of its text.
\<close>

fun do_retransmit ::
    "net_env \<Rightarrow> sock_env \<Rightarrow> int \<Rightarrow> recv_answer list \<Rightarrow> server \<Rightarrow> (bool \<times> server) res option" where
  "do_retransmit env io sock [] c = Some (Inr (False, c))"
| "do_retransmit env io sock (r # rs) c =
     (let c = sock_calling [Recv sock (rx_buffer_size - 1)] c
      in case r of
           RecvFailed \<Rightarrow>
             Some (Inr (True, server_log Error ''do_retransmit'' (errno_line ''Error occurred during receiving'' io) c))
         | RecvBytes bytes \<Rightarrow>
             if bytes = [] then Some (Inr (True, server_log Warn ''do_retransmit'' ''Connection closed'' c))
             else if length bytes \<ge> rx_buffer_size then Some (Inl OutOfBounds)
             else Option.bind (json_wp env bytes (snode c)) (\<lambda>w. case w of
                 Inl e \<Rightarrow> Some (Inl e)
               | Inr ((ack_len, tx), s) \<Rightarrow>
                   (let c = c\<lparr>snode := s\<rparr>
                    in if ack_len > 0 then
                         Option.bind (send_reply io sock ack_len (case tx of None \<Rightarrow> [] | Some t \<Rightarrow> t @ [NUL]) c) (\<lambda>w.
                           case w of
                             Inl e \<Rightarrow> Some (Inl e)
                           | Inr c \<Rightarrow> do_retransmit env io sock rs (if tx = None then c else server_free c))
                       else do_retransmit env io sock rs c)))"

section \<open>The task\<close>

definition KEEPALIVE_IDLE :: int where "KEEPALIVE_IDLE = 5"
definition KEEPALIVE_INTERVAL :: int where "KEEPALIVE_INTERVAL = 5"
definition KEEPALIVE_COUNT :: int where "KEEPALIVE_COUNT = 3"

definition keepalive_options :: "int \<Rightarrow> sock_call list" where
  "keepalive_options sock =
     [SetSockOpt sock (SO_KEEPALIVE 1), SetSockOpt sock (TCP_KEEPIDLE KEEPALIVE_IDLE),
      SetSockOpt sock (TCP_KEEPINTVL KEEPALIVE_INTERVAL), SetSockOpt sock (TCP_KEEPCNT KEEPALIVE_COUNT)]"

text \<open>
  The loop over the connections that \<open>accept\<close> yields, \<open>None\<close> for a failure, after which the
  listening socket is closed. The address text of a connection that is not an IPv4 one is the
  one of the connection before.
\<close>

fun accept_loop ::
    "net_env \<Rightarrow> sock_env \<Rightarrow> int \<Rightarrow> string \<Rightarrow> connection option list \<Rightarrow> server \<Rightarrow> (bool \<times> server) res option" where
  "accept_loop env io lsock addr_str [] c = Some (Inr (False, c))"
| "accept_loop env io lsock addr_str (k # ks) c =
     (let c = server_log Info ''tcp_server_task'' ''Socket listening'' c;
          c = sock_calling [Accept lsock] c
      in case k of
           None \<Rightarrow>
             Some (Inr (True, server_log Error ''tcp_server_task''
               (errno_line ''Unable to accept connection'' io) c))
         | Some conn \<Rightarrow>
             (let sock = conn_sock conn;
                  c = sock_calling (keepalive_options sock) c;
                  addr_str = (case conn_inet conn of None \<Rightarrow> addr_str | Some a \<Rightarrow> a);
                  c = server_log Info ''tcp_server_task'' (''Socket accepted ip address: '' @ addr_str) c
              in Option.bind (do_retransmit env io sock (conn_recv conn) c) (\<lambda>w. case w of
                    Inl e \<Rightarrow> Some (Inl e)
                  | Inr (False, c) \<Rightarrow> Some (Inr (False, c))
                  | Inr (True, c) \<Rightarrow>
                      accept_loop env io lsock addr_str ks
                        (sock_calling [Shutdown sock, CloseSocket sock] c))))"

text \<open>
  \<open>listen_sock\<close>, \<open>bind_err\<close> and \<open>listen_err\<close> are the answers of the three calls that open the
  server, \<open>addr_junk\<close> what the uninitialised address text holds. The task ends when an answer
  is bad, and runs as long as \<open>accept\<close> succeeds.
\<close>

definition tcp_clean_up :: "int \<Rightarrow> server \<Rightarrow> server" where
  "tcp_clean_up lsock c = sock_calling [CloseSocket lsock, TaskDelete] c"

definition tcp_server_task ::
    "net_env \<Rightarrow> sock_env \<Rightarrow> 16 word \<Rightarrow> int \<Rightarrow> int \<Rightarrow> int \<Rightarrow> string \<Rightarrow> connection option list \<Rightarrow> server
     \<Rightarrow> (bool \<times> server) res option" where
  "tcp_server_task env io prt listen_sock bind_err listen_err addr_junk ks c =
     (let c = sock_calling [Socket] c
      in if listen_sock < 0 then
           Some (Inr (True, sock_calling [TaskDelete]
             (server_log Error ''tcp_server_task'' (errno_line ''Unable to create socket'' io) c)))
         else
           (let c = sock_calling [SetSockOpt listen_sock (SO_REUSEADDR 1)] c;
                c = server_log Info ''tcp_server_task'' ''Socket created'' c;
                c = sock_calling [Bind listen_sock prt] c
            in if bind_err \<noteq> 0 then
                 Some (Inr (True, tcp_clean_up listen_sock
                   (server_log Error ''tcp_server_task'' ''IPPROTO: 2''
                     (server_log Error ''tcp_server_task'' (errno_line ''Socket unable to bind'' io) c))))
               else
                 (let c = server_log Info ''tcp_server_task''
                            (''Socket bound, port '' @ show_int (int (unat prt))) c;
                      c = sock_calling [Listen listen_sock 1] c
                  in if listen_err \<noteq> 0 then
                       Some (Inr (True, tcp_clean_up listen_sock
                         (server_log Error ''tcp_server_task'' (errno_line ''Error occurred during listen'' io) c)))
                     else
                       Option.bind (accept_loop env io listen_sock addr_junk ks c) (\<lambda>w. case w of
                         Inl e \<Rightarrow> Some (Inl e)
                       | Inr (False, c) \<Rightarrow> Some (Inr (False, c))
                       | Inr (True, c) \<Rightarrow> Some (Inr (True, tcp_clean_up listen_sock c))))))"

end
