(* ===== verification/NetProperties.thy ===== *)
theory NetProperties imports NetRequest TcpServer MotInvariants begin

text \<open>The properties of the network side: requests, replies and how they travel.\<close>

section \<open>Frames\<close>

definition hex_value :: "char \<Rightarrow> nat" where
  "hex_value ch = (let c = of_char ch in if c < 58 then c - 48 else c - 87)"

definition unhex :: "string \<Rightarrow> nat" where
  "unhex s = foldl (\<lambda>a ch. 16 * a + hex_value ch) 0 s"

text \<open>What a peer does: four digits, then as many bytes.\<close>

function unframe :: "string \<Rightarrow> string list" where
  "unframe s =
     (if length s < 4 \<or> length s < 4 + unhex (take 4 s) then []
      else take (unhex (take 4 s)) (drop 4 s) # unframe (drop (4 + unhex (take 4 s)) s))"
  by auto
termination unframe by (relation "measure length") auto

declare unframe.simps [simp del]

lemma hex_value_lower: "d < 16 \<Longrightarrow> hex_value (hex_lower d) = d"
  by (simp add: hex_value_def hex_lower_def Let_def)

lemma unhex_append: "unhex (s @ [ch]) = 16 * unhex s + hex_value ch"
  by (simp add: unhex_def)

lemma unhex_show: "unhex (show_hex n) = n"
proof (induction n rule: show_hex.induct)
  case (1 n)
  show ?case
  proof (cases "n < 16")
    case True
    then show ?thesis by (simp add: show_hex.simps [of n] unhex_def hex_value_lower)
  next
    case False
    with 1 show ?thesis by (simp add: show_hex.simps [of n] unhex_append hex_value_lower)
  qed
qed

lemma unhex_zeros: "unhex (replicate k (CHR ''0'') @ s) = unhex s"
proof -
  have "foldl (\<lambda>a ch. 16 * a + hex_value ch) 0 (replicate k (CHR ''0'')) = 0"
    by (induction k) (simp_all add: hex_value_def)
  then show ?thesis by (simp add: unhex_def)
qed

lemma show_hex_length: "n < 16 ^ Suc k \<Longrightarrow> length (show_hex n) \<le> Suc k"
proof (induction k arbitrary: n)
  case 0
  then show ?case by (simp add: show_hex.simps [of n])
next
  case (Suc k)
  have "n div 16 < 16 ^ Suc k" using Suc.prems by (simp add: less_mult_imp_div_less mult.commute)
  from Suc.IH [OF this] show ?case by (simp add: show_hex.simps [of n])
qed

lemma sprintf_04x_ok:
  assumes "n < 65536"
  shows "length (sprintf_04x n) = 4" and "unhex (sprintf_04x n) = n"
  using show_hex_length [of n 3] assms by (simp_all add: sprintf_04x_def unhex_zeros unhex_show)

definition frame :: "string \<Rightarrow> string" where
  "frame t = sprintf_04x (length t + 1) @ t @ [NUL]"

lemma unframe_frames:
  "list_all (\<lambda>t. length t + 1 < 65536) ts \<Longrightarrow> unframe (concat (map frame ts)) = map (\<lambda>t. t @ [NUL]) ts"
proof (induction ts)
  case Nil
  show ?case by (simp add: unframe.simps)
next
  case (Cons t ts)
  let ?s = "concat (map frame (t # ts))"
  have n: "length t + 1 < 65536" using Cons.prems by simp
  note hd = sprintf_04x_ok [OF n]
  let ?k = "unhex (take 4 ?s)"
  have parts: "take 4 ?s = sprintf_04x (length t + 1)" "drop 4 ?s = (t @ [NUL]) @ concat (map frame ts)"
    using hd(1) by (simp_all add: frame_def)
  have k: "?k = length (t @ [NUL])" unfolding parts hd(2) by simp
  have "drop ?k (drop 4 ?s) = concat (map frame ts)" unfolding k parts(2) by simp
  then have rest: "drop (4 + ?k) ?s = concat (map frame ts)" by (simp only: drop_drop add.commute)
  have first: "take ?k (drop 4 ?s) = t @ [NUL]" unfolding k parts(2) by simp
  have "4 + ?k \<le> length ?s" unfolding k using hd(1) by (simp add: frame_def)
  then have "unframe ?s = (t @ [NUL]) # unframe (concat (map frame ts))"
    unfolding unframe.simps [of ?s] first rest by simp
  with Cons show ?case by simp
qed

section \<open>Sending\<close>

text \<open>The bytes a socket has accepted.\<close>

definition wire :: "int \<Rightarrow> sock_call list \<Rightarrow> string" where
  "wire sock cs = concat (map (\<lambda>c. case c of Send s bytes a \<Rightarrow> if s = sock then take (nat a) bytes else [] | _ \<Rightarrow> []) cs)"

lemma wire_Nil [simp]: "wire sock [] = []"
  by (simp add: wire_def)

lemma wire_append [simp]: "wire sock (cs @ ds) = wire sock cs @ wire sock ds"
  by (simp add: wire_def)

definition sends_progress :: "sock_env \<Rightarrow> bool" where
  "sends_progress io \<longleftrightarrow> (\<forall>k n. 0 < n \<longrightarrow> 0 < send_answer io k n \<and> send_answer io k n \<le> int n) \<and>
     (\<forall>k. send_answer io k 4 = 4)"

lemma send_all_sends:
  assumes "sends_progress io"
  shows "0 \<le> w \<Longrightarrow> w \<le> int (length tx) \<Longrightarrow>
    \<exists>c'. send_all io sock tx w c = Some c' \<and> snode c' = snode c \<and>
      wire sock (sock_calls c') = wire sock (sock_calls c) @ drop (length tx - nat w) tx"
proof (induction "nat w" arbitrary: w c rule: less_induct)
  case less
  show ?case
  proof (cases "w > 0")
    case False
    with less.prems have "w = 0" by simp
    then show ?thesis by (subst send_all.simps) simp
  next
    case True
    let ?rest = "drop (length tx - nat w) tx"
    obtain a c1 where snd: "sock_send io sock ?rest c = (a, c1)" by fastforce
    have len: "length ?rest = nat w" using less.prems True by simp
    have "0 < nat w" using True by simp
    then have "0 < send_answer io (sends c) (nat w) \<and> send_answer io (sends c) (nat w) \<le> int (nat w)"
      using assms unfolding sends_progress_def by blast
    then have a: "0 < a" "a \<le> w" and c1: "snode c1 = snode c"
      "wire sock (sock_calls c1) = wire sock (sock_calls c) @ take (nat a) ?rest"
      using snd len True less.prems
      by (auto simp: sock_send_def Let_def sock_calling_def wire_def)
    have "nat (w - a) < nat w" "0 \<le> w - a" "w - a \<le> int (length tx)" using a less.prems True by simp_all
    from less.hyps [OF this, of c1] obtain c' where
      c': "send_all io sock tx (w - a) c1 = Some c'" "snode c' = snode c1"
      "wire sock (sock_calls c') = wire sock (sock_calls c1) @ drop (length tx - nat (w - a)) tx" by blast
    have "length tx - nat (w - a) = nat a + (length tx - nat w)" using a less.prems by linarith
    then have "take (nat a) ?rest @ drop (length tx - nat (w - a)) tx = ?rest"
      by (simp add: drop_drop [symmetric] del: drop_drop)
    moreover have "send_all io sock tx w c = Some c'"
      using True snd a c' by (subst send_all.simps) simp
    ultimately show ?thesis using c' c1 by auto
  qed
qed

lemma send_reply_sends:
  assumes "sends_progress io" "n = length tx" "n < 65536"
  shows "\<exists>c'. send_reply io sock n tx c = Some (Inr c') \<and> snode c' = snode c \<and>
    wire sock (sock_calls c') = wire sock (sock_calls c) @ sprintf_04x n @ tx"
proof -
  note hd = sprintf_04x_ok(1) [OF assms(3)]
  define c1 where "c1 = snd (sock_send io sock (sprintf_04x n) c)"
  have c1: "snode c1 = snode c" "wire sock (sock_calls c1) = wire sock (sock_calls c) @ sprintf_04x n"
    using assms(1) hd by (simp_all add: c1_def sock_send_def Let_def sends_progress_def sock_calling_def wire_def)
  from send_all_sends [OF assms(1), of "int n" tx sock c1] assms(2) obtain c' where
    "send_all io sock tx (int n) c1 = Some c'" "snode c' = snode c1"
    "wire sock (sock_calls c') = wire sock (sock_calls c1) @ tx" by auto
  with c1 hd show ?thesis by (simp add: send_reply_def Let_def ack_buff_size_def c1_def)
qed

text \<open>A server whose peer accepts nothing any more is caught in the loop.\<close>

theorem send_all_hangs:
  assumes "\<And>k n. send_answer io k n = 0" "0 < w"
  shows "send_all io sock tx w c = None"
proof -
  have "send_answer io = (\<lambda>_ _. 0)" using assms(1) by auto
  moreover have "send_all io sock tx w c = Some c' \<Longrightarrow> send_answer io = (\<lambda>_ _. 0) \<longrightarrow> \<not> 0 < w" for c'
    by (rule send_all.raw_induct [where P = "\<lambda>io sock tx w c c'. send_answer io = (\<lambda>_ _. 0) \<longrightarrow> \<not> 0 < w"])
      (auto simp: Let_def sock_send_def split: if_splits)
  ultimately show ?thesis using assms(2) by (cases "send_all io sock tx w c") auto
qed

section \<open>A connection\<close>

text \<open>The replies to requests that arrive one after the other, and the node after them.\<close>

definition node_free :: "node \<Rightarrow> node" where
  "node_free s = upd_brd (\<lambda>b. b\<lparr>heap := vPortFree (heap b)\<rparr>) s"

fun serve :: "net_env \<Rightarrow> string list \<Rightarrow> node \<Rightarrow> (string list \<times> node) res option" where
  "serve env [] s = Some (Inr ([], s))"
| "serve env (q # qs) s =
     Option.bind (json_wp env q s) (\<lambda>w. case w of
         Inl e \<Rightarrow> Some (Inl e)
       | Inr ((n, t), s) \<Rightarrow>
           (case t of
              Some txt \<Rightarrow>
                if n = 0 then serve env qs s
                else map_option (\<lambda>r. res_bind r (\<lambda>(ts, s). Inr (txt # ts, s))) (serve env qs (node_free s))
            | None \<Rightarrow> serve env qs s))"

lemma retransmit_silent:
  assumes "q \<noteq> []" "length q < rx_buffer_size" "json_wp env q (snode c) = Some (Inr ((0, t), s1))"
  shows "do_retransmit env io sock (RecvBytes q # rs) c =
    do_retransmit env io sock rs ((sock_calling [Recv sock (rx_buffer_size - 1)] c)\<lparr>snode := s1\<rparr>)"
  using assms by (simp add: Let_def sock_calling_def)

lemma retransmit_replies:
  assumes "q \<noteq> []" "length q < rx_buffer_size" "json_wp env q (snode c) = Some (Inr ((n, Some t), s1))" "0 < n"
    and "send_reply io sock n (t @ [NUL]) ((sock_calling [Recv sock (rx_buffer_size - 1)] c)\<lparr>snode := s1\<rparr>) = Some (Inr c2)"
  shows "do_retransmit env io sock (RecvBytes q # rs) c = do_retransmit env io sock rs (server_free c2)"
  using assms by (simp add: Let_def sock_calling_def)

lemma retransmit_serves:
  assumes "sends_progress io"
  shows "serve env qs (snode c) = Some (Inr (ts, s)) \<Longrightarrow> list_all dbl_fits (temperatures (snode c)) \<Longrightarrow>
    list_all (\<lambda>q. q \<noteq> [] \<and> length q < 1024) qs \<Longrightarrow> list_all (\<lambda>t. length t + 1 < 65536) ts \<Longrightarrow>
    \<exists>c'. do_retransmit env io sock (map RecvBytes qs @ rs) c = do_retransmit env io sock rs c' \<and>
      snode c' = s \<and> wire sock (sock_calls c') = wire sock (sock_calls c) @ concat (map frame ts)"
proof (induction qs arbitrary: c ts)
  case (Cons q qs)
  define c1 where "c1 = sock_calling [Recv sock (rx_buffer_size - 1)] c"
  have c1: "snode c1 = snode c" "wire sock (sock_calls c1) = wire sock (sock_calls c)"
    by (simp_all add: c1_def sock_calling_def wire_def)
  obtain w where w: "json_wp env q (snode c) = Some w" using json_wp_returns by blast
  with Cons.prems(1) obtain r where "w = Inr r" by (cases w) simp_all
  then obtain n t s1 where wp: "json_wp env q (snode c) = Some (Inr ((n, t), s1))"
    using w by (cases r) auto
  note eff = json_wp_effect [OF wp Cons.prems(2)]
  have temps: "list_all dbl_fits (temperatures s1)"
    using eff(1) Cons.prems(2) by (simp add: same_rest_def)
  have q: "q \<noteq> []" "length q < rx_buffer_size" using Cons.prems(3) by (simp_all add: rx_buffer_size_def)
  show ?case
  proof (cases "n = 0")
    case True
    with Cons.prems(1) wp have "serve env qs s1 = Some (Inr (ts, s))" by (auto split: option.splits)
    with Cons.IH [of "c1\<lparr>snode := s1\<rparr>" ts] temps Cons.prems(3,4) obtain c' where
      "do_retransmit env io sock (map RecvBytes qs @ rs) (c1\<lparr>snode := s1\<rparr>) = do_retransmit env io sock rs c'"
      "snode c' = s" "wire sock (sock_calls c') = wire sock (sock_calls c1) @ concat (map frame ts)" by auto
    with True q wp c1 retransmit_silent [OF q, of env c t s1] show ?thesis by (auto simp: c1_def)
  next
    case False
    then obtain u where t: "t = Some u" using eff(4) by (cases t) auto
    with eff(5) False have n: "n = length u + 1" by auto
    from Cons.prems(1) wp t False obtain ts1 where
      rest: "serve env qs (node_free s1) = Some (Inr (ts1, s))" "ts = u # ts1"
      by (auto simp: res_bind_eq_Inr)
    have small: "n < 65536" using Cons.prems(4) rest(2) n by simp
    from send_reply_sends [OF assms _ small, of "u @ [NUL]" sock "c1\<lparr>snode := s1\<rparr>"] n obtain c2 where
      c2: "send_reply io sock n (u @ [NUL]) (c1\<lparr>snode := s1\<rparr>) = Some (Inr c2)" "snode c2 = s1"
        "wire sock (sock_calls c2) = wire sock (sock_calls c1) @ frame u"
      by (auto simp: frame_def)
    have free: "snode (server_free c2) = node_free s1" "sock_calls (server_free c2) = sock_calls c2"
      using c2(2) by (simp_all add: server_free_def node_free_def)
    have "temperatures (node_free s1) = temperatures s1" by (simp add: node_free_def upd_brd_def)
    with Cons.IH [of "server_free c2" ts1] rest free temps Cons.prems(3,4) obtain c' where
      "do_retransmit env io sock (map RecvBytes qs @ rs) (server_free c2) = do_retransmit env io sock rs c'"
      "snode c' = s" "wire sock (sock_calls c') = wire sock (sock_calls c2) @ concat (map frame ts1)" by auto
    with False wp c1 c2 t rest(2) retransmit_replies [OF q, of env c n u s1] show ?thesis by (auto simp: c1_def)
  qed
qed auto

section \<open>A node for closed examples\<close>

definition demo_node :: node where
  "demo_node =
     \<lparr>msys = \<lparr>motors = (\<lambda>a. axis_struct a mot_pap_zero),
        brd = board_init\<lparr>supervisor_queue := Some [], heap := \<lparr>live = 0, calls = 0, grants = (\<lambda>_ _. True)\<rparr>,
          trace := [Chip_GPIO_SetPinState (fst (dir_pin Y_AXIS)) (snd (dir_pin Y_AXIS)) False,
                    Chip_GPIO_SetPinState (fst (dir_pin Z_AXIS)) (snd (dir_pin Z_AXIS)) False]\<rparr>,
        enc = \<lparr>count_z = 0, count_b = 0, count_a = 0\<rparr>, stall_detection = True, sleeping = None\<rparr>,
      eeprom = (\<lambda>_. 0), temperatures = [Fin False 0 0, Fin False 0 0]\<rparr>"

definition demo_env :: net_env where
  "demo_env = \<lparr>clk_rate = (\<lambda>_. 204000000), page_addr = (\<lambda>p off. 128 * p + off), page_size = 128, padding = 0,
     stack_junk = replicate 12 0, free_heap = (\<lambda>_. 20000), min_free_heap = (\<lambda>_. 10000)\<rparr>"

text \<open>The text of a request, in which a grave accent stands for a double quote.\<close>

definition request_text :: "string \<Rightarrow> string" where
  "request_text t = map (\<lambda>ch. if ch = CHR 0x60 then CHR 0x22 else ch) t"

definition version_request :: string where
  "version_request = request_text (''{`commands`:[{`command`:`PROTOCOL_VERSION`}]}'')"



definition version_value :: json where
  "version_value = JObject [(''commands'', JArray [JObject [(''command'', JString ''PROTOCOL_VERSION'')] 1] 1)] 1"

definition version_reply :: string where
  "version_reply = request_text (''{`PROTOCOL_VERSION`:{`Version`:`JSON_1.0`}}'')"

definition demo_mem :: "int \<Rightarrow> nat \<Rightarrow> mem" where
  "demo_mem l k = \<lparr>live = l, calls = k, grants = (\<lambda>_ _. True)\<rparr>"

lemma demo_heap: "node_heap demo_node = demo_mem 0 0" "temperatures demo_node = [Fin False 0 0, Fin False 0 0]"
  by (simp_all add: node_heap_def demo_node_def demo_mem_def)

lemma demo_generous: "generous (node_heap demo_node)"
  by (simp add: demo_heap demo_mem_def generous_def)

lemma demo_temperatures: "list_all dbl_fits (temperatures demo_node)" "length (temperatures demo_node) = 2"
  by (simp_all add: demo_heap dbl_fits_def dbl_ok_def)

lemma generous_mem: "generous m \<Longrightarrow> m = demo_mem (live m) (calls m)"
  by (cases m) (auto simp: demo_mem_def generous_def fun_eq_iff)

lemma version_parse: "json_parse_string (Some version_request) (demo_mem 0 0) = Some (Some version_value, demo_mem 15 25)"
proof -
  have "map_option (\<lambda>(v, m). (v, live m, calls m)) (json_parse_string (Some version_request) (demo_mem 0 0)) =
      Some (Some version_value, 15, 25)"
    by code_simp
  then obtain m where m: "json_parse_string (Some version_request) (demo_mem 0 0) = Some (Some version_value, m)"
    "live m = 15" "calls m = 25" by auto
  from generous_parse [OF m(1)] demo_generous have "generous m" by (simp add: demo_heap)
  from generous_mem [OF this] m show ?thesis by simp
qed

lemma version_init: "json_value_init_object (demo_mem 15 25) = (Some (JObject [] 0), demo_mem 17 27)"
  by (simp add: json_value_init_object_def pvPortMalloc_def demo_mem_def)

lemma version_reply_to:
  "(case reply_to demo_env (Some version_value) (Some (JObject [] 0)) (with_heap (demo_mem 17 27) demo_node) of
      Inr (r, tx, s) \<Rightarrow> Some r | _ \<Rightarrow> None) = Some (44, Some version_reply)"
  by code_simp

lemma version_wp: "\<exists>s'. json_wp demo_env version_request demo_node = Some (Inr ((44, Some version_reply), s'))"
proof -
  obtain tx s where "reply_to demo_env (Some version_value) (Some (JObject [] 0)) (with_heap (demo_mem 17 27) demo_node) =
      Inr ((44, Some version_reply), tx, s)"
    using version_reply_to by (auto split: sum.splits)
  with json_wp_eq [of version_request demo_node _ _ _ _ demo_env] version_parse version_init show ?thesis
    by (simp add: demo_heap)
qed

section \<open>Properties\<close>



text \<open>C25. A reply is the text of a well-formed object with the length of the text and its final
  zero, in one block that the caller owns. Beyond this block and those of the log's messages no
  block is freed that was allocated before the request; none is lost when the text parses and
  the allocator refuses nothing.\<close>

theorem replies_account_for_their_memory:
  assumes "json_wp env rx_buff s = Some (Inr ((n, t), s'))" "list_all dbl_fits (temperatures s)"
  shows "(n = 0 \<or> (\<exists>v. json_ok v \<and> json_value_get_type (Some v) = JSONObject \<and>
        t = Some (json_text True False v 0) \<and> n = length (json_text True False v 0) + 1)) \<and>
    node_blocks s + (if t = None then 0 else 1) \<le> node_blocks s' \<and>
    (generous (node_heap s) \<and> parses rx_buff (node_heap s) \<longrightarrow>
       node_blocks s' = node_blocks s + (if t = None then 0 else 1))"
proof -
  have "\<exists>v. json_ok v \<and> json_value_get_type (Some v) = JSONObject \<and>
      t = Some (json_text True False v 0) \<and> n = length (json_text True False v 0) + 1" if n: "0 < n"
  proof -
    obtain u where u: "t = Some u" using json_wp_effect(4) [OF assms] n by (cases t) auto
    from json_wp_effect(5) [OF assms u n] u show ?thesis by (auto simp: is_object_def)
  qed
  with json_wp_effect(2,3) [OF assms] show ?thesis by auto
qed

theorem replies_account_for_their_memory_witness:
  "\<exists>s'. json_wp demo_env version_request demo_node = Some (Inr ((44, Some version_reply), s')) \<and>
     node_blocks s' = node_blocks demo_node + 1"
proof -
  obtain s' where w: "json_wp demo_env version_request demo_node = Some (Inr ((44, Some version_reply), s'))"
    using version_wp by blast
  have "parses version_request (node_heap demo_node)" by (simp add: parses_def demo_heap(1) version_parse)
  with replies_account_for_their_memory [OF w demo_temperatures(1)] demo_generous w show ?thesis by auto
qed




text \<open>C27. When every send accepts at least a byte, and the four bytes of a header at once, a
  connection that sends requests and then closes ends, the socket gets the replies in the order
  of the requests, each behind its length, and a peer that reads lengths and texts gets back
  exactly the replies, each with its final zero.\<close>

theorem replies_are_framed:
  assumes "sends_progress io" "list_all dbl_fits (temperatures (snode c))"
    and "list_all (\<lambda>q. q \<noteq> [] \<and> length q < 1024) qs"
    and "serve env qs (snode c) = Some (Inr (ts, s))" "list_all (\<lambda>t. length t + 1 < 65536) ts"
  shows "\<exists>c'. do_retransmit env io sock (map RecvBytes qs @ [RecvBytes []]) c = Some (Inr (True, c')) \<and>
    snode c' = node_log Warn ''do_retransmit'' ''Connection closed'' s \<and>
    wire sock (sock_calls c') = wire sock (sock_calls c) @ concat (map frame ts) \<and>
    unframe (concat (map frame ts)) = map (\<lambda>t. t @ [NUL]) ts"
proof -
  from retransmit_serves [OF assms(1,4,2,3,5), of sock "[RecvBytes []]"] obtain c1 where
    c1: "do_retransmit env io sock (map RecvBytes qs @ [RecvBytes []]) c = do_retransmit env io sock [RecvBytes []] c1"
      "snode c1 = s" "wire sock (sock_calls c1) = wire sock (sock_calls c) @ concat (map frame ts)" by blast
  have last: "do_retransmit env io sock [RecvBytes []] c1 =
      Some (Inr (True, server_log Warn ''do_retransmit'' ''Connection closed'' (sock_calling [Recv sock (rx_buffer_size - 1)] c1)))"
    by (simp add: Let_def)
  show ?thesis
    unfolding c1(1) last using c1(2,3) unframe_frames [OF assms(5)]
    by (auto simp: server_log_def sock_calling_def wire_def)
qed

definition demo_io :: sock_env where
  "demo_io = \<lparr>err_no = 0, send_answer = (\<lambda>_ n. int (min n 10))\<rparr>"

theorem replies_are_framed_witness:
  "\<exists>c'. do_retransmit demo_env demo_io 3 [RecvBytes version_request, RecvBytes []]
     \<lparr>snode = demo_node, sock_calls = [], sends = 0\<rparr> = Some (Inr (True, c')) \<and>
   wire 3 (sock_calls c') = ''002c'' @ version_reply @ [NUL]"
proof -
  let ?c = "\<lparr>snode = demo_node, sock_calls = [], sends = 0\<rparr>"
  obtain s' where "json_wp demo_env version_request demo_node = Some (Inr ((44, Some version_reply), s'))"
    using version_wp by blast
  then have srv: "serve demo_env [version_request] (snode ?c) = Some (Inr ([version_reply], node_free s'))" by simp
  have io: "sends_progress demo_io" by (simp add: sends_progress_def demo_io_def)
  have short: "list_all (\<lambda>q. q \<noteq> [] \<and> length q < 1024) [version_request]"
    by (simp add: version_request_def request_text_def)
  have fits: "list_all (\<lambda>t. length t + 1 < 65536) [version_reply]"
    by (simp add: version_reply_def request_text_def)
  have "frame version_reply = ''002c'' @ version_reply @ [NUL]" by code_simp
  then show ?thesis
    using replies_are_framed [OF io _ short srv fits, of 3] demo_temperatures(1)
    by (auto simp del: do_retransmit.simps)
qed

end
