(* ===== verification/DeviceTasks.thy ===== *)
theory DeviceTasks imports MotSystem OneWire Sensors begin

text \<open>
  The task that reads the digital sensors (nfc/src/temperature_ds18b20.c) and the task that
  starts the network and then watches its cable (\<open>vStackIpSetup\<close> of nfc/src/lwip_init.c), with
  the printing of an address (\<open>ipaddr_ntoa_r\<close> of lwip/src/core/ipv4/ip_addr.c). What these tasks
  ask of the network stack and of the Ethernet part is recorded; what it answers is an input.
\<close>

section \<open>The digital sensors\<close>

text \<open>
  The driver of the sensor is not in the repository: what its three calls answer for a sensor
  is the input \<open>drv\<close> (the two error codes, the error code of the conversion and the number that
  the variable then holds).
\<close>

type_synonym ds_driver = "nat \<Rightarrow> int \<times> int \<times> int \<times> dbl"

definition ds_log :: "string \<Rightarrow> int \<Rightarrow> board \<Rightarrow> board" where
  "ds_log what err b = lDebug Info ''temperature_ds18b20_read'' (what @ '': '' @ show_int err) b"

definition temperature_ds18b20_read ::
    "ds_driver \<Rightarrow> nat \<Rightarrow> dbl list \<Rightarrow> dbl \<Rightarrow> board \<Rightarrow> (int \<times> dbl) \<times> board" where
  "temperature_ds18b20_read drv sensor temps var b =
     (if sensor \<ge> length temps then ((ERR_RANGE, var), b)
      else (case drv sensor of (e1, e2, e3, x) \<Rightarrow>
        let b = ds_log ''start_conversion'' e1 b
        in if e1 \<noteq> ERR_OK then ((e1, var), b)
           else (let b = ds_log ''read_temperature'' e2 b
                 in if e2 \<noteq> ERR_OK then ((e2, var), b)
                    else (let b = ds_log ''get_tempeature_float'' e3 b
                          in if e3 \<noteq> ERR_OK then ((e3, x), b) else ((ERR_OK, x), b)))))"

text \<open>One turn of the task; the variable of each sensor is read into in place.\<close>

definition temperature_ds18b20_task :: "ds_driver \<Rightarrow> dbl list \<times> board \<Rightarrow> dbl list \<times> board" where
  "temperature_ds18b20_task drv tb =
     (case tb of (temps, b) \<Rightarrow>
      case temperature_ds18b20_read drv 0 temps (temps ! 0) b of ((_, x), b) \<Rightarrow>
      let temps = temps[0 := x]
      in case temperature_ds18b20_read drv 1 temps (temps ! 1) b of ((_, y), b) \<Rightarrow>
           (temps[1 := y], vTaskDelay (pdMS_TO_TICKS 2000) b))"

text \<open>\<open>ds_init\<close> and \<open>ds_search\<close> are the two calls of the driver, on the bus.\<close>

definition temperature_ds18b20_init ::
    "('b wire \<Rightarrow> 'b wire) \<Rightarrow> ('b wire \<Rightarrow> int \<times> 'b wire) \<Rightarrow> 'b wire \<times> board \<Rightarrow> 'b wire \<times> board" where
  "temperature_ds18b20_init ds_init ds_search wb =
     (case ds_search (ds_init (one_wire_init (fst wb))) of (err, w) \<Rightarrow>
        (w, lDebug Info ''temperature_ds18b20_init'' ''DS18B20: task created''
              (lDebug Info ''temperature_ds18b20_init'' (''search_And_assign_ROM: '' @ show_int err) (snd wb))))"

section \<open>The text of an address\<close>

definition addr_byte :: "32 word \<Rightarrow> nat \<Rightarrow> nat" where
  "addr_byte addr k = unat (drop_bit (8 * k) addr AND 255)"

text \<open>The digits of a byte, the last one first.\<close>

function inv_digits :: "nat \<Rightarrow> string" where
  "inv_digits n = char_of (48 + n mod 10) # (if n div 10 = 0 then [] else inv_digits (n div 10))"
  by auto
termination by (relation "measure id") auto

declare inv_digits.simps [simp del]

text \<open>Writing characters into a buffer of \<open>buflen\<close>; \<open>None\<close> when one does not fit.\<close>

fun put_chars :: "nat \<Rightarrow> string \<Rightarrow> string \<Rightarrow> string option" where
  "put_chars buflen [] buf = Some buf"
| "put_chars buflen (c # cs) buf = (if length buf \<ge> buflen then None else put_chars buflen cs (buf @ [c]))"

fun ntoa_bytes :: "nat \<Rightarrow> nat list \<Rightarrow> string \<Rightarrow> string option" where
  "ntoa_bytes buflen [] buf = Some buf"
| "ntoa_bytes buflen (n # ns) buf =
     Option.bind (put_chars buflen (rev (inv_digits n)) buf) (\<lambda>buf.
     Option.bind (put_chars buflen ''.'' buf) (\<lambda>buf. ntoa_bytes buflen ns buf))"

text \<open>The zero replaces the last dot.\<close>

definition ipaddr_ntoa_r :: "32 word \<Rightarrow> nat \<Rightarrow> string option" where
  "ipaddr_ntoa_r addr buflen = map_option butlast (ntoa_bytes buflen (map (addr_byte addr) [0, 1, 2, 3]) [])"

section \<open>Starting the network\<close>

datatype net_call =
    Tcpip_init
  | Netif_add "32 word" "32 word" "32 word"
  | Netif_set_default
  | Netif_set_up
  | Ethernet_SetPriority int
  | Ethernet_EnableIRQ
  | Sys_thread_new string "16 word" nat nat
  | Chip_ENET_SetSpeed bool
  | Chip_ENET_SetDuplex bool
  | Netif_set_link_up
  | Netif_set_link_down
  | Debugout string

record net_start =
  net_calls :: "net_call list"
  prt_ip :: bool
  scells :: cells
  sboard :: board

definition net_calling :: "net_call list \<Rightarrow> net_start \<Rightarrow> net_start" where
  "net_calling cs t = t\<lparr>net_calls := net_calls t @ cs\<rparr>"

definition msDelay :: "int \<Rightarrow> board \<Rightarrow> board" where
  "msDelay ms b = vTaskDelay (u32 (configTICK_RATE_HZ * ms) div 1000) b"

definition config_ETHERNET_INTERRUPT_PRIORITY :: int where
  "config_ETHERNET_INTERRUPT_PRIORITY = 6"

definition stackIp_ThreadInit :: "16 word \<Rightarrow> net_start \<Rightarrow> net_start" where
  "stackIp_ThreadInit prt t = net_calling [Sys_thread_new ''tcp_thread'' prt 1024 (configMAX_PRIORITIES - 2)] t"

text \<open>
  \<open>busy k\<close> says that the stack is not ready at the \<open>k\<close>-th look; the wait sleeps a millisecond
  after each. A failing \<open>netif_add\<close> ends in the assertion loop: there is no result then.
\<close>

definition vStackIpSetup_start ::
    "(nat \<Rightarrow> nat \<Rightarrow> nat) \<Rightarrow> (nat \<Rightarrow> bool) \<Rightarrow> bool \<Rightarrow> net_start \<Rightarrow> net_start option" where
  "vStackIpSetup_start addr busy netif_added t =
     (let t = net_calling [Tcpip_init] t
      in Option.bind (wait_while busy 0) (\<lambda>looks.
           let t = t\<lparr>sboard := (msDelay 1 ^^ (looks - 1)) (sboard t)\<rparr>
           in case settings_read addr (scells t, sboard t) of (s, b) \<Rightarrow>
                let t = net_calling [Netif_add (ipaddr s) (netmask s) (gw s)] (t\<lparr>sboard := b\<rparr>)
                in if \<not> netif_added then None
                   else Some (stackIp_ThreadInit (port s)
                     (net_calling [Netif_set_default, Netif_set_up,
                        Ethernet_SetPriority config_ETHERNET_INTERRUPT_PRIORITY, Ethernet_EnableIRQ] t))))"

section \<open>Watching the cable\<close>

text \<open>The bits of the status word that the driver of the Ethernet part answers.\<close>

record phy_status =
  PHY_LINK_CHANGED :: bool
  PHY_LINK_CONNECTED :: bool
  PHY_LINK_SPEED100 :: bool
  PHY_LINK_FULLDUPLX :: bool

text \<open>The addresses that the interface has: its own, the mask and the gateway.\<close>

type_synonym netif_addrs = "32 word \<times> 32 word \<times> 32 word"

definition print_ip :: "netif_addrs \<Rightarrow> net_start \<Rightarrow> net_start" where
  "print_ip addrs t =
     (case addrs of (ip, nmask, gateway) \<Rightarrow>
        if prt_ip t then t
        else if ip = 0 then t
        else (net_calling
          [Debugout ''- NASA GSPC - SM-13 New Fixture Controller Remote Terminal Unit. Attempting to open interface.'',
           Debugout (''IP_ADDR    : '' @ the (ipaddr_ntoa_r ip 16)),
           Debugout (''NET_MASK   : '' @ the (ipaddr_ntoa_r nmask 16)),
           Debugout (''GATEWAY_IP : '' @ the (ipaddr_ntoa_r gateway 16))] t)\<lparr>prt_ip := True\<rparr>)"

definition link_up :: "phy_status \<Rightarrow> net_start \<Rightarrow> net_start" where
  "link_up physts t =
     net_calling [Chip_ENET_SetSpeed (PHY_LINK_SPEED100 physts), Chip_ENET_SetDuplex (PHY_LINK_FULLDUPLX physts),
                  Netif_set_link_up]
       (t\<lparr>sboard := relay_spare_led True (sboard t), prt_ip := False\<rparr>)"

definition link_down :: "net_start \<Rightarrow> net_start" where
  "link_down t = net_calling [Netif_set_link_down] (t\<lparr>sboard := relay_spare_led False (sboard t)\<rparr>)"

text \<open>One turn of the loop of the task.\<close>

definition link_poll :: "netif_addrs \<Rightarrow> phy_status \<Rightarrow> net_start \<Rightarrow> net_start" where
  "link_poll addrs physts t =
     print_ip addrs
       (if PHY_LINK_CHANGED physts then
          (let t = (if PHY_LINK_CONNECTED physts then link_up physts t else link_down t);
               t = net_calling [Debugout (''Link connect status: '' @
                     show_int (if PHY_LINK_CONNECTED physts then 1 else 0))] t
           in t\<lparr>sboard := vTaskDelay (configTICK_RATE_HZ div 4) (sboard t)\<rparr>)
        else t)"

end
