(* ===== verification/DeviceProperties.thy ===== *)
theory DeviceProperties imports DeviceTasks NetProperties begin

text \<open>What the text of an address, the start of the network and the sensors' task guarantee.\<close>

section \<open>Addresses\<close>





















section \<open>Settings from a command to the next start\<close>









end
