(* ===== verification/Heap4.thy ===== *)
theory Heap4 imports Prelude begin

text \<open>
  The allocator behind \<open>pvPortMalloc\<close> and \<open>vPortFree\<close> (freertos/src/heap_4.c), with the block
  list, the canaries and the scans that the repository adds to it and the configuration turns on
  (configUSE_MALLOC_DEBUG). The heap is raw memory: \<open>ram\<close> maps the address of an aligned word to
  its 32-bit value, a pointer is an address, and the fields of a block's header are the words at
  its address. A result \<open>None\<close> says that the call does not return: a loop runs for ever, a null
  pointer is followed, or a \<open>configASSERT\<close> fails, whose handler in nfc/src/main.c never returns.
\<close>

unbundle bit_operations_syntax

section \<open>State\<close>

record heap4 =
  ram :: "nat \<Rightarrow> nat"
  pxEnd :: nat
  xFreeBytesRemaining :: nat
  xMinimumEverFreeBytesRemaining :: nat
  xBlockAllocatedBit :: nat
  allocList :: "nat list"

text \<open>The addresses of the variables \<open>ucHeap\<close> and \<open>xStart\<close>.\<close>

record heap4_place =
  ucHeap :: nat
  xStart :: nat

definition total_heap_size :: nat where "total_heap_size = 40 * 1024"
definition portBYTE_ALIGNMENT :: nat where "portBYTE_ALIGNMENT = 8"
definition xHeapStructSize :: nat where "xHeapStructSize = 16"
definition heapMINIMUM_BLOCK_SIZE :: nat where "heapMINIMUM_BLOCK_SIZE = xHeapStructSize * 2"
definition HEAD_CANARY_PATTERN :: nat where "HEAD_CANARY_PATTERN = 0xABBA1234"
definition TAIL_CANARY_PATTERN :: nat where "TAIL_CANARY_PATTERN = 0xBAAD5678"
definition allocList_size :: nat where "allocList_size = 256"

text \<open>The variables before the first call.\<close>

definition heap4_static :: "(nat \<Rightarrow> nat) \<Rightarrow> heap4" where
  "heap4_static r =
     \<lparr>ram = r, pxEnd = 0, xFreeBytesRemaining = 0, xMinimumEverFreeBytesRemaining = 0,
      xBlockAllocatedBit = 0, allocList = replicate allocList_size 0\<rparr>"

section \<open>Words and fields\<close>

definition w32 :: "nat \<Rightarrow> nat" where "w32 n = n mod 4294967296"
definition sub32 :: "nat \<Rightarrow> nat \<Rightarrow> nat" where "sub32 a b = w32 (a + 4294967296 - b)"
definition align8 :: "nat \<Rightarrow> nat" where "align8 n = n div 8 * 8"

definition asserting :: "bool \<Rightarrow> unit option" where
  "asserting c = (if c then Some () else None)"

definition fld :: "nat \<Rightarrow> nat \<Rightarrow> heap4 \<Rightarrow> nat option" where
  "fld off p h = (if p = 0 then None else Some (ram h (p + off)))"

definition set_fld :: "nat \<Rightarrow> nat \<Rightarrow> nat \<Rightarrow> heap4 \<Rightarrow> heap4 option" where
  "set_fld off p v h = (if p = 0 then None else Some (h\<lparr>ram := (ram h)(p + off := v)\<rparr>))"

abbreviation "head_canary \<equiv> fld 0"
abbreviation "pxNextFreeBlock \<equiv> fld 4"
abbreviation "xBlockSize \<equiv> fld 8"
abbreviation "xOwner \<equiv> fld 12"
abbreviation "set_head_canary \<equiv> set_fld 0"
abbreviation "set_next \<equiv> set_fld 4"
abbreviation "set_size \<equiv> set_fld 8"
abbreviation "set_owner \<equiv> set_fld 12"

section \<open>The free list\<close>

partial_function (option) find_place :: "heap4 \<Rightarrow> nat \<Rightarrow> nat \<Rightarrow> nat option" where
  "find_place h blk pxIterator =
     Option.bind (pxNextFreeBlock pxIterator h) (\<lambda>nx.
       if nx < blk then find_place h blk nx else Some pxIterator)"

text \<open>Merging with the block before.\<close>

definition merge_before :: "nat \<Rightarrow> nat \<Rightarrow> heap4 \<Rightarrow> (nat \<times> heap4) option" where
  "merge_before pxIterator blk h =
     Option.bind (xBlockSize pxIterator h) (\<lambda>isz.
       if pxIterator + isz = blk then
         Option.bind (xBlockSize blk h) (\<lambda>bsz.
         Option.bind (set_size pxIterator (w32 (isz + bsz)) h) (\<lambda>h. Some (pxIterator, h)))
       else Some (blk, h))"

text \<open>Merging with the block behind, and the link to it.\<close>

definition merge_behind :: "nat \<Rightarrow> nat \<Rightarrow> heap4 \<Rightarrow> heap4 option" where
  "merge_behind pxIterator blk h =
     Option.bind (xBlockSize blk h) (\<lambda>bsz.
     Option.bind (pxNextFreeBlock pxIterator h) (\<lambda>nx.
       if blk + bsz = nx then
         (if nx \<noteq> pxEnd h then
            Option.bind (xBlockSize nx h) (\<lambda>nsz.
            Option.bind (set_size blk (w32 (bsz + nsz)) h) (\<lambda>h.
            Option.bind (pxNextFreeBlock nx h) (\<lambda>nn. set_next blk nn h)))
          else set_next blk (pxEnd h) h)
       else set_next blk nx h))"

definition prvInsertBlockIntoFreeList :: "heap4_place \<Rightarrow> nat \<Rightarrow> heap4 \<Rightarrow> heap4 option" where
  "prvInsertBlockIntoFreeList pl blk h =
     Option.bind (find_place h blk (xStart pl)) (\<lambda>pxIterator.
     Option.bind (merge_before pxIterator blk h) (\<lambda>(blk, h).
     Option.bind (merge_behind pxIterator blk h) (\<lambda>h.
       if pxIterator \<noteq> blk then set_next pxIterator blk h else Some h)))"

definition prvHeapInit :: "heap4_place \<Rightarrow> heap4 \<Rightarrow> heap4 option" where
  "prvHeapInit pl h =
     (let ux = ucHeap pl;
          first = (if ux mod portBYTE_ALIGNMENT \<noteq> 0 then align8 (w32 (ux + (portBYTE_ALIGNMENT - 1))) else ux);
          total = total_heap_size - (first - ux);
          pend = align8 (w32 (first + total) - xHeapStructSize)
      in Option.bind (set_next (xStart pl) first h) (\<lambda>h.
         Option.bind (set_size (xStart pl) 0 h) (\<lambda>h.
         Option.bind (set_size pend 0 (h\<lparr>pxEnd := pend\<rparr>)) (\<lambda>h.
         Option.bind (set_next pend 0 h) (\<lambda>h.
         Option.bind (set_size first (pend - first) h) (\<lambda>h.
         Option.bind (set_next first pend h) (\<lambda>h.
           Some (h\<lparr>xMinimumEverFreeBytesRemaining := pend - first, xFreeBytesRemaining := pend - first,
                   xBlockAllocatedBit := push_bit 31 1\<rparr>))))))))"

section \<open>The list of allocated blocks\<close>

text \<open>The canary of every block of the free list but the last, the end marker.\<close>

partial_function (option) update_canaries :: "heap4 \<Rightarrow> nat \<Rightarrow> heap4 option" where
  "update_canaries h start =
     Option.bind (set_head_canary start HEAD_CANARY_PATTERN h) (\<lambda>h.
     Option.bind (pxNextFreeBlock start h) (\<lambda>nx.
     Option.bind (pxNextFreeBlock nx h) (\<lambda>nn.
       if nn \<noteq> 0 then update_canaries h nx else Some h)))"

definition vPortUpdateFreeBlockList :: "heap4_place \<Rightarrow> heap4 \<Rightarrow> heap4 option" where
  "vPortUpdateFreeBlockList pl h = update_canaries h (xStart pl)"

text \<open>The first free entry, when there is one, gets the address.\<close>

fun add_entry :: "nat \<Rightarrow> nat list \<Rightarrow> nat list" where
  "add_entry p [] = []"
| "add_entry p (x # xs) = (if x = 0 then p # xs else x # add_entry p xs)"

definition tail_canary_at :: "nat \<Rightarrow> nat \<Rightarrow> heap4 \<Rightarrow> nat" where
  "tail_canary_at p sz h = p + (sz - (sz AND xBlockAllocatedBit h)) - 4"

definition vPortAddToList :: "heap4_place \<Rightarrow> nat \<Rightarrow> heap4 \<Rightarrow> heap4 option" where
  "vPortAddToList pl p h =
     Option.bind (set_head_canary p HEAD_CANARY_PATTERN h) (\<lambda>h.
     Option.bind (xBlockSize p h) (\<lambda>sz.
       let h = h\<lparr>ram := (ram h)(tail_canary_at p sz h := TAIL_CANARY_PATTERN),
                 allocList := add_entry p (allocList h)\<rparr>
       in vPortUpdateFreeBlockList pl h))"

text \<open>
  The position of the address, when the list has it; the entries behind move down by one and the
  last entry stays what it is.
\<close>

fun position :: "nat \<Rightarrow> nat list \<Rightarrow> nat option" where
  "position p [] = None"
| "position p (x # xs) = (if x = p then Some 0 else map_option Suc (position p xs))"

definition vPortRmFromList :: "nat \<Rightarrow> heap4 \<Rightarrow> nat \<times> heap4" where
  "vPortRmFromList p h =
     (case position p (allocList h) of
        None \<Rightarrow> (255, h)
      | Some i \<Rightarrow>
          (let xs = (allocList h)[i := 0]
           in (0, h\<lparr>allocList := take i xs @ drop (Suc i) xs @ [last xs]\<rparr>)))"

section \<open>Allocating\<close>

partial_function (option) find_fit :: "heap4 \<Rightarrow> nat \<Rightarrow> nat \<Rightarrow> nat \<Rightarrow> (nat \<times> nat) option" where
  "find_fit h want prev blk =
     Option.bind (xBlockSize blk h) (\<lambda>sz.
       if sz < want then
         Option.bind (pxNextFreeBlock blk h) (\<lambda>nx.
           if nx \<noteq> 0 then find_fit h want blk nx else Some (prev, blk))
       else Some (prev, blk))"

text \<open>The size with the header and the tail canary, rounded up.\<close>

definition wanted_size :: "nat \<Rightarrow> nat option" where
  "wanted_size n =
     (if n > 0 then
        (let n = w32 (w32 (n + xHeapStructSize) + 4)
         in if n mod portBYTE_ALIGNMENT \<noteq> 0 then
              (let n = w32 (n + (portBYTE_ALIGNMENT - n mod portBYTE_ALIGNMENT))
               in Option.bind (asserting (n mod portBYTE_ALIGNMENT = 0)) (\<lambda>_. Some n))
            else Some n)
      else Some 0)"

text \<open>\<open>task\<close> is the current task once the scheduler runs.\<close>

definition set_owner_of :: "nat option \<Rightarrow> nat \<Rightarrow> heap4 \<Rightarrow> heap4 option" where
  "set_owner_of task p h = (case task of None \<Rightarrow> Some h | Some t \<Rightarrow> set_owner p t h)"

definition split_block :: "heap4_place \<Rightarrow> nat \<Rightarrow> nat \<Rightarrow> heap4 \<Rightarrow> heap4 option" where
  "split_block pl want blk h =
     Option.bind (xBlockSize blk h) (\<lambda>sz.
       if sub32 sz want > heapMINIMUM_BLOCK_SIZE then
         (let new = blk + want
          in Option.bind (asserting (new mod portBYTE_ALIGNMENT = 0)) (\<lambda>_.
             Option.bind (set_size new (sub32 sz want) h) (\<lambda>h.
             Option.bind (set_size blk want h) (\<lambda>h. prvInsertBlockIntoFreeList pl new h))))
       else Some h)"

definition claim_block :: "nat \<Rightarrow> heap4 \<Rightarrow> heap4 option" where
  "claim_block blk h =
     Option.bind (xBlockSize blk h) (\<lambda>sz.
       let free = sub32 (xFreeBytesRemaining h) sz;
           h = h\<lparr>xFreeBytesRemaining := free,
                 xMinimumEverFreeBytesRemaining := min free (xMinimumEverFreeBytesRemaining h)\<rparr>
       in Option.bind (set_size blk (sz OR xBlockAllocatedBit h) h) (\<lambda>h. set_next blk 0 h))"

definition take_block :: "heap4_place \<Rightarrow> nat option \<Rightarrow> nat \<Rightarrow> nat \<Rightarrow> nat \<Rightarrow> heap4 \<Rightarrow> (nat \<times> heap4) option" where
  "take_block pl task want prev blk h =
     Option.bind (pxNextFreeBlock prev h) (\<lambda>p.
     Option.bind (set_owner_of task p h) (\<lambda>h.
     Option.bind (pxNextFreeBlock blk h) (\<lambda>nx.
     Option.bind (set_next prev nx h) (\<lambda>h.
     Option.bind (split_block pl want blk h) (\<lambda>h.
     Option.bind (claim_block blk h) (\<lambda>h. Some (p + xHeapStructSize, h)))))))"

definition heap4_malloc :: "heap4_place \<Rightarrow> nat option \<Rightarrow> nat \<Rightarrow> heap4 \<Rightarrow> (nat \<times> heap4) option" where
  "heap4_malloc pl task n h =
     Option.bind (if pxEnd h = 0 then prvHeapInit pl h else Some h) (\<lambda>h.
     Option.bind
       (if n AND xBlockAllocatedBit h \<noteq> 0 then Some (0, h)
        else Option.bind (wanted_size n) (\<lambda>want.
          if want > 0 \<and> want \<le> xFreeBytesRemaining h then
            Option.bind (pxNextFreeBlock (xStart pl) h) (\<lambda>blk.
            Option.bind (find_fit h want (xStart pl) blk) (\<lambda>(prev, blk).
              if blk \<noteq> pxEnd h then take_block pl task want prev blk h else Some (0, h)))
          else Some (0, h))) (\<lambda>(pv, h).
     Option.bind (if pv \<noteq> 0 then vPortAddToList pl (pv - xHeapStructSize) h else Some h) (\<lambda>h.
     Option.bind (asserting (pv mod portBYTE_ALIGNMENT = 0)) (\<lambda>_. Some (pv, h)))))"

section \<open>Releasing\<close>

definition release_block :: "heap4_place \<Rightarrow> nat \<Rightarrow> nat \<Rightarrow> heap4 \<Rightarrow> heap4 option" where
  "release_block pl lnk sz h =
     (let sz = sz - (sz AND xBlockAllocatedBit h)
      in Option.bind (set_size lnk sz h) (\<lambda>h.
         Option.bind (set_owner lnk 0 (h\<lparr>xFreeBytesRemaining := w32 (xFreeBytesRemaining h + sz)\<rparr>)) (\<lambda>h.
           let h = snd (vPortRmFromList lnk h)
           in Option.bind (prvInsertBlockIntoFreeList pl lnk h) (\<lambda>h. vPortUpdateFreeBlockList pl h))))"

definition heap4_free :: "heap4_place \<Rightarrow> nat \<Rightarrow> heap4 \<Rightarrow> heap4 option" where
  "heap4_free pl pv h =
     (if pv \<noteq> 0 then
        (let lnk = sub32 pv xHeapStructSize
         in Option.bind (xBlockSize lnk h) (\<lambda>sz.
            Option.bind (asserting (sz AND xBlockAllocatedBit h \<noteq> 0)) (\<lambda>_.
            Option.bind (pxNextFreeBlock lnk h) (\<lambda>nx.
            Option.bind (asserting (nx = 0)) (\<lambda>_.
              if sz AND xBlockAllocatedBit h \<noteq> 0 then
                (if nx = 0 then release_block pl lnk sz h else Some h)
              else Some h)))))
      else Some h)"

definition heap4_free_size :: "heap4 \<Rightarrow> nat" where
  "heap4_free_size h = xFreeBytesRemaining h"

definition heap4_min_free_size :: "heap4 \<Rightarrow> nat" where
  "heap4_min_free_size h = xMinimumEverFreeBytesRemaining h"

section \<open>The scans\<close>

partial_function (option) check_free :: "heap4 \<Rightarrow> nat \<Rightarrow> unit option" where
  "check_free h start =
     Option.bind (head_canary start h) (\<lambda>c.
     Option.bind (asserting (c = HEAD_CANARY_PATTERN)) (\<lambda>_.
     Option.bind (pxNextFreeBlock start h) (\<lambda>nx.
     Option.bind (pxNextFreeBlock nx h) (\<lambda>nn.
       if nn \<noteq> 0 then check_free h nx else Some ()))))"

definition check_block :: "heap4 \<Rightarrow> nat \<Rightarrow> unit option" where
  "check_block h p =
     Option.bind (head_canary p h) (\<lambda>c.
     Option.bind (asserting (c = HEAD_CANARY_PATTERN)) (\<lambda>_.
     Option.bind (xBlockSize p h) (\<lambda>sz.
       asserting (ram h (tail_canary_at p sz h) = TAIL_CANARY_PATTERN))))"

text \<open>
  The loop over \<open>allocList\<close> from an entry on. It looks at the next entry before it tests the
  position: behind the last one that is a read outside the array.
\<close>

fun check_list :: "heap4 \<Rightarrow> nat list \<Rightarrow> unit res option" where
  "check_list h [] = Some (Inl OutOfBounds)"
| "check_list h (p # ps) =
     Option.bind (check_block h p) (\<lambda>_.
       case ps of
         [] \<Rightarrow> Some (Inl OutOfBounds)
       | q # _ \<Rightarrow> if q = 0 then Some (Inr ()) else check_list h ps)"

definition vPortCheckIntegrity :: "heap4_place \<Rightarrow> heap4 \<Rightarrow> unit res option" where
  "vPortCheckIntegrity pl h =
     Option.bind (check_free h (xStart pl)) (\<lambda>_. check_list h (allocList h))"

text \<open>
  What the search for lost blocks takes from the kernel and the linker: the lowest address of a
  task's stack, the current task, and the bounds of the third RAM.
\<close>

record scan_env =
  pxStackBase :: "nat \<Rightarrow> nat"
  current_task :: nat
  start_RAM3 :: nat
  end_RAM3 :: nat

text \<open>Both entries of the table are the third RAM.\<close>

definition ram_regions :: "scan_env \<Rightarrow> (nat \<times> nat) list" where
  "ram_regions e = [(start_RAM3 e, end_RAM3 e), (start_RAM3 e, end_RAM3 e)]"

definition isCurrentStackAddress :: "scan_env \<Rightarrow> nat \<Rightarrow> bool" where
  "isCurrentStackAddress e x \<longleftrightarrow> x > pxStackBase e (current_task e) \<and> x < current_task e"

text \<open>The pointer to words advances by four words.\<close>

function scan_stack :: "heap4 \<Rightarrow> nat \<Rightarrow> nat \<Rightarrow> nat \<Rightarrow> bool" where
  "scan_stack h target a b =
     (if a \<le> b then (if ram h a = target then True else scan_stack h target (a + 16) b) else False)"
  by auto
termination by (relation "measure (\<lambda>(h, target, a, b). Suc b - a)") auto

function scan_region :: "scan_env \<Rightarrow> heap4 \<Rightarrow> nat \<Rightarrow> nat \<Rightarrow> nat \<Rightarrow> bool" where
  "scan_region e h target a b =
     (if a < b then
        (if ram h a = target \<and> \<not> isCurrentStackAddress e a then True else scan_region e h target (a + 4) b)
      else False)"
  by auto
termination by (relation "measure (\<lambda>(e, h, target, a, b). b - a)") auto

declare scan_stack.simps [simp del] scan_region.simps [simp del]

definition block_found :: "scan_env \<Rightarrow> heap4 \<Rightarrow> nat \<Rightarrow> nat \<Rightarrow> bool" where
  "block_found e h task p =
     (let target = xHeapStructSize + p
      in scan_stack h target (pxStackBase e task) (sub32 task xHeapStructSize) \<or>
         list_ex (\<lambda>(a, b). scan_region e h target a b) (ram_regions e))"

fun scan_list :: "scan_env \<Rightarrow> heap4 \<Rightarrow> nat list \<Rightarrow> nat \<Rightarrow> nat res" where
  "scan_list e h [] orphaned = Inl OutOfBounds"
| "scan_list e h (p # ps) orphaned =
     (if p = 0 then Inr orphaned
      else (let task = ram h (p + 12)
            in scan_list e h ps
                 (if task \<noteq> 0 \<and> \<not> block_found e h task p then orphaned + 1 else orphaned)))"

definition vPortMemoryScan :: "scan_env \<Rightarrow> heap4 \<Rightarrow> nat res" where
  "vPortMemoryScan e h = scan_list e h (allocList h) 0"

text \<open>One turn of the task that checks the memory.\<close>

definition mem_check_task :: "heap4_place \<Rightarrow> scan_env \<Rightarrow> heap4 \<Rightarrow> nat res option" where
  "mem_check_task pl e h =
     map_option (\<lambda>r. res_bind r (\<lambda>_. vPortMemoryScan e h)) (vPortCheckIntegrity pl h)"

end
