(* ===== verification/Heap4Lists.thy ===== *)
theory Heap4Lists imports Heap4 begin

text \<open>
  The allocator's memory seen as lists: the blocks that tile the heap, used or free, and the
  chain of the free ones. The lemmas say how the loops over the free list and the insertion of
  a block act on the chain.
\<close>

section \<open>Blocks that tile the heap\<close>

type_synonym block = "nat \<times> nat \<times> bool"

fun tiles :: "nat \<Rightarrow> nat \<Rightarrow> block list \<Rightarrow> bool" where
  "tiles a e [] \<longleftrightarrow> a = e"
| "tiles a e ((b, s, u) # bs) \<longleftrightarrow> b = a \<and> 24 \<le> s \<and> 8 dvd s \<and> tiles (a + s) e bs"

definition extent :: "block list \<Rightarrow> nat" where
  "extent bs = sum_list (map (\<lambda>(b, s, u). s) bs)"

definition free_blocks :: "block list \<Rightarrow> (nat \<times> nat) list" where
  "free_blocks bs = map (\<lambda>(b, s, u). (b, s)) (filter (\<lambda>(b, s, u). \<not> u) bs)"

definition used_blocks :: "block list \<Rightarrow> (nat \<times> nat) list" where
  "used_blocks bs = map (\<lambda>(b, s, u). (b, s)) (filter (\<lambda>(b, s, u). u) bs)"

fun coalesced :: "block list \<Rightarrow> bool" where
  "coalesced (x # y # bs) \<longleftrightarrow> (snd (snd x) \<or> snd (snd y)) \<and> coalesced (y # bs)"
| "coalesced _ \<longleftrightarrow> True"

lemma blocks_simps [simp]:
  "extent [] = 0" "extent ((b, s, u) # bs) = s + extent bs" "extent (xs @ ys) = extent xs + extent ys"
  "free_blocks [] = []" "free_blocks ((b, s, u) # bs) = (if u then free_blocks bs else (b, s) # free_blocks bs)"
  "free_blocks (xs @ ys) = free_blocks xs @ free_blocks ys"
  "used_blocks [] = []" "used_blocks ((b, s, u) # bs) = (if u then (b, s) # used_blocks bs else used_blocks bs)"
  "used_blocks (xs @ ys) = used_blocks xs @ used_blocks ys"
  by (simp_all add: extent_def free_blocks_def used_blocks_def)

lemma free_blocks_set: "(b, s) \<in> set (free_blocks bs) \<longleftrightarrow> (b, s, False) \<in> set bs"
  by (induction bs) (auto split: if_splits)

lemma used_blocks_set: "(b, s) \<in> set (used_blocks bs) \<longleftrightarrow> (b, s, True) \<in> set bs"
  by (induction bs) (auto split: if_splits)

lemma tiles_extent: "tiles a e bs \<Longrightarrow> e = a + extent bs"
  by (induction a e bs rule: tiles.induct) auto

lemma tiles_append: "tiles a e (xs @ ys) \<longleftrightarrow> tiles a (a + extent xs) xs \<and> tiles (a + extent xs) e ys"
  by (induction xs arbitrary: a) (auto simp: add.assoc)

lemma tiles_within: "tiles a e bs \<Longrightarrow> (b, s, u) \<in> set bs \<Longrightarrow> a \<le> b \<and> b + s \<le> e \<and> 24 \<le> s \<and> 8 dvd s"
  by (induction a e bs rule: tiles.induct) (auto dest: tiles_extent)

lemma tiles_aligned: "tiles a e bs \<Longrightarrow> 8 dvd a \<Longrightarrow> (b, s, u) \<in> set bs \<Longrightarrow> 8 dvd b"
  by (induction a e bs rule: tiles.induct) auto

lemma coalesced_append:
  "coalesced (xs @ ys) \<longleftrightarrow> coalesced xs \<and> coalesced ys \<and>
     (xs \<noteq> [] \<and> ys \<noteq> [] \<longrightarrow> snd (snd (last xs)) \<or> snd (snd (hd ys)))"
proof (induction xs rule: coalesced.induct)
  case (1 x y bs)
  then show ?case by auto
qed (cases ys; auto)+

text \<open>Addresses whose headers do not overlap.\<close>

definition spaced :: "nat set \<Rightarrow> bool" where
  "spaced A \<longleftrightarrow> (\<forall>x\<in>A. \<forall>y\<in>A. x \<noteq> y \<longrightarrow> x + 16 \<le> y \<or> y + 16 \<le> x)"

lemma spaced_field:
  "spaced A \<Longrightarrow> x \<in> A \<Longrightarrow> y \<in> A \<Longrightarrow> i < 16 \<Longrightarrow> j < 16 \<Longrightarrow> x + i = y + j \<longleftrightarrow> x = y \<and> i = j"
  unfolding spaced_def by (cases "x = y") (auto, force)

lemma spaced_subset: "spaced B \<Longrightarrow> A \<subseteq> B \<Longrightarrow> spaced A"
  unfolding spaced_def by blast

definition addrs :: "block list \<Rightarrow> nat set" where
  "addrs bs = fst ` set bs"

lemma addrs_simps [simp]: "addrs [] = {}" "addrs ((b, s, u) # bs) = insert b (addrs bs)" "addrs (xs @ ys) = addrs xs \<union> addrs ys"
  by (auto simp: addrs_def)

lemma addrs_within: "tiles a e bs \<Longrightarrow> x \<in> addrs bs \<Longrightarrow> a \<le> x \<and> x + 24 \<le> e"
  by (auto simp: addrs_def dest: tiles_within)

lemma tiles_spaced: "tiles a e bs \<Longrightarrow> spaced (insert e (addrs bs))"
proof (induction a e bs rule: tiles.induct)
  case (2 a e b s u bs)
  then have IH: "spaced (insert e (addrs bs))" and t: "tiles (a + s) e bs" "24 \<le> s" "b = a" by auto
  have "x = a \<or> a + 16 \<le> x" if "x \<in> insert e (insert a (addrs bs))" for x
    using that addrs_within [OF t(1)] tiles_extent [OF t(1)] t(2) by fastforce
  with IH show ?case unfolding t(3) addrs_simps spaced_def by blast
qed (simp add: spaced_def)

lemma free_addrs: "fst ` set (free_blocks bs) \<subseteq> addrs bs" "fst ` set (used_blocks bs) \<subseteq> addrs bs"
  by (force simp: addrs_def free_blocks_set used_blocks_set)+

section \<open>The chain of the free blocks\<close>

fun chain :: "(nat \<Rightarrow> nat) \<Rightarrow> nat \<Rightarrow> nat \<Rightarrow> (nat \<times> nat) list \<Rightarrow> bool" where
  "chain r p e [] \<longleftrightarrow> r (p + 4) = e"
| "chain r p e ((b, s) # fl) \<longleftrightarrow> r (p + 4) = b \<and> r (b + 8) = s \<and> chain r b e fl"

lemma chain_append: "chain r p e (xs @ (b, s) # ys) \<longleftrightarrow> chain r p b xs \<and> r (b + 8) = s \<and> chain r b e ys"
  by (induction xs arbitrary: p) auto

lemma chain_cong:
  "r (p + 4) = r' (p' + 4) \<Longrightarrow> (\<And>b. b \<in> fst ` set fl \<Longrightarrow> r (b + 4) = r' (b + 4) \<and> r (b + 8) = r' (b + 8)) \<Longrightarrow>
    chain r p e fl = chain r' p' e fl"
proof (induction fl arbitrary: p p')
  case (Cons x fl)
  obtain b s where x: "x = (b, s)" by fastforce
  have "r (b + 4) = r' (b + 4)" "r (b + 8) = r' (b + 8)" using Cons.prems(2) [of b] x by auto
  with Cons x show ?case by auto
qed auto

lemma chain_next: "chain r p e fl \<Longrightarrow> r (p + 4) = (case fl of [] \<Rightarrow> e | (b, s) # _ \<Rightarrow> b)"
  by (cases fl) auto

lemma chain_last: "chain r p e (fl @ gl) \<Longrightarrow> chain r (last (p # map fst fl)) e gl"
  by (induction fl arbitrary: p) auto

lemma find_place_chain:
  "chain (ram h) p e (fl1 @ fl2) \<Longrightarrow> p \<noteq> 0 \<Longrightarrow> 0 \<notin> fst ` set fl1 \<Longrightarrow> (\<And>c. c \<in> fst ` set fl1 \<Longrightarrow> c < b) \<Longrightarrow>
    (\<And>c. c \<in> fst ` set fl2 \<Longrightarrow> b \<le> c) \<Longrightarrow> b \<le> e \<Longrightarrow> find_place h b p = Some (last (p # map fst fl1))"
proof (induction fl1 arbitrary: p)
  case Nil
  then have "\<not> ram h (p + 4) < b"
  proof (cases fl2)
    case (Cons x fl)
    with Nil show ?thesis by (metis Nil.prems(5) append_Nil chain.simps(2) image_eqI list.set_intros(1) not_le prod.collapse)
  qed auto
  with Nil show ?case by (subst find_place.simps) (simp add: fld_def)
next
  case (Cons x fl1)
  obtain c s where x: "x = (c, s)" by fastforce
  have "find_place h b c = Some (last (c # map fst fl1))"
    using Cons.prems x by (intro Cons.IH) auto
  with Cons.prems x show ?case by (subst find_place.simps) (auto simp: fld_def)
qed

lemma find_fit_found:
  "chain (ram h) p e (fl1 @ (b, s) # fl2) \<Longrightarrow> 0 \<notin> insert b (fst ` set fl1) \<Longrightarrow>
    (\<And>c t. (c, t) \<in> set fl1 \<Longrightarrow> t < want) \<Longrightarrow> want \<le> s \<Longrightarrow>
    find_fit h want p (ram h (p + 4)) = Some (last (p # map fst fl1), b)"
proof (induction fl1 arbitrary: p)
  case Nil
  then show ?case by (subst find_fit.simps) (simp add: fld_def)
next
  case (Cons x fl1)
  obtain c t where x: "x = (c, t)" by fastforce
  have "find_fit h want c (ram h (c + 4)) = Some (last (c # map fst fl1), b)"
    using Cons.prems x by (intro Cons.IH) auto
  moreover have "ram h (c + 4) \<noteq> 0"
    using Cons.prems x chain_next [of "ram h" c e "fl1 @ (b, s) # fl2"] by (cases fl1) auto
  ultimately show ?case using Cons.prems x by (subst find_fit.simps) (auto simp: fld_def)
qed

lemma find_fit_none:
  "chain (ram h) p e fl \<Longrightarrow> 0 \<notin> insert e (fst ` set fl) \<Longrightarrow> (\<And>c t. (c, t) \<in> set fl \<Longrightarrow> t < want) \<Longrightarrow>
    ram h (e + 8) = 0 \<Longrightarrow> ram h (e + 4) = 0 \<Longrightarrow> 0 < want \<Longrightarrow>
    \<exists>q. find_fit h want p (ram h (p + 4)) = Some (q, e)"
proof (induction fl arbitrary: p)
  case Nil
  then show ?case by (subst find_fit.simps) (simp add: fld_def)
next
  case (Cons x fl)
  obtain c t where x: "x = (c, t)" by fastforce
  have "\<exists>q. find_fit h want c (ram h (c + 4)) = Some (q, e)"
    using Cons.prems x by (intro Cons.IH) auto
  moreover have "ram h (c + 4) \<noteq> 0"
    using Cons.prems x chain_next [of "ram h" c e fl] by (cases fl) auto
  ultimately show ?case using Cons.prems x by (subst find_fit.simps) (auto simp: fld_def)
qed


section \<open>Inserting a block\<close>

definition join_next :: "nat \<times> nat \<Rightarrow> (nat \<times> nat) list \<Rightarrow> (nat \<times> nat) list" where
  "join_next x fl =
     (case fl of
        [] \<Rightarrow> [x]
      | (n, ns) # q \<Rightarrow> if fst x + snd x = n then (fst x, snd x + ns) # q else x # fl)"

definition insert_free :: "(nat \<times> nat) list \<Rightarrow> nat \<times> nat \<Rightarrow> (nat \<times> nat) list \<Rightarrow> (nat \<times> nat) list" where
  "insert_free fl1 x fl2 =
     (if fl1 \<noteq> [] \<and> fst (last fl1) + snd (last fl1) = fst x
      then butlast fl1 @ join_next (fst (last fl1), snd (last fl1) + snd x) fl2
      else fl1 @ join_next x fl2)"

lemma join_next_head: "\<exists>t. join_next (b, s) fl = (b, t) # tl (join_next (b, s) fl)"
  by (simp add: join_next_def split: list.splits prod.splits)

lemma set_fld_eq: "p \<noteq> 0 \<Longrightarrow> set_fld i p v h = Some (h\<lparr>ram := (ram h)(p + i := v)\<rparr>)"
  by (simp add: set_fld_def)

lemma chain_frame:
  assumes "spaced A" "b \<in> A" "fst ` set fl \<subseteq> A" "b \<notin> fst ` set fl"
    and "\<And>x. x \<noteq> b + 4 \<Longrightarrow> x \<noteq> b + 8 \<Longrightarrow> r' x = r x" "r' (p' + 4) = r (p + 4)" "chain r p e fl"
  shows "chain r' p' e fl"
proof -
  have "r (c + 4) = r' (c + 4) \<and> r (c + 8) = r' (c + 8)" if "c \<in> fst ` set fl" for c
  proof -
    have c: "c \<in> A" "c \<noteq> b" using that assms(3,4) by auto
    have "c + i \<noteq> b + j" if "i < 16" "j < 16" for i j
      using spaced_field [OF assms(1) c(1) assms(2) that] c(2) by simp
    from this [of 4 4] this [of 4 8] this [of 8 4] this [of 8 8] show ?thesis
      using assms(5) by simp
  qed
  with assms(6,7) chain_cong [of r p r' p' fl e] show ?thesis by simp
qed

lemma merge_behind_chain:
  assumes A: "spaced A" "0 \<notin> A" "b \<in> A" "e \<in> A" "fst ` set fl2 \<subseteq> A" "b \<notin> fst ` set fl2" "e \<notin> insert b (fst ` set fl2)"
    and ch: "chain (ram h) it e fl2" "ram h (b + 8) = s" "pxEnd h = e" "it \<noteq> 0" "distinct (map fst fl2)"
    and sz: "s + sum_list (map snd fl2) < 4294967296"
  shows "\<exists>r. merge_behind it b h = Some (h\<lparr>ram := r\<rparr>) \<and>
    chain r b e (tl (join_next (b, s) fl2)) \<and> r (b + 8) = snd (hd (join_next (b, s) fl2)) \<and>
    (\<forall>x. x \<noteq> b + 4 \<and> x \<noteq> b + 8 \<longrightarrow> r x = ram h x)"
proof (cases fl2)
  case Nil
  have "ram h (it + 4) = e" using ch(1) Nil by simp
  moreover have "b \<noteq> 0" using A(2,3) by metis
  ultimately show ?thesis
    using Nil ch by (intro exI [of _ "(ram h)(b + 4 := e)"]) (auto simp: merge_behind_def fld_def set_fld_eq join_next_def)
next
  case (Cons y q)
  obtain n ns where y: "y = (n, ns)" by fastforce
  have in_A: "n \<in> A" "n \<noteq> b" "n \<noteq> e" "b \<noteq> 0" "n \<noteq> 0" "fst ` set q \<subseteq> A" "b \<notin> fst ` set q"
    using A(2,3,5-7) Cons y by auto
  have link: "ram h (it + 4) = n" "ram h (n + 8) = ns" "chain (ram h) n e q" using ch(1) Cons y by auto
  have field: "c + i = b + j \<longleftrightarrow> c = b \<and> i = j" if "c \<in> A" "i < 16" "j < 16" for c i j
    using spaced_field [OF A(1) that(1) A(3) that(2,3)] .
  show ?thesis
  proof (cases "b + s = n")
    case True
    let ?r = "(ram h)(b + 8 := s + ns, b + 4 := ram h (n + 4))"
    have "s + ns < 4294967296" using sz Cons y by simp
    then have "merge_behind it b h = Some (h\<lparr>ram := ?r\<rparr>)"
      using True link in_A ch field [of n 4 8]
      by (simp add: merge_behind_def fld_def set_fld_eq w32_def)
    moreover have "chain ?r b e q"
      by (rule chain_frame [OF A(1,3) in_A(6,7) _ _ link(3)]) auto
    ultimately show ?thesis using Cons y True by (intro exI [of _ ?r]) (simp add: join_next_def)
  next
    case False
    let ?r = "(ram h)(b + 4 := n)"
    have "merge_behind it b h = Some (h\<lparr>ram := ?r\<rparr>)"
      using False link in_A ch by (simp add: merge_behind_def fld_def set_fld_eq)
    moreover have "chain ?r n e q"
      by (rule chain_frame [OF A(1,3) in_A(6,7) _ _ link(3)]) (use in_A(2) in auto)
    ultimately show ?thesis
      using Cons y False link ch(2) field [of n 8 4] in_A(1,2) by (intro exI [of _ ?r]) (simp add: join_next_def)
  qed
qed


lemma prvInsert_chain:
  assumes A: "spaced A" "0 \<notin> A" "xStart pl \<in> A" "b \<in> A" "e \<in> A" "fst ` set (fl1 @ fl2) \<subseteq> A"
    and dist: "distinct (xStart pl # b # e # map fst (fl1 @ fl2))"
    and ch: "chain (ram h) (xStart pl) e (fl1 @ fl2)" "ram h (b + 8) = s" "ram h (xStart pl + 8) = 0" "pxEnd h = e"
    and ord: "\<And>c. c \<in> fst ` set fl1 \<Longrightarrow> c < b" "\<And>c. c \<in> fst ` set fl2 \<Longrightarrow> b \<le> c" "b \<le> e"
    and sz: "s + sum_list (map snd (fl1 @ fl2)) < 4294967296"
  shows "\<exists>r. prvInsertBlockIntoFreeList pl b h = Some (h\<lparr>ram := r\<rparr>) \<and>
    chain r (xStart pl) e (insert_free fl1 (b, s) fl2) \<and>
    (\<forall>x. (\<forall>c \<in> insert (xStart pl) (insert b (fst ` set fl1)). x \<noteq> c + 4 \<and> x \<noteq> c + 8) \<or> x = xStart pl + 8 \<longrightarrow> r x = ram h x)"
proof -
  let ?X = "xStart pl"
  have nz: "?X \<noteq> 0" "b \<noteq> 0" "0 \<notin> fst ` set fl1" using A by (metis, metis, auto)
  have find: "find_place h b ?X = Some (last (?X # map fst fl1))"
    by (rule find_place_chain [OF ch(1) nz(1,3) ord])
  have fl2: "fst ` set fl2 \<subseteq> A" "b \<notin> fst ` set fl2" "e \<notin> insert b (fst ` set fl2)" "distinct (map fst fl2)"
    using A(6) dist by auto
  have field: "c + i = d + j \<longleftrightarrow> c = d \<and> i = j" if "c \<in> A" "d \<in> A" "i < 16" "j < 16" for c d i j
    using spaced_field [OF A(1) that] .
  show ?thesis
  proof (cases fl1 rule: rev_cases)
    case Nil
    have "s + sum_list (map snd fl2) < 4294967296" using sz Nil by simp
    from merge_behind_chain [OF A(1,2,4,5) fl2(1-3) _ ch(2,4) nz(1) fl2(4) this] ch(1) Nil
    obtain r where r: "merge_behind ?X b h = Some (h\<lparr>ram := r\<rparr>)" "chain r b e (tl (join_next (b, s) fl2))"
      "r (b + 8) = snd (hd (join_next (b, s) fl2))" "\<And>x. x \<noteq> b + 4 \<and> x \<noteq> b + 8 \<Longrightarrow> r x = ram h x" by auto
    let ?r = "r(?X + 4 := b)"
    have run: "prvInsertBlockIntoFreeList pl b h = Some (h\<lparr>ram := ?r\<rparr>)"
      using find Nil nz(1) ch(3) dist r(1)
      by (simp add: prvInsertBlockIntoFreeList_def merge_before_def fld_def set_fld_eq)
    have tl_A: "fst ` set (tl (join_next (b, s) fl2)) \<subseteq> fst ` set fl2"
      by (auto simp: join_next_def split: list.splits prod.splits if_splits)
    have "chain ?r b e (tl (join_next (b, s) fl2))"
      by (rule chain_frame [OF A(1,3) _ _ _ _ r(2)]) (use tl_A fl2(1) dist Nil field [OF A(4,3), of 4 4] in auto)
    moreover have "?r (b + 8) = r (b + 8)" using field [OF A(4,3), of 8 4] by simp
    ultimately have "chain ?r ?X e (join_next (b, s) fl2)"
      using r(3) join_next_head [of b s fl2] by (metis chain.simps(2) fun_upd_same list.sel(1) snd_conv)
    moreover have "?r x = ram h x" if "(\<forall>c \<in> insert ?X (insert b (fst ` set fl1)). x \<noteq> c + 4 \<and> x \<noteq> c + 8) \<or> x = ?X + 8" for x
      using that r(4) [of x] dist field [OF A(3,4), of 8 4] field [OF A(3,4), of 8 8] by auto
    ultimately show ?thesis using run Nil by (intro exI [of _ ?r]) (simp add: insert_free_def)
  next
    case (snoc g y)
    obtain p ps where y: "y = (p, ps)" by fastforce
    have p: "p \<in> A" "p \<noteq> 0" "p \<noteq> b" "p \<noteq> ?X" "p \<noteq> e" "p \<notin> fst ` set fl2" "p \<notin> fst ` set g" "fst ` set g \<subseteq> A" "b \<notin> fst ` set g"
      using A(2,6) dist snoc y by auto
    have parts: "chain (ram h) ?X p g" "ram h (p + 8) = ps" "chain (ram h) p e fl2"
      using ch(1) snoc y chain_append [of "ram h" ?X e g p ps fl2] by auto
    have find: "find_place h b ?X = Some p" using find snoc y by simp
    show ?thesis
    proof (cases "p + ps = b")
      case True
      let ?h = "h\<lparr>ram := (ram h)(p + 8 := ps + s)\<rparr>"
      have sum: "ps + s + sum_list (map snd fl2) < 4294967296" using sz snoc y by simp
      have before: "merge_before p b h = Some (p, ?h)"
        using True parts(2) p(2) nz(2) ch(2) sum by (simp add: merge_before_def fld_def set_fld_eq w32_def)
      have ch1: "chain (ram ?h) p e fl2"
        by (rule chain_frame [OF A(1) p(1) fl2(1) p(6) _ _ parts(3)]) auto
      from merge_behind_chain [OF A(1,2) p(1) A(5) fl2(1) p(6) _ ch1 _ _ p(2) fl2(4) sum] p(5) fl2(3) ch(4)
      obtain r where r: "merge_behind p p ?h = Some (h\<lparr>ram := r\<rparr>)" "chain r p e (tl (join_next (p, ps + s) fl2))"
        "r (p + 8) = snd (hd (join_next (p, ps + s) fl2))" "\<And>x. x \<noteq> p + 4 \<and> x \<noteq> p + 8 \<Longrightarrow> r x = ram h x" by auto
      have "chain r ?X p g"
        by (rule chain_frame [OF A(1) p(1,8,7) r(4) _ parts(1)]) (use r(4) [of "?X + 4"] p(4) field [OF A(3) p(1), of 4 4] field [OF A(3) p(1), of 4 8] in auto)
      then have "chain r ?X e (g @ join_next (p, ps + s) fl2)"
        using r(2,3) join_next_head [of p "ps + s" fl2] chain_append by (metis list.sel(1) snd_conv)
      moreover have "r x = ram h x" if "(\<forall>c \<in> insert ?X (insert b (fst ` set fl1)). x \<noteq> c + 4 \<and> x \<noteq> c + 8) \<or> x = ?X + 8" for x
        using that r(4) [of x] p(4) snoc y field [OF A(3) p(1), of 8 4] field [OF A(3) p(1), of 8 8] by auto
      moreover have "prvInsertBlockIntoFreeList pl b h = Some (h\<lparr>ram := r\<rparr>)"
        using find before r(1) by (simp add: prvInsertBlockIntoFreeList_def)
      ultimately show ?thesis using snoc y True by (intro exI [of _ r]) (simp add: insert_free_def)
    next
      case False
      have sum: "s + sum_list (map snd fl2) < 4294967296" using sz by simp
      have before: "merge_before p b h = Some (b, h)"
        using False parts(2) p(2) by (simp add: merge_before_def fld_def)
      from merge_behind_chain [OF A(1,2,4,5) fl2(1-3) parts(3) ch(2,4) p(2) fl2(4) sum]
      obtain r where r: "merge_behind p b h = Some (h\<lparr>ram := r\<rparr>)" "chain r b e (tl (join_next (b, s) fl2))"
        "r (b + 8) = snd (hd (join_next (b, s) fl2))" "\<And>x. x \<noteq> b + 4 \<and> x \<noteq> b + 8 \<Longrightarrow> r x = ram h x" by auto
      let ?r = "r(p + 4 := b)"
      have run: "prvInsertBlockIntoFreeList pl b h = Some (h\<lparr>ram := ?r\<rparr>)"
        using find before r(1) p(2,3) by (simp add: prvInsertBlockIntoFreeList_def set_fld_eq)
      have tl_A: "fst ` set (tl (join_next (b, s) fl2)) \<subseteq> fst ` set fl2"
        by (auto simp: join_next_def split: list.splits prod.splits if_splits)
      have "chain ?r b e (tl (join_next (b, s) fl2))"
        by (rule chain_frame [OF A(1) p(1) _ _ _ _ r(2)]) (use tl_A fl2(1) p(3,6) in auto)
      moreover have "?r (b + 8) = r (b + 8)" using field [OF A(4) p(1), of 8 4] by simp
      ultimately have ch2: "chain ?r p e (join_next (b, s) fl2)"
        using r(3) join_next_head [of b s fl2] by (metis chain.simps(2) fun_upd_same list.sel(1) snd_conv)
      have "chain r ?X p g"
        by (rule chain_frame [OF A(1,4) p(8,9) r(4) _ parts(1)]) (use r(4) [of "?X + 4"] dist field [OF A(3,4), of 4 4] field [OF A(3,4), of 4 8] in auto)
      then have "chain ?r ?X p g"
        by (rule chain_frame [OF A(1) p(1,8,7), rotated 2]) (use p(4) in auto)
      moreover have "?r (p + 8) = ps" using r(4) [of "p + 8"] parts(2) p(3) field [OF p(1) A(4), of 8 4] by simp
      ultimately have "chain ?r ?X e (g @ (p, ps) # join_next (b, s) fl2)" using ch2 chain_append by metis
      moreover have "?r x = ram h x" if "(\<forall>c \<in> insert ?X (insert b (fst ` set fl1)). x \<noteq> c + 4 \<and> x \<noteq> c + 8) \<or> x = ?X + 8" for x
        using that r(4) [of x] p(4) dist snoc y field [OF A(3) p(1), of 8 4] field [OF A(3,4), of 8 4] field [OF A(3,4), of 8 8] by auto
      ultimately show ?thesis using run snoc y False by (intro exI [of _ ?r]) (simp add: insert_free_def)
    qed
  qed
qed

end
