(* ===== verification/Heap4Inv.thy ===== *)
theory Heap4Inv imports Heap4Lists begin

text \<open>
  Releasing a block in the list of blocks: the freed block joins a free neighbour on either side,
  which keeps the tiling and leaves no two free neighbours, and the free ones among the result
  are what the insertion into the chain makes.
\<close>

section \<open>Releasing a block in the tiling\<close>

definition joined_before :: "block list \<Rightarrow> nat \<times> nat \<Rightarrow> block list \<times> nat \<times> nat" where
  "joined_before xs x =
     (if xs \<noteq> [] \<and> \<not> snd (snd (last xs))
      then (butlast xs, fst (last xs), fst (snd (last xs)) + snd x) else (xs, x))"

definition joined_behind :: "nat \<times> nat \<Rightarrow> block list \<Rightarrow> block list" where
  "joined_behind x ys =
     (if ys \<noteq> [] \<and> \<not> snd (snd (hd ys)) then (fst x, snd x + fst (snd (hd ys)), False) # tl ys
      else (fst x, snd x, False) # ys)"

definition release :: "block list \<Rightarrow> nat \<times> nat \<Rightarrow> block list \<Rightarrow> block list" where
  "release xs x ys = (case joined_before xs x of (xs', x') \<Rightarrow> xs' @ joined_behind x' ys)"

lemma coalesced_used [simp]: "coalesced ((b, s, True) # ys) = coalesced ys"
  by (cases ys) auto

lemma sum_join_next [simp]: "sum_list (map snd (join_next x fl)) = snd x + sum_list (map snd fl)"
  by (auto simp: join_next_def split: list.splits prod.splits)

lemma release_tiles:
  assumes t: "tiles a e (xs @ (b, s, u) # ys)" and c: "coalesced (xs @ (b, s, True) # ys)"
  shows "tiles a e (release xs (b, s) ys)" "coalesced (release xs (b, s) ys)"
    "free_blocks (release xs (b, s) ys) = insert_free (free_blocks xs) (b, s) (free_blocks ys)"
    "used_blocks (release xs (b, s) ys) = used_blocks xs @ used_blocks ys"
    "sum_list (map snd (free_blocks (release xs (b, s) ys))) =
       sum_list (map snd (free_blocks xs)) + s + sum_list (map snd (free_blocks ys))"
proof -
  have parts: "tiles a (a + extent xs) xs" "b = a + extent xs" "24 \<le> s" "8 dvd s" "tiles (b + s) e ys"
    using t by (auto simp: tiles_append)
  have cparts: "coalesced xs" "coalesced ys" using c by (auto simp: coalesced_append)
  have behind: "free_blocks (joined_behind (b', s') ys) = join_next (b', s') (free_blocks ys) \<and>
      used_blocks (joined_behind (b', s') ys) = used_blocks ys \<and> tiles b' e (joined_behind (b', s') ys) \<and>
      coalesced (joined_behind (b', s') ys) \<and> fst (hd (joined_behind (b', s') ys)) = b' \<and>
      sum_list (map snd (free_blocks (joined_behind (b', s') ys))) = s' + sum_list (map snd (free_blocks ys))"
    if "b' + s' = b + s" "24 \<le> s'" "8 dvd s'" for b' s'
  proof (cases ys)
    case Nil
    then show ?thesis using parts(5) that by (simp add: joined_behind_def join_next_def)
  next
    case (Cons y q)
    obtain n ns w where y: "y = (n, ns, w)" by (cases y)
    have n: "n = b + s" "24 \<le> ns" "8 dvd ns" "tiles (n + ns) e q" using parts(5) Cons y by auto
    show ?thesis
    proof (cases w)
      case True
      have "fst (hd (free_blocks q)) \<noteq> b + s" if "free_blocks q \<noteq> []"
      proof -
        obtain c t r where "free_blocks q = (c, t) # r" using \<open>free_blocks q \<noteq> []\<close> by (cases "free_blocks q") auto
        then have "(c, t, False) \<in> set q" "fst (hd (free_blocks q)) = c" using free_blocks_set [of c t q] by auto
        with tiles_within [OF n(4)] n(1,2) show ?thesis by fastforce
      qed
      with True Cons y n cparts(2) that parts(5) show ?thesis
        by (auto simp: joined_behind_def join_next_def split: list.splits)
    next
      case False
      have "coalesced ((b', s' + ns, False) # q)" using cparts(2) False Cons y by (cases q) auto
      with False Cons y n that show ?thesis
        by (auto simp: joined_behind_def join_next_def add.assoc [symmetric])
    qed
  qed
  have "tiles a e (release xs (b, s) ys) \<and> coalesced (release xs (b, s) ys) \<and>
    free_blocks (release xs (b, s) ys) = insert_free (free_blocks xs) (b, s) (free_blocks ys) \<and>
    used_blocks (release xs (b, s) ys) = used_blocks xs @ used_blocks ys \<and>
    sum_list (map snd (free_blocks (release xs (b, s) ys))) =
       sum_list (map snd (free_blocks xs)) + s + sum_list (map snd (free_blocks ys))"
  proof (cases xs rule: rev_cases)
    case Nil
    then show ?thesis
      using behind [of b s] parts by (simp add: release_def joined_before_def insert_free_def)
  next
    case (snoc g y)
    obtain p ps w where y: "y = (p, ps, w)" by (cases y)
    have p: "tiles a (a + extent g) g" "p = a + extent g" "24 \<le> ps" "8 dvd ps" "p + ps = b" "coalesced g"
      "g \<noteq> [] \<longrightarrow> snd (snd (last g)) \<or> w"
      using parts(1,2) cparts(1) snoc y by (auto simp: tiles_append coalesced_append)
    show ?thesis
    proof (cases w)
      case True
      have "fst (last (free_blocks g)) + snd (last (free_blocks g)) \<noteq> b" if "free_blocks g \<noteq> []"
      proof -
        obtain c t where ct: "last (free_blocks g) = (c, t)" by fastforce
        then have "(c, t) \<in> set (free_blocks g)" using last_in_set [OF that] by simp
        then have "(c, t, False) \<in> set g" by (simp add: free_blocks_set)
        from tiles_within [OF p(1) this] ct p(2,3,5) show ?thesis by auto
      qed
      moreover have "coalesced (xs @ joined_behind (b, s) ys)"
        using cparts(1) behind [of b s] parts(3,4) True snoc y by (simp add: coalesced_append)
      ultimately show ?thesis
        using True snoc y behind [of b s] parts
        by (auto simp: release_def joined_before_def insert_free_def tiles_append add.assoc)
    next
      case False
      have "coalesced (g @ joined_behind (p, ps + s) ys)"
        using p(6,7) behind [of p "ps + s"] p(3-5) parts(3,4) False by (simp add: coalesced_append)
      then show ?thesis
        using False snoc y behind [of p "ps + s"] p parts
        by (auto simp: release_def joined_before_def insert_free_def tiles_append add.assoc)
    qed
  qed
  then show "tiles a e (release xs (b, s) ys)" "coalesced (release xs (b, s) ys)"
    "free_blocks (release xs (b, s) ys) = insert_free (free_blocks xs) (b, s) (free_blocks ys)"
    "used_blocks (release xs (b, s) ys) = used_blocks xs @ used_blocks ys"
    "sum_list (map snd (free_blocks (release xs (b, s) ys))) =
       sum_list (map snd (free_blocks xs)) + s + sum_list (map snd (free_blocks ys))" by blast+
qed

end
