(* ===== verification/Heap4Ok.thy ===== *)
theory Heap4Ok imports Heap4Inv begin

text \<open>
  The invariant of the allocator: its blocks tile the heap, the free list is the chain of the
  free ones, no two of which are neighbours, and every used block carries its size, its mark
  and both canaries. Allocating and releasing keep it, and touch no word of another used block.
\<close>

section \<open>The invariant\<close>

definition used_ok :: "(nat \<Rightarrow> nat) \<Rightarrow> nat \<times> nat \<Rightarrow> bool" where
  "used_ok r x \<longleftrightarrow> r (fst x) = HEAD_CANARY_PATTERN \<and> r (fst x + 4) = 0 \<and>
     r (fst x + 8) = snd x + 2147483648 \<and> r (fst x + snd x - 4) = TAIL_CANARY_PATTERN"

definition heap_tiled :: "heap4_place \<Rightarrow> nat \<Rightarrow> nat \<Rightarrow> block list \<Rightarrow> bool" where
  "heap_tiled pl a e bs \<longleftrightarrow> tiles a e bs \<and> coalesced bs \<and> 8 dvd a \<and> 16 \<le> a \<and> e + 16 < 4294967296 \<and>
     e < a + 2147483648 \<and> xStart pl \<noteq> 0 \<and> (xStart pl + 16 \<le> a \<or> e + 16 \<le> xStart pl)"

definition list_linked :: "heap4_place \<Rightarrow> nat \<Rightarrow> (nat \<Rightarrow> nat) \<Rightarrow> (nat \<times> nat) list \<Rightarrow> bool" where
  "list_linked pl e r fl \<longleftrightarrow> chain r (xStart pl) e fl \<and> r (xStart pl + 8) = 0 \<and> r (e + 4) = 0 \<and> r (e + 8) = 0"

definition heap_ok :: "heap4_place \<Rightarrow> nat \<Rightarrow> nat \<Rightarrow> block list \<Rightarrow> heap4 \<Rightarrow> bool" where
  "heap_ok pl a e bs h \<longleftrightarrow> heap_tiled pl a e bs \<and> list_linked pl e (ram h) (free_blocks bs) \<and>
     list_all (used_ok (ram h)) (used_blocks bs) \<and> pxEnd h = e \<and> xBlockAllocatedBit h = 2147483648 \<and>
     xFreeBytesRemaining h = sum_list (map snd (free_blocks bs)) \<and>
     xMinimumEverFreeBytesRemaining h \<le> xFreeBytesRemaining h"

text \<open>The words that belong to the allocator when the blocks are \<open>bs\<close>.\<close>

definition owned :: "heap4_place \<Rightarrow> block list \<Rightarrow> nat \<Rightarrow> bool" where
  "owned pl bs x \<longleftrightarrow> (xStart pl \<le> x \<and> x < xStart pl + 16) \<or> (\<exists>(c, t) \<in> set (free_blocks bs). c \<le> x \<and> x < c + t)"

definition same_outside :: "heap4_place \<Rightarrow> block list \<Rightarrow> (nat \<Rightarrow> nat) \<Rightarrow> (nat \<Rightarrow> nat) \<Rightarrow> bool" where
  "same_outside pl bs r r' \<longleftrightarrow> (\<forall>x. \<not> owned pl bs x \<longrightarrow> r' x = r x)"

lemma same_outside_refl: "same_outside pl bs r r"
  by (simp add: same_outside_def)

lemma same_outside_trans: "same_outside pl bs r r' \<Longrightarrow> same_outside pl bs r' r'' \<Longrightarrow> same_outside pl bs r r''"
  by (simp add: same_outside_def)

lemma same_outside_write: "owned pl bs x \<Longrightarrow> same_outside pl bs r r' \<Longrightarrow> same_outside pl bs r (r'(x := v))"
  by (simp add: same_outside_def)

section \<open>Addresses\<close>

definition headers :: "heap4_place \<Rightarrow> nat \<Rightarrow> block list \<Rightarrow> nat set" where
  "headers pl e bs = insert (xStart pl) (insert e (addrs bs))"

lemma headers_spaced:
  assumes "heap_tiled pl a e bs"
  shows "spaced (headers pl e bs)" "0 \<notin> headers pl e bs"
proof -
  have t: "tiles a e bs" "16 \<le> a" "xStart pl \<noteq> 0" "xStart pl + 16 \<le> a \<or> e + 16 \<le> xStart pl" "a \<le> e"
    using assms tiles_extent [of a e bs] by (auto simp: heap_tiled_def)
  have in_heap: "a \<le> x \<and> x \<le> e" if "x \<in> insert e (addrs bs)" for x
    using that t(5) addrs_within [OF t(1)] by fastforce
  then show "0 \<notin> headers pl e bs" using t(2,3) by (fastforce simp: headers_def)
  have apart: "xStart pl + 16 \<le> x \<or> x + 16 \<le> xStart pl" if "x \<in> insert e (addrs bs)" for x
    using in_heap [OF that] t(4) by linarith
  then show "spaced (headers pl e bs)"
    using tiles_spaced [OF t(1)] unfolding headers_def spaced_def by blast
qed

lemma tiles_sorted: "tiles a e bs \<Longrightarrow> sorted_wrt (<) (map fst bs)"
proof (induction a e bs rule: tiles.induct)
  case (2 a e b s u bs)
  then have "b < x" if "x \<in> addrs bs" for x using addrs_within [of "a + s" e bs x] that by auto
  with 2 show ?case by (auto simp: addrs_def)
qed simp

lemma free_sorted: "tiles a e bs \<Longrightarrow> sorted_wrt (<) (map fst (free_blocks bs))"
proof (induction a e bs rule: tiles.induct)
  case (2 a e b s u bs)
  then have "b < x" if "x \<in> fst ` set (free_blocks bs)" for x
    using addrs_within [of "a + s" e bs x] that free_addrs(1) [of bs] by fastforce
  with 2 show ?case by (auto simp: addrs_def)
qed simp

text \<open>Different blocks have no word in common.\<close>

lemma tiles_apart:
  "tiles a e bs \<Longrightarrow> (b, s, u) \<in> set bs \<Longrightarrow> (c, t, w) \<in> set bs \<Longrightarrow> (b, s, u) = (c, t, w) \<or> b + s \<le> c \<or> c + t \<le> b"
proof (induction a e bs rule: tiles.induct)
  case (2 a e b' s' u' bs)
  have "b' + s' \<le> x" if "(x, y, z) \<in> set bs" for x y z
    using 2(2) tiles_within [of "a + s'" e bs] that by fastforce
  with 2 show ?case by auto
qed simp

lemma not_owned_used:
  assumes "heap_tiled pl a e bs" "(c, t, True) \<in> set bs" "c \<le> x" "x < c + t"
  shows "\<not> owned pl bs x"
proof -
  have t: "tiles a e bs" "xStart pl + 16 \<le> a \<or> e + 16 \<le> xStart pl" using assms(1) by (auto simp: heap_tiled_def)
  have "\<not> (b \<le> x \<and> x < b + s)" if "(b, s, False) \<in> set bs" for b s
    using tiles_apart [OF t(1) that assms(2)] assms(3,4) by auto
  then show ?thesis
    using t(2) tiles_within [OF t(1) assms(2)] assms(3,4) by (auto simp: owned_def free_blocks_set)
qed

lemma not_owned_end:
  assumes "heap_tiled pl a e bs" "e \<le> x" "x < e + 16"
  shows "\<not> owned pl bs x"
proof -
  have t: "tiles a e bs" "xStart pl + 16 \<le> a \<or> e + 16 \<le> xStart pl" using assms(1) by (auto simp: heap_tiled_def)
  then show ?thesis
    using tiles_within [OF t(1)] tiles_extent [OF t(1)] assms(2,3) by (fastforce simp: owned_def free_blocks_set)
qed

lemma used_ok_kept:
  assumes "heap_tiled pl a e bs" "same_outside pl bs r r'" "list_all (used_ok r) (used_blocks bs)"
  shows "list_all (used_ok r') (used_blocks bs)"
proof -
  have "used_ok r' (c, t)" if "(c, t) \<in> set (used_blocks bs)" for c t
  proof -
    have ct: "(c, t, True) \<in> set bs" using that by (simp add: used_blocks_set)
    have "24 \<le> t" using assms(1) tiles_within [OF _ ct] by (auto simp: heap_tiled_def)
    moreover have "r' x = r x" if "c \<le> x" "x < c + t" for x
      using assms(2) not_owned_used [OF assms(1) ct that] by (simp add: same_outside_def)
    moreover have "used_ok r (c, t)" using assms(3) that by (auto simp: list_all_iff)
    ultimately show ?thesis by (simp add: used_ok_def)
  qed
  then show ?thesis by (auto simp: list_all_iff)
qed

lemma end_kept:
  assumes "heap_tiled pl a e bs" "same_outside pl bs r r'"
  shows "r' (e + 4) = r (e + 4)" "r' (e + 8) = r (e + 8)"
  using assms not_owned_end [OF assms(1), of "e + 4"] not_owned_end [OF assms(1), of "e + 8"]
  by (simp_all add: same_outside_def)

lemma owned_header: "i < 16 \<Longrightarrow> owned pl bs (xStart pl + i)"
  by (simp add: owned_def)

lemma owned_free: "tiles a e bs \<Longrightarrow> (c, t, False) \<in> set bs \<Longrightarrow> i < t \<Longrightarrow> owned pl bs (c + i)"
  unfolding owned_def by (intro disjI2 bexI [of _ "(c, t)"]) (simp_all add: free_blocks_set)

section \<open>The canaries of the free list\<close>

definition canaries_ok :: "heap4_place \<Rightarrow> (nat \<Rightarrow> nat) \<Rightarrow> (nat \<times> nat) list \<Rightarrow> bool" where
  "canaries_ok pl r fl \<longleftrightarrow> (\<forall>c \<in> insert (xStart pl) (fst ` set fl). r c = HEAD_CANARY_PATTERN)"

lemma chain_canary:
  assumes "spaced A" "b \<in> A" "p \<in> A" "fst ` set fl \<subseteq> A" "chain r p e fl"
  shows "chain (r(b := v)) p e fl"
proof -
  have "c + i \<noteq> b" if "c \<in> A" "i \<in> {4, 8}" for c i
    using spaced_field [OF assms(1) that(1) assms(2), of i 0] that(2) by auto
  then show ?thesis
    using assms(3-5) by (subst chain_cong [where r' = r and p' = p]) auto
qed

lemma update_canaries_chain:
  "chain (ram h) p e fl \<Longrightarrow> spaced A \<Longrightarrow> 0 \<notin> A \<Longrightarrow> insert p (insert e (fst ` set fl)) \<subseteq> A \<Longrightarrow> ram h (e + 4) = 0 \<Longrightarrow>
    distinct (p # e # map fst fl) \<Longrightarrow>
    \<exists>r. update_canaries h p = Some (h\<lparr>ram := r\<rparr>) \<and> chain r p e fl \<and>
      (\<forall>c \<in> insert p (fst ` set fl). r c = HEAD_CANARY_PATTERN) \<and> (\<forall>x. x \<notin> insert p (fst ` set fl) \<longrightarrow> r x = ram h x)"
proof (induction fl arbitrary: p h)
  case Nil
  have nz: "p \<noteq> 0" "e \<noteq> 0" using Nil.prems(3,4) by (metis insert_subset)+
  have "p + 4 \<noteq> p" "e + 4 \<noteq> p" using spaced_field [OF Nil.prems(2), of e p 4 0] Nil.prems(4) by auto
  with Nil nz show ?case
    by (subst update_canaries.simps) (auto simp: fld_def set_fld_eq)
next
  case (Cons x fl)
  obtain b s where x: "x = (b, s)" by fastforce
  let ?h = "h\<lparr>ram := (ram h)(p := HEAD_CANARY_PATTERN)\<rparr>"
  have in_A: "p \<in> A" "b \<in> A" "e \<in> A" "fst ` set fl \<subseteq> A" "p \<noteq> 0" "b \<noteq> 0" "p \<noteq> e"
    using Cons.prems(3,4,6) x by (auto simp del: neq0_conv)
  have off: "c + i \<noteq> p" if "c \<in> A" "0 < i" "i < 16" for c i
    using spaced_field [OF Cons.prems(2) that(1) in_A(1) that(3), of 0] that(2) by simp
  have ch: "chain (ram ?h) b e fl"
    using chain_canary [OF Cons.prems(2) in_A(1,2,4)] Cons.prems(1) x by auto
  from Cons.IH [OF ch Cons.prems(2,3)] in_A Cons.prems(5,6) x off [of e 4] obtain r where
    r: "update_canaries ?h b = Some (h\<lparr>ram := r\<rparr>)" "chain r b e fl" "\<forall>c \<in> insert b (fst ` set fl). r c = HEAD_CANARY_PATTERN"
      "\<And>x. x \<notin> insert b (fst ` set fl) \<Longrightarrow> r x = (ram ?h) x" by auto
  have keep: "r (c + i) = ram h (c + i)" if "c \<in> A" "0 < i" "i < 16" for c i
  proof -
    have "c + i \<notin> insert b (fst ` set fl)"
    proof
      assume "c + i \<in> insert b (fst ` set fl)"
      then have "c + i \<in> A" using in_A by auto
      from spaced_field [OF Cons.prems(2) this that(1), of 0 i] that(2,3) show False by simp
    qed
    with r(4) off [OF that] show ?thesis by simp
  qed
  have "ram h (b + 4) \<in> A"
    using Cons.prems(1,4) x chain_next [of "ram h" b e fl] by (cases fl) (auto split: prod.splits)
  then have next0: "ram h (b + 4) \<noteq> 0" using Cons.prems(3) by metis
  have links: "ram h (p + 4) = b" "ram h (b + 8) = s" using Cons.prems(1) x by auto
  have "update_canaries h p = Some (h\<lparr>ram := r\<rparr>)"
    using r(1) in_A links next0 off [OF in_A(1), of 4] off [OF in_A(2), of 4]
    by (subst update_canaries.simps) (simp add: fld_def set_fld_eq)
  moreover have "chain r p e (x # fl)"
    using r(2) links keep [OF in_A(1), of 4] keep [OF in_A(2), of 8] x by simp
  moreover have "r p = HEAD_CANARY_PATTERN" using r(4) [of p] Cons.prems(6) x by auto
  ultimately show ?case using r(3,4) x by (intro exI [of _ r]) auto
qed

lemma check_free_chain:
  "chain (ram h) p e fl \<Longrightarrow> 0 \<notin> insert p (insert e (fst ` set fl)) \<Longrightarrow> ram h (e + 4) = 0 \<Longrightarrow>
    (\<forall>c \<in> insert p (fst ` set fl). ram h c = HEAD_CANARY_PATTERN) \<Longrightarrow> check_free h p = Some ()"
proof (induction fl arbitrary: p)
  case Nil
  then show ?case by (subst check_free.simps) (simp add: fld_def asserting_def)
next
  case (Cons x fl)
  obtain b s where x: "x = (b, s)" by fastforce
  have "ram h (b + 4) \<noteq> 0"
    using Cons.prems(1,2) x chain_next [of "ram h" b e fl] by (cases fl) (auto split: prod.splits)
  with Cons x show ?case by (subst check_free.simps) (auto simp: fld_def asserting_def)
qed

end
