(* ===== verification/Heap4Malloc.thy ===== *)
theory Heap4Malloc imports Heap4Ok begin

text \<open>Allocating keeps the invariant.\<close>

unbundle bit_operations_syntax

section \<open>Sizes and marks\<close>

lemma and_top: "n < 4294967296 \<Longrightarrow> n AND 2147483648 = 0 \<longleftrightarrow> n < (2147483648 :: nat)"
proof -
  assume "n < 4294967296"
  have "n AND 2 ^ 31 = 0 \<longleftrightarrow> \<not> bit n 31" by (rule and_exp_eq_0_iff_not_bit)
  moreover have "bit n 31 \<longleftrightarrow> odd (n div 2 ^ 31)" by (rule bit_iff_odd)
  moreover have "odd (n div 2147483648) \<longleftrightarrow> \<not> n < 2147483648"
  proof (cases "n < 2147483648")
    case False
    then have "n div 2147483648 = 1" using \<open>n < 4294967296\<close> by simp
    then show ?thesis using False by simp
  qed simp
  ultimately show ?thesis by simp
qed

lemma or_top: "n < 2147483648 \<Longrightarrow> n OR 2147483648 = n + (2147483648 :: nat)"
proof -
  assume n: "n < 2147483648"
  then have "\<not> bit n 31" by (simp add: bit_iff_odd)
  then have "set_bit 31 n = n + 2 ^ 31" by (simp add: set_bit_eq)
  moreover have "set_bit 31 n = n OR 2 ^ 31" by (simp add: set_bit_def)
  ultimately show ?thesis by simp
qed

lemma and_top_set: "n < 2147483648 \<Longrightarrow> (n + 2147483648) AND 2147483648 = (2147483648 :: nat)"
proof -
  assume n: "n < 2147483648"
  then have *: "n AND 2147483648 = 0" by (simp add: and_top)
  have "(n OR 2147483648) AND 2147483648 = (n AND 2147483648) OR (2147483648 AND 2147483648)"
    by (rule bit_eqI) (auto simp: bit_and_iff bit_or_iff)
  then show ?thesis using n * by (simp add: or_top)
qed

definition block_size :: "nat \<Rightarrow> nat" where
  "block_size n = (n + 27) div 8 * 8"

lemma block_size_bounds: "24 \<le> block_size n" "8 dvd block_size n" "n + 20 \<le> block_size n" "block_size n \<le> n + 27"
  by (simp_all add: block_size_def)

lemma wanted_size_eq:
  assumes "0 < n" "n < 2147483648"
  shows "wanted_size n = Some (block_size n)"
proof -
  have small: "w32 (w32 (n + xHeapStructSize) + 4) = n + 20"
    using assms(2) by (simp add: w32_def xHeapStructSize_def)
  show ?thesis
  proof (cases "(n + 20) mod 8 = 0")
    case True
    then have "(n + 27) div 8 = (n + 20) div 8" by (intro div_nat_eqI) (simp_all add: mod_0_imp_dvd dvd_mult_div_cancel)
    then have "block_size n = n + 20" using True by (simp add: block_size_def mod_0_imp_dvd)
    then show ?thesis using True small assms(1) by (simp add: wanted_size_def portBYTE_ALIGNMENT_def Let_def)
  next
    case False
    obtain q r where qr: "n + 20 = 8 * q + r" "r < 8" "0 < r" "(n + 20) mod 8 = r"
      using False mult_div_mod_eq [of 8 "n + 20"] by (metis mod_less_divisor neq0_conv zero_less_numeral)
    have "(n + 27) div 8 = Suc q" by (intro div_nat_eqI; use qr(1-3) in simp)
    then have bs: "n + 20 + (8 - r) = block_size n" using qr(1-3) by (simp add: block_size_def)
    then have "w32 (n + 20 + (8 - r)) = block_size n"
      using block_size_bounds(4) [of n] assms(2) by (simp add: w32_def)
    then show ?thesis
      using False small assms(1) block_size_bounds(2) [of n] qr(4) bs
      by (simp add: wanted_size_def portBYTE_ALIGNMENT_def Let_def asserting_def dvd_eq_mod_eq_0)
  qed
qed

lemma sub32_eq:
  assumes "b \<le> a" "a < 4294967296"
  shows "sub32 a b = a - b"
proof -
  obtain d where d: "a = b + d" using assms(1) le_Suc_ex by blast
  then have "a + 4294967296 - b = d + 4294967296" by simp
  then show ?thesis using d assms(2) by (simp add: sub32_def w32_def)
qed

section \<open>Taking a block\<close>

definition taken :: "block list \<Rightarrow> nat \<times> nat \<Rightarrow> block list \<Rightarrow> nat \<Rightarrow> block list" where
  "taken xs x ys want =
     xs @ (if snd x - want > 32
           then [(fst x, want, True), (fst x + want, snd x - want, False)] else [(fst x, snd x, True)]) @ ys"

definition taken_size :: "nat \<Rightarrow> nat \<Rightarrow> nat" where
  "taken_size s want = (if s - want > 32 then want else s)"

lemma coalesced_free: "coalesced ((b, s, False) # ys) \<longleftrightarrow> coalesced ys \<and> (ys \<noteq> [] \<longrightarrow> snd (snd (hd ys)))"
  by (cases ys) auto

lemma heap_tiled_taken:
  assumes "heap_tiled pl a e (xs @ (b, s, False) # ys)" "want \<le> s" "24 \<le> want" "8 dvd want"
  shows "heap_tiled pl a e (taken xs (b, s) ys want)"
proof -
  have t: "tiles a (a + extent xs) xs" "b = a + extent xs" "8 dvd s" "tiles (b + s) e ys"
    using assms(1) by (auto simp: heap_tiled_def tiles_append)
  have c: "coalesced xs" "coalesced ys" "ys \<noteq> [] \<longrightarrow> snd (snd (hd ys))"
    using assms(1) by (auto simp: heap_tiled_def coalesced_append coalesced_free)
  have d: "8 dvd s - want" using t(3) assms(4) by (rule dvd_diff_nat)
  have l: "xs \<noteq> [] \<longrightarrow> snd (snd (last xs))"
    using assms(1) by (auto simp: heap_tiled_def coalesced_append)
  have rest: "8 dvd a" "16 \<le> a" "e + 16 < 4294967296" "e < a + 2147483648" "xStart pl \<noteq> 0"
    "xStart pl + 16 \<le> a \<or> e + 16 \<le> xStart pl" "24 \<le> s"
    using assms(1) by (auto simp: heap_tiled_def tiles_append)
  show ?thesis
  proof (cases "s - want > 32")
    case True
    have "tiles b e ((b, want, True) # (b + want, s - want, False) # ys)"
      using t(4) d assms(2-4) True by simp
    moreover have "coalesced ((b, want, True) # (b + want, s - want, False) # ys)"
      using c(2,3) by (simp add: coalesced_free)
    ultimately show ?thesis
      using True rest t(1,2) c(1) by (simp add: heap_tiled_def taken_def tiles_append coalesced_append)
  next
    case False
    have "tiles b e ((b, s, True) # ys)" using t(3,4) rest(7) by simp
    then show ?thesis
      using False rest t(1,2) c(1,2) by (simp add: heap_tiled_def taken_def tiles_append coalesced_append)
  qed
qed

lemma chain_other:
  assumes "spaced A" "y \<in> A" "i < 16" "i \<noteq> 4" "i \<noteq> 8" "insert p (fst ` set fl) \<subseteq> A"
  shows "chain (r(y + i := v)) p e fl = chain r p e fl"
proof (rule chain_cong)
  have "c + j \<noteq> y + i" if "c \<in> A" "j \<in> {4, 8}" for c j
    using spaced_field [OF assms(1) that(1) assms(2), of j i] assms(3-5) that(2) by auto
  then show "(r(y + i := v)) (p + 4) = r (p + 4)"
    "\<And>b. b \<in> fst ` set fl \<Longrightarrow> (r(y + i := v)) (b + 4) = r (b + 4) \<and> (r(y + i := v)) (b + 8) = r (b + 8)"
    using assms(6) by auto
qed

lemma chain_unlink:
  assumes A: "spaced A" "insert p (fst ` set (fl1 @ (b, s) # fl2)) \<subseteq> A" "distinct (p # map fst (fl1 @ (b, s) # fl2))"
    and ch: "chain r p e (fl1 @ (b, s) # fl2)"
  shows "chain (r(last (p # map fst fl1) + 4 := r (b + 4))) p e (fl1 @ fl2)"
proof (cases fl1 rule: rev_cases)
  case Nil
  have "chain r b e fl2" using ch Nil by simp
  then have "chain (r(p + 4 := r (b + 4))) p e fl2"
    by (rule chain_frame [OF A(1), where b = p, rotated 5]) (use A(2,3) Nil in auto)
  then show ?thesis using Nil by simp
next
  case (snoc g y)
  obtain q qs where y: "y = (q, qs)" by fastforce
  have q: "q \<in> A" "q \<noteq> p" "q \<notin> fst ` set g" "q \<notin> fst ` set fl2" "fst ` set g \<subseteq> A" "fst ` set fl2 \<subseteq> A" "p \<in> A"
    using A(2,3) snoc y by auto
  let ?r = "r(q + 4 := r (b + 4))"
  have parts: "chain r p q g" "r (q + 8) = qs" "chain r b e fl2"
    using ch snoc y chain_append [of r p e g q qs "(b, s) # fl2"] by auto
  have "chain ?r p q g"
    by (rule chain_frame [OF A(1) q(1,5,3) _ _ parts(1)]) (use q(2) in auto)
  moreover have "chain ?r q e fl2"
    by (rule chain_frame [OF A(1) q(1,6,4) _ _ parts(3)]) auto
  moreover have "?r (q + 8) = qs" using parts(2) by simp
  ultimately show ?thesis using snoc y chain_append [of ?r p e g q qs fl2] by auto
qed


lemma field_owned:
  assumes "tiles a e bs" "c \<in> insert (xStart pl) (fst ` set (free_blocks bs))" "i < 16"
  shows "owned pl bs (c + i)"
proof (cases "c = xStart pl")
  case True
  then show ?thesis using owned_header [OF assms(3)] by simp
next
  case False
  then obtain t where ct: "(c, t, False) \<in> set bs" using assms(2) by (auto simp: free_blocks_set)
  with tiles_within [OF assms(1) ct] owned_free [OF assms(1) ct, of i] assms(3) show ?thesis by simp
qed

lemma free_sizes_bound:
  assumes "heap_tiled pl a e bs"
  shows "sum_list (map snd (free_blocks bs)) < 2147483648"
proof -
  have "sum_list (map snd (free_blocks bs)) \<le> extent bs" by (induction bs) auto
  then show ?thesis using assms tiles_extent [of a e bs] by (simp add: heap_tiled_def)
qed

lemma split_block_ok:
  assumes t: "heap_tiled pl a e (xs @ (b, s, False) # ys)" (is "heap_tiled pl a e ?bs")
    and w: "want \<le> s" "24 \<le> want" "8 dvd want"
    and ch: "chain (ram h) (xStart pl) e (free_blocks xs @ free_blocks ys)" "ram h (b + 8) = s"
      "ram h (xStart pl + 8) = 0" "pxEnd h = e"
  shows "\<exists>r. split_block pl want b h = Some (h\<lparr>ram := r\<rparr>) \<and>
    chain r (xStart pl) e (free_blocks (taken xs (b, s) ys want)) \<and> r (b + 8) = taken_size s want \<and>
    r (xStart pl + 8) = 0 \<and> same_outside pl ?bs (ram h) r \<and> r (b + 12) = ram h (b + 12)"
proof -
  let ?X = "xStart pl"
  have tl: "tiles a e ?bs" using t by (simp add: heap_tiled_def)
  have b: "(b, s, False) \<in> set ?bs" by simp
  have bnd: "s < 2147483648" "b \<noteq> 0" "16 \<le> a"
    using tiles_within [OF tl b] tiles_extent [OF tl] t by (auto simp: heap_tiled_def)
  have sub: "sub32 s want = s - want" using w(1) bnd(1) by (simp add: sub32_eq)
  show ?thesis
  proof (cases "s - want > 32")
    case False
    then have "split_block pl want b h = Some (h\<lparr>ram := ram h\<rparr>)"
      using ch(2) bnd(2) sub by (simp add: split_block_def fld_def heapMINIMUM_BLOCK_SIZE_def xHeapStructSize_def)
    then show ?thesis
      using False ch by (intro exI [of _ "ram h"]) (simp add: taken_def taken_size_def same_outside_refl)
  next
    case True
    let ?new = "b + want" and ?ts = "taken xs (b, s) ys want" and ?xs = "xs @ [(b, want, True)]"
    let ?fl1 = "free_blocks xs" and ?fl2 = "free_blocks ys"
    have ts: "?ts = ?xs @ (?new, s - want, False) # ys" using True by (simp add: taken_def)
    have t': "heap_tiled pl a e ?ts" using heap_tiled_taken [OF t w] .
    then have tl': "tiles a e ?ts" by (simp add: heap_tiled_def)
    define A where "A = headers pl e ?ts"
    have A: "spaced A" "0 \<notin> A" using headers_spaced [OF t'] by (simp_all add: A_def)
    have in_A: "?X \<in> A" "b \<in> A" "?new \<in> A" "e \<in> A" "fst ` set (?fl1 @ ?fl2) \<subseteq> A"
      using free_addrs(1) [of xs] free_addrs(1) [of ys] by (auto simp: A_def headers_def ts)
    have field: "c + i = d + j \<longleftrightarrow> c = d \<and> i = j" if "c \<in> A" "d \<in> A" "i < 16" "j < 16" for c d i j
      using spaced_field [OF A(1) that] .
    have X: "?X \<notin> addrs ?ts" "?X \<noteq> e"
      using t' addrs_within [OF tl'] tiles_extent [OF tl'] by (fastforce simp: heap_tiled_def)+
    have e: "e \<notin> addrs ?ts" using addrs_within [OF tl'] by fastforce
    have sorted: "sorted_wrt (<) (map fst ?ts)" using tiles_sorted [OF tl'] .
    have free_less: "c \<in> fst ` set ?fl1 \<Longrightarrow> c < b" "c \<in> fst ` set ?fl2 \<Longrightarrow> ?new < c" for c
    proof -
      have "\<forall>c \<in> addrs xs. c < b" "\<forall>c \<in> addrs ys. ?new < c"
        using sorted by (auto simp: ts sorted_wrt_append addrs_def)
      then show "c \<in> fst ` set ?fl1 \<Longrightarrow> c < b" "c \<in> fst ` set ?fl2 \<Longrightarrow> ?new < c"
        using free_addrs(1) [of xs] free_addrs(1) [of ys] by blast+
    qed
    have sortf: "sorted_wrt (<) (map fst (?fl1 @ ?fl2))" using free_sorted [OF tl] by (auto simp: sorted_wrt_append)
    then have distf: "distinct (map fst (?fl1 @ ?fl2))" using strict_sorted_iff by blast
    have sub': "fst ` set (?fl1 @ ?fl2) \<subseteq> addrs ?ts" "b \<in> addrs ?ts" "?new \<in> addrs ?ts"
      using free_addrs(1) [of xs] free_addrs(1) [of ys] by (auto simp: ts)
    have apart: "b \<notin> fst ` set (?fl1 @ ?fl2)" "?new \<notin> fst ` set (?fl1 @ ?fl2)" "b \<noteq> ?new"
      using free_less(1) [of b] free_less(2) [of b] free_less(1) [of ?new] free_less(2) [of ?new] w(2)
      unfolding set_append image_Un by auto
    have dist: "distinct (?X # ?new # e # map fst (?fl1 @ ?fl2))" "b \<notin> fst ` set (?fl1 @ ?fl2)" "?X \<noteq> b" "b \<noteq> ?new"
    proof -
      have "?X \<notin> set (map fst (?fl1 @ ?fl2))" "e \<notin> set (map fst (?fl1 @ ?fl2))" "?X \<noteq> b" "?X \<noteq> ?new" "?new \<noteq> e"
        using X(1) e sub'(2,3) subsetD [OF sub'(1), of ?X] subsetD [OF sub'(1), of e] unfolding set_map by metis+
      then show "distinct (?X # ?new # e # map fst (?fl1 @ ?fl2))" "b \<notin> fst ` set (?fl1 @ ?fl2)" "?X \<noteq> b" "b \<noteq> ?new"
        using distf X(2) apart by (simp_all only: distinct.simps set_map list.set insert_iff not_False_eq_True simp_thms)
    qed
    let ?r = "(ram h)(?new + 8 := s - want, b + 8 := want)"
    have "chain ((ram h)(?new + 8 := s - want)) ?X e (?fl1 @ ?fl2)"
      by (rule chain_frame [OF A(1) in_A(3,5) _ _ _ ch(1)]) (use dist(1) field [OF in_A(1,3), of 4 8] in auto)
    then have ch': "chain ?r ?X e (?fl1 @ ?fl2)"
      by (rule chain_frame [OF A(1) in_A(2,5) dist(2), rotated 2]) (use field [OF in_A(1,2), of 4 8] in auto)
    have "sum_list (map snd (free_blocks ?ts)) < 2147483648" using free_sizes_bound [OF t'] .
    then have sz: "s - want + sum_list (map snd (?fl1 @ ?fl2)) < 4294967296" by (simp add: ts)
    define h' where "h' = h\<lparr>ram := ?r\<rparr>"
    have hs: "chain (ram h') ?X e (?fl1 @ ?fl2)" "ram h' (?new + 8) = s - want" "ram h' (?X + 8) = 0" "pxEnd h' = e"
      using ch' ch(3,4) dist field [OF in_A(3,2), of 8 8] field [OF in_A(1,3), of 8 8] field [OF in_A(1,2), of 8 8]
      by (auto simp: h'_def)
    have fl: "\<And>c. c \<in> fst ` set ?fl1 \<Longrightarrow> c < ?new" "\<And>c. c \<in> fst ` set ?fl2 \<Longrightarrow> ?new \<le> c" "?new \<le> e"
      using free_less(1) free_less(2) tiles_within [OF tl b] w(1) by (force, force, linarith)
    from prvInsert_chain [OF A in_A(1,3,4,5) dist(1) hs fl sz]
    obtain r where r0: "prvInsertBlockIntoFreeList pl ?new h' = Some (h'\<lparr>ram := r\<rparr>)"
      "chain r ?X e (insert_free ?fl1 (?new, s - want) ?fl2)"
      "\<forall>x. (\<forall>c \<in> insert ?X (insert ?new (fst ` set ?fl1)). x \<noteq> c + 4 \<and> x \<noteq> c + 8) \<or> x = ?X + 8 \<longrightarrow> r x = ram h' x"
      by blast
    have r: "prvInsertBlockIntoFreeList pl ?new (h\<lparr>ram := ?r\<rparr>) = Some (h\<lparr>ram := r\<rparr>)"
      "chain r ?X e (insert_free ?fl1 (?new, s - want) ?fl2)"
      "\<And>x. (\<forall>c \<in> insert ?X (insert ?new (fst ` set ?fl1)). x \<noteq> c + 4 \<and> x \<noteq> c + 8) \<or> x = ?X + 8 \<Longrightarrow> r x = ?r x"
      using r0 by (simp_all only: h'_def) auto
    have "coalesced (?xs @ (?new, s - want, True) # ys)"
      using t' by (auto simp: heap_tiled_def ts coalesced_append coalesced_free)
    moreover have "release ?xs (?new, s - want) ys = ?ts"
      using t' by (auto simp: release_def joined_before_def joined_behind_def ts heap_tiled_def coalesced_append coalesced_free)
    ultimately have fb: "free_blocks ?ts = insert_free ?fl1 (?new, s - want) ?fl2"
      using release_tiles(3) [OF tl' [unfolded ts], of] ts by simp
    have keep: "r (b + i) = ?r (b + i)" if "i < 16" "i \<noteq> 4" for i
    proof (rule r(3), rule disjI1, intro ballI conjI)
      fix c assume c: "c \<in> insert ?X (insert ?new (fst ` set ?fl1))"
      then have "c \<in> A" "c \<noteq> b" using in_A dist by auto
      with field [OF in_A(2) _ that(1)] show "b + i \<noteq> c + 4" "b + i \<noteq> c + 8" by auto
    qed
    have "same_outside pl ?bs (ram h) r"
      unfolding same_outside_def
    proof (intro allI impI)
      fix x assume x: "\<not> owned pl ?bs x"
      have "owned pl ?bs (c + i)" if "c \<in> insert ?X (insert b (fst ` set ?fl1))" "i < 16" for c i
        using that by (intro field_owned [OF tl]) auto
      moreover have "owned pl ?bs (?new + i)" if "i < 16" for i
        using owned_free [OF tl b, of "want + i"] that True by (simp add: add.assoc)
      ultimately have no: "x \<noteq> c + i" if "c \<in> insert ?new (insert ?X (insert b (fst ` set ?fl1)))" "i < 16" for c i
        using x that by blast
      then have "r x = ?r x" by (intro r(3)) auto
      with no [of ?new 8] no [of b 8] show "r x = ram h x" by simp
    qed
    moreover have "split_block pl want b h = Some (h\<lparr>ram := r\<rparr>)"
    proof -
      have "8 dvd b" using tiles_aligned [OF tl _ b] t by (simp add: heap_tiled_def)
      then have "?new mod 8 = 0" using w(3) by (auto simp: dvd_eq_mod_eq_0 [symmetric])
      then show ?thesis
        using True r(1) ch(2) bnd(2) sub
        by (simp add: split_block_def fld_def set_fld_eq asserting_def Let_def heapMINIMUM_BLOCK_SIZE_def
            xHeapStructSize_def portBYTE_ALIGNMENT_def)
    qed
    moreover have "r (b + 8) = taken_size s want" "r (b + 12) = ram h (b + 12)"
      using keep [of 8] keep [of 12] field [OF in_A(2,3), of 12 8] dist(4) True by (simp_all add: taken_size_def)
    moreover have "r (?X + 8) = 0" using r(3) [of "?X + 8"] hs(3) by (simp add: h'_def)
    ultimately show ?thesis using r(2) fb by auto
  qed
qed

end
