(* ===== verification/Heap4Take.thy ===== *)
theory Heap4Take imports Heap4Malloc begin

text \<open>
  The two halves of an allocation that succeeds: taking the block out of the free list, with its
  size, its mark and the rest that goes back, and recording it with its canaries.
\<close>

unbundle bit_operations_syntax

lemma heap_okD:
  assumes "heap_ok pl a e bs h"
  shows "tiles a e bs" "heap_tiled pl a e bs" "spaced (headers pl e bs)" "0 \<notin> headers pl e bs"
    "chain (ram h) (xStart pl) e (free_blocks bs)" "ram h (xStart pl + 8) = 0" "ram h (e + 4) = 0" "ram h (e + 8) = 0"
    "pxEnd h = e" "xBlockAllocatedBit h = 2147483648" "xFreeBytesRemaining h = sum_list (map snd (free_blocks bs))"
    "list_all (used_ok (ram h)) (used_blocks bs)" "xMinimumEverFreeBytesRemaining h \<le> xFreeBytesRemaining h"
  using assms headers_spaced [of pl a e bs] by (auto simp: heap_ok_def list_linked_def heap_tiled_def)

text \<open>The addresses of the headers are different.\<close>

lemma headers_distinct:
  assumes "heap_tiled pl a e bs"
  shows "distinct (xStart pl # e # map fst bs)" "distinct (xStart pl # e # map fst (free_blocks bs))"
    "insert (xStart pl) (insert e (fst ` set (free_blocks bs))) \<subseteq> headers pl e bs"
proof -
  have t: "tiles a e bs" "xStart pl + 16 \<le> a \<or> e + 16 \<le> xStart pl" using assms by (auto simp: heap_tiled_def)
  have "x \<notin> addrs bs" if "x = xStart pl \<or> x = e" for x
    using that t(2) addrs_within [OF t(1), of x] tiles_extent [OF t(1)] by auto
  then have no: "x \<notin> addrs bs \<and> x \<notin> fst ` set (free_blocks bs)" if "x = xStart pl \<or> x = e" for x
    using that free_addrs(1) [of bs] by blast
  have "xStart pl \<noteq> e" using t(2) tiles_extent [OF t(1)] by auto
  moreover have "distinct (map fst bs)" "distinct (map fst (free_blocks bs))"
    using tiles_sorted [OF t(1)] free_sorted [OF t(1)] strict_sorted_iff by blast+
  ultimately show "distinct (xStart pl # e # map fst bs)" "distinct (xStart pl # e # map fst (free_blocks bs))"
    using no [of "xStart pl"] no [of e] by (simp_all add: addrs_def)
  show "insert (xStart pl) (insert e (fst ` set (free_blocks bs))) \<subseteq> headers pl e bs"
    using free_addrs(1) [of bs] by (auto simp: headers_def)
qed

lemma free_taken:
  "free_blocks (taken xs (b, s) ys want) =
     free_blocks xs @ (if s - want > 32 then [(b + want, s - want)] else []) @ free_blocks ys"
  "used_blocks (taken xs (b, s) ys want) = used_blocks xs @ (b, taken_size s want) # used_blocks ys"
  by (simp_all add: taken_def taken_size_def)

lemma take_block_ok:
  assumes ok: "heap_ok pl a e (xs @ (b, s, False) # ys) h" (is "heap_ok pl a e ?bs h")
    and w: "want \<le> s" "24 \<le> want" "8 dvd want"
  shows "\<exists>r. take_block pl task want (last (xStart pl # map fst (free_blocks xs))) b h =
      Some (b + 16, h\<lparr>ram := r, xFreeBytesRemaining := xFreeBytesRemaining h - taken_size s want,
        xMinimumEverFreeBytesRemaining :=
          min (xFreeBytesRemaining h - taken_size s want) (xMinimumEverFreeBytesRemaining h)\<rparr>) \<and>
    chain r (xStart pl) e (free_blocks (taken xs (b, s) ys want)) \<and> r (xStart pl + 8) = 0 \<and>
    r (b + 4) = 0 \<and> r (b + 8) = taken_size s want + 2147483648 \<and> same_outside pl ?bs (ram h) r \<and>
    (\<forall>t. task = Some t \<longrightarrow> r (b + 12) = t)"
proof -
  let ?X = "xStart pl" and ?prev = "last (xStart pl # map fst (free_blocks xs))" and ?ts = "taken xs (b, s) ys want"
  note D = heap_okD [OF ok]
  have b: "(b, s, False) \<in> set ?bs" by simp
  have bnd: "s < 2147483648" "b \<noteq> 0"
    using tiles_within [OF D(1) b] tiles_extent [OF D(1)] D(2) by (auto simp: heap_tiled_def)
  define A where "A = headers pl e ?bs"
  have A: "spaced A" "0 \<notin> A" "?X \<in> A" "b \<in> A" using D(3,4) by (auto simp: A_def headers_def)
  have fbs: "free_blocks ?bs = free_blocks xs @ (b, s) # free_blocks ys" by simp
  have hd: "distinct (?X # map fst (free_blocks xs @ (b, s) # free_blocks ys))"
    "insert ?X (fst ` set (free_blocks xs @ (b, s) # free_blocks ys)) \<subseteq> A"
    using headers_distinct(2,3) [OF D(2)] unfolding fbs A_def by auto
  have "?prev \<in> insert ?X (fst ` set (free_blocks xs))" using last_in_set [of "?X # map fst (free_blocks xs)"] by auto
  moreover have "insert ?X (fst ` set (free_blocks xs)) \<subseteq> A - {b}" using hd by auto
  moreover have "insert ?X (fst ` set (free_blocks xs)) \<subseteq> insert ?X (fst ` set (free_blocks ?bs))" by auto
  ultimately have prev: "?prev \<in> A" "?prev \<noteq> b" "?prev \<in> insert ?X (fst ` set (free_blocks ?bs))" by blast+
  then have prev0: "?prev \<noteq> 0" using A(2) by metis
  have link: "ram h (?prev + 4) = b"
    using chain_last [of "ram h" ?X e "free_blocks xs" "(b, s) # free_blocks ys"] D(5) fbs by simp
  have b8: "ram h (b + 8) = s" using D(5) chain_append fbs by metis
  have field: "c + i = d + j \<longleftrightarrow> c = d \<and> i = j" if "c \<in> A" "d \<in> A" "i < 16" "j < 16" for c d i j
    using spaced_field [OF A(1) that] .
  define r1 where "r1 = (case task of None \<Rightarrow> ram h | Some t \<Rightarrow> (ram h)(b + 12 := t))"
  have own: "set_owner_of task b h = Some (h\<lparr>ram := r1\<rparr>)"
    using bnd(2) by (simp add: set_owner_of_def r1_def set_fld_eq split: option.splits)
  have r1: "r1 x = ram h x" if "x \<noteq> b + 12" for x using that by (simp add: r1_def split: option.splits)
  have "chain r1 ?X e (free_blocks xs @ (b, s) # free_blocks ys)"
    using D(5) chain_other [OF A(1,4) _ _ _ hd(2), of 12] by (auto simp: r1_def fbs split: option.splits)
  from chain_unlink [OF A(1) hd(2,1) this] r1 [of "b + 4"]
  have ch2: "chain (r1(?prev + 4 := ram h (b + 4))) ?X e (free_blocks xs @ free_blocks ys)" by simp
  let ?r2 = "r1(?prev + 4 := ram h (b + 4))"
  have r2: "?r2 (b + 8) = s" "?r2 (?X + 8) = 0"
    using b8 D(6) r1 [of "b + 8"] r1 [of "?X + 8"] field [OF A(4) prev(1), of 8 4] field [OF A(3) prev(1), of 8 4]
      field [OF A(3,4), of 8 12] by auto
  from split_block_ok [OF D(2) w, of "h\<lparr>ram := ?r2\<rparr>"] ch2 r2 D(9)
  obtain r3 where r3: "split_block pl want b (h\<lparr>ram := ?r2\<rparr>) = Some (h\<lparr>ram := r3\<rparr>)"
    "chain r3 ?X e (free_blocks ?ts)" "r3 (b + 8) = taken_size s want" "r3 (?X + 8) = 0"
    "same_outside pl ?bs ?r2 r3" "r3 (b + 12) = ?r2 (b + 12)" by auto
  have t': "heap_tiled pl a e ?ts" using heap_tiled_taken [OF D(2) w] .
  let ?r = "r3(b + 8 := taken_size s want + 2147483648, b + 4 := 0)"
  have ts: "taken_size s want \<le> s" using w(1) by (simp add: taken_size_def)
  have F: "s \<le> xFreeBytesRemaining h" "xFreeBytesRemaining h < 2147483648"
    using D(11) free_sizes_bound [OF D(2)] by auto
  have claim: "claim_block b (h\<lparr>ram := r3\<rparr>) =
      Some (h\<lparr>ram := ?r, xFreeBytesRemaining := xFreeBytesRemaining h - taken_size s want,
        xMinimumEverFreeBytesRemaining :=
          min (xFreeBytesRemaining h - taken_size s want) (xMinimumEverFreeBytesRemaining h)\<rparr>)"
    using r3(3) bnd ts F D(10) by (simp add: claim_block_def fld_def set_fld_eq Let_def sub32_eq or_top)
  have run: "take_block pl task want ?prev b h = Some (b + 16, h\<lparr>ram := ?r, xFreeBytesRemaining := xFreeBytesRemaining h - taken_size s want,
        xMinimumEverFreeBytesRemaining :=
          min (xFreeBytesRemaining h - taken_size s want) (xMinimumEverFreeBytesRemaining h)\<rparr>)"
  proof -
    have n1: "pxNextFreeBlock ?prev h = Some b" using prev0 link by (simp add: fld_def)
    have n2: "pxNextFreeBlock b (h\<lparr>ram := r1\<rparr>) = Some (ram h (b + 4))" using bnd(2) r1 [of "b + 4"] by (simp add: fld_def)
    have n3: "set_next ?prev (ram h (b + 4)) (h\<lparr>ram := r1\<rparr>) = Some (h\<lparr>ram := ?r2\<rparr>)"
      using prev0 by (simp add: set_fld_eq)
    show ?thesis
      unfolding take_block_def n1 Option.bind.simps own n2 n3 r3(1) claim xHeapStructSize_def ..
  qed
  have "b \<in> headers pl e ?ts" "b \<notin> fst ` set (free_blocks ?ts)" "fst ` set (free_blocks ?ts) \<subseteq> headers pl e ?ts"
    "?X \<in> headers pl e ?ts" "?X \<noteq> b"
    using headers_distinct [OF t'] hd w(2) by (auto simp: headers_def taken_def free_taken)
  note fr = this
  have sp: "spaced (headers pl e ?ts)" using headers_spaced(1) [OF t'] .
  have "chain (r3(b + 8 := taken_size s want + 2147483648)) ?X e (free_blocks ?ts)"
    by (rule chain_frame [OF sp fr(1,3,2) _ _ r3(2)]) (use spaced_field [OF sp fr(4,1), of 4 8] in auto)
  then have "chain ?r ?X e (free_blocks ?ts)"
    by (rule chain_frame [OF sp fr(1,3,2), rotated 2]) (use spaced_field [OF sp fr(4,1), of 4 4] fr(5) in auto)
  moreover have "?r (?X + 8) = 0" using r3(4) fr(5) field [OF A(3,4), of 8 8] field [OF A(3,4), of 8 4] by simp
  moreover have "same_outside pl ?bs (ram h) ?r"
  proof -
    have ob: "owned pl ?bs (b + i)" if "i < 16" for i using field_owned [OF D(1) _ that, of b] by simp
    have "same_outside pl ?bs (ram h) r1"
      using ob [of 12] by (simp add: r1_def same_outside_refl same_outside_write split: option.splits)
    then have "same_outside pl ?bs (ram h) ?r2"
      using field_owned [OF D(1) prev(3), of 4] by (simp add: same_outside_write)
    from same_outside_trans [OF this r3(5)] ob [of 8] ob [of 4] show ?thesis by (intro same_outside_write) auto
  qed
  moreover have "?r (b + 12) = t" if "task = Some t" for t
    using that r3(6) field [OF A(4) prev(1), of 12 4] prev(2) by (simp add: r1_def)
  ultimately show ?thesis using run by (intro exI [of _ ?r]) simp
qed


section \<open>Recording a block\<close>

lemma tail_not_field:
  assumes "heap_tiled pl a e bs" "(b, s, u) \<in> set bs" "c \<in> headers pl e bs" "i < 16"
  shows "b + s - 4 \<noteq> c + i"
proof -
  have t: "tiles a e bs" "xStart pl + 16 \<le> a \<or> e + 16 \<le> xStart pl" using assms(1) by (auto simp: heap_tiled_def)
  note w = tiles_within [OF t(1) assms(2)]
  consider "c = xStart pl" | "c = e" | d v where "(c, d, v) \<in> set bs"
    using assms(3) by (auto simp: headers_def addrs_def)
  then show ?thesis
  proof cases
    case 3
    from tiles_apart [OF t(1) assms(2) 3] tiles_within [OF t(1) 3] w assms(4) show ?thesis by auto
  qed (use w t(2) assms(4) in auto)
qed

lemma chain_tail:
  assumes "heap_tiled pl a e bs" "(b, s, u) \<in> set bs"
  shows "chain (r(b + s - 4 := v)) (xStart pl) e (free_blocks bs) = chain r (xStart pl) e (free_blocks bs)"
proof (rule chain_cong)
  have no: "c + i \<noteq> b + s - 4" if "c \<in> insert (xStart pl) (fst ` set (free_blocks bs))" "i < 16" for c i
    using tail_not_field [OF assms _ that(2), of c] headers_distinct(3) [OF assms(1)] that(1) by auto
  then show "(r(b + s - 4 := v)) (xStart pl + 4) = r (xStart pl + 4)"
    "\<And>c. c \<in> fst ` set (free_blocks bs) \<Longrightarrow>
       (r(b + s - 4 := v)) (c + 4) = r (c + 4) \<and> (r(b + s - 4 := v)) (c + 8) = r (c + 8)"
    by auto
qed

lemma add_to_list_ok:
  assumes t: "heap_tiled pl a e bs" "(b, s, True) \<in> set bs"
    and ch: "chain (ram h) (xStart pl) e (free_blocks bs)" "ram h (e + 4) = 0"
    and mark: "ram h (b + 8) = s + 2147483648" "xBlockAllocatedBit h = 2147483648"
  shows "\<exists>r. vPortAddToList pl b h = Some (h\<lparr>ram := r, allocList := add_entry b (allocList h)\<rparr>) \<and>
    chain r (xStart pl) e (free_blocks bs) \<and> canaries_ok pl r (free_blocks bs) \<and>
    r b = HEAD_CANARY_PATTERN \<and> r (b + s - 4) = TAIL_CANARY_PATTERN \<and>
    (\<forall>x. x \<notin> insert b (insert (b + s - 4) (insert (xStart pl) (fst ` set (free_blocks bs)))) \<longrightarrow> r x = ram h x)"
proof -
  let ?X = "xStart pl" and ?A = "headers pl e bs"
  have tl: "tiles a e bs" using t(1) by (simp add: heap_tiled_def)
  have A: "spaced ?A" "0 \<notin> ?A" "?X \<in> ?A" "e \<in> ?A" "b \<in> ?A"
    using headers_spaced [OF t(1)] t(2) by (force simp: headers_def addrs_def)+
  have s: "s < 2147483648" "24 \<le> s" "b \<noteq> 0"
    using tiles_within [OF tl t(2)] tiles_extent [OF tl] t(1) by (auto simp: heap_tiled_def)
  note hd = headers_distinct [OF t(1)]
  have b_used: "b \<notin> fst ` set (free_blocks bs)"
  proof
    assume "b \<in> fst ` set (free_blocks bs)"
    then obtain d where "(b, d, False) \<in> set bs" by (auto simp: free_blocks_set)
    from tiles_apart [OF tl t(2) this] tiles_within [OF tl this] s(2) show False by auto
  qed
  have b_X: "b \<noteq> ?X" using hd(1) t(2) by force
  let ?r = "(ram h)(b := HEAD_CANARY_PATTERN, b + s - 4 := TAIL_CANARY_PATTERN)"
  let ?h = "h\<lparr>ram := ?r, allocList := add_entry b (allocList h)\<rparr>"
  have "tail_canary_at b (s + 2147483648) h = b + s - 4"
    using s(1,2) mark(2) by (simp add: tail_canary_at_def and_top_set)
  then have run: "vPortAddToList pl b h = update_canaries ?h ?X"
    using s(3) mark by (simp add: vPortAddToList_def fld_def set_fld_eq tail_canary_at_def vPortUpdateFreeBlockList_def Let_def)
  have "chain ((ram h)(b := HEAD_CANARY_PATTERN)) ?X e (free_blocks bs)"
    using chain_canary [OF A(1,5,3) _ ch(1)] hd(3) by auto
  then have c1: "chain (ram ?h) ?X e (free_blocks bs)"
    using chain_tail [OF t, of "(ram h)(b := HEAD_CANARY_PATTERN)" TAIL_CANARY_PATTERN] by simp
  have e4: "ram ?h (e + 4) = 0"
    using ch(2) spaced_field [OF A(1,4,5), of 4 0] tail_not_field [OF t A(4), of 4] by auto
  from update_canaries_chain [OF c1 A(1,2) hd(3) e4 hd(2)]
  obtain r where r: "update_canaries ?h ?X = Some (?h\<lparr>ram := r\<rparr>)" "chain r ?X e (free_blocks bs)"
    "\<forall>c \<in> insert ?X (fst ` set (free_blocks bs)). r c = HEAD_CANARY_PATTERN"
    "\<forall>x. x \<notin> insert ?X (fst ` set (free_blocks bs)) \<longrightarrow> r x = ram ?h x" by blast
  have "b + s - 4 \<notin> insert ?X (fst ` set (free_blocks bs))"
    using tail_not_field [OF t, of _ 0] hd(3) by fastforce
  then have "r (b + s - 4) = TAIL_CANARY_PATTERN" "r b = HEAD_CANARY_PATTERN"
    using r(4) b_used b_X tail_not_field [OF t A(5), of 0] by auto
  with r run show ?thesis by (intro exI [of _ r]) (auto simp: canaries_ok_def)
qed

end
