(* ===== verification/Heap4Alloc.thy ===== *)
theory Heap4Alloc imports Heap4Take begin

text \<open>
  A whole call of \<open>pvPortMalloc\<close>: it takes the first free block that is large enough, and leaves
  everything as it was when there is none.
\<close>

unbundle bit_operations_syntax

lemma used_in_headers: "(c, t, u) \<in> set bs \<Longrightarrow> c \<in> headers pl e bs"
  by (force simp: headers_def addrs_def)

lemma taken_block: "(b, taken_size s want, True) \<in> set (taken xs (b, s) ys want)"
  by (simp add: taken_def taken_size_def)

text \<open>What recording the block writes lies in what was free before.\<close>

lemma recorded_words:
  assumes t: "tiles a e (xs @ (b, s, False) # ys)" (is "tiles a e ?bs")
    and w: "want \<le> s" "24 \<le> want"
    and x: "x \<in> insert b (insert (b + taken_size s want - 4)
              (insert (xStart pl) (fst ` set (free_blocks (taken xs (b, s) ys want)))))"
  shows "owned pl ?bs x"
proof -
  have b: "(b, s, False) \<in> set ?bs" by simp
  have own: "owned pl ?bs (b + i)" if "i < s" for i using owned_free [OF t b that] .
  have "taken_size s want \<le> s" "24 \<le> taken_size s want" using w by (auto simp: taken_size_def)
  then have tail: "owned pl ?bs (b + taken_size s want - 4)" "owned pl ?bs b"
    using own [of "taken_size s want - 4"] own [of 0] by auto
  have "owned pl ?bs x" if "x \<in> fst ` set (free_blocks (taken xs (b, s) ys want))"
  proof (cases "x \<in> fst ` set (free_blocks ?bs)")
    case True
    then show ?thesis using field_owned [OF t, of x pl 0] by simp
  next
    case False
    then have "x = b + want" "want < s" using that by (auto simp: free_taken split: if_splits)
    then show ?thesis using own by simp
  qed
  then show ?thesis using x tail owned_header [of 0 pl ?bs] by auto
qed

lemma taken_ok:
  assumes ok: "heap_ok pl a e (xs @ (b, s, False) # ys) h" (is "heap_ok pl a e ?bs h")
    and w: "want \<le> s" "24 \<le> want" "8 dvd want"
    and r: "chain r (xStart pl) e (free_blocks (taken xs (b, s) ys want))" "r (xStart pl + 8) = 0"
      "same_outside pl (xs @ (b, s, False) # ys) (ram h) r" "used_ok r (b, taken_size s want)"
    and h': "ram h' = r" "pxEnd h' = e" "xBlockAllocatedBit h' = 2147483648"
      "xFreeBytesRemaining h' = xFreeBytesRemaining h - taken_size s want"
      "xMinimumEverFreeBytesRemaining h' \<le> xFreeBytesRemaining h'"
  shows "heap_ok pl a e (taken xs (b, s) ys want) h'"
proof -
  note D = heap_okD [OF ok]
  have "list_all (used_ok r) (used_blocks ?bs)" using used_ok_kept [OF D(2) r(3) D(12)] .
  then have "list_all (used_ok r) (used_blocks (taken xs (b, s) ys want))" using r(4) by (simp add: free_taken)
  moreover have "xFreeBytesRemaining h' = sum_list (map snd (free_blocks (taken xs (b, s) ys want)))"
    using h'(4) D(11) w(1) by (auto simp: free_taken taken_size_def)
  moreover have "list_linked pl e r (free_blocks (taken xs (b, s) ys want))"
    using r(1,2) end_kept [OF D(2) r(3)] D(7,8) by (simp add: list_linked_def)
  ultimately show ?thesis
    using heap_tiled_taken [OF D(2) w] h' by (simp add: heap_ok_def)
qed

lemma malloc_found:
  assumes ok: "heap_ok pl a e (xs @ (b, s, False) # ys) h" (is "heap_ok pl a e ?bs h")
    and n: "0 < n" "n < 2147483648"
    and fit: "block_size n \<le> s" "\<And>c t. (c, t, False) \<in> set xs \<Longrightarrow> t < block_size n"
  shows "\<exists>h'. heap4_malloc pl task n h = Some (b + 16, h') \<and>
    heap_ok pl a e (taken xs (b, s) ys (block_size n)) h' \<and>
    canaries_ok pl (ram h') (free_blocks (taken xs (b, s) ys (block_size n))) \<and>
    allocList h' = add_entry b (allocList h) \<and> same_outside pl ?bs (ram h) (ram h') \<and>
    (\<forall>t. task = Some t \<longrightarrow> ram h' (b + 12) = t) \<and>
    xMinimumEverFreeBytesRemaining h' = min (xFreeBytesRemaining h') (xMinimumEverFreeBytesRemaining h)"
proof -
  let ?X = "xStart pl" and ?w = "block_size n" and ?ts = "taken xs (b, s) ys (block_size n)" and ?k = "taken_size s (block_size n)"
  note D = heap_okD [OF ok] and w = fit(1) block_size_bounds(1,2) [of n]
  have b: "(b, s, False) \<in> set ?bs" by simp
  have e0: "e \<noteq> 0" "?X \<noteq> 0" "b \<noteq> 0" "b \<noteq> e" "8 dvd b"
    using D(2) tiles_extent [OF D(1)] tiles_within [OF D(1) b] tiles_aligned [OF D(1) _ b]
    by (auto simp: heap_tiled_def)
  have small: "n AND 2147483648 = 0" using n(2) and_top [of n] by simp
  have "s \<le> xFreeBytesRemaining h" using D(11) by simp
  then have enough: "0 < ?w" "?w \<le> xFreeBytesRemaining h" using w by auto
  have nx: "pxNextFreeBlock ?X h = Some (ram h (?X + 4))" using e0(2) by (simp add: fld_def)
  have find: "find_fit h ?w ?X (ram h (?X + 4)) = Some (last (?X # map fst (free_blocks xs)), b)"
  proof (rule find_fit_found)
    show "chain (ram h) ?X e (free_blocks xs @ (b, s) # free_blocks ys)" using D(5) by simp
    show "0 \<notin> insert b (fst ` set (free_blocks xs))"
      using e0(3) D(4) headers_distinct(3) [OF D(2)] by auto
    show "\<And>c t. (c, t) \<in> set (free_blocks xs) \<Longrightarrow> t < ?w" using fit(2) by (simp add: free_blocks_set)
  qed (rule fit(1))
  obtain r1 where r1: "take_block pl task ?w (last (?X # map fst (free_blocks xs))) b h =
      Some (b + 16, h\<lparr>ram := r1, xFreeBytesRemaining := xFreeBytesRemaining h - ?k,
        xMinimumEverFreeBytesRemaining := min (xFreeBytesRemaining h - ?k) (xMinimumEverFreeBytesRemaining h)\<rparr>)"
    "chain r1 ?X e (free_blocks ?ts)" "r1 (?X + 8) = 0" "r1 (b + 4) = 0" "r1 (b + 8) = ?k + 2147483648"
    "same_outside pl ?bs (ram h) r1" "\<And>t. task = Some t \<Longrightarrow> r1 (b + 12) = t"
    using take_block_ok [OF ok w, of task] by blast
  define h1 where "h1 = h\<lparr>ram := r1, xFreeBytesRemaining := xFreeBytesRemaining h - ?k,
        xMinimumEverFreeBytesRemaining := min (xFreeBytesRemaining h - ?k) (xMinimumEverFreeBytesRemaining h)\<rparr>"
  have t': "heap_tiled pl a e ?ts" using heap_tiled_taken [OF D(2) w] .
  have h1: "ram h1 = r1" "xBlockAllocatedBit h1 = 2147483648" "allocList h1 = allocList h" using D(10) by (simp_all add: h1_def)
  obtain r where r: "vPortAddToList pl b h1 = Some (h1\<lparr>ram := r, allocList := add_entry b (allocList h)\<rparr>)"
    "chain r ?X e (free_blocks ?ts)" "canaries_ok pl r (free_blocks ?ts)"
    "r b = HEAD_CANARY_PATTERN" "r (b + ?k - 4) = TAIL_CANARY_PATTERN"
    "\<And>x. x \<notin> insert b (insert (b + ?k - 4) (insert ?X (fst ` set (free_blocks ?ts)))) \<Longrightarrow> r x = r1 x"
    using add_to_list_ok [OF t' taken_block, of h1] h1 r1(2,5) end_kept(1) [OF D(2) r1(6)] D(7) by auto
  have keep: "r (c + i) = r1 (c + i)" if "c \<in> headers pl e ?ts" "0 < i" "i < 16" for c i
  proof (rule r(6))
    have "c + i \<noteq> d" if "d \<in> headers pl e ?ts" for d
      using spaced_field [OF headers_spaced(1) [OF t'] \<open>c \<in> _\<close> that \<open>i < 16\<close>, of 0] \<open>0 < i\<close> by simp
    moreover have "insert ?X (fst ` set (free_blocks ?ts)) \<subseteq> headers pl e ?ts" "b \<in> headers pl e ?ts"
      using headers_distinct(3) [OF t'] used_in_headers [OF taken_block] by auto
    moreover have "c + i \<noteq> b + ?k - 4" using tail_not_field [OF t' taken_block that(1,3)] by simp
    ultimately show "c + i \<notin> insert b (insert (b + ?k - 4) (insert ?X (fst ` set (free_blocks ?ts))))" by blast
  qed
  have out: "same_outside pl ?bs (ram h) r"
    unfolding same_outside_def
  proof (intro allI impI)
    fix x assume "\<not> owned pl ?bs x"
    then show "r x = ram h x"
      using recorded_words [OF D(1) w(1,2)] r(6) [of x] r1(6) by (metis same_outside_def)
  qed
  let ?h = "h1\<lparr>ram := r, allocList := add_entry b (allocList h)\<rparr>"
  have inb: "b \<in> headers pl e ?ts" "?X \<in> headers pl e ?ts" by (rule used_in_headers [OF taken_block]) (simp add: headers_def)
  have "used_ok r (b, ?k)"
    using r(4,5) keep [OF inb(1), of 4] keep [OF inb(1), of 8] r1(4,5) by (simp add: used_ok_def)
  then have "heap_ok pl a e ?ts ?h"
    using taken_ok [OF ok w r(2) _ out, of ?h] keep [OF inb(2), of 8] r1(3) D(9,10) by (simp add: h1_def)
  moreover have "ram ?h (b + 12) = t" if "task = Some t" for t
    using keep [OF inb(1), of 12] r1(7) [OF that] by simp
  moreover have "heap4_malloc pl task n h = Some (b + 16, ?h)"
  proof -
    have "(b + 16) mod 8 = 0" using e0(5) by (metis dvd_add_right_iff dvd_imp_mod_0 dvd_triv_left mult_2_right numeral_Bit0)
    then show ?thesis
      using D(9,10) e0 small wanted_size_eq [OF n] enough nx find r1(1) r(1)
      by (simp add: heap4_malloc_def xHeapStructSize_def portBYTE_ALIGNMENT_def asserting_def h1_def [symmetric])
  qed
  ultimately show ?thesis using r(3) out by (intro exI [of _ ?h]) (simp add: h1_def)
qed

text \<open>No size, a size with the mark, or no block that is large enough.\<close>

lemma malloc_none:
  assumes ok: "heap_ok pl a e bs h" and n: "n < 4294967296"
    and none: "n = 0 \<or> 2147483648 \<le> n \<or> (\<forall>c t. (c, t, False) \<in> set bs \<longrightarrow> t < block_size n)"
  shows "heap4_malloc pl task n h = Some (0, h)"
proof -
  note D = heap_okD [OF ok]
  have e0: "e \<noteq> 0" "xStart pl \<noteq> 0" using D(2) tiles_extent [OF D(1)] by (auto simp: heap_tiled_def)
  have asr: "asserting (0 mod portBYTE_ALIGNMENT = 0) = Some ()" by (simp add: asserting_def)
  consider "2147483648 \<le> n" | "n = 0" | "0 < n" "n < 2147483648" "\<forall>c t. (c, t, False) \<in> set bs \<longrightarrow> t < block_size n"
    using none by (metis not_less gr0I)
  then show ?thesis
  proof cases
    case 1
    then have "n AND xBlockAllocatedBit h \<noteq> 0" using and_top [OF n] D(10) by simp
    then show ?thesis using e0 D(9) asr by (simp add: heap4_malloc_def)
  next
    case 2
    then show ?thesis using e0 D(9) asr by (simp add: heap4_malloc_def wanted_size_def)
  next
    case 3
    have small: "n AND xBlockAllocatedBit h = 0" using 3(2) and_top [of n] D(10) by simp
    have nx: "pxNextFreeBlock (xStart pl) h = Some (ram h (xStart pl + 4))" using e0(2) by (simp add: fld_def)
    have pos: "0 < block_size n" using block_size_bounds(1) [of n] by linarith
    have "\<exists>q. find_fit h (block_size n) (xStart pl) (ram h (xStart pl + 4)) = Some (q, e)"
    proof (rule find_fit_none [OF D(5) _ _ D(8,7) pos])
      show "0 \<notin> insert e (fst ` set (free_blocks bs))" using D(4) headers_distinct(3) [OF D(2)] by auto
      show "\<And>c t. (c, t) \<in> set (free_blocks bs) \<Longrightarrow> t < block_size n" using 3(3) by (simp add: free_blocks_set)
    qed
    then obtain q where "find_fit h (block_size n) (xStart pl) (ram h (xStart pl + 4)) = Some (q, e)" ..
    then show ?thesis
      using e0 D(9) asr small wanted_size_eq [OF 3(1,2)] nx pos by (simp add: heap4_malloc_def)
  qed
qed

end
