(* ===== verification/Heap4Free.thy ===== *)
theory Heap4Free imports Heap4Alloc begin

text \<open>
  A whole call of \<open>vPortFree\<close> on a block that is in use: the block is free again, joined with its
  free neighbours, and no word outside the allocator's own changes.
\<close>

unbundle bit_operations_syntax

definition covers :: "(nat \<times> nat) list \<Rightarrow> nat \<Rightarrow> bool" where
  "covers fl x \<longleftrightarrow> (\<exists>(c, t) \<in> set fl. c \<le> x \<and> x < c + t)"

lemma covers_simps [simp]:
  "\<not> covers [] x" "covers ((c, t) # fl) x \<longleftrightarrow> (c \<le> x \<and> x < c + t) \<or> covers fl x"
  "covers (fl @ gl) x \<longleftrightarrow> covers fl x \<or> covers gl x"
  by (auto simp: covers_def)

lemma covers_join_next: "covers (join_next (b, s) fl) x \<longleftrightarrow> (b \<le> x \<and> x < b + s) \<or> covers fl x"
proof (cases fl)
  case (Cons y q)
  then show ?thesis by (cases y) (auto simp: join_next_def)
qed (simp add: join_next_def)

lemma covers_insert_free:
  "covers (insert_free fl1 (b, s) fl2) x \<longleftrightarrow> covers fl1 x \<or> (b \<le> x \<and> x < b + s) \<or> covers fl2 x"
proof (cases fl1 rule: rev_cases)
  case (snoc g y)
  then show ?thesis by (cases y) (auto simp: insert_free_def covers_join_next)
qed (simp add: insert_free_def covers_join_next)

lemma insert_free_addrs:
  "fst ` set (insert_free fl1 (b, s) fl2) \<subseteq> insert b (fst ` set (fl1 @ fl2))"
proof -
  have *: "fst ` set (join_next y fl) \<subseteq> insert (fst y) (fst ` set fl)" for y fl
    by (auto simp: join_next_def split: list.splits prod.splits if_splits)
  show ?thesis
  proof (cases fl1 rule: rev_cases)
    case Nil
    then show ?thesis using * [of "(b, s)" fl2] by (auto simp: insert_free_def)
  next
    case (snoc g y)
    then show ?thesis
      using * [of "(b, s)" fl2] * [of "(fst y, snd y + s)" fl2] by (cases y) (auto simp: insert_free_def)
  qed
qed

lemma owned_covers: "owned pl bs x \<longleftrightarrow> (xStart pl \<le> x \<and> x < xStart pl + 16) \<or> covers (free_blocks bs) x"
  by (simp add: owned_def covers_def)

lemma free_extent: "sum_list (map snd (free_blocks bs)) \<le> extent bs"
  by (induction bs) auto

lemma heap_tiled_release:
  assumes "heap_tiled pl a e (xs @ (b, s, True) # ys)"
  shows "heap_tiled pl a e (release xs (b, s) ys)"
  using assms release_tiles(1,2) [of a e xs b s True ys] by (simp add: heap_tiled_def)

lemma rm_from_list_only: "snd (vPortRmFromList p h) = h\<lparr>allocList := allocList (snd (vPortRmFromList p h))\<rparr>"
  by (simp add: vPortRmFromList_def Let_def split: option.splits)

lemma insert_released:
  assumes ok: "heap_ok pl a e (xs @ (b, s, True) # ys) h" (is "heap_ok pl a e ?bs h")
    and h: "ram h' = (ram h)(b + 8 := s, b + 12 := 0)" "pxEnd h' = e"
  shows "\<exists>r. prvInsertBlockIntoFreeList pl b h' = Some (h'\<lparr>ram := r\<rparr>) \<and>
    chain r (xStart pl) e (free_blocks (release xs (b, s) ys)) \<and> r (xStart pl + 8) = 0 \<and>
    same_outside pl (release xs (b, s) ys) (ram h) r"
proof -
  let ?X = "xStart pl" and ?A = "headers pl e (xs @ (b, s, True) # ys)" and ?rs = "release xs (b, s) ys"
  let ?fl = "free_blocks xs @ free_blocks ys"
  note D = heap_okD [OF ok]
  have co: "coalesced ?bs" using D(2) by (simp add: heap_tiled_def)
  note R = release_tiles [OF D(1) co]
  have b: "(b, s, True) \<in> set ?bs" by simp
  note W = tiles_within [OF D(1) b]
  have in_A: "?X \<in> ?A" "b \<in> ?A" "e \<in> ?A" "fst ` set ?fl \<subseteq> ?A"
    using headers_distinct(3) [OF D(2)] by (auto simp: headers_def)
  have srt: "c \<in> fst ` set (free_blocks xs) \<Longrightarrow> c < b" "c \<in> fst ` set (free_blocks ys) \<Longrightarrow> b < c" for c
    using tiles_sorted [OF D(1)] by (fastforce simp: sorted_wrt_append free_blocks_set)+
  have b_no: "b \<notin> fst ` set ?fl" using srt(1) [of b] srt(2) [of b] by auto
  have bXe: "b \<noteq> ?X" "b \<noteq> e" using headers_distinct(1) [OF D(2)] by auto
  have dist: "distinct (?X # b # e # map fst ?fl)"
    using headers_distinct(2) [OF D(2)] bXe b_no by auto
  have ch: "chain (ram h) ?X e ?fl" using D(5) by simp
  have ch': "chain (ram h') ?X e ?fl"
  proof -
    have "chain ((ram h)(b + 8 := s)) ?X e ?fl"
      by (rule chain_frame [OF D(3) in_A(2,4) b_no _ _ ch]) (use spaced_field [OF D(3) in_A(1,2), of 4 8] in auto)
    then show ?thesis
      using chain_other [OF D(3) in_A(2), of 12 ?X ?fl "(ram h)(b + 8 := s)" 0 e] in_A h(1) by simp
  qed
  have f: "ram h' (b + 8) = s" "ram h' (?X + 8) = 0"
    using h(1) D(6) bXe(1) spaced_field [OF D(3) in_A(1,2), of 8 8] spaced_field [OF D(3) in_A(1,2), of 8 12] by auto
  have sz: "s + sum_list (map snd ?fl) < 4294967296"
    using free_extent [of xs] free_extent [of ys] tiles_extent [OF D(1)] D(2) by (simp add: heap_tiled_def)
  have ord: "\<And>c. c \<in> fst ` set (free_blocks ys) \<Longrightarrow> b \<le> c" "b \<le> e" using srt(2) W by (auto intro: less_imp_le)
  from prvInsert_chain [OF D(3,4) in_A(1-4) dist ch' f h(2) srt(1) ord sz]
  obtain r where r: "prvInsertBlockIntoFreeList pl b h' = Some (h'\<lparr>ram := r\<rparr>)"
    "chain r ?X e (free_blocks ?rs)"
    "\<And>x. (\<forall>c \<in> insert ?X (insert b (fst ` set (free_blocks xs))). x \<noteq> c + 4 \<and> x \<noteq> c + 8) \<or> x = ?X + 8 \<Longrightarrow> r x = ram h' x"
    unfolding R(3) by blast
  have "same_outside pl ?rs (ram h) r"
    unfolding same_outside_def
  proof (intro allI impI)
    fix x assume x: "\<not> owned pl ?rs x"
    have t': "tiles a e (xs @ (b, s, False) # ys)" using D(1) by (auto simp: tiles_append)
    have "owned pl ?rs y" if "owned pl (xs @ (b, s, False) # ys) y" for y
      using that R(3) by (auto simp: owned_covers covers_insert_free)
    then have no: "x \<noteq> c + i" if "c \<in> insert ?X (insert b (fst ` set (free_blocks xs)))" "i < 16" for c i
      using x field_owned [OF t' _ that(2), of c pl] that(1) by fastforce
    then have "r x = ram h' x" by (intro r(3)) auto
    then show "r x = ram h x" using no [of b 8] no [of b 12] h(1) by simp
  qed
  then show ?thesis using r f(2) by (intro exI [of _ r]) auto
qed

lemma free_ok:
  assumes ok: "heap_ok pl a e (xs @ (b, s, True) # ys) h" (is "heap_ok pl a e ?bs h")
  shows "\<exists>h'. heap4_free pl (b + 16) h = Some h' \<and> heap_ok pl a e (release xs (b, s) ys) h' \<and>
    canaries_ok pl (ram h') (free_blocks (release xs (b, s) ys)) \<and>
    allocList h' = allocList (snd (vPortRmFromList b h)) \<and>
    same_outside pl (release xs (b, s) ys) (ram h) (ram h') \<and>
    xFreeBytesRemaining h' = xFreeBytesRemaining h + s \<and>
    xMinimumEverFreeBytesRemaining h' = xMinimumEverFreeBytesRemaining h"
proof -
  let ?X = "xStart pl" and ?rs = "release xs (b, s) ys"
  note D = heap_okD [OF ok]
  have co: "coalesced ?bs" using D(2) by (simp add: heap_tiled_def)
  note R = release_tiles [OF D(1) co] and t' = heap_tiled_release [OF D(2)]
  have b: "(b, s, True) \<in> set ?bs" by simp
  have bnd: "s < 2147483648" "24 \<le> s" "b \<noteq> 0" "b < 4294967256" "xFreeBytesRemaining h + s < 2147483648"
    using tiles_within [OF D(1) b] tiles_extent [OF D(1)] D(2) D(11) free_extent [of xs] free_extent [of ys]
    by (auto simp: heap_tiled_def)
  have u: "ram h (b + 4) = 0" "ram h (b + 8) = s + 2147483648"
    using D(12) by (auto simp: used_ok_def)
  let ?al = "allocList (snd (vPortRmFromList b h))"
  define h2 where "h2 = h\<lparr>ram := (ram h)(b + 8 := s, b + 12 := 0), xFreeBytesRemaining := xFreeBytesRemaining h + s, allocList := ?al\<rparr>"
  have h2: "ram h2 = (ram h)(b + 8 := s, b + 12 := 0)" "pxEnd h2 = e" using D(9) by (simp_all add: h2_def)
  from insert_released [OF ok h2]
  obtain r where r: "prvInsertBlockIntoFreeList pl b h2 = Some (h2\<lparr>ram := r\<rparr>)"
    "chain r ?X e (free_blocks ?rs)" "r (?X + 8) = 0" "same_outside pl ?rs (ram h) r" by blast
  note hd = headers_distinct [OF t'] and sp = headers_spaced [OF t']
  have e4: "r (e + 4) = 0" "r (e + 8) = 0" using end_kept [OF t' r(4)] D(7,8) by simp_all
  from update_canaries_chain [of "h2\<lparr>ram := r\<rparr>", OF _ sp hd(3) _ hd(2)] r(2) e4
  obtain r' where r': "update_canaries (h2\<lparr>ram := r\<rparr>) ?X = Some (h2\<lparr>ram := r'\<rparr>)" "chain r' ?X e (free_blocks ?rs)"
    "\<forall>c \<in> insert ?X (fst ` set (free_blocks ?rs)). r' c = HEAD_CANARY_PATTERN"
    "\<And>x. x \<notin> insert ?X (fst ` set (free_blocks ?rs)) \<Longrightarrow> r' x = r x" by auto
  let ?h = "h2\<lparr>ram := r'\<rparr>"
  have tl: "tiles a e ?rs" using R(1) .
  have out: "same_outside pl ?rs (ram h) r'"
    unfolding same_outside_def
  proof (intro allI impI)
    fix x assume x: "\<not> owned pl ?rs x"
    then have "x \<notin> insert ?X (fst ` set (free_blocks ?rs))"
      using field_owned [OF tl, of x pl 0] by auto
    then show "r' x = ram h x" using r'(4) r(4) x by (simp add: same_outside_def)
  qed
  have "?X + 8 \<notin> insert ?X (fst ` set (free_blocks ?rs))"
  proof
    assume "?X + 8 \<in> insert ?X (fst ` set (free_blocks ?rs))"
    then have "?X + 8 \<in> headers pl e ?rs" "?X \<in> headers pl e ?rs" using hd(3) by auto
    from spaced_field [OF sp(1) this, of 0 8] show False by simp
  qed
  then have "r' (?X + 8) = 0" using r'(4) r(3) by simp
  then have linked: "list_linked pl e r' (free_blocks ?rs)"
    using r'(2) end_kept [OF t' out] D(7,8) by (simp add: list_linked_def)
  have "list_all (used_ok (ram h)) (used_blocks ?rs)" using D(12) R(4) by simp
  then have "list_all (used_ok r') (used_blocks ?rs)" using used_ok_kept [OF t' out] by simp
  then have "heap_ok pl a e ?rs ?h"
    using t' linked D(9-11,13) R(5) by (simp add: heap_ok_def h2_def)
  moreover have "heap4_free pl (b + 16) h = Some ?h"
  proof -
    have "sub32 (b + 16) xHeapStructSize = b" using bnd(4) by (simp add: sub32_eq xHeapStructSize_def)
    moreover have mark: "(s + 2147483648) AND 2147483648 = 2147483648" using bnd(1) by (rule and_top_set)
    moreover have "release_block pl b (s + 2147483648) h = Some ?h"
    proof -
      let ?k = "h\<lparr>xFreeBytesRemaining := xFreeBytesRemaining h + s, ram := (ram h)(b + 8 := s, b + 12 := 0)\<rparr>"
      have "snd (vPortRmFromList b ?k) = h2"
        by (simp add: h2_def vPortRmFromList_def Let_def split: option.splits)
      then show ?thesis
        using bnd D(10) mark r(1) r'(1)
        by (simp add: release_block_def set_fld_eq w32_def Let_def vPortUpdateFreeBlockList_def)
    qed
    ultimately show ?thesis
      using bnd(3) u D(10) by (simp add: heap4_free_def fld_def asserting_def Let_def)
  qed
  moreover have "canaries_ok pl r' (free_blocks ?rs)" using r'(3) by (simp add: canaries_ok_def)
  ultimately show ?thesis using out by (intro exI [of _ ?h]) (simp add: h2_def)
qed

end
