(* ===== verification/Heap4Spec.thy ===== *)
theory Heap4Spec imports Heap4Free begin

text \<open>
  The contract of the allocator as a small program on lists: the blocks of the heap, first fit,
  joining on release, and the words that the holders of blocks have stored. The lemmas say that
  each call of the code does what the contract says, the first one, which initialises, included.
\<close>

section \<open>The contract\<close>

fun first_fit :: "nat \<Rightarrow> block list \<Rightarrow> (nat \<times> block list) option" where
  "first_fit w [] = None"
| "first_fit w ((b, s, u) # bs) =
     (if \<not> u \<and> w \<le> s then Some (b, taken [] (b, s) bs w)
      else map_option (\<lambda>(p, bs'). (p, (b, s, u) # bs')) (first_fit w bs))"

definition spec_malloc :: "nat \<Rightarrow> block list \<Rightarrow> nat \<times> block list" where
  "spec_malloc n bs =
     (if n = 0 \<or> 2147483648 \<le> n then (0, bs)
      else case first_fit (block_size n) bs of None \<Rightarrow> (0, bs) | Some (b, bs') \<Rightarrow> (b + 16, bs'))"

definition spec_free :: "nat \<Rightarrow> block list \<Rightarrow> block list" where
  "spec_free p bs =
     (case dropWhile (\<lambda>(b, s, u). b + 16 \<noteq> p) bs of
        [] \<Rightarrow> bs
      | (b, s, u) # ys \<Rightarrow> release (takeWhile (\<lambda>(b, s, u). b + 16 \<noteq> p) bs) (b, s) ys)"

text \<open>The words between the header and the canary of a block in use.\<close>

definition held :: "block list \<Rightarrow> nat \<Rightarrow> bool" where
  "held bs x \<longleftrightarrow> list_ex (\<lambda>(b, s). b + 16 \<le> x \<and> x < b + s - 4) (used_blocks bs)"

record heap_spec =
  blocks :: "block list"
  contents :: "nat \<Rightarrow> nat option"

datatype heap_call = Malloc "nat option" nat | Free nat | Store nat nat | Load nat

fun spec_call :: "heap_call \<Rightarrow> heap_spec \<Rightarrow> nat \<times> heap_spec" where
  "spec_call (Malloc task n) S = (case spec_malloc n (blocks S) of (p, bs) \<Rightarrow> (p, S\<lparr>blocks := bs\<rparr>))"
| "spec_call (Free p) S =
     (let bs = spec_free p (blocks S)
      in (0, S\<lparr>blocks := bs, contents := (\<lambda>x. if held bs x then contents S x else None)\<rparr>))"
| "spec_call (Store x v) S = (0, S\<lparr>contents := (contents S)(x := Some v)\<rparr>)"
| "spec_call (Load x) S = (the (contents S x), S)"

text \<open>What a holder may do: release what it holds, store there, and load what has been stored.\<close>

fun legal :: "heap_spec \<Rightarrow> heap_call \<Rightarrow> bool" where
  "legal S (Malloc task n) \<longleftrightarrow> n < 4294967296"
| "legal S (Free p) \<longleftrightarrow> p = 0 \<or> list_ex (\<lambda>(b, s). p = b + 16) (used_blocks (blocks S))"
| "legal S (Store x v) \<longleftrightarrow> held (blocks S) x \<and> x mod 4 = 0 \<and> v < 4294967296"
| "legal S (Load x) \<longleftrightarrow> contents S x \<noteq> None"

text \<open>The same calls of the code.\<close>

fun client_call :: "heap4_place \<Rightarrow> heap_call \<Rightarrow> heap4 \<Rightarrow> (nat \<times> heap4) option" where
  "client_call pl (Malloc task n) h = heap4_malloc pl task n h"
| "client_call pl (Free p) h = map_option (\<lambda>h. (0, h)) (heap4_free pl p h)"
| "client_call pl (Store x v) h = Some (0, h\<lparr>ram := (ram h)(x := v)\<rparr>)"
| "client_call pl (Load x) h = Some (ram h x, h)"

section \<open>The first call\<close>

definition placed :: "heap4_place \<Rightarrow> bool" where
  "placed pl \<longleftrightarrow> 16 \<le> ucHeap pl \<and> ucHeap pl + total_heap_size < 4294967296 \<and> xStart pl \<noteq> 0 \<and>
     (xStart pl + 16 \<le> ucHeap pl \<or> ucHeap pl + total_heap_size \<le> xStart pl)"

definition heap_first :: "heap4_place \<Rightarrow> nat" where "heap_first pl = (ucHeap pl + 7) div 8 * 8"
definition heap_last :: "heap4_place \<Rightarrow> nat" where "heap_last pl = ucHeap pl div 8 * 8 + 40944"

lemma heap_bounds:
  "ucHeap pl \<le> heap_first pl" "heap_first pl \<le> ucHeap pl + 7" "8 dvd heap_first pl" "8 dvd heap_last pl"
  "heap_last pl \<le> ucHeap pl + 40944" "ucHeap pl + 40937 \<le> heap_last pl"
proof -
  show "8 dvd heap_last pl" by (simp add: heap_last_def)
qed (simp_all add: heap_first_def heap_last_def)

lemma init_ok:
  assumes "placed pl"
  shows "\<exists>h'. prvHeapInit pl h = Some h' \<and>
    heap_ok pl (heap_first pl) (heap_last pl) [(heap_first pl, heap_last pl - heap_first pl, False)] h' \<and>
    allocList h' = allocList h"
proof -
  let ?a = "heap_first pl" and ?e = "heap_last pl" and ?X = "xStart pl"
  note P = assms [unfolded placed_def total_heap_size_def] and B = heap_bounds [of pl]
  have first: "(if ucHeap pl mod portBYTE_ALIGNMENT \<noteq> 0 then align8 (w32 (ucHeap pl + (portBYTE_ALIGNMENT - 1))) else ucHeap pl) = ?a"
  proof (cases "ucHeap pl mod 8 = 0")
    case True
    then have "(ucHeap pl + 7) div 8 = ucHeap pl div 8" by (intro div_nat_eqI) (simp_all add: mod_0_imp_dvd dvd_mult_div_cancel)
    then show ?thesis using True by (simp add: heap_first_def portBYTE_ALIGNMENT_def mod_0_imp_dvd)
  next
    case False
    have "w32 (ucHeap pl + 7) = ucHeap pl + 7" using P by (simp add: w32_def)
    with False show ?thesis by (simp add: heap_first_def portBYTE_ALIGNMENT_def align8_def)
  qed
  have "w32 (?a + (total_heap_size - (?a - ucHeap pl))) = ucHeap pl + 40960"
    using P B by (simp add: w32_def total_heap_size_def)
  moreover have "align8 (ucHeap pl + 40960 - 16) = ?e"
    using div_mult_self1 [of 8 "ucHeap pl" 5118] by (simp add: align8_def heap_last_def add.commute)
  ultimately have last: "align8 (w32 (?a + (total_heap_size - (?a - ucHeap pl))) - xHeapStructSize) = ?e"
    by (simp add: xHeapStructSize_def)
  have sep: "?X \<noteq> 0" "?e \<noteq> 0" "?a \<noteq> 0" "?X + 16 \<le> ?a \<or> ?e + 16 \<le> ?X" "?a + 16 \<le> ?e" using P B by auto
  define r where "r = (ram h)(?X + 4 := ?a, ?X + 8 := 0, ?e + 8 := 0, ?e + 4 := 0, ?a + 8 := ?e - ?a, ?a + 4 := ?e)"
  let ?h = "h\<lparr>ram := r, pxEnd := ?e, xFreeBytesRemaining := ?e - ?a, xMinimumEverFreeBytesRemaining := ?e - ?a,
    xBlockAllocatedBit := 2147483648\<rparr>"
  have "prvHeapInit pl h = Some ?h"
    using sep(1-3) unfolding prvHeapInit_def Let_def first last
    by (simp add: set_fld_eq r_def push_bit_eq_mult)
  moreover have "tiles ?a ?e [(?a, ?e - ?a, False)]"
    using B P by (simp add: dvd_diff_nat)
  then have "heap_tiled pl ?a ?e [(?a, ?e - ?a, False)]"
    using B P by (auto simp: heap_tiled_def)
  moreover have "list_linked pl ?e r [(?a, ?e - ?a)]"
    using sep by (auto simp: list_linked_def r_def)
  ultimately show ?thesis by (intro exI [of _ ?h]) (simp add: heap_ok_def)
qed

lemma malloc_initialises:
  assumes "pxEnd h = 0" "prvHeapInit pl h = Some h'" "pxEnd h' \<noteq> 0"
  shows "heap4_malloc pl task n h = heap4_malloc pl task n h'"
  using assms by (simp add: heap4_malloc_def)

section \<open>Each call keeps to the contract\<close>

lemma first_fit_Some:
  "first_fit w bs = Some (b, bs') \<Longrightarrow>
    \<exists>xs s ys. bs = xs @ (b, s, False) # ys \<and> w \<le> s \<and> (\<forall>c t. (c, t, False) \<in> set xs \<longrightarrow> t < w) \<and> bs' = taken xs (b, s) ys w"
proof (induction w bs arbitrary: bs' rule: first_fit.induct)
  case (2 w c s u bs)
  show ?case
  proof (cases "\<not> u \<and> w \<le> s")
    case True
    with 2(2) show ?thesis by (intro exI [of _ "[]"]) auto
  next
    case False
    with 2(2) obtain bs1 where bs1: "first_fit w bs = Some (b, bs1)" "bs' = (c, s, u) # bs1" by auto
    from 2(1) [OF False bs1(1)] obtain xs t ys where
      "bs = xs @ (b, t, False) # ys" "w \<le> t" "\<forall>c t. (c, t, False) \<in> set xs \<longrightarrow> t < w" "bs1 = taken xs (b, t) ys w" by blast
    with False bs1(2) show ?thesis by (intro exI [of _ "(c, s, u) # xs"] exI [of _ t] exI [of _ ys]) (auto simp: taken_def)
  qed
qed simp

lemma first_fit_None: "first_fit w bs = None \<Longrightarrow> (c, t, False) \<in> set bs \<Longrightarrow> t < w"
  by (induction w bs rule: first_fit.induct) (auto split: if_splits)

lemma held_not_owned:
  assumes "heap_tiled pl a e bs" "held bs x"
  shows "\<not> owned pl bs x"
  using assms(2) not_owned_used [OF assms(1)] by (fastforce simp: held_def list_ex_iff used_blocks_set)

lemma malloc_meets_spec:
  assumes ok: "heap_ok pl a e bs h" and n: "n < 4294967296" and spec: "spec_malloc n bs = (p, bs')"
  shows "\<exists>h'. heap4_malloc pl task n h = Some (p, h') \<and> heap_ok pl a e bs' h' \<and>
    (\<forall>x. held bs x \<longrightarrow> held bs' x \<and> ram h' x = ram h x) \<and>
    (if p = 0 then bs' = bs \<and> h' = h
     else allocList h' = add_entry (p - 16) (allocList h) \<and> canaries_ok pl (ram h') (free_blocks bs') \<and>
       (\<exists>us vs s. used_blocks bs = us @ vs \<and> used_blocks bs' = us @ (p - 16, s) # vs \<and> n \<le> s - 20))"
proof -
  note D = heap_okD [OF ok]
  consider "n = 0 \<or> 2147483648 \<le> n \<or> first_fit (block_size n) bs = None" "p = 0" "bs' = bs"
    | b where "0 < n" "n < 2147483648" "first_fit (block_size n) bs = Some (b, bs')" "p = b + 16"
  proof (cases "n = 0 \<or> 2147483648 \<le> n")
    case True
    with spec show ?thesis by (intro that(1)) (auto simp: spec_malloc_def)
  next
    case False
    then have n': "0 < n" "n < 2147483648" by simp_all
    show ?thesis
    proof (cases "first_fit (block_size n) bs")
      case None
      with spec False show ?thesis by (intro that(1)) (simp_all add: spec_malloc_def)
    next
      case (Some r)
      with spec False n' show ?thesis by (cases r) (intro that(2) [of "fst r"], simp_all add: spec_malloc_def)
    qed
  qed
  then show ?thesis
  proof cases
    case 1
    then have "heap4_malloc pl task n h = Some (0, h)"
      using malloc_none [OF ok n, of task] first_fit_None [of "block_size n" bs] by blast
    then show ?thesis using 1 ok by simp
  next
    case 2
    from first_fit_Some [OF 2(3)] obtain xs s ys where
      f: "bs = xs @ (b, s, False) # ys" "block_size n \<le> s" "\<forall>c t. (c, t, False) \<in> set xs \<longrightarrow> t < block_size n"
        "bs' = taken xs (b, s) ys (block_size n)" by blast
    from malloc_found [of pl a e xs b s ys h n task] ok f 2(1,2) obtain h' where
      h': "heap4_malloc pl task n h = Some (b + 16, h')" "heap_ok pl a e bs' h'" "canaries_ok pl (ram h') (free_blocks bs')"
        "allocList h' = add_entry b (allocList h)" "same_outside pl bs (ram h) (ram h')" by auto
    have "held bs' x \<and> ram h' x = ram h x" if "held bs x" for x
    proof -
      have "ram h' x = ram h x" using held_not_owned [OF D(2) that] h'(5) by (simp add: same_outside_def)
      moreover have "held bs' x" using that f(1,4) by (auto simp: held_def free_taken)
      ultimately show ?thesis by simp
    qed
    moreover have "n \<le> taken_size s (block_size n) - 20"
      using f(2) block_size_bounds(3) [of n] by (auto simp: taken_size_def)
    moreover have "used_blocks bs = used_blocks xs @ used_blocks ys"
      "used_blocks bs' = used_blocks xs @ (p - 16, taken_size s (block_size n)) # used_blocks ys"
      using f(1,4) 2(4) by (simp_all add: free_taken)
    ultimately show ?thesis using h' 2(4) by (intro exI [of _ h']) auto
  qed
qed

lemma spec_free_split:
  assumes "heap_tiled pl a e bs" "(b, s) \<in> set (used_blocks bs)"
  shows "\<exists>xs ys. bs = xs @ (b, s, True) # ys \<and> spec_free (b + 16) bs = release xs (b, s) ys"
proof -
  from assms(2) obtain xs ys where bs: "bs = xs @ (b, s, True) # ys"
    using split_list [of "(b, s, True)" bs] by (auto simp: used_blocks_set)
  have "distinct (map fst bs)" using headers_distinct(1) [OF assms(1)] by simp
  then have no: "\<And>y. y \<in> set xs \<Longrightarrow> fst y \<noteq> b" using bs by force
  have "takeWhile (\<lambda>(c, t, u). c + 16 \<noteq> b + 16) bs = xs" "dropWhile (\<lambda>(c, t, u). c + 16 \<noteq> b + 16) bs = (b, s, True) # ys"
    unfolding bs using no by (subst takeWhile_append2 dropWhile_append2; force)+
  then show ?thesis using bs by (auto simp: spec_free_def)
qed

lemma free_meets_spec:
  assumes ok: "heap_ok pl a e bs h" and p: "(b, s) \<in> set (used_blocks bs)"
  shows "\<exists>h'. heap4_free pl (b + 16) h = Some h' \<and> heap_ok pl a e (spec_free (b + 16) bs) h' \<and>
    (\<forall>x. held (spec_free (b + 16) bs) x \<longrightarrow> held bs x \<and> ram h' x = ram h x) \<and>
    allocList h' = allocList (snd (vPortRmFromList b h)) \<and>
    canaries_ok pl (ram h') (free_blocks (spec_free (b + 16) bs)) \<and>
    (\<exists>us vs. used_blocks bs = us @ (b, s) # vs \<and> used_blocks (spec_free (b + 16) bs) = us @ vs)"
proof -
  note D = heap_okD [OF ok]
  from spec_free_split [OF D(2) p] obtain xs ys where
    f: "bs = xs @ (b, s, True) # ys" "spec_free (b + 16) bs = release xs (b, s) ys" by blast
  have t: "tiles a e (xs @ (b, s, True) # ys)" "coalesced (xs @ (b, s, True) # ys)" using D(2) f(1) by (auto simp: heap_tiled_def)
  note R = release_tiles(4) [OF t]
  from free_ok [of pl a e xs b s ys h] ok f obtain h' where
    h': "heap4_free pl (b + 16) h = Some h'" "heap_ok pl a e (spec_free (b + 16) bs) h'"
      "canaries_ok pl (ram h') (free_blocks (spec_free (b + 16) bs))" "allocList h' = allocList (snd (vPortRmFromList b h))"
      "same_outside pl (spec_free (b + 16) bs) (ram h) (ram h')" by auto
  have "held bs x \<and> ram h' x = ram h x" if "held (spec_free (b + 16) bs) x" for x
  proof -
    have "ram h' x = ram h x"
      using held_not_owned [OF heap_okD(2) [OF h'(2)] that] h'(5) by (simp add: same_outside_def)
    moreover have "held bs x" using that f R by (auto simp: held_def)
    ultimately show ?thesis by simp
  qed
  moreover have "used_blocks bs = used_blocks xs @ (b, s) # used_blocks ys"
    "used_blocks (spec_free (b + 16) bs) = used_blocks xs @ used_blocks ys" using f R by simp_all
  ultimately show ?thesis using h' by blast
qed

text \<open>A word that a holder stores is none of the allocator's own.\<close>

lemma store_keeps:
  assumes ok: "heap_ok pl a e bs h" and x: "held bs x"
  shows "heap_ok pl a e bs (h\<lparr>ram := (ram h)(x := v)\<rparr>)"
    "canaries_ok pl (ram h) (free_blocks bs) \<Longrightarrow> canaries_ok pl ((ram h)(x := v)) (free_blocks bs)"
proof -
  note D = heap_okD [OF ok]
  have no: "x \<noteq> y" if "owned pl bs y" for y using held_not_owned [OF D(2) x] that by blast
  note fo = field_owned [OF D(1)]
  have nox: "x \<noteq> c + i" if "c \<in> insert (xStart pl) (fst ` set (free_blocks bs))" "i < 16" for c i
    using no [OF fo [OF that]] .
  obtain b s where bs: "(b, s) \<in> set (used_blocks bs)" "b + 16 \<le> x" "x < b + s - 4"
    using x by (auto simp: held_def list_ex_iff)
  then have b: "(b, s, True) \<in> set bs" by (simp add: used_blocks_set)
  have "chain ((ram h)(x := v)) (xStart pl) e (free_blocks bs) = chain (ram h) (xStart pl) e (free_blocks bs)"
  proof (rule chain_cong)
    show "((ram h)(x := v)) (xStart pl + 4) = ram h (xStart pl + 4)" using nox [of "xStart pl" 4] by simp
    show "((ram h)(x := v)) (c + 4) = ram h (c + 4) \<and> ((ram h)(x := v)) (c + 8) = ram h (c + 8)"
      if "c \<in> fst ` set (free_blocks bs)" for c
      using nox [of c 4] nox [of c 8] that by simp
  qed
  moreover have "x \<noteq> e + 4" "x \<noteq> e + 8" "x \<noteq> xStart pl + 8"
    using tiles_within [OF D(1) b] bs(2,3) nox [of "xStart pl" 8] by auto
  moreover have "used_ok ((ram h)(x := v)) (c, t)" if ct: "(c, t) \<in> set (used_blocks bs)" for c t
  proof -
    have c: "(c, t, True) \<in> set bs" using ct by (simp add: used_blocks_set)
    from tiles_apart [OF D(1) b c] tiles_within [OF D(1) c] bs(2,3)
    have "x \<noteq> c" "x \<noteq> c + 4" "x \<noteq> c + 8" "x \<noteq> c + t - 4" by auto
    moreover have "used_ok (ram h) (c, t)" using D(12) ct by (auto simp: list_all_iff)
    ultimately show ?thesis by (simp add: used_ok_def)
  qed
  ultimately show "heap_ok pl a e bs (h\<lparr>ram := (ram h)(x := v)\<rparr>)"
    using ok by (auto simp: heap_ok_def list_linked_def list_all_iff)
  show "canaries_ok pl ((ram h)(x := v)) (free_blocks bs)" if "canaries_ok pl (ram h) (free_blocks bs)"
    using that nox [of _ 0] by (fastforce simp: canaries_ok_def)
qed

end
