(* ===== verification/Heap4Run.thy ===== *)
theory Heap4Run imports Heap4Spec "HOL-Library.Multiset" begin

text \<open>
  Runs of calls: while the holders keep to their blocks, the code returns what the contract says,
  and while fewer than 256 blocks are in use the list of allocated blocks is the list of the
  blocks in use.
\<close>

section \<open>Runs\<close>

fun client_run :: "heap4_place \<Rightarrow> heap_call list \<Rightarrow> heap4 \<Rightarrow> (nat list \<times> heap4) option" where
  "client_run pl [] h = Some ([], h)"
| "client_run pl (c # cs) h =
     Option.bind (client_call pl c h) (\<lambda>(v, h).
     Option.bind (client_run pl cs h) (\<lambda>(vs, h). Some (v # vs, h)))"

fun spec_run :: "heap_call list \<Rightarrow> heap_spec \<Rightarrow> nat list \<times> heap_spec" where
  "spec_run [] S = ([], S)"
| "spec_run (c # cs) S =
     (let (v, S) = spec_call c S; (vs, S) = spec_run cs S in (v # vs, S))"

fun legal_run :: "heap_spec \<Rightarrow> heap_call list \<Rightarrow> bool" where
  "legal_run S [] \<longleftrightarrow> True"
| "legal_run S (c # cs) \<longleftrightarrow> legal S c \<and> legal_run (snd (spec_call c S)) cs"

text \<open>No call of the run meets more than \<open>k\<close> blocks in use.\<close>

fun at_most :: "nat \<Rightarrow> heap_spec \<Rightarrow> heap_call list \<Rightarrow> bool" where
  "at_most k S [] \<longleftrightarrow> True"
| "at_most k S (c # cs) \<longleftrightarrow> length (used_blocks (blocks S)) \<le> k \<and> at_most k (snd (spec_call c S)) cs"

definition spec_start :: "heap4_place \<Rightarrow> heap_spec" where
  "spec_start pl =
     \<lparr>blocks = [(heap_first pl, heap_last pl - heap_first pl, False)], contents = (\<lambda>_. None)\<rparr>"

section \<open>The relation\<close>

definition agrees :: "heap4_place \<Rightarrow> heap_spec \<Rightarrow> heap4 \<Rightarrow> bool" where
  "agrees pl S h \<longleftrightarrow>
     (heap_ok pl (heap_first pl) (heap_last pl) (blocks S) h \<or> pxEnd h = 0 \<and> blocks S = blocks (spec_start pl)) \<and>
     (\<forall>x v. contents S x = Some v \<longrightarrow> held (blocks S) x \<and> ram h x = v)"

definition recorded :: "nat list \<Rightarrow> (nat \<times> nat) list \<Rightarrow> bool" where
  "recorded al us \<longleftrightarrow>
     (\<exists>es. al = es @ replicate (allocList_size - length us) 0 \<and> mset es = mset (map fst us) \<and> length us \<le> allocList_size)"

definition kept :: "heap4_place \<Rightarrow> heap_spec \<Rightarrow> heap4 \<Rightarrow> bool" where
  "kept pl S h \<longleftrightarrow> recorded (allocList h) (used_blocks (blocks S)) \<and>
     (used_blocks (blocks S) \<noteq> [] \<longrightarrow> canaries_ok pl (ram h) (free_blocks (blocks S)))"

lemma add_entry_free: "0 \<notin> set es \<Longrightarrow> add_entry b (es @ replicate (Suc k) 0) = es @ b # replicate k 0"
  by (induction es) auto

lemma position_here: "b \<notin> set es \<Longrightarrow> position b (es @ b # fs) = Some (length es)"
  by (induction es) auto

lemma recorded_add:
  assumes "recorded al (us @ vs)" "length (us @ vs) < allocList_size" "0 \<notin> fst ` set (us @ vs)"
  shows "recorded (add_entry b al) (us @ (b, s) # vs)"
proof -
  from assms(1) obtain es where es: "al = es @ replicate (allocList_size - length (us @ vs)) 0" "mset es = mset (map fst (us @ vs))"
    by (auto simp: recorded_def)
  have "set es = fst ` set (us @ vs)" using mset_eq_setD [OF es(2)] by (simp add: image_Un)
  then have "0 \<notin> set es" using assms(3) by simp
  moreover obtain k where k: "allocList_size - length (us @ vs) = Suc k"
    using assms(2) by (metis diff_is_0_eq not0_implies_Suc not_less)
  ultimately have "add_entry b al = (es @ [b]) @ replicate k 0" using es(1) add_entry_free [of es b k] by simp
  moreover have "allocList_size - length (us @ (b, s) # vs) = k" using k by simp
  ultimately show ?thesis using es(2) assms(2) by (auto simp: recorded_def intro!: exI [of _ "es @ [b]"])
qed

lemma recorded_remove:
  assumes "recorded (allocList h) (us @ (b, s) # vs)" "length (us @ (b, s) # vs) < allocList_size"
    "distinct (map fst (us @ (b, s) # vs))"
  shows "recorded (allocList (snd (vPortRmFromList b h))) (us @ vs)"
proof -
  from assms(1) obtain es where es: "allocList h = es @ replicate (allocList_size - length (us @ (b, s) # vs)) 0"
    "mset es = mset (map fst (us @ (b, s) # vs))" by (auto simp: recorded_def)
  obtain k where k: "allocList_size - length (us @ (b, s) # vs) = Suc k"
    using assms(2) by (metis diff_is_0_eq not0_implies_Suc not_less)
  have "b \<in> set es" using mset_eq_setD [OF es(2)] by simp
  then obtain fs gs where fg: "es = fs @ b # gs" "b \<notin> set fs" by (metis split_list_first)
  have "position b (allocList h) = Some (length fs)" using es(1) fg position_here by simp
  moreover have "last ((allocList h)[length fs := 0]) = 0" using es(1) fg(1) k by (simp add: list_update_append)
  moreover have "replicate (Suc k) 0 @ [0] = replicate (Suc (Suc k)) (0 :: nat)" by (simp add: replicate_append_same)
  then have "take (length fs) ((allocList h)[length fs := 0]) @ drop (Suc (length fs)) ((allocList h)[length fs := 0]) @ [0] =
      (fs @ gs) @ replicate (Suc (Suc k)) 0"
    using es(1) fg(1) k by (simp add: list_update_append del: replicate_Suc)
  ultimately have "allocList (snd (vPortRmFromList b h)) = (fs @ gs) @ replicate (Suc (Suc k)) 0"
    by (simp add: vPortRmFromList_def Let_def)
  moreover have "allocList_size - length (us @ vs) = Suc (Suc k)" using k by simp
  moreover have "mset (fs @ gs) = mset (map fst (us @ vs))" using es(2) fg(1) by simp
  ultimately show ?thesis using assms(2) by (auto simp: recorded_def intro!: exI [of _ "fs @ gs"])
qed

lemma used_addrs:
  assumes "heap_tiled pl a e bs"
  shows "distinct (map fst (used_blocks bs))" "0 \<notin> fst ` set (used_blocks bs)"
proof -
  have "distinct (map fst bs)" using headers_distinct(1) [OF assms] by simp
  moreover have "map fst (used_blocks bs) = map fst (filter (\<lambda>(b, s, u). u) bs)"
    by (simp add: used_blocks_def case_prod_unfold comp_def)
  ultimately show "distinct (map fst (used_blocks bs))" using distinct_map_filter by metis
  show "0 \<notin> fst ` set (used_blocks bs)"
    using headers_spaced(2) [OF assms] free_addrs(2) [of bs] by (auto simp: headers_def)
qed

lemma start_agrees: "agrees pl (spec_start pl) (heap4_static r)" "kept pl (spec_start pl) (heap4_static r)"
  by (simp_all add: agrees_def heap4_static_def spec_start_def kept_def recorded_def)

section \<open>One call\<close>

lemma malloc_call:
  assumes p: "placed pl" and ag: "agrees pl S h" and n: "n < 4294967296"
  shows "\<exists>h'. client_call pl (Malloc task n) h = Some (fst (spec_call (Malloc task n) S), h') \<and>
    agrees pl (snd (spec_call (Malloc task n) S)) h' \<and>
    (kept pl S h \<and> length (used_blocks (blocks S)) < allocList_size \<longrightarrow> kept pl (snd (spec_call (Malloc task n) S)) h')"
proof -
  let ?a = "heap_first pl" and ?e = "heap_last pl"
  obtain h0 where h0: "heap_ok pl ?a ?e (blocks S) h0" "heap4_malloc pl task n h = heap4_malloc pl task n h0"
    "allocList h0 = allocList h" "used_blocks (blocks S) \<noteq> [] \<longrightarrow> h0 = h"
  proof (cases "heap_ok pl ?a ?e (blocks S) h")
    case True
    then show ?thesis by (intro that) auto
  next
    case False
    then have un: "pxEnd h = 0" "blocks S = [(?a, ?e - ?a, False)]" using ag by (auto simp: agrees_def spec_start_def)
    from init_ok [OF p, of h] obtain h1 where h1: "prvHeapInit pl h = Some h1"
      "heap_ok pl ?a ?e (blocks S) h1" "allocList h1 = allocList h" using un(2) by auto
    have "pxEnd h1 \<noteq> 0" using heap_okD(9) [OF h1(2)] heap_bounds(6) [of pl] by simp
    from malloc_initialises [OF un(1) h1(1) this] h1 un(2) show ?thesis by (intro that [of h1]) auto
  qed
  note D = heap_okD [OF h0(1)]
  obtain q bs' where spec: "spec_malloc n (blocks S) = (q, bs')" by fastforce
  from malloc_meets_spec [OF h0(1) n spec, of task] obtain h' where
    h': "heap4_malloc pl task n h0 = Some (q, h')" "heap_ok pl ?a ?e bs' h'"
      "\<And>x. held (blocks S) x \<Longrightarrow> held bs' x \<and> ram h' x = ram h0 x"
    and c: "if q = 0 then bs' = blocks S \<and> h' = h0
      else allocList h' = add_entry (q - 16) (allocList h0) \<and> canaries_ok pl (ram h') (free_blocks bs') \<and>
       (\<exists>us vs s. used_blocks (blocks S) = us @ vs \<and> used_blocks bs' = us @ (q - 16, s) # vs \<and> n \<le> s - 20)"
    by blast
  have "held bs' x \<and> ram h' x = v" if "contents S x = Some v" for x v
  proof -
    have x: "held (blocks S) x" "ram h x = v" using that ag by (auto simp: agrees_def)
    then have "used_blocks (blocks S) \<noteq> []" by (auto simp: held_def)
    with h'(3) [OF x(1)] x(2) h0(4) show ?thesis by simp
  qed
  then have "agrees pl (S\<lparr>blocks := bs'\<rparr>) h'" using h'(2) by (simp add: agrees_def)
  moreover have "kept pl (S\<lparr>blocks := bs'\<rparr>) h'" if k: "kept pl S h" "length (used_blocks (blocks S)) < allocList_size"
  proof (cases "q = 0")
    case True
    then show ?thesis using c k(1) h0(3,4) by (auto simp: kept_def)
  next
    case False
    with c obtain us vs s where u: "used_blocks (blocks S) = us @ vs" "used_blocks bs' = us @ (q - 16, s) # vs" by auto
    have "recorded (add_entry (q - 16) (allocList h)) (used_blocks bs')"
      using recorded_add [of "allocList h" us vs "q - 16" s] k u used_addrs(2) [OF D(2)] by (simp add: kept_def)
    then show ?thesis using c False h0(3) by (simp add: kept_def)
  qed
  ultimately show ?thesis using h0(2) h'(1) spec by (intro exI [of _ h']) simp
qed

lemma free_call:
  assumes ag: "agrees pl S h" and l: "legal S (Free p)"
  shows "\<exists>h'. client_call pl (Free p) h = Some (0, h') \<and> agrees pl (snd (spec_call (Free p) S)) h' \<and>
    (kept pl S h \<and> length (used_blocks (blocks S)) < allocList_size \<longrightarrow> kept pl (snd (spec_call (Free p) S)) h')"
proof (cases "p = 0")
  case True
  have nil: "dropWhile (\<lambda>(b, s, u). True) bs = []" for bs :: "block list" by (induction bs) auto
  have "spec_free p (blocks S) = blocks S" using True by (simp add: spec_free_def nil)
  moreover have "(if held (blocks S) x then contents S x else None) = contents S x" for x
    using ag by (cases "contents S x") (auto simp: agrees_def)
  ultimately show ?thesis using True ag by (simp add: heap4_free_def Let_def)
next
  case False
  with l obtain b s where b: "(b, s) \<in> set (used_blocks (blocks S))" "p = b + 16" by (auto simp: list_ex_iff)
  then have ok: "heap_ok pl (heap_first pl) (heap_last pl) (blocks S) h"
    using ag by (auto simp: agrees_def spec_start_def)
  from free_meets_spec [OF ok b(1)] obtain h' us vs where
    h': "heap4_free pl p h = Some h'" "heap_ok pl (heap_first pl) (heap_last pl) (spec_free p (blocks S)) h'"
      "\<And>x. held (spec_free p (blocks S)) x \<Longrightarrow> held (blocks S) x \<and> ram h' x = ram h x"
      "allocList h' = allocList (snd (vPortRmFromList b h))" "canaries_ok pl (ram h') (free_blocks (spec_free p (blocks S)))"
    and u: "used_blocks (blocks S) = us @ (b, s) # vs" "used_blocks (spec_free p (blocks S)) = us @ vs"
    using b(2) by auto
  have "agrees pl (snd (spec_call (Free p) S)) h'"
    using ag h'(2,3) by (auto simp: agrees_def Let_def split: if_splits)
  moreover have "kept pl (snd (spec_call (Free p) S)) h'"
    if "kept pl S h" "length (used_blocks (blocks S)) < allocList_size"
    using recorded_remove [of h us b s vs] that u h'(4,5) used_addrs(1) [OF heap_okD(2) [OF ok]]
    by (simp add: kept_def Let_def)
  ultimately show ?thesis using h'(1) by (intro exI [of _ h']) simp
qed

lemma store_call:
  assumes ag: "agrees pl S h" and l: "held (blocks S) x"
  shows "agrees pl (S\<lparr>contents := (contents S)(x := Some v)\<rparr>) (h\<lparr>ram := (ram h)(x := v)\<rparr>)"
    "kept pl S h \<Longrightarrow> kept pl (S\<lparr>contents := (contents S)(x := Some v)\<rparr>) (h\<lparr>ram := (ram h)(x := v)\<rparr>)"
proof -
  have "used_blocks (blocks S) \<noteq> []" using l by (auto simp: held_def)
  then have ok: "heap_ok pl (heap_first pl) (heap_last pl) (blocks S) h"
    using ag by (auto simp: agrees_def spec_start_def)
  show "agrees pl (S\<lparr>contents := (contents S)(x := Some v)\<rparr>) (h\<lparr>ram := (ram h)(x := v)\<rparr>)"
    using ag l store_keeps(1) [OF ok l] by (auto simp: agrees_def)
  show "kept pl (S\<lparr>contents := (contents S)(x := Some v)\<rparr>) (h\<lparr>ram := (ram h)(x := v)\<rparr>)" if "kept pl S h"
    using that store_keeps(2) [OF ok l] by (simp add: kept_def)
qed

lemma call_agrees:
  assumes "placed pl" "agrees pl S h" "legal S c"
  shows "\<exists>h'. client_call pl c h = Some (fst (spec_call c S), h') \<and> agrees pl (snd (spec_call c S)) h' \<and>
    (kept pl S h \<and> length (used_blocks (blocks S)) < allocList_size \<longrightarrow> kept pl (snd (spec_call c S)) h')"
proof (cases c)
  case (Malloc task n)
  then show ?thesis using malloc_call [OF assms(1,2)] assms(3) by simp
next
  case (Free p)
  then show ?thesis using free_call [OF assms(2), of p] assms(3) by (simp add: Let_def)
next
  case (Store x v)
  then show ?thesis using store_call [OF assms(2), of x v] assms(3) by simp
next
  case (Load x)
  then show ?thesis using assms(2,3) by (auto simp: agrees_def)
qed

lemma run_agrees:
  "placed pl \<Longrightarrow> agrees pl S h \<Longrightarrow> legal_run S cs \<Longrightarrow>
    \<exists>h'. client_run pl cs h = Some (fst (spec_run cs S), h') \<and> agrees pl (snd (spec_run cs S)) h' \<and>
      (kept pl S h \<and> at_most 255 S cs \<longrightarrow> kept pl (snd (spec_run cs S)) h')"
proof (induction cs arbitrary: S h)
  case (Cons c cs)
  from call_agrees [OF Cons.prems(1,2)] Cons.prems(3) obtain h1 where
    h1: "client_call pl c h = Some (fst (spec_call c S), h1)" "agrees pl (snd (spec_call c S)) h1"
    and k1: "kept pl S h \<Longrightarrow> length (used_blocks (blocks S)) < allocList_size \<Longrightarrow> kept pl (snd (spec_call c S)) h1"
    by (meson legal_run.simps(2))
  let ?S = "snd (spec_call c S)"
  from Cons.IH [OF Cons.prems(1) h1(2)] Cons.prems(3) obtain h' where
    h': "client_run pl cs h1 = Some (fst (spec_run cs ?S), h')" "agrees pl (snd (spec_run cs ?S)) h'"
    and k': "kept pl ?S h1 \<Longrightarrow> at_most 255 ?S cs \<Longrightarrow> kept pl (snd (spec_run cs ?S)) h'"
    by (meson legal_run.simps(2))
  have run: "spec_run (c # cs) S = (fst (spec_call c S) # fst (spec_run cs ?S), snd (spec_run cs ?S))"
    by (simp split: prod.splits)
  have "kept pl (snd (spec_run cs ?S)) h'" if "kept pl S h" "at_most 255 S (c # cs)"
    using that k1 k' by (simp add: allocList_size_def)
  then show ?case using h1(1) h' run by (intro exI [of _ h']) simp
qed simp

end
