(* ===== verification/Heap4Check.thy ===== *)
theory Heap4Check imports Heap4Run begin

text \<open>
  The integrity check on the states that runs reach, and the state with every entry of the list
  of allocated blocks in use.
\<close>

section \<open>The scan of the list\<close>

lemma check_list_stop:
  "es \<noteq> [] \<Longrightarrow> 0 \<notin> set es \<Longrightarrow>
    check_list h (es @ replicate (Suc k) 0) = (if \<forall>p \<in> set es. check_block h p = Some () then Some (Inr ()) else None)"
proof (induction es)
  case (Cons p es)
  have c: "check_block h p = None \<or> check_block h p = Some ()" by (cases "check_block h p") auto
  show ?case
  proof (cases es)
    case (Cons q ps)
    with c Cons.IH Cons.prems show ?thesis by auto
  qed (use c in auto)
qed simp

lemma check_list_full:
  "es \<noteq> [] \<Longrightarrow> 0 \<notin> set es \<Longrightarrow>
    check_list h es = (if \<forall>p \<in> set es. check_block h p = Some () then Some (Inl OutOfBounds) else None)"
proof (induction es)
  case (Cons p es)
  have c: "check_block h p = None \<or> check_block h p = Some ()" by (cases "check_block h p") auto
  show ?case
  proof (cases es)
    case (Cons q ps)
    with c Cons.IH Cons.prems show ?thesis by auto
  qed (use c in auto)
qed simp

lemma check_block_used:
  assumes "p \<noteq> 0" "s < 2147483648" "24 \<le> s" "xBlockAllocatedBit h = 2147483648"
    "ram h p = HEAD_CANARY_PATTERN" "ram h (p + 8) = s + 2147483648"
  shows "check_block h p = (if ram h (p + s - 4) = TAIL_CANARY_PATTERN then Some () else None)"
proof -
  have "tail_canary_at p (s + 2147483648) h = p + s - 4"
    using assms by (simp add: tail_canary_at_def and_top_set)
  then show ?thesis using assms by (simp add: check_block_def fld_def asserting_def)
qed

text \<open>A word of a block in use, behind its header, gets another value.\<close>

lemma check_after_write:
  assumes ok: "heap_ok pl a e bs h" and can: "canaries_ok pl (ram h) (free_blocks bs)"
    and rec: "recorded (allocList h) (used_blocks bs)" and b: "(b, s) \<in> set (used_blocks bs)"
    and x: "b + 16 \<le> x" "x \<le> b + s - 4"
  shows "vPortCheckIntegrity pl (h\<lparr>ram := (ram h)(x := v)\<rparr>) =
    (if x = b + s - 4 \<and> v \<noteq> TAIL_CANARY_PATTERN then None
     else if length (used_blocks bs) = allocList_size then Some (Inl OutOfBounds) else Some (Inr ()))"
proof -
  let ?h = "h\<lparr>ram := (ram h)(x := v)\<rparr>" and ?X = "xStart pl"
  note D = heap_okD [OF ok]
  have b': "(b, s, True) \<in> set bs" using b by (simp add: used_blocks_set)
  note W = tiles_within [OF D(1) b']
  have no: "\<not> owned pl bs x" using not_owned_used [OF D(2) b'] x W by simp
  have nox: "x \<noteq> c + i" if "c \<in> insert ?X (fst ` set (free_blocks bs))" "i < 16" for c i
    using no field_owned [OF D(1) that] by metis
  have "check_free ?h ?X = Some ()"
  proof (rule check_free_chain)
    have "chain (ram ?h) ?X e (free_blocks bs) = chain (ram h) ?X e (free_blocks bs)"
    proof (rule chain_cong)
      show "ram ?h (?X + 4) = ram h (?X + 4)" using nox [of ?X 4] by simp
      show "ram ?h (c + 4) = ram h (c + 4) \<and> ram ?h (c + 8) = ram h (c + 8)" if "c \<in> fst ` set (free_blocks bs)" for c
        using nox [of c 4] nox [of c 8] that by simp
    qed
    then show "chain (ram ?h) ?X e (free_blocks bs)" using D(5) by simp
    show "0 \<notin> insert ?X (insert e (fst ` set (free_blocks bs)))" using subsetD [OF headers_distinct(3) [OF D(2)]] D(4) by metis
    have "x \<noteq> e + 4" using W x by linarith
    then show "ram ?h (e + 4) = 0" using D(7) by simp
    show "\<forall>c \<in> insert ?X (fst ` set (free_blocks bs)). ram ?h c = HEAD_CANARY_PATTERN"
    proof
      fix c assume c: "c \<in> insert ?X (fst ` set (free_blocks bs))"
      then have "ram h c = HEAD_CANARY_PATTERN" using can unfolding canaries_ok_def by blast
      then show "ram ?h c = HEAD_CANARY_PATTERN" using nox [OF c, of 0] by simp
    qed
  qed
  moreover have "check_block ?h c = (if c = b \<and> x = b + s - 4 \<and> v \<noteq> TAIL_CANARY_PATTERN then None else Some ())"
    if c: "(c, t) \<in> set (used_blocks bs)" for c t
  proof -
    have c': "(c, t, True) \<in> set bs" using c by (simp add: used_blocks_set)
    note V = tiles_within [OF D(1) c']
    have "used_ok (ram h) (c, t)" using D(12) c by (auto simp: list_all_iff)
    then have u: "ram h c = HEAD_CANARY_PATTERN" "ram h (c + 8) = t + 2147483648" "ram h (c + t - 4) = TAIL_CANARY_PATTERN"
      by (simp_all add: used_ok_def)
    have t: "t < 2147483648" "c \<noteq> 0" using V D(2) by (auto simp: heap_tiled_def)
    have apart: "(b, s, True) = (c, t, True) \<or> b + s \<le> c \<or> c + t \<le> b" by (rule tiles_apart [OF D(1) b' c'])
    then have "x \<noteq> c" "x \<noteq> c + 8" using x W V by auto
    then have "check_block ?h c = (if ram ?h (c + t - 4) = TAIL_CANARY_PATTERN then Some () else None)"
      using t V D(10) u by (intro check_block_used) simp_all
    moreover have "x = c + t - 4 \<longleftrightarrow> c = b \<and> x = b + s - 4" using apart x W V by auto
    ultimately show ?thesis using u(3) by auto
  qed
  note blk = this
  from rec obtain es where es: "allocList h = es @ replicate (allocList_size - length (used_blocks bs)) 0"
    "mset es = mset (map fst (used_blocks bs))" "length (used_blocks bs) \<le> allocList_size" by (auto simp: recorded_def)
  have set: "set es = fst ` set (used_blocks bs)" using mset_eq_setD [OF es(2)] by simp
  have ne: "es \<noteq> []" "0 \<notin> set es" using set b used_addrs(2) [OF D(2)] by auto
  have all: "(\<forall>p \<in> set es. check_block ?h p = Some ()) \<longleftrightarrow> \<not> (x = b + s - 4 \<and> v \<noteq> TAIL_CANARY_PATTERN)"
  proof (cases "x = b + s - 4 \<and> v \<noteq> TAIL_CANARY_PATTERN")
    case True
    then have "check_block ?h b \<noteq> Some ()" using blk [OF b] by simp
    moreover have "b \<in> set es" using set b by (metis fst_conv image_eqI)
    ultimately show ?thesis using True by blast
  next
    case False
    have "check_block ?h p = Some ()" if "p \<in> set es" for p
    proof -
      from that set obtain t where "(p, t) \<in> set (used_blocks bs)" by auto
      from blk [OF this] False show ?thesis by simp
    qed
    with False show ?thesis by blast
  qed
  have "check_list ?h (allocList ?h) =
      (if x = b + s - 4 \<and> v \<noteq> TAIL_CANARY_PATTERN then None
       else if length (used_blocks bs) = allocList_size then Some (Inl OutOfBounds) else Some (Inr ()))"
  proof (cases "length (used_blocks bs) = allocList_size")
    case True
    then have "allocList ?h = es" using es(1) by simp
    then show ?thesis using check_list_full [OF ne, of ?h] all True by auto
  next
    case False
    then obtain k where k: "allocList_size - length (used_blocks bs) = Suc k"
      using es(3) by (metis diff_is_0_eq le_antisym not0_implies_Suc)
    then have "allocList ?h = es @ replicate (Suc k) 0" using es(1) by simp
    then show ?thesis using check_list_stop [OF ne, of ?h k] all False by auto
  qed
  ultimately show ?thesis by (simp add: vPortCheckIntegrity_def)
qed

section \<open>Every entry in use\<close>

definition row :: "heap4_place \<Rightarrow> nat \<Rightarrow> heap_spec" where
  "row pl k = \<lparr>blocks = map (\<lambda>i. (heap_first pl + 120 * i, 120, True)) [0..<k] @
     [(heap_first pl + 120 * k, heap_last pl - heap_first pl - 120 * k, False)], contents = (\<lambda>_. None)\<rparr>"

lemma first_fit_behind:
  "list_all (\<lambda>(b, s, u). u) us \<Longrightarrow> w \<le> s \<Longrightarrow>
    first_fit w (us @ [(b, s, False)]) = Some (b, us @ taken [] (b, s) [] w)"
  by (induction us) (auto simp: taken_def)

lemma row_step:
  assumes "k < 256"
  shows "spec_call (Malloc task 100) (row pl k) = (heap_first pl + 120 * k + 16, row pl (Suc k))"
    "length (used_blocks (blocks (row pl k))) = k"
proof -
  have size: "block_size 100 = 120" by (simp add: block_size_def)
  have bs: "heap_first pl + 40928 \<le> heap_last pl" using heap_bounds [of pl] by linarith
  let ?b = "heap_first pl + 120 * k" and ?s = "heap_last pl - heap_first pl - 120 * k"
  have "120 * k \<le> 30600" using assms by simp
  then have s: "120 \<le> ?s" "?s - 120 > 32" using bs by linarith+
  have "list_all (\<lambda>(b, s, u). u) (map (\<lambda>i. (heap_first pl + 120 * i, 120, True)) [0..<k])" by (simp add: list_all_iff)
  from first_fit_behind [OF this s(1), of ?b] s(2)
  have "first_fit 120 (blocks (row pl k)) = Some (?b, blocks (row pl (Suc k)))"
    by (simp add: row_def taken_def diff_diff_left add.assoc)
  then show "spec_call (Malloc task 100) (row pl k) = (heap_first pl + 120 * k + 16, row pl (Suc k))"
    using size by (simp add: spec_malloc_def row_def)
  have "filter (\<lambda>(b, s, u). u) (map (\<lambda>i. (heap_first pl + 120 * i, 120, True)) [0..<k]) =
      map (\<lambda>i. (heap_first pl + 120 * i, 120 :: nat, True)) [0..<k]"
    by (rule filter_True) auto
  then show "length (used_blocks (blocks (row pl k))) = k" by (simp add: row_def used_blocks_def)
qed

lemma row_run:
  "k + m \<le> 256 \<Longrightarrow>
    spec_run (replicate m (Malloc task 100)) (row pl k) =
      (map (\<lambda>i. heap_first pl + 120 * i + 16) [k..<k + m], row pl (k + m)) \<and>
    legal_run (row pl k) (replicate m (Malloc task 100)) \<and> at_most 255 (row pl k) (replicate m (Malloc task 100))"
proof (induction m arbitrary: k)
  case (Suc m)
  then have k: "k < 256" by simp
  from Suc.IH [of "Suc k"] Suc.prems row_step [OF k] show ?case
    by (simp add: upt_rec [of k] del: spec_call.simps)
qed simp

lemma spec_start_row: "spec_start pl = row pl 0"
  by (simp add: spec_start_def row_def)

lemma used_row: "used_blocks (blocks (row pl k)) = map (\<lambda>i. (heap_first pl + 120 * i, 120)) [0..<k]"
proof -
  have "filter (\<lambda>(b, s, u). u) (map (\<lambda>i. (heap_first pl + 120 * i, 120, True)) [0..<k]) =
      map (\<lambda>i. (heap_first pl + 120 * i, 120 :: nat, True)) [0..<k]"
    by (rule filter_True) auto
  then show ?thesis by (simp add: row_def used_blocks_def)
qed

lemma free_from_full:
  assumes ok: "heap_ok pl a e bs h" and rec: "recorded (allocList h) (used_blocks bs)"
    and full: "length (used_blocks bs) = allocList_size"
  obtains b s h' where "(b, s) \<in> set (used_blocks bs)" "heap4_free pl (b + 16) h = Some h'"
    "allocList h' ! 254 = allocList h' ! 255" "allocList h' ! 255 \<noteq> 0"
proof -
  note D = heap_okD [OF ok]
  from rec full have es: "mset (allocList h) = mset (map fst (used_blocks bs))" by (auto simp: recorded_def)
  have len: "length (allocList h) = 256" using mset_eq_length [OF es] full by (simp add: allocList_size_def)
  have dist: "distinct (allocList h)" using used_addrs(1) [OF D(2)] mset_eq_imp_distinct_iff [OF es] by simp
  have set: "set (allocList h) = fst ` set (used_blocks bs)" using mset_eq_setD [OF es] by simp
  obtain b fs where bf: "allocList h = b # fs" using len by (cases "allocList h") auto
  have fs: "length fs = 255" "fs \<noteq> []" using len bf by auto
  have "b \<in> fst ` set (used_blocks bs)" using set bf by (metis list.set_intros(1))
  then obtain s where b: "(b, s) \<in> set (used_blocks bs)" by auto
  from free_meets_spec [OF ok b] obtain h' where
    h': "heap4_free pl (b + 16) h = Some h'" "allocList h' = allocList (snd (vPortRmFromList b h))" by blast
  have al: "allocList h' = fs @ [last fs]" using h'(2) bf fs(2) by (simp add: vPortRmFromList_def Let_def)
  have l: "last fs = fs ! 254" using fs by (simp add: last_conv_nth)
  have "last fs \<in> set (allocList h)" using bf last_in_set [OF fs(2)] by simp
  then have "last fs \<noteq> 0" using set used_addrs(2) [OF D(2)] by metis
  then have "allocList h' ! 254 = allocList h' ! 255" "allocList h' ! 255 \<noteq> 0"
    using al l fs(1) by (simp_all add: nth_append)
  with that b h'(1) show thesis by blast
qed

end
