(* ===== verification/Heap4Client.thy ===== *)
theory Heap4Client imports Heap4Run Heap begin

text \<open>
  The two views of the allocator. The locale says what its clients rely on, and its lemma that
  whatever such an allocator answers is an answer of the allocator of the theory Heap, for some
  choice of the requests that are refused; heap_4 is such an allocator.
\<close>

section \<open>Requests\<close>

text \<open>A request for a number of bytes, and the return of the block held at a position.\<close>

datatype request = Ask nat | Give nat

fun serve :: "(nat \<Rightarrow> 's \<Rightarrow> (nat \<times> 's) option) \<Rightarrow> (nat \<Rightarrow> 's \<Rightarrow> 's option) \<Rightarrow> request list \<Rightarrow> nat list \<Rightarrow> 's \<Rightarrow>
    (bool list \<times> nat list \<times> 's) option" where
  "serve al re [] ps s = Some ([], ps, s)"
| "serve al re (Ask n # rs) ps s =
     Option.bind (al n s) (\<lambda>(p, s).
     Option.bind (serve al re rs (if p \<noteq> 0 then p # ps else ps) s) (\<lambda>(oks, ps, s). Some ((p \<noteq> 0) # oks, ps, s)))"
| "serve al re (Give i # rs) ps s =
     (if i < length ps then
        Option.bind (re (ps ! i) s) (\<lambda>s.
        Option.bind (serve al re rs (take i ps @ drop (Suc i) ps) s) (\<lambda>(oks, ps, s). Some (True # oks, ps, s)))
      else Option.bind (serve al re rs ps s) (\<lambda>(oks, ps, s). Some (False # oks, ps, s)))"

fun serve_mem :: "request list \<Rightarrow> mem \<Rightarrow> bool list \<times> mem" where
  "serve_mem [] m = ([], m)"
| "serve_mem (Ask n # rs) m =
     (let (ok, m) = pvPortMalloc n m; (oks, m) = serve_mem rs m in (ok # oks, m))"
| "serve_mem (Give i # rs) m =
     (if int i < live m then (let (oks, m) = serve_mem rs (vPortFree m) in (True # oks, m))
      else (let (oks, m) = serve_mem rs m in (False # oks, m)))"

text \<open>The answers to earlier calls do not matter.\<close>

lemma serve_mem_later:
  "serve_mem rs \<lparr>live = l, calls = c, grants = g\<rparr> = (oks, \<lparr>live = l', calls = c', grants = g\<rparr>) \<Longrightarrow>
    (\<And>k. c \<le> k \<Longrightarrow> g' k = g k) \<Longrightarrow>
    serve_mem rs \<lparr>live = l, calls = c, grants = g'\<rparr> = (oks, \<lparr>live = l', calls = c', grants = g'\<rparr>)"
proof (induction rs arbitrary: l c oks)
  case (Cons q rs)
  show ?case
  proof (cases q)
    case (Ask n)
    define l1 where "l1 = (if g c n then l + 1 else l)"
    from Cons.prems(1) Ask obtain os where
      os: "serve_mem rs \<lparr>live = l1, calls = Suc c, grants = g\<rparr> = (os, \<lparr>live = l', calls = c', grants = g\<rparr>)" "oks = g c n # os"
      by (auto simp: pvPortMalloc_def l1_def split: prod.splits if_splits)
    have "serve_mem rs \<lparr>live = l1, calls = Suc c, grants = g'\<rparr> = (os, \<lparr>live = l', calls = c', grants = g'\<rparr>)"
      using Cons.IH [OF os(1)] Cons.prems(2) by simp
    then show ?thesis using Ask os(2) Cons.prems(2) [of c] by (simp add: pvPortMalloc_def l1_def split: if_splits)
  next
    case (Give i)
    define l1 where "l1 = (if int i < l then l - 1 else l)"
    from Cons.prems(1) Give obtain os where
      os: "serve_mem rs \<lparr>live = l1, calls = c, grants = g\<rparr> = (os, \<lparr>live = l', calls = c', grants = g\<rparr>)" "oks = (int i < l) # os"
      by (auto simp: vPortFree_def l1_def split: prod.splits if_splits)
    have "serve_mem rs \<lparr>live = l1, calls = c, grants = g'\<rparr> = (os, \<lparr>live = l', calls = c', grants = g'\<rparr>)"
      using Cons.IH [OF os(1)] Cons.prems(2) by simp
    then show ?thesis using Give os(2) by (simp add: vPortFree_def l1_def split: if_splits)
  qed
qed simp

section \<open>What clients rely on\<close>

locale allocator =
  fixes rel :: "'v \<Rightarrow> 's \<Rightarrow> bool"
    and ptrs :: "'v \<Rightarrow> nat list"
    and al :: "nat \<Rightarrow> 's \<Rightarrow> (nat \<times> 's) option"
    and re :: "nat \<Rightarrow> 's \<Rightarrow> 's option"
    and limit :: nat
  assumes allocates: "rel v s \<Longrightarrow> n < 4294967296 \<Longrightarrow>
      \<exists>p s' v'. al n s = Some (p, s') \<and> rel v' s' \<and>
        (if p = 0 then mset (ptrs v') = mset (ptrs v) else mset (ptrs v') = add_mset p (mset (ptrs v)) \<and> n \<le> limit)"
    and releases: "rel v s \<Longrightarrow> p \<in> set (ptrs v) \<Longrightarrow>
      \<exists>s' v'. re p s = Some s' \<and> rel v' s' \<and> mset (ptrs v) = add_mset p (mset (ptrs v'))"
    and different: "rel v s \<Longrightarrow> distinct (ptrs v)"
begin

lemma serves:
  "rel v s \<Longrightarrow> mset ps = mset (ptrs v) \<Longrightarrow> (\<And>n. Ask n \<in> set rs \<Longrightarrow> n < 4294967296) \<Longrightarrow>
    \<exists>oks ps' s' v' c' g. serve al re rs ps s = Some (oks, ps', s') \<and> rel v' s' \<and> mset ps' = mset (ptrs v') \<and>
      serve_mem rs \<lparr>live = int (length ps), calls = c, grants = g\<rparr> =
        (oks, \<lparr>live = int (length ps'), calls = c', grants = g\<rparr>) \<and> (\<forall>k n. g k n \<longrightarrow> n \<le> limit)"
proof (induction rs arbitrary: v s ps c)
  case Nil
  then show ?case by (intro exI [of _ "[]"] exI [of _ ps] exI [of _ s] exI [of _ v] exI [of _ c] exI [of _ "\<lambda>_ _. False"]) simp
next
  case (Cons q rs)
  show ?case
  proof (cases q)
    case (Ask n)
    from allocates [OF Cons.prems(1), of n] Cons.prems(3) [of n] Ask obtain p s1 v1 where
      a: "al n s = Some (p, s1)" "rel v1 s1"
      "if p = 0 then mset (ptrs v1) = mset (ptrs v) else mset (ptrs v1) = add_mset p (mset (ptrs v)) \<and> n \<le> limit" by auto
    let ?ps = "if p \<noteq> 0 then p # ps else ps"
    have ps: "mset ?ps = mset (ptrs v1)" using a(3) Cons.prems(2) by (auto split: if_splits)
    from Cons.IH [OF a(2) ps, of "Suc c"] Cons.prems(3) obtain oks ps' s' v' c' g where
      r: "serve al re rs ?ps s1 = Some (oks, ps', s')" "rel v' s'" "mset ps' = mset (ptrs v')"
      "serve_mem rs \<lparr>live = int (length ?ps), calls = Suc c, grants = g\<rparr> =
        (oks, \<lparr>live = int (length ps'), calls = c', grants = g\<rparr>)" "\<forall>k n. g k n \<longrightarrow> n \<le> limit"
      by (metis list.set_intros(2))
    let ?g = "g(c := (\<lambda>k. p \<noteq> 0 \<and> k = n))"
    have "serve_mem rs \<lparr>live = int (length ?ps), calls = Suc c, grants = ?g\<rparr> =
        (oks, \<lparr>live = int (length ps'), calls = c', grants = ?g\<rparr>)"
      by (rule serve_mem_later [OF r(4)]) simp
    then have "serve_mem (q # rs) \<lparr>live = int (length ps), calls = c, grants = ?g\<rparr> =
        ((p \<noteq> 0) # oks, \<lparr>live = int (length ps'), calls = c', grants = ?g\<rparr>)"
      using Ask by (cases "p = 0") (simp_all add: pvPortMalloc_def add.commute)
    moreover have "\<forall>k n. ?g k n \<longrightarrow> n \<le> limit" using r(5) a(3) by auto
    moreover have "serve al re (q # rs) ps s = Some ((p \<noteq> 0) # oks, ps', s')" using Ask a(1) r(1) by simp
    ultimately show ?thesis using r(2,3) by blast
  next
    case (Give i)
    have "\<exists>s1 v1 ps1. (if i < length ps then re (ps ! i) s = Some s1 \<and> ps1 = take i ps @ drop (Suc i) ps else s1 = s \<and> ps1 = ps) \<and>
        rel v1 s1 \<and> mset ps1 = mset (ptrs v1)"
    proof (cases "i < length ps")
      case True
      have split: "ps = take i ps @ ps ! i # drop (Suc i) ps" using True by (rule id_take_nth_drop)
      have "ps ! i \<in> set (ptrs v)" using True nth_mem mset_eq_setD [OF Cons.prems(2)] by blast
      from releases [OF Cons.prems(1) this] obtain s1 v1 where
        r: "re (ps ! i) s = Some s1" "rel v1 s1" "mset (ptrs v) = add_mset (ps ! i) (mset (ptrs v1))" by blast
      have "mset ps = add_mset (ps ! i) (mset (take i ps @ drop (Suc i) ps))"
        using arg_cong [OF split, of mset] by simp
      then have "mset (take i ps @ drop (Suc i) ps) = mset (ptrs v1)" using r(3) Cons.prems(2) by simp
      then show ?thesis using True r(1,2) by auto
    qed (use Cons.prems in auto)
    then obtain s1 v1 ps1 where
      st: "if i < length ps then re (ps ! i) s = Some s1 \<and> ps1 = take i ps @ drop (Suc i) ps else s1 = s \<and> ps1 = ps"
      "rel v1 s1" "mset ps1 = mset (ptrs v1)" by blast
    from Cons.IH [OF st(2,3), of c] Cons.prems(3) obtain oks ps' s' v' c' g where
      r: "serve al re rs ps1 s1 = Some (oks, ps', s')" "rel v' s'" "mset ps' = mset (ptrs v')"
      "serve_mem rs \<lparr>live = int (length ps1), calls = c, grants = g\<rparr> =
        (oks, \<lparr>live = int (length ps'), calls = c', grants = g\<rparr>)" "\<forall>k n. g k n \<longrightarrow> n \<le> limit"
      by (metis list.set_intros(2))
    have "int (length ps1) = (if i < length ps then int (length ps) - 1 else int (length ps))" using st(1) by auto
    then have "serve_mem (q # rs) \<lparr>live = int (length ps), calls = c, grants = g\<rparr> =
        ((i < length ps) # oks, \<lparr>live = int (length ps'), calls = c', grants = g\<rparr>)"
      using Give r(4) by (simp add: vPortFree_def split: if_splits)
    moreover have "serve al re (q # rs) ps s = Some ((i < length ps) # oks, ps', s')"
      using Give st(1) r(1) by (cases "i < length ps") simp_all
    ultimately show ?thesis using r(2,3,5) by blast
  qed
qed

end

section \<open>heap_4\<close>

definition held_pointers :: "heap_spec \<Rightarrow> nat list" where
  "held_pointers S = map (\<lambda>(b, s). b + 16) (used_blocks (blocks S))"

lemma spec_malloc_used:
  assumes "spec_malloc n bs = (q, bs')"
  shows "if q = 0 then bs' = bs
    else (\<exists>us vs s. used_blocks bs = us @ vs \<and> used_blocks bs' = us @ (q - 16, s) # vs \<and> 16 \<le> q \<and> n \<le> s)"
proof (cases "n = 0 \<or> 2147483648 \<le> n \<or> first_fit (block_size n) bs = None")
  case True
  then have "spec_malloc n bs = (0, bs)" by (cases "first_fit (block_size n) bs") (auto simp: spec_malloc_def)
  then show ?thesis using assms by simp
next
  case False
  then obtain b bs1 where f: "first_fit (block_size n) bs = Some (b, bs1)" by auto
  then have q: "q = b + 16" "bs' = bs1" using assms False by (simp_all add: spec_malloc_def)
  from first_fit_Some [OF f] obtain xs s ys where
    x: "bs = xs @ (b, s, False) # ys" "block_size n \<le> s" "bs1 = taken xs (b, s) ys (block_size n)" by blast
  have "n \<le> taken_size s (block_size n)" using x(2) block_size_bounds(3) [of n] by (auto simp: taken_size_def)
  then show ?thesis using q x by (auto simp: free_taken)
qed

lemma agrees_sizes:
  assumes "agrees pl S h" "(b, s) \<in> set (used_blocks (blocks S))"
  shows "s \<le> configTOTAL_HEAP_SIZE"
proof -
  have "heap_ok pl (heap_first pl) (heap_last pl) (blocks S) h"
    using assms by (auto simp: agrees_def spec_start_def)
  from tiles_within [OF heap_okD(1) [OF this], of b s True] assms(2) heap_bounds [of pl] show ?thesis
    by (simp add: used_blocks_set configTOTAL_HEAP_SIZE_def)
qed

lemma heap_4_allocates:
  assumes p: "placed pl" and ag: "agrees pl S h" and n: "n < 4294967296"
  shows "\<exists>q h' S'. heap4_malloc pl task n h = Some (q, h') \<and> agrees pl S' h' \<and>
    (if q = 0 then mset (held_pointers S') = mset (held_pointers S)
     else mset (held_pointers S') = add_mset q (mset (held_pointers S)) \<and> n \<le> configTOTAL_HEAP_SIZE)"
proof -
  let ?S = "snd (spec_call (Malloc task n) S)" and ?q = "fst (spec_call (Malloc task n) S)"
  from malloc_call [OF p ag n, of task] obtain h' where
    h': "heap4_malloc pl task n h = Some (?q, h')" "agrees pl ?S h'" by auto
  obtain q bs where spec: "spec_malloc n (blocks S) = (q, bs)" by fastforce
  have S': "?S = S\<lparr>blocks := bs\<rparr>" "?q = q" using spec by simp_all
  note u = spec_malloc_used [OF spec]
  have "if q = 0 then mset (held_pointers ?S) = mset (held_pointers S)
     else mset (held_pointers ?S) = add_mset q (mset (held_pointers S)) \<and> n \<le> configTOTAL_HEAP_SIZE"
  proof (cases "q = 0")
    case True
    then show ?thesis using u S'(1) by (simp add: held_pointers_def)
  next
    case False
    with u obtain us vs s where w: "used_blocks (blocks S) = us @ vs" "used_blocks bs = us @ (q - 16, s) # vs" "16 \<le> q" "n \<le> s"
      by auto
    have "s \<le> configTOTAL_HEAP_SIZE" by (rule agrees_sizes [OF h'(2), of "q - 16"]) (use S'(1) w(2) in simp)
    then show ?thesis using False w S'(1) by (simp add: held_pointers_def)
  qed
  then show ?thesis using h' S'(2) by blast
qed

lemma heap_4_releases:
  assumes p: "placed pl" and ag: "agrees pl S h" and q: "q \<in> set (held_pointers S)"
  shows "\<exists>h' S'. heap4_free pl q h = Some h' \<and> agrees pl S' h' \<and> mset (held_pointers S) = add_mset q (mset (held_pointers S'))"
proof -
  let ?S = "snd (spec_call (Free q) S)"
  from q obtain b s where b: "(b, s) \<in> set (used_blocks (blocks S))" "q = b + 16" by (auto simp: held_pointers_def)
  then have l: "legal S (Free q)" by (auto simp: list_ex_iff)
  from free_call [OF ag l] obtain h' where h': "heap4_free pl q h = Some h'" "agrees pl ?S h'" by auto
  have ok: "heap_ok pl (heap_first pl) (heap_last pl) (blocks S) h"
    using ag b by (auto simp: agrees_def spec_start_def)
  from free_meets_spec [OF ok b(1)] b(2) obtain us vs where
    "used_blocks (blocks S) = us @ (b, s) # vs" "used_blocks (spec_free q (blocks S)) = us @ vs" by blast
  then have "mset (held_pointers S) = add_mset q (mset (held_pointers ?S))"
    using b(2) by (simp add: held_pointers_def Let_def)
  then show ?thesis using h' by blast
qed

lemma heap_4_different:
  assumes "agrees pl S h"
  shows "distinct (held_pointers S)"
proof (cases "heap_ok pl (heap_first pl) (heap_last pl) (blocks S) h")
  case True
  have "held_pointers S = map (\<lambda>b. b + 16) (map fst (used_blocks (blocks S)))" by (auto simp: held_pointers_def)
  then show ?thesis using used_addrs(1) [OF heap_okD(2) [OF True]] by (simp add: distinct_map inj_on_def)
next
  case False
  then show ?thesis using assms by (auto simp: agrees_def spec_start_def held_pointers_def)
qed

interpretation heap_4: allocator "\<lambda>S h. placed pl \<and> agrees pl S h" held_pointers "heap4_malloc pl task" "heap4_free pl"
  configTOTAL_HEAP_SIZE for pl task
proof unfold_locales
  fix S h and n :: nat
  assume "placed pl \<and> agrees pl S h" "n < 4294967296"
  then show "\<exists>p h' S'. heap4_malloc pl task n h = Some (p, h') \<and> (placed pl \<and> agrees pl S' h') \<and>
      (if p = 0 then mset (held_pointers S') = mset (held_pointers S)
       else mset (held_pointers S') = add_mset p (mset (held_pointers S)) \<and> n \<le> configTOTAL_HEAP_SIZE)"
    using heap_4_allocates [of pl S h n task] by blast
next
  fix S h p
  assume "placed pl \<and> agrees pl S h" "p \<in> set (held_pointers S)"
  then show "\<exists>h' S'. heap4_free pl p h = Some h' \<and> (placed pl \<and> agrees pl S' h') \<and>
      mset (held_pointers S) = add_mset p (mset (held_pointers S'))"
    using heap_4_releases [of pl S h p] by blast
next
  fix S h
  assume "placed pl \<and> agrees pl S h"
  then show "distinct (held_pointers S)" using heap_4_different by blast
qed

end
