(* ===== verification/Heap4Properties.thy ===== *)
theory Heap4Properties imports Heap4Check Heap4Client begin

text \<open>
  What the allocator promises its holders, when its integrity check speaks up, and what happens
  when the list of allocated blocks is full.
\<close>

section \<open>The contract\<close>

text \<open>C30. From the first call on, and whatever the memory holds then, every
  sequence of calls of \<open>pvPortMalloc\<close> and \<open>vPortFree\<close> by holders who release only what they hold
  and store only between the header and the canary of what they hold returns, and returns what
  the contract says: the first free block that is large enough, or no block when there is none,
  and at every load the word that was stored there last. The blocks go on to tile the heap,
  no two free ones are neighbours, the free list links exactly the free ones in the order of
  their addresses, and the counter of free bytes is the sum of their sizes.\<close>

theorem heap_keeps_its_contract:
  assumes "placed pl" "legal_run (spec_start pl) cs"
  shows "\<exists>h. client_run pl cs (heap4_static r) = Some (fst (spec_run cs (spec_start pl)), h) \<and>
    agrees pl (snd (spec_run cs (spec_start pl))) h"
  using run_agrees [OF assms(1) start_agrees(1) assms(2), of r] by blast

text \<open>A place for the heap, and two blocks that are taken, filled and released.\<close>

definition demo_place :: heap4_place where
  "demo_place = \<lparr>ucHeap = 268435456, xStart = 268959744\<rparr>"

definition demo_calls :: "heap_call list" where
  "demo_calls =
     [Malloc None 10, Malloc (Some 5) 20, Store 268435504 7, Free 268435472, Load 268435504, Malloc None 50000,
      Free 268435504]"

lemma demo_placed: "placed demo_place"
  by (simp add: placed_def demo_place_def total_heap_size_def)

lemmas demo_run = demo_calls_def demo_place_def spec_start_def heap_first_def heap_last_def spec_malloc_def
  block_size_def taken_def held_def spec_free_def release_def joined_before_def joined_behind_def Let_def

lemma demo_legal: "legal_run (spec_start demo_place) demo_calls"
  by (simp add: demo_run)

lemma demo_results:
  "spec_run demo_calls (spec_start demo_place) =
     ([268435472, 268435504, 0, 0, 7, 0, 0], \<lparr>blocks = [(268435456, 40944, False)], contents = (\<lambda>_. None)\<rparr>)"
  by (simp add: demo_run)

theorem heap_keeps_its_contract_witness:
  "\<exists>h. client_run demo_place demo_calls (heap4_static (\<lambda>_. 0)) = Some ([268435472, 268435504, 0, 0, 7, 0, 0], h) \<and>
    agrees demo_place \<lparr>blocks = [(268435456, 40944, False)], contents = (\<lambda>_. None)\<rparr> h"
  using heap_keeps_its_contract [OF demo_placed demo_legal, of "\<lambda>_. 0"] unfolding demo_results by simp

section \<open>The check\<close>

lemma state_in_use:
  assumes "placed pl" "legal_run (spec_start pl) cs" "at_most 255 (spec_start pl) cs"
    "client_run pl cs (heap4_static r) = Some (vs, h)" "S = snd (spec_run cs (spec_start pl))" "used_blocks (blocks S) \<noteq> []"
  shows "heap_ok pl (heap_first pl) (heap_last pl) (blocks S) h" "canaries_ok pl (ram h) (free_blocks (blocks S))"
    "recorded (allocList h) (used_blocks (blocks S))"
  using run_agrees [OF assms(1) start_agrees(1) assms(2), of r] start_agrees(2) [of pl r] assms(3-6)
  by (auto simp: agrees_def kept_def spec_start_def)



section \<open>A full list\<close>

text \<open>C32. The 256 blocks that fill the list of allocated blocks fit into the heap: 256
  allocations of 100 bytes all succeed. Then the integrity check reads behind the end of the list,
  and the release of a block leaves the last address in the list twice.\<close>

theorem the_full_list_goes_wrong:
  assumes "placed pl"
  shows "\<exists>vs h p h'. client_run pl (replicate 256 (Malloc task 100)) (heap4_static r) = Some (vs, h) \<and> 0 \<notin> set vs \<and>
    vPortCheckIntegrity pl h = Some (Inl OutOfBounds) \<and> p \<in> set vs \<and> heap4_free pl p h = Some h' \<and>
    allocList h' ! 254 = allocList h' ! 255 \<and> allocList h' ! 255 \<noteq> 0"
proof -
  let ?cs = "replicate 256 (Malloc task 100)" and ?S = "row pl 256"
  have run: "spec_run ?cs (spec_start pl) = (map (\<lambda>i. heap_first pl + 120 * i + 16) [0..<256], ?S)"
    and l: "legal_run (spec_start pl) ?cs" "at_most 255 (spec_start pl) ?cs"
    using row_run [of 0 256 task pl] by (simp_all add: spec_start_row)
  from run_agrees [OF assms start_agrees(1) l(1), of r] run obtain h where
    h: "client_run pl ?cs (heap4_static r) = Some (map (\<lambda>i. heap_first pl + 120 * i + 16) [0..<256], h)" by auto
  have used: "used_blocks (blocks ?S) = map (\<lambda>i. (heap_first pl + 120 * i, 120)) [0..<256]"
    by (rule used_row)
  then have "used_blocks (blocks ?S) \<noteq> []" by (simp add: upt_rec)
  note st = state_in_use [OF assms l h _ this]
  have S: "?S = snd (spec_run ?cs (spec_start pl))" using run by simp
  note ok = st(1) [OF S] and can = st(2) [OF S] and rec = st(3) [OF S]
  have "(heap_first pl, 120) \<in> set (used_blocks (blocks ?S))" using used by force
  from check_after_write [OF ok can rec this, of "heap_first pl + 16" "ram h (heap_first pl + 16)"] used
  have check: "vPortCheckIntegrity pl h = Some (Inl OutOfBounds)" by (simp add: allocList_size_def)
  obtain b s h' where b: "(b, s) \<in> set (used_blocks (blocks ?S))" "heap4_free pl (b + 16) h = Some h'"
    "allocList h' ! 254 = allocList h' ! 255" "allocList h' ! 255 \<noteq> 0"
    by (rule free_from_full [OF ok rec]) (use used in \<open>auto simp: allocList_size_def\<close>)
  from b(1) have "b + 16 \<in> set (map (\<lambda>i. heap_first pl + 120 * i + 16) [0..<256])" unfolding used by auto
  moreover have "0 \<notin> set (map (\<lambda>i. heap_first pl + 120 * i + 16) [0..<256])" by auto
  ultimately show ?thesis using h check b(2-4) by blast
qed

theorem the_full_list_goes_wrong_witness:
  "\<exists>vs h p h'. client_run demo_place (replicate 256 (Malloc None 100)) (heap4_static (\<lambda>_. 0)) = Some (vs, h) \<and> 0 \<notin> set vs \<and>
    vPortCheckIntegrity demo_place h = Some (Inl OutOfBounds) \<and> p \<in> set vs \<and> heap4_free demo_place p h = Some h' \<and>
    allocList h' ! 254 = allocList h' ! 255 \<and> allocList h' ! 255 \<noteq> 0"
  by (rule the_full_list_goes_wrong [OF demo_placed])

section \<open>The allocator of the clients\<close>

text \<open>C33. The allocator that the models of the JSON library and of the network tasks call, which
  may refuse any request and only counts the blocks, is what heap_4 looks like to its clients:
  whatever requests for blocks and returns of held blocks they make from the first call on, heap_4
  answers every one, the blocks that are held are different, and for some choice of the requests
  to refuse, none of them granted beyond the size of the heap, that allocator gives the same
  answers and counts as many blocks as are held.\<close>

theorem heap_4_serves_its_clients:
  assumes "placed pl" "\<And>n. Ask n \<in> set rs \<Longrightarrow> n < 4294967296"
  shows "\<exists>oks held h g m. serve (heap4_malloc pl task) (heap4_free pl) rs [] (heap4_static r) = Some (oks, held, h) \<and>
    distinct held \<and> serve_mem rs \<lparr>live = 0, calls = 0, grants = g\<rparr> = (oks, m) \<and>
    live m = int (length held) \<and> heap_bounded m"
proof -
  have rel: "placed pl \<and> agrees pl (spec_start pl) (heap4_static r)" using assms(1) start_agrees(1) by blast
  have none: "mset [] = mset (held_pointers (spec_start pl))" by (simp add: held_pointers_def spec_start_def)
  from heap_4.serves [where pl = pl and task = task and rs = rs and c = 0, OF rel none assms(2)] obtain oks held h S c g where
    s: "serve (heap4_malloc pl task) (heap4_free pl) rs [] (heap4_static r) = Some (oks, held, h)"
      "placed pl \<and> agrees pl S h" "mset held = mset (held_pointers S)"
      "serve_mem rs \<lparr>live = 0, calls = 0, grants = g\<rparr> = (oks, \<lparr>live = int (length held), calls = c, grants = g\<rparr>)"
      "\<forall>k n. g k n \<longrightarrow> n \<le> configTOTAL_HEAP_SIZE" by auto
  have "distinct held" using heap_4.different [OF s(2)] mset_eq_imp_distinct_iff [OF s(3)] by simp
  moreover have "heap_bounded \<lparr>live = int (length held), calls = c, grants = g\<rparr>" using s(5) by (simp add: heap_bounded_def)
  moreover have "live \<lparr>live = int (length held), calls = c, grants = g\<rparr> = int (length held)" by simp
  ultimately show ?thesis using s(1,4) by blast
qed

theorem heap_4_serves_its_clients_witness:
  "\<exists>oks held h g m. serve (heap4_malloc demo_place None) (heap4_free demo_place) [Ask 10, Ask 50000, Give 0] []
      (heap4_static (\<lambda>_. 0)) = Some (oks, held, h) \<and>
    distinct held \<and> serve_mem [Ask 10, Ask 50000, Give 0] \<lparr>live = 0, calls = 0, grants = g\<rparr> = (oks, m) \<and>
    live m = int (length held) \<and> heap_bounded m"
  by (rule heap_4_serves_its_clients [OF demo_placed]) auto

end
