(* ===== verification/KList.thy ===== *)
theory KList imports Prelude "HOL-Library.Monad_Syntax" begin

text \<open>
  The doubly linked lists of the kernel (freertos/src/list.c, freertos/inc/list.h). A list is a ring
  of items closed by the item \<open>xListEnd\<close> that every list contains, with the index that walks
  round it. The items and the lists live in a store, a pointer to an item is its name, and a call
  that follows a null pointer or never leaves its loop yields \<open>None\<close>.
\<close>

section \<open>State\<close>

text \<open>
  A pointer of type \<open>ListItem_t *\<close>: null, an item, or the end marker of a list. Items are named
  by \<open>'i\<close> and lists by \<open>'l\<close>. The field \<open>pvOwner\<close> is set once for all when the owner is created;
  here the name of an item says who owns it.
\<close>

datatype ('i, 'l) list_node = NoItem | Item 'i | ListEnd 'l

record ('i, 'l) ListItem_t =
  xItemValue :: nat
  pxNext :: "('i, 'l) list_node"
  pxPrevious :: "('i, 'l) list_node"
  pvContainer :: "'l option"

record ('i, 'l) List_t =
  uxNumberOfItems :: nat
  pxIndex :: "('i, 'l) list_node"

record ('i, 'l) store =
  item :: "('i, 'l) list_node \<Rightarrow> ('i, 'l) ListItem_t"
  list_at :: "'l \<Rightarrow> ('i, 'l) List_t"

definition portMAX_DELAY :: nat where "portMAX_DELAY = 0xffffffff"

text \<open>Counters of type \<open>UBaseType_t\<close>.\<close>

definition inc32 :: "nat \<Rightarrow> nat" where "inc32 n = (n + 1) mod 4294967296"
definition dec32 :: "nat \<Rightarrow> nat" where "dec32 n = (n + 4294967295) mod 4294967296"

definition deref :: "('i, 'l) list_node \<Rightarrow> ('i, 'l) store \<Rightarrow> ('i, 'l) ListItem_t option" where
  "deref p s = (if p = NoItem then None else Some (item s p))"

definition assign :: "('i, 'l) list_node \<Rightarrow> (('i, 'l) ListItem_t \<Rightarrow> ('i, 'l) ListItem_t) \<Rightarrow> ('i, 'l) store \<Rightarrow> ('i, 'l) store option" where
  "assign p f s = (if p = NoItem then None else Some (s\<lparr>item := (item s)(p := f (item s p))\<rparr>))"

definition assign_list :: "'l \<Rightarrow> (('i, 'l) List_t \<Rightarrow> ('i, 'l) List_t) \<Rightarrow> ('i, 'l) store \<Rightarrow> ('i, 'l) store" where
  "assign_list L f s = s\<lparr>list_at := (list_at s)(L := f (list_at s L))\<rparr>"

section \<open>Operations\<close>

definition vListInitialise :: "'l \<Rightarrow> ('i, 'l) store \<Rightarrow> ('i, 'l) store option" where
  "vListInitialise L s = do {
     let s = assign_list L (\<lambda>l. l\<lparr>pxIndex := ListEnd L\<rparr>) s;
     s \<leftarrow> assign (ListEnd L) (\<lambda>e. e\<lparr>xItemValue := portMAX_DELAY, pxNext := ListEnd L, pxPrevious := ListEnd L\<rparr>) s;
     Some (assign_list L (\<lambda>l. l\<lparr>uxNumberOfItems := 0\<rparr>) s) }"

definition vListInitialiseItem :: "'i \<Rightarrow> ('i, 'l) store \<Rightarrow> ('i, 'l) store option" where
  "vListInitialiseItem i s = assign (Item i) (\<lambda>x. x\<lparr>pvContainer := None\<rparr>) s"

definition vListInsertEnd :: "'l \<Rightarrow> 'i \<Rightarrow> ('i, 'l) store \<Rightarrow> ('i, 'l) store option" where
  "vListInsertEnd L i s = do {
     let ix = pxIndex (list_at s L);
     s \<leftarrow> assign (Item i) (\<lambda>x. x\<lparr>pxNext := ix\<rparr>) s;
     x \<leftarrow> deref ix s;
     s \<leftarrow> assign (Item i) (\<lambda>y. y\<lparr>pxPrevious := pxPrevious x\<rparr>) s;
     x \<leftarrow> deref ix s;
     s \<leftarrow> assign (pxPrevious x) (\<lambda>y. y\<lparr>pxNext := Item i\<rparr>) s;
     s \<leftarrow> assign ix (\<lambda>y. y\<lparr>pxPrevious := Item i\<rparr>) s;
     s \<leftarrow> assign (Item i) (\<lambda>y. y\<lparr>pvContainer := Some L\<rparr>) s;
     Some (assign_list L (\<lambda>l. l\<lparr>uxNumberOfItems := inc32 (uxNumberOfItems l)\<rparr>) s) }"

text \<open>The loop of \<open>vListInsert\<close> from the place \<open>pxIterator\<close>.\<close>

partial_function (option) find_insertion :: "('i, 'l) store \<Rightarrow> nat \<Rightarrow> ('i, 'l) list_node \<Rightarrow> ('i, 'l) list_node option" where
  "find_insertion s v pxIterator = do {
     x \<leftarrow> deref pxIterator s;
     y \<leftarrow> deref (pxNext x) s;
     if xItemValue y \<le> v then find_insertion s v (pxNext x) else Some pxIterator }"

definition vListInsert :: "'l \<Rightarrow> 'i \<Rightarrow> ('i, 'l) store \<Rightarrow> ('i, 'l) store option" where
  "vListInsert L i s = do {
     let v = xItemValue (item s (Item i));
     p \<leftarrow> (if v = portMAX_DELAY then Some (pxPrevious (item s (ListEnd L))) else find_insertion s v (ListEnd L));
     x \<leftarrow> deref p s;
     s \<leftarrow> assign (Item i) (\<lambda>y. y\<lparr>pxNext := pxNext x\<rparr>) s;
     y \<leftarrow> deref (Item i) s;
     s \<leftarrow> assign (pxNext y) (\<lambda>z. z\<lparr>pxPrevious := Item i\<rparr>) s;
     s \<leftarrow> assign (Item i) (\<lambda>z. z\<lparr>pxPrevious := p\<rparr>) s;
     s \<leftarrow> assign p (\<lambda>z. z\<lparr>pxNext := Item i\<rparr>) s;
     s \<leftarrow> assign (Item i) (\<lambda>z. z\<lparr>pvContainer := Some L\<rparr>) s;
     Some (assign_list L (\<lambda>l. l\<lparr>uxNumberOfItems := inc32 (uxNumberOfItems l)\<rparr>) s) }"

text \<open>An item that is in no list has a null container, and following that is an error.\<close>

definition uxListRemove :: "'i \<Rightarrow> ('i, 'l) store \<Rightarrow> (nat \<times> ('i, 'l) store) option" where
  "uxListRemove i s = do {
     let cont = pvContainer (item s (Item i));
     x \<leftarrow> deref (Item i) s;
     s \<leftarrow> assign (pxNext x) (\<lambda>y. y\<lparr>pxPrevious := pxPrevious x\<rparr>) s;
     x \<leftarrow> deref (Item i) s;
     s \<leftarrow> assign (pxPrevious x) (\<lambda>y. y\<lparr>pxNext := pxNext x\<rparr>) s;
     L \<leftarrow> cont;
     x \<leftarrow> deref (Item i) s;
     let s = (if pxIndex (list_at s L) = Item i
              then assign_list L (\<lambda>l. l\<lparr>pxIndex := pxPrevious x\<rparr>) s else s);
     s \<leftarrow> assign (Item i) (\<lambda>y. y\<lparr>pvContainer := None\<rparr>) s;
     let s = assign_list L (\<lambda>l. l\<lparr>uxNumberOfItems := dec32 (uxNumberOfItems l)\<rparr>) s;
     Some (uxNumberOfItems (list_at s L), s) }"

text \<open>The owner of an item; the end marker has none.\<close>

definition owner :: "('i, 'l) list_node \<Rightarrow> 'i option" where
  "owner p = (case p of Item i \<Rightarrow> Some i | _ \<Rightarrow> None)"

definition listGET_OWNER_OF_NEXT_ENTRY :: "'l \<Rightarrow> ('i, 'l) store \<Rightarrow> ('i \<times> ('i, 'l) store) option" where
  "listGET_OWNER_OF_NEXT_ENTRY L s = do {
     x \<leftarrow> deref (pxIndex (list_at s L)) s;
     let s = assign_list L (\<lambda>l. l\<lparr>pxIndex := pxNext x\<rparr>) s;
     y \<leftarrow> deref (pxIndex (list_at s L)) s;
     let s = (if pxIndex (list_at s L) = ListEnd L then assign_list L (\<lambda>l. l\<lparr>pxIndex := pxNext y\<rparr>) s else s);
     i \<leftarrow> owner (pxIndex (list_at s L));
     Some (i, s) }"

definition listGET_OWNER_OF_HEAD_ENTRY :: "'l \<Rightarrow> ('i, 'l) store \<Rightarrow> 'i option" where
  "listGET_OWNER_OF_HEAD_ENTRY L s = owner (pxNext (item s (ListEnd L)))"

definition listSET_LIST_ITEM_VALUE :: "'i \<Rightarrow> nat \<Rightarrow> ('i, 'l) store \<Rightarrow> ('i, 'l) store option" where
  "listSET_LIST_ITEM_VALUE i v s = assign (Item i) (\<lambda>x. x\<lparr>xItemValue := v\<rparr>) s"

definition listLIST_IS_EMPTY :: "'l \<Rightarrow> ('i, 'l) store \<Rightarrow> bool" where
  "listLIST_IS_EMPTY L s \<longleftrightarrow> uxNumberOfItems (list_at s L) = 0"

definition listIS_CONTAINED_WITHIN :: "'l option \<Rightarrow> 'i \<Rightarrow> ('i, 'l) store \<Rightarrow> bool" where
  "listIS_CONTAINED_WITHIN L i s \<longleftrightarrow> pvContainer (item s (Item i)) = L"

end
