(* ===== verification/KListSpec.thy ===== *)
theory KListSpec imports KList begin

text \<open>
  What the kernel's lists promise: each is a sequence of items with a mark behind the item that
  was taken last; an item has a value and is in one list at most. The second half says when a
  store holds such lists, and how its chains of pointers change.
\<close>

section \<open>The contract\<close>

text \<open>The items up to the mark, and those behind it.\<close>

type_synonym 'i marked = "'i list \<times> 'i list"

definition entries :: "'i marked \<Rightarrow> 'i list" where "entries m = fst m @ snd m"

record ('i, 'l) klists =
  seq :: "'l \<Rightarrow> 'i marked"
  val :: "'i \<Rightarrow> nat"
  home :: "'i \<Rightarrow> 'l option"
  made :: "'l \<Rightarrow> bool"

text \<open>Before the item at the mark, which is so the last to be taken; at the end when the mark is at the start.\<close>

definition put_last :: "'i \<Rightarrow> 'i marked \<Rightarrow> 'i marked" where
  "put_last i m = (case m of (f, b) \<Rightarrow> if f = [] then ([], b @ [i]) else (butlast f @ [i, last f], b))"

text \<open>Before the first item with a greater value.\<close>

definition put_in :: "('i \<Rightarrow> nat) \<Rightarrow> 'i \<Rightarrow> 'i list \<Rightarrow> 'i list" where
  "put_in v i xs = takeWhile (\<lambda>x. v x \<le> v i) xs @ i # dropWhile (\<lambda>x. v x \<le> v i) xs"

definition put_sorted :: "('i \<Rightarrow> nat) \<Rightarrow> 'i \<Rightarrow> 'i marked \<Rightarrow> 'i marked" where
  "put_sorted v i m = (case m of (f, b) \<Rightarrow>
     if list_all (\<lambda>x. v x \<le> v i) f then (f, put_in v i b) else (put_in v i f, b))"

definition take_out :: "'i \<Rightarrow> 'i marked \<Rightarrow> 'i marked" where
  "take_out i m = (case m of (f, b) \<Rightarrow> (remove1 i f, remove1 i b))"

text \<open>The item behind the mark, which moves past it; from the end it goes back to the start.\<close>

definition turn :: "'i marked \<Rightarrow> ('i \<times> 'i marked) option" where
  "turn m = (case m of (f, b) \<Rightarrow>
     (case b of
        i # b' \<Rightarrow> Some (i, (f @ [i], b'))
      | [] \<Rightarrow> (case f of [] \<Rightarrow> None | i # f' \<Rightarrow> Some (i, ([i], f')))))"

definition on_list :: "'l \<Rightarrow> ('i marked \<Rightarrow> 'i marked) \<Rightarrow> ('i, 'l) klists \<Rightarrow> ('i, 'l) klists" where
  "on_list L f K = K\<lparr>seq := (seq K)(L := f (seq K L))\<rparr>"

definition new_list :: "'l \<Rightarrow> ('i, 'l) klists \<Rightarrow> ('i, 'l) klists" where
  "new_list L K = (on_list L (\<lambda>_. ([], [])) K)\<lparr>made := (made K)(L := True)\<rparr>"

definition insert_end :: "'l \<Rightarrow> 'i \<Rightarrow> ('i, 'l) klists \<Rightarrow> ('i, 'l) klists" where
  "insert_end L i K = (on_list L (put_last i) K)\<lparr>home := (home K)(i := Some L)\<rparr>"

definition insert_sorted :: "'l \<Rightarrow> 'i \<Rightarrow> ('i, 'l) klists \<Rightarrow> ('i, 'l) klists" where
  "insert_sorted L i K = (on_list L (put_sorted (val K) i) K)\<lparr>home := (home K)(i := Some L)\<rparr>"

definition remove_item :: "'i \<Rightarrow> ('i, 'l) klists \<Rightarrow> ('i, 'l) klists" where
  "remove_item i K = (case home K i of None \<Rightarrow> K | Some L \<Rightarrow> (on_list L (take_out i) K)\<lparr>home := (home K)(i := None)\<rparr>)"

definition set_value :: "'i \<Rightarrow> nat \<Rightarrow> ('i, 'l) klists \<Rightarrow> ('i, 'l) klists" where
  "set_value i v K = K\<lparr>val := (val K)(i := v)\<rparr>"

section \<open>Chains\<close>

text \<open>The items \<open>xs\<close> lead from \<open>a\<close> to \<open>b\<close> along \<open>nx\<close>, and back along \<open>pv\<close>.\<close>

fun links :: "('n \<Rightarrow> 'n) \<Rightarrow> ('n \<Rightarrow> 'n) \<Rightarrow> 'n \<Rightarrow> 'n list \<Rightarrow> 'n \<Rightarrow> bool" where
  "links nx pv a [] b \<longleftrightarrow> nx a = b \<and> pv b = a"
| "links nx pv a (x # xs) b \<longleftrightarrow> nx a = x \<and> pv x = a \<and> links nx pv x xs b"

lemma links_append: "links nx pv a (xs @ y # ys) b \<longleftrightarrow> links nx pv a xs y \<and> links nx pv y ys b"
  by (induction xs arbitrary: a) auto

lemma links_last: "links nx pv a xs b \<Longrightarrow> pv b = last (a # xs)"
  by (induction xs arbitrary: a) auto

lemma links_hd: "links nx pv a xs b \<Longrightarrow> nx a = hd (xs @ [b])"
  by (cases xs) auto

lemma links_cong:
  "(\<And>x. x \<in> set (a # xs) \<Longrightarrow> nx' x = nx x) \<Longrightarrow> (\<And>x. x \<in> set (xs @ [b]) \<Longrightarrow> pv' x = pv x) \<Longrightarrow>
    links nx' pv' a xs b = links nx pv a xs b"
  by (induction xs arbitrary: a) auto

lemma links_new_end:
  "links nx pv a xs b \<Longrightarrow> distinct (a # xs) \<Longrightarrow> c \<notin> set xs \<Longrightarrow>
    (\<And>x. x \<in> set (a # xs) \<Longrightarrow> nx' x = (if x = last (a # xs) then c else nx x)) \<Longrightarrow>
    (\<And>x. x \<in> set xs \<Longrightarrow> pv' x = pv x) \<Longrightarrow> pv' c = last (a # xs) \<Longrightarrow> links nx' pv' a xs c"
proof (induction xs arbitrary: a)
  case (Cons y ys)
  have "links nx' pv' y ys c" using Cons.prems by (intro Cons.IH) (auto split: if_splits)
  moreover have "nx' a = y" using Cons.prems(1,2) Cons.prems(4) [of a] by (auto split: if_splits)
  moreover have "pv' y = a" using Cons.prems(1,5) by auto
  ultimately show ?case by simp
qed simp

lemma links_insert:
  assumes c: "links nx pv e (us @ vs) e" and d: "distinct (e # us @ vs)" and y: "y \<notin> set (e # us @ vs)"
    and pq: "p = last (e # us)" "q = hd (vs @ [e])"
  shows "links (nx(y := q, p := y)) (pv(y := p, q := y)) e (us @ y # vs) e" (is "links ?n ?p _ _ _")
proof -
  have p: "p \<in> set (e # us)" using pq(1) last_in_set [of "e # us"] by simp
  have q: "q \<in> set (vs @ [e])" using pq(2) hd_in_set [of "vs @ [e]"] by simp
  have first: "links nx pv e us q"
    using c pq(2) by (cases vs) (auto simp: links_append)
  have "links ?n ?p e us y"
  proof (rule links_new_end [OF first])
    show "?p x = pv x" if "x \<in> set us" for x using that d q y by auto
    show "?p y = last (e # us)" using q y pq(1) by auto
  qed (use d y p pq(1) in auto)
  moreover have "links ?n ?p y vs e"
  proof (cases vs)
    case Nil
    then show ?thesis using p q y pq(2) by auto
  next
    case (Cons v ws)
    then have "links nx pv v ws e" using c by (simp add: links_append)
    moreover have "?n x = nx x" if "x \<in> set (v # ws)" for x using that Cons p d y by auto
    moreover have "?p x = pv x" if "x \<in> set (ws @ [e])" for x using that Cons pq(2) d y by auto
    ultimately have "links ?n ?p v ws e" using links_cong [of v ws ?n nx e ?p pv] by auto
    then show ?thesis using Cons p y pq(2) by auto
  qed
  ultimately show ?thesis by (simp add: links_append)
qed

lemma links_remove:
  assumes c: "links nx pv e (us @ y # vs) e" and d: "distinct (e # us @ y # vs)"
  shows "links (nx(pv y := nx y)) (pv(nx y := pv y)) e (us @ vs) e" (is "links ?n ?p _ _ _")
    "pv y = last (e # us)" "nx y = hd (vs @ [e])"
proof -
  from c have l: "links nx pv e us y" and r: "links nx pv y vs e" by (simp_all add: links_append)
  from links_last [OF l] show p: "pv y = last (e # us)" .
  from links_hd [OF r] show q: "nx y = hd (vs @ [e])" .
  have pin: "pv y \<in> set (e # us)" using p last_in_set [of "e # us"] by simp
  have qin: "nx y \<in> set (vs @ [e])" using q hd_in_set [of "vs @ [e]"] by simp
  have "links ?n ?p e us (nx y)"
    by (rule links_new_end [OF l]) (use d p pin qin in auto)
  show "links ?n ?p e (us @ vs) e"
  proof (cases vs)
    case Nil
    then show ?thesis using \<open>links ?n ?p e us (nx y)\<close> q by simp
  next
    case (Cons v ws)
    then have "links nx pv v ws e" using r by simp
    moreover have "?n x = nx x" if "x \<in> set (v # ws)" for x using that Cons pin d by auto
    moreover have "?p x = pv x" if "x \<in> set (ws @ [e])" for x using that Cons q d by auto
    ultimately have "links ?n ?p v ws e" using links_cong [of v ws ?n nx e ?p pv] by auto
    then show ?thesis using \<open>links ?n ?p e us (nx y)\<close> Cons q by (simp add: links_append)
  qed
qed

section \<open>Stores that hold lists\<close>

abbreviation "next_of s \<equiv> (\<lambda>p. pxNext (item s p))"
abbreviation "prev_of s \<equiv> (\<lambda>p. pxPrevious (item s p))"

definition ring :: "('i, 'l) store \<Rightarrow> 'l \<Rightarrow> 'i marked \<Rightarrow> bool" where
  "ring s L m \<longleftrightarrow>
     links (next_of s) (prev_of s) (ListEnd L) (map Item (entries m)) (ListEnd L) \<and> distinct (entries m) \<and>
     pxIndex (list_at s L) = last (ListEnd L # map Item (fst m)) \<and>
     uxNumberOfItems (list_at s L) = length (entries m) mod 4294967296 \<and>
     xItemValue (item s (ListEnd L)) = portMAX_DELAY"

definition holds :: "('i, 'l) store \<Rightarrow> ('i, 'l) klists \<Rightarrow> bool" where
  "holds s K \<longleftrightarrow>
     (\<forall>L. made K L \<longrightarrow> ring s L (seq K L)) \<and>
     (\<forall>i. pvContainer (item s (Item i)) = home K i \<and> xItemValue (item s (Item i)) = val K i) \<and>
     (\<forall>i. val K i \<le> portMAX_DELAY) \<and>
     (\<forall>i L. home K i = Some L \<longrightarrow> made K L) \<and>
     (\<forall>i L. made K L \<longrightarrow> (i \<in> set (entries (seq K L)) \<longleftrightarrow> home K i = Some L))"

end
