(* ===== verification/KSched.thy ===== *)
theory KSched imports KListSpec begin

text \<open>
  The scheduler of the kernel (freertos/src/tasks.c) with the configuration of
  nfc/inc/FreeRTOSConfig.h: preemption, time slices, five priorities, selection by the bitmap of
  ready priorities (freertos/inc/portmacro.h). Its lists are those of the theory KListSpec. A
  result \<open>None\<close> says that the call does not return: a \<open>configASSERT\<close> fails or a list without
  entries is asked for one.
\<close>

unbundle bit_operations_syntax

section \<open>State\<close>

text \<open>A task is the address of its control block; null is 0.\<close>

type_synonym task = nat

datatype task_item = StateItem task | EventItem task

text \<open>The lists of the kernel: its own, and the two of every queue.\<close>

datatype task_list =
    Ready nat
  | DelayedTaskList1
  | DelayedTaskList2
  | PendingReadyList
  | TasksWaitingTermination
  | SuspendedTaskList
  | TasksWaitingToSend nat
  | TasksWaitingToReceive nat

type_synonym task_lists = "(task_item, task_list) klists"

record sched =
  lists :: task_lists
  uxPriority :: "task \<Rightarrow> nat"
  uxBasePriority :: "task \<Rightarrow> nat"
  uxMutexesHeld :: "task \<Rightarrow> nat"
  pxCurrentTCB :: task
  pxDelayedTaskList :: task_list
  pxOverflowDelayedTaskList :: task_list
  uxCurrentNumberOfTasks :: nat
  xTickCount :: nat
  uxTopReadyPriority :: "32 word"
  xSchedulerRunning :: bool
  uxPendedTicks :: nat
  xYieldPending :: bool
  xNumOfOverflows :: int
  xNextTaskUnblockTime :: nat
  uxSchedulerSuspended :: nat
  uxDeletedTasksWaitingCleanUp :: nat
  pendsv :: bool

definition taskEVENT_LIST_ITEM_VALUE_IN_USE :: nat where "taskEVENT_LIST_ITEM_VALUE_IN_USE = 0x80000000"

section \<open>Lists\<close>

abbreviation list_of :: "'z sched_scheme \<Rightarrow> task_list \<Rightarrow> task_item list" where
  "list_of S L \<equiv> entries (seq (lists S) L)"

definition in_lists :: "(task_lists \<Rightarrow> task_lists) \<Rightarrow> 'z sched_scheme \<Rightarrow> 'z sched_scheme" where
  "in_lists f S = S\<lparr>lists := f (lists S)\<rparr>"

fun item_owner :: "task_item \<Rightarrow> task" where
  "item_owner (StateItem t) = t"
| "item_owner (EventItem t) = t"

text \<open>The item leaves its list; whether that list is empty now.\<close>

definition take_off :: "task_item \<Rightarrow> 'z sched_scheme \<Rightarrow> (bool \<times> 'z sched_scheme) option" where
  "take_off i S = do {
     L \<leftarrow> home (lists S) i;
     let S = in_lists (remove_item i) S;
     Some (list_of S L = [], S) }"

text \<open>The event item leaves its list, if it is in one.\<close>

definition leave_events :: "task \<Rightarrow> 'z sched_scheme \<Rightarrow> 'z sched_scheme" where
  "leave_events t S = (if home (lists S) (EventItem t) \<noteq> None then in_lists (remove_item (EventItem t)) S else S)"

definition head_owner :: "task_list \<Rightarrow> 'z sched_scheme \<Rightarrow> task option" where
  "head_owner L S = (case list_of S L of [] \<Rightarrow> None | i # is \<Rightarrow> Some (item_owner i))"

definition configASSERT :: "bool \<Rightarrow> unit option" where
  "configASSERT c = (if c then Some () else None)"

section \<open>Ready priorities\<close>

definition ucPortCountLeadingZeros :: "32 word \<Rightarrow> nat" where
  "ucPortCountLeadingZeros w = length (takeWhile (\<lambda>k. \<not> bit w (31 - k)) [0..<32])"

definition portGET_HIGHEST_PRIORITY :: "32 word \<Rightarrow> nat" where
  "portGET_HIGHEST_PRIORITY w = 31 - ucPortCountLeadingZeros w"

definition portRECORD_READY_PRIORITY :: "nat \<Rightarrow> 'z sched_scheme \<Rightarrow> 'z sched_scheme" where
  "portRECORD_READY_PRIORITY p S = S\<lparr>uxTopReadyPriority := uxTopReadyPriority S OR push_bit p 1\<rparr>"

definition portRESET_READY_PRIORITY :: "nat \<Rightarrow> 'z sched_scheme \<Rightarrow> 'z sched_scheme" where
  "portRESET_READY_PRIORITY p S = S\<lparr>uxTopReadyPriority := uxTopReadyPriority S AND NOT (push_bit p 1)\<rparr>"

definition taskRESET_READY_PRIORITY :: "nat \<Rightarrow> 'z sched_scheme \<Rightarrow> 'z sched_scheme" where
  "taskRESET_READY_PRIORITY p S = (if list_of S (Ready p) = [] then portRESET_READY_PRIORITY p S else S)"

definition prvAddTaskToReadyList :: "task \<Rightarrow> 'z sched_scheme \<Rightarrow> 'z sched_scheme" where
  "prvAddTaskToReadyList t S =
     in_lists (insert_end (Ready (uxPriority S t)) (StateItem t)) (portRECORD_READY_PRIORITY (uxPriority S t) S)"

definition taskSELECT_HIGHEST_PRIORITY_TASK :: "'z sched_scheme \<Rightarrow> 'z sched_scheme option" where
  "taskSELECT_HIGHEST_PRIORITY_TASK S = do {
     let p = portGET_HIGHEST_PRIORITY (uxTopReadyPriority S);
     _ \<leftarrow> configASSERT (list_of S (Ready p) \<noteq> []);
     (i, m) \<leftarrow> turn (seq (lists S) (Ready p));
     Some ((in_lists (on_list (Ready p) (\<lambda>_. m)) S)\<lparr>pxCurrentTCB := item_owner i\<rparr>) }"

section \<open>Context switches\<close>

definition portYIELD :: "'z sched_scheme \<Rightarrow> 'z sched_scheme" where
  "portYIELD S = S\<lparr>pendsv := True\<rparr>"

definition vTaskSwitchContext :: "'z sched_scheme \<Rightarrow> 'z sched_scheme option" where
  "vTaskSwitchContext S =
     (if uxSchedulerSuspended S \<noteq> 0 then Some (S\<lparr>xYieldPending := True\<rparr>)
      else taskSELECT_HIGHEST_PRIORITY_TASK (S\<lparr>xYieldPending := False\<rparr>))"

definition xPortPendSVHandler :: "'z sched_scheme \<Rightarrow> 'z sched_scheme option" where
  "xPortPendSVHandler S = vTaskSwitchContext (S\<lparr>pendsv := False\<rparr>)"

definition vTaskMissedYield :: "'z sched_scheme \<Rightarrow> 'z sched_scheme" where
  "vTaskMissedYield S = S\<lparr>xYieldPending := True\<rparr>"

section \<open>Time\<close>

definition prvResetNextTaskUnblockTime :: "'z sched_scheme \<Rightarrow> 'z sched_scheme" where
  "prvResetNextTaskUnblockTime S =
     (case list_of S (pxDelayedTaskList S) of
        [] \<Rightarrow> S\<lparr>xNextTaskUnblockTime := portMAX_DELAY\<rparr>
      | i # is \<Rightarrow> S\<lparr>xNextTaskUnblockTime := val (lists S) (StateItem (item_owner i))\<rparr>)"

definition taskSWITCH_DELAYED_LISTS :: "'z sched_scheme \<Rightarrow> 'z sched_scheme option" where
  "taskSWITCH_DELAYED_LISTS S = do {
     _ \<leftarrow> configASSERT (list_of S (pxDelayedTaskList S) = []);
     Some (prvResetNextTaskUnblockTime
       (S\<lparr>pxDelayedTaskList := pxOverflowDelayedTaskList S, pxOverflowDelayedTaskList := pxDelayedTaskList S,
          xNumOfOverflows := i32 (xNumOfOverflows S + 1)\<rparr>)) }"

text \<open>The loop over the delayed tasks that are due; whether one of them may run instead of the current one.\<close>

partial_function (option) wake_due :: "'z sched_scheme \<Rightarrow> bool \<Rightarrow> (bool \<times> 'z sched_scheme) option" where
  "wake_due S sw =
     (case list_of S (pxDelayedTaskList S) of
        [] \<Rightarrow> Some (sw, S\<lparr>xNextTaskUnblockTime := portMAX_DELAY\<rparr>)
      | i # is \<Rightarrow>
         (let t = item_owner i; v = val (lists S) (StateItem t)
          in if xTickCount S < v then Some (sw, S\<lparr>xNextTaskUnblockTime := v\<rparr>)
             else do {
               (_, S) \<leftarrow> take_off (StateItem t) S;
               let S = prvAddTaskToReadyList t (leave_events t S);
               wake_due S (sw \<or> uxPriority S (pxCurrentTCB S) \<le> uxPriority S t) }))"

definition xTaskIncrementTick :: "'z sched_scheme \<Rightarrow> (bool \<times> 'z sched_scheme) option" where
  "xTaskIncrementTick S = do {
     (sw, S) \<leftarrow>
       (if uxSchedulerSuspended S = 0 then do {
          let S = S\<lparr>xTickCount := inc32 (xTickCount S)\<rparr>;
          S \<leftarrow> (if xTickCount S = 0 then taskSWITCH_DELAYED_LISTS S else Some S);
          (sw, S) \<leftarrow> (if xNextTaskUnblockTime S \<le> xTickCount S then wake_due S False else Some (False, S));
          Some (sw \<or> 1 < length (list_of S (Ready (uxPriority S (pxCurrentTCB S)))), S) }
        else Some (False, S\<lparr>uxPendedTicks := inc32 (uxPendedTicks S)\<rparr>));
     Some (sw \<or> xYieldPending S, S) }"

definition xPortSysTickHandler :: "'z sched_scheme \<Rightarrow> 'z sched_scheme option" where
  "xPortSysTickHandler S = do {
     (sw, S) \<leftarrow> xTaskIncrementTick S;
     Some (if sw then portYIELD S else S) }"

section \<open>Suspending the scheduler\<close>

definition vTaskSuspendAll :: "'z sched_scheme \<Rightarrow> 'z sched_scheme" where
  "vTaskSuspendAll S = S\<lparr>uxSchedulerSuspended := inc32 (uxSchedulerSuspended S)\<rparr>"

text \<open>The tasks that became ready meanwhile; whether there were any.\<close>

partial_function (option) ready_pending :: "'z sched_scheme \<Rightarrow> bool \<Rightarrow> (bool \<times> 'z sched_scheme) option" where
  "ready_pending S any =
     (case list_of S PendingReadyList of
        [] \<Rightarrow> Some (any, S)
      | i # is \<Rightarrow> do {
          let t = item_owner i;
          (_, S) \<leftarrow> take_off (EventItem t) S;
          (_, S) \<leftarrow> take_off (StateItem t) S;
          let S = prvAddTaskToReadyList t S;
          ready_pending (if uxPriority S (pxCurrentTCB S) \<le> uxPriority S t then S\<lparr>xYieldPending := True\<rparr> else S) True })"

text \<open>The ticks that were held back.\<close>

fun catch_up :: "nat \<Rightarrow> 'z sched_scheme \<Rightarrow> 'z sched_scheme option" where
  "catch_up 0 S = Some S"
| "catch_up (Suc n) S = do {
     (sw, S) \<leftarrow> xTaskIncrementTick S;
     catch_up n (if sw then S\<lparr>xYieldPending := True\<rparr> else S) }"

definition xTaskResumeAll :: "'z sched_scheme \<Rightarrow> (bool \<times> 'z sched_scheme) option" where
  "xTaskResumeAll S = do {
     _ \<leftarrow> configASSERT (uxSchedulerSuspended S \<noteq> 0);
     let S = S\<lparr>uxSchedulerSuspended := dec32 (uxSchedulerSuspended S)\<rparr>;
     if uxSchedulerSuspended S = 0 \<and> 0 < uxCurrentNumberOfTasks S then do {
       (any, S) \<leftarrow> ready_pending S False;
       let S = (if any then prvResetNextTaskUnblockTime S else S);
       S \<leftarrow> (if 0 < uxPendedTicks S then map_option (\<lambda>S. S\<lparr>uxPendedTicks := 0\<rparr>) (catch_up (uxPendedTicks S) S) else Some S);
       Some (if xYieldPending S then (True, portYIELD S) else (False, S)) }
     else Some (False, S) }"

section \<open>Waiting\<close>

definition prvAddCurrentTaskToDelayedList :: "nat \<Rightarrow> bool \<Rightarrow> 'z sched_scheme \<Rightarrow> 'z sched_scheme option" where
  "prvAddCurrentTaskToDelayedList xTicksToWait xCanBlockIndefinitely S = do {
     let t = pxCurrentTCB S;
     let now = xTickCount S;
     (empty, S) \<leftarrow> take_off (StateItem t) S;
     let S = (if empty then portRESET_READY_PRIORITY (uxPriority S t) S else S);
     if xTicksToWait = portMAX_DELAY \<and> xCanBlockIndefinitely then
       Some (in_lists (insert_end SuspendedTaskList (StateItem t)) S)
     else do {
       let wake = (now + xTicksToWait) mod 4294967296;
       let S = in_lists (set_value (StateItem t) wake) S;
       if wake < now then Some (in_lists (insert_sorted (pxOverflowDelayedTaskList S) (StateItem t)) S)
       else do {
         let S = in_lists (insert_sorted (pxDelayedTaskList S) (StateItem t)) S;
         Some (if wake < xNextTaskUnblockTime S then S\<lparr>xNextTaskUnblockTime := wake\<rparr> else S) } } }"

end
