(* ===== verification/KTasks.thy ===== *)
theory KTasks imports KSched begin

text \<open>
  The calls of the task API (freertos/src/tasks.c): creating and deleting tasks, waiting,
  suspending, priorities and their inheritance, event lists and timeouts. A call that suspends the
  scheduler takes the effect \<open>irqs\<close> of the interrupts served meanwhile as an argument.
\<close>

section \<open>Start\<close>

definition prvInitialiseTaskLists :: "'z sched_scheme \<Rightarrow> 'z sched_scheme" where
  "prvInitialiseTaskLists S =
     (in_lists (fold new_list
        (map Ready [0..<configMAX_PRIORITIES] @
         [DelayedTaskList1, DelayedTaskList2, PendingReadyList, TasksWaitingTermination, SuspendedTaskList])) S)
     \<lparr>pxDelayedTaskList := DelayedTaskList1, pxOverflowDelayedTaskList := DelayedTaskList2\<rparr>"

text \<open>The part of the control block that the scheduler uses.\<close>

definition prvInitialiseNewTask :: "nat \<Rightarrow> task \<Rightarrow> 'z sched_scheme \<Rightarrow> 'z sched_scheme" where
  "prvInitialiseNewTask prio t S =
     (let p = (if configMAX_PRIORITIES \<le> prio then configMAX_PRIORITIES - 1 else prio)
      in in_lists (\<lambda>K. set_value (EventItem t) (configMAX_PRIORITIES - p)
                         (K\<lparr>home := (home K)(StateItem t := None, EventItem t := None)\<rparr>))
           (S\<lparr>uxPriority := (uxPriority S)(t := p), uxBasePriority := (uxBasePriority S)(t := p),
              uxMutexesHeld := (uxMutexesHeld S)(t := 0)\<rparr>))"

definition prvAddNewTaskToReadyList :: "task \<Rightarrow> 'z sched_scheme \<Rightarrow> 'z sched_scheme" where
  "prvAddNewTaskToReadyList t S =
     (let S = S\<lparr>uxCurrentNumberOfTasks := inc32 (uxCurrentNumberOfTasks S)\<rparr>;
          S = (if pxCurrentTCB S = 0 then
                 (let S = S\<lparr>pxCurrentTCB := t\<rparr>
                  in if uxCurrentNumberOfTasks S = 1 then prvInitialiseTaskLists S else S)
               else if \<not> xSchedulerRunning S \<and> uxPriority S (pxCurrentTCB S) \<le> uxPriority S t
               then S\<lparr>pxCurrentTCB := t\<rparr> else S);
          S = prvAddTaskToReadyList t S
      in if xSchedulerRunning S \<and> uxPriority S (pxCurrentTCB S) < uxPriority S t then portYIELD S else S)"

text \<open>The control block \<open>t\<close> and the stack come from the allocator; 0 when one of them was refused.\<close>

definition xTaskCreate :: "nat \<Rightarrow> task \<Rightarrow> 'z sched_scheme \<Rightarrow> bool \<times> 'z sched_scheme" where
  "xTaskCreate prio t S =
     (if t \<noteq> 0 then (True, prvAddNewTaskToReadyList t (prvInitialiseNewTask prio t S)) else (False, S))"

text \<open>The idle and the timer task exist; the port's start selects nothing, the current task runs first.\<close>

definition start_scheduling :: "'z sched_scheme \<Rightarrow> 'z sched_scheme" where
  "start_scheduling S = S\<lparr>xNextTaskUnblockTime := portMAX_DELAY, xSchedulerRunning := True, xTickCount := 0\<rparr>"

section \<open>Waiting for time\<close>

definition vTaskDelay_kernel :: "('z sched_scheme \<Rightarrow> 'z sched_scheme option) \<Rightarrow> nat \<Rightarrow> 'z sched_scheme \<Rightarrow> 'z sched_scheme option" where
  "vTaskDelay_kernel irqs xTicksToDelay S = do {
     (yielded, S) \<leftarrow>
       (if 0 < xTicksToDelay then do {
          _ \<leftarrow> configASSERT (uxSchedulerSuspended S = 0);
          S \<leftarrow> prvAddCurrentTaskToDelayedList xTicksToDelay False (vTaskSuspendAll S);
          S \<leftarrow> irqs S;
          xTaskResumeAll S }
        else Some (False, S));
     Some (if yielded then S else portYIELD S) }"

text \<open>Whether to wait, for a task that woke last at \<open>prev\<close>; the answer is the next time to wake.\<close>

definition vTaskDelayUntil :: "('z sched_scheme \<Rightarrow> 'z sched_scheme option) \<Rightarrow> nat \<Rightarrow> nat \<Rightarrow> 'z sched_scheme \<Rightarrow>
    (nat \<times> 'z sched_scheme) option" where
  "vTaskDelayUntil irqs prev inc S = do {
     _ \<leftarrow> configASSERT (0 < inc);
     _ \<leftarrow> configASSERT (uxSchedulerSuspended S = 0);
     let S = vTaskSuspendAll S;
     let now = xTickCount S;
     let wake = (prev + inc) mod 4294967296;
     let delay = (if now < prev then wake < prev \<and> now < wake else wake < prev \<or> now < wake);
     S \<leftarrow> (if delay then prvAddCurrentTaskToDelayedList ((wake + 4294967296 - now) mod 4294967296) False S else Some S);
     S \<leftarrow> irqs S;
     (yielded, S) \<leftarrow> xTaskResumeAll S;
     Some (wake, if yielded then S else portYIELD S) }"

definition xTaskGetTickCount :: "'z sched_scheme \<Rightarrow> nat" where "xTaskGetTickCount S = xTickCount S"

record TimeOut_t =
  xOverflowCount :: int
  xTimeOnEntering :: nat

definition vTaskInternalSetTimeOutState :: "'z sched_scheme \<Rightarrow> TimeOut_t" where
  "vTaskInternalSetTimeOutState S = \<lparr>xOverflowCount = xNumOfOverflows S, xTimeOnEntering = xTickCount S\<rparr>"

definition xTaskCheckForTimeOut :: "TimeOut_t \<Rightarrow> nat \<Rightarrow> 'z sched_scheme \<Rightarrow> bool \<times> TimeOut_t \<times> nat" where
  "xTaskCheckForTimeOut to ticks S =
     (let elapsed = (xTickCount S + 4294967296 - xTimeOnEntering to) mod 4294967296
      in if ticks = portMAX_DELAY then (False, to, ticks)
         else if xNumOfOverflows S \<noteq> xOverflowCount to \<and> xTimeOnEntering to \<le> xTickCount S then (True, to, ticks)
         else if elapsed < ticks then (False, vTaskInternalSetTimeOutState S, ticks - elapsed)
         else (True, to, 0))"

section \<open>Event lists\<close>

definition vTaskPlaceOnEventList :: "task_list \<Rightarrow> nat \<Rightarrow> 'z sched_scheme \<Rightarrow> 'z sched_scheme option" where
  "vTaskPlaceOnEventList L ticks S =
     prvAddCurrentTaskToDelayedList ticks True (in_lists (insert_sorted L (EventItem (pxCurrentTCB S))) S)"

definition vTaskPlaceOnEventListRestricted :: "task_list \<Rightarrow> nat \<Rightarrow> bool \<Rightarrow> 'z sched_scheme \<Rightarrow> 'z sched_scheme option" where
  "vTaskPlaceOnEventListRestricted L ticks indefinitely S =
     prvAddCurrentTaskToDelayedList (if indefinitely then portMAX_DELAY else ticks) indefinitely
       (in_lists (insert_end L (EventItem (pxCurrentTCB S))) S)"

definition xTaskRemoveFromEventList :: "task_list \<Rightarrow> 'z sched_scheme \<Rightarrow> (bool \<times> 'z sched_scheme) option" where
  "xTaskRemoveFromEventList L S = do {
     t \<leftarrow> head_owner L S;
     (_, S) \<leftarrow> take_off (EventItem t) S;
     S \<leftarrow> (if uxSchedulerSuspended S = 0 then do {
            (_, S) \<leftarrow> take_off (StateItem t) S;
            Some (prvAddTaskToReadyList t S) }
          else Some (in_lists (insert_end PendingReadyList (EventItem t)) S));
     Some (if uxPriority S (pxCurrentTCB S) < uxPriority S t then (True, S\<lparr>xYieldPending := True\<rparr>) else (False, S)) }"

section \<open>Suspending and deleting tasks\<close>

definition task_or_self :: "task \<Rightarrow> 'z sched_scheme \<Rightarrow> task" where
  "task_or_self t S = (if t = 0 then pxCurrentTCB S else t)"

definition vTaskSuspend :: "task \<Rightarrow> 'z sched_scheme \<Rightarrow> 'z sched_scheme option" where
  "vTaskSuspend h S = do {
     let t = task_or_self h S;
     (empty, S) \<leftarrow> take_off (StateItem t) S;
     let S = (if empty then taskRESET_READY_PRIORITY (uxPriority S t) S else S);
     let S = leave_events t S;
     let S = in_lists (insert_end SuspendedTaskList (StateItem t)) S;
     let S = (if xSchedulerRunning S then prvResetNextTaskUnblockTime S else S);
     if t = pxCurrentTCB S then
       (if xSchedulerRunning S then do {
          _ \<leftarrow> configASSERT (uxSchedulerSuspended S = 0);
          Some (portYIELD S) }
        else if length (list_of S SuspendedTaskList) = uxCurrentNumberOfTasks S then Some (S\<lparr>pxCurrentTCB := 0\<rparr>)
        else vTaskSwitchContext S)
     else Some S }"

definition prvTaskIsTaskSuspended :: "task \<Rightarrow> 'z sched_scheme \<Rightarrow> bool" where
  "prvTaskIsTaskSuspended t S \<longleftrightarrow>
     home (lists S) (StateItem t) = Some SuspendedTaskList \<and> home (lists S) (EventItem t) \<noteq> Some PendingReadyList \<and>
     home (lists S) (EventItem t) = None"

definition vTaskResume :: "task \<Rightarrow> 'z sched_scheme \<Rightarrow> 'z sched_scheme option" where
  "vTaskResume t S = do {
     _ \<leftarrow> configASSERT (t \<noteq> 0);
     if t \<noteq> pxCurrentTCB S \<and> prvTaskIsTaskSuspended t S then do {
       (_, S) \<leftarrow> take_off (StateItem t) S;
       let S = prvAddTaskToReadyList t S;
       Some (if uxPriority S (pxCurrentTCB S) \<le> uxPriority S t then portYIELD S else S) }
     else Some S }"

definition xTaskResumeFromISR :: "task \<Rightarrow> 'z sched_scheme \<Rightarrow> (bool \<times> 'z sched_scheme) option" where
  "xTaskResumeFromISR t S = do {
     _ \<leftarrow> configASSERT (t \<noteq> 0);
     if prvTaskIsTaskSuspended t S then
       (if uxSchedulerSuspended S = 0 then do {
          let sw = uxPriority S (pxCurrentTCB S) \<le> uxPriority S t;
          (_, S) \<leftarrow> take_off (StateItem t) S;
          Some (sw, prvAddTaskToReadyList t S) }
        else Some (False, in_lists (insert_end PendingReadyList (EventItem t)) S))
     else Some (False, S) }"

definition vTaskDelete :: "task \<Rightarrow> 'z sched_scheme \<Rightarrow> 'z sched_scheme option" where
  "vTaskDelete h S = do {
     let t = task_or_self h S;
     (empty, S) \<leftarrow> take_off (StateItem t) S;
     let S = (if empty then taskRESET_READY_PRIORITY (uxPriority S t) S else S);
     let S = leave_events t S;
     let S = (if t = pxCurrentTCB S then
                (in_lists (insert_end TasksWaitingTermination (StateItem t)) S)
                \<lparr>uxDeletedTasksWaitingCleanUp := inc32 (uxDeletedTasksWaitingCleanUp S)\<rparr>
              else prvResetNextTaskUnblockTime (S\<lparr>uxCurrentNumberOfTasks := dec32 (uxCurrentNumberOfTasks S)\<rparr>));
     if xSchedulerRunning S \<and> t = pxCurrentTCB S then do {
       _ \<leftarrow> configASSERT (uxSchedulerSuspended S = 0);
       Some (portYIELD S) }
     else Some S }"

section \<open>Priorities\<close>

definition set_event_value :: "task \<Rightarrow> nat \<Rightarrow> 'z sched_scheme \<Rightarrow> 'z sched_scheme" where
  "set_event_value t prio S =
     (if val (lists S) (EventItem t) < taskEVENT_LIST_ITEM_VALUE_IN_USE
      then in_lists (set_value (EventItem t) (configMAX_PRIORITIES - prio)) S else S)"

definition vTaskPrioritySet :: "task \<Rightarrow> nat \<Rightarrow> 'z sched_scheme \<Rightarrow> 'z sched_scheme option" where
  "vTaskPrioritySet h new S = do {
     _ \<leftarrow> configASSERT (new < configMAX_PRIORITIES);
     let t = task_or_self h S;
     let old = uxBasePriority S t;
     if old \<noteq> new then do {
       let yield = (if old < new then t \<noteq> pxCurrentTCB S \<and> uxPriority S (pxCurrentTCB S) \<le> new else t = pxCurrentTCB S);
       let on_entry = uxPriority S t;
       let S = (if uxBasePriority S t = uxPriority S t then S\<lparr>uxPriority := (uxPriority S)(t := new)\<rparr> else S);
       let S = S\<lparr>uxBasePriority := (uxBasePriority S)(t := new)\<rparr>;
       let S = set_event_value t new S;
       S \<leftarrow> (if home (lists S) (StateItem t) = Some (Ready on_entry) then do {
               (empty, S) \<leftarrow> take_off (StateItem t) S;
               let S = (if empty then portRESET_READY_PRIORITY on_entry S else S);
               Some (prvAddTaskToReadyList t S) }
             else Some S);
       Some (if yield then portYIELD S else S) }
     else Some S }"

definition pvTaskIncrementMutexHeldCount :: "'z sched_scheme \<Rightarrow> task \<times> 'z sched_scheme" where
  "pvTaskIncrementMutexHeldCount S =
     (let t = pxCurrentTCB S
      in (t, if t \<noteq> 0 then S\<lparr>uxMutexesHeld := (uxMutexesHeld S)(t := inc32 (uxMutexesHeld S t))\<rparr> else S))"

definition xTaskPriorityInherit :: "task \<Rightarrow> 'z sched_scheme \<Rightarrow> (bool \<times> 'z sched_scheme) option" where
  "xTaskPriorityInherit t S =
     (if t \<noteq> 0 then
        (let p = uxPriority S (pxCurrentTCB S)
         in if uxPriority S t < p then do {
              let S = set_event_value t p S;
              S \<leftarrow> (if home (lists S) (StateItem t) = Some (Ready (uxPriority S t)) then do {
                      (empty, S) \<leftarrow> take_off (StateItem t) S;
                      let S = (if empty then taskRESET_READY_PRIORITY (uxPriority S t) S else S);
                      Some (prvAddTaskToReadyList t (S\<lparr>uxPriority := (uxPriority S)(t := p)\<rparr>)) }
                    else Some (S\<lparr>uxPriority := (uxPriority S)(t := p)\<rparr>));
              Some (True, S) }
            else Some (uxBasePriority S t < p, S))
      else Some (False, S))"

definition xTaskPriorityDisinherit :: "task \<Rightarrow> 'z sched_scheme \<Rightarrow> (bool \<times> 'z sched_scheme) option" where
  "xTaskPriorityDisinherit t S =
     (if t \<noteq> 0 then do {
        _ \<leftarrow> configASSERT (t = pxCurrentTCB S);
        _ \<leftarrow> configASSERT (uxMutexesHeld S t \<noteq> 0);
        let S = S\<lparr>uxMutexesHeld := (uxMutexesHeld S)(t := dec32 (uxMutexesHeld S t))\<rparr>;
        if uxPriority S t \<noteq> uxBasePriority S t \<and> uxMutexesHeld S t = 0 then do {
          (empty, S) \<leftarrow> take_off (StateItem t) S;
          let S = (if empty then taskRESET_READY_PRIORITY (uxPriority S t) S else S);
          let S = S\<lparr>uxPriority := (uxPriority S)(t := uxBasePriority S t)\<rparr>;
          let S = in_lists (set_value (EventItem t) (configMAX_PRIORITIES - uxPriority S t)) S;
          Some (True, prvAddTaskToReadyList t S) }
        else Some (False, S) }
      else Some (False, S))"

definition vTaskPriorityDisinheritAfterTimeout :: "task \<Rightarrow> nat \<Rightarrow> 'z sched_scheme \<Rightarrow> 'z sched_scheme option" where
  "vTaskPriorityDisinheritAfterTimeout t highest S =
     (if t \<noteq> 0 then do {
        _ \<leftarrow> configASSERT (uxMutexesHeld S t \<noteq> 0);
        let p = (if uxBasePriority S t < highest then highest else uxBasePriority S t);
        if uxPriority S t \<noteq> p \<and> uxMutexesHeld S t = 1 then do {
          _ \<leftarrow> configASSERT (t \<noteq> pxCurrentTCB S);
          let on_entry = uxPriority S t;
          let S = set_event_value t p (S\<lparr>uxPriority := (uxPriority S)(t := p)\<rparr>);
          if home (lists S) (StateItem t) = Some (Ready on_entry) then do {
            (empty, S) \<leftarrow> take_off (StateItem t) S;
            let S = (if empty then taskRESET_READY_PRIORITY (uxPriority S t) S else S);
            Some (prvAddTaskToReadyList t S) }
          else Some S }
        else Some S }
      else Some S)"

end
