(* ===== verification/KListRefine.thy ===== *)
theory KListRefine imports KListSpec begin

text \<open>
  Each operation of the lists does in the store what the contract says: it returns, and the store
  holds the new lists. First how a ring changes, then the operations of list.c.
\<close>

section \<open>What the contract does to the entries\<close>

abbreviation mark_node :: "'l \<Rightarrow> 'i marked \<Rightarrow> ('i, 'l) list_node" where
  "mark_node L m \<equiv> last (ListEnd L # map Item (fst m))"

lemma put_last_entries:
  obtains us vs where "entries m = us @ vs" "entries (put_last i m) = us @ i # vs"
    "mark_node L (put_last i m) = mark_node L m" "mark_node L m = hd (map Item vs @ [ListEnd L])"
proof (cases m)
  case (Pair f b)
  show ?thesis
  proof (cases f rule: rev_cases)
    case Nil
    then show ?thesis using Pair by (intro that [of b "[]"]) (auto simp: entries_def put_last_def)
  next
    case (snoc g x)
    then show ?thesis using Pair by (intro that [of g "x # b"]) (auto simp: entries_def put_last_def)
  qed
qed

lemma put_in_split: "put_in v i xs = takeWhile (\<lambda>x. v x \<le> v i) xs @ i # dropWhile (\<lambda>x. v x \<le> v i) xs"
  by (simp add: put_in_def)

lemma put_sorted_entries: "entries (put_sorted v i m) = put_in v i (entries m)"
proof (cases m)
  case (Pair f b)
  show ?thesis
  proof (cases "list_all (\<lambda>x. v x \<le> v i) f")
    case True
    then have "takeWhile (\<lambda>x. v x \<le> v i) (f @ b) = f @ takeWhile (\<lambda>x. v x \<le> v i) b"
      "dropWhile (\<lambda>x. v x \<le> v i) (f @ b) = dropWhile (\<lambda>x. v x \<le> v i) b"
      by (auto simp: list_all_iff)
    then show ?thesis using True Pair by (simp add: put_sorted_def entries_def put_in_def)
  next
    case False
    then obtain x where x: "x \<in> set f" "\<not> v x \<le> v i" by (auto simp: list_all_iff)
    then show ?thesis using False Pair
      by (simp add: put_sorted_def entries_def put_in_def takeWhile_append1 [of x] dropWhile_append1 [of x])
  qed
qed

lemma put_sorted_mark: "mark_node L (put_sorted v i m) = mark_node L m"
proof (cases m)
  case (Pair f b)
  show ?thesis
  proof (cases "list_all (\<lambda>x. v x \<le> v i) f")
    case False
    then obtain x where x: "x \<in> set f" "\<not> v x \<le> v i" by (auto simp: list_all_iff)
    then have ne: "dropWhile (\<lambda>x. v x \<le> v i) f \<noteq> []" by (auto simp: dropWhile_eq_Nil_conv)
    then have "last (dropWhile (\<lambda>x. v x \<le> v i) f) = last f"
      by (metis last_appendR takeWhile_dropWhile_id)
    then have "last (put_in v i f) = last f" using ne by (simp add: put_in_def del: dropWhile_eq_Nil_conv)
    moreover have "f \<noteq> []" "put_in v i f \<noteq> []" using x by (auto simp: put_in_def)
    ultimately show ?thesis using False Pair x by (auto simp add: put_sorted_def last_map)
  qed (use Pair in \<open>simp add: put_sorted_def\<close>)
qed

lemma take_out_entries:
  assumes "distinct (entries m)" "entries m = us @ i # vs"
  shows "entries (take_out i m) = us @ vs"
    "mark_node L (take_out i m) = (if mark_node L m = Item i then last (ListEnd L # map Item us) else mark_node L m)"
proof -
  obtain f b where m: "m = (f, b)" by fastforce
  consider (front) g where "f = us @ i # g" "vs = g @ b" | (behind) h where "us = f @ h" "b = h @ i # vs"
  proof (cases "length us < length f")
    case True
    then obtain g where g: "f = us @ g" "g @ b = i # vs" "g \<noteq> []"
      using assms(2) m by (auto simp: entries_def append_eq_append_conv2)
    then show ?thesis by (cases g) (auto intro: front)
  next
    case False
    then show ?thesis using assms(2) m behind by (auto simp: entries_def append_eq_append_conv2)
  qed
  then have r: "entries (take_out i m) = us @ vs \<and> mark_node L (take_out i m) =
      (if mark_node L m = Item i then last (ListEnd L # map Item us) else mark_node L m)"
  proof cases
    case front
    then have "i \<notin> set us" "i \<notin> set g" "i \<notin> set b" using assms(1) m by (auto simp: entries_def)
    then show ?thesis using front m
      by (cases g rule: rev_cases) (auto simp: entries_def take_out_def remove1_append remove1_idem)
  next
    case behind
    then have "i \<notin> set f" "i \<notin> set h" using assms(1) m by (auto simp: entries_def)
    then show ?thesis using behind m
      by (cases f rule: rev_cases) (auto simp: entries_def take_out_def remove1_append remove1_idem)
  qed
  then show "entries (take_out i m) = us @ vs"
    "mark_node L (take_out i m) = (if mark_node L m = Item i then last (ListEnd L # map Item us) else mark_node L m)" by auto
qed

section \<open>Changing one list\<close>

lemma holdsD:
  assumes "holds s K"
  shows "made K L \<Longrightarrow> ring s L (seq K L)" "pvContainer (item s (Item i)) = home K i"
    "xItemValue (item s (Item i)) = val K i" "val K i \<le> portMAX_DELAY" "home K i = Some L \<Longrightarrow> made K L"
    "made K L \<Longrightarrow> i \<in> set (entries (seq K L)) \<longleftrightarrow> home K i = Some L"
  using assms by (auto simp: holds_def)

text \<open>Another list does not notice a change of links at the nodes of this one and at loose items.\<close>

definition foreign :: "('i, 'l) klists \<Rightarrow> 'l \<Rightarrow> ('i, 'l) list_node \<Rightarrow> bool" where
  "foreign K L n \<longleftrightarrow> n \<noteq> ListEnd L \<and> (\<forall>i. n = Item i \<longrightarrow> home K i \<noteq> Some L)"

lemma ring_frame:
  assumes h: "holds s K" and m: "made K L" and same: "\<And>n. \<not> foreign K L n \<Longrightarrow> item s' n = item s n"
    and l: "list_at s' L = list_at s L"
  shows "ring s' L (seq K L)"
proof -
  note r = holdsD(1) [OF h m]
  have n: "item s' n = item s n" if "n \<in> set (ListEnd L # map Item (entries (seq K L)))" for n
    by (rule same) (use that holdsD(6) [OF h m] in \<open>auto simp: foreign_def\<close>)
  have "links (next_of s') (prev_of s') (ListEnd L) (map Item (entries (seq K L))) (ListEnd L)"
    using r n by (subst links_cong [of _ _ _ "next_of s" _ _ "prev_of s"]) (auto simp: ring_def)
  then show ?thesis using r n l by (auto simp: ring_def)
qed


text \<open>A list with one more item, between \<open>us\<close> and \<open>vs\<close>.\<close>

lemma holds_insert:
  assumes h: "holds s K" and m: "made K L" and free: "home K i = None"
    and ent: "entries (seq K L) = us @ vs" "entries (f (seq K L)) = us @ i # vs"
    and mark: "mark_node L (f (seq K L)) = mark_node L (seq K L)"
    and pq: "p = last (ListEnd L # map Item us)" "q = hd (map Item vs @ [ListEnd L])"
    and nx: "next_of s' = (next_of s)(Item i := q, p := Item i)"
    and pv: "prev_of s' = (prev_of s)(Item i := p, q := Item i)"
    and vals: "\<And>n. xItemValue (item s' n) = xItemValue (item s n)"
    and cont: "\<And>n. pvContainer (item s' n) = (if n = Item i then Some L else pvContainer (item s n))"
    and lst: "list_at s' = (list_at s)(L := list_at s L\<lparr>uxNumberOfItems := inc32 (uxNumberOfItems (list_at s L))\<rparr>)"
  shows "holds s' ((on_list L f K)\<lparr>home := (home K)(i := Some L)\<rparr>)" (is "holds s' ?K")
proof -
  have i: "i \<notin> set us" "i \<notin> set vs" using holdsD(6) [OF h m, of i] free ent(1) by auto
  have p: "p = ListEnd L \<or> p \<in> Item ` set us" using pq(1) last_in_set [of us] by (auto simp: last_map)
  have q: "q = ListEnd L \<or> q \<in> Item ` set vs" using pq(2) hd_in_set [of vs] by (cases vs) auto
  have mine: "j \<in> set us \<union> set vs \<Longrightarrow> home K j = Some L" for j using holdsD(6) [OF h m, of j] ent(1) by auto
  note r = holdsD(1) [OF h m]
  have ringL: "ring s' L (f (seq K L))"
  proof -
    have "links (next_of s) (prev_of s) (ListEnd L) (map Item us @ map Item vs) (ListEnd L)"
      using r ent(1) by (simp add: ring_def)
    then have "links (next_of s') (prev_of s') (ListEnd L) (map Item us @ Item i # map Item vs) (ListEnd L)"
      unfolding nx pv by (rule links_insert) (use r ent(1) i pq in \<open>auto simp: ring_def distinct_map inj_on_def\<close>)
    then show ?thesis using r ent mark lst vals i
      by (auto simp: ring_def inc32_def mod_simps)
  qed
  have other: "ring s' L' (seq K L')" if "made K L'" "L' \<noteq> L" for L'
  proof (rule ring_frame [OF h that(1)])
    fix n assume n: "\<not> foreign K L' n"
    have "n \<noteq> Item i" "n \<noteq> p" "n \<noteq> q" using n that(2) free p q mine by (auto simp: foreign_def)
    then show "item s' n = item s n"
      using fun_cong [OF nx, of n] fun_cong [OF pv, of n] vals [of n] cont [of n] by auto
  qed (use that lst in auto)
  show ?thesis unfolding holds_def
  proof (intro conjI allI impI)
    fix L' assume "made ?K L'"
    then show "ring s' L' (seq ?K L')" using ringL other by (auto simp: on_list_def)
  next
    fix j L' assume "made ?K L'"
    then show "(j \<in> set (entries (seq ?K L'))) = (home ?K j = Some L')"
      using holdsD(6) [OF h, of L' j] ent free by (auto simp: on_list_def)
  next
    fix j L' assume "home ?K j = Some L'"
    then show "made ?K L'" using holdsD(5) [OF h, of j L'] m by (auto simp: on_list_def split: if_splits)
  qed (use holdsD(2-4) [OF h] cont vals in \<open>simp_all add: on_list_def\<close>)
qed

text \<open>A list with one item less.\<close>

lemma holds_remove:
  assumes h: "holds s K" and home: "home K i = Some L"
    and pq: "p = prev_of s (Item i)" "q = next_of s (Item i)"
    and nx: "next_of s' = (next_of s)(p := q)" and pv: "prev_of s' = (prev_of s)(q := p)"
    and vals: "\<And>n. xItemValue (item s' n) = xItemValue (item s n)"
    and cont: "\<And>n. pvContainer (item s' n) = (if n = Item i then None else pvContainer (item s n))"
    and lst: "list_at s' = (list_at s)(L := \<lparr>uxNumberOfItems = dec32 (uxNumberOfItems (list_at s L)),
      pxIndex = (if pxIndex (list_at s L) = Item i then p else pxIndex (list_at s L))\<rparr>)"
  shows "holds s' (remove_item i K)"
proof -
  have m: "made K L" using holdsD(5) [OF h home] .
  note r = holdsD(1) [OF h m]
  obtain us vs where ent: "entries (seq K L) = us @ i # vs"
    using holdsD(6) [OF h m, of i] home by (auto dest: split_list)
  have d: "distinct (us @ i # vs)" using r ent by (simp add: ring_def)
  note t = take_out_entries [OF _ ent] 
  have dd: "distinct (entries (seq K L))" using r by (simp add: ring_def)
  have c: "links (next_of s) (prev_of s) (ListEnd L) (map Item us @ Item i # map Item vs) (ListEnd L)"
    using r ent by (simp add: ring_def)
  have dn: "distinct (ListEnd L # map Item us @ Item i # map Item vs)" using d by (auto simp: distinct_map inj_on_def)
  note rem = links_remove [OF c dn]
  have p: "p = ListEnd L \<or> p \<in> Item ` set us" using rem(2) pq(1) last_in_set [of us] by (auto simp: last_map)
  have q: "q = ListEnd L \<or> q \<in> Item ` set vs" using rem(3) pq(2) hd_in_set [of vs] by (cases vs) auto
  have mine: "j \<in> set us \<union> set vs \<Longrightarrow> home K j = Some L" for j using holdsD(6) [OF h m, of j] ent(1) by auto
  have ringL: "ring s' L (take_out i (seq K L))"
  proof -
    have "links (next_of s') (prev_of s') (ListEnd L) (map Item (us @ vs)) (ListEnd L)"
      using rem(1) unfolding nx pv pq by simp
    moreover have "pxIndex (list_at s' L) = mark_node L (take_out i (seq K L))"
    proof -
      have "pxIndex (list_at s L) = mark_node L (seq K L)" using r by (simp only: ring_def)
      moreover have "p = last (ListEnd L # map Item us)" using rem(2) pq(1) by (simp only:)
      ultimately show ?thesis by (simp only: lst fun_upd_same List_t.simps t(2) [OF dd])
    qed
    moreover have "dec32 (Suc n mod 4294967296) = n mod 4294967296" for n
      by (simp add: dec32_def mod_simps)
    then have "uxNumberOfItems (list_at s' L) = length (us @ vs) mod 4294967296"
      using r ent lst by (simp add: ring_def)
    moreover have "xItemValue (item s' (ListEnd L)) = portMAX_DELAY" using r vals by (simp add: ring_def)
    ultimately show ?thesis using t(1) [OF dd] d by (simp add: ring_def)
  qed
  have other: "ring s' L' (seq K L')" if "made K L'" "L' \<noteq> L" for L'
  proof (rule ring_frame [OF h that(1)])
    fix n assume n: "\<not> foreign K L' n"
    have "n \<noteq> Item i" "n \<noteq> p" "n \<noteq> q" using n that(2) home p q mine by (auto simp: foreign_def)
    then show "item s' n = item s n"
      using fun_cong [OF nx, of n] fun_cong [OF pv, of n] vals [of n] cont [of n] by auto
  qed (use that lst in auto)
  show ?thesis unfolding holds_def
  proof (intro conjI allI impI)
    fix L' assume "made (remove_item i K) L'"
    then show "ring s' L' (seq (remove_item i K) L')" using ringL other home by (auto simp: on_list_def remove_item_def)
  next
    fix j L' assume "made (remove_item i K) L'"
    then show "(j \<in> set (entries (seq (remove_item i K) L'))) = (home (remove_item i K) j = Some L')"
      using holdsD(6) [OF h, of L' j] ent home d t(1) [OF dd] by (auto simp: on_list_def remove_item_def)
  next
    fix j L' assume "home (remove_item i K) j = Some L'"
    then show "made (remove_item i K) L'" using holdsD(5) [OF h, of j L'] home
      by (auto simp: on_list_def remove_item_def split: if_splits)
  qed (use holdsD(2-4) [OF h] cont vals home in \<open>simp_all add: on_list_def remove_item_def\<close>)
qed

section \<open>The operations\<close>

text \<open>
  The operations of freertos/src/list.c, one by one: on a store that holds the lists of the
  contract each returns, and the new store holds the lists the contract asks for.
\<close>

lemmas store_simps = deref_def assign_def assign_list_def Let_def

lemma ring_prev:
  assumes "ring s L m" "entries m = us @ vs"
  shows "prev_of s (hd (map Item vs @ [ListEnd L])) = last (ListEnd L # map Item us)"
    "next_of s (last (ListEnd L # map Item us)) = hd (map Item vs @ [ListEnd L])"
proof -
  have c: "links (next_of s) (prev_of s) (ListEnd L) (map Item us @ map Item vs) (ListEnd L)"
    using assms by (simp add: ring_def)
  then have "links (next_of s) (prev_of s) (ListEnd L) (map Item us) (hd (map Item vs @ [ListEnd L]))"
    by (cases vs) (auto simp: links_append)
  from links_last [OF this] show "prev_of s (hd (map Item vs @ [ListEnd L])) = last (ListEnd L # map Item us)" .
  show "next_of s (last (ListEnd L # map Item us)) = hd (map Item vs @ [ListEnd L])"
    using c by (cases us rule: rev_cases) (auto simp: links_append dest: links_hd)
qed

text \<open>The neighbours of a new place are neither null nor the new item.\<close>

lemma ring_nodes:
  assumes "holds s K" "made K L" "home K i = None" "entries (seq K L) = us @ vs"
  shows "last (ListEnd L # map Item us) \<noteq> NoItem" "hd (map Item vs @ [ListEnd L]) \<noteq> NoItem"
    "last (ListEnd L # map Item us) \<noteq> Item i" "hd (map Item vs @ [ListEnd L]) \<noteq> Item i"
proof -
  have "i \<notin> set us" "i \<notin> set vs" using holdsD(6) [OF assms(1,2), of i] assms(3,4) by auto
  then show "last (ListEnd L # map Item us) \<noteq> NoItem" "hd (map Item vs @ [ListEnd L]) \<noteq> NoItem"
    "last (ListEnd L # map Item us) \<noteq> Item i" "hd (map Item vs @ [ListEnd L]) \<noteq> Item i"
    using last_in_set [of us] hd_in_set [of vs] by (auto simp: last_map hd_append hd_map)
qed

lemma vListInitialise_runs:
  "\<exists>s'. vListInitialise L s = Some s' \<and>
    item s' = (item s)(ListEnd L := item s (ListEnd L)\<lparr>xItemValue := portMAX_DELAY, pxNext := ListEnd L, pxPrevious := ListEnd L\<rparr>) \<and>
    list_at s' = (list_at s)(L := list_at s L\<lparr>pxIndex := ListEnd L, uxNumberOfItems := 0\<rparr>)"
  by (simp add: vListInitialise_def store_simps)

lemma vListInitialise_ok:
  assumes h: "holds s K" and empty: "\<And>i. home K i \<noteq> Some L"
  shows "\<exists>s'. vListInitialise L s = Some s' \<and> holds s' (new_list L K)"
proof -
  obtain s' where s': "vListInitialise L s = Some s'"
    "item s' = (item s)(ListEnd L := item s (ListEnd L)\<lparr>xItemValue := portMAX_DELAY, pxNext := ListEnd L, pxPrevious := ListEnd L\<rparr>)"
    "list_at s' = (list_at s)(L := list_at s L\<lparr>pxIndex := ListEnd L, uxNumberOfItems := 0\<rparr>)"
    by (metis vListInitialise_runs)
  have "ring s' L' (seq K L')" if "made K L'" "L' \<noteq> L" for L'
    by (rule ring_frame [OF h that(1)]) (use s' that in \<open>auto simp: foreign_def\<close>)
  moreover have "ring s' L ([], [])" using s' by (simp add: ring_def entries_def)
  moreover note holdsD [OF h]
  ultimately have "holds s' (new_list L K)" unfolding holds_def
    using s' empty by (auto simp: new_list_def on_list_def entries_def)
  then show ?thesis using s'(1) by blast
qed

lemma vListInsertEnd_ok:
  assumes h: "holds s K" and m: "made K L" and free: "home K i = None"
  shows "\<exists>s'. vListInsertEnd L i s = Some s' \<and> holds s' (insert_end L i K)"
proof -
  obtain us vs where e: "entries (seq K L) = us @ vs" "entries (put_last i (seq K L)) = us @ i # vs"
    "mark_node L (put_last i (seq K L)) = mark_node L (seq K L)" "mark_node L (seq K L) = hd (map Item vs @ [ListEnd L])"
    by (rule put_last_entries)
  define p where "p = last (ListEnd L # map Item us)"
  define q where "q = hd (map Item vs @ [ListEnd L])"
  note n = ring_nodes [OF h m free e(1), folded p_def q_def]
  have "pxIndex (list_at s L) = mark_node L (seq K L)" using holdsD(1) [OF h m] by (simp only: ring_def)
  then have ix: "pxIndex (list_at s L) = q" by (simp only: e(4) q_def)
  have pq: "pxPrevious (item s q) = p" using ring_prev(1) [OF holdsD(1) [OF h m] e(1)] by (simp add: p_def q_def)
  have "\<exists>s'. (vListInsertEnd L i s = Some s') \<and>
      (next_of s' = (next_of s)(Item i := q, p := Item i)) \<and>
      (prev_of s' = (prev_of s)(Item i := p, q := Item i)) \<and>
      (\<forall>n. xItemValue (item s' n) = xItemValue (item s n)) \<and>
      (\<forall>n. pvContainer (item s' n) = (if n = Item i then Some L else pvContainer (item s n))) \<and>
      (list_at s' = (list_at s)(L := list_at s L\<lparr>uxNumberOfItems := inc32 (uxNumberOfItems (list_at s L))\<rparr>))"
    using n ix pq by (auto simp: vListInsertEnd_def store_simps fun_eq_iff)
  then obtain s' where s': "vListInsertEnd L i s = Some s'"
    "next_of s' = (next_of s)(Item i := q, p := Item i)" "prev_of s' = (prev_of s)(Item i := p, q := Item i)"
    "\<And>n. xItemValue (item s' n) = xItemValue (item s n)"
    "\<And>n. pvContainer (item s' n) = (if n = Item i then Some L else pvContainer (item s n))"
    "list_at s' = (list_at s)(L := list_at s L\<lparr>uxNumberOfItems := inc32 (uxNumberOfItems (list_at s L))\<rparr>)"
    by blast
  have "holds s' (insert_end L i K)" unfolding insert_end_def
    by (rule holds_insert [where f = "put_last i", OF h m free e(1-3) p_def q_def s'(2-6)])
  then show ?thesis using s'(1) by blast
qed

lemma find_insertion_ok:
  assumes r: "ring s L m" and e: "entries m = us @ vs" and v: "v < portMAX_DELAY"
  shows "find_insertion s v (last (ListEnd L # map Item us)) =
    Some (last (ListEnd L # map Item (us @ takeWhile (\<lambda>x. xItemValue (item s (Item x)) \<le> v) vs)))"
  using e
proof (induction vs arbitrary: us)
  case Nil
  note n = ring_prev(2) [OF r Nil]
  have "last (ListEnd L # map Item us) \<noteq> NoItem" by (simp add: last_map)
  then show ?case using n r v by (subst find_insertion.simps) (simp add: deref_def ring_def)
next
  case (Cons x vs)
  note n = ring_prev(2) [OF r Cons.prems]
  have "last (ListEnd L # map Item us) \<noteq> NoItem" by (simp add: last_map)
  then show ?case using n Cons.IH [of "us @ [x]"] Cons.prems
    by (subst find_insertion.simps) (simp add: deref_def)
qed

lemma vListInsert_ok:
  assumes h: "holds s K" and m: "made K L" and free: "home K i = None"
  shows "\<exists>s'. vListInsert L i s = Some s' \<and> holds s' (insert_sorted L i K)"
proof -
  let ?le = "\<lambda>x. val K x \<le> val K i"
  define us where "us = takeWhile ?le (entries (seq K L))"
  define vs where "vs = dropWhile ?le (entries (seq K L))"
  define p where "p = last (ListEnd L # map Item us)"
  define q where "q = hd (map Item vs @ [ListEnd L])"
  note r = holdsD(1) [OF h m]
  have e: "entries (seq K L) = us @ vs" by (simp add: us_def vs_def)
  note n = ring_nodes [OF h m free e, folded p_def q_def]
  have nx: "pxNext (item s p) = q" using ring_prev(2) [OF r e] by (simp add: p_def q_def)
  have "(if val K i = portMAX_DELAY then Some (pxPrevious (item s (ListEnd L))) else find_insertion s (val K i) (ListEnd L)) = Some p"
  proof (cases "val K i = portMAX_DELAY")
    case True
    then have "us = entries (seq K L)" "vs = []" using holdsD(4) [OF h] by (simp_all add: us_def vs_def)
    then show ?thesis using True ring_prev(1) [OF r e] by (simp add: p_def)
  next
    case False
    then have "val K i < portMAX_DELAY" using holdsD(4) [OF h, of i] by simp
    from find_insertion_ok [OF r _ this, of "[]"] show ?thesis using False
      by (simp add: p_def us_def holdsD(3) [OF h])
  qed
  note place = this
  have "\<exists>s'. (vListInsert L i s = Some s') \<and>
      (next_of s' = (next_of s)(Item i := q, p := Item i)) \<and>
      (prev_of s' = (prev_of s)(Item i := p, q := Item i)) \<and>
      (\<forall>n. xItemValue (item s' n) = xItemValue (item s n)) \<and>
      (\<forall>n. pvContainer (item s' n) = (if n = Item i then Some L else pvContainer (item s n))) \<and>
      (list_at s' = (list_at s)(L := list_at s L\<lparr>uxNumberOfItems := inc32 (uxNumberOfItems (list_at s L))\<rparr>))"
    using place n nx holdsD(3) [OF h, of i] by (auto simp: vListInsert_def store_simps fun_eq_iff)
  then obtain s' where s': "vListInsert L i s = Some s'"
    "next_of s' = (next_of s)(Item i := q, p := Item i)" "prev_of s' = (prev_of s)(Item i := p, q := Item i)"
    "\<And>n. xItemValue (item s' n) = xItemValue (item s n)"
    "\<And>n. pvContainer (item s' n) = (if n = Item i then Some L else pvContainer (item s n))"
    "list_at s' = (list_at s)(L := list_at s L\<lparr>uxNumberOfItems := inc32 (uxNumberOfItems (list_at s L))\<rparr>)"
    by blast
  have "holds s' (insert_sorted L i K)" unfolding insert_sorted_def
  proof (rule holds_insert [where f = "put_sorted (val K) i", OF h m free e _ put_sorted_mark p_def q_def s'(2-6)])
    show "entries (put_sorted (val K) i (seq K L)) = us @ i # vs"
      by (simp add: put_sorted_entries put_in_def us_def vs_def)
  qed
  then show ?thesis using s'(1) by blast
qed

lemma uxListRemove_ok:
  assumes h: "holds s K" and home: "home K i = Some L"
  shows "\<exists>s'. uxListRemove i s = Some (length (entries (seq (remove_item i K) L)) mod 4294967296, s') \<and>
    holds s' (remove_item i K)"
proof -
  have m: "made K L" using holdsD(5) [OF h home] .
  note r = holdsD(1) [OF h m]
  define p where "p = prev_of s (Item i)"
  define q where "q = next_of s (Item i)"
  obtain us vs where e: "entries (seq K L) = us @ i # vs"
    using holdsD(6) [OF h m, of i] home by (auto dest: split_list)
  have "pxNext (item s (Item i)) = hd (map Item vs @ [ListEnd L])"
    using ring_prev(2) [of s L _ "us @ [i]" vs] r e by simp
  then have q: "q \<noteq> NoItem" "q \<noteq> Item i" using r e unfolding q_def
    by (auto simp: ring_def hd_append hd_map)
  have "pxPrevious (item s (Item i)) = last (ListEnd L # map Item us)"
    using ring_prev(1) [of s L _ us "i # vs"] r e by simp
  then have p: "p \<noteq> NoItem" "p \<noteq> Item i" using r e unfolding p_def
    by (auto simp: ring_def last_map)
  have "\<exists>s'. (uxListRemove i s = Some (uxNumberOfItems (list_at s' L), s')) \<and>
      (next_of s' = (next_of s)(p := q)) \<and>
      (prev_of s' = (prev_of s)(q := p)) \<and>
      (\<forall>n. xItemValue (item s' n) = xItemValue (item s n)) \<and>
      (\<forall>n. pvContainer (item s' n) = (if n = Item i then None else pvContainer (item s n))) \<and>
      (list_at s' = (list_at s)(L := \<lparr>uxNumberOfItems = dec32 (uxNumberOfItems (list_at s L)), pxIndex = (if pxIndex (list_at s L) = Item i then p else pxIndex (list_at s L))\<rparr>))"
    using p q holdsD(2) [OF h, of i] home
    by (auto simp: uxListRemove_def store_simps fun_eq_iff p_def [symmetric] q_def [symmetric])
  then obtain s' where s': "uxListRemove i s = Some (uxNumberOfItems (list_at s' L), s')"
    "next_of s' = (next_of s)(p := q)" "prev_of s' = (prev_of s)(q := p)"
    "\<And>n. xItemValue (item s' n) = xItemValue (item s n)"
    "\<And>n. pvContainer (item s' n) = (if n = Item i then None else pvContainer (item s n))"
    "list_at s' = (list_at s)(L := \<lparr>uxNumberOfItems = dec32 (uxNumberOfItems (list_at s L)),
      pxIndex = (if pxIndex (list_at s L) = Item i then p else pxIndex (list_at s L))\<rparr>)"
    by blast
  have "holds s' (remove_item i K)" by (rule holds_remove [OF h home p_def q_def s'(2-6)])
  moreover have "made (remove_item i K) L" using m home by (simp add: remove_item_def on_list_def)
  ultimately show ?thesis using s'(1) holdsD(1) by (fastforce simp: ring_def)
qed

lemma listSET_LIST_ITEM_VALUE_ok:
  assumes h: "holds s K" and v: "v \<le> portMAX_DELAY"
  shows "\<exists>s'. listSET_LIST_ITEM_VALUE i v s = Some s' \<and> holds s' (set_value i v K)"
proof -
  have "\<exists>s'. listSET_LIST_ITEM_VALUE i v s = Some s' \<and> list_at s' = list_at s \<and>
      item s' = (item s)(Item i := item s (Item i)\<lparr>xItemValue := v\<rparr>)"
    by (simp add: listSET_LIST_ITEM_VALUE_def store_simps)
  then obtain s' where s': "listSET_LIST_ITEM_VALUE i v s = Some s'" "list_at s' = list_at s"
    "item s' = (item s)(Item i := item s (Item i)\<lparr>xItemValue := v\<rparr>)"
    by blast
  then have "next_of s' = next_of s" "prev_of s' = prev_of s" by (auto simp: fun_eq_iff)
  then have "ring s' L m = ring s L m" for L m using s' by (simp add: ring_def)
  then have "holds s' (set_value i v K)" using h s' v unfolding holds_def by (auto simp: set_value_def)
  then show ?thesis using s'(1) by blast
qed

end
