(* ===== verification/KListFacts.thy ===== *)
theory KListFacts imports KListRefine begin

text \<open>
  What the lists of the contract keep to themselves: an item is in the list it is said to be in and
  in no other, once. The bundle \<open>klists_simps\<close> says how each operation moves items.
\<close>

definition wf_lists :: "('i, 'l) klists \<Rightarrow> bool" where
  "wf_lists K \<longleftrightarrow> (\<forall>L. distinct (entries (seq K L))) \<and> (\<forall>i L. i \<in> set (entries (seq K L)) \<longleftrightarrow> home K i = Some L)"

lemma wf_listsD:
  "wf_lists K \<Longrightarrow> i \<in> set (entries (seq K L)) \<longleftrightarrow> home K i = Some L"
  "wf_lists K \<Longrightarrow> distinct (entries (seq K L))"
  by (auto simp: wf_lists_def)

lemma list_empty_iff: "wf_lists K \<Longrightarrow> entries (seq K L) = [] \<longleftrightarrow> (\<forall>i. home K i \<noteq> Some L)"
  using wf_listsD(1) [of K _ L] by (metis empty_iff list.set(1) list.set_intros(1) neq_Nil_conv)

named_theorems klists_simps \<open>how the operations on the kernel's lists move items\<close>

lemma home_simps [klists_simps]:
  "home (insert_end L i K) = (home K)(i := Some L)"
  "home (insert_sorted L i K) = (home K)(i := Some L)"
  "home (remove_item i K) = (home K)(i := None)"
  "home (set_value i v K) = home K"
  "home (on_list L f K) = home K"
  by (auto simp: insert_end_def insert_sorted_def remove_item_def set_value_def on_list_def split: option.splits)

lemma val_simps [klists_simps]:
  "val (insert_end L i K) = val K"
  "val (insert_sorted L i K) = val K"
  "val (remove_item i K) = val K"
  "val (set_value i v K) = (val K)(i := v)"
  "val (on_list L f K) = val K"
  by (auto simp: insert_end_def insert_sorted_def remove_item_def set_value_def on_list_def split: option.splits)

lemma seq_simps [klists_simps]:
  "seq (insert_end L i K) = (seq K)(L := put_last i (seq K L))"
  "seq (insert_sorted L i K) = (seq K)(L := put_sorted (val K) i (seq K L))"
  "seq (set_value i v K) = seq K"
  "seq (on_list L f K) = (seq K)(L := f (seq K L))"
  by (auto simp: insert_end_def insert_sorted_def set_value_def on_list_def)

lemma seq_remove: "home K i = Some L \<Longrightarrow> seq (remove_item i K) = (seq K)(L := take_out i (seq K L))"
  by (simp add: remove_item_def on_list_def)

lemma set_put_last [simp]: "set (entries (put_last i m)) = insert i (set (entries m))"
proof -
  obtain us vs where "entries m = us @ vs" "entries (put_last i m) = us @ i # vs" by (rule put_last_entries)
  then show ?thesis by simp
qed

lemma distinct_put_last: "distinct (entries m) \<Longrightarrow> i \<notin> set (entries m) \<Longrightarrow> distinct (entries (put_last i m))"
proof -
  obtain us vs where "entries m = us @ vs" "entries (put_last i m) = us @ i # vs" by (rule put_last_entries)
  then show "distinct (entries m) \<Longrightarrow> i \<notin> set (entries m) \<Longrightarrow> ?thesis" by auto
qed

lemma put_in_parts:
  obtains us vs where "xs = us @ vs" "put_in v i xs = us @ i # vs"
    "\<forall>x\<in>set us. v x \<le> v i" "vs \<noteq> [] \<Longrightarrow> v i < v (hd vs)"
proof
  show "xs = takeWhile (\<lambda>x. v x \<le> v i) xs @ dropWhile (\<lambda>x. v x \<le> v i) xs" by simp
  show "\<forall>x\<in>set (takeWhile (\<lambda>x. v x \<le> v i) xs). v x \<le> v i" by (auto dest: set_takeWhileD)
  show "v i < v (hd (dropWhile (\<lambda>x. v x \<le> v i) xs))" if "dropWhile (\<lambda>x. v x \<le> v i) xs \<noteq> []"
    using hd_dropWhile [OF that] by simp
qed (rule put_in_def)

lemma set_put_sorted [simp]: "set (entries (put_sorted v i m)) = insert i (set (entries m))"
proof -
  obtain us vs where "entries m = us @ vs" "put_in v i (entries m) = us @ i # vs" by (rule put_in_parts)
  then show ?thesis by (simp add: put_sorted_entries)
qed

lemma distinct_put_sorted: "distinct (entries m) \<Longrightarrow> i \<notin> set (entries m) \<Longrightarrow> distinct (entries (put_sorted v i m))"
proof -
  obtain us vs where "entries m = us @ vs" "put_in v i (entries m) = us @ i # vs" by (rule put_in_parts)
  then show "distinct (entries m) \<Longrightarrow> i \<notin> set (entries m) \<Longrightarrow> ?thesis" by (auto simp: put_sorted_entries)
qed

lemma sorted_put_sorted:
  assumes "sorted (map v (entries m))"
  shows "sorted (map v (entries (put_sorted v i m)))"
proof -
  obtain us vs where p: "entries m = us @ vs" "put_in v i (entries m) = us @ i # vs"
    "\<forall>x\<in>set us. v x \<le> v i" "vs \<noteq> [] \<Longrightarrow> v i < v (hd vs)" by (rule put_in_parts [where xs = "entries m" and v = v and i = i]) blast
  have "\<forall>y\<in>set vs. v i \<le> v y"
  proof (cases vs)
    case (Cons y ys)
    then show ?thesis using assms p(1,4) by (fastforce simp: sorted_append)
  qed simp
  then show ?thesis using assms p by (auto simp: put_sorted_entries sorted_append)
qed

lemma entries_take_out:
  assumes "distinct (entries m)"
  shows "entries (take_out i m) = remove1 i (entries m)"
proof (cases "i \<in> set (entries m)")
  case True
  then obtain us vs where e: "entries m = us @ i # vs" by (auto dest: split_list)
  then have "i \<notin> set us" using assms by auto
  then show ?thesis using take_out_entries(1) [OF assms e] e by (simp add: remove1_append)
next
  case False
  then show ?thesis by (cases m) (auto simp: entries_def take_out_def remove1_idem)
qed

lemma wf_insert_end: "wf_lists K \<Longrightarrow> home K i = None \<Longrightarrow> wf_lists (insert_end L i K)"
  by (auto simp: wf_lists_def klists_simps intro!: distinct_put_last)

lemma wf_insert_sorted: "wf_lists K \<Longrightarrow> home K i = None \<Longrightarrow> wf_lists (insert_sorted L i K)"
  by (auto simp: wf_lists_def klists_simps intro!: distinct_put_sorted)

lemma wf_remove_item: "wf_lists K \<Longrightarrow> wf_lists (remove_item i K)"
proof (cases "home K i")
  case None
  then show "wf_lists K \<Longrightarrow> ?thesis" by (simp add: remove_item_def)
next
  case (Some L)
  then show "wf_lists K \<Longrightarrow> ?thesis"
    by (auto simp: wf_lists_def klists_simps seq_remove entries_take_out distinct_remove1)
qed

lemma wf_set_value [simp]: "wf_lists (set_value i v K) = wf_lists K"
  by (simp add: wf_lists_def klists_simps)

lemma entries_turn: "turn m = Some (i, m') \<Longrightarrow> entries m' = entries m"
  by (auto simp: turn_def entries_def split: prod.splits list.splits)

lemma turn_in: "turn m = Some (i, m') \<Longrightarrow> i \<in> set (entries m)"
  by (auto simp: turn_def entries_def split: prod.splits list.splits)

lemma turn_exists: "entries m \<noteq> [] \<Longrightarrow> \<exists>i m'. turn m = Some (i, m')"
  by (auto simp: turn_def entries_def split: prod.splits list.splits)

lemma wf_turn: "wf_lists K \<Longrightarrow> entries m = entries (seq K L) \<Longrightarrow> wf_lists (on_list L (\<lambda>_. m) K)"
  by (auto simp: wf_lists_def klists_simps)

lemmas wf_intros = wf_insert_end wf_insert_sorted wf_remove_item

lemma entries_remove_item:
  "wf_lists K \<Longrightarrow> entries (seq (remove_item i K) L) = remove1 i (entries (seq K L))"
proof (cases "home K i")
  case None
  then show "wf_lists K \<Longrightarrow> ?thesis" using wf_listsD(1) [of K i L] by (simp add: remove_item_def remove1_idem)
next
  case (Some M)
  then show "wf_lists K \<Longrightarrow> ?thesis" using wf_listsD(1) [of K i L] wf_listsD(2) [of K L]
    by (auto simp: seq_remove entries_take_out remove1_idem)
qed

end
