(* ===== verification/KSchedInv.thy ===== *)
theory KSchedInv imports KTasks KListFacts begin

text \<open>
  What holds of the scheduler between its calls: the lists and the control blocks agree, the bitmap
  says which ready lists have entries, the delayed tasks are in the order of their times and none
  of them is late. Then the moves that the calls consist of.
\<close>

section \<open>Invariants\<close>

abbreviation place :: "'z sched_scheme \<Rightarrow> task_item \<Rightarrow> task_list option" where
  "place S i \<equiv> home (lists S) i"

abbreviation wake_time :: "'z sched_scheme \<Rightarrow> task \<Rightarrow> nat" where
  "wake_time S t \<equiv> val (lists S) (StateItem t)"

definition delayed_lists :: "task_list set" where
  "delayed_lists = {DelayedTaskList1, DelayedTaskList2}"

fun is_event_list :: "task_list \<Rightarrow> bool" where
  "is_event_list (TasksWaitingToSend q) \<longleftrightarrow> True"
| "is_event_list (TasksWaitingToReceive q) \<longleftrightarrow> True"
| "is_event_list _ \<longleftrightarrow> False"

definition blocked :: "'z sched_scheme \<Rightarrow> task \<Rightarrow> bool" where
  "blocked S t \<longleftrightarrow> place S (StateItem t) \<in> {Some DelayedTaskList1, Some DelayedTaskList2, Some SuspendedTaskList}"

definition lists_ok :: "'z sched_scheme \<Rightarrow> bool" where
  "lists_ok S \<longleftrightarrow>
     wf_lists (lists S) \<and>
     (\<forall>t p. place S (StateItem t) = Some (Ready p) \<longrightarrow> p = uxPriority S t) \<and>
     (\<forall>t. uxPriority S t < configMAX_PRIORITIES) \<and>
     (\<forall>t L. place S (StateItem t) = Some L \<longrightarrow> \<not> is_event_list L \<and> L \<noteq> PendingReadyList) \<and>
     (\<forall>t L. place S (EventItem t) = Some L \<longrightarrow> (is_event_list L \<or> L = PendingReadyList) \<and> blocked S t)"

definition bitmap_ok :: "'z sched_scheme \<Rightarrow> bool" where
  "bitmap_ok S \<longleftrightarrow> (\<forall>p<32. bit (uxTopReadyPriority S) p \<longleftrightarrow> (\<exists>t. place S (StateItem t) = Some (Ready p)))"

definition delay_pointers :: "'z sched_scheme \<Rightarrow> bool" where
  "delay_pointers S \<longleftrightarrow>
     (pxDelayedTaskList S = DelayedTaskList1 \<and> pxOverflowDelayedTaskList S = DelayedTaskList2) \<or>
     (pxDelayedTaskList S = DelayedTaskList2 \<and> pxOverflowDelayedTaskList S = DelayedTaskList1)"

definition in_order :: "'z sched_scheme \<Rightarrow> task_list \<Rightarrow> bool" where
  "in_order S L \<longleftrightarrow> sorted (map (val (lists S)) (list_of S L))"

definition time_ok :: "'z sched_scheme \<Rightarrow> bool" where
  "time_ok S \<longleftrightarrow>
     delay_pointers S \<and> xTickCount S < 4294967296 \<and>
     in_order S (pxDelayedTaskList S) \<and> in_order S (pxOverflowDelayedTaskList S) \<and>
     (\<forall>t. wake_time S t \<le> portMAX_DELAY) \<and>
     (\<forall>t. place S (StateItem t) = Some (pxDelayedTaskList S) \<longrightarrow>
        xTickCount S < wake_time S t \<and> xNextTaskUnblockTime S \<le> wake_time S t) \<and>
     (\<forall>t. place S (StateItem t) = Some (pxOverflowDelayedTaskList S) \<longrightarrow> wake_time S t < xTickCount S)"

definition is_ready :: "'z sched_scheme \<Rightarrow> task \<Rightarrow> bool" where
  "is_ready S t \<longleftrightarrow> place S (StateItem t) = Some (Ready (uxPriority S t))"

text \<open>The idle task is always ready.\<close>

definition core_ok :: "task \<Rightarrow> 'z sched_scheme \<Rightarrow> bool" where
  "core_ok idle S \<longleftrightarrow> lists_ok S \<and> bitmap_ok S \<and> time_ok S \<and> is_ready S idle \<and> xSchedulerRunning S \<and>
     0 < uxCurrentNumberOfTasks S"

text \<open>No ready task has a higher priority than the current one.\<close>

definition on_top :: "'z sched_scheme \<Rightarrow> bool" where
  "on_top S \<longleftrightarrow> (\<forall>t. is_ready S t \<longrightarrow> uxPriority S t \<le> uxPriority S (pxCurrentTCB S))"

text \<open>A switch is asked for when one is due; held back while the scheduler is suspended.\<close>

definition switch_ok :: "'z sched_scheme \<Rightarrow> bool" where
  "switch_ok S \<longleftrightarrow>
     (\<not> pendsv S \<and> \<not> xYieldPending S \<longrightarrow> on_top S) \<and>
     (uxSchedulerSuspended S = 0 \<longrightarrow> (xYieldPending S \<longrightarrow> pendsv S) \<and> (\<forall>t. place S (EventItem t) \<noteq> Some PendingReadyList))"

definition sched_ok :: "task \<Rightarrow> 'z sched_scheme \<Rightarrow> bool" where
  "sched_ok idle S \<longleftrightarrow> core_ok idle S \<and> switch_ok S \<and>
     (uxSchedulerSuspended S \<noteq> 0 \<or> \<not> pendsv S \<longrightarrow> is_ready S (pxCurrentTCB S))"

section \<open>Consequences\<close>

lemma lists_okD:
  assumes "lists_ok S"
  shows "wf_lists (lists S)" "place S (StateItem t) = Some (Ready p) \<Longrightarrow> p = uxPriority S t"
    "uxPriority S t < configMAX_PRIORITIES"
    "place S (StateItem t) = Some L \<Longrightarrow> \<not> is_event_list L \<and> L \<noteq> PendingReadyList"
    "place S (EventItem t) = Some L \<Longrightarrow> (is_event_list L \<or> L = PendingReadyList) \<and> blocked S t"
  using assms by (auto simp: lists_ok_def)

lemma event_item_only:
  assumes "lists_ok S" "is_event_list L \<or> L = PendingReadyList" "i \<in> set (list_of S L)"
  shows "\<exists>t. i = EventItem t"
  using lists_okD(4) [OF assms(1)] assms(2,3) wf_listsD(1) [OF lists_okD(1) [OF assms(1)], of i L]
  by (cases i) auto

lemma state_item_only:
  assumes "lists_ok S" "\<not> is_event_list L" "L \<noteq> PendingReadyList" "i \<in> set (list_of S L)"
  shows "\<exists>t. i = StateItem t"
  using lists_okD(5) [OF assms(1)] assms(2-) wf_listsD(1) [OF lists_okD(1) [OF assms(1)], of i L]
  by (cases i) auto

lemma delay_pointersD:
  assumes "delay_pointers S"
  shows "pxDelayedTaskList S \<in> delayed_lists" "pxOverflowDelayedTaskList S \<in> delayed_lists"
    "pxDelayedTaskList S \<noteq> pxOverflowDelayedTaskList S"
    "L \<in> delayed_lists \<Longrightarrow> L = pxDelayedTaskList S \<or> L = pxOverflowDelayedTaskList S"
    "\<not> is_event_list (pxDelayedTaskList S)" "pxDelayedTaskList S \<noteq> PendingReadyList"
    "pxDelayedTaskList S \<noteq> Ready p" "pxOverflowDelayedTaskList S \<noteq> Ready p"
    "pxDelayedTaskList S \<noteq> SuspendedTaskList" "pxOverflowDelayedTaskList S \<noteq> SuspendedTaskList"
    "Ready p \<noteq> pxDelayedTaskList S" "Ready p \<noteq> pxOverflowDelayedTaskList S"
  using assms by (auto simp: delay_pointers_def delayed_lists_def)

section \<open>The highest bit\<close>

lemma takeWhile_upt_hit:
  "P n \<Longrightarrow> n < m \<Longrightarrow> (\<And>k. k < n \<Longrightarrow> \<not> P k) \<Longrightarrow> length (takeWhile (\<lambda>k. \<not> P k) [0..<m]) = n"
proof -
  assume a: "P n" "n < m" "\<And>k. k < n \<Longrightarrow> \<not> P k"
  have "[0..<m] = [0..<n] @ n # [Suc n..<m]" using a(2) upt_add_eq_append [of 0 n "m - n"] by (simp add: upt_conv_Cons)
  moreover have "takeWhile (\<lambda>k. \<not> P k) ([0..<n] @ n # [Suc n..<m]) = [0..<n]"
    using a(1,3) by (subst takeWhile_append2) auto
  ultimately show ?thesis by simp
qed

lemma highest_priority:
  assumes "bit (w :: 32 word) p" "\<And>q. bit w q \<Longrightarrow> q \<le> p"
  shows "portGET_HIGHEST_PRIORITY w = p"
proof -
  have p: "p < 32" using assms(1) bit_imp_le_length by fastforce
  have "ucPortCountLeadingZeros w = 31 - p" unfolding ucPortCountLeadingZeros_def
  proof (rule takeWhile_upt_hit)
    show "bit w (31 - (31 - p))" using assms(1) p by simp
    show "\<not> bit w (31 - k)" if "k < 31 - p" for k using assms(2) [of "31 - k"] that by auto
  qed simp
  then show ?thesis using p by (simp add: portGET_HIGHEST_PRIORITY_def)
qed

lemma bit_record: "bit ((w :: 32 word) OR 2 ^ p) q \<longleftrightarrow> bit w q \<or> (q = p \<and> q < 32)"
  by (auto simp: bit_simps)

lemma bit_reset: "bit ((w :: 32 word) AND NOT (2 ^ p)) q \<longleftrightarrow> bit w q \<and> q \<noteq> p"
  using bit_imp_le_length [of w q] by (auto simp: bit_simps)

section \<open>Making a task ready\<close>

lemma remove_item_commute:
  assumes "i \<noteq> j"
  shows "remove_item i (remove_item j K) = remove_item j (remove_item i K)"
proof (cases "home K i"; cases "home K j")
  fix L M assume "home K i = Some L" "home K j = Some M"
  then show ?thesis using assms
    by (cases "L = M") (auto simp: remove_item_def on_list_def take_out_def fun_upd_twist remove1_commute split: prod.splits)
qed (use assms in \<open>auto simp: remove_item_def on_list_def\<close>)

definition make_ready :: "task \<Rightarrow> 'z sched_scheme \<Rightarrow> 'z sched_scheme" where
  "make_ready t S = prvAddTaskToReadyList t (in_lists (\<lambda>K. remove_item (EventItem t) (remove_item (StateItem t) K)) S)"

lemma remove_absent: "home K i = None \<Longrightarrow> remove_item i K = K"
  by (simp add: remove_item_def)

lemma in_lists_sel [simp]:
  "lists (in_lists f S) = f (lists S)" "uxPriority (in_lists f S) = uxPriority S"
  "uxBasePriority (in_lists f S) = uxBasePriority S" "uxMutexesHeld (in_lists f S) = uxMutexesHeld S"
  "pxCurrentTCB (in_lists f S) = pxCurrentTCB S" "pxDelayedTaskList (in_lists f S) = pxDelayedTaskList S"
  "pxOverflowDelayedTaskList (in_lists f S) = pxOverflowDelayedTaskList S"
  "uxCurrentNumberOfTasks (in_lists f S) = uxCurrentNumberOfTasks S" "xTickCount (in_lists f S) = xTickCount S"
  "uxTopReadyPriority (in_lists f S) = uxTopReadyPriority S" "xSchedulerRunning (in_lists f S) = xSchedulerRunning S"
  "uxPendedTicks (in_lists f S) = uxPendedTicks S" "xYieldPending (in_lists f S) = xYieldPending S"
  "xNumOfOverflows (in_lists f S) = xNumOfOverflows S" "xNextTaskUnblockTime (in_lists f S) = xNextTaskUnblockTime S"
  "uxSchedulerSuspended (in_lists f S) = uxSchedulerSuspended S"
  "uxDeletedTasksWaitingCleanUp (in_lists f S) = uxDeletedTasksWaitingCleanUp S" "pendsv (in_lists f S) = pendsv S"
  by (simp_all add: in_lists_def)

lemma in_lists_in_lists: "in_lists f (in_lists g S) = in_lists (\<lambda>K. f (g K)) S"
  by (simp add: in_lists_def)

lemma leave_events_eq: "leave_events t S = in_lists (remove_item (EventItem t)) S"
  by (simp add: leave_events_def remove_absent in_lists_def)

lemma take_off_eq:
  "place S i = Some L \<Longrightarrow>
    take_off i S = Some (list_of (in_lists (remove_item i) S) L = [], in_lists (remove_item i) S)"
  by (simp add: take_off_def)

text \<open>The fields that scheduling moves do not touch.\<close>

definition same_but_lists :: "'z sched_scheme \<Rightarrow> 'z sched_scheme \<Rightarrow> bool" where
  "same_but_lists S S' \<longleftrightarrow>
     (\<exists>K w n. S' = S\<lparr>lists := K, uxTopReadyPriority := w, xNextTaskUnblockTime := n\<rparr>)"

lemma same_but_listsD:
  assumes "same_but_lists S S'"
  shows "uxPriority S' = uxPriority S" "uxBasePriority S' = uxBasePriority S" "uxMutexesHeld S' = uxMutexesHeld S"
    "pxCurrentTCB S' = pxCurrentTCB S" "pxDelayedTaskList S' = pxDelayedTaskList S"
    "pxOverflowDelayedTaskList S' = pxOverflowDelayedTaskList S" "uxCurrentNumberOfTasks S' = uxCurrentNumberOfTasks S"
    "xTickCount S' = xTickCount S" "xSchedulerRunning S' = xSchedulerRunning S" "uxPendedTicks S' = uxPendedTicks S"
    "xYieldPending S' = xYieldPending S" "xNumOfOverflows S' = xNumOfOverflows S"
    "uxSchedulerSuspended S' = uxSchedulerSuspended S" "pendsv S' = pendsv S"
  using assms by (auto simp: same_but_lists_def)

lemma same_but_lists_refl [simp]: "same_but_lists S S"
  unfolding same_but_lists_def by (metis sched.surjective sched.update_convs(1,10,15))

lemma same_but_lists_trans: "same_but_lists S S' \<Longrightarrow> same_but_lists S' S'' \<Longrightarrow> same_but_lists S S''"
  unfolding same_but_lists_def by (elim exE) (simp, blast)

lemma same_but_lists_intros:
  "same_but_lists S (in_lists f S)" "same_but_lists S (portRECORD_READY_PRIORITY p S)"
  "same_but_lists S (portRESET_READY_PRIORITY p S)" "same_but_lists S (S\<lparr>xNextTaskUnblockTime := n\<rparr>)"
proof -
  show "same_but_lists S (in_lists f S)" unfolding same_but_lists_def in_lists_def
    by (intro exI [of _ "f (lists S)"] exI [of _ "uxTopReadyPriority S"] exI [of _ "xNextTaskUnblockTime S"]) (cases S, simp)
  show "same_but_lists S (portRECORD_READY_PRIORITY p S)" unfolding same_but_lists_def portRECORD_READY_PRIORITY_def
    by (intro exI [of _ "lists S"] exI [of _ "uxTopReadyPriority S OR push_bit p 1"] exI [of _ "xNextTaskUnblockTime S"])
       (cases S, simp)
  show "same_but_lists S (portRESET_READY_PRIORITY p S)" unfolding same_but_lists_def portRESET_READY_PRIORITY_def
    by (intro exI [of _ "lists S"] exI [of _ "uxTopReadyPriority S AND NOT (push_bit p 1)"] exI [of _ "xNextTaskUnblockTime S"])
       (cases S, simp)
  show "same_but_lists S (S\<lparr>xNextTaskUnblockTime := n\<rparr>)" unfolding same_but_lists_def
    by (intro exI [of _ "lists S"] exI [of _ "uxTopReadyPriority S"] exI [of _ n]) (cases S, simp)
qed

end
