(* ===== verification/KSchedMoves.thy ===== *)
theory KSchedMoves imports KSchedInv begin

text \<open>
  The moves the calls are made of: a task becomes ready, the tasks that are due become ready, and
  the tick.
\<close>

section \<open>Becoming ready\<close>

lemma add_ready_sel [simp]:
  "lists (prvAddTaskToReadyList t S) = insert_end (Ready (uxPriority S t)) (StateItem t) (lists S)"
  "uxTopReadyPriority (prvAddTaskToReadyList t S) = uxTopReadyPriority S OR 2 ^ uxPriority S t"
  "xNextTaskUnblockTime (prvAddTaskToReadyList t S) = xNextTaskUnblockTime S"
  by (simp_all add: prvAddTaskToReadyList_def portRECORD_READY_PRIORITY_def)

lemma add_ready_same: "same_but_lists S (prvAddTaskToReadyList t S)"
  unfolding prvAddTaskToReadyList_def by (rule same_but_lists_trans [OF same_but_lists_intros(2,1)])

lemma make_ready_same: "same_but_lists S (make_ready t S)"
  unfolding make_ready_def by (rule same_but_lists_trans [OF same_but_lists_intros(1) add_ready_same])

lemma make_ready_sel [simp]:
  "uxPriority (make_ready t S) = uxPriority S" "pxCurrentTCB (make_ready t S) = pxCurrentTCB S"
  "pxDelayedTaskList (make_ready t S) = pxDelayedTaskList S"
  "pxOverflowDelayedTaskList (make_ready t S) = pxOverflowDelayedTaskList S"
  "xTickCount (make_ready t S) = xTickCount S" "xNextTaskUnblockTime (make_ready t S) = xNextTaskUnblockTime S"
  "uxSchedulerSuspended (make_ready t S) = uxSchedulerSuspended S"
  "val (lists (make_ready t S)) = val (lists S)"
  using same_but_listsD [OF make_ready_same [of S t]] by (simp_all add: make_ready_def klists_simps)

lemma make_ready_place:
  "place (make_ready t S) i =
     (if i = StateItem t then Some (Ready (uxPriority S t)) else if i = EventItem t then None else place S i)"
  by (simp add: make_ready_def klists_simps)

lemma make_ready_list:
  assumes "wf_lists (lists S)" "L \<noteq> Ready (uxPriority S t)"
  shows "list_of (make_ready t S) L = remove1 (EventItem t) (remove1 (StateItem t) (list_of S L))"
  using assms by (simp add: make_ready_def klists_simps entries_remove_item wf_remove_item)

lemma make_ready_ok:
  assumes l: "lists_ok S" and b: "bitmap_ok S" and t: "\<And>p. place S (StateItem t) \<noteq> Some (Ready p)"
  shows "lists_ok (make_ready t S)" "bitmap_ok (make_ready t S)"
proof -
  have "wf_lists (lists (make_ready t S))"
    unfolding make_ready_def using lists_okD(1) [OF l] by (simp add: wf_intros klists_simps)
  then show "lists_ok (make_ready t S)"
    using lists_okD(2-) [OF l] by (auto simp: lists_ok_def make_ready_place blocked_def split: if_splits)
  have p: "uxPriority S t < 32" using lists_okD(3) [OF l, of t] by (simp add: configMAX_PRIORITIES_def)
  show "bitmap_ok (make_ready t S)" unfolding bitmap_ok_def
  proof (intro allI impI)
    fix p :: nat assume p32: "p < 32"
    have "bit (uxTopReadyPriority (make_ready t S)) p \<longleftrightarrow> bit (uxTopReadyPriority S) p \<or> p = uxPriority S t"
      using p p32 unfolding make_ready_def by (auto simp: bit_record)
    moreover have "(\<exists>u. place (make_ready t S) (StateItem u) = Some (Ready p)) \<longleftrightarrow>
        (\<exists>u. place S (StateItem u) = Some (Ready p)) \<or> p = uxPriority S t"
      using t [of p] by (auto simp: make_ready_place)
    ultimately show "bit (uxTopReadyPriority (make_ready t S)) p \<longleftrightarrow>
        (\<exists>u. place (make_ready t S) (StateItem u) = Some (Ready p))"
      using b p32 by (simp add: bitmap_ok_def)
  qed
qed

text \<open>The four ways the code takes to it.\<close>

lemma ready_from_both:
  assumes "place S (StateItem t) = Some L"
  shows "do { (_, S) \<leftarrow> take_off (StateItem t) S; Some (prvAddTaskToReadyList t (leave_events t S)) } = Some (make_ready t S)"
  using assms by (simp add: take_off_eq leave_events_eq in_lists_in_lists make_ready_def)

lemma make_ready_alt:
  "prvAddTaskToReadyList t (in_lists (\<lambda>K. remove_item (StateItem t) (remove_item (EventItem t) K)) S) = make_ready t S"
  by (simp add: make_ready_def remove_item_commute [of "StateItem t" "EventItem t"])

lemma ready_from_event:
  assumes "place S (EventItem t) = Some M" "place S (StateItem t) = Some L"
  shows "do { (_, S) \<leftarrow> take_off (EventItem t) S; (_, S) \<leftarrow> take_off (StateItem t) S; Some (prvAddTaskToReadyList t S) } =
    Some (make_ready t S)"
proof -
  have "place (in_lists (remove_item (EventItem t)) S) (StateItem t) = Some L" using assms(2) by (simp add: klists_simps)
  then show ?thesis using assms
    by (simp add: take_off_eq in_lists_in_lists make_ready_def remove_item_commute [of "StateItem t" "EventItem t"])
qed

lemma ready_from_state:
  assumes "place S (EventItem t) = None" "place S (StateItem t) = Some L"
  shows "do { (_, S) \<leftarrow> take_off (StateItem t) S; Some (prvAddTaskToReadyList t S) } = Some (make_ready t S)"
proof -
  have "remove_item (EventItem t) (remove_item (StateItem t) (lists S)) = remove_item (StateItem t) (lists S)"
    using assms(1) by (simp add: remove_absent klists_simps)
  then show ?thesis using assms(2) by (simp add: take_off_eq make_ready_def in_lists_def)
qed

section \<open>The tasks that are due\<close>

definition due :: "'z sched_scheme \<Rightarrow> task \<Rightarrow> bool" where
  "due S t \<longleftrightarrow> place S (StateItem t) = Some (pxDelayedTaskList S) \<and> wake_time S t \<le> xTickCount S"

lemma delayed_list_items:
  assumes l: "lists_ok S" and d: "delay_pointers S" and i: "i \<in> set (list_of S (pxDelayedTaskList S))"
  obtains t where "i = StateItem t" "place S (StateItem t) = Some (pxDelayedTaskList S)"
proof -
  obtain t where t: "i = StateItem t" using state_item_only [OF l delay_pointersD(5,6) [OF d] i] by blast
  then show ?thesis using that wf_listsD(1) [OF lists_okD(1) [OF l]] i by blast
qed

text \<open>What is true afterwards.\<close>

definition woken :: "'z sched_scheme \<Rightarrow> bool \<Rightarrow> bool \<Rightarrow> 'z sched_scheme \<Rightarrow> bool" where
  "woken S sw sw' S' \<longleftrightarrow> lists_ok S' \<and> bitmap_ok S' \<and> same_but_lists S S' \<and> val (lists S') = val (lists S) \<and>
    (\<forall>t. place S' (StateItem t) = (if due S t then Some (Ready (uxPriority S t)) else place S (StateItem t))) \<and>
    (\<forall>t. place S' (EventItem t) = (if due S t then None else place S (EventItem t))) \<and>
    (\<forall>L. \<not> is_event_list L \<longrightarrow> L \<noteq> PendingReadyList \<longrightarrow> L \<noteq> pxDelayedTaskList S \<longrightarrow> (\<forall>p. L \<noteq> Ready p) \<longrightarrow>
       list_of S' L = list_of S L) \<and>
    in_order S' (pxDelayedTaskList S) \<and>
    (\<forall>t. place S' (StateItem t) = Some (pxDelayedTaskList S) \<longrightarrow>
       xTickCount S < wake_time S t \<and> xNextTaskUnblockTime S' \<le> wake_time S t) \<and>
    (sw' \<longleftrightarrow> sw \<or> (\<exists>t. due S t \<and> uxPriority S (pxCurrentTCB S) \<le> uxPriority S t))"

lemma wokenD:
  assumes "woken S sw sw' S'"
  shows "lists_ok S'" "bitmap_ok S'" "same_but_lists S S'" "val (lists S') = val (lists S)"
    "place S' (StateItem t) = (if due S t then Some (Ready (uxPriority S t)) else place S (StateItem t))"
    "place S' (EventItem t) = (if due S t then None else place S (EventItem t))"
    "\<not> is_event_list L \<Longrightarrow> L \<noteq> PendingReadyList \<Longrightarrow> L \<noteq> pxDelayedTaskList S \<Longrightarrow> (\<And>p. L \<noteq> Ready p) \<Longrightarrow>
      list_of S' L = list_of S L"
    "in_order S' (pxDelayedTaskList S)"
    "place S' (StateItem t) = Some (pxDelayedTaskList S) \<Longrightarrow> xTickCount S < wake_time S t"
    "place S' (StateItem t) = Some (pxDelayedTaskList S) \<Longrightarrow> xNextTaskUnblockTime S' \<le> wake_time S t"
    "sw' \<longleftrightarrow> sw \<or> (\<exists>t. due S t \<and> uxPriority S (pxCurrentTCB S) \<le> uxPriority S t)"
  using assms by (auto simp: woken_def)

lemma wake_due_ok:
  assumes "lists_ok S" "bitmap_ok S" "delay_pointers S" "in_order S (pxDelayedTaskList S)"
    "\<And>t. wake_time S t \<le> portMAX_DELAY"
  shows "\<exists>sw' S'. wake_due S sw = Some (sw', S') \<and> woken S sw sw' S'"
  using assms
proof (induction "length (list_of S (pxDelayedTaskList S))" arbitrary: S sw)
  case 0
  then have none: "place S (StateItem t) \<noteq> Some (pxDelayedTaskList S)" for t
    using wf_listsD(1) [OF lists_okD(1) [OF 0(2)], of "StateItem t" "pxDelayedTaskList S"] by auto
  have "wake_due S sw = Some (sw, S\<lparr>xNextTaskUnblockTime := portMAX_DELAY\<rparr>)"
    using 0(1) by (subst wake_due.simps) simp
  then show ?case using 0 none
    by (auto simp: woken_def due_def lists_ok_def bitmap_ok_def blocked_def in_order_def same_but_lists_intros)
next
  case (Suc n)
  let ?D = "pxDelayedTaskList S"
  note l = Suc.prems(1) and b = Suc.prems(2) and d = Suc.prems(3) and o = Suc.prems(4)
  note wf = lists_okD(1) [OF l]
  obtain i js where js: "list_of S ?D = i # js" using Suc(2) by (cases "list_of S ?D") auto
  obtain t where t: "i = StateItem t" "place S (StateItem t) = Some ?D"
    using delayed_list_items [OF l d, of i] js by auto
  have first: "wake_time S t \<le> wake_time S u" if "place S (StateItem u) = Some ?D" for u
    using that wf_listsD(1) [OF wf, of "StateItem u" ?D] js o t(1) by (auto simp: in_order_def)
  show ?case
  proof (cases "xTickCount S < wake_time S t")
    case True
    then have w: "wake_due S sw = Some (sw, S\<lparr>xNextTaskUnblockTime := wake_time S t\<rparr>)"
      using js t(1) by (subst wake_due.simps) (simp add: Let_def)
    have late: "place S (StateItem u) = Some ?D \<Longrightarrow> xTickCount S < wake_time S u" for u
      using first [of u] True by simp
    then have "\<not> due S u" for u by (force simp: due_def dest: leD)
    then show ?thesis using w l b o late first
      by (auto simp: woken_def lists_ok_def bitmap_ok_def blocked_def in_order_def same_but_lists_intros)
  next
    case False
    let ?S = "make_ready t S"
    have w: "wake_due S sw = wake_due ?S (sw \<or> uxPriority S (pxCurrentTCB S) \<le> uxPriority S t)"
      using js t False ready_from_both [OF t(2)]
      by (subst wake_due.simps) (auto simp: Let_def bind_eq_Some_conv split: prod.splits)
    have nr: "place S (StateItem t) \<noteq> Some (Ready p)" for p using t(2) delay_pointersD(7) [OF d] by simp
    have nr': "pxDelayedTaskList S \<noteq> Ready p" for p by (rule delay_pointersD(7) [OF d])
    have rem: "list_of ?S ?D = js"
    proof -
      have "EventItem t \<notin> set js"
        using state_item_only [OF l delay_pointersD(5,6) [OF d], of "EventItem t"] js by auto
      then show ?thesis using make_ready_list [OF wf nr', of t] js t(1) by (simp add: remove1_idem)
    qed
    have D: "due S u \<longleftrightarrow> u = t \<or> due ?S u" for u
      using False t(2) by (auto simp: due_def make_ready_place)
    have "\<not> due ?S t" by (simp add: due_def make_ready_place not_sym [OF nr'])
    have pend: "delay_pointers ?S" using d by (simp add: delay_pointers_def)
    have ord: "in_order ?S (pxDelayedTaskList ?S)" using o js rem by (simp add: in_order_def)
    have len: "n = length (list_of ?S (pxDelayedTaskList ?S))" using Suc(2) js rem by simp
    note ok = make_ready_ok [OF l b nr]
    from Suc(1) [OF len ok pend ord] Suc.prems(5) obtain sw' S' where
      r: "wake_due ?S (sw \<or> uxPriority S (pxCurrentTCB S) \<le> uxPriority S t) = Some (sw', S')"
      "woken ?S (sw \<or> uxPriority S (pxCurrentTCB S) \<le> uxPriority S t) sw' S'"
      by (metis make_ready_sel(8))
    note k = wokenD [OF r(2)]
    have keep: "list_of ?S L = list_of S L"
      if "\<not> is_event_list L" "L \<noteq> PendingReadyList" "L \<noteq> ?D" "\<forall>p. L \<noteq> Ready p" for L
    proof -
      have "StateItem t \<notin> set (list_of S L)" using wf_listsD(1) [OF wf, of "StateItem t" L] t(2) that(3) by auto
      moreover have "EventItem t \<notin> set (list_of S L)" using state_item_only [OF l that(1,2)] by blast
      ultimately show ?thesis using that(4) by (simp add: make_ready_list [OF wf] remove1_idem)
    qed
    have "woken S sw sw' S'" unfolding woken_def
    proof (intro conjI allI impI)
      show "same_but_lists S S'" by (rule same_but_lists_trans [OF make_ready_same k(3)])
      show "sw' \<longleftrightarrow> sw \<or> (\<exists>u. due S u \<and> uxPriority S (pxCurrentTCB S) \<le> uxPriority S u)"
        using k(11) D by auto
      show "place S' (StateItem u) = (if due S u then Some (Ready (uxPriority S u)) else place S (StateItem u))" for u
        using k(5) [of u] D by (simp add: make_ready_place)
      show "place S' (EventItem u) = (if due S u then None else place S (EventItem u))" for u
        using k(6) [of u] D by (auto simp: make_ready_place)
    next
      fix L assume "\<not> is_event_list L" "L \<noteq> PendingReadyList" "L \<noteq> ?D" "\<forall>p. L \<noteq> Ready p"
      then show "list_of S' L = list_of S L" using k(7) [of L] keep [of L] by simp
    qed (use k(1,2,4,8-10) in simp_all)
    then show ?thesis using w r(1) by auto
  qed
qed

section \<open>The tick\<close>

text \<open>
  The tick: the time goes on by one, and the tasks whose time it is become ready. The lists of the
  delayed tasks change places when the count wraps round.
\<close>

text \<open>The fields that a tick does not touch.\<close>

definition same_but_time :: "'z sched_scheme \<Rightarrow> 'z sched_scheme \<Rightarrow> bool" where
  "same_but_time S S' \<longleftrightarrow>
     (\<exists>K w n t d o' x. S' = S\<lparr>lists := K, uxTopReadyPriority := w, xNextTaskUnblockTime := n, xTickCount := t,
        pxDelayedTaskList := d, pxOverflowDelayedTaskList := o', xNumOfOverflows := x\<rparr>)"

lemma same_but_timeD:
  assumes "same_but_time S S'"
  shows "uxPriority S' = uxPriority S" "uxBasePriority S' = uxBasePriority S" "uxMutexesHeld S' = uxMutexesHeld S"
    "pxCurrentTCB S' = pxCurrentTCB S" "uxCurrentNumberOfTasks S' = uxCurrentNumberOfTasks S"
    "xSchedulerRunning S' = xSchedulerRunning S" "uxPendedTicks S' = uxPendedTicks S"
    "xYieldPending S' = xYieldPending S" "uxSchedulerSuspended S' = uxSchedulerSuspended S" "pendsv S' = pendsv S"
  using assms by (auto simp: same_but_time_def)

lemma same_but_time_refl [simp]: "same_but_time S S"
  unfolding same_but_time_def
  by (intro exI [of _ "lists S"] exI [of _ "uxTopReadyPriority S"] exI [of _ "xNextTaskUnblockTime S"] exI [of _ "xTickCount S"]
      exI [of _ "pxDelayedTaskList S"] exI [of _ "pxOverflowDelayedTaskList S"] exI [of _ "xNumOfOverflows S"]) (cases S, simp)

lemma same_but_time_trans: "same_but_time S S' \<Longrightarrow> same_but_time S' S'' \<Longrightarrow> same_but_time S S''"
  unfolding same_but_time_def by (elim exE) (simp, blast)

lemma same_but_time_lists: "same_but_lists S S' \<Longrightarrow> same_but_time S S'"
  unfolding same_but_lists_def same_but_time_def
proof (elim exE)
  fix K w n assume "S' = S\<lparr>lists := K, uxTopReadyPriority := w, xNextTaskUnblockTime := n\<rparr>"
  then show "\<exists>K w n t d o' x. S' = S\<lparr>lists := K, uxTopReadyPriority := w, xNextTaskUnblockTime := n, xTickCount := t,
        pxDelayedTaskList := d, pxOverflowDelayedTaskList := o', xNumOfOverflows := x\<rparr>"
    by (intro exI [of _ K] exI [of _ w] exI [of _ n] exI [of _ "xTickCount S"]
      exI [of _ "pxDelayedTaskList S"] exI [of _ "pxOverflowDelayedTaskList S"] exI [of _ "xNumOfOverflows S"]) (cases S, simp)
qed

section \<open>The task's time\<close>

text \<open>It is in the list that is looked at when the count gets to its time.\<close>

definition next_due :: "'z sched_scheme \<Rightarrow> task \<Rightarrow> bool" where
  "next_due S t \<longleftrightarrow> wake_time S t = inc32 (xTickCount S) \<and>
     place S (StateItem t) = Some (if inc32 (xTickCount S) = 0 then pxOverflowDelayedTaskList S else pxDelayedTaskList S)"

text \<open>The state in which the loop starts.\<close>

definition turned :: "'z sched_scheme \<Rightarrow> 'z sched_scheme option" where
  "turned S = (let S = S\<lparr>xTickCount := inc32 (xTickCount S)\<rparr>
     in if xTickCount S = 0 then taskSWITCH_DELAYED_LISTS S else Some S)"

lemma in_order_head:
  assumes "lists_ok S" "in_order S L" "place S (StateItem t) = Some L" "L \<in> delayed_lists"
  obtains u js where "list_of S L = StateItem u # js" "wake_time S u \<le> wake_time S t"
proof -
  have t: "StateItem t \<in> set (list_of S L)" using wf_listsD(1) [OF lists_okD(1) [OF assms(1)]] assms(3) by blast
  then obtain i js where ij: "list_of S L = i # js" by (cases "list_of S L") auto
  have "\<not> is_event_list L" "L \<noteq> PendingReadyList" using assms(4) by (auto simp: delayed_lists_def)
  from state_item_only [OF assms(1) this] ij obtain u where "i = StateItem u" by auto
  moreover have "val (lists S) i \<le> wake_time S t" using assms(2) ij t by (auto simp: in_order_def)
  ultimately show ?thesis using that ij by blast
qed

lemma turned_ok:
  assumes c: "core_ok idle S"
  shows "\<exists>S1. turned S = Some S1 \<and> same_but_time S S1 \<and> lists S1 = lists S \<and> uxTopReadyPriority S1 = uxTopReadyPriority S \<and>
    xTickCount S1 = inc32 (xTickCount S) \<and> delay_pointers S1 \<and>
    in_order S1 (pxDelayedTaskList S1) \<and> in_order S1 (pxOverflowDelayedTaskList S1) \<and>
    (\<forall>t. due S1 t \<longleftrightarrow> next_due S t) \<and>
    (\<forall>t. place S (StateItem t) = Some (pxDelayedTaskList S1) \<longrightarrow> xNextTaskUnblockTime S1 \<le> wake_time S t) \<and>
    (\<forall>t. place S (StateItem t) = Some (pxOverflowDelayedTaskList S1) \<longrightarrow> wake_time S t < xTickCount S1) \<and>
    xNumOfOverflows S1 = (if inc32 (xTickCount S) = 0 then i32 (xNumOfOverflows S + 1) else xNumOfOverflows S)"
proof -
  have l: "lists_ok S" and t: "time_ok S" using c by (auto simp: core_ok_def)
  have d: "delay_pointers S" using t by (simp add: time_ok_def)
  have late: "place S (StateItem u) = Some (pxDelayedTaskList S) \<Longrightarrow> xTickCount S < wake_time S u" for u
    using t by (simp add: time_ok_def)
  have max: "wake_time S u \<le> 4294967295" for u using t by (simp add: time_ok_def portMAX_DELAY_def)
  have tick: "xTickCount S < 4294967296" using t by (simp add: time_ok_def)
  show ?thesis
  proof (cases "inc32 (xTickCount S) = 0")
    case False
    then have n: "inc32 (xTickCount S) = xTickCount S + 1" using tick by (auto simp: inc32_def mod_Suc)
    let ?S = "S\<lparr>xTickCount := inc32 (xTickCount S)\<rparr>"
    have "due ?S u \<longleftrightarrow> next_due S u" for u
      using late [of u] n False by (auto simp: due_def next_due_def)
    moreover have "same_but_time S ?S" unfolding same_but_time_def
      by (intro exI [of _ "lists S"] exI [of _ "uxTopReadyPriority S"] exI [of _ "xNextTaskUnblockTime S"] exI [of _ "inc32 (xTickCount S)"]
      exI [of _ "pxDelayedTaskList S"] exI [of _ "pxOverflowDelayedTaskList S"] exI [of _ "xNumOfOverflows S"]) (cases S, simp)
    moreover have "turned S = Some ?S" using False by (simp add: turned_def Let_def)
    ultimately show ?thesis using t n
      by (intro exI [of _ ?S]) (auto simp: time_ok_def in_order_def delay_pointers_def less_Suc_eq)
  next
    case True
    then have n: "xTickCount S = 4294967295" using tick by (auto simp: inc32_def mod_Suc split: if_splits)
    have none: "place S (StateItem u) \<noteq> Some (pxDelayedTaskList S)" for u using late [of u] max [of u] n by auto
    have "list_of S (pxDelayedTaskList S) = []"
      using delayed_list_items [OF l d] none by (metis list.set_intros(1) neq_Nil_conv)
    then obtain S1 where S1: "turned S = Some S1"
      "S1 = prvResetNextTaskUnblockTime (S\<lparr>xTickCount := 0, pxDelayedTaskList := pxOverflowDelayedTaskList S,
         pxOverflowDelayedTaskList := pxDelayedTaskList S, xNumOfOverflows := i32 (xNumOfOverflows S + 1)\<rparr>)"
      using True by (simp add: turned_def Let_def taskSWITCH_DELAYED_LISTS_def configASSERT_def)
    obtain m where m: "S1 = S\<lparr>xTickCount := 0, pxDelayedTaskList := pxOverflowDelayedTaskList S,
         pxOverflowDelayedTaskList := pxDelayedTaskList S, xNumOfOverflows := i32 (xNumOfOverflows S + 1),
         xNextTaskUnblockTime := m\<rparr>" "m = (case list_of S (pxOverflowDelayedTaskList S) of [] \<Rightarrow> portMAX_DELAY
         | i # js \<Rightarrow> wake_time S (item_owner i))"
      using S1(2) by (auto simp: prvResetNextTaskUnblockTime_def split: list.splits)
    have "same_but_time S S1" unfolding same_but_time_def
      by (intro exI [of _ "lists S"] exI [of _ "uxTopReadyPriority S"] exI [of _ m] exI [of _ 0]
      exI [of _ "pxOverflowDelayedTaskList S"] exI [of _ "pxDelayedTaskList S"] exI [of _ "i32 (xNumOfOverflows S + 1)"])
        (cases S, simp add: m(1))
    moreover have "m \<le> wake_time S u" if u: "place S (StateItem u) = Some (pxOverflowDelayedTaskList S)" for u
    proof -
      have "in_order S (pxOverflowDelayedTaskList S)" using t by (simp add: time_ok_def)
      from in_order_head [OF l this u delay_pointersD(2) [OF d]] obtain v js where
        "list_of S (pxOverflowDelayedTaskList S) = StateItem v # js" "wake_time S v \<le> wake_time S u" .
      then show ?thesis by (simp add: m(2))
    qed
    moreover have "delay_pointers S1" using d by (auto simp: m(1) delay_pointers_def)
    ultimately show ?thesis using S1(1) True t none
      by (intro exI [of _ S1]) (auto simp: m(1) time_ok_def in_order_def due_def next_due_def)
  qed
qed

definition ticked :: "task \<Rightarrow> 'z sched_scheme \<Rightarrow> 'z sched_scheme \<Rightarrow> bool" where
  "ticked idle S S' \<longleftrightarrow> core_ok idle S' \<and> same_but_time S S' \<and> val (lists S') = val (lists S) \<and>
     xTickCount S' = inc32 (xTickCount S) \<and>
     xNumOfOverflows S' = (if inc32 (xTickCount S) = 0 then i32 (xNumOfOverflows S + 1) else xNumOfOverflows S) \<and>
     (\<forall>t. place S' (StateItem t) = (if next_due S t then Some (Ready (uxPriority S t)) else place S (StateItem t))) \<and>
     (\<forall>t. place S' (EventItem t) = (if next_due S t then None else place S (EventItem t)))"

lemma tickedD:
  assumes "ticked idle S S'"
  shows "core_ok idle S'" "same_but_time S S'" "val (lists S') = val (lists S)" "xTickCount S' = inc32 (xTickCount S)"
    "place S' (StateItem t) = (if next_due S t then Some (Ready (uxPriority S t)) else place S (StateItem t))"
    "place S' (EventItem t) = (if next_due S t then None else place S (EventItem t))"
    "xNumOfOverflows S' = (if inc32 (xTickCount S) = 0 then i32 (xNumOfOverflows S + 1) else xNumOfOverflows S)"
  using assms by (auto simp: ticked_def)

lemma tick_unfold:
  "xTaskIncrementTick S =
     (if uxSchedulerSuspended S = 0 then do {
        S1 \<leftarrow> turned S;
        (sw, S) \<leftarrow> (if xNextTaskUnblockTime S1 \<le> xTickCount S1 then wake_due S1 False else Some (False, S1));
        Some ((sw \<or> 1 < length (list_of S (Ready (uxPriority S (pxCurrentTCB S))))) \<or> xYieldPending S, S) }
      else Some (xYieldPending S, S\<lparr>uxPendedTicks := inc32 (uxPendedTicks S)\<rparr>))"
  by (simp add: xTaskIncrementTick_def turned_def Let_def split_def)

lemma tick_ok:
  assumes c: "core_ok idle S" and run: "uxSchedulerSuspended S = 0"
  shows "\<exists>sw S'. xTaskIncrementTick S = Some (sw, S') \<and> ticked idle S S' \<and>
    (sw \<longleftrightarrow> (\<exists>t. next_due S t \<and> uxPriority S (pxCurrentTCB S) \<le> uxPriority S t) \<or>
       1 < length (list_of S' (Ready (uxPriority S (pxCurrentTCB S)))) \<or> xYieldPending S)"
proof -
  have l: "lists_ok S" and b: "bitmap_ok S" and t: "time_ok S" and i: "is_ready S idle"
    using c by (auto simp: core_ok_def)
  obtain S1 where 1: "turned S = Some S1" "same_but_time S S1" "lists S1 = lists S"
    "uxTopReadyPriority S1 = uxTopReadyPriority S" "xTickCount S1 = inc32 (xTickCount S)" "delay_pointers S1"
    "in_order S1 (pxDelayedTaskList S1)" "in_order S1 (pxOverflowDelayedTaskList S1)"
    "\<And>t. due S1 t \<longleftrightarrow> next_due S t"
    "\<And>t. place S (StateItem t) = Some (pxDelayedTaskList S1) \<Longrightarrow> xNextTaskUnblockTime S1 \<le> wake_time S t"
    "\<And>t. place S (StateItem t) = Some (pxOverflowDelayedTaskList S1) \<Longrightarrow> wake_time S t < xTickCount S1"
    "xNumOfOverflows S1 = (if inc32 (xTickCount S) = 0 then i32 (xNumOfOverflows S + 1) else xNumOfOverflows S)"
    using turned_ok [OF c] by auto
  note same = same_but_timeD [OF 1(2)]
  have l1: "lists_ok S1" using l by (simp add: lists_ok_def blocked_def 1(3) same)
  have b1: "bitmap_ok S1" using b by (simp add: bitmap_ok_def 1(3,4))
  have m1: "wake_time S1 u \<le> portMAX_DELAY" for u using t by (simp add: time_ok_def 1(3))
  obtain sw S' where w: "(if xNextTaskUnblockTime S1 \<le> xTickCount S1 then wake_due S1 False else Some (False, S1)) = Some (sw, S')"
    "woken S1 False sw S'"
  proof (cases "xNextTaskUnblockTime S1 \<le> xTickCount S1")
    case True
    then show ?thesis using wake_due_ok [OF l1 b1 1(6,7) m1, of False] that by auto
  next
    case False
    then have late: "place S (StateItem u) = Some (pxDelayedTaskList S1) \<Longrightarrow> xTickCount S1 < wake_time S u" for u
      using 1(10) [of u] by simp
    then have "\<not> due S1 u" for u by (force simp: due_def 1(3))
    then have "woken S1 False False S1" using l1 b1 1(3,7,10) late by (simp add: woken_def)
    then show ?thesis using False that by simp
  qed
  note k = wokenD [OF w(2)]
  note same' = same_but_listsD [OF k(3)]
  have "time_ok S'" unfolding time_ok_def
  proof (intro conjI allI impI)
    show "delay_pointers S'" using 1(6) by (simp add: delay_pointers_def same')
    show "in_order S' (pxOverflowDelayedTaskList S')"
      using 1(8) k(4) k(7) [of "pxOverflowDelayedTaskList S1"] delay_pointersD [OF 1(6)] 1(6)
      by (auto simp: in_order_def same' delay_pointers_def)
    show "wake_time S' u \<le> portMAX_DELAY" for u using m1 [of u] k(4) by simp
    fix u assume "place S' (StateItem u) = Some (pxOverflowDelayedTaskList S')"
    then show "wake_time S' u < xTickCount S'"
      using 1(11) [of u] k(4) k(5) [of u] not_sym [OF delay_pointersD(8) [OF 1(6)]]
      by (auto simp: same' 1(3) split: if_splits)
  qed (use k(4,8-10) 1(3,5) in \<open>simp_all add: same' inc32_def\<close>)
  have "\<not> due S1 idle" using i delay_pointersD(11) [OF 1(6)] by (auto simp: due_def is_ready_def 1(3))
  then have "is_ready S' idle" using i k(5) [of idle] by (simp add: is_ready_def same' same 1(3))
  then have "core_ok idle S'" using \<open>time_ok S'\<close> k(1,2) c by (simp add: core_ok_def same' same)
  then have tk: "ticked idle S S'" unfolding ticked_def
    using same_but_time_trans [OF 1(2) same_but_time_lists [OF k(3)]] k(4-6) 1(3,5,9,12) by (simp add: same' same)
  have "xTaskIncrementTick S = Some ((sw \<or> 1 < length (list_of S' (Ready (uxPriority S (pxCurrentTCB S))))) \<or> xYieldPending S, S')"
    using 1(1) w(1) run by (simp add: tick_unfold same' same)
  then show ?thesis using tk k(11) 1(9) by (auto simp: same)
qed

lemma tick_on_top:
  assumes "ticked idle S S'" "on_top S" "\<not> (\<exists>t. next_due S t \<and> uxPriority S (pxCurrentTCB S) \<le> uxPriority S t)"
  shows "on_top S'"
  using assms tickedD(5) [OF assms(1)] same_but_timeD(1,4) [OF tickedD(2) [OF assms(1)]]
  by (auto simp: on_top_def is_ready_def split: if_splits)

end
