(* ===== verification/KSchedResume.thy ===== *)
theory KSchedResume imports KSchedMoves begin

text \<open>
  Resuming the scheduler: the tasks that interrupts have readied and the ticks that were held back
  are made good, and a switch is asked for when one is due.
\<close>

section \<open>Moves keep the core\<close>

lemma sorted_map_remove1: "sorted (map f xs) \<Longrightarrow> sorted (map f (remove1 x xs))"
  by (induction xs) (auto dest: notin_set_remove1)

lemma make_ready_core':
  assumes c: "core_ok idle S" and nr: "\<And>p. place S (StateItem t) \<noteq> Some (Ready p)"
  shows "core_ok idle (make_ready t S)"
proof -
  have l: "lists_ok S" and m: "bitmap_ok S" and t: "time_ok S" and i: "is_ready S idle" using c by (auto simp: core_ok_def)
  have d: "delay_pointers S" using t by (simp add: time_ok_def)
  note ok = make_ready_ok [OF l m nr]
  note wf = lists_okD(1) [OF l]
  have "in_order (make_ready t S) (pxDelayedTaskList S)" "in_order (make_ready t S) (pxOverflowDelayedTaskList S)"
    using t make_ready_list [OF wf, of _ t] delay_pointersD(7,8) [OF d]
    by (auto simp: in_order_def time_ok_def intro!: sorted_map_remove1)
  then have "time_ok (make_ready t S)" using t d delay_pointersD(11,12) [OF d]
    by (auto simp: time_ok_def make_ready_place delay_pointers_def split: if_splits)
  moreover have "is_ready (make_ready t S) idle" using i by (auto simp: is_ready_def make_ready_place)
  ultimately show ?thesis using ok c same_but_listsD(7,9) [OF make_ready_same [of S t]]
    by (simp add: core_ok_def)
qed

lemma make_ready_core: "core_ok idle S \<Longrightarrow> blocked S t \<Longrightarrow> core_ok idle (make_ready t S)"
  by (rule make_ready_core') (auto simp: blocked_def)

lemma core_ok_cong:
  assumes "lists S' = lists S" "uxPriority S' = uxPriority S" "pxDelayedTaskList S' = pxDelayedTaskList S"
    "pxOverflowDelayedTaskList S' = pxOverflowDelayedTaskList S" "uxCurrentNumberOfTasks S' = uxCurrentNumberOfTasks S"
    "xTickCount S' = xTickCount S" "uxTopReadyPriority S' = uxTopReadyPriority S" "xSchedulerRunning S' = xSchedulerRunning S"
    "xNextTaskUnblockTime S' = xNextTaskUnblockTime S"
  shows "core_ok idle S' = core_ok idle S"
  using assms by (simp add: core_ok_def lists_ok_def bitmap_ok_def time_ok_def is_ready_def delay_pointers_def in_order_def
    blocked_def)

lemma reset_unblock_sel [simp]:
  "lists (prvResetNextTaskUnblockTime S) = lists S" "uxPriority (prvResetNextTaskUnblockTime S) = uxPriority S"
  "pxCurrentTCB (prvResetNextTaskUnblockTime S) = pxCurrentTCB S"
  "uxSchedulerSuspended (prvResetNextTaskUnblockTime S) = uxSchedulerSuspended S"
  "uxPendedTicks (prvResetNextTaskUnblockTime S) = uxPendedTicks S" "pendsv (prvResetNextTaskUnblockTime S) = pendsv S"
  "xYieldPending (prvResetNextTaskUnblockTime S) = xYieldPending S"
  "xSchedulerRunning (prvResetNextTaskUnblockTime S) = xSchedulerRunning S"
  "xTickCount (prvResetNextTaskUnblockTime S) = xTickCount S"
  "uxCurrentNumberOfTasks (prvResetNextTaskUnblockTime S) = uxCurrentNumberOfTasks S"
  "pxDelayedTaskList (prvResetNextTaskUnblockTime S) = pxDelayedTaskList S"
  "pxOverflowDelayedTaskList (prvResetNextTaskUnblockTime S) = pxOverflowDelayedTaskList S"
  "uxTopReadyPriority (prvResetNextTaskUnblockTime S) = uxTopReadyPriority S"
  by (simp_all add: prvResetNextTaskUnblockTime_def split: list.splits)

lemma reset_unblock_core:
  assumes c: "core_ok idle S"
  shows "core_ok idle (prvResetNextTaskUnblockTime S)"
proof -
  have l: "lists_ok S" and t: "time_ok S" using c by (auto simp: core_ok_def)
  have d: "delay_pointers S" and o: "in_order S (pxDelayedTaskList S)" using t by (auto simp: time_ok_def)
  have "xNextTaskUnblockTime (prvResetNextTaskUnblockTime S) \<le> wake_time S u"
    if u: "place S (StateItem u) = Some (pxDelayedTaskList S)" for u
  proof -
    obtain v js where "list_of S (pxDelayedTaskList S) = StateItem v # js" "wake_time S v \<le> wake_time S u"
      by (rule in_order_head [OF l o u delay_pointersD(1) [OF d]])
    then show ?thesis by (simp add: prvResetNextTaskUnblockTime_def)
  qed
  then have "time_ok (prvResetNextTaskUnblockTime S)" using t by (simp add: time_ok_def delay_pointers_def in_order_def)
  moreover have "lists_ok (prvResetNextTaskUnblockTime S)" using l by (simp add: lists_ok_def blocked_def)
  moreover have "bitmap_ok (prvResetNextTaskUnblockTime S)" "is_ready (prvResetNextTaskUnblockTime S) idle"
    using c by (simp_all add: core_ok_def bitmap_ok_def is_ready_def)
  ultimately show ?thesis using c by (simp add: core_ok_def)
qed

section \<open>The tasks that interrupts have readied\<close>

definition pending :: "'z sched_scheme \<Rightarrow> task \<Rightarrow> bool" where
  "pending S t \<longleftrightarrow> place S (EventItem t) = Some PendingReadyList"

text \<open>The fields that stay.\<close>

definition same_but_ready :: "'z sched_scheme \<Rightarrow> 'z sched_scheme \<Rightarrow> bool" where
  "same_but_ready S S' \<longleftrightarrow> uxPriority S' = uxPriority S \<and> pxCurrentTCB S' = pxCurrentTCB S \<and>
     xTickCount S' = xTickCount S \<and> uxSchedulerSuspended S' = uxSchedulerSuspended S \<and> uxPendedTicks S' = uxPendedTicks S \<and>
     pendsv S' = pendsv S \<and> val (lists S') = val (lists S)"

definition readied :: "task \<Rightarrow> 'z sched_scheme \<Rightarrow> 'z sched_scheme \<Rightarrow> bool" where
  "readied idle S S' \<longleftrightarrow> core_ok idle S' \<and> same_but_ready S S' \<and>
     (\<forall>t. place S' (StateItem t) = (if pending S t then Some (Ready (uxPriority S t)) else place S (StateItem t))) \<and>
     (\<forall>t. place S' (EventItem t) = (if pending S t then None else place S (EventItem t))) \<and>
     (xYieldPending S' \<longleftrightarrow> xYieldPending S \<or> (\<exists>t. pending S t \<and> uxPriority S (pxCurrentTCB S) \<le> uxPriority S t))"

lemma readiedD:
  assumes "readied idle S S'"
  shows "core_ok idle S'" "same_but_ready S S'"
    "place S' (StateItem t) = (if pending S t then Some (Ready (uxPriority S t)) else place S (StateItem t))"
    "place S' (EventItem t) = (if pending S t then None else place S (EventItem t))"
    "xYieldPending S' \<longleftrightarrow> xYieldPending S \<or> (\<exists>t. pending S t \<and> uxPriority S (pxCurrentTCB S) \<le> uxPriority S t)"
  using assms by (auto simp: readied_def)

lemma ready_pending_ok:
  assumes "core_ok idle S"
  shows "\<exists>any' S'. ready_pending S any = Some (any', S') \<and> readied idle S S'"
  using assms
proof (induction "length (list_of S PendingReadyList)" arbitrary: S any)
  case 0
  have l: "lists_ok S" using 0(2) by (simp add: core_ok_def)
  have "\<not> pending S t" for t using 0(1) wf_listsD(1) [OF lists_okD(1) [OF l], of "EventItem t" PendingReadyList]
    by (auto simp: pending_def)
  then show ?case using 0 by (subst ready_pending.simps) (auto simp: readied_def same_but_ready_def)
next
  case (Suc n)
  have l: "lists_ok S" using Suc(3) by (simp add: core_ok_def)
  note wf = lists_okD(1) [OF l]
  obtain i js where js: "list_of S PendingReadyList = i # js" using Suc(2) by (cases "list_of S PendingReadyList") auto
  obtain t where t: "i = EventItem t" using event_item_only [OF l, of PendingReadyList i] js by auto
  have p: "place S (EventItem t) = Some PendingReadyList"
    using wf_listsD(1) [OF wf, of "EventItem t" PendingReadyList] js t by simp
  have b: "blocked S t" using lists_okD(5) [OF l p] by blast
  then obtain L where L: "place S (StateItem t) = Some L" by (auto simp: blocked_def)
  let ?M = "make_ready t S"
  let ?S = "if uxPriority S (pxCurrentTCB S) \<le> uxPriority S t then ?M\<lparr>xYieldPending := True\<rparr> else ?M"
  have step: "ready_pending S any = ready_pending ?S True"
  proof -
    have "do { (_, S) \<leftarrow> take_off (EventItem t) S; (_, S) \<leftarrow> take_off (StateItem t) S;
        let S = prvAddTaskToReadyList t S;
        ready_pending (if uxPriority S (pxCurrentTCB S) \<le> uxPriority S t then S\<lparr>xYieldPending := True\<rparr> else S) True } =
      do { S \<leftarrow> do { (_, S) \<leftarrow> take_off (EventItem t) S; (_, S) \<leftarrow> take_off (StateItem t) S; Some (prvAddTaskToReadyList t S) };
        ready_pending (if uxPriority S (pxCurrentTCB S) \<le> uxPriority S t then S\<lparr>xYieldPending := True\<rparr> else S) True }"
      by (simp add: split_def Let_def)
    then show ?thesis using js t ready_from_event [OF p L] by (subst ready_pending.simps) (simp add: Let_def)
  qed
  have c: "core_ok idle ?S" using make_ready_core [OF Suc(3) b] by (simp add: core_ok_cong [of "?M\<lparr>xYieldPending := True\<rparr>" ?M])
  have lst: "lists ?S = lists ?M" by simp
  have "StateItem t \<notin> set (list_of S PendingReadyList)" using event_item_only [OF l, of PendingReadyList] by blast
  then have rem: "list_of ?M PendingReadyList = js"
    using make_ready_list [OF wf, of PendingReadyList t] js t by (simp add: remove1_idem)
  have len: "n = length (list_of ?S PendingReadyList)" using Suc(2) js rem lst by simp
  from Suc(1) [OF len c, of True] obtain any' S' where r: "ready_pending ?S True = Some (any', S')" "readied idle ?S S'" by blast
  have pen: "pending S u \<longleftrightarrow> u = t \<or> pending ?S u" "\<not> pending ?S t" for u
    using p by (auto simp: pending_def lst make_ready_place)
  note k = readiedD [OF r(2)]
  have s: "same_but_ready S ?S" using same_but_listsD [OF make_ready_same [of S t]] by (simp add: same_but_ready_def)
  have "readied idle S S'" unfolding readied_def
  proof (intro conjI allI)
    show "core_ok idle S'" by (rule k(1))
    show "same_but_ready S S'" using s k(2) by (simp add: same_but_ready_def)
    show "place S' (StateItem u) = (if pending S u then Some (Ready (uxPriority S u)) else place S (StateItem u))" for u
      using k(3) [of u] pen s by (auto simp: lst make_ready_place same_but_ready_def)
    show "place S' (EventItem u) = (if pending S u then None else place S (EventItem u))" for u
      using k(4) [of u] pen by (auto simp: lst make_ready_place)
    have "xYieldPending ?S \<longleftrightarrow> xYieldPending S \<or> uxPriority S (pxCurrentTCB S) \<le> uxPriority S t"
      using same_but_listsD(11) [OF make_ready_same [of S t]] by simp
    then show "xYieldPending S' \<longleftrightarrow> xYieldPending S \<or> (\<exists>u. pending S u \<and> uxPriority S (pxCurrentTCB S) \<le> uxPriority S u)"
      using k(5) pen s by (auto simp: same_but_ready_def)
  qed
  then show ?case using step r(1) by auto
qed

section \<open>The ticks that were held back\<close>

lemma catch_up_ok:
  assumes "core_ok idle S" "uxSchedulerSuspended S = 0" "\<not> xYieldPending S \<Longrightarrow> \<not> pendsv S \<Longrightarrow> on_top S"
    "\<And>t. \<not> pending S t"
  shows "\<exists>S'. catch_up n S = Some S' \<and> core_ok idle S' \<and> uxSchedulerSuspended S' = 0 \<and> pendsv S' = pendsv S \<and>
    pxCurrentTCB S' = pxCurrentTCB S \<and> uxPriority S' = uxPriority S \<and>
    (xYieldPending S \<longrightarrow> xYieldPending S') \<and> (\<not> xYieldPending S' \<longrightarrow> \<not> pendsv S' \<longrightarrow> on_top S') \<and>
    (\<forall>t. is_ready S t \<longrightarrow> is_ready S' t) \<and> (\<forall>t. \<not> pending S' t)"
  using assms
proof (induction n arbitrary: S)
  case (Suc n)
  from tick_ok [OF Suc.prems(1,2)] obtain sw S1 where 1: "xTaskIncrementTick S = Some (sw, S1)" "ticked idle S S1"
    "sw \<longleftrightarrow> (\<exists>t. next_due S t \<and> uxPriority S (pxCurrentTCB S) \<le> uxPriority S t) \<or>
       1 < length (list_of S1 (Ready (uxPriority S (pxCurrentTCB S)))) \<or> xYieldPending S" by blast
  note k = tickedD [OF 1(2)] and same = same_but_timeD [OF tickedD(2) [OF 1(2)]]
  let ?S = "if sw then S1\<lparr>xYieldPending := True\<rparr> else S1"
  have c: "core_ok idle ?S" using k(1) by (simp add: core_ok_cong [of "S1\<lparr>xYieldPending := True\<rparr>" S1])
  have "\<not> xYieldPending ?S \<Longrightarrow> \<not> pendsv ?S \<Longrightarrow> on_top S1"
    using tick_on_top [OF 1(2)] Suc.prems(3) 1(3) same by (auto split: if_splits)
  then have top: "\<not> xYieldPending ?S \<Longrightarrow> \<not> pendsv ?S \<Longrightarrow> on_top ?S" by (simp split: if_splits)
  have pen: "\<not> pending ?S t" for t using Suc.prems(4) [of t] k(6) [of t] by (auto simp: pending_def)
  have rdy: "is_ready S t \<Longrightarrow> is_ready ?S t" for t using k(5) [of t] same by (auto simp: is_ready_def)
  have fs: "uxSchedulerSuspended ?S = 0" "pendsv ?S = pendsv S" "pxCurrentTCB ?S = pxCurrentTCB S"
    "uxPriority ?S = uxPriority S" "xYieldPending S \<Longrightarrow> xYieldPending ?S" using Suc.prems(2) same by simp_all
  from Suc.IH [OF c fs(1) top pen] obtain S' where
    r: "catch_up n ?S = Some S'" "core_ok idle S'" "uxSchedulerSuspended S' = 0" "pendsv S' = pendsv ?S"
    "pxCurrentTCB S' = pxCurrentTCB ?S" "uxPriority S' = uxPriority ?S" "xYieldPending ?S \<longrightarrow> xYieldPending S'"
    "\<not> xYieldPending S' \<longrightarrow> \<not> pendsv S' \<longrightarrow> on_top S'" "\<forall>t. is_ready ?S t \<longrightarrow> is_ready S' t" "\<forall>t. \<not> pending S' t"
    by blast
  have "catch_up (Suc n) S = Some S'" using r(1) 1(1) by simp
  then show ?case using r(2-) fs(2-) rdy by (metis (no_types, lifting))
qed simp

section \<open>Resuming\<close>

definition resumed :: "task \<Rightarrow> 'z sched_scheme \<Rightarrow> bool \<Rightarrow> 'z sched_scheme \<Rightarrow> bool" where
  "resumed idle S y S' \<longleftrightarrow> core_ok idle S' \<and> switch_ok S' \<and> (y \<longrightarrow> pendsv S') \<and> (pendsv S \<longrightarrow> pendsv S') \<and>
     pxCurrentTCB S' = pxCurrentTCB S \<and> uxPriority S' = uxPriority S \<and> (\<forall>t. is_ready S t \<longrightarrow> is_ready S' t)"

lemma xTaskResumeAll_ok:
  assumes c: "core_ok idle S" and s: "switch_ok S" and n: "uxSchedulerSuspended S \<noteq> 0" "uxSchedulerSuspended S < 4294967296"
  shows "\<exists>y S'. xTaskResumeAll S = Some (y, S') \<and> resumed idle S y S' \<and>
    uxSchedulerSuspended S' = uxSchedulerSuspended S - 1"
proof -
  let ?D = "S\<lparr>uxSchedulerSuspended := dec32 (uxSchedulerSuspended S)\<rparr>"
  have dec: "dec32 (uxSchedulerSuspended S) = uxSchedulerSuspended S - 1" using n by (simp add: dec32_def mod_if)
  have cD: "core_ok idle ?D" using c by (simp add: core_ok_cong [of ?D S])
  show ?thesis
  proof (cases "uxSchedulerSuspended S = 1")
    case False
    then have "xTaskResumeAll S = Some (False, ?D)" using n dec by (simp add: xTaskResumeAll_def Let_def configASSERT_def)
    moreover have "switch_ok ?D" using s dec n False by (auto simp: switch_ok_def on_top_def is_ready_def)
    ultimately show ?thesis using cD dec by (auto simp: resumed_def is_ready_def)
  next
    case True
    then have z: "dec32 (uxSchedulerSuspended S) = 0" using dec by simp
    from ready_pending_ok [OF cD, of False] obtain any S1 where
      1: "ready_pending ?D False = Some (any, S1)" "readied idle ?D S1" by blast
    note k = readiedD [OF 1(2)]
    have f: "uxPriority S1 = uxPriority S" "pxCurrentTCB S1 = pxCurrentTCB S" "pendsv S1 = pendsv S"
      "uxSchedulerSuspended S1 = 0" using k(2) z by (auto simp: same_but_ready_def)
    have pend: "pending ?D t = pending S t" for t by (simp add: pending_def)
    define R where "R = (if any then prvResetNextTaskUnblockTime S1 else S1)"
    have R: "core_ok idle R" "lists R = lists S1" "uxPriority R = uxPriority S" "pxCurrentTCB R = pxCurrentTCB S"
      "pendsv R = pendsv S" "uxSchedulerSuspended R = 0" "xYieldPending R = xYieldPending S1"
      using k(1) reset_unblock_core [OF k(1)] f by (simp_all add: R_def)
    have topR: "\<not> xYieldPending R \<Longrightarrow> \<not> pendsv R \<Longrightarrow> on_top R"
      using k(3,5) s R(2-5,7) by (auto simp: pend on_top_def is_ready_def switch_ok_def not_le intro: order_less_imp_le split: if_splits)
    have penR: "\<not> pending R t" for t using k(4) [of t] R(2) by (auto simp: pending_def split: if_splits)
    have rdyR: "is_ready S t \<Longrightarrow> is_ready R t" for t using k(3) [of t] R(2,3) by (auto simp: is_ready_def pend)
    obtain S2 where 2: "(if 0 < uxPendedTicks R then map_option (\<lambda>S. S\<lparr>uxPendedTicks := 0\<rparr>) (catch_up (uxPendedTicks R) R)
        else Some R) = Some S2" "core_ok idle S2" "uxSchedulerSuspended S2 = 0" "pendsv S2 = pendsv S"
      "pxCurrentTCB S2 = pxCurrentTCB S" "uxPriority S2 = uxPriority S"
      "\<not> xYieldPending S2 \<Longrightarrow> \<not> pendsv S2 \<Longrightarrow> on_top S2" "\<And>t. is_ready S t \<Longrightarrow> is_ready S2 t" "\<And>t. \<not> pending S2 t"
    proof (cases "0 < uxPendedTicks R")
      case True
      from catch_up_ok [OF R(1,6) topR penR, of "uxPendedTicks R"] obtain S' where
        r: "catch_up (uxPendedTicks R) R = Some S'" "core_ok idle S'" "uxSchedulerSuspended S' = 0" "pendsv S' = pendsv R"
        "pxCurrentTCB S' = pxCurrentTCB R" "uxPriority S' = uxPriority R"
        "\<not> xYieldPending S' \<longrightarrow> \<not> pendsv S' \<longrightarrow> on_top S'" "\<forall>t. is_ready R t \<longrightarrow> is_ready S' t" "\<forall>t. \<not> pending S' t"
        by blast
      show ?thesis
        by (rule that [of "S'\<lparr>uxPendedTicks := 0\<rparr>"])
          (use r True R(3-5) rdyR in \<open>auto simp: core_ok_cong [of "S'\<lparr>uxPendedTicks := 0\<rparr>" S'] on_top_def is_ready_def pending_def\<close>)
    next
      case False
      show ?thesis by (rule that [of R]) (use False R topR rdyR penR in simp_all)
    qed
    have run: "xTaskResumeAll S = Some (if xYieldPending S2 then (True, portYIELD S2) else (False, S2))"
      using n z c 1(1) 2(1) by (cases "0 < uxPendedTicks R") (auto simp: xTaskResumeAll_def Let_def configASSERT_def core_ok_def R_def [symmetric])
    have "core_ok idle (portYIELD S2)" using 2(2) by (simp add: portYIELD_def core_ok_cong [of "S2\<lparr>pendsv := True\<rparr>" S2])
    moreover have "switch_ok (portYIELD S2)" using 2(9) by (simp add: portYIELD_def switch_ok_def pending_def)
    moreover have "switch_ok S2" if "\<not> xYieldPending S2" using 2(7,9) that by (simp add: switch_ok_def pending_def)
    ultimately show ?thesis using run 2 True
      by (cases "xYieldPending S2") (auto simp: resumed_def portYIELD_def is_ready_def)
  qed
qed

end
