(* ===== verification/KSchedWait.thy ===== *)
theory KSchedWait imports KSchedResume begin

text \<open>
  The current task leaves the ready lists to wait, for a time or for an event, and what interrupts
  do while the scheduler is suspended.
\<close>

section \<open>Leaving the ready lists\<close>

text \<open>The state \<open>S\<close> is \<open>S0\<close>, except that the current task may already be on an event list.\<close>

definition about_to_wait :: "'z sched_scheme \<Rightarrow> 'z sched_scheme \<Rightarrow> bool" where
  "about_to_wait S0 S \<longleftrightarrow> (\<exists>f. S = in_lists f S0) \<and> wf_lists (lists S) \<and> val (lists S) = val (lists S0) \<and>
     (\<forall>i. i \<noteq> EventItem (pxCurrentTCB S0) \<longrightarrow> place S i = place S0 i) \<and>
     (\<forall>L. place S (EventItem (pxCurrentTCB S0)) = Some L \<longrightarrow> is_event_list L) \<and>
     (\<forall>L. \<not> is_event_list L \<longrightarrow> list_of S L = list_of S0 L)"

lemma about_to_wait_none: "lists_ok S \<Longrightarrow> place S (EventItem (pxCurrentTCB S)) = None \<Longrightarrow> about_to_wait S S"
  unfolding about_to_wait_def using lists_okD(1)
  by (intro conjI exI [of _ "\<lambda>K. K"]) (auto simp: in_lists_def)

lemma about_to_wait_event:
  assumes l: "lists_ok S" and e: "is_event_list L" and n: "place S (EventItem (pxCurrentTCB S)) = None"
  shows "about_to_wait S (in_lists (insert_sorted L (EventItem (pxCurrentTCB S))) S)"
    "about_to_wait S (in_lists (insert_end L (EventItem (pxCurrentTCB S))) S)"
  using lists_okD(1) [OF l] n e by (auto simp: about_to_wait_def klists_simps intro!: wf_intros)

lemma ready_without:
  "A t = Some (Ready p) \<Longrightarrow> (\<exists>u. u \<noteq> t \<and> A u = Some (Ready q)) \<longleftrightarrow>
    (\<exists>u. A u = Some (Ready q)) \<and> \<not> ((\<forall>u. u \<noteq> t \<longrightarrow> A u \<noteq> Some (Ready p)) \<and> q = p)"
  by (metis option.inject task_list.inject(1))

text \<open>The list a task waits in, and its time.\<close>

definition waits_in :: "nat \<Rightarrow> bool \<Rightarrow> 'z sched_scheme \<Rightarrow> task_list" where
  "waits_in ticks indefinite S =
     (if ticks = portMAX_DELAY \<and> indefinite then SuspendedTaskList
      else if (xTickCount S + ticks) mod 4294967296 < xTickCount S then pxOverflowDelayedTaskList S
      else pxDelayedTaskList S)"

definition left_to_wait :: "nat \<Rightarrow> bool \<Rightarrow> 'z sched_scheme \<Rightarrow> 'z sched_scheme \<Rightarrow> bool" where
  "left_to_wait ticks indefinite S S' \<longleftrightarrow> same_but_lists S S' \<and>
     (\<forall>i. place S' i = (if i = StateItem (pxCurrentTCB S) then Some (waits_in ticks indefinite S) else place S i)) \<and>
     (\<forall>t. t \<noteq> pxCurrentTCB S \<longrightarrow> wake_time S' t = wake_time S t) \<and>
     (waits_in ticks indefinite S \<noteq> SuspendedTaskList \<longrightarrow>
        wake_time S' (pxCurrentTCB S) = (xTickCount S + ticks) mod 4294967296)"

section \<open>The pieces\<close>

text \<open>A ready task leaves its list, and the bitmap when it was the last there.\<close>

definition drop_ready :: "task \<Rightarrow> 'z sched_scheme \<Rightarrow> 'z sched_scheme" where
  "drop_ready t S = (let A = in_lists (remove_item (StateItem t)) S
     in if list_of A (Ready (uxPriority S t)) = [] then portRESET_READY_PRIORITY (uxPriority S t) A else A)"

lemma drop_ready_same: "same_but_lists S (drop_ready t S)"
  by (simp add: drop_ready_def Let_def same_but_lists_intros same_but_lists_trans [OF same_but_lists_intros(1,3)])

lemma drop_ready_sel [simp]:
  "lists (drop_ready t S) = remove_item (StateItem t) (lists S)"
  "xNextTaskUnblockTime (drop_ready t S) = xNextTaskUnblockTime S"
  by (simp_all add: drop_ready_def Let_def portRESET_READY_PRIORITY_def)

lemmas drop_ready_fields [simp] = same_but_listsD [OF drop_ready_same]

lemma drop_ready_bitmap:
  assumes wf: "wf_lists (lists S)" and b: "bitmap_ok S" and r: "place S (StateItem t) = Some (Ready (uxPriority S t))"
    and ev: "\<And>u q. place S (EventItem u) \<noteq> Some (Ready q)"
  shows "bitmap_ok (drop_ready t S)"
  unfolding bitmap_ok_def
proof (intro allI impI)
  fix p :: nat assume p: "p < 32"
  let ?p = "uxPriority S t"
  define e where "e = (list_of (in_lists (remove_item (StateItem t)) S) (Ready ?p) = [])"
  have em: "e \<longleftrightarrow> (\<forall>i. i \<noteq> StateItem t \<longrightarrow> place S i \<noteq> Some (Ready ?p))"
    unfolding e_def using list_empty_iff [OF wf_remove_item [OF wf], of "StateItem t" "Ready ?p"] by (simp add: klists_simps)
  have e: "e \<longleftrightarrow> (\<forall>u. u \<noteq> t \<longrightarrow> place S (StateItem u) \<noteq> Some (Ready ?p))"
  proof
    show e if "\<forall>u. u \<noteq> t \<longrightarrow> place S (StateItem u) \<noteq> Some (Ready ?p)"
      unfolding em
    proof (intro allI impI)
      fix i assume "i \<noteq> StateItem t"
      then show "place S i \<noteq> Some (Ready ?p)" using that ev by (cases i) auto
    qed
  qed (use em in auto)
  have "(\<exists>u. place (drop_ready t S) (StateItem u) = Some (Ready p)) \<longleftrightarrow> (\<exists>u. u \<noteq> t \<and> place S (StateItem u) = Some (Ready p))"
    by (auto simp: klists_simps)
  also have "\<dots> \<longleftrightarrow> (\<exists>u. place S (StateItem u) = Some (Ready p)) \<and> \<not> (e \<and> p = ?p)"
    unfolding e by (rule ready_without [where A = "\<lambda>u. place S (StateItem u)", OF r])
  finally have ex: "(\<exists>u. place (drop_ready t S) (StateItem u) = Some (Ready p)) \<longleftrightarrow>
      (\<exists>u. place S (StateItem u) = Some (Ready p)) \<and> \<not> (e \<and> p = ?p)" .
  have "bit (uxTopReadyPriority (drop_ready t S)) p \<longleftrightarrow> bit (uxTopReadyPriority S) p \<and> \<not> (e \<and> p = ?p)"
    by (auto simp: drop_ready_def portRESET_READY_PRIORITY_def Let_def bit_reset e_def)
  then show "bit (uxTopReadyPriority (drop_ready t S)) p \<longleftrightarrow> (\<exists>u. place (drop_ready t S) (StateItem u) = Some (Ready p))"
    using b p ex by (simp add: bitmap_ok_def)
qed

lemma add_current_unfold:
  assumes "place S (StateItem (pxCurrentTCB S)) = Some (Ready (uxPriority S (pxCurrentTCB S)))"
  shows "prvAddCurrentTaskToDelayedList ticks indefinite S =
    (let t = pxCurrentTCB S; R = drop_ready t S; wake = (xTickCount S + ticks) mod 4294967296;
         L = waits_in ticks indefinite S
     in Some (if L = SuspendedTaskList \<and> ticks = portMAX_DELAY \<and> indefinite then in_lists (insert_end SuspendedTaskList (StateItem t)) R
          else let I = in_lists (insert_sorted L (StateItem t)) (in_lists (set_value (StateItem t) wake) R)
               in if \<not> wake < xTickCount S \<and> wake < xNextTaskUnblockTime S then I\<lparr>xNextTaskUnblockTime := wake\<rparr> else I))"
proof -
  let ?t = "pxCurrentTCB S"
  have R: "(if list_of (in_lists (remove_item (StateItem ?t)) S) (Ready (uxPriority S ?t)) = []
      then portRESET_READY_PRIORITY (uxPriority (in_lists (remove_item (StateItem ?t)) S) ?t) (in_lists (remove_item (StateItem ?t)) S)
      else in_lists (remove_item (StateItem ?t)) S) = drop_ready ?t S"
    by (simp add: drop_ready_def Let_def)
  have n: "xNextTaskUnblockTime (in_lists f (in_lists g (drop_ready t S))) = xNextTaskUnblockTime S" for f g t by simp
  show ?thesis
    unfolding prvAddCurrentTaskToDelayedList_def Let_def take_off_eq [OF assms] Option.bind_lunit prod.case unfolding R n
    by (cases "ticks = portMAX_DELAY"; cases indefinite) (simp_all add: waits_in_def)
qed

text \<open>The invariants, for any state in which the current task has gone to the right list at the right time.\<close>

lemma wait_core:
  assumes c: "core_ok idle S0" and w: "about_to_wait S0 S" and n: "pxCurrentTCB S0 \<noteq> idle"
    and t: "0 < ticks" "ticks < 4294967296"
    and same: "same_but_lists S S'" and b: "bitmap_ok S'" and wf: "wf_lists (lists S')"
    and pl: "\<And>i. place S' i = (if i = StateItem (pxCurrentTCB S) then Some (waits_in ticks indefinite S) else place S i)"
    and v: "\<And>u. u \<noteq> pxCurrentTCB S \<Longrightarrow> wake_time S' u = wake_time S u" "wake_time S' (pxCurrentTCB S) \<le> portMAX_DELAY"
    and vt: "waits_in ticks indefinite S \<noteq> SuspendedTaskList \<Longrightarrow>
      wake_time S' (pxCurrentTCB S) = (xTickCount S + ticks) mod 4294967296"
    and ord: "in_order S' (pxDelayedTaskList S)" "in_order S' (pxOverflowDelayedTaskList S)"
    and next_time: "xNextTaskUnblockTime S' \<le> xNextTaskUnblockTime S"
      "waits_in ticks indefinite S = pxDelayedTaskList S \<Longrightarrow> xNextTaskUnblockTime S' \<le> (xTickCount S + ticks) mod 4294967296"
  shows "core_ok idle S' \<and> left_to_wait ticks indefinite S S'"
proof -
  let ?t = "pxCurrentTCB S0" and ?wake = "(xTickCount S + ticks) mod 4294967296"
  define X where "X = waits_in ticks indefinite S"
  obtain f where f: "S = in_lists f S0" using w by (auto simp: about_to_wait_def)
  have f0: "pxCurrentTCB S = ?t" "uxPriority S = uxPriority S0" "xTickCount S = xTickCount S0"
    "pxDelayedTaskList S = pxDelayedTaskList S0" "pxOverflowDelayedTaskList S = pxOverflowDelayedTaskList S0"
    "xSchedulerRunning S = xSchedulerRunning S0" "uxCurrentNumberOfTasks S = uxCurrentNumberOfTasks S0"
    "xNextTaskUnblockTime S = xNextTaskUnblockTime S0" by (simp_all add: f)
  note fs = same_but_listsD [OF same]
  have l0: "lists_ok S0" and t0: "time_ok S0" and i0: "is_ready S0 idle" using c by (auto simp: core_ok_def)
  have d0: "delay_pointers S0" using t0 by (simp add: time_ok_def)
  note dp = delay_pointersD [OF d0]
  have Xc: "X \<noteq> Ready q" "\<not> is_event_list X" "X \<noteq> PendingReadyList"
    "X = DelayedTaskList1 \<or> X = DelayedTaskList2 \<or> X = SuspendedTaskList" for q
    using d0 by (auto simp: X_def waits_in_def f0 delay_pointers_def)
  have plS: "i \<noteq> EventItem ?t \<Longrightarrow> place S i = place S0 i" for i using w by (auto simp: about_to_wait_def)
  have old: "u \<noteq> ?t \<Longrightarrow> place S' (StateItem u) = place S0 (StateItem u)" for u by (simp add: pl f0 plS)
  have ps: "place S' (StateItem ?t) = Some X" by (simp add: pl f0 X_def)
  have vS: "val (lists S) = val (lists S0)" using w by (simp add: about_to_wait_def)
  have tick: "xTickCount S0 < 4294967296" using t0 by (simp add: time_ok_def)
  have wrap: "?wake < xTickCount S0 \<or> xTickCount S0 < ?wake" using t tick
    by (cases "xTickCount S0 + ticks < 4294967296") (auto simp: mod_if f0)
  have "time_ok S'" unfolding time_ok_def
  proof (intro conjI allI impI)
    show "delay_pointers S'" using d0 by (simp add: delay_pointers_def fs f0)
    show "wake_time S' u \<le> portMAX_DELAY" for u using v t0 by (cases "u = ?t") (auto simp: time_ok_def f0 vS)
  next
    fix u assume "place S' (StateItem u) = Some (pxDelayedTaskList S')"
    then have u: "place S' (StateItem u) = Some (pxDelayedTaskList S0)" by (simp add: fs f0)
    have "xTickCount S0 < wake_time S' u \<and> xNextTaskUnblockTime S' \<le> wake_time S' u"
    proof (cases "u = ?t")
      case True
      then have XD: "X = pxDelayedTaskList S0" using u ps by simp
      then have "\<not> ?wake < xTickCount S0" "X \<noteq> SuspendedTaskList" using dp(3,9) by (auto simp: X_def waits_in_def f0 split: if_splits)
      then show ?thesis using wrap vt True next_time(2) XD by (simp add: f0 X_def)
    next
      case False
      then show ?thesis using u old [OF False] t0 v(1) [of u] next_time(1) by (auto simp: time_ok_def f0 vS)
    qed
    then show "xTickCount S' < wake_time S' u" "xNextTaskUnblockTime S' \<le> wake_time S' u" by (simp_all add: fs f0)
  next
    fix u assume "place S' (StateItem u) = Some (pxOverflowDelayedTaskList S')"
    then have u: "place S' (StateItem u) = Some (pxOverflowDelayedTaskList S0)" by (simp add: fs f0)
    show "wake_time S' u < xTickCount S'"
    proof (cases "u = ?t")
      case True
      then have "X = pxOverflowDelayedTaskList S0" using u ps by simp
      then have "?wake < xTickCount S0" "X \<noteq> SuspendedTaskList" using dp(3,10) by (auto simp: X_def waits_in_def f0 split: if_splits)
      then show ?thesis using vt True by (simp add: fs f0 X_def)
    next
      case False
      then show ?thesis using u old [OF False] v(1) [of u] t0 by (simp add: time_ok_def fs f0 vS)
    qed
  qed (use ord tick in \<open>simp_all add: fs f0\<close>)
  moreover have "lists_ok S'" unfolding lists_ok_def
  proof (intro conjI allI impI)
    fix u p assume "place S' (StateItem u) = Some (Ready p)"
    then show "p = uxPriority S' u" using Xc(1) old [of u] lists_okD(2) [OF l0, of u p] ps by (cases "u = ?t") (auto simp: fs f0)
  next
    fix u L assume a: "place S' (StateItem u) = Some L"
    show "\<not> is_event_list L" "L \<noteq> PendingReadyList" using a Xc(2,3) old [of u] lists_okD(4) [OF l0, of u L] ps
      by (cases "u = ?t"; auto)+
  next
    fix u L assume a: "place S' (EventItem u) = Some L"
    then have a': "place S (EventItem u) = Some L" by (simp add: pl)
    have "(is_event_list L \<or> L = PendingReadyList) \<and> blocked S' u"
    proof (cases "u = ?t")
      case True
      then show ?thesis using a' w ps Xc(4) by (auto simp: blocked_def about_to_wait_def)
    next
      case False
      then show ?thesis using a' plS [of "EventItem u"] lists_okD(5) [OF l0, of u L] old [OF False] by (simp add: blocked_def)
    qed
    then show "is_event_list L \<or> L = PendingReadyList" "blocked S' u" by auto
  qed (use wf lists_okD(3) [OF l0] in \<open>simp_all add: fs f0\<close>)
  moreover have "is_ready S' idle" using i0 old [of idle] n by (simp add: is_ready_def fs f0)
  ultimately have "core_ok idle S'" using c b by (simp add: core_ok_def fs f0)
  then show ?thesis using same pl v vt by (simp add: left_to_wait_def)
qed

section \<open>The whole step\<close>

lemma add_current_ok:
  assumes c: "core_ok idle S0" and w: "about_to_wait S0 S" and r: "is_ready S0 (pxCurrentTCB S0)"
    and n: "pxCurrentTCB S0 \<noteq> idle" and t: "0 < ticks" "ticks < 4294967296"
  shows "\<exists>S'. prvAddCurrentTaskToDelayedList ticks indefinite S = Some S' \<and> core_ok idle S' \<and> left_to_wait ticks indefinite S S'"
proof -
  let ?t = "pxCurrentTCB S" and ?X = "waits_in ticks indefinite S" and ?wake = "(xTickCount S + ticks) mod 4294967296"
  obtain f where f: "S = in_lists f S0" using w by (auto simp: about_to_wait_def)
  have f0: "pxCurrentTCB S0 = ?t" "uxPriority S0 = uxPriority S" "pxDelayedTaskList S0 = pxDelayedTaskList S"
    "pxOverflowDelayedTaskList S0 = pxOverflowDelayedTaskList S" "uxTopReadyPriority S0 = uxTopReadyPriority S" by (simp_all add: f)
  have wf: "wf_lists (lists S)" and v: "val (lists S0) = val (lists S)"
    and pl: "\<And>i. i \<noteq> EventItem ?t \<Longrightarrow> place S0 i = place S i"
    and ev: "\<And>L. place S (EventItem ?t) = Some L \<Longrightarrow> is_event_list L"
    and ls: "\<And>L. \<not> is_event_list L \<Longrightarrow> list_of S0 L = list_of S L"
    using w by (auto simp: about_to_wait_def f0)
  have l0: "lists_ok S0" and b0: "bitmap_ok S0" and t0: "time_ok S0" using c by (auto simp: core_ok_def)
  have d: "delay_pointers S" using t0 by (simp add: time_ok_def delay_pointers_def f0)
  note dp = delay_pointersD [OF d]
  have pS: "place S (StateItem ?t) = Some (Ready (uxPriority S ?t))" using r pl [of "StateItem ?t"] by (simp add: is_ready_def f0)
  have evn: "place S (EventItem u) \<noteq> Some (Ready q)" for u q
    using ev [of "Ready q"] lists_okD(5) [OF l0, of u "Ready q"] pl [of "EventItem u"] by (cases "u = ?t") auto
  have b: "bitmap_ok S" using b0 pl by (simp add: bitmap_ok_def f0)
  let ?R = "drop_ready ?t S"
  note bR = drop_ready_bitmap [OF wf b pS evn]
  have wfR: "wf_lists (lists ?R)" and absent: "place ?R (StateItem ?t) = None" using wf by (simp_all add: wf_remove_item klists_simps)
  have ordR: "sorted (map (val (lists S)) (list_of ?R L))" if "L = pxDelayedTaskList S \<or> L = pxOverflowDelayedTaskList S" for L
  proof -
    have "\<not> is_event_list L" using that d by (auto simp: delay_pointers_def)
    then show ?thesis using that t0 ls by (auto simp: time_ok_def in_order_def f0 v entries_remove_item [OF wf] intro!: sorted_map_remove1)
  qed
  have wk: "?wake \<le> portMAX_DELAY" using mod_less_divisor [of 4294967296 "xTickCount S + ticks"] by (simp add: portMAX_DELAY_def)
  note wc = wait_core [OF c w n t]
  show ?thesis
  proof (cases "ticks = portMAX_DELAY \<and> indefinite")
    case True
    then have X: "?X = SuspendedTaskList" by (simp add: waits_in_def)
    let ?S = "in_lists (insert_end SuspendedTaskList (StateItem ?t)) ?R"
    have "core_ok idle ?S \<and> left_to_wait ticks indefinite S ?S"
    proof (rule wc)
      show "same_but_lists S ?S" by (rule same_but_lists_trans [OF drop_ready_same same_but_lists_intros(1)])
      show "bitmap_ok ?S" using bR by (simp add: bitmap_ok_def klists_simps)
      show "in_order ?S (pxDelayedTaskList S)" "in_order ?S (pxOverflowDelayedTaskList S)"
        using ordR dp(9,10) by (auto simp: in_order_def klists_simps)
    qed (use X wfR absent t0 dp(9) v in \<open>auto simp: klists_simps time_ok_def intro!: wf_intros\<close>)
    then show ?thesis using True X by (simp add: add_current_unfold [OF pS] Let_def)
  next
    case False
    then have X: "?X = (if ?wake < xTickCount S then pxOverflowDelayedTaskList S else pxDelayedTaskList S)"
      by (auto simp: waits_in_def)
    let ?V = "in_lists (set_value (StateItem ?t) ?wake) ?R"
    let ?I = "in_lists (insert_sorted ?X (StateItem ?t)) ?V"
    let ?S = "if \<not> ?wake < xTickCount S \<and> ?wake < xNextTaskUnblockTime S then ?I\<lparr>xNextTaskUnblockTime := ?wake\<rparr> else ?I"
    have ordV: "sorted (map ((val (lists S))(StateItem ?t := ?wake)) (list_of ?R L))"
      if "L = pxDelayedTaskList S \<or> L = pxOverflowDelayedTaskList S" for L
    proof -
      have "StateItem ?t \<notin> set (list_of ?R L)" using wf_listsD(1) [OF wfR] absent by auto
      then have "map ((val (lists S))(StateItem ?t := ?wake)) (list_of ?R L) = map (val (lists S)) (list_of ?R L)" by auto
      then show ?thesis using ordR [OF that] by (simp only:)
    qed
    have sI: "same_but_lists S ?I"
      by (rule same_but_lists_trans [OF drop_ready_same same_but_lists_trans [OF same_but_lists_intros(1,1)]])
    have sS: "same_but_lists S ?S" using sI same_but_lists_trans [OF sI same_but_lists_intros(4)] by simp
    have vR: "val (lists ?R) = val (lists S)" by (simp add: klists_simps)
    have LS: "lists ?S = lists ?I" by simp
    have XnR: "?X \<noteq> Ready q" "Ready q \<noteq> ?X" for q using X dp(7,8,11,12) by (simp_all split: if_splits)
    have LI: "lists ?I = insert_sorted ?X (StateItem ?t) (set_value (StateItem ?t) ?wake (lists ?R))" by simp
    have "core_ok idle ?S \<and> left_to_wait ticks indefinite S ?S"
    proof (rule wc [OF sS])
      have "(\<exists>u. place ?S (StateItem u) = Some (Ready p)) \<longleftrightarrow> (\<exists>u. place ?R (StateItem u) = Some (Ready p))" for p
        using XnR by (auto simp: LS LI klists_simps)
      then show "bitmap_ok ?S" using bR by (simp add: bitmap_ok_def)
      show "in_order ?S (pxDelayedTaskList S)" "in_order ?S (pxOverflowDelayedTaskList S)"
        using ordV dp(3) X sorted_put_sorted [OF ordV]
        by (auto simp: in_order_def LS LI klists_simps vR simp del: drop_ready_sel(1) split: if_splits)
    qed (use X wfR absent wk dp(3,9,10) in \<open>auto simp: LS LI klists_simps intro!: wf_intros split: if_splits\<close>)
    then show ?thesis using False X dp(9,10) by (auto simp: add_current_unfold [OF pS] Let_def)
  qed
qed

end
