(* ===== verification/KSchedIrq.thy ===== *)
theory KSchedIrq imports KSchedWait begin

text \<open>
  Interrupts: the tick, the pending switch, an interrupt handler that readies the first task of an
  event list or a suspended task. Each returns and keeps the scheduler in order.
\<close>

section \<open>The handlers\<close>

datatype irq = Tick | Switch | WakeFirst task_list | WakeTask task

text \<open>A handler passes the answer it gets to \<open>portYIELD_FROM_ISR\<close>.\<close>

fun do_irq :: "irq \<Rightarrow> 'z sched_scheme \<Rightarrow> 'z sched_scheme option" where
  "do_irq Tick S = xPortSysTickHandler S"
| "do_irq Switch S = (if pendsv S then xPortPendSVHandler S else Some S)"
| "do_irq (WakeFirst L) S =
     (if list_of S L = [] then Some S else do {
        (sw, S) \<leftarrow> xTaskRemoveFromEventList L S;
        Some (if sw then portYIELD S else S) })"
| "do_irq (WakeTask t) S = do {
     (sw, S) \<leftarrow> xTaskResumeFromISR t S;
     Some (if sw then portYIELD S else S) }"

fun do_irqs :: "irq list \<Rightarrow> 'z sched_scheme \<Rightarrow> 'z sched_scheme option" where
  "do_irqs [] S = Some S"
| "do_irqs (e # es) S = do { S \<leftarrow> do_irq e S; do_irqs es S }"

fun irq_legal :: "irq \<Rightarrow> bool" where
  "irq_legal Tick \<longleftrightarrow> True"
| "irq_legal Switch \<longleftrightarrow> True"
| "irq_legal (WakeFirst L) \<longleftrightarrow> is_event_list L"
| "irq_legal (WakeTask t) \<longleftrightarrow> t \<noteq> 0"

section \<open>Fields the invariants do not mention\<close>

lemma core_ok_flags [simp]:
  "core_ok idle (S\<lparr>pendsv := b\<rparr>) = core_ok idle S" "core_ok idle (S\<lparr>xYieldPending := b\<rparr>) = core_ok idle S"
  "core_ok idle (S\<lparr>uxPendedTicks := n\<rparr>) = core_ok idle S" "core_ok idle (S\<lparr>uxSchedulerSuspended := n\<rparr>) = core_ok idle S"
  "core_ok idle (S\<lparr>pxCurrentTCB := t\<rparr>) = core_ok idle S" "core_ok idle (portYIELD S) = core_ok idle S"
  by (rule core_ok_cong; simp add: portYIELD_def)+

lemma is_ready_flags [simp]:
  "is_ready (S\<lparr>pendsv := b\<rparr>) t = is_ready S t" "is_ready (S\<lparr>xYieldPending := b\<rparr>) t = is_ready S t"
  "is_ready (S\<lparr>uxPendedTicks := n\<rparr>) t = is_ready S t" "is_ready (S\<lparr>uxSchedulerSuspended := n\<rparr>) t = is_ready S t"
  "is_ready (S\<lparr>pxCurrentTCB := u\<rparr>) t = is_ready S t" "is_ready (portYIELD S) t = is_ready S t"
  by (simp_all add: is_ready_def portYIELD_def)

lemma on_top_flags [simp]:
  "on_top (S\<lparr>pendsv := b\<rparr>) = on_top S" "on_top (S\<lparr>xYieldPending := b\<rparr>) = on_top S"
  "on_top (S\<lparr>uxPendedTicks := n\<rparr>) = on_top S" "on_top (S\<lparr>uxSchedulerSuspended := n\<rparr>) = on_top S"
  "on_top (portYIELD S) = on_top S"
  by (simp_all add: on_top_def portYIELD_def)

lemma yield_sel [simp]:
  "pendsv (portYIELD S)" "lists (portYIELD S) = lists S" "uxPriority (portYIELD S) = uxPriority S"
  "pxCurrentTCB (portYIELD S) = pxCurrentTCB S" "uxSchedulerSuspended (portYIELD S) = uxSchedulerSuspended S"
  "xYieldPending (portYIELD S) = xYieldPending S" "xTickCount (portYIELD S) = xTickCount S"
  by (simp_all add: portYIELD_def)

section \<open>Event items move\<close>

text \<open>An event item goes to the list of pending tasks, or to none.\<close>

lemma event_move_core:
  assumes c: "core_ok idle S" and f: "S' = in_lists f S" and wf: "wf_lists (lists S')" and v: "val (lists S') = val (lists S)"
    and pl: "\<And>i. place S' i = (if i = EventItem t then X else place S i)"
    and X: "X = None \<or> X = Some PendingReadyList \<and> blocked S t"
    and ls: "\<And>L. \<not> is_event_list L \<Longrightarrow> L \<noteq> PendingReadyList \<Longrightarrow> list_of S' L = list_of S L"
  shows "core_ok idle S'"
proof -
  have l: "lists_ok S" and b: "bitmap_ok S" and tm: "time_ok S" and i: "is_ready S idle" using c by (auto simp: core_ok_def)
  have fS: "uxPriority S' = uxPriority S" "uxTopReadyPriority S' = uxTopReadyPriority S" "xTickCount S' = xTickCount S"
    "pxDelayedTaskList S' = pxDelayedTaskList S" "pxOverflowDelayedTaskList S' = pxOverflowDelayedTaskList S"
    "xNextTaskUnblockTime S' = xNextTaskUnblockTime S" "xSchedulerRunning S' = xSchedulerRunning S"
    "uxCurrentNumberOfTasks S' = uxCurrentNumberOfTasks S" by (simp_all add: f)
  have bl: "blocked S' u = blocked S u" for u by (simp add: blocked_def pl)
  have d: "delay_pointers S" using tm by (simp add: time_ok_def)
  have "lists_ok S'" unfolding lists_ok_def
  proof (intro conjI allI impI)
    fix u L assume "place S' (EventItem u) = Some L"
    then have "(is_event_list L \<or> L = PendingReadyList) \<and> blocked S' u"
      using X lists_okD(5) [OF l, of u L] by (auto simp: pl bl split: if_splits)
    then show "is_event_list L \<or> L = PendingReadyList" "blocked S' u" by auto
  next
    fix u p assume "place S' (StateItem u) = Some (Ready p)"
    then show "p = uxPriority S' u" using lists_okD(2) [OF l, of u p] by (simp add: pl fS)
  next
    fix u L assume "place S' (StateItem u) = Some L"
    then show "\<not> is_event_list L" "L \<noteq> PendingReadyList" using lists_okD(4) [OF l, of u L] by (simp_all add: pl)
  qed (use wf lists_okD(3) [OF l] in \<open>simp_all add: fS\<close>)
  moreover have "bitmap_ok S'" using b pl by (simp add: bitmap_ok_def fS)
  moreover have "time_ok S'"
  proof -
    have "in_order S' L = in_order S L" if "L \<in> delayed_lists" for L
      using that ls [of L] by (auto simp: in_order_def v delayed_lists_def)
    then show ?thesis using tm d delay_pointersD(1,2) [OF d] pl v by (simp add: time_ok_def fS delay_pointers_def)
  qed
  moreover have "is_ready S' idle" using i by (simp add: is_ready_def pl fS)
  ultimately show ?thesis using c by (simp add: core_ok_def fS)
qed

lemma to_pending_core:
  assumes c: "core_ok idle S" and b: "blocked S t"
    and e: "place S (EventItem t) = None \<or> (\<exists>L. place S (EventItem t) = Some L)"
  shows "core_ok idle (in_lists (\<lambda>K. insert_end PendingReadyList (EventItem t) (remove_item (EventItem t) K)) S)"
proof (rule event_move_core [OF c refl, of _ t "Some PendingReadyList"])
  let ?S = "in_lists (\<lambda>K. insert_end PendingReadyList (EventItem t) (remove_item (EventItem t) K)) S"
  have l: "lists_ok S" using c by (simp add: core_ok_def)
  note wf = lists_okD(1) [OF l]
  show "wf_lists (lists ?S)" using wf by (simp add: wf_intros klists_simps)
  show "list_of ?S L = list_of S L" if "\<not> is_event_list L" "L \<noteq> PendingReadyList" for L
  proof -
    have "EventItem t \<notin> set (list_of S L)" using state_item_only [OF l that] by blast
    then show ?thesis using that(2) by (simp add: klists_simps entries_remove_item [OF wf] remove1_idem)
  qed
qed (use b in \<open>simp_all add: klists_simps\<close>)

section \<open>While the scheduler is suspended\<close>

definition stays :: "task \<Rightarrow> 'z sched_scheme \<Rightarrow> 'z sched_scheme \<Rightarrow> bool" where
  "stays idle S S' \<longleftrightarrow> core_ok idle S' \<and> switch_ok S' \<and> uxSchedulerSuspended S' = uxSchedulerSuspended S \<and>
     pxCurrentTCB S' = pxCurrentTCB S \<and> uxPriority S' = uxPriority S \<and> (\<forall>t. place S' (StateItem t) = place S (StateItem t)) \<and>
     xTickCount S' = xTickCount S \<and> pxDelayedTaskList S' = pxDelayedTaskList S \<and>
     (\<forall>t. wake_time S' t = wake_time S t)"

lemma wake_first_parts:
  assumes c: "core_ok idle S" and L: "is_event_list L" and ne: "list_of S L \<noteq> []"
  obtains t where "head_owner L S = Some t" "place S (EventItem t) = Some L" "blocked S t"
proof -
  have l: "lists_ok S" using c by (simp add: core_ok_def)
  obtain i js where ij: "list_of S L = i # js" using ne by (cases "list_of S L") auto
  obtain t where t: "i = EventItem t" using event_item_only [OF l, of L i] L ij by auto
  have "place S (EventItem t) = Some L" using wf_listsD(1) [OF lists_okD(1) [OF l], of "EventItem t" L] ij t by simp
  then show ?thesis using that [of t] ij t lists_okD(5) [OF l, of t L] by (simp add: head_owner_def)
qed

lemma irq_suspended:
  assumes c: "core_ok idle S" and s: "switch_ok S" and n: "uxSchedulerSuspended S \<noteq> 0" and e: "irq_legal e"
  shows "\<exists>S'. do_irq e S = Some S' \<and> stays idle S S'"
proof (cases e)
  case Tick
  then show ?thesis using c s n
    by (auto simp: xPortSysTickHandler_def xTaskIncrementTick_def stays_def switch_ok_def portYIELD_def
      core_ok_flags [unfolded portYIELD_def])
next
  case Switch
  then show ?thesis using c s n by (auto simp: xPortPendSVHandler_def vTaskSwitchContext_def stays_def switch_ok_def)
next
  case (WakeFirst L)
  show ?thesis
  proof (cases "list_of S L = []")
    case True
    then show ?thesis using WakeFirst c s by (simp add: stays_def)
  next
    case False
    obtain t where t: "head_owner L S = Some t" "place S (EventItem t) = Some L" "blocked S t"
      using wake_first_parts [OF c _ False] WakeFirst e by auto
    let ?S = "in_lists (\<lambda>K. insert_end PendingReadyList (EventItem t) (remove_item (EventItem t) K)) S"
    have cS: "core_ok idle ?S" by (rule to_pending_core [OF c t(3)]) (use t(2) in simp)
    have "is_ready ?S u = is_ready S u" for u by (simp add: is_ready_def klists_simps)
    then have "on_top ?S = on_top S" by (simp add: on_top_def)
    then show ?thesis using WakeFirst False t(1) take_off_eq [OF t(2)] n cS s
      by (auto simp: xTaskRemoveFromEventList_def Let_def in_lists_in_lists stays_def switch_ok_def klists_simps portYIELD_def
        core_ok_flags [unfolded portYIELD_def])
  qed
next
  case (WakeTask t)
  show ?thesis
  proof (cases "prvTaskIsTaskSuspended t S")
    case False
    then show ?thesis using WakeTask e c s by (simp add: xTaskResumeFromISR_def configASSERT_def stays_def)
  next
    case True
    let ?S = "in_lists (\<lambda>K. insert_end PendingReadyList (EventItem t) (remove_item (EventItem t) K)) S"
    have p: "place S (EventItem t) = None" "blocked S t" using True by (auto simp: prvTaskIsTaskSuspended_def blocked_def)
    have eq: "in_lists (insert_end PendingReadyList (EventItem t)) S = ?S" using p(1) by (simp add: in_lists_def remove_absent)
    have cS: "core_ok idle ?S" by (rule to_pending_core [OF c p(2)]) (use p(1) in simp)
    have "is_ready ?S u = is_ready S u" for u by (simp add: is_ready_def klists_simps)
    then have "on_top ?S = on_top S" by (simp add: on_top_def)
    then show ?thesis using WakeTask e True n cS s eq
      by (auto simp: xTaskResumeFromISR_def configASSERT_def stays_def switch_ok_def klists_simps)
  qed
qed

lemma irqs_suspended:
  "core_ok idle S \<Longrightarrow> switch_ok S \<Longrightarrow> uxSchedulerSuspended S \<noteq> 0 \<Longrightarrow> list_all irq_legal es \<Longrightarrow>
    \<exists>S'. do_irqs es S = Some S' \<and> stays idle S S'"
proof (induction es arbitrary: S)
  case (Cons e es)
  from irq_suspended [OF Cons.prems(1-3), of e] Cons.prems(4) obtain S1 where 1: "do_irq e S = Some S1" "stays idle S S1" by auto
  from Cons.IH [of S1] 1(2) Cons.prems(3,4) obtain S' where "do_irqs es S1 = Some S'" "stays idle S1 S'"
    by (auto simp: stays_def)
  then show ?case using 1 by (auto simp: stays_def)
qed (simp add: stays_def)

section \<open>While it runs\<close>

lemma turn_core:
  assumes c: "core_ok idle S" and m: "entries m = list_of S L"
  shows "core_ok idle (S\<lparr>lists := on_list L (\<lambda>_. m) (lists S)\<rparr>)" (is "core_ok idle ?S")
proof -
  have l: "lists_ok S" and b: "bitmap_ok S" and t: "time_ok S" and i: "is_ready S idle" using c by (auto simp: core_ok_def)
  have pl: "place ?S x = place S x" and v: "val (lists ?S) = val (lists S)" for x by (simp_all add: klists_simps)
  have ls: "list_of ?S M = list_of S M" for M using m by (simp add: klists_simps)
  have "wf_lists (lists ?S)" using wf_turn [OF lists_okD(1) [OF l] m] by simp
  then have "lists_ok ?S" using l pl by (simp add: lists_ok_def blocked_def)
  moreover have "bitmap_ok ?S" using b pl by (simp add: bitmap_ok_def)
  moreover have "time_ok ?S" using t pl ls v by (simp add: time_ok_def delay_pointers_def in_order_def)
  moreover have "is_ready ?S idle" using i pl by (simp add: is_ready_def)
  ultimately show ?thesis using c by (simp add: core_ok_def)
qed

lemma switch_context_ok:
  assumes c: "core_ok idle S" and n: "uxSchedulerSuspended S = 0" and p: "\<And>t. place S (EventItem t) \<noteq> Some PendingReadyList"
  shows "\<exists>S'. xPortPendSVHandler S = Some S' \<and> sched_ok idle S' \<and> \<not> pendsv S' \<and> uxSchedulerSuspended S' = 0"
proof -
  have l: "lists_ok S" and b: "bitmap_ok S" and i: "is_ready S idle" using c by (auto simp: core_ok_def)
  note wf = lists_okD(1) [OF l]
  have lt: "uxPriority S t < 32" for t using lists_okD(3) [OF l, of t] by (simp add: configMAX_PRIORITIES_def)
  have bits: "bit (uxTopReadyPriority S) q \<longleftrightarrow> (\<exists>t. is_ready S t \<and> uxPriority S t = q)" for q
  proof (cases "q < 32")
    case True
    then show ?thesis using b lists_okD(2) [OF l] by (auto simp: bitmap_ok_def is_ready_def)
  next
    case False
    then have "\<not> bit (uxTopReadyPriority S) q" using bit_imp_le_length [of "uxTopReadyPriority S" q] by auto
    then show ?thesis using lt False by auto
  qed
  define top where "top = Max {uxPriority S t | t. is_ready S t}"
  have fin: "finite {uxPriority S t | t. is_ready S t}" using lt by (intro finite_subset [OF _ finite_lessThan [of 32]]) auto
  have "top \<in> {uxPriority S t | t. is_ready S t}" unfolding top_def by (rule Max_in [OF fin]) (use i in auto)
  then obtain u where u: "is_ready S u" "uxPriority S u = top" by auto
  have max: "is_ready S t \<Longrightarrow> uxPriority S t \<le> top" for t unfolding top_def by (rule Max_ge [OF fin]) auto
  have high: "portGET_HIGHEST_PRIORITY (uxTopReadyPriority S) = top"
    by (rule highest_priority) (use bits u max in auto)
  have "StateItem u \<in> set (list_of S (Ready top))" using wf_listsD(1) [OF wf] u by (auto simp: is_ready_def)
  then have ne: "list_of S (Ready top) \<noteq> []" by auto
  then obtain j m where t: "turn (seq (lists S) (Ready top)) = Some (j, m)" using turn_exists by blast
  have "j \<in> set (list_of S (Ready top))" by (rule turn_in [OF t])
  then obtain v where v: "j = StateItem v" "place S (StateItem v) = Some (Ready top)"
    using state_item_only [OF l, of "Ready top" j] wf_listsD(1) [OF wf] by auto
  have vt: "uxPriority S v = top" using lists_okD(2) [OF l v(2)] by simp
  have ent: "entries m = list_of S (Ready top)" by (rule entries_turn [OF t])
  let ?K = "on_list (Ready top) (\<lambda>_. m) (lists S)"
  let ?S = "S\<lparr>pendsv := False, xYieldPending := False, lists := ?K, pxCurrentTCB := v\<rparr>"
  have plK: "place ?S x = place S x" for x by (simp add: klists_simps)
  have "core_ok idle (S\<lparr>lists := ?K\<rparr>)" by (rule turn_core [OF c ent])
  then have "core_ok idle ?S" by (subst core_ok_cong [of _ "S\<lparr>lists := ?K\<rparr>"]) simp_all
  moreover have "on_top ?S" using max vt plK by (simp add: on_top_def is_ready_def)
  moreover have "is_ready ?S v" using v(2) vt plK by (simp add: is_ready_def)
  moreover have "xPortPendSVHandler S = Some ?S" using n high t v(1) ne
    by (simp add: xPortPendSVHandler_def vTaskSwitchContext_def taskSELECT_HIGHEST_PRIORITY_TASK_def Let_def
      configASSERT_def in_lists_def)
  ultimately show ?thesis using n p plK by (auto simp: sched_ok_def switch_ok_def)
qed

lemma sched_okD:
  assumes "sched_ok idle S"
  shows "core_ok idle S" "switch_ok S" "uxSchedulerSuspended S \<noteq> 0 \<or> \<not> pendsv S \<Longrightarrow> is_ready S (pxCurrentTCB S)"
    "uxSchedulerSuspended S = 0 \<Longrightarrow> place S (EventItem t) \<noteq> Some PendingReadyList"
    "uxSchedulerSuspended S = 0 \<Longrightarrow> \<not> pendsv S \<Longrightarrow> on_top S"
    "uxSchedulerSuspended S = 0 \<Longrightarrow> xYieldPending S \<Longrightarrow> pendsv S"
  using assms by (auto simp: sched_ok_def switch_ok_def)

text \<open>A blocked task becomes ready; a switch is asked for when it has a higher priority.\<close>

lemma make_ready_sched:
  assumes s: "sched_ok idle S" and n: "uxSchedulerSuspended S = 0" and b: "blocked S t"
    and S': "S' = (if y then portYIELD (make_ready t S) else make_ready t S) \<or>
      S' = portYIELD (make_ready t S\<lparr>xYieldPending := True\<rparr>) \<and> y"
    and y: "\<not> y \<Longrightarrow> uxPriority S t \<le> uxPriority S (pxCurrentTCB S)"
  shows "sched_ok idle S'" "uxSchedulerSuspended S' = 0"
proof -
  note d = sched_okD [OF s]
  let ?M = "make_ready t S"
  have c: "core_ok idle ?M" by (rule make_ready_core [OF d(1) b])
  note f = same_but_listsD [OF make_ready_same [of S t]]
  have rdy: "is_ready ?M u \<longleftrightarrow> is_ready S u \<or> u = t" for u by (auto simp: is_ready_def make_ready_place)
  have pen: "place ?M (EventItem u) \<noteq> Some PendingReadyList" for u using d(4) [OF n, of u] by (simp add: make_ready_place)
  have top: "on_top ?M" if "\<not> y" "\<not> pendsv S" using d(5) [OF n that(2)] y [OF that(1)] rdy f by (auto simp: on_top_def)
  have "sched_ok idle ?M" if "\<not> y"
    using that c top pen d(3,6) n f rdy by (auto simp: sched_ok_def switch_ok_def)
  moreover have "sched_ok idle (portYIELD ?M)" "sched_ok idle (portYIELD (?M\<lparr>xYieldPending := True\<rparr>))"
    using c pen n f rdy d(3) by (auto simp: sched_ok_def switch_ok_def)
  ultimately show "sched_ok idle S'" using S' by (cases y) auto
  show "uxSchedulerSuspended S' = 0" using S' n f by (auto split: if_splits)
qed

lemma irq_running:
  assumes s: "sched_ok idle S" and n: "uxSchedulerSuspended S = 0" and e: "irq_legal e"
  shows "\<exists>S'. do_irq e S = Some S' \<and> sched_ok idle S' \<and> uxSchedulerSuspended S' = 0"
proof (cases e)
  case Tick
  note d = sched_okD [OF s]
  obtain sw S1 where 1: "xTaskIncrementTick S = Some (sw, S1)" "ticked idle S S1"
    "sw \<longleftrightarrow> (\<exists>t. next_due S t \<and> uxPriority S (pxCurrentTCB S) \<le> uxPriority S t) \<or>
       1 < length (list_of S1 (Ready (uxPriority S (pxCurrentTCB S)))) \<or> xYieldPending S"
    using tick_ok [OF d(1) n] by blast
  note k = tickedD [OF 1(2)] and f = same_but_timeD [OF tickedD(2) [OF 1(2)]]
  have rdy: "is_ready S t \<Longrightarrow> is_ready S1 t" for t using k(5) [of t] f by (auto simp: is_ready_def)
  have pen: "place S1 (EventItem t) \<noteq> Some PendingReadyList" for t using k(6) [of t] d(4) [OF n, of t] by auto
  have top: "on_top S1" if "\<not> sw" "\<not> pendsv S" using tick_on_top [OF 1(2) d(5) [OF n that(2)]] that(1) 1(3) by blast
  have "sched_ok idle (portYIELD S1)" using k(1) pen n f rdy by (auto simp: sched_ok_def switch_ok_def)
  moreover have "sched_ok idle S1" if "\<not> sw"
    using that k(1) top pen n f rdy d(3) 1(3) by (auto simp: sched_ok_def switch_ok_def)
  ultimately show ?thesis using Tick 1(1) f n by (cases sw) (auto simp: xPortSysTickHandler_def)
next
  case Switch
  then show ?thesis using switch_context_ok [OF sched_okD(1) [OF s] n sched_okD(4) [OF s n]] s n by auto
next
  case (WakeFirst L)
  show ?thesis
  proof (cases "list_of S L = []")
    case False
    obtain t where t: "head_owner L S = Some t" "place S (EventItem t) = Some L" "blocked S t"
      using wake_first_parts [OF sched_okD(1) [OF s] _ False] WakeFirst e by auto
    then obtain M where M: "place S (StateItem t) = Some M" by (auto simp: blocked_def)
    have "place (in_lists (remove_item (EventItem t)) S) (StateItem t) = Some M" using M by (simp add: klists_simps)
    note r = take_off_eq [OF t(2)] take_off_eq [OF this]
    let ?y = "uxPriority S (pxCurrentTCB S) < uxPriority S t"
    have sel: "xTaskRemoveFromEventList L S =
        Some (if ?y then (True, make_ready t S\<lparr>xYieldPending := True\<rparr>) else (False, make_ready t S))"
      using t(1) r n by (simp add: xTaskRemoveFromEventList_def Let_def in_lists_in_lists make_ready_alt)
    show ?thesis
    proof (cases ?y)
      case True
      note ms = make_ready_sched [OF s n t(3), of "portYIELD (make_ready t S\<lparr>xYieldPending := True\<rparr>)" True]
      show ?thesis using WakeFirst False sel True ms by auto
    next
      case no: False
      note ms = make_ready_sched [OF s n t(3), of "make_ready t S" False]
      show ?thesis using WakeFirst False sel no ms by auto
    qed
  qed (use WakeFirst s n in simp)
next
  case (WakeTask t)
  show ?thesis
  proof (cases "prvTaskIsTaskSuspended t S")
    case True
    have p: "place S (EventItem t) = None" "blocked S t" "place S (StateItem t) = Some SuspendedTaskList"
      using True by (auto simp: prvTaskIsTaskSuspended_def blocked_def)
    let ?y = "uxPriority S (pxCurrentTCB S) \<le> uxPriority S t"
    have sel: "do_irq e S = Some (if ?y then portYIELD (make_ready t S) else make_ready t S)"
      using ready_from_state [OF p(1,3)] WakeTask e True n
      by (auto simp: xTaskResumeFromISR_def configASSERT_def Let_def bind_eq_Some_conv split_def)
    show ?thesis unfolding sel using make_ready_sched [OF s n p(2), of _ ?y] by auto
  qed (use WakeTask e s n in \<open>simp add: xTaskResumeFromISR_def configASSERT_def\<close>)
qed

lemma irq_ok:
  assumes s: "sched_ok idle S" and e: "irq_legal e"
  shows "\<exists>S'. do_irq e S = Some S' \<and> sched_ok idle S' \<and> uxSchedulerSuspended S' = uxSchedulerSuspended S"
proof (cases "uxSchedulerSuspended S = 0")
  case True
  then show ?thesis using irq_running [OF s True e] by auto
next
  case False
  from irq_suspended [OF sched_okD(1,2) [OF s] False e] obtain S' where "do_irq e S = Some S'" "stays idle S S'" by auto
  then show ?thesis using sched_okD(3) [OF s] False by (auto simp: sched_ok_def stays_def is_ready_def)
qed

end
