(* ===== verification/KSchedCalls.thy ===== *)
theory KSchedCalls imports KSchedIrq begin

text \<open>
  Each call of the task API keeps the scheduler in order, whatever interrupts come while it has the
  scheduler suspended.
\<close>

section \<open>Waiting\<close>

lemma suspend_all_core:
  assumes "sched_ok idle S"
  shows "core_ok idle (vTaskSuspendAll S)" "uxSchedulerSuspended S = 0 \<Longrightarrow> uxSchedulerSuspended (vTaskSuspendAll S) = 1"
    "lists (vTaskSuspendAll S) = lists S" "pxCurrentTCB (vTaskSuspendAll S) = pxCurrentTCB S"
    "is_ready (vTaskSuspendAll S) t = is_ready S t" "on_top (vTaskSuspendAll S) = on_top S"
    "pendsv (vTaskSuspendAll S) = pendsv S" "xYieldPending (vTaskSuspendAll S) = xYieldPending S"
    "xTickCount (vTaskSuspendAll S) = xTickCount S" "uxPriority (vTaskSuspendAll S) = uxPriority S"
  using sched_okD(1) [OF assms] by (simp_all add: vTaskSuspendAll_def inc32_def)

lemma ready_no_event:
  assumes "lists_ok S" "is_ready S t"
  shows "place S (EventItem t) = None"
  using lists_okD(5) [OF assms(1), of t] assms(2) by (cases "place S (EventItem t)") (auto simp: is_ready_def blocked_def)

lemma wait_ok:
  assumes c: "core_ok idle A" "switch_ok A" "uxSchedulerSuspended A = 1" and r: "is_ready A (pxCurrentTCB A)"
    and i: "pxCurrentTCB A \<noteq> idle" and w: "about_to_wait A S2" and t: "0 < ticks" "ticks < 4294967296"
    and es: "list_all irq_legal es"
  obtains S3 S4 y S5 where "prvAddCurrentTaskToDelayedList ticks ind S2 = Some S3" "do_irqs es S3 = Some S4"
    "xTaskResumeAll S4 = Some (y, S5)" "sched_ok idle (if y then S5 else portYIELD S5)"
    "pendsv (if y then S5 else portYIELD S5)" "uxSchedulerSuspended S5 = 0"
proof -
  have f: "pxCurrentTCB S2 = pxCurrentTCB A" "uxPriority S2 = uxPriority A" "pendsv S2 = pendsv A"
    "xYieldPending S2 = xYieldPending A" "uxSchedulerSuspended S2 = 1"
    using w c(3) by (auto simp: about_to_wait_def)
  from add_current_ok [OF c(1) w r i t] obtain S3 where
    3: "prvAddCurrentTaskToDelayedList ticks ind S2 = Some S3" "core_ok idle S3" "left_to_wait ticks ind S2 S3" by auto
  have l3: "same_but_lists S2 S3" "\<And>j. place S3 j = (if j = StateItem (pxCurrentTCB S2) then Some (waits_in ticks ind S2) else place S2 j)"
    using 3(3) by (auto simp: left_to_wait_def)
  note f3 = same_but_listsD [OF l3(1)]
  have pl2: "place S2 (StateItem u) = place A (StateItem u)" for u using w by (auto simp: about_to_wait_def)
  have "waits_in ticks ind S2 \<noteq> Ready p" for p
  proof -
    have "delay_pointers A" using c(1) by (simp add: core_ok_def time_ok_def)
    from delay_pointersD(7,8) [OF this, of p] show ?thesis using w by (auto simp: about_to_wait_def waits_in_def)
  qed
  then have "is_ready S3 u \<Longrightarrow> is_ready A u" for u using l3(2) pl2 f f3 by (auto simp: is_ready_def split: if_splits)
  then have "on_top S3" if "on_top A" using that f f3 by (auto simp: on_top_def)
  then have s3: "switch_ok S3" using c(2) f f3 by (auto simp: switch_ok_def)
  have "uxSchedulerSuspended S3 \<noteq> 0" using f f3 by simp
  from irqs_suspended [OF 3(2) s3 this es] obtain S4 where 4: "do_irqs es S3 = Some S4" "stays idle S3 S4" by blast
  have s4: "core_ok idle S4" "switch_ok S4" "uxSchedulerSuspended S4 = 1" using 4(2) f f3 by (auto simp: stays_def)
  from xTaskResumeAll_ok [OF s4(1,2)] s4(3) obtain y S5 where
    5: "xTaskResumeAll S4 = Some (y, S5)" "resumed idle S4 y S5" "uxSchedulerSuspended S5 = 0" by auto
  have "sched_ok idle (if y then S5 else portYIELD S5)" "pendsv (if y then S5 else portYIELD S5)"
    using 5(2,3) by (auto simp: resumed_def sched_ok_def switch_ok_def)
  then show ?thesis by (rule that [OF 3(1) 4(1) 5(1) _ _ 5(3)])
qed

lemma suspended_now:
  assumes s: "sched_ok idle S" and n: "uxSchedulerSuspended S = 0" "\<not> pendsv S"
  shows "core_ok idle (vTaskSuspendAll S)" "switch_ok (vTaskSuspendAll S)" "uxSchedulerSuspended (vTaskSuspendAll S) = 1"
    "is_ready (vTaskSuspendAll S) (pxCurrentTCB (vTaskSuspendAll S))" "pxCurrentTCB (vTaskSuspendAll S) = pxCurrentTCB S"
    "about_to_wait (vTaskSuspendAll S) (vTaskSuspendAll S)"
proof -
  note a = suspend_all_core [OF s] and d = sched_okD [OF s]
  show 1: "core_ok idle (vTaskSuspendAll S)" "uxSchedulerSuspended (vTaskSuspendAll S) = 1"
    "is_ready (vTaskSuspendAll S) (pxCurrentTCB (vTaskSuspendAll S))" "pxCurrentTCB (vTaskSuspendAll S) = pxCurrentTCB S"
    using a(1,2,4,5) d(3) n by simp_all
  show "switch_ok (vTaskSuspendAll S)" using 1(2) a(6-8) d(2) by (auto simp: switch_ok_def)
  have l: "lists_ok (vTaskSuspendAll S)" using 1(1) by (simp add: core_ok_def)
  show "about_to_wait (vTaskSuspendAll S) (vTaskSuspendAll S)"
    by (rule about_to_wait_none [OF l ready_no_event [OF l 1(3)]])
qed

lemma vTaskDelay_kernel_ok:
  assumes s: "sched_ok idle S" and n: "uxSchedulerSuspended S = 0" "\<not> pendsv S" and i: "pxCurrentTCB S \<noteq> idle \<or> ticks = 0"
    and t: "ticks < 4294967296" and es: "list_all irq_legal es"
  shows "\<exists>S'. vTaskDelay_kernel (do_irqs es) ticks S = Some S' \<and> sched_ok idle S' \<and> pendsv S'"
proof (cases "ticks = 0")
  case True
  have "sched_ok idle (portYIELD S)" using s n by (auto simp: sched_ok_def switch_ok_def)
  then show ?thesis using True by (auto simp: vTaskDelay_kernel_def)
next
  case False
  note a = suspended_now [OF s n]
  have "pxCurrentTCB (vTaskSuspendAll S) \<noteq> idle" "0 < ticks" using i False a(5) by auto
  from wait_ok [OF a(1-4) this(1) a(6) this(2) t es, of False] obtain S3 S4 y S5 where
    "prvAddCurrentTaskToDelayedList ticks False (vTaskSuspendAll S) = Some S3" "do_irqs es S3 = Some S4"
    "xTaskResumeAll S4 = Some (y, S5)" "sched_ok idle (if y then S5 else portYIELD S5)"
    "pendsv (if y then S5 else portYIELD S5)" .
  then show ?thesis using False n by (simp add: vTaskDelay_kernel_def configASSERT_def)
qed

lemma wrapped_distance:
  fixes w n :: nat
  assumes "w < 4294967296" "n < 4294967296" "w \<noteq> n"
  shows "0 < (w + 4294967296 - n) mod 4294967296"
  using assms by (cases "n \<le> w") (auto simp: mod_if)

lemma vTaskDelayUntil_ok:
  assumes s: "sched_ok idle S" and n: "uxSchedulerSuspended S = 0" "\<not> pendsv S" and i: "pxCurrentTCB S \<noteq> idle"
    and t: "0 < inc" "inc < 4294967296" "prev < 4294967296" and es: "list_all irq_legal es"
  shows "\<exists>w S'. vTaskDelayUntil (do_irqs es) prev inc S = Some (w, S') \<and> sched_ok idle S'"
proof -
  note a = suspend_all_core [OF s] and d = sched_okD [OF s] and w = suspended_now [OF s n]
  let ?A = "vTaskSuspendAll S" and ?wake = "(prev + inc) mod 4294967296" and ?now = "xTickCount S"
  define delay where "delay = (if ?now < prev then ?wake < prev \<and> ?now < ?wake else ?wake < prev \<or> ?now < ?wake)"
  have i': "pxCurrentTCB ?A \<noteq> idle" using i w(5) by simp
  show ?thesis
  proof (cases delay)
    case True
    have tick: "?now < 4294967296" using d(1) by (simp add: core_ok_def time_ok_def)
    have ne: "?wake \<noteq> ?now" using True unfolding delay_def by (metis less_irrefl not_less_iff_gr_or_eq)
    let ?ticks = "(?wake + 4294967296 - ?now) mod 4294967296"
    have ticks: "0 < ?ticks" "?ticks < 4294967296" using wrapped_distance [OF _ tick ne] by simp_all
    from wait_ok [OF w(1-4) i' w(6) ticks es, of False] obtain S3 S4 y S5 where
      "prvAddCurrentTaskToDelayedList ?ticks False ?A = Some S3" "do_irqs es S3 = Some S4"
      "xTaskResumeAll S4 = Some (y, S5)" "sched_ok idle (if y then S5 else portYIELD S5)" .
    then show ?thesis using True n t(1) a(9) unfolding delay_def
      by (cases "?now < prev") (auto simp: vTaskDelayUntil_def configASSERT_def Let_def)
  next
    case False
    have c: "core_ok idle ?A" "switch_ok ?A" "uxSchedulerSuspended ?A \<noteq> 0" "uxSchedulerSuspended ?A = 1"
      using w by simp_all
    from irqs_suspended [OF c(1-3) es] obtain S1 where 1: "do_irqs es ?A = Some S1" "stays idle ?A S1" by blast
    have s1: "core_ok idle S1" "switch_ok S1" "uxSchedulerSuspended S1 = 1" using 1(2) c(4) by (auto simp: stays_def)
    from xTaskResumeAll_ok [OF s1(1,2)] s1(3) obtain y S2 where
      2: "xTaskResumeAll S1 = Some (y, S2)" "resumed idle S1 y S2" "uxSchedulerSuspended S2 = 0" by auto
    have "sched_ok idle (if y then S2 else portYIELD S2)" using 2(2,3) by (auto simp: resumed_def sched_ok_def switch_ok_def)
    then show ?thesis using False n t(1) a(9) 1(1) 2(1) unfolding delay_def
      by (cases "?now < prev") (auto simp: vTaskDelayUntil_def configASSERT_def Let_def)
  qed
qed

text \<open>Waiting for an event, as the queues do it.\<close>

definition wait_for_event :: "('z sched_scheme \<Rightarrow> 'z sched_scheme option) \<Rightarrow> task_list \<Rightarrow> nat \<Rightarrow> 'z sched_scheme \<Rightarrow> 'z sched_scheme option" where
  "wait_for_event irqs L ticks S = do {
     S \<leftarrow> vTaskPlaceOnEventList L ticks (vTaskSuspendAll S);
     S \<leftarrow> irqs S;
     (yielded, S) \<leftarrow> xTaskResumeAll S;
     Some (if yielded then S else portYIELD S) }"

lemma place_on_event_ok:
  assumes c: "core_ok idle A" "switch_ok A" "uxSchedulerSuspended A = 1" and r: "is_ready A (pxCurrentTCB A)"
    and i: "pxCurrentTCB A \<noteq> idle" and t: "0 < ticks" "ticks < 4294967296" and L: "is_event_list L"
    and es: "list_all irq_legal es"
  shows "\<exists>S3 S4 y S5. vTaskPlaceOnEventList L ticks A = Some S3 \<and> do_irqs es S3 = Some S4 \<and> xTaskResumeAll S4 = Some (y, S5) \<and>
    sched_ok idle (if y then S5 else portYIELD S5) \<and> pendsv (if y then S5 else portYIELD S5) \<and> uxSchedulerSuspended S5 = 0"
proof -
  have l: "lists_ok A" using c(1) by (simp add: core_ok_def)
  from wait_ok [OF c r i about_to_wait_event(1) [OF l L ready_no_event [OF l r]] t es, of True] obtain S3 S4 y S5 where
    w: "prvAddCurrentTaskToDelayedList ticks True (in_lists (insert_sorted L (EventItem (pxCurrentTCB A))) A) = Some S3"
    "do_irqs es S3 = Some S4" "xTaskResumeAll S4 = Some (y, S5)"
    "sched_ok idle (if y then S5 else portYIELD S5)" "pendsv (if y then S5 else portYIELD S5)" "uxSchedulerSuspended S5 = 0" .
  then have "vTaskPlaceOnEventList L ticks A = Some S3" by (simp only: vTaskPlaceOnEventList_def)
  then show ?thesis using w(2-) by blast
qed

lemma wait_for_event_ok:
  assumes s: "sched_ok idle S" and n: "uxSchedulerSuspended S = 0" "\<not> pendsv S" and i: "pxCurrentTCB S \<noteq> idle"
    and t: "0 < ticks" "ticks < 4294967296" and L: "is_event_list L" and es: "list_all irq_legal es"
  shows "\<exists>S'. wait_for_event (do_irqs es) L ticks S = Some S' \<and> sched_ok idle S' \<and> pendsv S'"
proof -
  note w = suspended_now [OF s n]
  have "pxCurrentTCB (vTaskSuspendAll S) \<noteq> idle" using i w(5) by simp
  from place_on_event_ok [OF w(1-4) this t L es] obtain S3 S4 y S5 where
    "vTaskPlaceOnEventList L ticks (vTaskSuspendAll S) = Some S3" "do_irqs es S3 = Some S4"
    "xTaskResumeAll S4 = Some (y, S5)" "sched_ok idle (if y then S5 else portYIELD S5)"
    "pendsv (if y then S5 else portYIELD S5)" by blast
  then show ?thesis by (simp add: wait_for_event_def)
qed

section \<open>Suspending and resuming the scheduler\<close>

lemma vTaskSuspendAll_ok:
  assumes s: "sched_ok idle S" and n: "\<not> pendsv S" "uxSchedulerSuspended S + 1 < 4294967296"
  shows "sched_ok idle (vTaskSuspendAll S)"
proof -
  note a = suspend_all_core [OF s] and d = sched_okD [OF s]
  have "uxSchedulerSuspended (vTaskSuspendAll S) \<noteq> 0" using n(2) by (simp add: vTaskSuspendAll_def inc32_def)
  then show ?thesis using a d(2,3) n(1) by (auto simp: sched_ok_def switch_ok_def)
qed

lemma xTaskResumeAll_sched:
  assumes s: "sched_ok idle S" and n: "uxSchedulerSuspended S \<noteq> 0" "uxSchedulerSuspended S < 4294967296"
  shows "\<exists>y S'. xTaskResumeAll S = Some (y, S') \<and> sched_ok idle S'"
  using xTaskResumeAll_ok [OF sched_okD(1,2) [OF s] n] sched_okD(3) [OF s] n by (fastforce simp: resumed_def sched_ok_def)

section \<open>Suspending, resuming and deleting a task\<close>

definition alive :: "'z sched_scheme \<Rightarrow> task \<Rightarrow> bool" where
  "alive S t \<longleftrightarrow> is_ready S t \<or> blocked S t"

text \<open>The state item leaves its list, and the bitmap follows.\<close>

lemma detach:
  assumes c: "core_ok idle S" and t: "alive S t"
  shows "\<exists>R. do { (empty, S) \<leftarrow> take_off (StateItem t) S; Some (if empty then taskRESET_READY_PRIORITY (uxPriority S t) S else S) } = Some R \<and>
    same_but_lists S R \<and> lists R = remove_item (StateItem t) (lists S) \<and> bitmap_ok R \<and>
    xNextTaskUnblockTime R = xNextTaskUnblockTime S"
proof -
  have l: "lists_ok S" and b: "bitmap_ok S" using c by (auto simp: core_ok_def)
  have ev: "place S (EventItem u) \<noteq> Some (Ready q)" for u q using lists_okD(5) [OF l, of u "Ready q"] by auto
  obtain L where L: "place S (StateItem t) = Some L" using t by (auto simp: alive_def is_ready_def blocked_def)
  let ?A = "in_lists (remove_item (StateItem t)) S" and ?p = "uxPriority S t"
  let ?R = "if list_of ?A L = [] then taskRESET_READY_PRIORITY ?p ?A else ?A"
  have run: "do { (empty, S) \<leftarrow> take_off (StateItem t) S; Some (if empty then taskRESET_READY_PRIORITY (uxPriority S t) S else S) } = Some ?R"
    using take_off_eq [OF L] by simp
  have same: "same_but_lists S ?R"
    by (simp add: taskRESET_READY_PRIORITY_def same_but_lists_intros same_but_lists_trans [OF same_but_lists_intros(1,3)])
  have lst: "lists ?R = remove_item (StateItem t) (lists S)" "xNextTaskUnblockTime ?R = xNextTaskUnblockTime S"
    by (simp_all add: taskRESET_READY_PRIORITY_def portRESET_READY_PRIORITY_def)
  have "bitmap_ok ?R"
  proof (cases "is_ready S t")
    case True
    then have LR: "L = Ready ?p" using L by (simp add: is_ready_def)
    then have "?R = drop_ready t S" by (simp add: drop_ready_def Let_def taskRESET_READY_PRIORITY_def)
    then show ?thesis using drop_ready_bitmap [OF lists_okD(1) [OF l] b _ ev, of t] L LR by simp
  next
    case False
    then have nr: "place S (StateItem t) \<noteq> Some (Ready q)" for q using t by (auto simp: alive_def blocked_def)
    have pl: "place ?R (StateItem u) = Some (Ready q) \<longleftrightarrow> place S (StateItem u) = Some (Ready q)" for u q
      unfolding lst using nr by (auto simp: klists_simps)
    show ?thesis unfolding bitmap_ok_def pl
    proof (intro allI impI)
      fix q :: nat assume q: "q < 32"
      have "bit (uxTopReadyPriority ?R) q \<longleftrightarrow> bit (uxTopReadyPriority S) q \<and> \<not> (list_of ?A L = [] \<and> list_of ?A (Ready ?p) = [] \<and> q = ?p)"
        by (auto simp: taskRESET_READY_PRIORITY_def portRESET_READY_PRIORITY_def bit_reset)
      moreover have "\<not> bit (uxTopReadyPriority S) ?p" if "list_of ?A (Ready ?p) = []" "q = ?p"
      proof -
        have "place ?A i \<noteq> Some (Ready ?p)" for i
          using list_empty_iff [OF wf_remove_item [OF lists_okD(1) [OF l]], of "StateItem t" "Ready ?p"] that(1) by simp
        then have "place S (StateItem u) \<noteq> Some (Ready ?p)" for u
          using nr by (cases "u = t") (auto simp: klists_simps, metis task_item.inject(1))
        then show ?thesis using b q that(2) by (simp add: bitmap_ok_def)
      qed
      ultimately show "bit (uxTopReadyPriority ?R) q \<longleftrightarrow> (\<exists>u. place S (StateItem u) = Some (Ready q))"
        using b q by (auto simp: bitmap_ok_def)
    qed
  qed
  then show ?thesis using run same lst by blast
qed

text \<open>A task that is in a list for tasks that neither run nor wait, or in none.\<close>

lemma park_core:
  assumes c: "core_ok idle S" and t: "t \<noteq> idle" and same: "same_but_lists S S'" and wf: "wf_lists (lists S')"
    and v: "val (lists S') = val (lists S)" and b: "bitmap_ok S'" and nx: "xNextTaskUnblockTime S' = xNextTaskUnblockTime S"
    and pl: "\<And>i. place S' i = (if i = StateItem t then X else if i = EventItem t then None else place S i)"
    and X: "X \<in> {None, Some SuspendedTaskList, Some TasksWaitingTermination}"
    and ls: "\<And>L. L \<in> delayed_lists \<Longrightarrow> list_of S' L = remove1 (StateItem t) (list_of S L)"
  shows "core_ok idle S'"
proof -
  have l: "lists_ok S" and tm: "time_ok S" and i: "is_ready S idle" using c by (auto simp: core_ok_def)
  have d: "delay_pointers S" using tm by (simp add: time_ok_def)
  note f = same_but_listsD [OF same]
  have "lists_ok S'" unfolding lists_ok_def
  proof (intro conjI allI impI)
    fix u L assume "place S' (EventItem u) = Some L"
    then have "u \<noteq> t" "place S (EventItem u) = Some L" by (auto simp: pl split: if_splits)
    then show "is_event_list L \<or> L = PendingReadyList" "blocked S' u"
      using lists_okD(5) [OF l, of u L] by (auto simp: pl blocked_def)
  next
    fix u p assume "place S' (StateItem u) = Some (Ready p)"
    then show "p = uxPriority S' u" using X lists_okD(2) [OF l, of u p] by (auto simp: pl f split: if_splits)
  next
    fix u L assume "place S' (StateItem u) = Some L"
    then show "\<not> is_event_list L" "L \<noteq> PendingReadyList"
      using X lists_okD(4) [OF l, of u L] by (auto simp: pl split: if_splits)
  qed (use wf lists_okD(3) [OF l] in \<open>simp_all add: f\<close>)
  moreover have "time_ok S'"
  proof -
    have "in_order S' L" if "L \<in> delayed_lists" "in_order S L" for L
      using that ls [of L] by (auto simp: in_order_def v intro: sorted_map_remove1)
    moreover have "X \<noteq> Some (pxDelayedTaskList S)" "X \<noteq> Some (pxOverflowDelayedTaskList S)"
      using X d by (auto simp: delay_pointers_def)
    ultimately show ?thesis using tm d delay_pointersD(1,2) [OF d] pl v nx
      by (auto simp: time_ok_def f delay_pointers_def split: if_splits)
  qed
  moreover have "is_ready S' idle" using i t by (simp add: is_ready_def pl f)
  ultimately show ?thesis using c b by (simp add: core_ok_def f)
qed

end
