(* ===== verification/KSchedTasks.thy ===== *)
theory KSchedTasks imports KSchedCalls begin

text \<open>
  The calls that name a task: suspending, resuming, deleting, creating, and the changes of priority.
\<close>

section \<open>A task is put away\<close>

text \<open>What the calls do to the task's items, before they look at the current task.\<close>

definition put_away :: "task_list option \<Rightarrow> task \<Rightarrow> 'z sched_scheme \<Rightarrow> 'z sched_scheme option" where
  "put_away X t S = do {
     (empty, S) \<leftarrow> take_off (StateItem t) S;
     let S = (if empty then taskRESET_READY_PRIORITY (uxPriority S t) S else S);
     let S = leave_events t S;
     Some (case X of None \<Rightarrow> S | Some L \<Rightarrow> in_lists (insert_end L (StateItem t)) S) }"

lemma put_away_parts:
  assumes "put_away X t S = Some S1"
  obtains e B E where "take_off (StateItem t) S = Some (e, B)"
    "leave_events t (if e then taskRESET_READY_PRIORITY (uxPriority B t) B else B) = E"
    "S1 = (case X of None \<Rightarrow> E | Some L \<Rightarrow> in_lists (insert_end L (StateItem t)) E)"
  using assms by (auto simp: put_away_def Let_def bind_eq_Some_conv)

definition was_put_away :: "task \<Rightarrow> task_list option \<Rightarrow> task \<Rightarrow> 'z sched_scheme \<Rightarrow> 'z sched_scheme \<Rightarrow> bool" where
  "was_put_away idle X t S S' \<longleftrightarrow> core_ok idle S' \<and> same_but_lists S S' \<and>
     (\<forall>i. place S' i = (if i = StateItem t then X else if i = EventItem t then None else place S i))"

lemma put_away_ok:
  assumes c: "core_ok idle S" and t: "alive S t" "t \<noteq> idle"
    and X: "X \<in> {None, Some SuspendedTaskList, Some TasksWaitingTermination}"
  shows "\<exists>S'. put_away X t S = Some S' \<and> was_put_away idle X t S S'"
proof -
  have l: "lists_ok S" using c by (simp add: core_ok_def)
  note wf = lists_okD(1) [OF l]
  from detach [OF c t(1)] obtain R where
    R: "do { (empty, S) \<leftarrow> take_off (StateItem t) S; Some (if empty then taskRESET_READY_PRIORITY (uxPriority S t) S else S) } = Some R"
      "same_but_lists S R" "lists R = remove_item (StateItem t) (lists S)" "bitmap_ok R"
      "xNextTaskUnblockTime R = xNextTaskUnblockTime S" by blast
  define E where "E = leave_events t R"
  define S' where "S' = (case X of None \<Rightarrow> E | Some L \<Rightarrow> in_lists (insert_end L (StateItem t)) E)"
  have run: "put_away X t S = Some S'"
  proof -
    obtain e B where B: "take_off (StateItem t) S = Some (e, B)" "(if e then taskRESET_READY_PRIORITY (uxPriority B t) B else B) = R"
      using R(1) by (auto simp: bind_eq_Some_conv)
    show ?thesis unfolding put_away_def Let_def B(1) Option.bind_lunit prod.case B(2) by (simp add: E_def S'_def split: option.split)
  qed
  have lE: "lists E = remove_item (EventItem t) (remove_item (StateItem t) (lists S))" by (simp add: E_def leave_events_eq R(3))
  have wfE: "wf_lists (lists E)" using wf by (simp add: lE wf_intros)
  have same: "same_but_lists S S'"
    using same_but_lists_trans [OF R(2)] same_but_lists_intros(1)
    by (auto simp: S'_def E_def leave_events_eq in_lists_in_lists split: option.splits)
  have nE: "xNextTaskUnblockTime S' = xNextTaskUnblockTime S" "uxTopReadyPriority S' = uxTopReadyPriority R"
    by (auto simp: S'_def E_def leave_events_eq R(5) split: option.splits)
  have pl: "place S' i = (if i = StateItem t then X else if i = EventItem t then None else place S i)" for i
    by (auto simp: S'_def lE klists_simps split: option.splits)
  have v: "val (lists S') = val (lists S)" by (auto simp: S'_def lE klists_simps split: option.splits)
  have wf': "wf_lists (lists S')" using wfE by (auto simp: S'_def lE klists_simps intro!: wf_insert_end split: option.splits)
  have "(\<exists>u. place S' (StateItem u) = Some (Ready p)) \<longleftrightarrow> (\<exists>u. place R (StateItem u) = Some (Ready p))" for p
    using X by (auto simp: pl R(3) klists_simps)
  then have b: "bitmap_ok S'" using R(4) by (simp add: bitmap_ok_def nE(2))
  have ls: "list_of S' L = remove1 (StateItem t) (list_of S L)" if "L \<in> delayed_lists" for L
  proof -
    have n: "\<not> is_event_list L" "L \<noteq> PendingReadyList" "X \<noteq> Some L" using that X by (auto simp: delayed_lists_def)
    have "EventItem t \<notin> set (list_of S L)" using state_item_only [OF l n(1,2)] by blast
    then have "list_of E L = remove1 (StateItem t) (list_of S L)"
      using wf by (simp add: lE entries_remove_item wf_intros remove1_idem notin_set_remove1)
    then show ?thesis using n(3) by (auto simp: S'_def klists_simps split: option.splits)
  qed
  have "core_ok idle S'" by (rule park_core [OF c t(2) same wf' v b nE(1) pl X ls])
  then show ?thesis using run same pl by (auto simp: was_put_away_def)
qed

lemma put_away_sched:
  assumes s: "sched_ok idle S" and n: "uxSchedulerSuspended S = 0" "\<not> pendsv S" and w: "was_put_away idle X t S S1"
    and X: "X \<in> {None, Some SuspendedTaskList, Some TasksWaitingTermination}"
    and c: "core_ok idle S'" and f: "lists S' = lists S1" "uxPriority S' = uxPriority S" "pxCurrentTCB S' = pxCurrentTCB S"
      "uxSchedulerSuspended S' = 0" "xYieldPending S' = xYieldPending S"
    and y: "pendsv S' \<longleftrightarrow> t = pxCurrentTCB S"
  shows "sched_ok idle S'"
proof -
  have pl: "place S' i = (if i = StateItem t then X else if i = EventItem t then None else place S i)" for i
    using w by (simp add: was_put_away_def f(1))
  have rdy: "is_ready S' u \<longleftrightarrow> u \<noteq> t \<and> is_ready S u" for u using X by (auto simp: is_ready_def pl f(2))
  have top: "on_top S'" using sched_okD(5) [OF s n] rdy by (auto simp: on_top_def f(2,3))
  have "\<not> xYieldPending S'" using sched_okD(6) [OF s n(1)] n(2) f(5) by auto
  moreover have "place S' (EventItem u) \<noteq> Some PendingReadyList" for u using sched_okD(4) [OF s n(1), of u] by (simp add: pl)
  moreover have "t \<noteq> pxCurrentTCB S \<Longrightarrow> is_ready S' (pxCurrentTCB S')" using sched_okD(3) [OF s] n rdy f(3) by simp
  ultimately show ?thesis using c top y f(4) by (auto simp: sched_ok_def switch_ok_def)
qed

lemma vTaskSuspend_ok:
  assumes s: "sched_ok idle S" and n: "uxSchedulerSuspended S = 0" "\<not> pendsv S"
    and t: "alive S (task_or_self h S)" "task_or_self h S \<noteq> idle"
  shows "\<exists>S'. vTaskSuspend h S = Some S' \<and> sched_ok idle S'"
proof -
  let ?t = "task_or_self h S"
  note d = sched_okD [OF s]
  have X: "Some SuspendedTaskList \<in> {None, Some SuspendedTaskList, Some TasksWaitingTermination}" by simp
  obtain S1 where 1: "put_away (Some SuspendedTaskList) ?t S = Some S1" "was_put_away idle (Some SuspendedTaskList) ?t S S1"
    using put_away_ok [OF d(1) t, of "Some SuspendedTaskList"] by auto
  note f = same_but_listsD [of S S1]
  have same: "same_but_lists S S1" and c1: "core_ok idle S1" using 1(2) by (auto simp: was_put_away_def)
  let ?S = "prvResetNextTaskUnblockTime S1"
  let ?Y = "if ?t = pxCurrentTCB S then portYIELD ?S else ?S"
  have run: "xSchedulerRunning S1" using d(1) f [OF same] by (simp add: core_ok_def)
  from put_away_parts [OF 1(1)] obtain e B E where B: "take_off (StateItem ?t) S = Some (e, B)"
    "leave_events ?t (if e then taskRESET_READY_PRIORITY (uxPriority B ?t) B else B) = E"
    "S1 = in_lists (insert_end SuspendedTaskList (StateItem ?t)) E" by auto
  have E: "pxCurrentTCB E = pxCurrentTCB S" "uxSchedulerSuspended E = 0" "xSchedulerRunning E"
    using f [OF same] n run B(3) by simp_all
  have "vTaskSuspend h S = Some ?Y"
    unfolding vTaskSuspend_def Let_def B(1) Option.bind_lunit prod.case B(2) using E B(3) by (simp add: configASSERT_def)
  moreover have "core_ok idle ?Y" using reset_unblock_core [OF c1] by simp
  then have "sched_ok idle ?Y"
    by (rule put_away_sched [OF s n 1(2) X]) (use f [OF same] n in auto)
  ultimately show ?thesis by blast
qed

lemma core_ok_number:
  assumes c: "core_ok idle S" and n: "0 < n"
  shows "core_ok idle (S\<lparr>uxCurrentNumberOfTasks := n\<rparr>)" (is "core_ok idle ?S")
proof -
  have "lists_ok ?S = lists_ok S" by (simp add: lists_ok_def blocked_def)
  moreover have "time_ok ?S = time_ok S" by (simp add: time_ok_def delay_pointers_def in_order_def)
  moreover have "bitmap_ok ?S = bitmap_ok S" "is_ready ?S idle = is_ready S idle" by (simp_all add: bitmap_ok_def is_ready_def)
  ultimately show ?thesis using c n by (simp add: core_ok_def)
qed

lemma vTaskDelete_ok:
  assumes s: "sched_ok idle S" and n: "uxSchedulerSuspended S = 0" "\<not> pendsv S"
    and t: "alive S (task_or_self h S)" "task_or_self h S \<noteq> idle"
    and k: "1 < uxCurrentNumberOfTasks S" "uxCurrentNumberOfTasks S < 4294967296"
  shows "\<exists>S'. vTaskDelete h S = Some S' \<and> sched_ok idle S'"
proof -
  let ?t = "task_or_self h S"
  define X where "X = (if ?t = pxCurrentTCB S then Some TasksWaitingTermination else None)"
  note d = sched_okD [OF s]
  have X: "X \<in> {None, Some SuspendedTaskList, Some TasksWaitingTermination}" by (simp add: X_def)
  obtain S1 where 1: "put_away X ?t S = Some S1" "was_put_away idle X ?t S S1"
    using put_away_ok [OF d(1) t X] by blast
  have same: "same_but_lists S S1" and c1: "core_ok idle S1" using 1(2) by (auto simp: was_put_away_def)
  note f = same_but_listsD [OF same]
  have run: "xSchedulerRunning S1" using d(1) f by (simp add: core_ok_def)
  from put_away_parts [OF 1(1)] obtain e B E where B: "take_off (StateItem ?t) S = Some (e, B)"
    "leave_events ?t (if e then taskRESET_READY_PRIORITY (uxPriority B ?t) B else B) = E"
    "S1 = (case X of None \<Rightarrow> E | Some L \<Rightarrow> in_lists (insert_end L (StateItem ?t)) E)" .
  have E: "pxCurrentTCB E = pxCurrentTCB S" "uxSchedulerSuspended E = 0" "xSchedulerRunning E"
    using f n run B(3) by (auto split: option.splits)
  show ?thesis
  proof (cases "?t = pxCurrentTCB S")
    case True
    let ?S = "portYIELD (S1\<lparr>uxDeletedTasksWaitingCleanUp := inc32 (uxDeletedTasksWaitingCleanUp S1)\<rparr>)"
    have "vTaskDelete h S = Some ?S"
      unfolding vTaskDelete_def Let_def B(1) Option.bind_lunit prod.case B(2) using E True B(3) X_def
      by (simp add: configASSERT_def)
    moreover have "core_ok idle ?S" using c1 by (simp add: core_ok_cong [of "S1\<lparr>uxDeletedTasksWaitingCleanUp := x\<rparr>" S1 for x])
    then have "sched_ok idle ?S" by (rule put_away_sched [OF s n 1(2) X]) (use f n True in auto)
    ultimately show ?thesis by blast
  next
    case False
    let ?S = "prvResetNextTaskUnblockTime (S1\<lparr>uxCurrentNumberOfTasks := dec32 (uxCurrentNumberOfTasks S1)\<rparr>)"
    have "vTaskDelete h S = Some ?S"
      unfolding vTaskDelete_def Let_def B(1) Option.bind_lunit prod.case B(2) using E False B(3) X_def
      by simp
    moreover have "0 < dec32 (uxCurrentNumberOfTasks S1)" using k f by (simp add: dec32_def mod_if)
    then have "core_ok idle (S1\<lparr>uxCurrentNumberOfTasks := dec32 (uxCurrentNumberOfTasks S1)\<rparr>)" by (rule core_ok_number [OF c1])
    then have "core_ok idle ?S" by (rule reset_unblock_core)
    then have "sched_ok idle ?S" by (rule put_away_sched [OF s n 1(2) X]) (use f n False in auto)
    ultimately show ?thesis by blast
  qed
qed

lemma vTaskResume_ok:
  assumes s: "sched_ok idle S" and n: "uxSchedulerSuspended S = 0" and t: "t \<noteq> 0"
  shows "\<exists>S'. vTaskResume t S = Some S' \<and> sched_ok idle S'"
proof (cases "t \<noteq> pxCurrentTCB S \<and> prvTaskIsTaskSuspended t S")
  case True
  have p: "place S (EventItem t) = None" "blocked S t" "place S (StateItem t) = Some SuspendedTaskList"
    using True by (auto simp: prvTaskIsTaskSuspended_def blocked_def)
  let ?y = "uxPriority S (pxCurrentTCB S) \<le> uxPriority S t"
  have sel: "vTaskResume t S = Some (if ?y then portYIELD (make_ready t S) else make_ready t S)"
  proof -
    obtain a B where "take_off (StateItem t) S = Some (a, B)" "prvAddTaskToReadyList t B = make_ready t S"
      using ready_from_state [OF p(1,3)] by (auto simp: bind_eq_Some_conv)
    then show ?thesis using t True by (simp add: vTaskResume_def configASSERT_def Let_def)
  qed
  show ?thesis unfolding sel using make_ready_sched [OF s n p(2), of _ ?y] by auto
qed (use s t in \<open>auto simp: vTaskResume_def configASSERT_def\<close>)

end
