(* ===== verification/KSchedPrio.thy ===== *)
theory KSchedPrio imports KSchedTasks begin

text \<open>
  The calls that change priorities, and the creation of a task while the scheduler runs.
\<close>

section \<open>Another priority\<close>

text \<open>The task gets the priority, and goes to the end of its ready list when it is ready.\<close>

definition requeue :: "task \<Rightarrow> nat \<Rightarrow> 'z sched_scheme \<Rightarrow> 'z sched_scheme" where
  "requeue t q S =
     (if is_ready S t then prvAddTaskToReadyList t ((drop_ready t S)\<lparr>uxPriority := (uxPriority S)(t := q)\<rparr>)
      else S\<lparr>uxPriority := (uxPriority S)(t := q)\<rparr>)"

lemma requeue_lists:
  "lists (requeue t q S) =
     (if is_ready S t then insert_end (Ready q) (StateItem t) (remove_item (StateItem t) (lists S)) else lists S)"
  by (simp add: requeue_def)

lemma requeue_top:
  "uxTopReadyPriority (requeue t q S) =
     (if is_ready S t then
        (if list_of (in_lists (remove_item (StateItem t)) S) (Ready (uxPriority S t)) = []
         then uxTopReadyPriority S AND NOT (2 ^ uxPriority S t) else uxTopReadyPriority S) OR 2 ^ q
      else uxTopReadyPriority S)"
  by (simp add: requeue_def drop_ready_def Let_def portRESET_READY_PRIORITY_def)

lemma requeue_fields:
  "uxPriority (requeue t q S) = (uxPriority S)(t := q)" "pxCurrentTCB (requeue t q S) = pxCurrentTCB S"
  "pxDelayedTaskList (requeue t q S) = pxDelayedTaskList S"
  "pxOverflowDelayedTaskList (requeue t q S) = pxOverflowDelayedTaskList S"
  "uxCurrentNumberOfTasks (requeue t q S) = uxCurrentNumberOfTasks S" "xTickCount (requeue t q S) = xTickCount S"
  "xSchedulerRunning (requeue t q S) = xSchedulerRunning S" "xNextTaskUnblockTime (requeue t q S) = xNextTaskUnblockTime S"
  "uxSchedulerSuspended (requeue t q S) = uxSchedulerSuspended S" "pendsv (requeue t q S) = pendsv S"
  "xYieldPending (requeue t q S) = xYieldPending S"
  using same_but_listsD [OF add_ready_same [of "(drop_ready t S)\<lparr>uxPriority := (uxPriority S)(t := q)\<rparr>" t]]
  by (simp_all add: requeue_def)

lemma requeue_place:
  "place (requeue t q S) i = (if i = StateItem t \<and> is_ready S t then Some (Ready q) else place S i)"
  by (simp add: requeue_lists klists_simps)

lemma requeue_ready: "lists_ok S \<Longrightarrow> is_ready (requeue t q S) u = is_ready S u"
  using lists_okD(2) [of S u] by (auto simp: is_ready_def requeue_place requeue_fields)

lemma requeue_core:
  assumes c: "core_ok idle S" and q: "q < configMAX_PRIORITIES"
  shows "core_ok idle (requeue t q S)"
proof -
  have l: "lists_ok S" and b: "bitmap_ok S" and tm: "time_ok S" and i: "is_ready S idle" using c by (auto simp: core_ok_def)
  have d: "delay_pointers S" using tm by (simp add: time_ok_def)
  note wf = lists_okD(1) [OF l]
  let ?S = "requeue t q S"
  have wf': "wf_lists (lists ?S)" using wf by (auto simp: requeue_lists klists_simps intro!: wf_intros)
  have v: "val (lists ?S) = val (lists S)" by (simp add: requeue_lists klists_simps)
  have "lists_ok ?S" unfolding lists_ok_def
  proof (intro conjI allI impI)
    fix u L assume "place ?S (EventItem u) = Some L"
    then have "place S (EventItem u) = Some L" by (simp add: requeue_place)
    then show "is_event_list L \<or> L = PendingReadyList" "blocked ?S u"
      using lists_okD(5) [OF l, of u L] by (auto simp: requeue_place blocked_def is_ready_def)
  next
    fix u p assume "place ?S (StateItem u) = Some (Ready p)"
    then show "p = uxPriority ?S u" using lists_okD(2) [OF l, of u p]
      by (auto simp: requeue_place requeue_fields is_ready_def split: if_splits)
  next
    fix u L assume "place ?S (StateItem u) = Some L"
    then show "\<not> is_event_list L" "L \<noteq> PendingReadyList"
      using lists_okD(4) [OF l, of u L] by (auto simp: requeue_place split: if_splits)
  qed (use wf' lists_okD(3) [OF l] q in \<open>simp_all add: requeue_fields\<close>)
  moreover have "bitmap_ok ?S"
  proof (cases "is_ready S t")
    case False
    then show ?thesis using b by (simp add: bitmap_ok_def requeue_top requeue_place)
  next
    case True
    have ev: "place S (EventItem u) \<noteq> Some (Ready p)" for u p using lists_okD(5) [OF l, of u "Ready p"] by auto
    have bD: "bitmap_ok (drop_ready t S)" using drop_ready_bitmap [OF wf b _ ev] True by (simp add: is_ready_def)
    have tp: "uxTopReadyPriority ?S = uxTopReadyPriority (drop_ready t S) OR 2 ^ q" using True by (simp add: requeue_def)
    have "(\<exists>u. place ?S (StateItem u) = Some (Ready p)) \<longleftrightarrow> (\<exists>u. place (drop_ready t S) (StateItem u) = Some (Ready p)) \<or> p = q" for p
      using True by (auto simp: requeue_place klists_simps)
    then show ?thesis using bD by (simp add: bitmap_ok_def tp bit_record)
  qed
  moreover have "time_ok ?S"
  proof -
    have "in_order ?S L" if L: "L \<in> delayed_lists" "in_order S L" for L
      using L by (auto simp: in_order_def v requeue_lists klists_simps entries_remove_item [OF wf] delayed_lists_def
        intro!: sorted_map_remove1)
    then show ?thesis using tm d delay_pointersD(1,2,11,12) [OF d] v
      by (auto simp: time_ok_def requeue_place requeue_fields delay_pointers_def split: if_splits)
  qed
  moreover have "is_ready ?S idle" using i requeue_ready [OF l] by blast
  ultimately show ?thesis using c by (simp add: core_ok_def requeue_fields)
qed

text \<open>The value of an event item is nobody's time.\<close>

lemma event_value_core:
  assumes c: "core_ok idle S"
  shows "core_ok idle (in_lists (set_value (EventItem t) v) S)" (is "core_ok idle ?S")
proof -
  have l: "lists_ok S" and b: "bitmap_ok S" and tm: "time_ok S" and i: "is_ready S idle" using c by (auto simp: core_ok_def)
  have "lists_ok ?S" using l by (simp add: lists_ok_def blocked_def klists_simps)
  moreover have "bitmap_ok ?S" "is_ready ?S idle" using b i by (simp_all add: bitmap_ok_def is_ready_def klists_simps)
  moreover have "time_ok ?S"
  proof -
    have "in_order ?S L = in_order S L" if "L \<in> delayed_lists" for L
    proof -
      have "EventItem t \<notin> set (list_of S L)" using state_item_only [OF l, of L "EventItem t"] that by (auto simp: delayed_lists_def)
      then have m: "map ((val (lists S))(EventItem t := v)) (list_of S L) = map (val (lists S)) (list_of S L)" by auto
      show ?thesis by (simp only: in_order_def in_lists_sel klists_simps m)
    qed
    moreover have "delay_pointers S" using tm by (simp add: time_ok_def)
    ultimately show ?thesis using tm delay_pointersD(1,2) [of S]
      by (simp add: time_ok_def klists_simps delay_pointers_def)
  qed
  ultimately show ?thesis using c by (simp add: core_ok_def)
qed

lemma set_value_same: "set_value i (val K i) K = K"
  by (simp add: set_value_def)

lemma set_event_value_is: "\<exists>v. set_event_value t p S = in_lists (set_value (EventItem t) v) S"
  unfolding set_event_value_def
  by (cases "val (lists S) (EventItem t) < taskEVENT_LIST_ITEM_VALUE_IN_USE")
     (auto simp: in_lists_def intro: exI [of _ "val (lists S) (EventItem t)"] simp: set_value_same)

text \<open>Who is ready stays; whoever is above the current task has a switch asked for.\<close>

lemma requeued_sched:
  assumes s: "sched_ok idle S" and n: "uxSchedulerSuspended S = 0" "\<not> pendsv S" and c: "core_ok idle S'"
    and rdy: "\<And>u. is_ready S' u = is_ready S u" and ev: "\<And>u. place S' (EventItem u) = place S (EventItem u)"
    and f: "pxCurrentTCB S' = pxCurrentTCB S" "uxSchedulerSuspended S' = 0" "xYieldPending S' = xYieldPending S"
      "uxPriority S' = (uxPriority S)(t := q)"
    and q: "\<not> pendsv S' \<Longrightarrow> t = pxCurrentTCB S \<Longrightarrow> uxPriority S t \<le> q"
      "\<not> pendsv S' \<Longrightarrow> t \<noteq> pxCurrentTCB S \<Longrightarrow> q \<le> max (uxPriority S t) (uxPriority S (pxCurrentTCB S))"
  shows "sched_ok idle S'"
proof -
  have top: "on_top S'" if "\<not> pendsv S'"
    unfolding on_top_def
  proof (intro allI impI)
    fix u assume "is_ready S' u"
    then have u: "uxPriority S u \<le> uxPriority S (pxCurrentTCB S)" using sched_okD(5) [OF s n] rdy by (simp add: on_top_def)
    then show "uxPriority S' u \<le> uxPriority S' (pxCurrentTCB S')"
      using q that by (cases "t = pxCurrentTCB S") (auto simp: f)
  qed
  have "\<not> xYieldPending S'" using sched_okD(6) [OF s n(1)] n(2) f(3) by auto
  moreover have "place S' (EventItem u) \<noteq> Some PendingReadyList" for u using sched_okD(4) [OF s n(1), of u] by (simp add: ev)
  ultimately show ?thesis using c top rdy sched_okD(3) [OF s] n f by (auto simp: sched_ok_def switch_ok_def)
qed

text \<open>The state item is moved from the list of the priority it had; what the calls have in common.\<close>

lemma requeue_run:
  assumes r: "is_ready S t" and f: "lists R = lists S" and p: "uxPriority R' = (uxPriority S)(t := q)"
    and R': "lists R' = remove_item (StateItem t) (lists S)"
      "uxTopReadyPriority R' =
         (if list_of (in_lists (remove_item (StateItem t)) S) (Ready (uxPriority S t)) = []
          then uxTopReadyPriority S AND NOT (push_bit (uxPriority S t) 1) else uxTopReadyPriority S)"
  shows "take_off (StateItem t) R = Some (list_of (in_lists (remove_item (StateItem t)) S) (Ready (uxPriority S t)) = [],
      in_lists (remove_item (StateItem t)) R)"
    "lists (prvAddTaskToReadyList t R') = lists (requeue t q S)"
    "uxTopReadyPriority (prvAddTaskToReadyList t R') = uxTopReadyPriority (requeue t q S)"
  using r f p R' by (simp_all add: take_off_def is_ready_def Let_def requeue_lists requeue_top)

lemma requeue_like:
  assumes c: "core_ok idle (requeue t q S)"
    and f: "lists S' = lists (requeue t q S)" "uxTopReadyPriority S' = uxTopReadyPriority (requeue t q S)"
      "uxPriority S' = (uxPriority S)(t := q)" "pxDelayedTaskList S' = pxDelayedTaskList S"
      "pxOverflowDelayedTaskList S' = pxOverflowDelayedTaskList S" "uxCurrentNumberOfTasks S' = uxCurrentNumberOfTasks S"
      "xTickCount S' = xTickCount S" "xSchedulerRunning S' = xSchedulerRunning S"
      "xNextTaskUnblockTime S' = xNextTaskUnblockTime S"
  shows "core_ok idle S'"
  using c by (subst core_ok_cong [of S' "requeue t q S"]) (simp_all add: f requeue_fields)

text \<open>The state after a change of priority.\<close>

definition reprioritised :: "task \<Rightarrow> task \<Rightarrow> nat \<Rightarrow> 'z sched_scheme \<Rightarrow> 'z sched_scheme \<Rightarrow> bool" where
  "reprioritised idle t q S S' \<longleftrightarrow> core_ok idle S' \<and> uxPriority S' = (uxPriority S)(t := q) \<and>
     (\<forall>u. is_ready S' u = is_ready S u) \<and> (\<forall>u. place S' (EventItem u) = place S (EventItem u)) \<and>
     pxCurrentTCB S' = pxCurrentTCB S \<and> uxSchedulerSuspended S' = uxSchedulerSuspended S \<and> pendsv S' = pendsv S \<and>
     xYieldPending S' = xYieldPending S"

lemma reprioritisedI:
  assumes c: "core_ok idle S" and q: "q < configMAX_PRIORITIES" and A: "A = in_lists (set_value (EventItem t) v) S"
    and f: "lists S' = lists (requeue t q A)" "uxTopReadyPriority S' = uxTopReadyPriority (requeue t q A)"
      "uxPriority S' = (uxPriority S)(t := q)" "pxDelayedTaskList S' = pxDelayedTaskList S"
      "pxOverflowDelayedTaskList S' = pxOverflowDelayedTaskList S" "uxCurrentNumberOfTasks S' = uxCurrentNumberOfTasks S"
      "xTickCount S' = xTickCount S" "xSchedulerRunning S' = xSchedulerRunning S"
      "xNextTaskUnblockTime S' = xNextTaskUnblockTime S"
    and g: "pxCurrentTCB S' = pxCurrentTCB S" "uxSchedulerSuspended S' = uxSchedulerSuspended S" "pendsv S' = pendsv S"
      "xYieldPending S' = xYieldPending S"
  shows "reprioritised idle t q S S'"
proof -
  have cA: "core_ok idle A" unfolding A by (rule event_value_core [OF c])
  have lA: "lists_ok A" using cA by (simp add: core_ok_def)
  have rA: "is_ready A u = is_ready S u" for u by (simp add: is_ready_def A klists_simps)
  have "core_ok idle S'"
    by (rule requeue_like [OF requeue_core [OF cA q, of t] f(1,2)]) (simp_all add: f, simp_all add: A)
  moreover have "is_ready S' u = is_ready S u" for u
  proof -
    have "is_ready S' u = is_ready (requeue t q A) u" by (simp add: is_ready_def f(1,3) requeue_fields) (simp add: A)
    then show ?thesis using requeue_ready [OF lA, of t q u] rA by simp
  qed
  moreover have "place S' (EventItem u) = place S (EventItem u)" for u
    by (simp add: f(1) requeue_place) (simp add: A klists_simps)
  ultimately show ?thesis using f(3) g by (simp add: reprioritised_def)
qed

lemma set_value_remove: "remove_item i (set_value j v K) = set_value j v (remove_item i K)"
  by (simp add: remove_item_def set_value_def on_list_def split: option.splits)

lemma set_value_insert_end: "set_value j v (insert_end L i K) = insert_end L i (set_value j v K)"
  by (simp add: insert_end_def set_value_def on_list_def)

lemma set_event_value_fields [simp]:
  "uxPriority (set_event_value t p S) = uxPriority S" "uxBasePriority (set_event_value t p S) = uxBasePriority S"
  "uxMutexesHeld (set_event_value t p S) = uxMutexesHeld S" "pxCurrentTCB (set_event_value t p S) = pxCurrentTCB S"
  "pxDelayedTaskList (set_event_value t p S) = pxDelayedTaskList S"
  "pxOverflowDelayedTaskList (set_event_value t p S) = pxOverflowDelayedTaskList S"
  "uxCurrentNumberOfTasks (set_event_value t p S) = uxCurrentNumberOfTasks S"
  "xTickCount (set_event_value t p S) = xTickCount S" "uxTopReadyPriority (set_event_value t p S) = uxTopReadyPriority S"
  "xSchedulerRunning (set_event_value t p S) = xSchedulerRunning S" "xYieldPending (set_event_value t p S) = xYieldPending S"
  "xNextTaskUnblockTime (set_event_value t p S) = xNextTaskUnblockTime S" "pendsv (set_event_value t p S) = pendsv S"
  "uxSchedulerSuspended (set_event_value t p S) = uxSchedulerSuspended S"
  by (simp_all add: set_event_value_def)

lemma set_event_value_lists:
  obtains v where "lists (set_event_value t p S) = set_value (EventItem t) v (lists S)"
  using set_event_value_is [of t p S] by auto

section \<open>The calls\<close>

lemma vTaskPrioritySet_ok:
  assumes s: "sched_ok idle S" and n: "uxSchedulerSuspended S = 0" "\<not> pendsv S" and new: "new < configMAX_PRIORITIES"
  shows "\<exists>S'. vTaskPrioritySet h new S = Some S' \<and> sched_ok idle S'"
proof -
  obtain t where t: "task_or_self h S = t" by simp
  note d = sched_okD [OF s]
  have l: "lists_ok S" using d(1) by (simp add: core_ok_def)
  show ?thesis
  proof (cases "uxBasePriority S t = new")
    case True
    then show ?thesis using s new t by (simp add: vTaskPrioritySet_def configASSERT_def Let_def)
  next
    case False
    define old where "old = uxBasePriority S t"
    define q where "q = (if old = uxPriority S t then new else uxPriority S t)"
    define yield where "yield = (if old < new then t \<noteq> pxCurrentTCB S \<and> uxPriority S (pxCurrentTCB S) \<le> new else t = pxCurrentTCB S)"
    define B where "B = (if old = uxPriority S t then S\<lparr>uxPriority := (uxPriority S)(t := new)\<rparr> else S)
      \<lparr>uxBasePriority := (uxBasePriority S)(t := new)\<rparr>"
    define S1 where "S1 = set_event_value t new B"
    have fB: "uxPriority B = (uxPriority S)(t := q)" "lists B = lists S" "uxTopReadyPriority B = uxTopReadyPriority S"
      "pxCurrentTCB B = pxCurrentTCB S" "uxSchedulerSuspended B = 0" "pendsv B = pendsv S" "xYieldPending B = xYieldPending S"
      "pxDelayedTaskList B = pxDelayedTaskList S" "pxOverflowDelayedTaskList B = pxOverflowDelayedTaskList S"
      "uxCurrentNumberOfTasks B = uxCurrentNumberOfTasks S" "xTickCount B = xTickCount S"
      "xSchedulerRunning B = xSchedulerRunning S" "xNextTaskUnblockTime B = xNextTaskUnblockTime S"
      using n by (auto simp: B_def q_def)
    have f1: "uxPriority S1 = (uxPriority S)(t := q)" "uxTopReadyPriority S1 = uxTopReadyPriority S"
      "pxCurrentTCB S1 = pxCurrentTCB S" "uxSchedulerSuspended S1 = 0" "pendsv S1 = pendsv S" "xYieldPending S1 = xYieldPending S"
      "pxDelayedTaskList S1 = pxDelayedTaskList S" "pxOverflowDelayedTaskList S1 = pxOverflowDelayedTaskList S"
      "uxCurrentNumberOfTasks S1 = uxCurrentNumberOfTasks S" "xTickCount S1 = xTickCount S"
      "xSchedulerRunning S1 = xSchedulerRunning S" "xNextTaskUnblockTime S1 = xNextTaskUnblockTime S"
      by (simp_all add: S1_def fB)
    obtain v where v: "lists S1 = set_value (EventItem t) v (lists S)"
      unfolding S1_def by (rule set_event_value_lists [of t new B]) (simp add: fB)
    define A where "A = in_lists (set_value (EventItem t) v) S"
    have fA: "lists S1 = lists A" "uxPriority A = uxPriority S" by (simp_all add: v A_def)
    have rA: "is_ready A u = is_ready S u" for u by (simp add: is_ready_def A_def klists_simps)
    have q5: "q < configMAX_PRIORITIES" using new lists_okD(3) [OF l, of t] by (simp add: q_def)
    define S2 where "S2 = (if is_ready S t then prvAddTaskToReadyList t
        (if list_of (in_lists (remove_item (StateItem t)) A) (Ready (uxPriority S t)) = []
         then portRESET_READY_PRIORITY (uxPriority S t) (in_lists (remove_item (StateItem t)) S1)
         else in_lists (remove_item (StateItem t)) S1) else S1)"
    let ?D = "if list_of (in_lists (remove_item (StateItem t)) A) (Ready (uxPriority S t)) = []
         then portRESET_READY_PRIORITY (uxPriority S t) (in_lists (remove_item (StateItem t)) S1)
         else in_lists (remove_item (StateItem t)) S1"
    have D: "lists ?D = remove_item (StateItem t) (lists A)" "uxPriority ?D = (uxPriority A)(t := q)"
      "uxTopReadyPriority ?D =
         (if list_of (in_lists (remove_item (StateItem t)) A) (Ready (uxPriority A t)) = []
          then uxTopReadyPriority A AND NOT (push_bit (uxPriority A t) 1) else uxTopReadyPriority A)"
      by (simp_all add: portRESET_READY_PRIORITY_def fA f1) (simp_all add: A_def)
    have f2: "lists S2 = lists (requeue t q A)" "uxTopReadyPriority S2 = uxTopReadyPriority (requeue t q A)"
      using requeue_run(2,3) [OF _ fA(1) D(2,1,3)] rA fA f1 by (auto simp: S2_def requeue_lists requeue_top A_def)
    have same: "same_but_lists S1 S2"
      by (auto simp: S2_def intro: same_but_lists_trans [OF _ add_ready_same] same_but_lists_trans [OF same_but_lists_intros(1,3)]
        same_but_lists_intros)
    note g = same_but_listsD [OF same]
    have "xNextTaskUnblockTime S2 = xNextTaskUnblockTime S" by (simp add: S2_def portRESET_READY_PRIORITY_def f1)
    then have rep: "reprioritised idle t q S S2"
      by (intro reprioritisedI [OF d(1) q5 A_def f2]) (simp_all add: g f1 n)
    let ?S = "if yield then portYIELD S2 else S2"
    have step: "home (lists S1) (StateItem t) = Some (Ready (uxPriority S t)) \<longleftrightarrow> is_ready S t"
      by (simp add: is_ready_def v klists_simps)
    have "(if home (lists S1) (StateItem t) = Some (Ready (uxPriority S t)) then do {
               (empty, R) \<leftarrow> take_off (StateItem t) S1;
               let R = (if empty then portRESET_READY_PRIORITY (uxPriority S t) R else R);
               Some (prvAddTaskToReadyList t R) }
             else Some S1) = Some S2"
      using step requeue_run(1) [OF _ fA(1) D(2,1,3)] rA by (auto simp: S2_def fA(2) Let_def)
    note moved = this [unfolded Let_def]
    have yes: "configASSERT (new < configMAX_PRIORITIES) = Some ()" using new by (simp add: configASSERT_def)
    have B: "(if uxBasePriority S t = uxPriority S t then S\<lparr>uxPriority := (uxPriority S)(t := new)\<rparr> else S)
        \<lparr>uxBasePriority := (uxBasePriority (if uxBasePriority S t = uxPriority S t
            then S\<lparr>uxPriority := (uxPriority S)(t := new)\<rparr> else S))(t := new)\<rparr> = B"
      by (simp add: B_def old_def)
    have "vTaskPrioritySet h new S = Some ?S"
      unfolding vTaskPrioritySet_def Let_def t yes Option.bind_lunit unfolding B unfolding S1_def [symmetric] unfolding moved
      using False by (simp add: yield_def old_def)
    moreover have "sched_ok idle ?S"
    proof (rule requeued_sched [OF s n, of _ t q])
      show "core_ok idle ?S" "is_ready ?S u = is_ready S u" "place ?S (EventItem u) = place S (EventItem u)" for u
        using rep by (auto simp: reprioritised_def)
      show "uxPriority S t \<le> q" if "\<not> pendsv ?S" "t = pxCurrentTCB S"
        using that False by (auto simp: yield_def q_def old_def split: if_splits)
      show "q \<le> max (uxPriority S t) (uxPriority S (pxCurrentTCB S))" if "\<not> pendsv ?S" "t \<noteq> pxCurrentTCB S"
        using that False by (auto simp: yield_def q_def old_def split: if_splits)
    qed (simp_all add: g f1 n)
    ultimately show ?thesis by blast
  qed
qed


lemma taskRESET_same: "same_but_lists S (taskRESET_READY_PRIORITY p S)"
  by (simp add: taskRESET_READY_PRIORITY_def same_but_lists_intros)

lemma taskRESET_lists [simp]: "lists (taskRESET_READY_PRIORITY p S) = lists S"
    "xNextTaskUnblockTime (taskRESET_READY_PRIORITY p S) = xNextTaskUnblockTime S"
  by (simp_all add: taskRESET_READY_PRIORITY_def portRESET_READY_PRIORITY_def)

lemma xTaskPriorityInherit_ok:
  assumes c: "core_ok idle S"
  shows "\<exists>b q S'. xTaskPriorityInherit t S = Some (b, S') \<and> reprioritised idle t q S S' \<and>
    q \<le> max (uxPriority S t) (uxPriority S (pxCurrentTCB S))"
proof (cases "t \<noteq> 0 \<and> uxPriority S t < uxPriority S (pxCurrentTCB S)")
  case False
  then have "xTaskPriorityInherit t S = Some (t \<noteq> 0 \<and> uxBasePriority S t < uxPriority S (pxCurrentTCB S), S)"
    by (auto simp: xTaskPriorityInherit_def Let_def)
  moreover have "reprioritised idle t (uxPriority S t) S S" using c by (simp add: reprioritised_def)
  ultimately show ?thesis by fastforce
next
  case True
  have l: "lists_ok S" using c by (simp add: core_ok_def)
  define q where "q = uxPriority S (pxCurrentTCB S)"
  have q5: "q < configMAX_PRIORITIES" using lists_okD(3) [OF l] by (simp add: q_def)
  obtain S1 where S1: "set_event_value t q S = S1" by simp
  obtain v where v: "lists S1 = set_value (EventItem t) v (lists S)"
    unfolding S1 [symmetric] by (rule set_event_value_lists [of t q S])
  have f1: "uxPriority S1 = uxPriority S" "uxTopReadyPriority S1 = uxTopReadyPriority S"
    "pxCurrentTCB S1 = pxCurrentTCB S" "uxSchedulerSuspended S1 = uxSchedulerSuspended S" "pendsv S1 = pendsv S"
    "xYieldPending S1 = xYieldPending S" "pxDelayedTaskList S1 = pxDelayedTaskList S"
    "pxOverflowDelayedTaskList S1 = pxOverflowDelayedTaskList S" "uxCurrentNumberOfTasks S1 = uxCurrentNumberOfTasks S"
    "xTickCount S1 = xTickCount S" "xSchedulerRunning S1 = xSchedulerRunning S" "xNextTaskUnblockTime S1 = xNextTaskUnblockTime S"
    by (simp_all add: S1 [symmetric])
  define A where "A = in_lists (set_value (EventItem t) v) S"
  have fA: "lists S1 = lists A" "uxPriority A = uxPriority S" "uxTopReadyPriority A = uxTopReadyPriority S" by (simp_all add: v A_def)
  have rA: "is_ready A u = is_ready S u" for u by (simp add: is_ready_def A_def klists_simps)
  let ?E = "list_of (in_lists (remove_item (StateItem t)) A) (Ready (uxPriority S t)) = []"
  let ?R = "in_lists (remove_item (StateItem t)) S1"
  obtain R where R: "(if ?E then taskRESET_READY_PRIORITY (uxPriority S t) ?R else ?R) = R" by simp
  define D where "D = R\<lparr>uxPriority := (uxPriority S)(t := q)\<rparr>"
  have sR: "same_but_lists S1 R" unfolding R [symmetric]
    using same_but_lists_trans [OF same_but_lists_intros(1) taskRESET_same] same_but_lists_intros(1) [of S1 "remove_item (StateItem t)"]
    by auto
  have fR: "lists R = remove_item (StateItem t) (lists A)" "xNextTaskUnblockTime R = xNextTaskUnblockTime S"
    "uxTopReadyPriority R = (if ?E then uxTopReadyPriority S AND NOT (push_bit (uxPriority S t) 1) else uxTopReadyPriority S)"
    unfolding R [symmetric] by (simp_all add: fA f1 taskRESET_READY_PRIORITY_def portRESET_READY_PRIORITY_def)
  note gR = same_but_listsD [OF sR]
  have D: "uxPriority D = (uxPriority A)(t := q)" "lists D = remove_item (StateItem t) (lists A)"
    "uxTopReadyPriority D = (if list_of (in_lists (remove_item (StateItem t)) A) (Ready (uxPriority A t)) = []
       then uxTopReadyPriority A AND NOT (push_bit (uxPriority A t) 1) else uxTopReadyPriority A)"
    by (simp_all add: D_def fA fR)
  define S2 where "S2 = (if is_ready S t then prvAddTaskToReadyList t D else S1\<lparr>uxPriority := (uxPriority S)(t := q)\<rparr>)"
  have "xTaskPriorityInherit t S = Some (True, S2)"
  proof (cases "is_ready S t")
    case r: True
    have t: "take_off (StateItem t) S1 = Some (?E, ?R)" using requeue_run(1) [OF _ fA(1) D] r rA fA by simp
    have h: "home (lists S1) (StateItem t) = Some (Ready (uxPriority S1 t))" using r by (simp add: is_ready_def v klists_simps f1)
    have "uxPriority ?R t = uxPriority S t" "uxPriority R = uxPriority S" using gR f1 by simp_all
    then show ?thesis using True r h R unfolding xTaskPriorityInherit_def Let_def q_def [symmetric] S1
      by (cases ?E) (simp_all add: t S2_def D_def)
  next
    case r: False
    have "home (lists S1) (StateItem t) \<noteq> Some (Ready (uxPriority S1 t))" using r by (simp add: is_ready_def v klists_simps f1)
    then show ?thesis using True r unfolding xTaskPriorityInherit_def Let_def q_def [symmetric] S1 by (simp add: S2_def f1)
  qed
  moreover have "reprioritised idle t q S S2"
  proof (rule reprioritisedI [OF c q5 A_def])
    show "lists S2 = lists (requeue t q A)" "uxTopReadyPriority S2 = uxTopReadyPriority (requeue t q A)"
      using requeue_run(2,3) [OF _ fA(1) D] rA fA f1 by (simp_all add: S2_def requeue_lists requeue_top)
  qed (use same_but_listsD [OF add_ready_same [of D t]] gR f1 in \<open>auto simp: S2_def D_def fR(2)\<close>)
  ultimately show ?thesis by (auto simp: q_def)
qed


lemma xTaskPriorityDisinherit_ok:
  assumes c: "core_ok idle S" and cur: "t = pxCurrentTCB S" "is_ready S t" and m: "uxMutexesHeld S t \<noteq> 0"
    and q5: "uxBasePriority S t < configMAX_PRIORITIES"
  shows "\<exists>b q S'. xTaskPriorityDisinherit t S = Some (b, S') \<and> reprioritised idle t q S S' \<and> (\<not> b \<longrightarrow> q = uxPriority S t)"
proof -
  define M where "M = S\<lparr>uxMutexesHeld := (uxMutexesHeld S)(t := dec32 (uxMutexesHeld S t))\<rparr>"
  have cM: "core_ok idle M" using c by (subst core_ok_cong [of M S]) (simp_all add: M_def)
  have fM: "lists M = lists S" "uxTopReadyPriority M = uxTopReadyPriority S" "uxPriority M = uxPriority S"
    "uxBasePriority M = uxBasePriority S" "pxCurrentTCB M = pxCurrentTCB S" "uxMutexesHeld M t = dec32 (uxMutexesHeld S t)"
    "xNextTaskUnblockTime M = xNextTaskUnblockTime S" by (simp_all add: M_def)
  show ?thesis
  proof (cases "t \<noteq> 0 \<and> uxPriority S t \<noteq> uxBasePriority S t \<and> dec32 (uxMutexesHeld S t) = 0")
    case False
    then have "xTaskPriorityDisinherit t S = Some (False, if t \<noteq> 0 then M else S)"
      using cur m by (auto simp: xTaskPriorityDisinherit_def configASSERT_def Let_def M_def)
    moreover have "reprioritised idle t (uxPriority S t) S (if t \<noteq> 0 then M else S)"
      using c cM by (auto simp: reprioritised_def is_ready_def M_def)
    ultimately show ?thesis by fastforce
  next
    case True
    define q where "q = uxBasePriority S t"
    define A where "A = in_lists (set_value (EventItem t) (configMAX_PRIORITIES - q)) S"
    let ?E = "list_of (in_lists (remove_item (StateItem t)) S) (Ready (uxPriority S t)) = []"
    let ?R = "in_lists (remove_item (StateItem t)) M"
    obtain R where R: "(if ?E then taskRESET_READY_PRIORITY (uxPriority S t) ?R else ?R) = R" by simp
    define D where "D = in_lists (set_value (EventItem t) (configMAX_PRIORITIES - q)) (R\<lparr>uxPriority := (uxPriority S)(t := q)\<rparr>)"
    have sR: "same_but_lists M R" unfolding R [symmetric]
      using same_but_lists_trans [OF same_but_lists_intros(1) taskRESET_same] same_but_lists_intros(1) [of M "remove_item (StateItem t)"]
      by auto
    note gR = same_but_listsD [OF sR]
    have fR: "lists R = remove_item (StateItem t) (lists S)" "xNextTaskUnblockTime R = xNextTaskUnblockTime S"
      "uxTopReadyPriority R = (if ?E then uxTopReadyPriority S AND NOT (push_bit (uxPriority S t) 1) else uxTopReadyPriority S)"
      unfolding R [symmetric] by (simp_all add: fM taskRESET_READY_PRIORITY_def portRESET_READY_PRIORITY_def)
    have rA: "is_ready A t" using cur(2) by (simp add: is_ready_def A_def klists_simps)
    have EA: "list_of (in_lists (remove_item (StateItem t)) A) L = list_of (in_lists (remove_item (StateItem t)) S) L" for L
      by (simp add: A_def set_value_remove klists_simps)
    have D: "uxPriority D = (uxPriority A)(t := q)" "lists D = remove_item (StateItem t) (lists A)"
      "uxTopReadyPriority D = (if list_of (in_lists (remove_item (StateItem t)) A) (Ready (uxPriority A t)) = []
         then uxTopReadyPriority A AND NOT (push_bit (uxPriority A t) 1) else uxTopReadyPriority A)"
      unfolding EA by (simp_all add: D_def fR A_def set_value_remove)
    have t: "take_off (StateItem t) M = Some (?E, ?R)" using cur(2) by (simp add: take_off_def is_ready_def Let_def fM)
    have "uxPriority ?R t = uxPriority S t" "uxPriority R = uxPriority S" "uxBasePriority R = uxBasePriority S"
      using gR fM by simp_all
    then have "xTaskPriorityDisinherit t S = Some (True, prvAddTaskToReadyList t D)"
      using True cur(1) [symmetric] m R unfolding xTaskPriorityDisinherit_def Let_def M_def [symmetric]
      by (cases ?E) (simp_all add: configASSERT_def t D_def q_def fM)
    moreover have "reprioritised idle t q S (prvAddTaskToReadyList t D)"
    proof (rule reprioritisedI [OF c q5 [folded q_def] A_def])
      show "lists (prvAddTaskToReadyList t D) = lists (requeue t q A)"
        "uxTopReadyPriority (prvAddTaskToReadyList t D) = uxTopReadyPriority (requeue t q A)"
        using requeue_run(2,3) [OF rA refl D] by simp_all
    qed (use same_but_listsD [OF add_ready_same [of D t]] gR in \<open>auto simp: D_def fR(2) M_def\<close>)
    ultimately show ?thesis by blast
  qed
qed

section \<open>Creation\<close>

lemma xTaskCreate_ok:
  assumes s: "sched_ok idle S" and n: "uxSchedulerSuspended S = 0" "\<not> pendsv S"
    and t: "place S (StateItem t) = None" "place S (EventItem t) = None" and cur: "pxCurrentTCB S \<noteq> 0"
    and k: "uxCurrentNumberOfTasks S + 1 < 4294967296"
  shows "sched_ok idle (snd (xTaskCreate prio t S))"
proof (cases "t = 0")
  case True
  then show ?thesis using s by (simp add: xTaskCreate_def)
next
  case False
  note d = sched_okD [OF s]
  define p where "p = (if configMAX_PRIORITIES \<le> prio then configMAX_PRIORITIES - 1 else prio)"
  have p5: "p < configMAX_PRIORITIES" by (simp add: p_def configMAX_PRIORITIES_def)
  let ?v = "configMAX_PRIORITIES - p"
  define A where "A = in_lists (set_value (EventItem t) ?v) S"
  define S1 where "S1 = (prvInitialiseNewTask prio t S)\<lparr>uxCurrentNumberOfTasks := inc32 (uxCurrentNumberOfTasks S)\<rparr>"
  have h: "(lists S)\<lparr>home := (home (lists S))(StateItem t := None, EventItem t := None)\<rparr> = lists S"
    using t by (simp add: fun_upd_idem)
  have f1: "lists S1 = set_value (EventItem t) ?v (lists S)" "uxPriority S1 = (uxPriority S)(t := p)"
    "pxCurrentTCB S1 = pxCurrentTCB S" "uxSchedulerSuspended S1 = uxSchedulerSuspended S" "pendsv S1 = pendsv S"
    "xYieldPending S1 = xYieldPending S" "pxDelayedTaskList S1 = pxDelayedTaskList S"
    "pxOverflowDelayedTaskList S1 = pxOverflowDelayedTaskList S" "xTickCount S1 = xTickCount S"
    "xSchedulerRunning S1 = xSchedulerRunning S" "xNextTaskUnblockTime S1 = xNextTaskUnblockTime S"
    "uxTopReadyPriority S1 = uxTopReadyPriority S" "uxCurrentNumberOfTasks S1 = inc32 (uxCurrentNumberOfTasks S)"
    by (simp_all add: S1_def prvInitialiseNewTask_def Let_def p_def h)
  have nt: "\<not> is_ready A t" using t by (simp add: is_ready_def A_def klists_simps)
  have cA: "core_ok idle A" unfolding A_def by (rule event_value_core [OF d(1)])
  have "core_ok idle (requeue t p A)" by (rule requeue_core [OF cA p5])
  then have "core_ok idle ((requeue t p A)\<lparr>uxCurrentNumberOfTasks := inc32 (uxCurrentNumberOfTasks S)\<rparr>)"
    by (rule core_ok_number) (use k in \<open>simp add: inc32_def\<close>)
  then have c1: "core_ok idle S1"
    by (subst core_ok_cong [of S1 "(requeue t p A)\<lparr>uxCurrentNumberOfTasks := inc32 (uxCurrentNumberOfTasks S)\<rparr>"])
       (use nt in \<open>simp_all add: requeue_fields requeue_lists requeue_top f1 A_def\<close>)
  have pl: "place S1 i = place S i" for i by (simp add: f1 klists_simps)
  have M: "make_ready t S1 = prvAddTaskToReadyList t S1"
    using pl t by (simp add: make_ready_def in_lists_def remove_absent)
  have cM: "core_ok idle (make_ready t S1)" by (rule make_ready_core' [OF c1]) (simp add: pl t)
  have run: "xSchedulerRunning S" using d(1) by (simp add: core_ok_def)
  let ?S = "if uxPriority S (pxCurrentTCB S) < p then portYIELD (make_ready t S1) else make_ready t S1"
  note fM = same_but_listsD [OF make_ready_same [of S1 t]]
  have neq: "t \<noteq> pxCurrentTCB S" using d(3) n t by (auto simp: is_ready_def)
  have "snd (xTaskCreate prio t S) = ?S"
  proof -
    have I: "(prvInitialiseNewTask prio t S)\<lparr>uxCurrentNumberOfTasks :=
        inc32 (uxCurrentNumberOfTasks (prvInitialiseNewTask prio t S))\<rparr> = S1"
      by (simp add: S1_def prvInitialiseNewTask_def Let_def)
    show ?thesis unfolding xTaskCreate_def prvAddNewTaskToReadyList_def Let_def I
      using False cur run neq fM f1 by (simp add: M [symmetric])
  qed
  moreover have "sched_ok idle ?S"
  proof -
    have rdy: "is_ready (make_ready t S1) u \<longleftrightarrow> u = t \<or> is_ready S u" for u
      using t by (auto simp: is_ready_def make_ready_place pl f1(2) split: if_splits)
    have "\<not> xYieldPending S" using sched_okD(6) [OF s n(1)] n(2) by auto
    moreover have "place (make_ready t S1) (EventItem u) \<noteq> Some PendingReadyList" for u
      using sched_okD(4) [OF s n(1), of u] by (simp add: make_ready_place pl)
    moreover have "on_top (make_ready t S1)" if "\<not> uxPriority S (pxCurrentTCB S) < p"
      using sched_okD(5) [OF s n] that rdy neq by (auto simp: on_top_def fM f1)
    ultimately show ?thesis using cM rdy d(3) n by (auto simp: sched_ok_def switch_ok_def fM f1)
  qed
  ultimately show ?thesis by simp
qed

end
