(* ===== verification/KSchedBoot.thy ===== *)
theory KSchedBoot imports KSchedPrio begin

text \<open>
  The start: tasks are created before the scheduler runs, then the idle task and the timer task,
  and the scheduler starts with the lists in order.
\<close>

section \<open>The code\<close>

text \<open>All variables are zero before \<open>main\<close>; the lists are made when the first task is created.\<close>

definition reset_sched :: sched where
  "reset_sched = \<lparr>lists = \<lparr>seq = (\<lambda>_. ([], [])), val = (\<lambda>_. 0), home = (\<lambda>_. None), made = (\<lambda>_. False)\<rparr>,
     uxPriority = (\<lambda>_. 0), uxBasePriority = (\<lambda>_. 0), uxMutexesHeld = (\<lambda>_. 0), pxCurrentTCB = 0,
     pxDelayedTaskList = DelayedTaskList1, pxOverflowDelayedTaskList = DelayedTaskList1, uxCurrentNumberOfTasks = 0,
     xTickCount = 0, uxTopReadyPriority = 0, xSchedulerRunning = False, uxPendedTicks = 0, xYieldPending = False,
     xNumOfOverflows = 0, xNextTaskUnblockTime = 0, uxSchedulerSuspended = 0, uxDeletedTasksWaitingCleanUp = 0,
     pendsv = False\<rparr>"

definition tskIDLE_PRIORITY :: nat where "tskIDLE_PRIORITY = 0"
definition configTIMER_TASK_PRIORITY :: nat where "configTIMER_TASK_PRIORITY = configMAX_PRIORITIES - 1"

text \<open>
  The allocator gives the control blocks of the idle and the timer task, 0 when it refuses. When
  both exist the scheduler runs, with the current task first.
\<close>

definition vTaskStartScheduler :: "task \<Rightarrow> task \<Rightarrow> 'z sched_scheme \<Rightarrow> 'z sched_scheme option" where
  "vTaskStartScheduler idle timer S =
     (case xTaskCreate tskIDLE_PRIORITY idle S of (ok, S) \<Rightarrow>
        if ok then (case xTaskCreate configTIMER_TASK_PRIORITY timer S of (ok, S) \<Rightarrow>
          if ok then Some (start_scheduling S) else None)
        else None)"

text \<open>The program's tasks with their priorities are created first.\<close>

definition boot :: "(nat \<times> task) list \<Rightarrow> task \<Rightarrow> task \<Rightarrow> sched option" where
  "boot ts idle timer = vTaskStartScheduler idle timer (fold (\<lambda>(p, t) S. snd (xTaskCreate p t S)) ts reset_sched)"

section \<open>Before the scheduler runs\<close>

definition created :: "task set \<Rightarrow> 'z sched_scheme \<Rightarrow> bool" where
  "created T S \<longleftrightarrow> finite T \<and> lists_ok S \<and> bitmap_ok S \<and> (T \<noteq> {} \<longrightarrow> delay_pointers S \<and> pxCurrentTCB S \<in> T) \<and>
     (T = {} \<longrightarrow> pxCurrentTCB S = 0) \<and> 0 \<notin> T \<and> on_top S \<and> uxCurrentNumberOfTasks S = card T \<and>
     (\<forall>t. place S (StateItem t) = (if t \<in> T then Some (Ready (uxPriority S t)) else None)) \<and>
     (\<forall>t. place S (EventItem t) = None) \<and> (\<forall>t. wake_time S t \<le> portMAX_DELAY) \<and>
     \<not> xSchedulerRunning S \<and> uxSchedulerSuspended S = 0 \<and> \<not> pendsv S \<and> \<not> xYieldPending S"

lemma createdD:
  assumes "created T S"
  shows "finite T" "lists_ok S" "bitmap_ok S" "T \<noteq> {} \<Longrightarrow> delay_pointers S" "T \<noteq> {} \<Longrightarrow> pxCurrentTCB S \<in> T"
    "T = {} \<Longrightarrow> pxCurrentTCB S = 0" "0 \<notin> T" "on_top S" "uxCurrentNumberOfTasks S = card T"
    "place S (StateItem t) = (if t \<in> T then Some (Ready (uxPriority S t)) else None)"
    "place S (EventItem t) = None" "wake_time S t \<le> portMAX_DELAY" "\<not> xSchedulerRunning S"
    "uxSchedulerSuspended S = 0" "\<not> pendsv S" "\<not> xYieldPending S"
  using assms by (auto simp: created_def)

lemma created_reset: "created {} reset_sched"
  by (simp add: created_def reset_sched_def lists_ok_def bitmap_ok_def on_top_def is_ready_def wf_lists_def entries_def
    blocked_def configMAX_PRIORITIES_def)

lemma fold_new_list:
  "home (fold new_list Ls K) = home K" "val (fold new_list Ls K) = val K"
  "seq (fold new_list Ls K) = (\<lambda>L. if L \<in> set Ls then ([], []) else seq K L)"
  by (induction Ls arbitrary: K) (auto simp: new_list_def on_list_def)

lemma new_list_sel [simp]:
  "home (new_list L K) = home K" "val (new_list L K) = val K" "seq (new_list L K) = (seq K)(L := ([], []))"
  by (auto simp: new_list_def on_list_def)

lemma first_lists:
  assumes l: "lists_ok S" and b: "bitmap_ok S" and none: "\<And>i. place S i = None"
  shows "lists_ok (prvInitialiseTaskLists S)" "bitmap_ok (prvInitialiseTaskLists S)" "delay_pointers (prvInitialiseTaskLists S)"
    "place (prvInitialiseTaskLists S) i = place S i" "val (lists (prvInitialiseTaskLists S)) = val (lists S)"
proof -
  let ?S = "prvInitialiseTaskLists S"
  have h: "home (lists ?S) = home (lists S)" "val (lists ?S) = val (lists S)" "uxPriority ?S = uxPriority S"
    "uxTopReadyPriority ?S = uxTopReadyPriority S"
    by (simp_all add: prvInitialiseTaskLists_def fold_new_list)
  have "list_of S L = []" for L using list_empty_iff [OF lists_okD(1) [OF l]] none by simp
  then have e: "list_of ?S L = []" for L
    by (simp add: prvInitialiseTaskLists_def fold_new_list entries_def)
  have "wf_lists (lists ?S)" using e none by (simp add: wf_lists_def h)
  then show "lists_ok ?S" using l by (simp add: lists_ok_def blocked_def h)
  show "bitmap_ok ?S" using b by (simp add: bitmap_ok_def h)
  show "delay_pointers ?S" by (simp add: prvInitialiseTaskLists_def delay_pointers_def)
  show "place ?S i = place S i" "val (lists ?S) = val (lists S)" by (simp_all add: h)
qed

lemma created_create:
  assumes c: "created T S" and t: "t \<notin> T" "t \<noteq> 0" and n: "card T + 1 < 4294967296"
  shows "created (insert t T) (snd (xTaskCreate prio t S))" "fst (xTaskCreate prio t S)"
proof -
  note d = createdD [OF c]
  define p where "p = (if configMAX_PRIORITIES \<le> prio then configMAX_PRIORITIES - 1 else prio)"
  have p5: "p < configMAX_PRIORITIES" by (simp add: p_def configMAX_PRIORITIES_def)
  define S1 where "S1 = (prvInitialiseNewTask prio t S)\<lparr>uxCurrentNumberOfTasks := inc32 (uxCurrentNumberOfTasks S)\<rparr>"
  have h: "(lists S)\<lparr>home := (home (lists S))(StateItem t := None, EventItem t := None)\<rparr> = lists S"
    using t d(10,11) by (simp add: fun_upd_idem)
  have f1: "lists S1 = set_value (EventItem t) (configMAX_PRIORITIES - p) (lists S)" "uxPriority S1 = (uxPriority S)(t := p)"
    "pxCurrentTCB S1 = pxCurrentTCB S" "uxSchedulerSuspended S1 = 0" "\<not> pendsv S1"
    "\<not> xYieldPending S1" "pxDelayedTaskList S1 = pxDelayedTaskList S" "uxTopReadyPriority S1 = uxTopReadyPriority S"
    "pxOverflowDelayedTaskList S1 = pxOverflowDelayedTaskList S" "\<not> xSchedulerRunning S1" "uxCurrentNumberOfTasks S1 = card T + 1"
    using d(9,13-16) n by (simp_all add: S1_def prvInitialiseNewTask_def Let_def p_def h inc32_def)
  have I: "(prvInitialiseNewTask prio t S)\<lparr>uxCurrentNumberOfTasks :=
      inc32 (uxCurrentNumberOfTasks (prvInitialiseNewTask prio t S))\<rparr> = S1"
    by (simp add: S1_def prvInitialiseNewTask_def Let_def)
  have pl: "place S1 i = place S i" for i by (simp add: f1 klists_simps)
  have wf1: "wf_lists (lists S1)" using lists_okD(1) [OF d(2)] by (simp add: f1(1))
  have l1: "lists_ok S1" unfolding lists_ok_def
    using wf1 lists_okD(3) [OF d(2)] d(10,11) t p5 by (simp add: pl f1(2))
  have b1: "bitmap_ok S1" using d(3) by (simp add: bitmap_ok_def pl f1(8))
  define S2 where "S2 = (if pxCurrentTCB S1 = 0 then (if uxCurrentNumberOfTasks (S1\<lparr>pxCurrentTCB := t\<rparr>) = 1 then prvInitialiseTaskLists (S1\<lparr>pxCurrentTCB := t\<rparr>)
      else S1\<lparr>pxCurrentTCB := t\<rparr>)
    else if \<not> xSchedulerRunning S1 \<and> uxPriority S1 (pxCurrentTCB S1) \<le> uxPriority S1 t then S1\<lparr>pxCurrentTCB := t\<rparr> else S1)"
  have run: "xTaskCreate prio t S = (True, prvAddTaskToReadyList t S2)"
  proof -
    have "\<not> xSchedulerRunning S2" using f1(10) by (simp add: S2_def prvInitialiseTaskLists_def)
    then have "\<not> xSchedulerRunning (prvAddTaskToReadyList t S2)" using same_but_listsD(9) [OF add_ready_same [of S2 t]] by simp
    then show ?thesis using t(2) unfolding xTaskCreate_def prvAddNewTaskToReadyList_def Let_def I S2_def [symmetric] by simp
  qed
  have new: "lists_ok S2 \<and> bitmap_ok S2 \<and> delay_pointers S2 \<and> (\<forall>i. place S2 i = place S i) \<and> val (lists S2) = val (lists S1)"
  proof (cases "T = {}")
    case True
    let ?C = "S1\<lparr>pxCurrentTCB := t\<rparr>"
    have C: "lists_ok ?C" "bitmap_ok ?C" using l1 b1 by (simp_all add: lists_ok_def blocked_def bitmap_ok_def)
    have none: "place ?C i = None" for i using pl d(10,11) True by (cases i) auto
    have "S2 = prvInitialiseTaskLists ?C" using True d(6) f1 by (simp add: S2_def)
    then show ?thesis using first_lists [OF C none] pl by simp
  next
    case False
    then have "pxCurrentTCB S \<noteq> 0" using d(5,7) by auto
    then have e: "S2 = S1 \<or> S2 = S1\<lparr>pxCurrentTCB := t\<rparr>" by (auto simp: S2_def f1)
    have dp: "delay_pointers S1" using d(4) False by (simp add: delay_pointers_def f1)
    let ?C = "S1\<lparr>pxCurrentTCB := t\<rparr>"
    have "lists_ok ?C = lists_ok S1" "bitmap_ok ?C = bitmap_ok S1" "delay_pointers ?C = delay_pointers S1"
      by (simp_all add: lists_ok_def blocked_def bitmap_ok_def delay_pointers_def)
    then show ?thesis using e l1 b1 dp pl by (elim disjE) simp_all
  qed
  have f2: "uxPriority S2 = (uxPriority S)(t := p)" "uxSchedulerSuspended S2 = 0" "\<not> pendsv S2" "\<not> xYieldPending S2"
    "\<not> xSchedulerRunning S2" "uxCurrentNumberOfTasks S2 = card T + 1"
    "pxCurrentTCB S2 = (if T = {} \<or> uxPriority S (pxCurrentTCB S) \<le> p then t else pxCurrentTCB S)"
  proof -
    have e: "pxCurrentTCB S = 0 \<longleftrightarrow> T = {}" "pxCurrentTCB S \<noteq> t \<or> T = {}"
      using d(5-7) t(1) by (cases "T = {}"; metis)+
    show "uxPriority S2 = (uxPriority S)(t := p)" "uxSchedulerSuspended S2 = 0" "\<not> pendsv S2" "\<not> xYieldPending S2"
      "\<not> xSchedulerRunning S2" "uxCurrentNumberOfTasks S2 = card T + 1"
      "pxCurrentTCB S2 = (if T = {} \<or> uxPriority S (pxCurrentTCB S) \<le> p then t else pxCurrentTCB S)"
      using f1 e by (auto simp: S2_def prvInitialiseTaskLists_def)
  qed
  have none: "place S2 (StateItem t) = None" "place S2 (EventItem t) = None" using new d(10,11) t(1) by simp_all
  have M: "prvAddTaskToReadyList t S2 = make_ready t S2" using none by (simp add: make_ready_def in_lists_def remove_absent)
  note fM = same_but_listsD [OF make_ready_same [of S2 t]]
  have okM: "lists_ok (make_ready t S2)" "bitmap_ok (make_ready t S2)" using make_ready_ok [of S2 t] new none by simp_all
  have rdy: "is_ready (make_ready t S2) u \<longleftrightarrow> u \<in> insert t T" for u
    using new d(10) [of u] by (auto simp: is_ready_def make_ready_place f2(1))
  have top: "on_top (make_ready t S2)"
  proof -
    have "u \<in> T \<Longrightarrow> uxPriority S u \<le> uxPriority S (pxCurrentTCB S)" for u
      using d(8) d(10) [of u] by (simp add: on_top_def is_ready_def)
    then show ?thesis using t(1) d(5) by (fastforce simp: on_top_def rdy f2)
  qed
  have val: "wake_time (make_ready t S2) u \<le> portMAX_DELAY" for u
    using new d(12) [of u] by (simp add: f1(1) klists_simps)
  have "created (insert t T) (make_ready t S2)" unfolding created_def
  proof (intro conjI allI impI)
    show "place (make_ready t S2) (StateItem u) = (if u \<in> insert t T then Some (Ready (uxPriority (make_ready t S2) u)) else None)" for u
      using new d(10) [of u] by (auto simp: make_ready_place f2(1))
    show "place (make_ready t S2) (EventItem u) = None" for u using new d(11) [of u] by (simp add: make_ready_place)
    show "delay_pointers (make_ready t S2)" using new by (simp add: delay_pointers_def)
    show "uxCurrentNumberOfTasks (make_ready t S2) = card (insert t T)" using d(1) t(1) f2(6) fM by simp
    show "pxCurrentTCB (make_ready t S2) \<in> insert t T" using f2(7) d(5) by auto
  qed (use okM top val d(1,7) t f2 fM in auto)
  then show "created (insert t T) (snd (xTaskCreate prio t S))" using run M by simp
  show "fst (xTaskCreate prio t S)" using run by simp
qed

lemma created_all:
  "created T S \<Longrightarrow> distinct (map snd ts) \<Longrightarrow> 0 \<notin> snd ` set ts \<Longrightarrow> T \<inter> snd ` set ts = {} \<Longrightarrow>
    card T + length ts < 4294967296 \<Longrightarrow> created (T \<union> snd ` set ts) (fold (\<lambda>(p, t) S. snd (xTaskCreate p t S)) ts S)"
proof (induction ts arbitrary: T S)
  case (Cons x ts)
  obtain p t where x: "x = (p, t)" by (cases x)
  have t: "t \<notin> T" "t \<noteq> 0" "card T + 1 < 4294967296" using Cons.prems(3-5) x by auto
  have fin: "finite T" using Cons.prems(1) by (simp add: created_def)
  have "created (insert t T \<union> snd ` set ts) (fold (\<lambda>(p, t) S. snd (xTaskCreate p t S)) ts (snd (xTaskCreate p t S)))"
    by (rule Cons.IH [OF created_create(1) [OF Cons.prems(1) t]]) (use Cons.prems(2-5) x t(1) fin in \<open>auto simp: image_iff\<close>)
  then show ?case by (simp add: x)
qed simp

section \<open>The start\<close>

lemma start_ok:
  assumes c: "created T S" and i: "idle \<in> T"
  shows "sched_ok idle (start_scheduling S)" "uxSchedulerSuspended (start_scheduling S) = 0" "\<not> pendsv (start_scheduling S)"
proof -
  note d = createdD [OF c]
  let ?S = "start_scheduling S"
  have f: "lists ?S = lists S" "uxPriority ?S = uxPriority S" "pxCurrentTCB ?S = pxCurrentTCB S" "xTickCount ?S = 0"
    "uxTopReadyPriority ?S = uxTopReadyPriority S" "xSchedulerRunning ?S" "uxCurrentNumberOfTasks ?S = card T"
    "pxDelayedTaskList ?S = pxDelayedTaskList S" "pxOverflowDelayedTaskList ?S = pxOverflowDelayedTaskList S"
    "xYieldPending ?S = xYieldPending S" "uxSchedulerSuspended ?S = 0" "pendsv ?S = pendsv S"
    using d(9,14) by (simp_all add: start_scheduling_def)
  have ne: "T \<noteq> {}" using i by auto
  have dp: "delay_pointers S" by (rule d(4) [OF ne])
  have none: "place S i \<noteq> Some L" if "L \<in> delayed_lists" for i L
    using that d(10,11) by (cases i) (auto simp: delayed_lists_def)
  then have "list_of S L = []" if "L \<in> delayed_lists" for L
    using that list_empty_iff [OF lists_okD(1) [OF d(2)]] by blast
  then have "time_ok ?S" using dp none delay_pointersD(1,2) [OF dp] d(12)
    by (simp add: time_ok_def f delay_pointers_def in_order_def)
  moreover have "lists_ok ?S" "bitmap_ok ?S" "is_ready ?S idle" "is_ready ?S (pxCurrentTCB ?S)" "on_top ?S"
    using d(2,3,8,10) d(5) [OF ne] i by (simp_all add: lists_ok_def bitmap_ok_def is_ready_def on_top_def blocked_def f)
  moreover have "0 < card T" using i d(1) by (auto simp: card_gt_0_iff)
  ultimately show "sched_ok idle ?S" using d(11,15,16) by (simp add: sched_ok_def core_ok_def switch_ok_def f)
  show "uxSchedulerSuspended ?S = 0" "\<not> pendsv ?S" using f d(15) by simp_all
qed

lemma boot_ok:
  assumes ts: "distinct (idle # timer # map snd ts)" "0 \<notin> set (idle # timer # map snd ts)" and n: "length ts + 2 < 4294967296"
  shows "\<exists>S. boot ts idle timer = Some S \<and> sched_ok idle S \<and> uxSchedulerSuspended S = 0 \<and> \<not> pendsv S"
proof -
  let ?F = "fold (\<lambda>(p, t) S. snd (xTaskCreate p t S)) ts reset_sched"
  have c: "created (snd ` set ts) ?F" using created_all [OF created_reset, of ts] ts n by auto
  have fin: "card (snd ` set ts) \<le> length ts" by (metis card_length length_map set_map)
  let ?T = "insert idle (snd ` set ts)"
  have t: "idle \<notin> snd ` set ts" "idle \<noteq> 0" "timer \<notin> ?T" "timer \<noteq> 0" using ts by auto
  have k: "card (snd ` set ts) + 1 < 4294967296" "card ?T + 1 < 4294967296"
    using fin n card_insert_le_m1 [of "Suc (length ts)" "snd ` set ts" idle] by (auto simp: card_insert_if)
  note a = created_create [OF c t(1,2) k(1), of tskIDLE_PRIORITY]
  note b = created_create [OF a(1) t(3,4) k(2), of configTIMER_TASK_PRIORITY]
  have "boot ts idle timer = Some (start_scheduling (snd (xTaskCreate configTIMER_TASK_PRIORITY timer
      (snd (xTaskCreate tskIDLE_PRIORITY idle ?F)))))"
    using a(2) b(2) by (simp add: boot_def vTaskStartScheduler_def split_def)
  then show ?thesis using start_ok [OF b(1), of idle] by auto
qed

end
