(* ===== verification/KSchedRun.thy ===== *)
theory KSchedRun imports KSchedBoot begin

text \<open>
  Runs of the kernel: interrupts at any time, and calls of the current task. A call that suspends
  the scheduler comes with the interrupts that are served meanwhile.
\<close>

section \<open>Events\<close>

datatype task_call =
    Delay nat
  | DelayUntil nat nat
  | WaitEvent task_list nat
  | SuspendAll
  | ResumeAll
  | Suspend task
  | Resume task
  | Delete task
  | PrioritySet task nat
  | Create nat task

datatype kernel_event = Interrupt irq | Call task_call "irq list"

fun do_task_call :: "task_call \<Rightarrow> irq list \<Rightarrow> 'z sched_scheme \<Rightarrow> 'z sched_scheme option" where
  "do_task_call (Delay n) es S = vTaskDelay_kernel (do_irqs es) n S"
| "do_task_call (DelayUntil prev inc) es S = map_option snd (vTaskDelayUntil (do_irqs es) prev inc S)"
| "do_task_call (WaitEvent L n) es S = wait_for_event (do_irqs es) L n S"
| "do_task_call SuspendAll es S = Some (vTaskSuspendAll S)"
| "do_task_call ResumeAll es S = map_option snd (xTaskResumeAll S)"
| "do_task_call (Suspend h) es S = vTaskSuspend h S"
| "do_task_call (Resume t) es S = vTaskResume t S"
| "do_task_call (Delete h) es S = vTaskDelete h S"
| "do_task_call (PrioritySet h p) es S = vTaskPrioritySet h p S"
| "do_task_call (Create p t) es S = Some (snd (xTaskCreate p t S))"

fun do_event :: "kernel_event \<Rightarrow> 'z sched_scheme \<Rightarrow> 'z sched_scheme option" where
  "do_event (Interrupt e) S = do_irq e S"
| "do_event (Call c es) S = do_task_call c es S"

text \<open>
  The rules: the idle task neither waits nor goes; a task that is suspended or deleted is ready or
  waiting; the items of a new task are in no list.
\<close>

fun call_legal :: "task \<Rightarrow> 'z sched_scheme \<Rightarrow> task_call \<Rightarrow> bool" where
  "call_legal idle S (Delay n) \<longleftrightarrow> uxSchedulerSuspended S = 0 \<and> n < 4294967296 \<and> (pxCurrentTCB S \<noteq> idle \<or> n = 0)"
| "call_legal idle S (DelayUntil prev inc) \<longleftrightarrow>
     uxSchedulerSuspended S = 0 \<and> pxCurrentTCB S \<noteq> idle \<and> 0 < inc \<and> inc < 4294967296 \<and> prev < 4294967296"
| "call_legal idle S (WaitEvent L n) \<longleftrightarrow>
     uxSchedulerSuspended S = 0 \<and> pxCurrentTCB S \<noteq> idle \<and> 0 < n \<and> n < 4294967296 \<and> is_event_list L"
| "call_legal idle S SuspendAll \<longleftrightarrow> uxSchedulerSuspended S + 1 < 4294967296"
| "call_legal idle S ResumeAll \<longleftrightarrow> 0 < uxSchedulerSuspended S \<and> uxSchedulerSuspended S < 4294967296"
| "call_legal idle S (Suspend h) \<longleftrightarrow>
     uxSchedulerSuspended S = 0 \<and> alive S (task_or_self h S) \<and> task_or_self h S \<noteq> idle"
| "call_legal idle S (Resume t) \<longleftrightarrow> uxSchedulerSuspended S = 0 \<and> t \<noteq> 0"
| "call_legal idle S (Delete h) \<longleftrightarrow>
     uxSchedulerSuspended S = 0 \<and> alive S (task_or_self h S) \<and> task_or_self h S \<noteq> idle \<and>
     1 < uxCurrentNumberOfTasks S \<and> uxCurrentNumberOfTasks S < 4294967296"
| "call_legal idle S (PrioritySet h p) \<longleftrightarrow> uxSchedulerSuspended S = 0 \<and> p < configMAX_PRIORITIES"
| "call_legal idle S (Create p t) \<longleftrightarrow>
     uxSchedulerSuspended S = 0 \<and> place S (StateItem t) = None \<and> place S (EventItem t) = None \<and> pxCurrentTCB S \<noteq> 0 \<and>
     uxCurrentNumberOfTasks S + 1 < 4294967296"

text \<open>A task calls when no switch is pending: the pending switch is served as soon as interrupts are on.\<close>

fun event_legal :: "task \<Rightarrow> 'z sched_scheme \<Rightarrow> kernel_event \<Rightarrow> bool" where
  "event_legal idle S (Interrupt e) \<longleftrightarrow> irq_legal e"
| "event_legal idle S (Call c es) \<longleftrightarrow> \<not> pendsv S \<and> list_all irq_legal es \<and> call_legal idle S c"

fun sched_run :: "kernel_event list \<Rightarrow> 'z sched_scheme \<Rightarrow> 'z sched_scheme option" where
  "sched_run [] S = Some S"
| "sched_run (e # es) S = do { S \<leftarrow> do_event e S; sched_run es S }"

fun run_legal :: "task \<Rightarrow> kernel_event list \<Rightarrow> 'z sched_scheme \<Rightarrow> bool" where
  "run_legal idle [] S \<longleftrightarrow> True"
| "run_legal idle (e # es) S \<longleftrightarrow>
     event_legal idle S e \<and> (case do_event e S of None \<Rightarrow> True | Some S \<Rightarrow> run_legal idle es S)"

section \<open>Every event returns and keeps the scheduler in order\<close>

lemma task_call_ok:
  assumes s: "sched_ok idle S" and p: "\<not> pendsv S" and es: "list_all irq_legal es" and l: "call_legal idle S c"
  shows "\<exists>S'. do_task_call c es S = Some S' \<and> sched_ok idle S'"
proof (cases c)
  case (Delay n)
  then show ?thesis using l vTaskDelay_kernel_ok [OF s _ p _ _ es, of n] by auto
next
  case (DelayUntil prev inc)
  then show ?thesis using l vTaskDelayUntil_ok [OF s _ p _ _ _ _ es, of inc prev] by auto
next
  case (WaitEvent L n)
  then show ?thesis using l wait_for_event_ok [OF s _ p _ _ _ _ es, of n L] by auto
next
  case SuspendAll
  then show ?thesis using l vTaskSuspendAll_ok [OF s p] by simp
next
  case ResumeAll
  then show ?thesis using l xTaskResumeAll_sched [OF s] by fastforce
next
  case (Suspend h)
  then show ?thesis using l vTaskSuspend_ok [OF s _ p, of h] by simp
next
  case (Resume t)
  then show ?thesis using l vTaskResume_ok [OF s, of t] by simp
next
  case (Delete h)
  then show ?thesis using l vTaskDelete_ok [OF s _ p, of h] by simp
next
  case (PrioritySet h q)
  then show ?thesis using l vTaskPrioritySet_ok [OF s _ p, of q h] by simp
next
  case (Create q t)
  then show ?thesis using l xTaskCreate_ok [OF s _ p, of t q] by simp
qed

lemma sched_run_ok:
  "sched_ok idle S \<Longrightarrow> run_legal idle es S \<Longrightarrow> \<exists>S'. sched_run es S = Some S' \<and> sched_ok idle S'"
proof (induction es arbitrary: S)
  case (Cons e es)
  obtain S1 where 1: "do_event e S = Some S1" "sched_ok idle S1"
  proof (cases e)
    case (Interrupt i)
    then show ?thesis using that irq_ok [OF Cons.prems(1), of i] Cons.prems(2) by auto
  next
    case (Call c js)
    then show ?thesis using that task_call_ok [OF Cons.prems(1), of js c] Cons.prems(2) by auto
  qed
  from Cons.IH [OF 1(2)] Cons.prems(2) 1(1) show ?case by simp
qed simp

text \<open>The current task is ready, and no ready task has a higher priority.\<close>

definition highest_runs :: "'z sched_scheme \<Rightarrow> bool" where
  "highest_runs S \<longleftrightarrow> is_ready S (pxCurrentTCB S) \<and> (\<forall>t. is_ready S t \<longrightarrow> uxPriority S t \<le> uxPriority S (pxCurrentTCB S))"

lemma sched_highest:
  fixes S :: "'z sched_scheme"
  assumes "sched_ok idle S" "uxSchedulerSuspended S = 0"
  shows "\<not> pendsv S \<Longrightarrow> highest_runs S" "\<exists>S'. xPortPendSVHandler S = Some S' \<and> highest_runs S'"
proof -
  have top: "highest_runs R" if "sched_ok idle R" "uxSchedulerSuspended R = 0" "\<not> pendsv R" for R :: "'z sched_scheme"
    using sched_okD(3,5) [OF that(1)] that(2,3) by (simp add: on_top_def highest_runs_def)
  then show "\<not> pendsv S \<Longrightarrow> highest_runs S" using assms by simp
  from switch_context_ok [OF sched_okD(1) [OF assms(1)] assms(2) sched_okD(4) [OF assms]] top
  show "\<exists>S'. xPortPendSVHandler S = Some S' \<and> highest_runs S'" by blast
qed

section \<open>Time\<close>

text \<open>The ticks that a delayed task still has to wait.\<close>

definition ticks_left :: "'z sched_scheme \<Rightarrow> task \<Rightarrow> nat" where
  "ticks_left S t = (wake_time S t + 4294967296 - xTickCount S) mod 4294967296"

definition delayed :: "'z sched_scheme \<Rightarrow> task \<Rightarrow> bool" where
  "delayed S t \<longleftrightarrow> place S (StateItem t) \<in> {Some DelayedTaskList1, Some DelayedTaskList2}"

lemma delayed_cases:
  assumes "core_ok idle S" "delayed S t"
  shows "place S (StateItem t) = Some (pxDelayedTaskList S) \<and> xTickCount S < wake_time S t \<or>
    place S (StateItem t) = Some (pxOverflowDelayedTaskList S) \<and> wake_time S t < xTickCount S"
    "xTickCount S < 4294967296" "wake_time S t < 4294967296" "delay_pointers S"
proof -
  have t: "time_ok S" using assms(1) by (simp add: core_ok_def)
  then show d: "delay_pointers S" and "xTickCount S < 4294967296" by (auto simp: time_ok_def)
  show "wake_time S t < 4294967296" using t by (simp add: time_ok_def portMAX_DELAY_def less_Suc_eq_le [symmetric])
  show "place S (StateItem t) = Some (pxDelayedTaskList S) \<and> xTickCount S < wake_time S t \<or>
    place S (StateItem t) = Some (pxOverflowDelayedTaskList S) \<and> wake_time S t < xTickCount S"
    using assms(2) t d by (auto simp: delayed_def time_ok_def delay_pointers_def)
qed

lemma ticks_left_step:
  assumes c: "core_ok idle S" and d: "delayed S t"
  shows "0 < ticks_left S t" "next_due S t \<longleftrightarrow> ticks_left S t = 1"
    "(wake_time S t + 4294967296 - inc32 (xTickCount S)) mod 4294967296 = ticks_left S t - 1"
proof -
  note a = delayed_cases [OF c d]
  have ne: "xTickCount S \<noteq> wake_time S t" using a(1) by auto
  have "pxDelayedTaskList S \<noteq> pxOverflowDelayedTaskList S" using a(4) by (auto simp: delay_pointers_def)
  then have due: "next_due S t \<longleftrightarrow> wake_time S t = inc32 (xTickCount S)"
    using a(1-3) by (auto simp: next_due_def inc32_def mod_if)
  show "0 < ticks_left S t" unfolding ticks_left_def by (rule wrapped_distance [OF a(3,2)]) (use ne in auto)
  show "next_due S t \<longleftrightarrow> ticks_left S t = 1"
    unfolding due ticks_left_def inc32_def using a(2,3) ne by (auto simp: mod_if split: if_splits)
  show "(wake_time S t + 4294967296 - inc32 (xTickCount S)) mod 4294967296 = ticks_left S t - 1"
    unfolding ticks_left_def inc32_def using a(2,3) ne by (auto simp: mod_if split: if_splits)
qed

text \<open>The task is ready, or has so many ticks to go.\<close>

definition due_in :: "nat \<Rightarrow> 'z sched_scheme \<Rightarrow> task \<Rightarrow> bool" where
  "due_in k S t \<longleftrightarrow> (if k = 0 then is_ready S t else delayed S t \<and> ticks_left S t = k)"

lemma switch_keeps:
  assumes "xPortPendSVHandler S = Some S'"
  shows "place S' i = place S i" "val (lists S') = val (lists S)" "xTickCount S' = xTickCount S" "uxPriority S' = uxPriority S"
  using assms
  by (auto simp: xPortPendSVHandler_def vTaskSwitchContext_def taskSELECT_HIGHEST_PRIORITY_TASK_def Let_def
    bind_eq_Some_conv klists_simps split: if_splits)

lemma due_in_step:
  assumes s: "sched_ok idle S" and n: "uxSchedulerSuspended S = 0" and e: "e \<in> {Tick, Switch}" and d: "due_in k S t"
  shows "\<exists>S'. do_irq e S = Some S' \<and> sched_ok idle S' \<and> uxSchedulerSuspended S' = 0 \<and>
    due_in (k - (if e = Tick then 1 else 0)) S' t"
proof -
  from irq_running [OF s n, of e] e obtain S' where
    1: "do_irq e S = Some S'" "sched_ok idle S'" "uxSchedulerSuspended S' = 0" by auto
  note c = sched_okD(1) [OF s]
  show ?thesis
  proof (cases "e = Tick")
    case False
    then have "S' = S \<or> xPortPendSVHandler S = Some S'" using e 1(1) by (auto split: if_splits)
    then have "due_in k S' t" using d switch_keeps [of S S']
      by (auto simp: due_in_def is_ready_def delayed_def ticks_left_def)
    then show ?thesis using 1 False by auto
  next
    case True
    obtain sw S1 where t: "xTaskIncrementTick S = Some (sw, S1)" "ticked idle S S1" using tick_ok [OF c n] by blast
    have "S' = (if sw then portYIELD S1 else S1)" using 1(1) True t(1) by (simp add: xPortSysTickHandler_def)
    then have f: "lists S' = lists S1" "xTickCount S' = xTickCount S1" "uxPriority S' = uxPriority S1" by simp_all
    note k = tickedD [OF t(2)] and p = same_but_timeD(1) [OF tickedD(2) [OF t(2)]]
    have "due_in (k - 1) S' t"
    proof (cases "k = 0")
      case True
      then show ?thesis using d k(5) [of t] by (auto simp: due_in_def is_ready_def f p)
    next
      case False
      then have dl: "delayed S t" "ticks_left S t = k" using d by (auto simp: due_in_def)
      note st = ticks_left_step [OF c dl(1)]
      show ?thesis
      proof (cases "k = 1")
        case True
        then show ?thesis using st(2) dl(2) k(5) [of t] by (simp add: due_in_def is_ready_def f p)
      next
        case no: False
        then have "\<not> next_due S t" using st(2) dl(2) by simp
        then have "place S' (StateItem t) = place S (StateItem t)" using k(5) [of t] by (simp add: f)
        moreover have "ticks_left S' t = k - 1" using st(3) dl(2) by (simp add: ticks_left_def f k(3,4))
        ultimately show ?thesis using dl(1) no False by (simp add: due_in_def delayed_def)
      qed
    qed
    then show ?thesis using 1 True by auto
  qed
qed

fun ticks_in :: "irq list \<Rightarrow> nat" where
  "ticks_in [] = 0"
| "ticks_in (e # es) = (if e = Tick then 1 else 0) + ticks_in es"

lemma due_in_run:
  "sched_ok idle S \<Longrightarrow> uxSchedulerSuspended S = 0 \<Longrightarrow> set es \<subseteq> {Tick, Switch} \<Longrightarrow> due_in k S t \<Longrightarrow>
    \<exists>S'. do_irqs es S = Some S' \<and> due_in (k - ticks_in es) S' t"
proof (induction es arbitrary: S k)
  case (Cons e es)
  from due_in_step [OF Cons.prems(1,2) _ Cons.prems(4), of e] Cons.prems(3) obtain S1 where
    1: "do_irq e S = Some S1" "sched_ok idle S1" "uxSchedulerSuspended S1 = 0" "due_in (k - (if e = Tick then 1 else 0)) S1 t"
    by auto
  from Cons.IH [OF 1(2,3) _ 1(4)] Cons.prems(3) show ?case using 1(1) by (simp add: diff_diff_left)
qed simp

lemma due_in_ready: "due_in k S t \<Longrightarrow> is_ready S t \<longleftrightarrow> k = 0"
  by (cases "k = 0") (auto simp: due_in_def delayed_def is_ready_def)


lemma resume_nothing_pending:
  assumes l: "lists_ok S" and p: "\<And>t. \<not> pending S t" and n: "uxSchedulerSuspended S = 1" "uxPendedTicks S = 0"
    and k: "0 < uxCurrentNumberOfTasks S"
  shows "xTaskResumeAll S = Some (xYieldPending S, if xYieldPending S then portYIELD (S\<lparr>uxSchedulerSuspended := 0\<rparr>)
      else S\<lparr>uxSchedulerSuspended := 0\<rparr>)"
proof -
  have "place S i \<noteq> Some PendingReadyList" for i
    using p lists_okD(4) [OF l, of _ PendingReadyList] by (cases i) (auto simp: pending_def)
  then have "list_of (S\<lparr>uxSchedulerSuspended := 0\<rparr>) PendingReadyList = []"
    using list_empty_iff [OF lists_okD(1) [OF l], of PendingReadyList] by simp
  then have "ready_pending (S\<lparr>uxSchedulerSuspended := 0\<rparr>) False = Some (False, S\<lparr>uxSchedulerSuspended := 0\<rparr>)"
    by (subst ready_pending.simps) simp
  then show ?thesis using n k by (simp add: xTaskResumeAll_def configASSERT_def Let_def dec32_def)
qed

text \<open>The task that calls \<open>vTaskDelay_kernel\<close>.\<close>

lemma delay_starts:
  assumes s: "sched_ok idle S" and n: "uxSchedulerSuspended S = 0" "\<not> pendsv S" "uxPendedTicks S = 0"
    and i: "pxCurrentTCB S \<noteq> idle" and t: "0 < ticks" "ticks < 4294967296"
  shows "\<exists>S1. vTaskDelay_kernel Some ticks S = Some S1 \<and> sched_ok idle S1 \<and> uxSchedulerSuspended S1 = 0 \<and>
    due_in ticks S1 (pxCurrentTCB S)"
proof -
  let ?A = "vTaskSuspendAll S" and ?t = "pxCurrentTCB S"
  note w = suspended_now [OF s n(1,2)] and d = sched_okD [OF s]
  have fA: "xTickCount ?A = xTickCount S" "uxPendedTicks ?A = 0" "\<not> xYieldPending ?A" "pendsv ?A = pendsv S"
    "lists ?A = lists S" "pxDelayedTaskList ?A = pxDelayedTaskList S" "pxOverflowDelayedTaskList ?A = pxOverflowDelayedTaskList S"
    using n d(6) by (auto simp: vTaskSuspendAll_def)
  have "pxCurrentTCB ?A \<noteq> idle" using i w(5) by simp
  from add_current_ok [OF w(1,6,4) this t, of False] obtain S3 where
    3: "prvAddCurrentTaskToDelayedList ticks False ?A = Some S3" "core_ok idle S3" "left_to_wait ticks False ?A S3" by blast
  have same: "same_but_lists ?A S3" and pl: "\<And>j. place S3 j = (if j = StateItem ?t then Some (waits_in ticks False ?A) else place S j)"
    and wk: "waits_in ticks False ?A \<noteq> SuspendedTaskList \<longrightarrow> wake_time S3 ?t = (xTickCount S + ticks) mod 4294967296"
    using 3(3) w(5) fA by (auto simp: left_to_wait_def)
  note f3 = same_but_listsD [OF same]
  have l3: "lists_ok S3" and tm: "time_ok S3" using 3(2) by (auto simp: core_ok_def)
  have dp: "delay_pointers ?A" using w(1) by (simp add: core_ok_def time_ok_def)
  have del: "waits_in ticks False ?A \<in> {DelayedTaskList1, DelayedTaskList2}" using dp by (auto simp: waits_in_def delay_pointers_def)
  have pen: "\<not> pending S3 t" for t using d(4) [OF n(1), of t] by (simp add: pending_def pl)
  have r: "xTaskResumeAll S3 = Some (False, S3\<lparr>uxSchedulerSuspended := 0\<rparr>)"
    using resume_nothing_pending [OF l3 pen] 3(2) f3 fA w(3) by (simp add: core_ok_def)
  let ?S = "portYIELD (S3\<lparr>uxSchedulerSuspended := 0\<rparr>)"
  have run: "vTaskDelay_kernel Some ticks S = Some ?S"
    using 3(1) r t n by (simp add: vTaskDelay_kernel_def configASSERT_def)
  have "sched_ok idle ?S" using 3(2) pen f3 fA by (simp add: sched_ok_def switch_ok_def pending_def)
  moreover have "due_in ticks ?S ?t"
  proof -
    have tick: "xTickCount S < 4294967296" using tm f3 fA by (simp add: time_ok_def)
    have "wake_time S3 ?t = (xTickCount S + ticks) mod 4294967296" using wk del by auto
    moreover have "((xTickCount S + ticks) mod 4294967296 + 4294967296 - xTickCount S) mod 4294967296 = ticks"
      using tick t by (cases "xTickCount S + ticks < 4294967296") (auto simp: mod_if)
    ultimately have "ticks_left ?S ?t = ticks" using f3 fA by (simp add: ticks_left_def)
    then show ?thesis using t del by (simp add: due_in_def delayed_def pl)
  qed
  ultimately show ?thesis using run by auto
qed

end
