(* ===== verification/KSchedTime.thy ===== *)
theory KSchedTime imports KSchedRun begin

text \<open>
  The count of ticks: timeouts that are measured with it, and the ticks that come while the
  scheduler is suspended. Then what a timeout of a wait for a mutex leaves behind.
\<close>

section \<open>Timeouts\<close>

lemma clock_step:
  assumes s: "sched_ok idle S" and n: "uxSchedulerSuspended S = 0" and e: "e \<in> {Tick, Switch}" and r: "do_irq e S = Some S'"
  shows "sched_ok idle S'" "uxSchedulerSuspended S' = 0"
    "xTickCount S' = (if e = Tick then inc32 (xTickCount S) else xTickCount S)"
    "xNumOfOverflows S' = (if e = Tick \<and> inc32 (xTickCount S) = 0 then i32 (xNumOfOverflows S + 1) else xNumOfOverflows S)"
proof -
  from irq_running [OF s n, of e] e r show "sched_ok idle S'" "uxSchedulerSuspended S' = 0" by auto
  show "xTickCount S' = (if e = Tick then inc32 (xTickCount S) else xTickCount S)"
    "xNumOfOverflows S' = (if e = Tick \<and> inc32 (xTickCount S) = 0 then i32 (xNumOfOverflows S + 1) else xNumOfOverflows S)"
  proof (atomize (full), cases "e = Tick")
    case True
    obtain sw S1 where t: "xTaskIncrementTick S = Some (sw, S1)" "ticked idle S S1"
      using tick_ok [OF sched_okD(1) [OF s] n] by blast
    have "S' = (if sw then portYIELD S1 else S1)" using r True t(1) by (simp add: xPortSysTickHandler_def)
    then show "xTickCount S' = (if e = Tick then inc32 (xTickCount S) else xTickCount S) \<and>
      xNumOfOverflows S' = (if e = Tick \<and> inc32 (xTickCount S) = 0 then i32 (xNumOfOverflows S + 1) else xNumOfOverflows S)"
      using True tickedD(4,7) [OF t(2)] by (simp add: portYIELD_def)
  next
    case False
    then have "S' = S \<or> xPortPendSVHandler S = Some S'" using e r by (auto split: if_splits)
    then have "xTickCount S' = xTickCount S \<and> xNumOfOverflows S' = xNumOfOverflows S"
      by (auto simp: xPortPendSVHandler_def vTaskSwitchContext_def taskSELECT_HIGHEST_PRIORITY_TASK_def Let_def
        bind_eq_Some_conv split: if_splits)
    then show "xTickCount S' = (if e = Tick then inc32 (xTickCount S) else xTickCount S) \<and>
      xNumOfOverflows S' = (if e = Tick \<and> inc32 (xTickCount S) = 0 then i32 (xNumOfOverflows S + 1) else xNumOfOverflows S)"
      using False by simp
  qed
qed

text \<open>The clock \<open>e\<close> ticks after the state \<open>S0\<close>, within two turns of the count.\<close>

definition clock_after :: "'z sched_scheme \<Rightarrow> nat \<Rightarrow> 'z sched_scheme \<Rightarrow> bool" where
  "clock_after S0 e S \<longleftrightarrow> xTickCount S = (xTickCount S0 + e) mod 4294967296 \<and>
     (xTickCount S0 + e < 8589934592 \<longrightarrow>
      xNumOfOverflows S = (if xTickCount S0 + e < 4294967296 then xNumOfOverflows S0 else i32 (xNumOfOverflows S0 + 1)))"

lemma clock_after_tick:
  assumes "clock_after S0 e S" "xTickCount S' = inc32 (xTickCount S)"
    "xNumOfOverflows S' = (if inc32 (xTickCount S) = 0 then i32 (xNumOfOverflows S + 1) else xNumOfOverflows S)"
  shows "clock_after S0 (e + 1) S'"
proof -
  have t: "inc32 (xTickCount S) = (xTickCount S0 + (e + 1)) mod 4294967296"
    using assms(1) by (simp add: clock_after_def inc32_def mod_Suc_eq)
  have "inc32 (xTickCount S) = 0 \<longleftrightarrow> xTickCount S0 + e + 1 = 4294967296" if "xTickCount S0 + (e + 1) < 8589934592"
    using that unfolding t by (auto simp: mod_if)
  then show ?thesis using assms t unfolding clock_after_def by auto
qed

lemma clock_run:
  "sched_ok idle S \<Longrightarrow> uxSchedulerSuspended S = 0 \<Longrightarrow> set es \<subseteq> {Tick, Switch} \<Longrightarrow> clock_after S0 e0 S \<Longrightarrow>
    \<exists>S'. do_irqs es S = Some S' \<and> clock_after S0 (e0 + ticks_in es) S'"
proof (induction es arbitrary: S e0)
  case (Cons e es)
  have e: "e \<in> {Tick, Switch}" "set es \<subseteq> {Tick, Switch}" using Cons.prems(3) by auto
  obtain S1 where 1: "do_irq e S = Some S1" using irq_running [OF Cons.prems(1,2), of e] e(1) by auto
  note k = clock_step [OF Cons.prems(1,2) e(1) 1]
  have "clock_after S0 (e0 + (if e = Tick then 1 else 0)) S1"
  proof (cases "e = Tick")
    case True
    then show ?thesis using clock_after_tick [OF Cons.prems(4), of S1] k(3,4) by simp
  next
    case False
    then show ?thesis using Cons.prems(4) k(3,4) by (simp add: clock_after_def)
  qed
  from Cons.IH [OF k(1,2) e(2) this] show ?case using 1 by (simp add: add.assoc)
qed simp

lemma timeout_verdict:
  assumes c: "clock_after S0 e S" and x: "xTickCount S0 < 4294967296" and e: "e < 4294967296" and w: "ticks \<noteq> portMAX_DELAY"
  shows "xTaskCheckForTimeOut (vTaskInternalSetTimeOutState S0) ticks S =
    (if ticks \<le> e then (True, vTaskInternalSetTimeOutState S0, 0) else (False, vTaskInternalSetTimeOutState S, ticks - e))"
proof -
  have t: "xTickCount S = (xTickCount S0 + e) mod 4294967296" using c by (simp add: clock_after_def)
  have o: "xNumOfOverflows S = (if xTickCount S0 + e < 4294967296 then xNumOfOverflows S0 else i32 (xNumOfOverflows S0 + 1))"
    using c x e by (simp add: clock_after_def)
  have el: "(xTickCount S + 4294967296 - xTickCount S0) mod 4294967296 = e"
    unfolding t using x e by (cases "xTickCount S0 + e < 4294967296") (auto simp: mod_if)
  have "\<not> (xNumOfOverflows S \<noteq> xNumOfOverflows S0 \<and> xTickCount S0 \<le> xTickCount S)"
    unfolding o t using x e by (auto simp: mod_if)
  then show ?thesis using w el by (auto simp: xTaskCheckForTimeOut_def vTaskInternalSetTimeOutState_def Let_def)
qed

section \<open>Ticks while the scheduler is suspended\<close>

lemma held_back:
  "core_ok idle S \<Longrightarrow> switch_ok S \<Longrightarrow> uxSchedulerSuspended S \<noteq> 0 \<Longrightarrow> list_all irq_legal es \<Longrightarrow>
    \<exists>S'. do_irqs es S = Some S' \<and> stays idle S S' \<and>
      (uxPendedTicks S + ticks_in es < 4294967296 \<longrightarrow> uxPendedTicks S' = uxPendedTicks S + ticks_in es)"
proof (induction es arbitrary: S)
  case (Cons e es)
  have e: "irq_legal e" "list_all irq_legal es" using Cons.prems(4) by auto
  from irq_suspended [OF Cons.prems(1-3) e(1)] obtain S1 where 1: "do_irq e S = Some S1" "stays idle S S1" by blast
  have p: "uxPendedTicks S1 = (if e = Tick then inc32 (uxPendedTicks S) else uxPendedTicks S)"
  proof (cases e)
    case Tick
    then show ?thesis using 1(1) Cons.prems(3)
      by (auto simp: xPortSysTickHandler_def xTaskIncrementTick_def portYIELD_def)
  next
    case Switch
    then show ?thesis using 1(1) Cons.prems(3)
      by (auto simp: xPortPendSVHandler_def vTaskSwitchContext_def split: if_splits)
  next
    case (WakeFirst L)
    show ?thesis
    proof (cases "list_of S L = []")
      case True
      then show ?thesis using WakeFirst 1(1) by simp
    next
      case False
      obtain t where t: "head_owner L S = Some t" "place S (EventItem t) = Some L"
        using wake_first_parts [OF Cons.prems(1) _ False] WakeFirst e(1) by auto
      show ?thesis using WakeFirst 1(1) False t(1) take_off_eq [OF t(2)] Cons.prems(3)
        by (auto simp: xTaskRemoveFromEventList_def Let_def in_lists_in_lists portYIELD_def split: if_splits)
    qed
  next
    case (WakeTask t)
    then show ?thesis using 1(1) Cons.prems(3)
      by (auto simp: xTaskResumeFromISR_def configASSERT_def bind_eq_Some_conv split: if_splits)
  qed
  have c1: "core_ok idle S1" "switch_ok S1" "uxSchedulerSuspended S1 \<noteq> 0" using 1(2) Cons.prems(3) by (auto simp: stays_def)
  from Cons.IH [OF c1 e(2)] obtain S' where
    2: "do_irqs es S1 = Some S'" "stays idle S1 S'"
      "uxPendedTicks S1 + ticks_in es < 4294967296 \<longrightarrow> uxPendedTicks S' = uxPendedTicks S1 + ticks_in es" by blast
  have "stays idle S S'" using 1(2) 2(2) by (simp add: stays_def)
  moreover have "uxPendedTicks S + ticks_in (e # es) < 4294967296 \<longrightarrow> uxPendedTicks S' = uxPendedTicks S + ticks_in (e # es)"
    using 2(3) p by (auto simp: inc32_def)
  ultimately show ?case using 1(1) 2(1) by simp
qed (simp add: stays_def)

lemma catch_up_clock:
  "core_ok idle S \<Longrightarrow> uxSchedulerSuspended S = 0 \<Longrightarrow> catch_up n S = Some S' \<Longrightarrow>
    xTickCount S' = (xTickCount S + n) mod 4294967296"
proof (induction n arbitrary: S)
  case 0
  then show ?case by (simp add: core_ok_def time_ok_def)
next
  case (Suc n)
  from tick_ok [OF Suc.prems(1,2)] obtain sw S1 where 1: "xTaskIncrementTick S = Some (sw, S1)" "ticked idle S S1" by blast
  let ?S = "if sw then S1\<lparr>xYieldPending := True\<rparr> else S1"
  have "core_ok idle ?S" "uxSchedulerSuspended ?S = 0" "xTickCount ?S = inc32 (xTickCount S)"
    using tickedD(1,4) [OF 1(2)] same_but_timeD(9) [OF tickedD(2) [OF 1(2)]] Suc.prems(2) by auto
  from Suc.IH [OF this(1,2)] this(3) Suc.prems(3) 1(1) show ?case by (simp add: inc32_def mod_simps)
qed

lemma resume_clock:
  assumes c: "core_ok idle S" "switch_ok S" and n: "uxSchedulerSuspended S = 1"
  shows "\<exists>y S'. xTaskResumeAll S = Some (y, S') \<and> xTickCount S' = (xTickCount S + uxPendedTicks S) mod 4294967296 \<and>
    uxPendedTicks S' = 0 \<and> resumed idle S y S' \<and> uxSchedulerSuspended S' = 0"
proof -
  from xTaskResumeAll_ok [OF c] n obtain y S' where
    r: "xTaskResumeAll S = Some (y, S')" "resumed idle S y S'" "uxSchedulerSuspended S' = 0" by auto
  let ?D = "S\<lparr>uxSchedulerSuspended := 0\<rparr>"
  have cD: "core_ok idle ?D" using c by simp
  from ready_pending_ok [OF cD, of False] obtain any S1 where
    1: "ready_pending ?D False = Some (any, S1)" "readied idle ?D S1" by blast
  let ?R = "if any then prvResetNextTaskUnblockTime S1 else S1"
  have f: "xTickCount ?R = xTickCount S" "uxPendedTicks ?R = uxPendedTicks S" "uxSchedulerSuspended ?R = 0"
    using readiedD(2) [OF 1(2)] by (auto simp: same_but_ready_def)
  have cR: "core_ok idle ?R" using readiedD(1) [OF 1(2)] reset_unblock_core by auto
  have num: "0 < uxCurrentNumberOfTasks S" using c by (simp add: core_ok_def)
  have "xTickCount S' = (xTickCount S + uxPendedTicks S) mod 4294967296 \<and> uxPendedTicks S' = 0"
  proof (cases "0 < uxPendedTicks S")
    case False
    have "xTickCount S < 4294967296" using c by (simp add: core_ok_def time_ok_def)
    then show ?thesis using r(1) n num 1(1) f False
      by (simp add: xTaskResumeAll_def configASSERT_def Let_def dec32_def portYIELD_def split: if_splits) auto
  next
    case True
    obtain S2 where "catch_up (uxPendedTicks S) ?R = Some S2"
      using r(1) n num 1(1) f True
      by (auto simp: xTaskResumeAll_def configASSERT_def Let_def dec32_def bind_eq_Some_conv split: if_splits)
    then show ?thesis using catch_up_clock [OF cR f(3), of "uxPendedTicks S" S2] r(1) n num 1(1) f True
      by (auto simp: xTaskResumeAll_def configASSERT_def Let_def dec32_def portYIELD_def split: if_splits)
  qed
  then show ?thesis using r by blast
qed

section \<open>A bit that stays set\<close>

text \<open>
  What \<open>vTaskPriorityDisinheritAfterTimeout\<close> leaves behind when the holder of the mutex is the last
  task of its ready list: the bit of a list without entries.
\<close>

lemma disinherit_after_timeout_stale:
  assumes c: "core_ok idle S" and t: "t \<noteq> 0" "t \<noteq> pxCurrentTCB S" "uxMutexesHeld S t = 1"
    and p: "uxBasePriority S t < uxPriority S t" "highest < uxPriority S t"
    and l: "list_of S (Ready (uxPriority S t)) = [StateItem t]"
  shows "\<exists>S'. vTaskPriorityDisinheritAfterTimeout t highest S = Some S' \<and> list_of S' (Ready (uxPriority S t)) = [] \<and>
    bit (uxTopReadyPriority S') (uxPriority S t) \<and>
    (\<forall>q. bit (uxTopReadyPriority S') q \<longrightarrow> bit (uxTopReadyPriority S) q \<or> q < uxPriority S t) \<and>
    (\<forall>q>uxPriority S t. list_of S' (Ready q) = list_of S (Ready q)) \<and>
    (\<forall>i. i \<noteq> StateItem t \<longrightarrow> place S' i = place S i) \<and> wf_lists (lists S') \<and>
    pxCurrentTCB S' = pxCurrentTCB S \<and> (\<forall>u. u \<noteq> t \<longrightarrow> uxPriority S' u = uxPriority S u) \<and>
    uxSchedulerSuspended S' = uxSchedulerSuspended S \<and> pxDelayedTaskList S' = pxDelayedTaskList S \<and>
    pxOverflowDelayedTaskList S' = pxOverflowDelayedTaskList S"
proof -
  have lo: "lists_ok S" and b: "bitmap_ok S" using c by (auto simp: core_ok_def)
  note wf = lists_okD(1) [OF lo]
  let ?p = "uxPriority S t"
  define q where "q = (if uxBasePriority S t < highest then highest else uxBasePriority S t)"
  have q: "q < ?p" using p by (simp add: q_def)
  have "StateItem t \<in> set (list_of S (Ready ?p))" using l by simp
  then have h: "place S (StateItem t) = Some (Ready ?p)" using wf_listsD(1) [OF wf] by blast
  have p5: "?p < configMAX_PRIORITIES" by (rule lists_okD(3) [OF lo])
  have bp: "bit (uxTopReadyPriority S) ?p" using b h p5 by (auto simp: bitmap_ok_def configMAX_PRIORITIES_def)
  obtain S1 where S1: "set_event_value t q (S\<lparr>uxPriority := (uxPriority S)(t := q)\<rparr>) = S1" by simp
  obtain v where v: "lists S1 = set_value (EventItem t) v (lists S)"
    unfolding S1 [symmetric] by (rule set_event_value_lists [of t q "S\<lparr>uxPriority := (uxPriority S)(t := q)\<rparr>"]) simp
  have f1: "uxPriority S1 = (uxPriority S)(t := q)" "uxTopReadyPriority S1 = uxTopReadyPriority S" "pxCurrentTCB S1 = pxCurrentTCB S"
    "uxSchedulerSuspended S1 = uxSchedulerSuspended S" "pxDelayedTaskList S1 = pxDelayedTaskList S"
    "pxOverflowDelayedTaskList S1 = pxOverflowDelayedTaskList S"
    by (simp_all add: S1 [symmetric])
  let ?R = "in_lists (remove_item (StateItem t)) S1"
  have e: "list_of ?R (Ready r) = remove1 (StateItem t) (list_of S (Ready r))" for r
    using wf by (simp add: entries_remove_item v klists_simps)
  have emp: "list_of ?R (Ready ?p) = []" unfolding e l by simp
  have h1: "place S1 (StateItem t) = Some (Ready ?p)" by (simp add: v klists_simps h)
  have off: "take_off (StateItem t) S1 = Some (True, ?R)" using take_off_eq [OF h1] emp by simp
  obtain D where D: "taskRESET_READY_PRIORITY (uxPriority ?R t) ?R = D" by simp
  have fD: "lists D = lists ?R" "uxPriority D = (uxPriority S)(t := q)" "pxCurrentTCB D = pxCurrentTCB S"
    "uxSchedulerSuspended D = uxSchedulerSuspended S" "pxDelayedTaskList D = pxDelayedTaskList S"
    "pxOverflowDelayedTaskList D = pxOverflowDelayedTaskList S"
    "uxTopReadyPriority D = (if list_of ?R (Ready q) = [] then uxTopReadyPriority S AND NOT (push_bit q 1) else uxTopReadyPriority S)"
    by (auto simp: D [symmetric] taskRESET_READY_PRIORITY_def portRESET_READY_PRIORITY_def f1)
  let ?S = "prvAddTaskToReadyList t D"
  have ne: "configASSERT (uxMutexesHeld S t \<noteq> 0) = Some ()" "configASSERT (t \<noteq> pxCurrentTCB S) = Some ()"
    using t by (simp_all add: configASSERT_def)
  have pq: "?p \<noteq> q \<and> uxMutexesHeld S t = 1" using q t by simp
  have run: "vTaskPriorityDisinheritAfterTimeout t highest S = Some ?S"
    unfolding vTaskPriorityDisinheritAfterTimeout_def Let_def ne Option.bind_lunit q_def [symmetric] S1
    using t(1) pq h1 off D by simp
  have fS: "lists ?S = insert_end (Ready q) (StateItem t) (remove_item (StateItem t) (lists S1))"
    "uxTopReadyPriority ?S = uxTopReadyPriority D OR 2 ^ q" using fD by simp_all
  have "list_of ?S (Ready ?p) = []" using q emp unfolding fS by (simp add: klists_simps)
  moreover have "bit (uxTopReadyPriority ?S) ?p" unfolding fS(2) using bp q fD(7) by (auto simp: bit_record bit_reset)
  moreover have "bit (uxTopReadyPriority S) r \<or> r < ?p" if "bit (uxTopReadyPriority ?S) r" for r
    using that q unfolding fS(2) fD(7) by (auto simp: bit_record bit_reset split: if_splits)
  moreover have "list_of ?S (Ready r) = list_of S (Ready r)" if "?p < r" for r
  proof -
    have "StateItem t \<notin> set (list_of S (Ready r))" using wf_listsD(1) [OF wf, of "StateItem t" "Ready r"] h that by simp
    then show ?thesis using that q e [of r] unfolding fS by (simp add: klists_simps remove1_idem)
  qed
  moreover have "place ?S i = place S i" if "i \<noteq> StateItem t" for i using that unfolding fS by (simp add: klists_simps v)
  moreover have "wf_lists (lists ?S)" unfolding fS using wf by (auto simp: v klists_simps intro!: wf_intros)
  moreover have "pxCurrentTCB ?S = pxCurrentTCB S" "\<And>u. u \<noteq> t \<Longrightarrow> uxPriority ?S u = uxPriority S u"
    "uxSchedulerSuspended ?S = uxSchedulerSuspended S" "pxDelayedTaskList ?S = pxDelayedTaskList S"
    "pxOverflowDelayedTaskList ?S = pxOverflowDelayedTaskList S"
    using same_but_listsD(1,4,5,6,13) [OF add_ready_same [of D t]] fD by simp_all
  ultimately show ?thesis using run by blast
qed

text \<open>When the tasks above have gone to wait, the next switch selects from that list.\<close>

lemma stale_bit_stops_switch:
  assumes b: "bit (uxTopReadyPriority S) p" "list_of S (Ready p) = []" and q: "\<And>q. bit (uxTopReadyPriority S) q \<Longrightarrow> q \<le> p"
    and n: "uxSchedulerSuspended S = 0"
  shows "xPortPendSVHandler S = None"
proof -
  have "portGET_HIGHEST_PRIORITY (uxTopReadyPriority S) = p" by (rule highest_priority [OF b(1) q])
  then show ?thesis using b(2) n
    by (simp add: xPortPendSVHandler_def vTaskSwitchContext_def taskSELECT_HIGHEST_PRIORITY_TASK_def configASSERT_def Let_def)
qed


lemma switch_stops:
  assumes c: "core_ok idle S" and t: "t \<noteq> 0" "uxMutexesHeld S t = 1"
    and p: "uxBasePriority S t < uxPriority S t" "highest < uxPriority S t" "uxPriority S t < uxPriority S (pxCurrentTCB S)"
    and l: "list_of S (Ready (uxPriority S t)) = [StateItem t]"
      "list_of S (Ready (uxPriority S (pxCurrentTCB S))) = [StateItem (pxCurrentTCB S)]"
    and above: "\<And>u. is_ready S u \<Longrightarrow> u \<noteq> pxCurrentTCB S \<Longrightarrow> uxPriority S u \<le> uxPriority S t"
    and n: "uxSchedulerSuspended S = 0"
  shows "\<exists>S' S''. vTaskPriorityDisinheritAfterTimeout t highest S = Some S' \<and>
    prvAddCurrentTaskToDelayedList ticks indefinite S' = Some S'' \<and> xPortPendSVHandler S'' = None"
proof -
  let ?c = "pxCurrentTCB S" and ?p = "uxPriority S t"
  have tc: "t \<noteq> ?c" using p(3) by auto
  have lo: "lists_ok S" and b: "bitmap_ok S" and d: "delay_pointers S" using c by (auto simp: core_ok_def time_ok_def)
  from disinherit_after_timeout_stale [OF c t(1) tc t(2) p(1,2) l(1)] obtain S' where
    S': "vTaskPriorityDisinheritAfterTimeout t highest S = Some S'" "list_of S' (Ready ?p) = []"
      "bit (uxTopReadyPriority S') ?p" "\<And>q. bit (uxTopReadyPriority S') q \<Longrightarrow> bit (uxTopReadyPriority S) q \<or> q < ?p"
      "\<And>q. ?p < q \<Longrightarrow> list_of S' (Ready q) = list_of S (Ready q)" "\<And>i. i \<noteq> StateItem t \<Longrightarrow> place S' i = place S i"
      "wf_lists (lists S')" "pxCurrentTCB S' = ?c" "\<And>u. u \<noteq> t \<Longrightarrow> uxPriority S' u = uxPriority S u"
      "uxSchedulerSuspended S' = uxSchedulerSuspended S" "pxDelayedTaskList S' = pxDelayedTaskList S"
      "pxOverflowDelayedTaskList S' = pxOverflowDelayedTaskList S" by blast
  have "StateItem ?c \<in> set (list_of S (Ready (uxPriority S ?c)))" using l(2) by simp
  then have hc: "place S' (StateItem ?c) = Some (Ready (uxPriority S' ?c))" "uxPriority S' ?c = uxPriority S ?c"
    using wf_listsD(1) [OF lists_okD(1) [OF lo]] S'(6,9) tc by auto
  define R where "R = drop_ready ?c S'"
  have lR: "list_of R L = remove1 (StateItem ?c) (list_of S' L)" for L
    unfolding R_def using entries_remove_item [OF S'(7)] by simp
  have "list_of S' (Ready (uxPriority S ?c)) = [StateItem ?c]" using S'(5) [OF p(3)] l(2) by simp
  then have tR: "uxTopReadyPriority R = uxTopReadyPriority S' AND NOT (2 ^ uxPriority S ?c)"
    using hc(2) entries_remove_item [OF S'(7), of "StateItem ?c"]
    by (simp add: R_def drop_ready_def Let_def portRESET_READY_PRIORITY_def)
  have dp': "delay_pointers S'" using d S'(11,12) by (simp add: delay_pointers_def)
  have nW: "waits_in ticks indefinite S' \<noteq> Ready r" for r
    using delay_pointersD(7,8) [OF dp', of r] by (auto simp: waits_in_def)
  obtain S'' where S'': "prvAddCurrentTaskToDelayedList ticks indefinite S' = Some S''"
    "uxTopReadyPriority S'' = uxTopReadyPriority R" "uxSchedulerSuspended S'' = 0" "list_of S'' (Ready ?p) = list_of R (Ready ?p)"
  proof -
    let ?W = "waits_in ticks indefinite S'"
    define E where "E = in_lists (insert_end SuspendedTaskList (StateItem ?c)) R"
    define I where "I = in_lists (insert_sorted ?W (StateItem ?c)) (in_lists (set_value (StateItem ?c) ((xTickCount S' + ticks) mod 4294967296)) R)"
    define X where "X = (if ?W = SuspendedTaskList \<and> ticks = portMAX_DELAY \<and> indefinite then E
       else if \<not> (xTickCount S' + ticks) mod 4294967296 < xTickCount S' \<and> (xTickCount S' + ticks) mod 4294967296 < xNextTaskUnblockTime S'
         then I\<lparr>xNextTaskUnblockTime := (xTickCount S' + ticks) mod 4294967296\<rparr> else I)"
    have "prvAddCurrentTaskToDelayedList ticks indefinite S' = Some X"
      unfolding add_current_unfold [of S' ticks indefinite, unfolded S'(8), OF hc(1)] Let_def X_def E_def I_def R_def ..
    moreover have "uxTopReadyPriority X = uxTopReadyPriority R" "uxSchedulerSuspended X = 0"
      using n S'(10) by (simp_all add: X_def E_def I_def R_def)
    moreover have "list_of E (Ready ?p) = list_of R (Ready ?p)" "list_of I (Ready ?p) = list_of R (Ready ?p)"
      using nW [of ?p] by (simp_all add: E_def I_def klists_simps)
    then have "list_of X (Ready ?p) = list_of R (Ready ?p)" by (simp add: X_def)
    ultimately show ?thesis by (rule that)
  qed
  have "xPortPendSVHandler S'' = None"
  proof (rule stale_bit_stops_switch [of _ ?p])
    show "bit (uxTopReadyPriority S'') ?p" using S'(3) p(3) by (simp add: S''(2) tR bit_reset)
    show "list_of S'' (Ready ?p) = []" using S'(2) lR by (simp add: S''(4))
    show "r \<le> ?p" if r: "bit (uxTopReadyPriority S'') r" for r
    proof (rule ccontr)
      assume "\<not> r \<le> ?p"
      then have "bit (uxTopReadyPriority S) r" "r \<noteq> uxPriority S ?c" using r S'(4) [of r] by (auto simp: S''(2) tR bit_reset)
      moreover have "r < 32" using calculation(1) bit_imp_le_length by fastforce
      ultimately obtain u where "place S (StateItem u) = Some (Ready r)" using b by (auto simp: bitmap_ok_def)
      moreover have "uxPriority S u = r" using lists_okD(2) [OF lo calculation] by simp
      ultimately show False using above [of u] \<open>r \<noteq> uxPriority S ?c\<close> \<open>\<not> r \<le> ?p\<close> by (auto simp: is_ready_def)
    qed
  qed (rule S''(3))
  then show ?thesis using S'(1) S''(1) by blast
qed

end
