(* ===== verification/KListRun.thy ===== *)
theory KListRun imports KListRefine begin

text \<open>
  Walking round a list, looking at it, and sequences of calls: any calls that keep the rules of
  freertos/inc/list.h get the answers that the contract gives.
\<close>

section \<open>Walking and looking\<close>

lemma listGET_OWNER_OF_NEXT_ENTRY_ok:
  assumes h: "holds s K" and m: "made K L" and t: "turn (seq K L) = Some (i, m')"
  shows "\<exists>s'. listGET_OWNER_OF_NEXT_ENTRY L s = Some (i, s') \<and> holds s' (on_list L (\<lambda>_. m') K)"
proof -
  note r = holdsD(1) [OF h m]
  obtain f b where fb: "seq K L = (f, b)" by fastforce
  have e: "entries m' = entries (seq K L)" using t fb by (auto simp: turn_def entries_def split: list.splits)
  have ix: "pxIndex (list_at s L) = last (ListEnd L # map Item f)" using r fb by (simp add: ring_def)
  have nx: "next_of s (last (ListEnd L # map Item f)) = hd (map Item b @ [ListEnd L])"
    by (rule ring_prev(2) [OF r]) (simp add: fb entries_def)
  have n: "last (ListEnd L # map Item f) \<noteq> NoItem" by (simp add: last_map)
  have "\<exists>s'. listGET_OWNER_OF_NEXT_ENTRY L s = Some (i, s') \<and> item s' = item s \<and>
      list_at s' = (list_at s)(L := list_at s L\<lparr>pxIndex := mark_node L m'\<rparr>)"
  proof (cases b)
    case (Cons x c)
    then show ?thesis using t fb ix nx n
      by (auto simp: listGET_OWNER_OF_NEXT_ENTRY_def store_simps owner_def turn_def)
  next
    case Nil
    then obtain g where g: "f = i # g" "m' = ([i], g)" using t fb by (auto simp: turn_def split: list.splits)
    have "next_of s (ListEnd L) = Item i"
      using ring_prev(2) [OF r, of "[]" "f @ b"] fb g by (simp add: entries_def)
    then show ?thesis using Nil g ix nx n
      by (auto simp: listGET_OWNER_OF_NEXT_ENTRY_def store_simps owner_def)
  qed
  then obtain s' where s': "listGET_OWNER_OF_NEXT_ENTRY L s = Some (i, s')" "item s' = item s"
    "list_at s' = (list_at s)(L := list_at s L\<lparr>pxIndex := mark_node L m'\<rparr>)" by blast
  have "ring s' L m'" using r e s' by (simp add: ring_def)
  moreover have "ring s' L' (seq K L')" if "made K L'" "L' \<noteq> L" for L'
    by (rule ring_frame [OF h that(1)]) (use s' that in auto)
  ultimately have "holds s' (on_list L (\<lambda>_. m') K)"
    using h s' e unfolding holds_def by (auto simp: on_list_def)
  then show ?thesis using s'(1) by blast
qed

lemma listGET_OWNER_OF_HEAD_ENTRY_ok:
  assumes h: "holds s K" and m: "made K L"
  shows "listGET_OWNER_OF_HEAD_ENTRY L s = (case entries (seq K L) of [] \<Rightarrow> None | i # xs \<Rightarrow> Some i)"
  using ring_prev(2) [OF holdsD(1) [OF h m], of "[]" "entries (seq K L)"]
  by (auto simp: listGET_OWNER_OF_HEAD_ENTRY_def owner_def split: list.splits)

lemma listLIST_IS_EMPTY_ok:
  assumes "holds s K" "made K L" "length (entries (seq K L)) < 4294967296"
  shows "listLIST_IS_EMPTY L s \<longleftrightarrow> entries (seq K L) = []"
  using holdsD(1) [OF assms(1,2)] assms(3) by (simp add: listLIST_IS_EMPTY_def ring_def)

lemma vListInitialiseItem_ok:
  assumes h: "holds s K" and "home K i = None"
  shows "\<exists>s'. vListInitialiseItem i s = Some s' \<and> holds s' K"
proof -
  have "pvContainer (item s (Item i)) = None" using holdsD(2) [OF h, of i] assms(2) by simp
  then have "item s (Item i)\<lparr>pvContainer := None\<rparr> = item s (Item i)" by (cases "item s (Item i)") simp
  then have "vListInitialiseItem i s = Some (s\<lparr>item := item s\<rparr>)"
    by (simp add: vListInitialiseItem_def store_simps fun_upd_idem)
  then show ?thesis using h by simp
qed

section \<open>Sequences of calls\<close>

datatype ('i, 'l) list_call =
    Initialise 'l
  | InitialiseItem 'i
  | InsertEnd 'l 'i
  | Insert 'l 'i
  | Remove 'i
  | NextEntry 'l
  | HeadEntry 'l
  | SetValue 'i nat
  | IsEmpty 'l
  | IsWithin "'l option" 'i

datatype 'i list_answer = Done | Left nat | Owner 'i | Truth bool

fun do_list_call :: "('i, 'l) list_call \<Rightarrow> ('i, 'l) store \<Rightarrow> ('i list_answer \<times> ('i, 'l) store) option" where
  "do_list_call (Initialise L) s = map_option (Pair Done) (vListInitialise L s)"
| "do_list_call (InitialiseItem i) s = map_option (Pair Done) (vListInitialiseItem i s)"
| "do_list_call (InsertEnd L i) s = map_option (Pair Done) (vListInsertEnd L i s)"
| "do_list_call (Insert L i) s = map_option (Pair Done) (vListInsert L i s)"
| "do_list_call (Remove i) s = map_option (map_prod Left id) (uxListRemove i s)"
| "do_list_call (NextEntry L) s = map_option (map_prod Owner id) (listGET_OWNER_OF_NEXT_ENTRY L s)"
| "do_list_call (HeadEntry L) s = map_option (\<lambda>i. (Owner i, s)) (listGET_OWNER_OF_HEAD_ENTRY L s)"
| "do_list_call (SetValue i v) s = map_option (Pair Done) (listSET_LIST_ITEM_VALUE i v s)"
| "do_list_call (IsEmpty L) s = Some (Truth (listLIST_IS_EMPTY L s), s)"
| "do_list_call (IsWithin L i) s = Some (Truth (listIS_CONTAINED_WITHIN L i s), s)"

fun contract_call :: "('i, 'l) list_call \<Rightarrow> ('i, 'l) klists \<Rightarrow> 'i list_answer \<times> ('i, 'l) klists" where
  "contract_call (Initialise L) K = (Done, new_list L K)"
| "contract_call (InitialiseItem i) K = (Done, K)"
| "contract_call (InsertEnd L i) K = (Done, insert_end L i K)"
| "contract_call (Insert L i) K = (Done, insert_sorted L i K)"
| "contract_call (Remove i) K =
     (let K' = remove_item i K
      in (Left (case home K i of None \<Rightarrow> 0 | Some L \<Rightarrow> length (entries (seq K' L)) mod 4294967296), K'))"
| "contract_call (NextEntry L) K =
     (case turn (seq K L) of None \<Rightarrow> (Done, K) | Some (i, m) \<Rightarrow> (Owner i, on_list L (\<lambda>_. m) K))"
| "contract_call (HeadEntry L) K = (case entries (seq K L) of [] \<Rightarrow> Done | i # xs \<Rightarrow> Owner i, K)"
| "contract_call (SetValue i v) K = (Done, set_value i v K)"
| "contract_call (IsEmpty L) K = (Truth (entries (seq K L) = []), K)"
| "contract_call (IsWithin L i) K = (Truth (home K i = L), K)"

text \<open>The rules: an item goes into a list only when it is in none, and is taken from one only when it is in one.\<close>

fun list_legal :: "('i, 'l) klists \<Rightarrow> ('i, 'l) list_call \<Rightarrow> bool" where
  "list_legal K (Initialise L) \<longleftrightarrow> \<not> made K L \<or> entries (seq K L) = []"
| "list_legal K (InitialiseItem i) \<longleftrightarrow> home K i = None"
| "list_legal K (InsertEnd L i) \<longleftrightarrow> made K L \<and> home K i = None"
| "list_legal K (Insert L i) \<longleftrightarrow> made K L \<and> home K i = None"
| "list_legal K (Remove i) \<longleftrightarrow> home K i \<noteq> None"
| "list_legal K (NextEntry L) \<longleftrightarrow> made K L \<and> entries (seq K L) \<noteq> []"
| "list_legal K (HeadEntry L) \<longleftrightarrow> made K L \<and> entries (seq K L) \<noteq> []"
| "list_legal K (SetValue i v) \<longleftrightarrow> v \<le> portMAX_DELAY"
| "list_legal K (IsEmpty L) \<longleftrightarrow> made K L \<and> length (entries (seq K L)) < 4294967296"
| "list_legal K (IsWithin L i) \<longleftrightarrow> True"

fun list_run :: "('i, 'l) list_call list \<Rightarrow> ('i, 'l) store \<Rightarrow> ('i list_answer list \<times> ('i, 'l) store) option" where
  "list_run [] s = Some ([], s)"
| "list_run (c # cs) s = do {
     (a, s) \<leftarrow> do_list_call c s;
     (as, s) \<leftarrow> list_run cs s;
     Some (a # as, s) }"

fun contract_run :: "('i, 'l) list_call list \<Rightarrow> ('i, 'l) klists \<Rightarrow> 'i list_answer list \<times> ('i, 'l) klists" where
  "contract_run [] K = ([], K)"
| "contract_run (c # cs) K = (case contract_call c K of (a, K) \<Rightarrow> case contract_run cs K of (as, K) \<Rightarrow> (a # as, K))"

fun list_legal_run :: "('i, 'l) klists \<Rightarrow> ('i, 'l) list_call list \<Rightarrow> bool" where
  "list_legal_run K [] \<longleftrightarrow> True"
| "list_legal_run K (c # cs) \<longleftrightarrow> list_legal K c \<and> list_legal_run (snd (contract_call c K)) cs"

lemma turn_None: "turn m = None \<longleftrightarrow> entries m = []"
  by (auto simp: turn_def entries_def split: prod.splits list.splits)

lemma do_list_call_ok:
  assumes h: "holds s K" and l: "list_legal K c"
  shows "\<exists>s'. do_list_call c s = Some (fst (contract_call c K), s') \<and> holds s' (snd (contract_call c K))"
proof (cases c)
  case (Initialise L)
  have "home K i \<noteq> Some L" for i
    using l Initialise holdsD(5) [OF h, of i L] holdsD(6) [OF h, of L i] by auto
  from vListInitialise_ok [OF h this] show ?thesis using Initialise by auto
next
  case (Remove i)
  then obtain L where L: "home K i = Some L" using l by auto
  from uxListRemove_ok [OF h L] show ?thesis using Remove L by (auto simp: Let_def)
next
  case (NextEntry L)
  then obtain i m where t: "turn (seq K L) = Some (i, m)" using l turn_None [of "seq K L"] by fastforce
  from listGET_OWNER_OF_NEXT_ENTRY_ok [OF h _ t] show ?thesis using NextEntry l t by auto
next
  case (HeadEntry L)
  then show ?thesis using l h listGET_OWNER_OF_HEAD_ENTRY_ok [OF h, of L] by (auto split: list.splits)
next
  case (IsEmpty L)
  then show ?thesis using l h listLIST_IS_EMPTY_ok [OF h, of L] by auto
next
  case (IsWithin L i)
  then show ?thesis using h holdsD(2) [OF h, of i] by (simp add: listIS_CONTAINED_WITHIN_def)
qed (use l h vListInitialiseItem_ok [OF h] vListInsertEnd_ok [OF h] vListInsert_ok [OF h] listSET_LIST_ITEM_VALUE_ok [OF h]
  in fastforce)+

lemma list_run_ok:
  "holds s K \<Longrightarrow> list_legal_run K cs \<Longrightarrow>
    \<exists>s'. list_run cs s = Some (fst (contract_run cs K), s') \<and> holds s' (snd (contract_run cs K))"
proof (induction cs arbitrary: s K)
  case (Cons c cs)
  from do_list_call_ok [OF Cons.prems(1), of c] Cons.prems(2) obtain s1 where
    1: "do_list_call c s = Some (fst (contract_call c K), s1)" "holds s1 (snd (contract_call c K))" by auto
  from Cons.IH [OF 1(2)] Cons.prems(2) show ?case using 1(1) by (auto split: prod.splits)
qed simp

text \<open>Before anything is initialised no item is in a list.\<close>

definition no_lists :: "('i, 'l) store \<Rightarrow> ('i, 'l) klists" where
  "no_lists s = \<lparr>seq = (\<lambda>_. ([], [])), val = (\<lambda>i. xItemValue (item s (Item i))), home = (\<lambda>_. None), made = (\<lambda>_. False)\<rparr>"

definition loose :: "('i, 'l) store \<Rightarrow> bool" where
  "loose s \<longleftrightarrow> (\<forall>i. pvContainer (item s (Item i)) = None \<and> xItemValue (item s (Item i)) \<le> portMAX_DELAY)"

lemma loose_holds: "loose s \<Longrightarrow> holds s (no_lists s)"
  by (simp add: holds_def no_lists_def loose_def)

end
