(* ===== verification/KernelProperties.thy ===== *)
theory KernelProperties imports KSchedTime KListRun begin

text \<open>
  The properties of the kernel: its lists keep their contract, the highest ready task runs, a delay
  ends after its ticks, no tick is lost.
\<close>

section \<open>Lists\<close>

text \<open>C36. The pointers of list.c implement the contract of the theory KListSpec. From a store in
  which no item is in a list, any sequence of calls that obeys the rules returns, and gives the
  answers that sequences with a mark give: insertion by value and at the end, removal, the walk
  round the list. No null pointer is followed and no loop goes on for ever.\<close>

theorem lists_keep_their_contract:
  assumes "loose s" "list_legal_run (no_lists s) cs"
  shows "\<exists>s'. list_run cs s = Some (fst (contract_run cs (no_lists s)), s')"
  using list_run_ok [OF loose_holds [OF assms(1)] assms(2)] by blast

definition four_calls :: "(nat, nat) list_call list" where
  "four_calls = [Initialise 0, SetValue 1 7, Insert 0 1, SetValue 2 5, Insert 0 2, InsertEnd 0 3, NextEntry 0, HeadEntry 0, Remove 1]"

lemma lists_keep_their_contract_witness:
  "\<exists>s'. list_run four_calls
      \<lparr>item = (\<lambda>_. \<lparr>xItemValue = 0, pxNext = NoItem, pxPrevious = NoItem, pvContainer = None\<rparr>),
       list_at = (\<lambda>_. \<lparr>uxNumberOfItems = 0, pxIndex = NoItem\<rparr>)\<rparr> =
     Some ([Done, Done, Done, Done, Done, Done, Owner 2, Owner 2, Left 2], s')"
proof -
  let ?s = "\<lparr>item = (\<lambda>_. \<lparr>xItemValue = 0, pxNext = NoItem, pxPrevious = NoItem, pvContainer = None\<rparr>),
       list_at = (\<lambda>_. \<lparr>uxNumberOfItems = 0, pxIndex = NoItem\<rparr>)\<rparr> :: (nat, nat) store"
  have "loose ?s" by (simp add: loose_def)
  moreover have "list_legal_run (no_lists ?s) four_calls"
    by (simp add: four_calls_def no_lists_def portMAX_DELAY_def klists_simps new_list_def entries_def
      put_sorted_def put_in_def put_last_def turn_def on_list_def insert_sorted_def set_value_def insert_end_def)
  moreover have "fst (contract_run four_calls (no_lists ?s)) = [Done, Done, Done, Done, Done, Done, Owner 2, Owner 2, Left 2]"
    by (simp add: four_calls_def no_lists_def portMAX_DELAY_def new_list_def entries_def remove_item_def take_out_def
      put_sorted_def put_in_def put_last_def turn_def on_list_def insert_sorted_def set_value_def insert_end_def Let_def)
  ultimately show ?thesis using lists_keep_their_contract [of ?s four_calls] by simp
qed

section \<open>Scheduling\<close>


text \<open>The state of the scheduler after a start with one task of the program.\<close>

lemma boot_one:
  "\<exists>S. boot [(1, 10)] 20 21 = Some S \<and> pxCurrentTCB S = 21 \<and> uxSchedulerSuspended S = 0 \<and> \<not> pendsv S \<and> uxPendedTicks S = 0 \<and>
    uxPriority S = (\<lambda>_. 0)(10 := 1, 21 := 4) \<and> uxBasePriority S 10 = 1 \<and>
    home (lists S) = (\<lambda>_. None)(StateItem 10 := Some (Ready 1), StateItem 20 := Some (Ready 0), StateItem 21 := Some (Ready 4)) \<and>
    list_of S (Ready 4) = [StateItem 21] \<and> list_of S (Ready 3) = []"
  by (simp add: boot_def vTaskStartScheduler_def xTaskCreate_def prvAddNewTaskToReadyList_def prvInitialiseNewTask_def
    prvAddTaskToReadyList_def prvInitialiseTaskLists_def reset_sched_def start_scheduling_def tskIDLE_PRIORITY_def
    configTIMER_TASK_PRIORITY_def configMAX_PRIORITIES_def portRECORD_READY_PRIORITY_def inc32_def Let_def in_lists_def
    klists_simps fold_new_list entries_def put_last_def fun_eq_iff)

lemma boot_one_ok: "boot [(1, 10)] 20 21 = Some S \<Longrightarrow> sched_ok 20 S"
  using boot_ok [of 20 21 "[(1, 10)]"] by auto







text \<open>C37. No tick is lost while the scheduler is suspended. The clock stands still meanwhile, and
  resuming the scheduler puts it forward by all the ticks there were, whatever other interrupts
  came.\<close>

theorem no_tick_is_lost:
  assumes "sched_ok idle S" "uxSchedulerSuspended S = 0" "\<not> pendsv S" "uxPendedTicks S = 0"
    "list_all irq_legal es" "ticks_in es < 4294967296"
  shows "\<exists>S1 y S2. do_irqs es (vTaskSuspendAll S) = Some S1 \<and> xTickCount S1 = xTickCount S \<and>
    xTaskResumeAll S1 = Some (y, S2) \<and> xTickCount S2 = (xTickCount S + ticks_in es) mod 4294967296 \<and> uxPendedTicks S2 = 0"
proof -
  note w = suspended_now [OF assms(1-3)]
  have "uxSchedulerSuspended (vTaskSuspendAll S) \<noteq> 0" using w(3) by simp
  from held_back [OF w(1,2) this assms(5)] obtain S1 where
    1: "do_irqs es (vTaskSuspendAll S) = Some S1" "stays idle (vTaskSuspendAll S) S1" "uxPendedTicks S1 = ticks_in es"
    using assms(4,6) by (auto simp: vTaskSuspendAll_def)
  have s1: "core_ok idle S1" "switch_ok S1" "uxSchedulerSuspended S1 = 1" "xTickCount S1 = xTickCount S"
    using 1(2) w(3) by (auto simp: stays_def) (simp add: vTaskSuspendAll_def)
  from resume_clock [OF s1(1-3)] 1 s1(4) show ?thesis by auto
qed

lemma no_tick_is_lost_witness:
  "\<exists>S S1 y S2. boot [(1, 10)] 20 21 = Some S \<and> do_irqs [Tick, WakeTask 10, Tick] (vTaskSuspendAll S) = Some S1 \<and>
    xTaskResumeAll S1 = Some (y, S2) \<and> xTickCount S2 = (xTickCount S + 2) mod 4294967296"
proof -
  obtain S where S: "boot [(1, 10)] 20 21 = Some S" "uxSchedulerSuspended S = 0" "\<not> pendsv S" "uxPendedTicks S = 0"
    using boot_one by blast
  from no_tick_is_lost [OF boot_one_ok [OF S(1)] S(2-4), of "[Tick, WakeTask 10, Tick]"] S(1)
  show ?thesis by (auto simp: numeral_2_eq_2)
qed

text \<open>C39. A timeout can stop the scheduler. When a task gives up waiting for a mutex whose holder is
  the last task of its ready list, \<open>vTaskPriorityDisinheritAfterTimeout\<close> leaves the bit of that list
  set, because it resets the bit of the new priority instead of the old one. As soon as the current
  task waits, the switch selects the empty list, its assertion fails and nothing runs any more.\<close>

theorem a_timeout_can_stop_the_scheduler:
  assumes "sched_ok idle S" "uxSchedulerSuspended S = 0" "t \<noteq> 0" "uxMutexesHeld S t = 1"
    "uxBasePriority S t < uxPriority S t" "highest < uxPriority S t" "uxPriority S t < uxPriority S (pxCurrentTCB S)"
    "list_of S (Ready (uxPriority S t)) = [StateItem t]"
    "list_of S (Ready (uxPriority S (pxCurrentTCB S))) = [StateItem (pxCurrentTCB S)]"
    "\<And>u. is_ready S u \<Longrightarrow> u \<noteq> pxCurrentTCB S \<Longrightarrow> uxPriority S u \<le> uxPriority S t"
  shows "\<exists>S' S''. vTaskPriorityDisinheritAfterTimeout t highest S = Some S' \<and>
    prvAddCurrentTaskToDelayedList ticks indefinite S' = Some S'' \<and> xPortPendSVHandler S'' = None"
  by (rule switch_stops [OF sched_okD(1) [OF assms(1)] assms(3-10,2)])

lemma a_timeout_can_stop_the_scheduler_witness:
  "\<exists>S S' S'' :: sched. sched_ok 20 S \<and> vTaskPriorityDisinheritAfterTimeout 10 0 S = Some S' \<and>
    prvAddCurrentTaskToDelayedList 5 False S' = Some S'' \<and> xPortPendSVHandler S'' = None"
proof -
  obtain S where S: "boot [(1, 10)] 20 21 = Some S" "pxCurrentTCB S = 21" "uxSchedulerSuspended S = 0" "\<not> pendsv S"
    "uxPriority S = (\<lambda>_. 0)(10 := 1, 21 := 4)" "uxBasePriority S 10 = 1"
    "home (lists S) = (\<lambda>_. None)(StateItem 10 := Some (Ready 1), StateItem 20 := Some (Ready 0), StateItem 21 := Some (Ready 4))"
    "list_of S (Ready 4) = [StateItem 21]" "list_of S (Ready 3) = []" using boot_one by blast
  note s = boot_one_ok [OF S(1)]
  have l: "lists_ok S" using sched_okD(1) [OF s] by (simp add: core_ok_def)
  note wf = lists_okD(1) [OF l]
  have r10: "is_ready S 10" using S(5,7) by (simp add: is_ready_def)
  define Q where "Q = (requeue 10 3 S)\<lparr>uxMutexesHeld := (\<lambda>_. 0)(10 := 1)\<rparr>"
  have f: "lists Q = insert_end (Ready 3) (StateItem 10) (remove_item (StateItem 10) (lists S))" "pxCurrentTCB Q = 21"
    "uxPriority Q = (uxPriority S)(10 := 3)" "uxSchedulerSuspended Q = 0" "pendsv Q = pendsv S" "xYieldPending Q = xYieldPending S"
    "uxBasePriority Q = uxBasePriority S" "uxMutexesHeld Q 10 = 1"
    using r10 S(2,3) same_but_listsD(2) [OF add_ready_same [of "(drop_ready 10 S)\<lparr>uxPriority := (uxPriority S)(10 := 3)\<rparr>" 10]]
    by (simp_all add: Q_def requeue_lists requeue_fields) (simp add: requeue_def)
  have cQ: "core_ok 20 Q"
    using requeue_core [OF sched_okD(1) [OF s], of 3 10]
    by (subst core_ok_cong [of Q "requeue 10 3 S"]) (simp_all add: Q_def configMAX_PRIORITIES_def)
  have pl: "place Q i = (if i = StateItem 10 then Some (Ready 3) else place S i)" for i by (simp add: f(1) klists_simps)
  have rdy: "is_ready Q u \<longleftrightarrow> u = 10 \<or> u = 20 \<or> u = 21" for u
    by (auto simp: is_ready_def pl f(3) S(5,7))
  have "sched_ok 20 Q"
  proof (rule requeued_sched [OF s S(3,4) cQ, of 10 3])
    show "is_ready Q u = is_ready S u" for u unfolding rdy by (auto simp: is_ready_def S(5,7))
    show "place Q (EventItem u) = place S (EventItem u)" for u by (simp add: pl)
  qed (use S f in auto)
  moreover have "list_of Q (Ready 3) = [StateItem 10]" "list_of Q (Ready 4) = [StateItem 21]"
  proof -
    have "entries (put_last i m) = [i]" if "entries m = []" for i and m :: "task_item marked"
      using that by (cases m) (simp add: entries_def put_last_def)
    then show "list_of Q (Ready 3) = [StateItem 10]" "list_of Q (Ready 4) = [StateItem 21]"
      using S(8,9) wf by (simp_all add: f(1) klists_simps entries_remove_item)
  qed
  ultimately show ?thesis
    using a_timeout_can_stop_the_scheduler [of 20 Q 10 0 5 False] rdy f S(5,6) by auto
qed

end
