(* ===== verification/Spec2Isabelle.thy ===== *)
theory Spec2Isabelle imports MotProperties BoardProperties JsonProperties OneWireProperties SensorProperties NetProperties DeviceProperties Heap4Properties KernelProperties begin

text \<open>
  Verification of the nfc firmware (src/nfc), which moves the three stepper motors of a machine
  on an LPC43xx microcontroller under FreeRTOS.

  \<^bold>\<open>The program.\<close> A request arrives as JSON text on a TCP connection (tcp_server.c), is parsed
  (parson.c), and its commands are carried out one by one (json_wp.c, net_commands.c): they move
  an axis or stop it, read counters, temperatures and the log, or save the network settings in the
  EEPROM (settings.c, eeprom.c). A movement (mot_pap.c, x_axis.c, y_axis.c, z_axis.c) starts a
  timer (tmr.c) whose interrupt makes the step pulses; every so many pulses the interrupt sends a
  message to the supervisor task of the axis, which ramps the speed and watches for a stalled
  motor. The pins are behind gpio.c and relay.c, the log is debug.c, and the memory of all of it
  comes from the kernel's allocator (freertos/src/heap_4.c), which the repository extends with a
  list of allocated blocks and canaries that the task of mem_check.c inspects. Two digital sensors
  hang on a 1-Wire bus (one-wire.c, temperature_ds18b20.c), an analogue one on a converter
  (temperature.c). lwip_init.c starts the network with the saved settings and watches the cable.

  \<^bold>\<open>How the code is modelled.\<close> A C function is a HOL function from the states it reads to
  the states it changes; a C struct is a record, a tagged union a datatype. What the C standard
  leaves undefined, and a division by zero, is a fault \<open>Inl\<close> of the type \<open>'a res\<close> (Prelude);
  unsigned arithmetic is written out on integers with its wrap-around. Calls to the vendor library
  are recorded in a list in the order they are made, and the state of a pin is computed from that
  list. What comes from outside is an input: the answers of status registers, the clock rates, the
  readings of the converter, the devices on the bus, the requests the allocator refuses, what a
  socket call returns.

  \<^bold>\<open>The theories and their sources.\<close>
  \<^item> Prelude: faults, C integers, busy waiting, numbers as text.
  \<^item> Board, Settings: gpio.c, relay.c, debug.c; settings.c, eeprom.c, the macro of ip_addr.h.
    BoardProperties: the log owns one block per message; settings survive a restart.
  \<^item> Tmr, Axes, MotPap, MotControl, MotSystem: tmr.c; x_axis.c, y_axis.c, z_axis.c, encoders.c; the
    commands of mot_pap.c; its supervisor and interrupt; main.c up to the scheduler and the whole
    as a step relation \<open>sys_step\<close>, whose runs interleave interrupts, supervisor messages and
    commands, with a command that sleeps before a reversal cut in two. MotInvariants: the invariant
    of an axis and of the system, kept by every step, by rule induction over the runs. MotDemo: one
    run, event by event. MotProperties: pulse counts, bounds of the ramp, outcomes of every
    command, and the states that go wrong.
  \<^item> Heap: the allocator as clients see it. Heap4: the allocator itself, on raw memory. Heap4Lists,
    Heap4Inv: the heap as a list of blocks and the chain of the free ones. Heap4Ok: the invariant.
    Heap4Malloc, Heap4Take, Heap4Alloc, Heap4Free: whole calls keep it. Heap4Spec, Heap4Run: the
    contract, an allocator on lists, and runs of calls. Heap4Check: the integrity check.
    Heap4Client: the interface \<open>allocator\<close> and its interpretation on heap_4, which makes the
    allocator of the theory Heap an abstraction of it. Heap4Properties.
  \<^item> CDouble, CDoubleFacts: C strings, doubles, \<open>strtod\<close> and \<open>%1.17g\<close> with exact rounding.
    JsonValue, JsonParse, JsonSerial, JsonCopy, JsonApi: parson.c. JsonParseLemmas, JsonObject,
    JsonPaths: what these guarantee, with the interface \<open>name_map\<close> of an object. NumberTrip,
    NumberText, NumberBack, StringTrip, JsonTrip, JsonTripLoops, JsonTripValues: the text of a
    value is read back as the value. JsonProperties.
  \<^item> NetCommands, TcpServer: net_commands.c and json_wp.c; tcp_server.c. NetAnswers, NetLemmas,
    NetEffects, NetRequest: what a command and a whole request do to the node. NetProperties.
  \<^item> OneWire, OneWireSearch, OneWireProperties: one-wire.c and the search for the devices.
  \<^item> Sensors, SensorProperties: wait.c, temperature.c, misc.h. DeviceTasks, DeviceProperties: the
    task of temperature_ds18b20.c, lwip_init.c, and the text of an address (ip_addr.c).
  \<^item> KList: the lists of the kernel (freertos/src/list.c) on a store of items and pointers. KListSpec:
    their contract, sequences of items with a mark. KListRefine, KListRun: the pointers
    implement the contract. KListFacts: what the sequences keep. KSched, KTasks: the scheduler and
    the task API (freertos/src/tasks.c) over these lists, with the two handlers of port.c that
    schedule. KSchedInv: the invariant: every task in the list its state says, the bitmap true to
    the ready lists, the delayed tasks in the order of their times and none late. KSchedMoves,
    KSchedResume, KSchedWait: the pieces of the calls keep it. KSchedIrq: interrupts,
    also while the scheduler is suspended. KSchedCalls, KSchedTasks, KSchedPrio: whole calls.
    KSchedBoot: the start. KSchedRun, KSchedTime: runs of interrupts and calls, the clock,
    and a bit that stays set. KernelProperties: the highest ready task runs, a delay ends
    after its ticks, no tick is lost, and a timeout that stops the scheduler.

  \<^bold>\<open>Bounds and fuel.\<close> The loops of the JSON parser over members and items run on fuel, one more
  than the length of the text, and the search of the 1-Wire bus makes 64 turns, one for each bit of
  a code; that the fuel is enough is part of what is proved (\<open>parser_returns\<close>). Nesting counts down
  from 2049. The loops of heap_4 and of the waits are partial functions whose value \<open>None\<close> is a
  loop that runs for ever; that they return is proved of every state of the invariant. So it is with
  the loops of the kernel, where \<open>None\<close> is also an assertion that fails.

  \<^bold>\<open>Interfaces.\<close> Four locales: \<open>settings_store\<close> and its extension \<open>eeprom_pages\<close> (a store that
  gives back what was saved, on the pages of the EEPROM), \<open>name_map\<close> (an object as a map), and
  \<open>allocator\<close> (what clients rely on). Each is interpreted on the code's own functions.

  \<^bold>\<open>Not modelled.\<close> The TCP/IP stack (src/lwip) but for two routines on addresses. Of the kernel:
  the queues, timers, event groups, stream buffers and co-routines, task notifications, the stacks
  and registers of tasks, and the idle task, which frees what deleted tasks leave. A task there is
  the address of its control block and its fields are functions of it; the owner of a list item is
  its name; fewer than 2^32 tasks exist. The firmware's components take the documented behaviour
  of these parts. Where heap_4 is concerned, suspending the
  scheduler makes the allocator's calls atomic. The vendor start-up code
  (cr_startup_lpc43xx.c, sysinit.c, crp.c). The driver ds18b20.c, which the repository does not
  have. The parts of parson.c that read and write files, which the firmware has no use for. The
  three single-precision routines of misc.h and temperature_init, which nothing calls. In a request
  the motor commands run as a whole, sleeps included; the interleaving with interrupts is the
  matter of MotSystem.
\<close>

end
